(* ===== verification/Prelude.thy ===== *)
theory Prelude
  imports Complex_Main "HOL-Library.Word" "HOL-Library.Signed_Division"
    "HOL-Library.Monad_Syntax"
begin

text \<open>
  Shared vocabulary of the development.  Machine integers of the Rust sources are either
  words (\<open>u8\<close> \<dots> \<open>u64\<close>, where casts and shifts matter) or \<open>int\<close>/\<open>nat\<close> with the range check of
  the \<open>checked_*\<close> methods written out.  \<open>Result\<close> is the sum type with \<open>Inl\<close> for the error,
  \<open>Option\<close> is \<open>option\<close>.  Slices \<open>xs.get(i)\<close> and \<open>xs.get(s..s+n)\<close> are \<open>nth_opt\<close> and \<open>slice_get\<close>.
\<close>

named_theorems res_simps \<open>rewriting of the result monad\<close>
named_theorems slice_simps \<open>rewriting of slice access\<close>

type_synonym u8 = "8 word"
type_synonym u16 = "16 word"
type_synonym u32 = "32 word"
type_synonym u64 = "64 word"

type_synonym ('e, 'a) result = "'e + 'a"

section \<open>Results\<close>

definition res_bind :: "'e + 'a \<Rightarrow> ('a \<Rightarrow> 'e + 'b) \<Rightarrow> 'e + 'b" where
  "res_bind m f = (case m of Inl e \<Rightarrow> Inl e | Inr x \<Rightarrow> f x)"

definition res_map_err :: "('e \<Rightarrow> 'f) \<Rightarrow> 'e + 'a \<Rightarrow> 'f + 'a" where
  "res_map_err g m = (case m of Inl e \<Rightarrow> Inl (g e) | Inr x \<Rightarrow> Inr x)"

definition ok_or :: "'e \<Rightarrow> 'a option \<Rightarrow> 'e + 'a" where
  "ok_or e m = (case m of None \<Rightarrow> Inl e | Some x \<Rightarrow> Inr x)"

definition guard_res :: "bool \<Rightarrow> 'e \<Rightarrow> 'e + unit" where
  "guard_res b e = (if b then Inr () else Inl e)"

fun res_traverse :: "('a \<Rightarrow> 'e + 'b) \<Rightarrow> 'a list \<Rightarrow> 'e + 'b list" where
  "res_traverse f [] = Inr []"
| "res_traverse f (x # xs) =
     res_bind (f x) (\<lambda>y. res_bind (res_traverse f xs) (\<lambda>ys. Inr (y # ys)))"

fun res_foldl :: "('s \<Rightarrow> 'a \<Rightarrow> 'e + 's) \<Rightarrow> 's \<Rightarrow> 'a list \<Rightarrow> 'e + 's" where
  "res_foldl f s [] = Inr s"
| "res_foldl f s (x # xs) = res_bind (f s x) (\<lambda>s'. res_foldl f s' xs)"

fun res_all :: "('a \<Rightarrow> 'e + unit) \<Rightarrow> 'a list \<Rightarrow> 'e + unit" where
  "res_all f [] = Inr ()"
| "res_all f (x # xs) = res_bind (f x) (\<lambda>_. res_all f xs)"

lemma res_bind_simps [simp, res_simps]:
  "res_bind (Inl e) f = Inl e"
  "res_bind (Inr x) f = f x"
  by (simp_all add: res_bind_def)

lemma res_bind_Inr_iff [res_simps]:
  "res_bind m f = Inr y \<longleftrightarrow> (\<exists>x. m = Inr x \<and> f x = Inr y)"
  by (cases m) auto

lemma res_bind_Inl_iff [res_simps]:
  "res_bind m f = Inl e \<longleftrightarrow> m = Inl e \<or> (\<exists>x. m = Inr x \<and> f x = Inl e)"
  by (cases m) auto

lemma res_map_err_simps [simp, res_simps]:
  "res_map_err g (Inl e) = Inl (g e)"
  "res_map_err g (Inr x) = Inr x"
  by (simp_all add: res_map_err_def)

lemma res_map_err_Inr_iff [simp, res_simps]: "res_map_err g m = Inr y \<longleftrightarrow> m = Inr y"
  by (cases m) auto

lemma ok_or_simps [simp, res_simps]:
  "ok_or e None = Inl e"
  "ok_or e (Some x) = Inr x"
  by (simp_all add: ok_or_def)

lemma ok_or_Inr_iff [simp, res_simps]: "ok_or e m = Inr y \<longleftrightarrow> m = Some y"
  by (cases m) auto

lemma guard_res_Inr_iff [simp, res_simps]: "guard_res b e = Inr u \<longleftrightarrow> b"
  by (simp add: guard_res_def)

lemma guard_res_True [simp]: "guard_res True e = Inr ()"
  by (simp add: guard_res_def)

lemma guard_res_False [simp]: "guard_res False e = Inl e"
  by (simp add: guard_res_def)

lemma res_all_Inr_iff [simp, res_simps]: "res_all f xs = Inr u \<longleftrightarrow> (\<forall>x\<in>set xs. f x = Inr ())"
  by (induction xs) (auto simp: res_simps)

lemma res_traverse_Inr_iff [res_simps]:
  "res_traverse f xs = Inr ys \<longleftrightarrow> list_all2 (\<lambda>x y. f x = Inr y) xs ys"
proof (induction xs arbitrary: ys)
  case (Cons x xs)
  then show ?case by (cases ys) (auto simp: res_simps)
qed auto

lemma res_traverse_Inr_total: "(\<And>x. x \<in> set xs \<Longrightarrow> f x = Inr (g x)) \<Longrightarrow> res_traverse f xs = Inr (map g xs)"
  by (induction xs) auto

lemma res_traverse_defined:
  "(\<And>x. x \<in> set xs \<Longrightarrow> \<exists>y. f x = Inr y) \<Longrightarrow> \<exists>ys. res_traverse f xs = Inr ys"
proof (induction xs)
  case (Cons x xs)
  then obtain y ys where "f x = Inr y" "res_traverse f xs = Inr ys" by (meson list.set_intros)
  then show ?case by simp
qed simp

lemma res_foldl_append: "res_foldl f s (xs @ ys) = res_bind (res_foldl f s xs) (\<lambda>s'. res_foldl f s' ys)"
proof (induction xs arbitrary: s)
  case (Cons x xs)
  then show ?case by (cases "f s x") auto
qed simp

lemma res_foldl_invariant:
  assumes "res_foldl f s xs = Inr s'" and "P s"
    and "\<And>s x s'. x \<in> set xs \<Longrightarrow> P s \<Longrightarrow> f s x = Inr s' \<Longrightarrow> P s'"
  shows "P s'"
  using assms
proof (induction xs arbitrary: s)
  case (Cons x xs)
  then obtain s1 where "f s x = Inr s1" and "res_foldl f s1 xs = Inr s'"
    by (auto simp: res_simps)
  moreover from this Cons.prems have "P s1" by auto
  ultimately show ?case using Cons.IH Cons.prems(3) by (meson list.set_intros(2))
qed simp

section \<open>Slices\<close>

definition nth_opt :: "'a list \<Rightarrow> nat \<Rightarrow> 'a option" where
  "nth_opt xs i = (if i < length xs then Some (xs ! i) else None)"

definition slice_get :: "'a list \<Rightarrow> nat \<Rightarrow> nat \<Rightarrow> 'a list option" where
  "slice_get xs start n = (if start + n \<le> length xs then Some (take n (drop start xs)) else None)"

lemma nth_opt_Some_iff [simp, slice_simps]: "nth_opt xs i = Some x \<longleftrightarrow> i < length xs \<and> xs ! i = x"
  by (auto simp: nth_opt_def)

lemma nth_opt_None_iff [simp, slice_simps]: "nth_opt xs i = None \<longleftrightarrow> length xs \<le> i"
  by (auto simp: nth_opt_def)

lemma nth_opt_append_left [slice_simps]: "i < length xs \<Longrightarrow> nth_opt (xs @ ys) i = nth_opt xs i"
  by (simp add: nth_opt_def nth_append)

lemma nth_opt_snoc [simp, slice_simps]: "nth_opt (xs @ [x]) (length xs) = Some x"
  by (simp add: nth_opt_def)

lemma slice_get_Some_iff [slice_simps]:
  "slice_get xs s n = Some ys \<longleftrightarrow> s + n \<le> length xs \<and> ys = take n (drop s xs)"
  by (auto simp: slice_get_def)

lemma slice_get_None_iff [simp, slice_simps]: "slice_get xs s n = None \<longleftrightarrow> length xs < s + n"
  by (auto simp: slice_get_def)

lemma slice_get_length: "slice_get xs s n = Some ys \<Longrightarrow> length ys = n"
  by (auto simp: slice_simps)

lemma slice_get_subset: "slice_get xs s n = Some ys \<Longrightarrow> set ys \<subseteq> set xs"
  by (auto simp: slice_simps dest: in_set_takeD in_set_dropD)

lemma slice_get_append_left [slice_simps]:
  "s + n \<le> length xs \<Longrightarrow> slice_get (xs @ ys) s n = slice_get xs s n"
  by (simp add: slice_get_def)

lemma slice_get_appended [simp, slice_simps]:
  "slice_get (xs @ ys) (length xs) (length ys) = Some ys"
  by (simp add: slice_get_def)

lemma slice_get_zero [simp, slice_simps]: "s \<le> length xs \<Longrightarrow> slice_get xs s 0 = Some []"
  by (simp add: slice_get_def)

section \<open>Range-checked integers\<close>

definition in_range :: "int \<Rightarrow> int \<Rightarrow> int \<Rightarrow> bool" where
  "in_range lo hi x \<longleftrightarrow> lo \<le> x \<and> x \<le> hi"

definition checked :: "int \<Rightarrow> int \<Rightarrow> int \<Rightarrow> int option" where
  "checked lo hi x = (if in_range lo hi x then Some x else None)"

definition i128_min :: int where "i128_min = - (2 ^ 127)"
definition i128_max :: int where "i128_max = 2 ^ 127 - 1"
definition i64_min :: int where "i64_min = - (2 ^ 63)"
definition i64_max :: int where "i64_max = 2 ^ 63 - 1"
definition u64_max :: int where "u64_max = 2 ^ 64 - 1"
definition i32_min :: int where "i32_min = - (2 ^ 31)"
definition i32_max :: int where "i32_max = 2 ^ 31 - 1"

abbreviation i128 :: "int \<Rightarrow> bool" where "i128 \<equiv> in_range i128_min i128_max"
abbreviation i64 :: "int \<Rightarrow> bool" where "i64 \<equiv> in_range i64_min i64_max"
abbreviation u64r :: "int \<Rightarrow> bool" where "u64r \<equiv> in_range 0 u64_max"
abbreviation i32 :: "int \<Rightarrow> bool" where "i32 \<equiv> in_range i32_min i32_max"

abbreviation checked_i128 :: "int \<Rightarrow> int option" where "checked_i128 \<equiv> checked i128_min i128_max"
abbreviation checked_i64 :: "int \<Rightarrow> int option" where "checked_i64 \<equiv> checked i64_min i64_max"
abbreviation checked_u64 :: "int \<Rightarrow> int option" where "checked_u64 \<equiv> checked 0 u64_max"
abbreviation checked_i32 :: "int \<Rightarrow> int option" where "checked_i32 \<equiv> checked i32_min i32_max"

lemmas int_limits = i128_min_def i128_max_def i64_min_def i64_max_def u64_max_def
  i32_min_def i32_max_def

lemma checked_Some_iff [simp]: "checked lo hi x = Some y \<longleftrightarrow> in_range lo hi x \<and> y = x"
  by (auto simp: checked_def)

lemma checked_None_iff [simp]: "checked lo hi x = None \<longleftrightarrow> \<not> in_range lo hi x"
  by (auto simp: checked_def)

text \<open>The cast \<open>x as i128\<close> of an unsigned 128-bit value.\<close>

definition wrap_i128 :: "int \<Rightarrow> int" where
  "wrap_i128 x = (x + 2 ^ 127) mod 2 ^ 128 - 2 ^ 127"

lemma wrap_i128_id [simp]: "i128 x \<Longrightarrow> wrap_i128 x = x"
  by (simp add: wrap_i128_def in_range_def int_limits)

section \<open>Bits\<close>

unbundle bit_operations_syntax

lemma and_masks:
  "(x::'a::len word) AND 0xFFFFF = take_bit 20 x"
  "(x::'a::len word) AND 0xFFFF = take_bit 16 x"
  "(x::'a::len word) AND 0xFF = take_bit 8 x"
  "(x::'a::len word) AND 0x1F = take_bit 5 x"
  "(x::'a::len word) AND 15 = take_bit 4 x"
  "(x::'a::len word) AND 7 = take_bit 3 x"
  "(x::'a::len word) AND 3 = take_bit 2 x"
  by (simp_all add: take_bit_eq_mask mask_eq_exp_minus_1)

lemma bit_beyond [simp]:
  "8 \<le> n \<Longrightarrow> \<not> bit (b::u8) n"
  "16 \<le> n \<Longrightarrow> \<not> bit (h::u16) n"
  "32 \<le> n \<Longrightarrow> \<not> bit (w::u32) n"
  "64 \<le> n \<Longrightarrow> \<not> bit (d::u64) n"
  using bit_imp_le_length [of b n] bit_imp_le_length [of h n] bit_imp_le_length [of w n]
    bit_imp_le_length [of d n]
  by auto

lemma bit_bound:
  "bit (b::u8) n \<Longrightarrow> n < 8"
  "bit (h::u16) n \<Longrightarrow> n < 16"
  "bit (w::u32) n \<Longrightarrow> n < 32"
  "bit (d::u64) n \<Longrightarrow> n < 64"
  by (metis bit_beyond not_le)+

lemma take_bit_self: "(x::'a::len word) < 2 ^ n \<Longrightarrow> take_bit n x = x"
  by (simp add: take_bit_eq_mask less_mask_eq)

lemma take_bit_self_iff: "take_bit n (x::'a::len word) = x \<longleftrightarrow> unat x < 2 ^ n"
proof
  assume "take_bit n x = x"
  then have "unat x = unat (take_bit n x)" by simp
  also have "\<dots> < 2 ^ n" by (simp only: unsigned_take_bit_eq take_bit_nat_less_exp)
  finally show "unat x < 2 ^ n" .
next
  assume "unat x < 2 ^ n"
  then have "unat (take_bit n x) = unat x" by (simp only: unsigned_take_bit_eq take_bit_nat_eq_self)
  then show "take_bit n x = x" by (simp only: word_unat_eq_iff)
qed

lemma unat_of_nat_u32 [simp]: "n < 2 ^ 32 \<Longrightarrow> unat (of_nat n :: u32) = n"
  by (simp add: unat_of_nat take_bit_nat_eq_self)

section \<open>Big-endian bytes\<close>

text \<open>\<open>to_be_bytes\<close> of a value of \<open>n\<close> bytes, and \<open>from_be_bytes\<close>.\<close>

primrec be_bytes :: "nat \<Rightarrow> 'a::len word \<Rightarrow> u8 list" where
  "be_bytes 0 w = []"
| "be_bytes (Suc n) w = be_bytes n (drop_bit 8 w) @ [ucast w]"

definition from_be_bytes :: "u8 list \<Rightarrow> 'a::len word" where
  "from_be_bytes bs = foldl (\<lambda>acc b. push_bit 8 acc OR ucast b) 0 bs"

lemma length_be_bytes [simp]: "length (be_bytes n w) = n"
  by (induction n arbitrary: w) auto

lemma be_bytes_add: "be_bytes (m + n) w = be_bytes m (drop_bit (8 * n) w) @ be_bytes n w"
  by (induction n arbitrary: w) (simp_all add: drop_bit_drop_bit add.commute)

lemma from_be_bytes_Nil [simp]: "from_be_bytes [] = 0"
  by (simp add: from_be_bytes_def)

lemma from_be_bytes_snoc: "from_be_bytes (bs @ [b]) = push_bit 8 (from_be_bytes bs) OR ucast b"
  by (simp add: from_be_bytes_def)

lemma from_be_bytes_zeros: "from_be_bytes (0 # bs) = from_be_bytes bs"
  by (simp add: from_be_bytes_def)

lemma byte_split:
  "push_bit 8 (take_bit n (drop_bit 8 (w::'a::len word))) OR ucast (ucast w :: u8) = take_bit (n + 8) w"
  by (rule bit_word_eqI) (auto simp: bit_simps)

lemma from_be_bytes_be_bytes: "from_be_bytes (be_bytes n w) = take_bit (8 * n) w"
proof (induction n arbitrary: w)
  case (Suc n)
  then show ?case using byte_split [of "8 * n" w] by (simp add: from_be_bytes_snoc add.commute)
qed simp

lemma ucast_or_low: "8 \<le> LENGTH('a) \<Longrightarrow> (ucast (push_bit 8 x OR ucast b :: 'a::len word) :: u8) = b"
  by (rule bit_word_eqI) (auto simp: bit_simps)

lemma from_be_bytes_take: "8 * length bs \<le> n \<Longrightarrow> take_bit n (from_be_bytes bs :: 'a::len word) = from_be_bytes bs"
proof (induction bs arbitrary: n rule: rev_induct)
  case (snoc b bs)
  then have "take_bit (n - 8) (from_be_bytes bs :: 'a word) = from_be_bytes bs" by simp
  moreover have "take_bit n (push_bit 8 (take_bit (n - 8) x) OR ucast b :: 'a word)
      = push_bit 8 (take_bit (n - 8) x) OR ucast b" for x
    using snoc.prems by (intro bit_word_eqI) (auto simp: bit_simps)
  ultimately show ?case by (metis from_be_bytes_snoc)
qed simp

lemma be_bytes_from_be_bytes:
  "8 * length bs \<le> LENGTH('a) \<Longrightarrow> be_bytes (length bs) (from_be_bytes bs :: 'a::len word) = bs"
proof (induction bs rule: rev_induct)
  case (snoc b bs)
  let ?x = "from_be_bytes bs :: 'a word"
  have t: "take_bit (LENGTH('a) - 8) ?x = ?x"
    using snoc.prems by (intro from_be_bytes_take) simp
  have "drop_bit 8 (push_bit 8 (take_bit (LENGTH('a) - 8) ?x) OR ucast b) = take_bit (LENGTH('a) - 8) ?x"
    by (rule bit_word_eqI) (auto simp: bit_simps)
  with t have "drop_bit 8 (push_bit 8 ?x OR ucast b) = ?x" by simp
  with snoc show ?case by (simp add: from_be_bytes_snoc ucast_or_low)
qed simp

end
