(* ===== verification/Syntax_Tree.thy ===== *)
theory Syntax_Tree
  imports Prelude
begin

text \<open>
  What the source frontend uses of the nodes of the Python parser, and the strings it takes apart.  A node carries
  its kind, its field in the parent, its text in the source (absent when it is not valid UTF-8), its position, the
  flags of the error recovery and its children.  Strings are lists of bytes; white space is that of ASCII.
\<close>

section \<open>Nodes\<close>

datatype ts_node = TsNode
  (ts_kind: string) (ts_named: bool) (ts_field: "string option") (ts_text: "string option")
  (ts_start_byte: nat) (ts_end_byte: nat) (ts_row: nat) (ts_column: nat)
  (ts_is_error: bool) (ts_is_missing: bool) (ts_has_error: bool) (ts_children: "ts_node list")

definition named_children :: "ts_node \<Rightarrow> ts_node list" where
  "named_children node = filter ts_named (ts_children node)"

definition child_by_field_name :: "string \<Rightarrow> ts_node \<Rightarrow> ts_node option" where
  "child_by_field_name field node = find (\<lambda>child. ts_field child = Some field) (ts_children node)"

definition first_named_child :: "ts_node \<Rightarrow> ts_node option" where
  "first_named_child node = nth_opt (named_children node) 0"

definition byte_range :: "ts_node \<Rightarrow> nat \<times> nat" where
  "byte_range node = (ts_start_byte node, ts_end_byte node)"

lemma sum_named: "sum_list (map size (named_children node)) \<le> sum_list (map size (ts_children node))"
  unfolding named_children_def by (induction "ts_children node") (auto intro: le_trans simp: sum_list_filter_le_nat)

lemma size_children: "sum_list (map size (ts_children node)) < size node"
  by (cases node) (simp add: size_list_conv_sum_list sum_list_Suc)

lemma size_named: "sum_list (map size (named_children node)) < size node"
  using sum_named size_children le_less_trans by blast

lemma size_child: "child \<in> set (ts_children node) \<Longrightarrow> size child < size node"
  using size_children [of node] member_le_sum_list [of "size child" "map size (ts_children node)"] by simp

lemma child_by_field_in: "child_by_field_name field node = Some child \<Longrightarrow> child \<in> set (ts_children node)"
  by (auto simp: child_by_field_name_def find_Some_iff)

lemma named_child_in: "child \<in> set (named_children node) \<Longrightarrow> child \<in> set (ts_children node)"
  by (simp add: named_children_def)

section \<open>Strings\<close>

definition before_dot :: "string \<Rightarrow> string" where
  "before_dot s = takeWhile (\<lambda>c. c \<noteq> CHR ''.'') s"

definition after_last_dot :: "string \<Rightarrow> string" where
  "after_last_dot s = rev (takeWhile (\<lambda>c. c \<noteq> CHR ''.'') (rev s))"

fun join_dots :: "string list \<Rightarrow> string" where
  "join_dots [] = []"
| "join_dots [s] = s"
| "join_dots (s # t # ss) = s @ CHR ''.'' # join_dots (t # ss)"

definition ends_with :: "string \<Rightarrow> string \<Rightarrow> bool" where
  "ends_with s suffix \<longleftrightarrow> length suffix \<le> length s \<and> drop (length s - length suffix) s = suffix"

definition ascii_whitespace :: "char \<Rightarrow> bool" where
  "ascii_whitespace c \<longleftrightarrow> of_char c \<in> {9, 10, 11, 12, 13, 32 :: nat}"

definition str_trim :: "string \<Rightarrow> string" where
  "str_trim s = rev (dropWhile ascii_whitespace (rev (dropWhile ascii_whitespace s)))"

definition is_digit :: "char \<Rightarrow> bool" where
  "is_digit c \<longleftrightarrow> 48 \<le> (of_char c :: nat) \<and> of_char c \<le> (57 :: nat)"

definition digits_value :: "string \<Rightarrow> int" where
  "digits_value s = foldl (\<lambda>n c. 10 * n + (of_char c - 48)) 0 s"

text \<open>\<open>str::parse::<i64>\<close>: an optional sign and decimal digits, in the range of 64 bits.\<close>

definition parse_i64 :: "string \<Rightarrow> int option" where
  "parse_i64 s =
     (let (negative, digits) = (case s of
          c # rest \<Rightarrow> if c = CHR ''-'' then (True, rest) else if c = CHR ''+'' then (False, rest) else (False, s)
        | [] \<Rightarrow> (False, []))
      in if digits = [] \<or> \<not> list_all is_digit digits then None
         else checked_i64 (if negative then - digits_value digits else digits_value digits))"

definition without_underscores :: "string \<Rightarrow> string" where
  "without_underscores s = filter (\<lambda>c. c \<noteq> CHR ''_'') s"

lemma parse_i64_range: "parse_i64 s = Some n \<Longrightarrow> i64 n"
  by (auto simp: parse_i64_def Let_def split: prod.splits if_splits)

end
