(* ===== verification/Dag_Store.thy ===== *)
theory Dag_Store
  imports Prelude
begin

text \<open>
  The arenas of the compiler store expressions and morphisms as nodes of a vector whose children are
  smaller indices.  This theory gives the tree that a node stands for and the facts the arenas share:
  the tree depends only on the nodes below, it is stable when nodes are added and under a renumbering
  of the nodes, and a depth-first worklist finds exactly the reachable nodes.
\<close>

section \<open>Trees of a store\<close>

datatype 'l rtree = RNode (rlabel: 'l) (rkids: "'l rtree list")

fun unfold_dag :: "(nat \<Rightarrow> 'l) \<Rightarrow> (nat \<Rightarrow> nat list) \<Rightarrow> nat \<Rightarrow> nat \<Rightarrow> 'l rtree" where
  "unfold_dag lab kids 0 i = RNode (lab i) []"
| "unfold_dag lab kids (Suc fuel) i = RNode (lab i) (map (unfold_dag lab kids fuel) (kids i))"

definition tree_at :: "(nat \<Rightarrow> 'l) \<Rightarrow> (nat \<Rightarrow> nat list) \<Rightarrow> nat \<Rightarrow> 'l rtree" where
  "tree_at lab kids i = unfold_dag lab kids i i"

definition descending :: "(nat \<Rightarrow> nat list) \<Rightarrow> bool" where
  "descending kids \<longleftrightarrow> (\<forall>i. \<forall>j\<in>set (kids i). j < i)"

lemma descendingD: "descending kids \<Longrightarrow> j \<in> set (kids i) \<Longrightarrow> j < i"
  by (auto simp: descending_def)

lemma unfold_enough:
  assumes "descending kids"
  shows "i \<le> fuel \<Longrightarrow> unfold_dag lab kids fuel i = tree_at lab kids i"
proof (induction fuel arbitrary: i rule: less_induct)
  case (less fuel)
  have sub: "unfold_dag lab kids f j = tree_at lab kids j" if "j \<in> set (kids i)" "f < fuel" "i \<le> Suc f" for j f
    using less.IH [OF that(2), of j] descendingD [OF assms that(1)] that(3) by simp
  show ?case
  proof (cases fuel)
    case 0
    with less.prems show ?thesis by (simp add: tree_at_def)
  next
    case (Suc f)
    show ?thesis
    proof (cases i)
      case 0
      then have "kids i = []" using descendingD [OF assms] by (metis list.set_intros(1) neq_Nil_conv not_less0)
      then show ?thesis using Suc 0 by (simp add: tree_at_def)
    next
      case (Suc k)
      have "map (unfold_dag lab kids f) (kids i) = map (unfold_dag lab kids k) (kids i)"
        using sub [of _ f] sub [of _ k] \<open>fuel = Suc f\<close> Suc less.prems by simp
      then show ?thesis using \<open>fuel = Suc f\<close> Suc by (simp add: tree_at_def)
    qed
  qed
qed

lemma tree_at_unfold:
  assumes "descending kids"
  shows "tree_at lab kids i = RNode (lab i) (map (tree_at lab kids) (kids i))"
proof (cases i)
  case 0
  then have "kids i = []" using descendingD [OF assms] by (metis list.set_intros(1) neq_Nil_conv not_less0)
  then show ?thesis using 0 by (simp add: tree_at_def)
next
  case (Suc k)
  have "map (unfold_dag lab kids k) (kids i) = map (tree_at lab kids) (kids i)"
    using Suc by (auto dest!: descendingD [OF assms] simp: less_Suc_eq_le unfold_enough [OF assms])
  then show ?thesis using Suc by (simp add: tree_at_def)
qed

text \<open>Two stores that correspond under a renumbering of a closed set of nodes have the same trees.\<close>

lemma tree_at_renumber:
  assumes "descending kids" "descending kids'"
    and closed: "\<And>i j. i \<in> A \<Longrightarrow> j \<in> set (kids i) \<Longrightarrow> j \<in> A"
    and lab: "\<And>i. i \<in> A \<Longrightarrow> lab' (f i) = lab i"
    and kids: "\<And>i. i \<in> A \<Longrightarrow> kids' (f i) = map f (kids i)"
  shows "i \<in> A \<Longrightarrow> tree_at lab' kids' (f i) = tree_at lab kids i"
proof (induction i rule: less_induct)
  case (less i)
  have "map (tree_at lab' kids') (map f (kids i)) = map (tree_at lab kids) (kids i)"
    using less descendingD [OF assms(1)] closed by simp
  then show ?case
    using less.prems by (simp add: tree_at_unfold [OF assms(1), of lab i]
        tree_at_unfold [OF assms(2), of lab' "f i"] lab kids)
qed

lemma tree_at_stable:
  assumes "descending kids" "descending kids'"
    and "\<And>j. j \<le> i \<Longrightarrow> lab' j = lab j" "\<And>j. j \<le> i \<Longrightarrow> kids' j = kids j"
  shows "tree_at lab' kids' i = tree_at lab kids i"
proof -
  have "tree_at lab' kids' (id i) = tree_at lab kids i"
    by (rule tree_at_renumber [OF assms(1,2), where A = "{..i}"])
      (use assms(3,4) in \<open>auto dest!: descendingD [OF assms(1)]\<close>)
  then show ?thesis by simp
qed

section \<open>Reachable nodes\<close>

inductive_set reachable_from :: "('a \<Rightarrow> 'a list) \<Rightarrow> 'a set \<Rightarrow> 'a set"
  for kids :: "'a \<Rightarrow> 'a list" and roots :: "'a set" where
  root: "i \<in> roots \<Longrightarrow> i \<in> reachable_from kids roots"
| kid: "i \<in> reachable_from kids roots \<Longrightarrow> j \<in> set (kids i) \<Longrightarrow> j \<in> reachable_from kids roots"

lemma reachable_least:
  assumes "roots \<subseteq> A" "\<And>i j. i \<in> A \<Longrightarrow> j \<in> set (kids i) \<Longrightarrow> j \<in> A"
  shows "reachable_from kids roots \<subseteq> A"
proof
  fix i assume "i \<in> reachable_from kids roots"
  then show "i \<in> A" by induction (use assms in auto)
qed

text \<open>The two cases of a worklist: a node seen before is dropped, a new one is replaced by its children.\<close>

lemma reachable_seen:
  assumes "i \<in> S" "\<forall>j\<in>S. set (kids j) \<subseteq> S \<union> R"
  shows "S \<union> reachable_from kids (insert i R) = S \<union> reachable_from kids R"
proof
  have "reachable_from kids (insert i R) \<subseteq> S \<union> reachable_from kids R"
    by (rule reachable_least) (use assms in \<open>auto intro: reachable_from.intros\<close>)
  then show "S \<union> reachable_from kids (insert i R) \<subseteq> S \<union> reachable_from kids R" by blast
  have "reachable_from kids R \<subseteq> reachable_from kids (insert i R)"
    by (rule reachable_least) (auto intro: reachable_from.intros)
  then show "S \<union> reachable_from kids R \<subseteq> S \<union> reachable_from kids (insert i R)" by blast
qed

lemma reachable_visit:
  "reachable_from kids (insert i R) = insert i (reachable_from kids (set (kids i) \<union> R))"
proof
  show "reachable_from kids (insert i R) \<subseteq> insert i (reachable_from kids (set (kids i) \<union> R))"
    by (rule reachable_least) (auto intro: reachable_from.intros)
  have "reachable_from kids (set (kids i) \<union> R) \<subseteq> reachable_from kids (insert i R)"
    by (rule reachable_least) (auto intro: reachable_from.intros)
  then show "insert i (reachable_from kids (set (kids i) \<union> R)) \<subseteq> reachable_from kids (insert i R)"
    by (auto intro: reachable_from.root)
qed

lemma reachable_none [simp]: "reachable_from kids {} = {}"
  using reachable_least [of "{}" "{}" kids] by auto

lemma reachable_bounded:
  assumes "roots \<subseteq> {..<n}" "\<And>i j. i < n \<Longrightarrow> j \<in> set (kids i) \<Longrightarrow> j < n"
  shows "reachable_from kids roots \<subseteq> {..<n}"
  using assms by (intro reachable_least) auto

lemma count_False_update:
  assumes "i < length marks" "\<not> marks ! i"
  shows "count_list (marks[i := True]) False < count_list marks False"
proof -
  have "marks = take i marks @ False # drop (Suc i) marks"
    using assms id_take_nth_drop [of i marks] by simp
  moreover have "marks[i := True] = take i marks @ True # drop (Suc i) marks"
    using assms by (simp add: upd_conv_take_nth_drop)
  moreover have "count_list (xs @ True # ys) False < count_list (xs @ False # ys) False" for xs ys
    by simp
  ultimately show ?thesis by metis
qed

text \<open>
  The loop \<open>while let Some(id) = pending.pop()\<close> with a vector of marks.  The pending vector is a
  stack whose top is its last element, the head of the list here, so the children that
  \<open>extend_from_slice\<close> appends come out in reverse.  \<open>None\<close> is the panic of an index or of an edge
  range that is out of bounds.
\<close>

function mark_reachable :: "(nat \<Rightarrow> nat list option) \<Rightarrow> bool list \<Rightarrow> nat list \<Rightarrow> bool list option" where
  "mark_reachable kids marks [] = Some marks"
| "mark_reachable kids marks (i # pending) =
     (if length marks \<le> i then None
      else if marks ! i then mark_reachable kids marks pending
      else case kids i of
             None \<Rightarrow> None
           | Some children \<Rightarrow> mark_reachable kids (marks[i := True]) (rev children @ pending))"
  by pat_completeness auto
termination
  by (relation "measures [\<lambda>(kids, marks, pending). count_list marks False, \<lambda>(kids, marks, pending). length pending]")
    (auto simp: count_False_update)

definition marked :: "bool list \<Rightarrow> nat set" where
  "marked marks = {i. i < length marks \<and> marks ! i}"

lemma marked_update: "i < length marks \<Longrightarrow> marked (marks[i := True]) = insert i (marked marks)"
  by (auto simp: marked_def nth_list_update split: if_splits)

text \<open>Nodes that are marked have all their children marked or still pending.\<close>

lemma mark_reachable_correct:
  assumes "\<forall>i<length marks. get i = Some (kids i)" "\<forall>i\<in>set pending. i < length marks"
    and "\<forall>i<length marks. \<forall>j\<in>set (kids i). j < length marks"
    and "\<forall>i\<in>marked marks. set (kids i) \<subseteq> marked marks \<union> set pending"
  shows "\<exists>marks'. mark_reachable get marks pending = Some marks' \<and> length marks' = length marks
     \<and> marked marks' = marked marks \<union> reachable_from kids (set pending)"
  using assms
proof (induction get marks pending rule: mark_reachable.induct)
  case (1 get marks)
  then show ?case by simp
next
  case (2 get marks i pending)
  then have i: "i < length marks" and get: "get i = Some (kids i)" by simp_all
  show ?case
  proof (cases "marks ! i")
    case True
    then have m: "i \<in> marked marks" using i by (simp add: marked_def)
    have stable: "\<forall>i\<in>marked marks. set (kids i) \<subseteq> marked marks \<union> set pending"
      using "2.prems"(4) m by auto
    with True i "2.prems"(2,3) obtain marks' where r: "mark_reachable get marks pending = Some marks'"
      "length marks' = length marks" "marked marks' = marked marks \<union> reachable_from kids (set pending)"
      using "2.IH"(1) "2.prems"(1) by auto
    then show ?thesis using reachable_seen [OF m stable] True i by simp
  next
    case False
    let ?marks = "marks[i := True]" and ?pending = "rev (kids i) @ pending"
    have mk: "marked ?marks = insert i (marked marks)" using i by (rule marked_update)
    have "\<forall>j\<in>marked ?marks. set (kids j) \<subseteq> marked ?marks \<union> set ?pending"
      using "2.prems"(4) by (auto simp: mk)
    moreover have "\<forall>j\<in>set ?pending. j < length ?marks" using "2.prems"(2,3) i by auto
    ultimately obtain marks' where r: "mark_reachable get ?marks ?pending = Some marks'"
      "length marks' = length marks" "marked marks' = marked ?marks \<union> reachable_from kids (set ?pending)"
      using "2.IH"(2) [OF _ False, of "kids i"] i "2.prems"(1,3) by auto
    then show ?thesis using reachable_visit [of kids i "set pending"] False i get by (simp add: mk)
  qed
qed

end
