(* ===== verification/Sequence_Hir.thy ===== *)
theory Sequence_Hir
  imports Syntax_Tree Dag_Store
begin

text \<open>
  \<open>catseq-frontend/src/hir.rs\<close>: the expressions of a sequence function in restricted Python, stored in a vector, and
  their construction from the syntax tree.  Parsing of floating-point literals is a parameter; a double is its bits, and
  equal bits are equality here because a literal without sign is neither a NaN nor a negative zero.
\<close>

section \<open>Data\<close>

type_synonym expression_id = u32

datatype composition_kind = AutoSerial | StrictSerial | ParallelComposition

datatype binary_operator = OpAdd | OpSubtract | OpMultiply | OpDivide | OpFloorDivide | OpModulo | OpPower | OpShiftLeft
  | OpBitAnd | OpBitXor

datatype unary_operator = OpPositive | OpNegative | OpInvert

datatype hir_literal = LitInteger int | LitFloat u64 | LitBoolean bool | LitNone | RawStringSource string

record keyword_argument =
  kw_name :: string
  kw_value :: expression_id

datatype hir_kind =
    HSymbol string
  | HLiteral hir_literal
  | HAttribute expression_id string
  | HSubscript expression_id expression_id
  | HCall expression_id "expression_id list" "keyword_argument list"
  | HCompose composition_kind expression_id expression_id
  | HBinary binary_operator expression_id expression_id
  | HUnary unary_operator expression_id
  | HDictionary "(expression_id \<times> expression_id) list"
  | HList "expression_id list"
  | HTuple "expression_id list"

record source_span =
  span_start_byte :: nat
  span_end_byte :: nat
  span_start_line :: nat
  span_start_column :: nat

record hir_expression =
  he_kind :: hir_kind
  he_span :: source_span

record sequence_hir =
  hir_parameters :: "string list"
  hir_parameter_types :: "string \<rightharpoonup> string"
  hir_expressions :: "hir_expression list"
  hir_root :: expression_id

datatype lowering_error =
    EntryNotFound string string
  | InvalidEntrySource string string
  | MissingReturn string string
  | Unsupported string string nat nat
  | InvalidLiteral string string nat nat
  | ExpressionTooDeep string nat nat

definition MAX_EXPRESSION_DEPTH :: nat where
  "MAX_EXPRESSION_DEPTH = 512"

section \<open>Queries\<close>

fun hir_children :: "hir_kind \<Rightarrow> expression_id list" where
  "hir_children (HSymbol _) = []"
| "hir_children (HLiteral _) = []"
| "hir_children (HAttribute object _) = [object]"
| "hir_children (HSubscript value index) = [value, index]"
| "hir_children (HCall function arguments keywords) = function # arguments @ map kw_value keywords"
| "hir_children (HCompose _ left right) = [left, right]"
| "hir_children (HBinary _ left right) = [left, right]"
| "hir_children (HUnary _ argument) = [argument]"
| "hir_children (HDictionary entries) = concat (map (\<lambda>(key, value). [key, value]) entries)"
| "hir_children (HList items) = items"
| "hir_children (HTuple items) = items"

definition structurally_eq_ignoring_spans :: "sequence_hir \<Rightarrow> sequence_hir \<Rightarrow> bool" where
  "structurally_eq_ignoring_spans self other \<longleftrightarrow>
     hir_parameters self = hir_parameters other \<and> hir_parameter_types self = hir_parameter_types other
     \<and> hir_root self = hir_root other
     \<and> length (hir_expressions self) = length (hir_expressions other)
     \<and> list_all (\<lambda>(left, right). he_kind left = he_kind right) (zip (hir_expressions self) (hir_expressions other))"

text \<open>\<open>None\<close> is the panic of an index.\<close>

definition kind_at :: "sequence_hir \<Rightarrow> expression_id \<Rightarrow> hir_kind option" where
  "kind_at self expression = map_option he_kind (nth_opt (hir_expressions self) (unat expression))"

definition reachable_mask :: "sequence_hir \<Rightarrow> bool list option" where
  "reachable_mask self =
     mark_reachable (\<lambda>i. map_option (\<lambda>e. map unat (hir_children (he_kind e))) (nth_opt (hir_expressions self) i))
       (replicate (length (hir_expressions self)) False) [unat (hir_root self)]"

definition count_reachable :: "(hir_kind \<Rightarrow> bool) \<Rightarrow> sequence_hir \<Rightarrow> nat option" where
  "count_reachable P self =
     map_option (\<lambda>reachable. length (filter (\<lambda>(index, e). reachable ! index \<and> P (he_kind e)) (enumerate 0 (hir_expressions self))))
       (reachable_mask self)"

definition call_count :: "sequence_hir \<Rightarrow> nat option" where
  "call_count = count_reachable (\<lambda>kind. case kind of HCall _ _ _ \<Rightarrow> True | _ \<Rightarrow> False)"

definition composition_count :: "composition_kind \<Rightarrow> sequence_hir \<Rightarrow> nat option" where
  "composition_count selected = count_reachable (\<lambda>kind. case kind of HCompose k _ _ \<Rightarrow> k = selected | _ \<Rightarrow> False)"

section \<open>Lowering of expressions\<close>

record lowerer =
  lw_file_name :: string
  lw_expressions :: "hir_expression list"
  lw_locals :: "string \<rightharpoonup> expression_id"

definition location :: "ts_node \<Rightarrow> nat \<times> nat" where
  "location node = (ts_row node + 1, ts_column node + 1)"

definition unsupported :: "string \<Rightarrow> ts_node \<Rightarrow> lowering_error" where
  "unsupported file_name node = Unsupported file_name (ts_kind node) (fst (location node)) (snd (location node))"

definition invalid_literal :: "string \<Rightarrow> ts_node \<Rightarrow> string \<Rightarrow> lowering_error" where
  "invalid_literal file_name node value = InvalidLiteral file_name value (fst (location node)) (snd (location node))"

definition lw_append :: "hir_kind \<Rightarrow> ts_node \<Rightarrow> lowerer \<Rightarrow> expression_id \<times> lowerer" where
  "lw_append kind node self =
     (of_nat (length (lw_expressions self)),
      self\<lparr>lw_expressions := lw_expressions self @
        [\<lparr>he_kind = kind, he_span = \<lparr>span_start_byte = ts_start_byte node, span_end_byte = ts_end_byte node,
          span_start_line = ts_row node + 1, span_start_column = ts_column node + 1\<rparr>\<rparr>]\<rparr>)"

definition required :: "string \<Rightarrow> ts_node \<Rightarrow> 'a option \<Rightarrow> lowering_error + 'a" where
  "required file_name node x = ok_or (unsupported file_name node) x"

definition parse_literal :: "(string \<Rightarrow> 'a option) \<Rightarrow> string \<Rightarrow> ts_node \<Rightarrow> lowering_error + 'a" where
  "parse_literal parse file_name node =
     res_bind (required file_name node (ts_text node)) (\<lambda>value.
       ok_or (invalid_literal file_name node value) (parse (without_underscores value)))"

type_synonym 'a lowered = "lowering_error + 'a \<times> lowerer"

type_synonym lowering = "ts_node \<Rightarrow> lowerer \<Rightarrow> expression_id lowered"

text \<open>The cases of \<open>lower_expression\<close>, over the lowering of the nodes below.\<close>

fun lower_arguments :: "lowering \<Rightarrow> ts_node list \<Rightarrow> lowerer \<Rightarrow> (expression_id list \<times> keyword_argument list) lowered" where
  "lower_arguments below [] self = Inr (([], []), self)"
| "lower_arguments below (argument # rest) self =
     (if ts_kind argument = ''keyword_argument''
      then res_bind (required (lw_file_name self) argument
          (Option.bind (child_by_field_name ''name'' argument) ts_text)) (\<lambda>name.
        res_bind (required (lw_file_name self) argument (child_by_field_name ''value'' argument)) (\<lambda>value.
        res_bind (below value self) (\<lambda>(e, self1).
        res_bind (lower_arguments below rest self1) (\<lambda>((arguments, keywords), self2).
          Inr ((arguments, \<lparr>kw_name = name, kw_value = e\<rparr> # keywords), self2)))))
      else res_bind (below argument self) (\<lambda>(e, self1).
        res_bind (lower_arguments below rest self1) (\<lambda>((arguments, keywords), self2).
          Inr ((e # arguments, keywords), self2))))"

definition lower_call :: "lowering \<Rightarrow> ts_node \<Rightarrow> lowerer \<Rightarrow> hir_kind lowered" where
  "lower_call below node self =
     res_bind (required (lw_file_name self) node (child_by_field_name ''function'' node)) (\<lambda>function_node.
     res_bind (below function_node self) (\<lambda>(function, self1).
       case child_by_field_name ''arguments'' node of
         None \<Rightarrow> Inr (HCall function [] [], self1)
       | Some argument_list \<Rightarrow>
           if ts_kind argument_list \<noteq> ''argument_list'' then Inl (unsupported (lw_file_name self) argument_list)
           else res_bind (lower_arguments below (named_children argument_list) self1) (\<lambda>((arguments, keywords), self2).
             Inr (HCall function arguments keywords, self2))))"

definition composition_operator :: "string \<Rightarrow> composition_kind option" where
  "composition_operator operator =
     (if operator = ''>>'' then Some AutoSerial else if operator = ''@'' then Some StrictSerial
      else if operator = ''|'' then Some ParallelComposition else None)"

definition arithmetic_operator :: "string \<Rightarrow> binary_operator option" where
  "arithmetic_operator operator = map_of [(''+'', OpAdd), (''-'', OpSubtract), (''*'', OpMultiply), (''/'', OpDivide),
     (''//'', OpFloorDivide), (''%'', OpModulo), (''**'', OpPower), (''<<'', OpShiftLeft), (''&'', OpBitAnd),
     (''^'', OpBitXor)] operator"

definition lower_binary :: "lowering \<Rightarrow> ts_node \<Rightarrow> lowerer \<Rightarrow> hir_kind lowered" where
  "lower_binary below node self =
     res_bind (required (lw_file_name self) node (child_by_field_name ''left'' node)) (\<lambda>left_node.
     res_bind (required (lw_file_name self) node (child_by_field_name ''right'' node)) (\<lambda>right_node.
     res_bind (required (lw_file_name self) node (Option.bind (child_by_field_name ''operator'' node) ts_text)) (\<lambda>operator.
     res_bind (below left_node self) (\<lambda>(left, self1).
     res_bind (below right_node self1) (\<lambda>(right, self2).
       case composition_operator operator of
         Some kind \<Rightarrow> Inr (HCompose kind left right, self2)
       | None \<Rightarrow> res_bind (required (lw_file_name self) node (arithmetic_operator operator)) (\<lambda>op.
           Inr (HBinary op left right, self2)))))))"

definition sign_operator :: "string \<Rightarrow> unary_operator option" where
  "sign_operator operator = map_of [(''+'', OpPositive), (''-'', OpNegative), (''~'', OpInvert)] operator"

definition lower_unary :: "lowering \<Rightarrow> ts_node \<Rightarrow> lowerer \<Rightarrow> hir_kind lowered" where
  "lower_unary below node self =
     res_bind (required (lw_file_name self) node (child_by_field_name ''argument'' node)) (\<lambda>argument_node.
     res_bind (required (lw_file_name self) node (Option.bind (child_by_field_name ''operator'' node) ts_text)) (\<lambda>operator.
     res_bind (required (lw_file_name self) node (sign_operator operator)) (\<lambda>op.
     res_bind (below argument_node self) (\<lambda>(argument, self1). Inr (HUnary op argument, self1)))))"

fun lower_dictionary :: "lowering \<Rightarrow> ts_node list \<Rightarrow> lowerer \<Rightarrow> (expression_id \<times> expression_id) list lowered" where
  "lower_dictionary below [] self = Inr ([], self)"
| "lower_dictionary below (pair # rest) self =
     (if ts_kind pair \<noteq> ''pair'' then Inl (unsupported (lw_file_name self) pair)
      else res_bind (required (lw_file_name self) pair (child_by_field_name ''key'' pair)) (\<lambda>key_node.
        res_bind (required (lw_file_name self) pair (child_by_field_name ''value'' pair)) (\<lambda>value_node.
        res_bind (below key_node self) (\<lambda>(key, self1).
        res_bind (below value_node self1) (\<lambda>(value, self2).
        res_bind (lower_dictionary below rest self2) (\<lambda>(entries, self3). Inr ((key, value) # entries, self3)))))))"

fun lower_sequence_items :: "lowering \<Rightarrow> ts_node list \<Rightarrow> lowerer \<Rightarrow> expression_id list lowered" where
  "lower_sequence_items below [] self = Inr ([], self)"
| "lower_sequence_items below (item # rest) self =
     res_bind (below item self) (\<lambda>(e, self1).
     res_bind (lower_sequence_items below rest self1) (\<lambda>(items, self2). Inr (e # items, self2)))"

definition lower_attribute :: "lowering \<Rightarrow> ts_node \<Rightarrow> lowerer \<Rightarrow> hir_kind lowered" where
  "lower_attribute below node self =
     res_bind (required (lw_file_name self) node (child_by_field_name ''object'' node)) (\<lambda>object_node.
     res_bind (required (lw_file_name self) node (child_by_field_name ''attribute'' node)) (\<lambda>attribute_node.
     res_bind (below object_node self) (\<lambda>(object, self1).
     res_bind (required (lw_file_name self) attribute_node (ts_text attribute_node)) (\<lambda>name.
       Inr (HAttribute object name, self1)))))"

definition lower_subscript :: "lowering \<Rightarrow> ts_node \<Rightarrow> lowerer \<Rightarrow> hir_kind lowered" where
  "lower_subscript below node self =
     res_bind (required (lw_file_name self) node (child_by_field_name ''value'' node)) (\<lambda>value_node.
     res_bind (required (lw_file_name self) node (child_by_field_name ''subscript'' node)) (\<lambda>index_node.
     res_bind (below value_node self) (\<lambda>(value, self1).
     res_bind (below index_node self1) (\<lambda>(index, self2). Inr (HSubscript value index, self2)))))"

definition lower_literal :: "(string \<Rightarrow> u64 option) \<Rightarrow> string \<Rightarrow> ts_node \<Rightarrow> (lowering_error + hir_literal) option" where
  "lower_literal parse_f64 file_name node =
     (if ts_kind node = ''integer'' then Some (res_bind (parse_literal parse_i64 file_name node) (\<lambda>n. Inr (LitInteger n)))
      else if ts_kind node = ''float'' then Some (res_bind (parse_literal parse_f64 file_name node) (\<lambda>d. Inr (LitFloat d)))
      else if ts_kind node = ''true'' then Some (Inr (LitBoolean True))
      else if ts_kind node = ''false'' then Some (Inr (LitBoolean False))
      else if ts_kind node = ''none'' then Some (Inr LitNone)
      else if ts_kind node = ''string'' \<or> ts_kind node = ''concatenated_string''
      then Some (res_bind (required file_name node (ts_text node)) (\<lambda>s. Inr (RawStringSource s)))
      else None)"

definition lower_compound :: "lowering \<Rightarrow> ts_node \<Rightarrow> lowerer \<Rightarrow> hir_kind lowered" where
  "lower_compound below node self =
     (if ts_kind node = ''attribute'' then lower_attribute below node self
      else if ts_kind node = ''subscript'' then lower_subscript below node self
      else if ts_kind node = ''call'' then lower_call below node self
      else if ts_kind node = ''binary_operator'' then lower_binary below node self
      else if ts_kind node = ''unary_operator'' then lower_unary below node self
      else if ts_kind node = ''dictionary''
      then res_bind (lower_dictionary below (named_children node) self) (\<lambda>(entries, self1). Inr (HDictionary entries, self1))
      else if ts_kind node = ''list''
      then res_bind (lower_sequence_items below (named_children node) self) (\<lambda>(items, self1). Inr (HList items, self1))
      else if ts_kind node = ''tuple''
      then res_bind (lower_sequence_items below (named_children node) self) (\<lambda>(items, self1). Inr (HTuple items, self1))
      else Inl (unsupported (lw_file_name self) node))"

text \<open>
  \<open>lower_expression\<close>; the number counts the levels of nesting that are left, \<open>MAX_EXPRESSION_DEPTH + 1\<close> at the depth 0
  of the code.
\<close>

fun lower_at :: "(string \<Rightarrow> u64 option) \<Rightarrow> nat \<Rightarrow> lowering" where
  "lower_at parse_f64 0 node self =
     Inl (ExpressionTooDeep (lw_file_name self) (fst (location node)) (snd (location node)))"
| "lower_at parse_f64 (Suc left) node self =
     (if ts_kind node = ''identifier''
      then res_bind (required (lw_file_name self) node (ts_text node)) (\<lambda>name.
        case lw_locals self name of
          Some e \<Rightarrow> Inr (e, self)
        | None \<Rightarrow> Inr (lw_append (HSymbol name) node self))
      else if ts_kind node = ''parenthesized_expression''
      then res_bind (required (lw_file_name self) node (first_named_child node)) (\<lambda>child.
        lower_at parse_f64 left child self)
      else case lower_literal parse_f64 (lw_file_name self) node of
        Some literal \<Rightarrow> res_bind literal (\<lambda>l. Inr (lw_append (HLiteral l) node self))
      | None \<Rightarrow> res_bind (lower_compound (lower_at parse_f64 left) node self) (\<lambda>(kind, self1).
          Inr (lw_append kind node self1)))"

definition lower_expression :: "(string \<Rightarrow> u64 option) \<Rightarrow> nat \<Rightarrow> lowering" where
  "lower_expression parse_f64 depth node self = lower_at parse_f64 (MAX_EXPRESSION_DEPTH + 1 - depth) node self"

section \<open>Lowering of a function\<close>

definition lower_assignment :: "(string \<Rightarrow> u64 option) \<Rightarrow> ts_node \<Rightarrow> lowerer \<Rightarrow> lowering_error + lowerer" where
  "lower_assignment parse_f64 assignment self =
     res_bind (required (lw_file_name self) assignment (child_by_field_name ''left'' assignment)) (\<lambda>left.
       if ts_kind left \<noteq> ''identifier'' then Inl (unsupported (lw_file_name self) left)
       else res_bind (required (lw_file_name self) left (ts_text left)) (\<lambda>name.
         res_bind (required (lw_file_name self) assignment (child_by_field_name ''right'' assignment)) (\<lambda>right.
         res_bind (lower_expression parse_f64 0 right self) (\<lambda>(value, self1).
           Inr (self1\<lparr>lw_locals := (lw_locals self1)(name \<mapsto> value)\<rparr>)))))"

fun lower_statements :: "(string \<Rightarrow> u64 option) \<Rightarrow> ts_node list \<Rightarrow> lowerer \<Rightarrow> expression_id option lowered" where
  "lower_statements parse_f64 [] self = Inr (None, self)"
| "lower_statements parse_f64 (statement # rest) self =
     (if ts_kind statement = ''expression_statement''
      then case first_named_child statement of
          None \<Rightarrow> lower_statements parse_f64 rest self
        | Some inner \<Rightarrow>
            if ts_kind inner \<noteq> ''assignment'' then Inl (unsupported (lw_file_name self) inner)
            else res_bind (lower_assignment parse_f64 inner self) (\<lambda>self1. lower_statements parse_f64 rest self1)
      else if ts_kind statement = ''return_statement''
      then res_bind (required (lw_file_name self) statement (first_named_child statement)) (\<lambda>value.
        res_bind (lower_expression parse_f64 0 value self) (\<lambda>(e, self1). Inr (Some e, self1)))
      else if ts_kind statement = ''comment'' then lower_statements parse_f64 rest self
      else Inl (unsupported (lw_file_name self) statement))"

definition lower_body :: "(string \<Rightarrow> u64 option) \<Rightarrow> ts_node \<Rightarrow> lowerer \<Rightarrow> expression_id option lowered" where
  "lower_body parse_f64 body self = lower_statements parse_f64 (named_children body) self"

definition parameter_name :: "ts_node \<Rightarrow> string option" where
  "parameter_name parameter =
     (if ts_kind parameter = ''identifier'' then ts_text parameter
      else if ts_kind parameter = ''typed_parameter''
      then (case first_named_child parameter of
          Some name \<Rightarrow> if ts_kind name = ''identifier'' then ts_text name else None
        | None \<Rightarrow> None)
      else if ts_kind parameter = ''default_parameter'' \<or> ts_kind parameter = ''typed_default_parameter''
      then Option.bind (child_by_field_name ''name'' parameter) ts_text
      else None)"

fun collect_parameters :: "ts_node list \<Rightarrow> string list \<times> (string \<rightharpoonup> string) \<Rightarrow> string list \<times> (string \<rightharpoonup> string)" where
  "collect_parameters [] collected = collected"
| "collect_parameters (parameter # rest) (names, types) =
     (case parameter_name parameter of
        None \<Rightarrow> collect_parameters rest (names, types)
      | Some name \<Rightarrow>
          collect_parameters rest (names @ [name],
            case Option.bind (child_by_field_name ''type'' parameter) ts_text of
              None \<Rightarrow> types
            | Some annotation \<Rightarrow> types(name \<mapsto> annotation)))"

definition function_parameters :: "ts_node \<Rightarrow> string list \<times> (string \<rightharpoonup> string)" where
  "function_parameters node = collect_parameters (named_children node) ([], Map.empty)"

record sequence_entry =
  entry_qualified_name :: string
  entry_source :: string
  entry_byte_range :: "nat \<times> nat"

text \<open>The stack of \<open>find_function\<close> has its top first, so the last child is looked at first.\<close>

function find_function :: "nat \<times> nat \<Rightarrow> ts_node list \<Rightarrow> ts_node option" where
  "find_function bytes [] = None"
| "find_function bytes (node # stack) =
     (if ts_kind node = ''function_definition'' \<and> byte_range node = bytes then Some node
      else if ts_end_byte node < fst bytes \<or> ts_start_byte node > snd bytes then find_function bytes stack
      else find_function bytes (rev (named_children node) @ stack))"
  by pat_completeness auto
termination
proof (relation "measure (\<lambda>(_, stack). sum_list (map size stack))")
  fix bytes :: "nat \<times> nat" and node :: ts_node and stack :: "ts_node list"
  have "0 < size node" by (cases node) simp
  then show "((bytes, stack), (bytes, node # stack)) \<in> measure (\<lambda>(_, stack). sum_list (map size stack))" by simp
  show "((bytes, rev (named_children node) @ stack), (bytes, node # stack)) \<in> measure (\<lambda>(_, stack). sum_list (map size stack))"
    using size_named [of node] by (simp add: rev_map [symmetric])
qed simp

definition invalid_source :: "string \<Rightarrow> sequence_entry \<Rightarrow> lowering_error" where
  "invalid_source file_name entry = InvalidEntrySource file_name (entry_qualified_name entry)"

definition lower_entry ::
  "(string \<Rightarrow> u64 option) \<Rightarrow> string \<Rightarrow> sequence_entry \<Rightarrow> ts_node \<Rightarrow> lowering_error + sequence_hir" where
  "lower_entry parse_f64 file_name entry tree =
     res_bind (ok_or (invalid_source file_name entry) (find_function (entry_byte_range entry) [tree])) (\<lambda>function_node.
     let (names, types) = (case child_by_field_name ''parameters'' function_node of
         None \<Rightarrow> ([], Map.empty) | Some node \<Rightarrow> function_parameters node) in
     res_bind (ok_or (invalid_source file_name entry) (child_by_field_name ''body'' function_node)) (\<lambda>body.
     res_bind (lower_body parse_f64 body \<lparr>lw_file_name = file_name, lw_expressions = [], lw_locals = Map.empty\<rparr>) (\<lambda>(result, lw).
     res_bind (ok_or (MissingReturn file_name (entry_qualified_name entry)) result) (\<lambda>top.
       Inr \<lparr>hir_parameters = names, hir_parameter_types = types, hir_expressions = lw_expressions lw, hir_root = top\<rparr>))))"

end
