(* ===== verification/Segment_Store.thy ===== *)
theory Segment_Store
  imports Prelude
begin

text \<open>
  \<open>catseq-core/src/arena.rs\<close>: the segmented store shared by program and service-template DAGs.  The
  store is passed explicitly; each of its operations is one step.  Two operations
  release the read lock before they take the write lock: \<open>compose\<close>, which is also split in its two critical
  sections below, and \<open>append_raw\<close>, whose checks under the read lock and whose append are one step here.  A pinned owner
  is an element of a type parameter; \<open>downcast\<close> is a partial function on it.
\<close>

section \<open>Data\<close>

record segment_id =
  sid_store :: u64
  sid_index :: u32

record node_ref =
  nr_store :: u64
  nr_segment :: u32
  nr_index :: u32

record template_id =
  tid_store :: u64
  tid_index :: u32

definition ref_segment :: "node_ref \<Rightarrow> segment_id" where
  "ref_segment r = \<lparr>sid_store = nr_store r, sid_index = nr_segment r\<rparr>"

datatype segment_kind = TemplateSegment | ProgramSegment

datatype node_kind =
    NKAtomic | NKWait | NKAutoSerial | NKStrictSerial | NKParallel | NKAnnotate | NKReference
  | NKDeferredApply | NKDeferredChannel | NKDeferredBatch | NKRepeat | NKInstantiate | NKSourceCall

datatype arena_error =
    UnknownNodeKind u8
  | NotAComposition node_kind
  | InstantiateNeedsTemplate
  | TemplateDependsOnProgram
  | OnlyTemplateSegments
  | FrozenSegment
  | ForeignSegment
  | UnknownSegment
  | UnknownArenaNode
  | ForeignTemplate
  | UnknownTemplate
  | InvalidNodeChildren node_kind
  | MissingInstance

text \<open>The discriminants of \<open>#[repr(u8)]\<close>.\<close>

fun node_kind_repr :: "node_kind \<Rightarrow> u8" where
  "node_kind_repr NKAtomic = 0"
| "node_kind_repr NKWait = 1"
| "node_kind_repr NKAutoSerial = 2"
| "node_kind_repr NKStrictSerial = 3"
| "node_kind_repr NKParallel = 4"
| "node_kind_repr NKAnnotate = 5"
| "node_kind_repr NKReference = 6"
| "node_kind_repr NKDeferredApply = 7"
| "node_kind_repr NKDeferredChannel = 8"
| "node_kind_repr NKDeferredBatch = 9"
| "node_kind_repr NKRepeat = 10"
| "node_kind_repr NKInstantiate = 11"
| "node_kind_repr NKSourceCall = 12"

definition node_kind_try_from :: "u8 \<Rightarrow> arena_error + node_kind" where
  "node_kind_try_from value =
     (if value = 0 then Inr NKAtomic
      else if value = 1 then Inr NKWait
      else if value = 2 then Inr NKAutoSerial
      else if value = 3 then Inr NKStrictSerial
      else if value = 4 then Inr NKParallel
      else if value = 5 then Inr NKAnnotate
      else if value = 6 then Inr NKReference
      else if value = 7 then Inr NKDeferredApply
      else if value = 8 then Inr NKDeferredChannel
      else if value = 9 then Inr NKDeferredBatch
      else if value = 10 then Inr NKRepeat
      else if value = 11 then Inr NKInstantiate
      else if value = 12 then Inr NKSourceCall
      else Inl (UnknownNodeKind value))"

record arena_node =
  an_kind :: node_kind
  an_left :: "node_ref option"
  an_right :: "node_ref option"
  an_payload_id :: u32
  an_channel_mask :: "128 word"
  an_provenance_id :: u32

record node_columns =
  col_kinds :: "node_kind list"
  col_left :: "node_ref option list"
  col_right :: "node_ref option list"
  col_payload_ids :: "u32 list"
  col_channel_masks :: "128 word list"
  col_provenance_ids :: "u32 list"

record 'o store_template =
  tmpl_root :: node_ref
  tmpl_schema_id :: u32
  tmpl_owner :: 'o

record template_instance =
  inst_template :: template_id
  inst_binding_environment_id :: u32

record segment =
  seg_kind :: segment_kind
  seg_frozen :: bool
  seg_nodes :: "arena_node list"

record 'o store_inner =
  in_segments :: "segment list"
  in_templates :: "'o store_template list"
  in_instances :: "template_instance list"

record 'o arena_store =
  st_id :: u64
  st_inner :: "'o store_inner"

record 'o frozen_program =
  fp_store :: "'o arena_store"
  fp_root :: node_ref
  fp_owner :: 'o

section \<open>Lookups\<close>

text \<open>\<open>ArenaStore::new\<close> takes the next id of the global counter, which wraps.\<close>

definition store_new :: "u64 \<Rightarrow> 'o arena_store \<times> u64" where
  "store_new next_id =
     (\<lparr>st_id = next_id, st_inner = \<lparr>in_segments = [], in_templates = [], in_instances = []\<rparr>\<rparr>, next_id + 1)"

definition segment_from :: "'o arena_store \<Rightarrow> segment_id \<Rightarrow> arena_error + segment" where
  "segment_from self sid =
     (if sid_store sid \<noteq> st_id self then Inl ForeignSegment
      else ok_or UnknownSegment (nth_opt (in_segments (st_inner self)) (unat (sid_index sid))))"

text \<open>\<open>segment_mut_from\<close> followed by an update of the segment it returns.\<close>

definition segment_mut_from ::
  "'o arena_store \<Rightarrow> segment_id \<Rightarrow> (segment \<Rightarrow> segment) \<Rightarrow> arena_error + 'o arena_store" where
  "segment_mut_from self sid f =
     (if sid_store sid \<noteq> st_id self then Inl ForeignSegment
      else res_bind (ok_or UnknownSegment (nth_opt (in_segments (st_inner self)) (unat (sid_index sid)))) (\<lambda>s.
        Inr (self\<lparr>st_inner := (st_inner self)
          \<lparr>in_segments := (in_segments (st_inner self))[unat (sid_index sid) := f s]\<rparr>\<rparr>)))"

definition mutable_segment_from :: "'o arena_store \<Rightarrow> segment_id \<Rightarrow> arena_error + segment" where
  "mutable_segment_from self sid =
     res_bind (segment_from self sid) (\<lambda>s. if seg_frozen s then Inl FrozenSegment else Inr s)"

definition node_from :: "'o arena_store \<Rightarrow> node_ref \<Rightarrow> arena_error + arena_node" where
  "node_from self r =
     res_bind (segment_from self (ref_segment r)) (\<lambda>s.
       ok_or UnknownArenaNode (nth_opt (seg_nodes s) (unat (nr_index r))))"

definition template_from :: "'o arena_store \<Rightarrow> template_id \<Rightarrow> arena_error + 'o store_template" where
  "template_from self t =
     (if tid_store t \<noteq> st_id self then Inl ForeignTemplate
      else ok_or UnknownTemplate (nth_opt (in_templates (st_inner self)) (unat (tid_index t))))"

definition validate_template_children ::
  "'o arena_store \<Rightarrow> segment_id \<Rightarrow> node_ref list \<Rightarrow> arena_error + unit" where
  "validate_template_children self target children =
     res_bind (segment_from self target) (\<lambda>s.
       if seg_kind s \<noteq> TemplateSegment then Inr ()
       else res_all (\<lambda>child. res_bind (segment_from self (ref_segment child)) (\<lambda>c.
              if seg_kind c \<noteq> TemplateSegment then Inl TemplateDependsOnProgram else Inr ())) children)"

definition validate_node_shape ::
  "node_kind \<Rightarrow> node_ref option \<Rightarrow> node_ref option \<Rightarrow> arena_error + unit" where
  "validate_node_shape kind left right =
     (let valid =
        (if kind \<in> {NKAtomic, NKWait, NKReference, NKDeferredChannel, NKSourceCall}
         then left = None \<and> right = None
         else if kind \<in> {NKAutoSerial, NKStrictSerial, NKParallel}
         then left \<noteq> None \<and> right \<noteq> None
         else if kind \<in> {NKAnnotate, NKDeferredApply, NKDeferredBatch, NKRepeat}
         then left \<noteq> None \<and> right = None
         else False)
      in if valid then Inr () else Inl (InvalidNodeChildren kind))"

section \<open>Operations\<close>

definition create_segment :: "segment_kind \<Rightarrow> 'o arena_store \<Rightarrow> segment_id \<times> 'o arena_store" where
  "create_segment kind self =
     (let inner = st_inner self; index = of_nat (length (in_segments inner))
      in (\<lparr>sid_store = st_id self, sid_index = index\<rparr>,
          self\<lparr>st_inner := inner\<lparr>in_segments := in_segments inner @
            [\<lparr>seg_kind = kind, seg_frozen = False, seg_nodes = []\<rparr>]\<rparr>\<rparr>))"

definition as_append ::
  "segment_id \<Rightarrow> arena_node \<Rightarrow> 'o arena_store \<Rightarrow> arena_error + node_ref \<times> 'o arena_store" where
  "as_append sid node self =
     res_bind (segment_from self sid) (\<lambda>target.
       if seg_frozen target then Inl FrozenSegment
       else res_bind (segment_mut_from self sid (\<lambda>s. s\<lparr>seg_nodes := seg_nodes s @ [node]\<rparr>)) (\<lambda>self'.
         Inr (\<lparr>nr_store = st_id self, nr_segment = sid_index sid,
               nr_index = of_nat (length (seg_nodes target))\<rparr>, self')))"

definition as_atomic ::
  "segment_id \<Rightarrow> u32 \<Rightarrow> 128 word \<Rightarrow> u32 \<Rightarrow> 'o arena_store \<Rightarrow> arena_error + node_ref \<times> 'o arena_store" where
  "as_atomic sid payload_id channel_mask provenance_id self =
     as_append sid \<lparr>an_kind = NKAtomic, an_left = None, an_right = None, an_payload_id = payload_id,
       an_channel_mask = channel_mask, an_provenance_id = provenance_id\<rparr> self"

definition as_wait ::
  "segment_id \<Rightarrow> u32 \<Rightarrow> u32 \<Rightarrow> 'o arena_store \<Rightarrow> arena_error + node_ref \<times> 'o arena_store" where
  "as_wait sid expression_id provenance_id self =
     as_append sid \<lparr>an_kind = NKWait, an_left = None, an_right = None, an_payload_id = expression_id,
       an_channel_mask = 0, an_provenance_id = provenance_id\<rparr> self"

definition source_call ::
  "segment_id \<Rightarrow> u32 \<Rightarrow> 'o arena_store \<Rightarrow> arena_error + node_ref \<times> 'o arena_store" where
  "source_call sid expression_id self =
     as_append sid \<lparr>an_kind = NKSourceCall, an_left = None, an_right = None, an_payload_id = expression_id,
       an_channel_mask = 0, an_provenance_id = expression_id\<rparr> self"

text \<open>\<open>compose\<close>: the section under the read lock, and the whole operation.\<close>

definition compose_mask ::
  "segment_id \<Rightarrow> node_ref \<Rightarrow> node_ref \<Rightarrow> 'o arena_store \<Rightarrow> arena_error + 128 word" where
  "compose_mask sid left right self =
     res_bind (node_from self left) (\<lambda>left_node.
     res_bind (node_from self right) (\<lambda>right_node.
     res_bind (validate_template_children self sid [left, right]) (\<lambda>_.
       Inr (or (an_channel_mask left_node) (an_channel_mask right_node)))))"

definition composition_node :: "node_kind \<Rightarrow> node_ref \<Rightarrow> node_ref \<Rightarrow> 128 word \<Rightarrow> u32 \<Rightarrow> arena_node" where
  "composition_node kind left right channel_mask provenance_id =
     \<lparr>an_kind = kind, an_left = Some left, an_right = Some right, an_payload_id = 0,
      an_channel_mask = channel_mask, an_provenance_id = provenance_id\<rparr>"

definition as_compose ::
  "segment_id \<Rightarrow> node_kind \<Rightarrow> node_ref \<Rightarrow> node_ref \<Rightarrow> u32 \<Rightarrow> 'o arena_store
     \<Rightarrow> arena_error + node_ref \<times> 'o arena_store" where
  "as_compose sid kind left right provenance_id self =
     (if kind \<notin> {NKAutoSerial, NKStrictSerial, NKParallel} then Inl (NotAComposition kind)
      else res_bind (compose_mask sid left right self) (\<lambda>channel_mask.
        as_append sid (composition_node kind left right channel_mask provenance_id) self))"

definition append_raw ::
  "segment_id \<Rightarrow> node_kind \<Rightarrow> node_ref option \<Rightarrow> node_ref option \<Rightarrow> u32 \<Rightarrow> 128 word \<Rightarrow> u32 \<Rightarrow> 'o arena_store
     \<Rightarrow> arena_error + node_ref \<times> 'o arena_store" where
  "append_raw sid kind left right payload_id channel_mask provenance_id self =
     (let children = List.map_filter (\<lambda>x. x) [left, right] in
      if kind = NKInstantiate then Inl InstantiateNeedsTemplate
      else res_bind (validate_node_shape kind left right) (\<lambda>_.
        res_bind (res_all (\<lambda>child. res_bind (node_from self child) (\<lambda>_. Inr ())) children) (\<lambda>_.
        res_bind
          (case (left, right) of
             (Some l, Some r) \<Rightarrow> validate_template_children self sid [l, r]
           | _ \<Rightarrow> res_bind (segment_from self sid) (\<lambda>s.
               if seg_kind s = TemplateSegment
               then res_all (\<lambda>child. res_bind (segment_from self (ref_segment child)) (\<lambda>c.
                      if seg_kind c \<noteq> TemplateSegment then Inl TemplateDependsOnProgram else Inr ())) children
               else Inr ())) (\<lambda>_.
        as_append sid \<lparr>an_kind = kind, an_left = left, an_right = right, an_payload_id = payload_id,
          an_channel_mask = channel_mask, an_provenance_id = provenance_id\<rparr> self))))"

definition publish_template_with_owner ::
  "node_ref \<Rightarrow> u32 \<Rightarrow> 'o \<Rightarrow> 'o arena_store \<Rightarrow> arena_error + template_id \<times> 'o arena_store" where
  "publish_template_with_owner root_ref schema_id owner self =
     res_bind (node_from self root_ref) (\<lambda>_.
     res_bind (segment_from self (ref_segment root_ref)) (\<lambda>segment.
       if seg_kind segment \<noteq> TemplateSegment then Inl OnlyTemplateSegments
       else res_bind (segment_mut_from self (ref_segment root_ref) (\<lambda>s. s\<lparr>seg_frozen := True\<rparr>)) (\<lambda>self1.
         Inr (\<lparr>tid_store = st_id self, tid_index = of_nat (length (in_templates (st_inner self1)))\<rparr>,
              self1\<lparr>st_inner := (st_inner self1)\<lparr>in_templates := in_templates (st_inner self1) @
                [\<lparr>tmpl_root = root_ref, tmpl_schema_id = schema_id, tmpl_owner = owner\<rparr>]\<rparr>\<rparr>))))"

definition as_publish_template ::
  "'o \<Rightarrow> node_ref \<Rightarrow> u32 \<Rightarrow> 'o arena_store \<Rightarrow> arena_error + template_id \<times> 'o arena_store" where
  "as_publish_template unit_owner root_ref schema_id self =
     publish_template_with_owner root_ref schema_id unit_owner self"

definition template_owner ::
  "('o \<Rightarrow> 't option) \<Rightarrow> template_id \<Rightarrow> 'o arena_store \<Rightarrow> arena_error + 't option" where
  "template_owner downcast template self =
     res_bind (template_from self template) (\<lambda>t. Inr (downcast (tmpl_owner t)))"

definition as_instantiate ::
  "segment_id \<Rightarrow> template_id \<Rightarrow> u32 \<Rightarrow> 128 word \<Rightarrow> u32 \<Rightarrow> 'o arena_store
     \<Rightarrow> arena_error + node_ref \<times> 'o arena_store" where
  "as_instantiate sid template binding_environment_id channel_mask provenance_id self =
     res_bind (template_from self template) (\<lambda>_.
     res_bind (mutable_segment_from self sid) (\<lambda>segment.
       (let node_index = of_nat (length (seg_nodes segment));
            payload_id = of_nat (length (in_instances (st_inner self)));
            self1 = self\<lparr>st_inner := (st_inner self)\<lparr>in_instances := in_instances (st_inner self) @
              [\<lparr>inst_template = template, inst_binding_environment_id = binding_environment_id\<rparr>]\<rparr>\<rparr>
        in res_bind (segment_mut_from self1 sid (\<lambda>s. s\<lparr>seg_nodes := seg_nodes s @
               [\<lparr>an_kind = NKInstantiate, an_left = None, an_right = None, an_payload_id = payload_id,
                 an_channel_mask = channel_mask, an_provenance_id = provenance_id\<rparr>]\<rparr>)) (\<lambda>self2.
             Inr (\<lparr>nr_store = st_id self, nr_segment = sid_index sid, nr_index = node_index\<rparr>, self2)))))"

definition freeze_with_owner :: "node_ref \<Rightarrow> 'o \<Rightarrow> 'o arena_store \<Rightarrow> arena_error + 'o frozen_program" where
  "freeze_with_owner root_ref owner self =
     res_bind (node_from self root_ref) (\<lambda>_. Inr \<lparr>fp_store = self, fp_root = root_ref, fp_owner = owner\<rparr>)"

definition as_freeze :: "'o \<Rightarrow> node_ref \<Rightarrow> 'o arena_store \<Rightarrow> arena_error + 'o frozen_program" where
  "as_freeze unit_owner root_ref self = freeze_with_owner root_ref unit_owner self"

definition segment_node_count :: "segment_id \<Rightarrow> 'o arena_store \<Rightarrow> arena_error + nat" where
  "segment_node_count sid self = res_bind (segment_from self sid) (\<lambda>s. Inr (length (seg_nodes s)))"

definition total_node_count :: "'o arena_store \<Rightarrow> nat" where
  "total_node_count self = sum_list (map (\<lambda>s. length (seg_nodes s)) (in_segments (st_inner self)))"

definition export_segment :: "segment_id \<Rightarrow> 'o arena_store \<Rightarrow> arena_error + node_columns" where
  "export_segment sid self =
     res_bind (segment_from self sid) (\<lambda>s. let nodes = seg_nodes s in
       Inr \<lparr>col_kinds = map an_kind nodes, col_left = map an_left nodes, col_right = map an_right nodes,
            col_payload_ids = map an_payload_id nodes, col_channel_masks = map an_channel_mask nodes,
            col_provenance_ids = map an_provenance_id nodes\<rparr>)"

definition node_channel_mask :: "node_ref \<Rightarrow> 'o arena_store \<Rightarrow> arena_error + 128 word" where
  "node_channel_mask r self = res_bind (node_from self r) (\<lambda>n. Inr (an_channel_mask n))"

definition local_node_ref :: "segment_id \<Rightarrow> u32 \<Rightarrow> 'o arena_store \<Rightarrow> arena_error + node_ref" where
  "local_node_ref sid local_index self =
     (let r = \<lparr>nr_store = st_id self, nr_segment = sid_index sid, nr_index = local_index\<rparr>
      in res_bind (node_from self r) (\<lambda>_. Inr r))"

section \<open>Reachable storage of a frozen program\<close>

definition valid_refs :: "'o arena_store \<Rightarrow> node_ref set" where
  "valid_refs self = {r. \<exists>n. node_from self r = Inr n}"

text \<open>The references a visit pushes, in the order in which they are popped (the last pushed first).\<close>

definition successors :: "'o arena_store \<Rightarrow> arena_node \<Rightarrow> arena_error + node_ref list" where
  "successors self node =
     (let pushed = List.map_filter (\<lambda>x. x) [an_left node, an_right node] in
      if an_kind node = NKInstantiate
      then res_bind (ok_or MissingInstance (nth_opt (in_instances (st_inner self)) (unat (an_payload_id node)))) (\<lambda>i.
           res_bind (template_from self (inst_template i)) (\<lambda>t. Inr (rev (pushed @ [tmpl_root t]))))
      else Inr (rev pushed))"

lemma finite_valid_refs: "finite (valid_refs self)"
proof -
  have "valid_refs self \<subseteq> (\<lambda>(a, b, c). \<lparr>nr_store = a, nr_segment = b, nr_index = c\<rparr>) ` UNIV"
  proof
    fix r
    have "r = (\<lambda>(a, b, c). \<lparr>nr_store = a, nr_segment = b, nr_index = c\<rparr>) (nr_store r, nr_segment r, nr_index r)" by simp
    then show "r \<in> (\<lambda>(a, b, c). \<lparr>nr_store = a, nr_segment = b, nr_index = c\<rparr>) ` UNIV" by blast
  qed
  then show ?thesis by (rule finite_subset) simp
qed

function stats_loop ::
  "'o arena_store \<Rightarrow> node_ref set \<Rightarrow> node_ref list \<Rightarrow> nat \<Rightarrow> arena_error + node_ref set \<times> nat" where
  "stats_loop self seen [] template_instances = Inr (seen, template_instances)"
| "stats_loop self seen (r # stack) template_instances =
     (if r \<in> seen then stats_loop self seen stack template_instances
      else case node_from self r of
             Inl e \<Rightarrow> Inl e
           | Inr node \<Rightarrow>
               (case successors self node of
                  Inl e \<Rightarrow> Inl e
                | Inr next \<Rightarrow> stats_loop self (insert r seen) (next @ stack)
                    (template_instances + (if an_kind node = NKInstantiate then 1 else 0))))"
  by pat_completeness auto
termination
proof (relation "measures [\<lambda>(self, seen, stack, k). card (valid_refs self - seen), \<lambda>(self, seen, stack, k). length stack]")
  fix self :: "'o arena_store" and seen r stack k node "next"
  assume "r \<notin> seen" "node_from self r = Inr node"
  then have "r \<in> valid_refs self - seen" by (simp add: valid_refs_def)
  then have "card (valid_refs self - insert r seen) < card (valid_refs self - seen)"
    using finite_valid_refs [of self] by (metis Diff_insert card_Diff1_less finite_Diff)
  then show "((self, insert r seen, next @ stack, k + (if an_kind node = NKInstantiate then 1 else 0)), self, seen, r # stack, k)
      \<in> measures [\<lambda>(self, seen, stack, k). card (valid_refs self - seen), \<lambda>(self, seen, stack, k). length stack]"
    by simp
qed auto

definition reachable_stats :: "'o frozen_program \<Rightarrow> arena_error + nat \<times> nat" where
  "reachable_stats self =
     res_bind (stats_loop (fp_store self) {} [fp_root self] 0) (\<lambda>(seen, n). Inr (card seen, n))"

definition reachable_storage_node_count :: "'o frozen_program \<Rightarrow> arena_error + nat" where
  "reachable_storage_node_count self = res_bind (reachable_stats self) (\<lambda>s. Inr (fst s))"

definition template_instance_count :: "'o frozen_program \<Rightarrow> arena_error + nat" where
  "template_instance_count self = res_bind (reachable_stats self) (\<lambda>s. Inr (snd s))"

end
