(* ===== verification/Definition_Registry.thy ===== *)
theory Definition_Registry
  imports Segment_Store
begin

text \<open>
  \<open>catseq-core/src/definitions.rs\<close>: the append-only table of template definitions and the
  demand-driven specialization cache.  A compile closure is a state transformer, so that whether it ran
  can be observed; a reference-counted artifact is the artifact.
\<close>

section \<open>Definitions\<close>

type_synonym runtime_value_id = u32
type_synonym definition_id = u32

record template_signature =
  scan_slots :: u32
  structural_slots :: u32

record template_definition =
  td_template :: template_id
  td_signature :: template_signature

record definition_registry =
  reg_templates :: "template_definition list"

datatype definition_error = UnknownTemplateDefinition definition_id

definition registry_new :: definition_registry where
  "registry_new = \<lparr>reg_templates = []\<rparr>"

definition register_template ::
  "template_id \<Rightarrow> template_signature \<Rightarrow> definition_registry \<Rightarrow> definition_id \<times> definition_registry" where
  "register_template template signature self =
     (of_nat (length (reg_templates self)),
      self\<lparr>reg_templates := reg_templates self @ [\<lparr>td_template = template, td_signature = signature\<rparr>]\<rparr>)"

definition registry_template ::
  "definition_registry \<Rightarrow> definition_id \<Rightarrow> definition_error + template_definition" where
  "registry_template self d =
     ok_or (UnknownTemplateDefinition d) (nth_opt (reg_templates self) (unat d))"

definition registry_len :: "definition_registry \<Rightarrow> nat" where
  "registry_len self = length (reg_templates self)"

definition registry_is_empty :: "definition_registry \<Rightarrow> bool" where
  "registry_is_empty self = (reg_templates self = [])"

record specialization_key =
  key_definition :: definition_id
  key_structural_digest :: u64
  key_hardware_map_digest :: u64
  key_calibration_digest :: u64

record 'artifact specialization_cache =
  cache_artifacts :: "specialization_key \<rightharpoonup> 'artifact"

definition cache_new :: "'artifact specialization_cache" where
  "cache_new = \<lparr>cache_artifacts = Map.empty\<rparr>"

definition cache_get :: "'artifact specialization_cache \<Rightarrow> specialization_key \<Rightarrow> 'artifact option" where
  "cache_get self key = cache_artifacts self key"

definition get_or_try_compile ::
  "specialization_key \<Rightarrow> ('w \<Rightarrow> ('e + 'artifact) \<times> 'w) \<Rightarrow> 'artifact specialization_cache \<times> 'w
     \<Rightarrow> ('e + 'artifact) \<times> 'artifact specialization_cache \<times> 'w" where
  "get_or_try_compile key compile sw =
     (case sw of (self, w) \<Rightarrow>
        (case cache_artifacts self key of
           Some artifact \<Rightarrow> (Inr artifact, self, w)
         | None \<Rightarrow>
             (case compile w of
                (Inl e, w') \<Rightarrow> (Inl e, self, w')
              | (Inr artifact, w') \<Rightarrow>
                  (Inr artifact, self\<lparr>cache_artifacts := (cache_artifacts self)(key \<mapsto> artifact)\<rparr>, w'))))"

definition cache_len :: "'artifact specialization_cache \<Rightarrow> nat" where
  "cache_len self = card (dom (cache_artifacts self))"

definition cache_is_empty :: "'artifact specialization_cache \<Rightarrow> bool" where
  "cache_is_empty self \<longleftrightarrow> dom (cache_artifacts self) = {}"

section \<open>Append-only tables\<close>

text \<open>
  A table that hands out its length, cast to 32 bits, as the id of each new entry: ids resolve to what
  was pushed, stay valid and are distinct, as long as the table fits its ids.
\<close>

locale append_table =
  fixes push :: "'v \<Rightarrow> 't \<Rightarrow> u32 \<times> 't" and entries :: "'t \<Rightarrow> 'v list"
  assumes push_id: "fst (push v t) = of_nat (length (entries t))"
    and push_entries: "entries (snd (push v t)) = entries t @ [v]"
begin

primrec push_all :: "'v list \<Rightarrow> 't \<Rightarrow> u32 list \<times> 't" where
  "push_all [] t = ([], t)"
| "push_all (v # vs) t = (let (i, t1) = push v t; (is, t2) = push_all vs t1 in (i # is, t2))"

lemma push_all_result:
  "entries (snd (push_all vs t)) = entries t @ vs
   \<and> fst (push_all vs t) = map (\<lambda>k. of_nat (length (entries t) + k)) [0..<length vs]"
proof (induction vs arbitrary: t)
  case (Cons v vs)
  obtain i t1 where p: "push v t = (i, t1)" by (cases "push v t")
  obtain "is" t2 where q: "push_all vs t1 = (is, t2)" by (cases "push_all vs t1")
  have t1: "entries t1 = entries t @ [v]" "i = of_nat (length (entries t))" using push_id [of v t] push_entries [of v t] p by simp_all
  have "[0..<length (v # vs)] = 0 # map Suc [0..<length vs]" by (simp add: upt_conv_Cons map_Suc_upt del: upt_Suc)
  then show ?case using Cons.IH [of t1] p q t1 by (simp add: comp_def add.commute)
qed simp

lemma pushed_resolve:
  assumes "push_all vs t = (is, t')" "length (entries t') < 2 ^ 32" "k < length vs"
  shows "nth_opt (entries t') (unat (is ! k)) = Some (vs ! k)"
proof -
  have r: "is = map (\<lambda>k. of_nat (length (entries t) + k)) [0..<length vs]" "entries t' = entries t @ vs"
    using push_all_result [of vs t] assms(1) by simp_all
  have "is ! k = of_nat (length (entries t) + k)" using assms(3) unfolding r(1) by (simp del: of_nat_add)
  moreover have "length (entries t) + k < 2 ^ 32" using assms(2,3) r(2) by simp
  ultimately have "unat (is ! k) = length (entries t) + k" by (simp only: unat_of_nat_u32)
  then show ?thesis using assms(3) r(2) by simp
qed

lemma pushed_distinct:
  assumes "push_all vs t = (is, t')" "length (entries t') < 2 ^ 32"
  shows "distinct is"
proof -
  have r: "is = map (\<lambda>k. of_nat (length (entries t) + k)) [0..<length vs]" "entries t' = entries t @ vs"
    using push_all_result [of vs t] assms(1) by simp_all
  have "inj_on (\<lambda>k. of_nat (length (entries t) + k) :: u32) (set [0..<length vs])"
  proof (rule inj_onI)
    fix x y assume "x \<in> set [0..<length vs]" "y \<in> set [0..<length vs]"
      and e: "(of_nat (length (entries t) + x) :: u32) = of_nat (length (entries t) + y)"
    then have "length (entries t) + x < 2 ^ 32" "length (entries t) + y < 2 ^ 32" using r(2) assms(2) by simp_all
    then show "x = y" using arg_cong [OF e, of unat] by (simp only: unat_of_nat_u32)
  qed
  then show ?thesis unfolding r(1) by (simp only: distinct_map distinct_upt)
qed

lemma old_resolve:
  assumes "push_all vs t = (is, t')" "nth_opt (entries t) i = Some x"
  shows "nth_opt (entries t') i = Some x"
  using push_all_result [of vs t] assms by (auto simp: nth_append)

end

interpretation registry: append_table
  "\<lambda>d. register_template (td_template d) (td_signature d)" reg_templates
  by unfold_locales (simp_all add: register_template_def)

section \<open>Transparent caches\<close>

text \<open>
  A memo table in front of a function of the key: what it answers is what the function answers.
\<close>

locale memo =
  fixes request :: "'k \<Rightarrow> 'c \<Rightarrow> ('e + 'a) \<times> 'c" and peek :: "'c \<Rightarrow> 'k \<rightharpoonup> 'a" and f :: "'k \<Rightarrow> 'e + 'a"
  assumes known: "peek c k = Some a \<Longrightarrow> request k c = (Inr a, c)"
    and unknown: "peek c k = None \<Longrightarrow> \<exists>c'. request k c = (f k, c') \<and>
      peek c' = (case f k of Inl _ \<Rightarrow> peek c | Inr a \<Rightarrow> (peek c)(k \<mapsto> a))"
begin

definition coherent :: "'c \<Rightarrow> bool" where
  "coherent c \<longleftrightarrow> (\<forall>k a. peek c k = Some a \<longrightarrow> f k = Inr a)"

lemma request_transparent:
  assumes "coherent c"
  shows "fst (request k c) = f k" "coherent (snd (request k c))"
proof -
  have "fst (request k c) = f k \<and> coherent (snd (request k c))"
  proof (cases "peek c k")
    case None
    from unknown [OF None] show ?thesis using assms by (cases "f k") (auto simp: coherent_def split: if_splits)
  next
    case (Some a)
    then show ?thesis using known [OF Some] assms by (simp add: coherent_def)
  qed
  then show "fst (request k c) = f k" "coherent (snd (request k c))" by simp_all
qed

primrec requests :: "'k list \<Rightarrow> 'c \<Rightarrow> ('e + 'a) list \<times> 'c" where
  "requests [] c = ([], c)"
| "requests (k # ks) c = (let (r, c1) = request k c; (rs, c2) = requests ks c1 in (r # rs, c2))"

lemma requests_transparent: "coherent c \<Longrightarrow> fst (requests ks c) = map f ks \<and> coherent (snd (requests ks c))"
proof (induction ks arbitrary: c)
  case (Cons k ks)
  obtain r c1 where p: "request k c = (r, c1)" by (cases "request k c")
  obtain rs c2 where q: "requests ks c1 = (rs, c2)" by (cases "requests ks c1")
  show ?case using request_transparent [OF Cons.prems, of k] Cons.IH [of c1] p q by simp
qed simp

end

text \<open>The cache in front of a compiler that is a function of the key, counting its runs.\<close>

definition counted_compile :: "(specialization_key \<Rightarrow> 'e + 'a) \<Rightarrow> specialization_key \<Rightarrow> nat \<Rightarrow> ('e + 'a) \<times> nat" where
  "counted_compile compiler key runs = (compiler key, Suc runs)"

interpretation cache: memo
  "\<lambda>key. get_or_try_compile key (counted_compile compiler key)" "\<lambda>c. cache_artifacts (fst c)" compiler
  for compiler :: "specialization_key \<Rightarrow> 'e + 'a"
  by unfold_locales
    (auto simp: get_or_try_compile_def counted_compile_def split: sum.splits prod.splits)

section \<open>Properties\<close>

primrec register_all ::
  "template_definition list \<Rightarrow> definition_registry \<Rightarrow> definition_id list \<times> definition_registry" where
  "register_all [] reg = ([], reg)"
| "register_all (d # ds) reg =
     (let (i, reg1) = register_template (td_template d) (td_signature d) reg; (is, reg2) = register_all ds reg1
      in (i # is, reg2))"

lemma register_all_push: "register_all ds reg = registry.push_all ds reg"
  by (induction ds arbitrary: reg) simp_all

text \<open>
  Definition ids are stable and distinct: registering a sequence of templates returns distinct ids,
  each of which resolves to its template and signature after all registrations, and ids handed out
  before still resolve to what they did.
\<close>

theorem registry_ids_stable:
  assumes "register_all ds reg = (is, reg')" "registry_len reg' < 2 ^ 32"
  shows "distinct is \<and> (\<forall>k<length ds. registry_template reg' (is ! k) = Inr (ds ! k))
    \<and> (\<forall>i d. registry_template reg i = Inr d \<longrightarrow> registry_template reg' i = Inr d)"
proof -
  have push: "registry.push_all ds reg = (is, reg')" and len: "length (reg_templates reg') < 2 ^ 32"
    using assms by (simp_all add: register_all_push registry_len_def)
  show ?thesis
    using registry.pushed_distinct [OF push len] registry.pushed_resolve [OF push len] registry.old_resolve [OF push]
    unfolding registry_template_def ok_or_Inr_iff by blast
qed

theorem registry_ids_stable_witness:
  "\<exists>d reg' i j. register_all [d, d] registry_new = ([i, j], reg') \<and> i \<noteq> j \<and> registry_template reg' j = Inr d"
proof -
  let ?d = "\<lparr>td_template = \<lparr>tid_store = 1, tid_index = 0\<rparr>, td_signature = \<lparr>scan_slots = 2, structural_slots = 0\<rparr>\<rparr>"
  let ?reg = "\<lparr>reg_templates = [?d, ?d]\<rparr>"
  have r: "register_all [?d, ?d] registry_new = ([0, 1], ?reg)"
    by (simp add: register_template_def registry_new_def)
  have "\<forall>k<length [?d, ?d]. registry_template ?reg ([0, 1] ! k) = Inr ([?d, ?d] ! k)"
    using registry_ids_stable [OF r] by (simp add: registry_len_def)
  then have "registry_template ?reg ([0, 1] ! 1) = Inr ?d" by force
  then show ?thesis using r by (intro exI [of _ ?d] exI [of _ ?reg] exI [of _ 0] exI [of _ 1]) simp
qed

primrec compile_requests ::
  "(specialization_key \<Rightarrow> 'e + 'a) \<Rightarrow> specialization_key list \<Rightarrow> 'a specialization_cache \<times> nat
     \<Rightarrow> ('e + 'a) list \<times> 'a specialization_cache \<times> nat" where
  "compile_requests compiler [] c = ([], c)"
| "compile_requests compiler (k # ks) c =
     (let (r, c1) = get_or_try_compile k (counted_compile compiler k) c; (rs, c2) = compile_requests compiler ks c1
      in (r # rs, c2))"

lemma compile_requests_memo: "compile_requests compiler ks c = cache.requests compiler ks c"
  by (induction ks arbitrary: c) simp_all

text \<open>
  The specialization cache is transparent: in front of a compiler whose answer depends on the key
  only, any sequence of requests to a new cache gets exactly the answers that compiling each time would
  give, failures included.
\<close>

theorem specialization_cache_transparent:
  "fst (compile_requests compiler ks (cache_new, 0)) = map compiler ks"
  using cache.requests_transparent [of compiler "(cache_new, 0)" ks]
  by (simp add: compile_requests_memo cache.coherent_def cache_new_def)

definition succeeds :: "(specialization_key \<Rightarrow> 'e + 'a) \<Rightarrow> specialization_key \<Rightarrow> bool" where
  "succeeds compiler k \<longleftrightarrow> (\<exists>a. compiler k = Inr a)"

lemma compile_runs:
  assumes "dom (cache_artifacts c) = S" "\<forall>k\<in>S. succeeds compiler k"
  shows "snd (snd (compile_requests compiler ks (c, n)))
    = n + card ({k \<in> set ks. succeeds compiler k} - S) + length (filter (\<lambda>k. \<not> succeeds compiler k) ks)
    \<and> dom (cache_artifacts (fst (snd (compile_requests compiler ks (c, n))))) = S \<union> {k \<in> set ks. succeeds compiler k}"
  using assms
proof (induction ks arbitrary: c n S)
  case (Cons k ks)
  consider (hit) a where "cache_artifacts c k = Some a" | (fail) e where "cache_artifacts c k = None" "compiler k = Inl e"
    | (compiled) a where "cache_artifacts c k = None" "compiler k = Inr a"
    by (cases "cache_artifacts c k"; cases "compiler k") auto
  then show ?case
  proof cases
    case hit
    then have k: "k \<in> S" "succeeds compiler k" using Cons.prems by auto
    then have "{k' \<in> set (k # ks). succeeds compiler k'} - S = {k' \<in> set ks. succeeds compiler k'} - S"
      "S \<union> {k' \<in> set (k # ks). succeeds compiler k'} = S \<union> {k' \<in> set ks. succeeds compiler k'}" by auto
    then show ?thesis
      using Cons.IH [OF Cons.prems, of n] hit k by (simp add: get_or_try_compile_def case_prod_beta)
  next
    case fail
    then have k: "\<not> succeeds compiler k" by (simp add: succeeds_def)
    then have "{k' \<in> set (k # ks). succeeds compiler k'} = {k' \<in> set ks. succeeds compiler k'}" by auto
    then show ?thesis
      using Cons.IH [OF Cons.prems, of "Suc n"] fail k by (simp add: get_or_try_compile_def counted_compile_def case_prod_beta)
  next
    case compiled
    let ?c = "c\<lparr>cache_artifacts := (cache_artifacts c)(k \<mapsto> a)\<rparr>" and ?K = "{k' \<in> set ks. succeeds compiler k'}"
    have k: "k \<notin> S" "succeeds compiler k" using compiled Cons.prems by (auto simp: succeeds_def)
    have S: "dom (cache_artifacts ?c) = insert k S" "\<forall>k'\<in>insert k S. succeeds compiler k'" using Cons.prems k by auto
    have set: "{k' \<in> set (k # ks). succeeds compiler k'} = insert k ?K" using k by auto
    have "insert k ?K - S = insert k (?K - insert k S)" using k by auto
    then have "card (insert k ?K - S) = Suc (card (?K - insert k S))" by (simp add: card_insert_if)
    moreover have "insert k S \<union> ?K = S \<union> insert k ?K" by auto
    ultimately show ?thesis
      using Cons.IH [OF S, of "Suc n"] compiled k unfolding set
      by (simp add: get_or_try_compile_def counted_compile_def case_prod_beta)
  qed
qed simp

text \<open>
  The compiler runs at most once per key that succeeds: the number of runs is the number of distinct
  keys among the requests that succeed plus the number of requests that fail, because a failed compile
  is not cached.
\<close>

theorem specialization_cache_runs_once:
  "snd (snd (compile_requests compiler ks (cache_new, 0)))
     = card {k \<in> set ks. succeeds compiler k} + length (filter (\<lambda>k. \<not> succeeds compiler k) ks)
   \<and> cache_len (fst (snd (compile_requests compiler ks (cache_new, 0)))) = card {k \<in> set ks. succeeds compiler k}"
  using compile_runs [of cache_new "{}" compiler ks 0] by (simp add: cache_new_def cache_len_def)

end
