(* ===== verification/Source_Module.thy ===== *)
theory Source_Module
  imports Sequence_Hir Definition_Registry
begin

text \<open>
  \<open>catseq-frontend/src/lib.rs\<close> and \<open>names.rs\<close>: a parsed source file with its imports and sequence functions, the
  resolution of dotted names and the discovery of scan slots.  The parser is a parameter: a function from source text
  to the root of a syntax tree, or one of its two failures.
\<close>

section \<open>Imports\<close>

type_synonym import_table = "string \<rightharpoonup> string"

definition join_qualified :: "string \<Rightarrow> string \<Rightarrow> string" where
  "join_qualified module_name name = (if ends_with module_name ''.'' then module_name @ name else module_name @ ''.'' @ name)"

definition aliased_names :: "ts_node \<Rightarrow> (string \<times> string) option" where
  "aliased_names node = do {
     name \<leftarrow> child_by_field_name ''name'' node;
     alias \<leftarrow> child_by_field_name ''alias'' node;
     n \<leftarrow> ts_text name;
     a \<leftarrow> ts_text alias;
     Some (n, a) }"

definition direct_import :: "ts_node \<Rightarrow> import_table \<Rightarrow> import_table" where
  "direct_import imported imps =
     (if ts_kind imported = ''aliased_import''
      then (case aliased_names imported of None \<Rightarrow> imps | Some (qualified, alias) \<Rightarrow> imps(alias \<mapsto> qualified))
      else if ts_kind imported = ''dotted_name''
      then (case ts_text imported of None \<Rightarrow> imps | Some qualified \<Rightarrow> imps(before_dot qualified \<mapsto> before_dot qualified))
      else imps)"

definition discover_direct_imports :: "ts_node \<Rightarrow> import_table \<Rightarrow> import_table" where
  "discover_direct_imports statement imps = fold direct_import (named_children statement) imps"

definition from_import :: "ts_node \<Rightarrow> string \<Rightarrow> ts_node \<Rightarrow> import_table \<Rightarrow> import_table" where
  "from_import module_node module_name imported imps =
     (if byte_range imported = byte_range module_node then imps
      else if ts_kind imported = ''aliased_import''
      then (case aliased_names imported of None \<Rightarrow> imps | Some (name, alias) \<Rightarrow> imps(alias \<mapsto> join_qualified module_name name))
      else if ts_kind imported = ''dotted_name''
      then (case ts_text imported of None \<Rightarrow> imps | Some name \<Rightarrow> imps(after_last_dot name \<mapsto> join_qualified module_name name))
      else imps)"

definition discover_from_imports :: "ts_node \<Rightarrow> import_table \<Rightarrow> import_table" where
  "discover_from_imports statement imps =
     (case child_by_field_name ''module_name'' statement of
        None \<Rightarrow> imps
      | Some module_node \<Rightarrow>
          (case ts_text module_node of
             None \<Rightarrow> imps
           | Some module_name \<Rightarrow> fold (from_import module_node module_name) (named_children statement) imps))"

definition discover_imports :: "ts_node \<Rightarrow> import_table" where
  "discover_imports tree = fold (\<lambda>statement imps.
       if ts_kind statement = ''import_statement'' then discover_direct_imports statement imps
       else if ts_kind statement = ''import_from_statement'' then discover_from_imports statement imps
       else imps) (named_children tree) Map.empty"

section \<open>Sequence functions of a file\<close>

definition decorated_function :: "ts_node \<Rightarrow> ts_node option" where
  "decorated_function node = find (\<lambda>child. ts_kind child = ''function_definition'') (named_children node)"

definition decorated_class :: "ts_node \<Rightarrow> ts_node option" where
  "decorated_class node = find (\<lambda>child. ts_kind child = ''class_definition'') (named_children node)"

definition strip_at :: "string \<Rightarrow> string" where
  "strip_at s = (case s of [] \<Rightarrow> [] | c # rest \<Rightarrow> if c = CHR ''@'' then rest else s)"

definition has_arena_build_decorator :: "ts_node \<Rightarrow> bool" where
  "has_arena_build_decorator node \<longleftrightarrow>
     (\<exists>child\<in>set (named_children node). ts_kind child = ''decorator''
        \<and> (case ts_text child of
             None \<Rightarrow> False
           | Some text \<Rightarrow> let decorator = strip_at (str_trim text)
               in decorator = ''arena_build'' \<or> ends_with decorator ''.arena_build''))"

type_synonym scope = "ts_node \<times> string list"

definition push_class_scope :: "ts_node \<Rightarrow> string list \<Rightarrow> scope list" where
  "push_class_scope class_node parent_names =
     (case (child_by_field_name ''name'' class_node, child_by_field_name ''body'' class_node) of
        (Some name, Some body) \<Rightarrow> (case ts_text name of None \<Rightarrow> [] | Some n \<Rightarrow> [(body, parent_names @ [n])])
      | _ \<Rightarrow> [])"

text \<open>\<open>source[byte_range]\<close> panics when the range is out of bounds.\<close>

definition sequence_entry_of :: "string \<Rightarrow> string list \<Rightarrow> ts_node \<Rightarrow> sequence_entry option" where
  "sequence_entry_of source scope_names function_node =
     (let name = (case Option.bind (child_by_field_name ''name'' function_node) ts_text of None \<Rightarrow> ''<missing>'' | Some n \<Rightarrow> n);
          (from', until) = byte_range function_node
      in if until < from' then None
         else map_option (\<lambda>text. \<lparr>entry_qualified_name = join_dots (scope_names @ [name]), entry_source = text,
             entry_byte_range = (from', until)\<rparr>) (slice_get source from' (until - from')))"

text \<open>What one child of a scope adds: entries, and the scopes pushed for it.\<close>

definition discover_child :: "string \<Rightarrow> string list \<Rightarrow> ts_node \<Rightarrow> (sequence_entry list \<times> scope list) option" where
  "discover_child source scope_names child =
     (if ts_kind child = ''class_definition'' then Some ([], push_class_scope child scope_names)
      else if ts_kind child = ''decorated_definition''
      then (case decorated_function child of
          Some function_node \<Rightarrow>
            if has_arena_build_decorator child
            then map_option (\<lambda>entry. ([entry], [])) (sequence_entry_of source scope_names function_node)
            else Some ([], [])
        | None \<Rightarrow>
            (case decorated_class child of
               Some class_node \<Rightarrow> Some ([], push_class_scope class_node scope_names)
             | None \<Rightarrow> Some ([], [])))
      else Some ([], []))"

fun discover_children ::
  "string \<Rightarrow> string list \<Rightarrow> ts_node list \<Rightarrow> (sequence_entry list \<times> scope list) option" where
  "discover_children source scope_names [] = Some ([], [])"
| "discover_children source scope_names (child # rest) = do {
     (entries, scopes) \<leftarrow> discover_child source scope_names child;
     (entries', scopes') \<leftarrow> discover_children source scope_names rest;
     Some (entries @ entries', scopes @ scopes') }"

abbreviation scopes_size :: "scope list \<Rightarrow> nat" where
  "scopes_size scopes \<equiv> sum_list (map (\<lambda>(node, _). size node) scopes)"

lemma class_scope_size: "scopes_size (push_class_scope class_node names) < size class_node"
proof -
  have "0 < size class_node" by (cases class_node) simp
  then show ?thesis
    by (auto simp: push_class_scope_def split: option.splits dest!: child_by_field_in intro: size_child)
qed

lemma discover_child_size:
  assumes "discover_child source names child = Some (entries, scopes)"
  shows "scopes_size scopes \<le> size child"
proof -
  have "size c < size child" if "decorated_class child = Some c" for c
    using that by (auto simp: decorated_class_def find_Some_iff intro!: size_child named_child_in)
  then have "scopes_size (push_class_scope c names) \<le> size child" if "decorated_class child = Some c" for c
    using that class_scope_size [of c names] by fastforce
  then show ?thesis
    using assms class_scope_size [of child names]
    by (auto simp: discover_child_def simp del: case_prod_beta split: if_splits option.splits)
qed

lemma discover_children_size:
  "discover_children source names children = Some (entries, scopes) \<Longrightarrow> scopes_size scopes \<le> sum_list (map size children)"
proof (induction children arbitrary: entries scopes)
  case (Cons child children)
  then obtain e s e' s' where "discover_child source names child = Some (e, s)" "discover_children source names children = Some (e', s')"
    "scopes = s @ s'" by (auto simp: bind_eq_Some_conv)
  then show ?case using Cons.IH discover_child_size by (fastforce intro: add_mono)
qed simp

function discover_scopes :: "string \<Rightarrow> scope list \<Rightarrow> sequence_entry list \<Rightarrow> sequence_entry list option" where
  "discover_scopes source [] entries = Some entries"
| "discover_scopes source ((scope_node, scope_names) # scopes) entries =
     (case discover_children source scope_names (named_children scope_node) of
        None \<Rightarrow> None
      | Some (found, pushed) \<Rightarrow> discover_scopes source (rev pushed @ scopes) (entries @ found))"
  by pat_completeness auto
termination
proof (relation "measure (\<lambda>(_, scopes, _). scopes_size scopes)")
  fix source scope_node scope_names and scopes :: "scope list" and entries y x found pushed
  assume "discover_children source scope_names (named_children scope_node) = Some y" "(found, pushed) = y"
  then have "scopes_size pushed < size scope_node"
    using discover_children_size [of source scope_names "named_children scope_node" found pushed] size_named [of scope_node] by simp
  then show "((source, rev pushed @ scopes, entries @ found), (source, (scope_node, scope_names) # scopes, entries))
      \<in> measure (\<lambda>(_, scopes, _). scopes_size scopes)" by (simp add: rev_map [symmetric])
qed simp

definition discover_sequence_entries :: "string \<Rightarrow> ts_node \<Rightarrow> sequence_entry list option" where
  "discover_sequence_entries source tree =
     map_option (sort_key (\<lambda>entry. fst (entry_byte_range entry))) (discover_scopes source [(tree, [])] [])"

section \<open>Modules\<close>

datatype parser_failure = ParserInitialization string | ParserCancelled

datatype frontend_error = ParserFailed parser_failure | SyntaxError string nat nat

record source_module =
  sm_file_name :: string
  sm_imports :: import_table
  sm_sequence_entries :: "sequence_entry list"
  sm_source :: string
  sm_tree :: ts_node

function first_syntax_error :: "ts_node list \<Rightarrow> ts_node option" where
  "first_syntax_error [] = None"
| "first_syntax_error (node # stack) =
     (if ts_is_error node \<or> ts_is_missing node then Some node
      else if \<not> ts_has_error node then first_syntax_error stack
      else first_syntax_error (rev (ts_children node) @ stack))"
  by pat_completeness auto
termination
proof (relation "measure (\<lambda>stack. sum_list (map size stack))")
  fix node :: ts_node and stack :: "ts_node list"
  have "0 < size node" by (cases node) simp
  then show "(stack, node # stack) \<in> measure (\<lambda>stack. sum_list (map size stack))" by simp
  show "(rev (ts_children node) @ stack, node # stack) \<in> measure (\<lambda>stack. sum_list (map size stack))"
    using size_children [of node] by (simp add: rev_map [symmetric])
qed simp

type_synonym parser = "string \<Rightarrow> parser_failure + ts_node"

definition module_parse :: "parser \<Rightarrow> string \<Rightarrow> string \<Rightarrow> (frontend_error + source_module) option" where
  "module_parse parse file_name source =
     (case parse source of
        Inl failure \<Rightarrow> Some (Inl (ParserFailed failure))
      | Inr tree \<Rightarrow>
          if ts_has_error tree
          then (let node = (case first_syntax_error [tree] of None \<Rightarrow> tree | Some n \<Rightarrow> n)
            in Some (Inl (SyntaxError file_name (ts_row node + 1) (ts_column node + 1))))
          else map_option (\<lambda>entries. Inr \<lparr>sm_file_name = file_name, sm_imports = discover_imports tree,
              sm_sequence_entries = entries, sm_source = source, sm_tree = tree\<rparr>)
            (discover_sequence_entries source tree))"

definition sequence_entry_named :: "source_module \<Rightarrow> string \<Rightarrow> sequence_entry option" where
  "sequence_entry_named self name = find (\<lambda>entry. entry_qualified_name entry = name) (sm_sequence_entries self)"

definition lower_sequence :: "(string \<Rightarrow> u64 option) \<Rightarrow> source_module \<Rightarrow> string \<Rightarrow> lowering_error + sequence_hir" where
  "lower_sequence parse_f64 self name =
     res_bind (ok_or (EntryNotFound (sm_file_name self) name) (sequence_entry_named self name)) (\<lambda>entry.
       lower_entry parse_f64 (sm_file_name self) entry (sm_tree self))"

section \<open>Dotted names\<close>

datatype path_root = Imported | ParameterRoot | ModuleGlobal

record resolved_path =
  rp_root :: path_root
  rp_qualified_name :: string

text \<open>The names of an attribute chain from the outside in; \<open>None\<close> when an index is out of bounds or the chain has no end.\<close>

partial_function (option) path_segments :: "sequence_hir \<Rightarrow> expression_id \<Rightarrow> string list \<Rightarrow> string list option option" where
  "path_segments hir current segments =
     Option.bind (kind_at hir current) (\<lambda>kind.
       case kind of
         HAttribute object name \<Rightarrow> path_segments hir object (segments @ [name])
       | HSymbol name \<Rightarrow> Some (Some (segments @ [name]))
       | _ \<Rightarrow> Some None)"

definition resolve_segments :: "import_table \<Rightarrow> sequence_hir \<Rightarrow> string list \<Rightarrow> resolved_path option" where
  "resolve_segments imps hir segments =
     (case segments of
        [] \<Rightarrow> None
      | first # rest \<Rightarrow>
          Some (if first \<in> set (hir_parameters hir)
            then \<lparr>rp_root = ParameterRoot, rp_qualified_name = join_dots segments\<rparr>
            else case imps first of
              Some imported \<Rightarrow> \<lparr>rp_root = Imported, rp_qualified_name = join_dots (imported # rest)\<rparr>
            | None \<Rightarrow> \<lparr>rp_root = ModuleGlobal, rp_qualified_name = join_dots segments\<rparr>))"

definition resolve_path :: "import_table \<Rightarrow> sequence_hir \<Rightarrow> expression_id \<Rightarrow> resolved_path option option" where
  "resolve_path imps hir expression =
     map_option (\<lambda>found. Option.bind found (\<lambda>segments. resolve_segments imps hir (rev segments)))
       (path_segments hir expression [])"

section \<open>Scan slots\<close>

record scan_slot_use =
  ssu_expression :: expression_id
  ssu_runtime_value :: runtime_value_id
  ssu_key :: string

definition is_scan_parameter_type :: "string \<Rightarrow> bool" where
  "is_scan_parameter_type annotation \<longleftrightarrow> after_last_dot annotation = ''ExpParams''"

text \<open>The key of a scan slot, when the expression is one.\<close>

definition scan_slot_key :: "import_table \<Rightarrow> sequence_hir \<Rightarrow> hir_kind \<Rightarrow> string option option" where
  "scan_slot_key imps hir kind =
     (case kind of
        HSubscript value key \<Rightarrow>
          Option.bind (resolve_path imps hir value) (\<lambda>container.
            case container of
              None \<Rightarrow> Some None
            | Some c \<Rightarrow>
                if rp_root c \<noteq> ParameterRoot
                   \<or> \<not> (case hir_parameter_types hir (rp_qualified_name c) of None \<Rightarrow> False | Some t \<Rightarrow> is_scan_parameter_type t)
                then Some None
                else map_option (map_option rp_qualified_name) (resolve_path imps hir key))
      | _ \<Rightarrow> Some None)"

text \<open>The table of runtime values, in the order of insertion; a key that is not there gets the next number.\<close>

definition intern_runtime_value :: "string list \<Rightarrow> string \<Rightarrow> runtime_value_id \<times> string list" where
  "intern_runtime_value keys key =
     (case find (\<lambda>(i, k). k = key) (enumerate 0 keys) of
        Some (i, _) \<Rightarrow> (of_nat i, keys)
      | None \<Rightarrow> (of_nat (length keys), keys @ [key]))"

fun scan_loop ::
  "import_table \<Rightarrow> sequence_hir \<Rightarrow> bool list \<Rightarrow> (nat \<times> hir_expression) list \<Rightarrow> string list \<Rightarrow> scan_slot_use list option" where
  "scan_loop imps hir reachable [] keys = Some []"
| "scan_loop imps hir reachable ((index, expression) # rest) keys =
     (if \<not> reachable ! index then scan_loop imps hir reachable rest keys
      else Option.bind (scan_slot_key imps hir (he_kind expression)) (\<lambda>slot.
        case slot of
          None \<Rightarrow> scan_loop imps hir reachable rest keys
        | Some key \<Rightarrow>
            (let (runtime_value, keys') = intern_runtime_value keys key
             in map_option (\<lambda>uses. \<lparr>ssu_expression = of_nat index, ssu_runtime_value = runtime_value, ssu_key = key\<rparr> # uses)
                  (scan_loop imps hir reachable rest keys'))))"

definition discover_scan_slots :: "import_table \<Rightarrow> sequence_hir \<Rightarrow> scan_slot_use list option" where
  "discover_scan_slots imps hir =
     Option.bind (reachable_mask hir) (\<lambda>reachable.
       scan_loop imps hir reachable (enumerate 0 (hir_expressions hir)) [])"

section \<open>Paths of a module\<close>

fun collect_paths :: "(nat \<Rightarrow> hir_kind \<Rightarrow> resolved_path option option) \<Rightarrow> bool list \<Rightarrow> (nat \<times> hir_expression) list \<Rightarrow> resolved_path list option" where
  "collect_paths resolve reachable [] = Some []"
| "collect_paths resolve reachable ((index, expression) # rest) =
     (if \<not> reachable ! index then collect_paths resolve reachable rest
      else Option.bind (resolve index (he_kind expression)) (\<lambda>path.
        map_option (\<lambda>paths. case path of None \<Rightarrow> paths | Some p \<Rightarrow> p # paths) (collect_paths resolve reachable rest)))"

definition resolved_paths :: "source_module \<Rightarrow> sequence_hir \<Rightarrow> resolved_path list option" where
  "resolved_paths self hir =
     Option.bind (reachable_mask hir) (\<lambda>reachable.
       collect_paths (\<lambda>index _. resolve_path (sm_imports self) hir (of_nat index)) reachable (enumerate 0 (hir_expressions hir)))"

definition resolved_call_targets :: "source_module \<Rightarrow> sequence_hir \<Rightarrow> resolved_path list option" where
  "resolved_call_targets self hir =
     Option.bind (reachable_mask hir) (\<lambda>reachable.
       collect_paths (\<lambda>_ kind. case kind of HCall f _ _ \<Rightarrow> resolve_path (sm_imports self) hir f | _ \<Rightarrow> Some None)
         reachable (enumerate 0 (hir_expressions hir)))"

definition module_scan_slots :: "source_module \<Rightarrow> sequence_hir \<Rightarrow> scan_slot_use list option" where
  "module_scan_slots self hir = discover_scan_slots (sm_imports self) hir"

end
