(* ===== verification/Hir_Soundness.thy ===== *)
theory Hir_Soundness
  imports Sequence_Hir "HOL-Library.Sublist"
begin

text \<open>
  The expressions that the lowering of a function produces are in the order of their construction: every operand is
  an earlier expression.  With that the queries that follow operands always return.
\<close>

section \<open>Well-formed expressions\<close>

definition hir_kids :: "sequence_hir \<Rightarrow> nat \<Rightarrow> nat list" where
  "hir_kids hir i =
     (if i < length (hir_expressions hir) then map unat (hir_children (he_kind (hir_expressions hir ! i))) else [])"

definition operands_earlier :: "hir_expression list \<Rightarrow> bool" where
  "operands_earlier es \<longleftrightarrow> (\<forall>i<length es. \<forall>c\<in>set (hir_children (he_kind (es ! i))). unat c < i)"

definition hir_wf :: "sequence_hir \<Rightarrow> bool" where
  "hir_wf hir \<longleftrightarrow> operands_earlier (hir_expressions hir) \<and> unat (hir_root hir) < length (hir_expressions hir)"

lemma operands_earlier_snoc:
  "operands_earlier (es @ [e]) \<longleftrightarrow> operands_earlier es \<and> (\<forall>c\<in>set (hir_children (he_kind e)). unat c < length es)"
  by (auto simp: operands_earlier_def nth_append less_Suc_eq)

lemma hir_wf_descending: "hir_wf hir \<Longrightarrow> descending (hir_kids hir)"
  by (auto simp: hir_wf_def operands_earlier_def descending_def hir_kids_def)

lemma hir_wf_kids: "hir_wf hir \<Longrightarrow> j \<in> set (hir_kids hir i) \<Longrightarrow> j < i \<and> i < length (hir_expressions hir)"
  by (auto simp: hir_wf_def operands_earlier_def hir_kids_def split: if_splits)

definition hir_reachable :: "sequence_hir \<Rightarrow> nat set" where
  "hir_reachable hir = reachable_from (hir_kids hir) {unat (hir_root hir)}"

lemma hir_reachable_bound:
  assumes "hir_wf hir"
  shows "hir_reachable hir \<subseteq> {..<length (hir_expressions hir)}"
  unfolding hir_reachable_def
proof (rule reachable_bounded)
  show "j < length (hir_expressions hir)" if "j \<in> set (hir_kids hir i)" for i j
    using hir_wf_kids [OF assms that] by simp
qed (use assms in \<open>simp add: hir_wf_def\<close>)

lemma unmarked [simp]: "marked (replicate n False) = {}"
  by (auto simp: marked_def)

text \<open>The mask of a well-formed sequence holds exactly the expressions that its result depends on.\<close>

lemma reachable_mask_exact:
  assumes "hir_wf hir"
  shows "\<exists>marks. reachable_mask hir = Some marks \<and> length marks = length (hir_expressions hir)
    \<and> marked marks = hir_reachable hir"
proof -
  let ?es = "hir_expressions hir"
  have "\<exists>marks'. mark_reachable (\<lambda>i. map_option (\<lambda>e. map unat (hir_children (he_kind e))) (nth_opt ?es i))
      (replicate (length ?es) False) [unat (hir_root hir)] = Some marks'
      \<and> length marks' = length (replicate (length ?es) False)
      \<and> marked marks' = marked (replicate (length ?es) False) \<union> reachable_from (hir_kids hir) (set [unat (hir_root hir)])"
  proof (rule mark_reachable_correct)
    show "\<forall>i<length (replicate (length ?es) False).
        map_option (\<lambda>e. map unat (hir_children (he_kind e))) (nth_opt ?es i) = Some (hir_kids hir i)"
      by (auto simp: hir_kids_def)
    show "\<forall>i<length (replicate (length ?es) False). \<forall>j\<in>set (hir_kids hir i). j < length (replicate (length ?es) False)"
      using hir_wf_kids [OF assms] by fastforce
  qed (use assms in \<open>auto simp: hir_wf_def\<close>)
  then show ?thesis by (simp add: reachable_mask_def hir_reachable_def)
qed

section \<open>The lowering\<close>

abbreviation lw_size :: "lowerer \<Rightarrow> nat" where
  "lw_size self \<equiv> length (lw_expressions self)"

definition lw_wf :: "lowerer \<Rightarrow> bool" where
  "lw_wf self \<longleftrightarrow> operands_earlier (lw_expressions self) \<and> (\<forall>e\<in>ran (lw_locals self). unat e < lw_size self)"

text \<open>A step that adds expressions and refers to the expressions \<open>used\<close>.\<close>

definition lw_step :: "lowerer \<Rightarrow> expression_id set \<Rightarrow> lowerer \<Rightarrow> bool" where
  "lw_step self used self' \<longleftrightarrow> prefix (lw_expressions self) (lw_expressions self')
     \<and> lw_locals self' = lw_locals self \<and> lw_file_name self' = lw_file_name self
     \<and> (lw_wf self \<longrightarrow> lw_size self' < 2 ^ 32 \<longrightarrow> lw_wf self' \<and> (\<forall>e\<in>used. unat e < lw_size self'))"

lemma lw_step_refl [simp]: "lw_step self {} self"
  by (simp add: lw_step_def)

lemma lw_step_size: "lw_step self used self' \<Longrightarrow> lw_size self \<le> lw_size self'"
  by (simp add: lw_step_def prefix_length_le)

lemma lw_step_trans:
  assumes "lw_step a used b" "lw_step b used' c"
  shows "lw_step a (used \<union> used') c"
  using assms lw_step_size [OF assms(2)] unfolding lw_step_def
  by (metis (no_types, lifting) Un_iff le_less_trans less_le_trans prefix_order.trans)

lemma lw_step_mono: "lw_step a used b \<Longrightarrow> used' \<subseteq> used \<Longrightarrow> lw_step a used' b"
  by (auto simp: lw_step_def)

lemma lw_step_trans': "lw_step a used b \<Longrightarrow> lw_step b used' c \<Longrightarrow> used'' \<subseteq> used \<union> used' \<Longrightarrow> lw_step a used'' c"
  by (rule lw_step_mono [OF lw_step_trans])

lemma lw_append_step:
  assumes "lw_step self (set (hir_children kind)) self1" "lw_append kind node self1 = (e, self')"
  shows "lw_step self {e} self'"
proof -
  have "lw_step self1 {e} self'" if "\<forall>c\<in>set (hir_children kind). unat c < lw_size self1"
    using assms(2) that
    by (auto simp: lw_append_def lw_step_def lw_wf_def operands_earlier_snoc less_Suc_eq)
  moreover have "prefix (lw_expressions self1) (lw_expressions self')" "lw_locals self' = lw_locals self1"
      "lw_file_name self' = lw_file_name self1" "lw_size self1 \<le> lw_size self'"
    using assms(2) by (auto simp: lw_append_def)
  ultimately show ?thesis using assms(1) unfolding lw_step_def
    by (metis (no_types, lifting) le_less_trans prefix_order.trans)
qed

lemma lw_step_then: "lw_step a {x} b \<Longrightarrow> lw_step b used c \<Longrightarrow> lw_step a (insert x used) c"
  using lw_step_trans [of a "{x}" b used c] by simp

text \<open>What the cases of an expression rely on: lowering an operand is a step that refers to the operand.\<close>

locale sound_lowering =
  fixes below :: lowering
  assumes operand_step: "below node self = Inr (e, self') \<Longrightarrow> lw_step self {e} self'"
begin

lemma lower_arguments_step:
  "lower_arguments below nodes self = Inr ((arguments, kws), self')
    \<Longrightarrow> lw_step self (set arguments \<union> kw_value ` set kws) self'"
proof (induction nodes arbitrary: self arguments kws self')
  case (Cons argument rest)
  then show ?case
    by (auto simp: res_simps split: if_splits dest!: operand_step Cons.IH intro: lw_step_then)
qed simp

lemma lower_items_step:
  "lower_sequence_items below nodes self = Inr (items, self') \<Longrightarrow> lw_step self (set items) self'"
proof (induction nodes arbitrary: self items self')
  case (Cons item rest)
  then show ?case by (auto simp: res_simps dest!: operand_step Cons.IH intro: lw_step_then)
qed simp

lemma dictionary_children: "set (hir_children (HDictionary entries)) = fst ` set entries \<union> snd ` set entries"
  by force

lemma lower_dictionary_step:
  "lower_dictionary below nodes self = Inr (entries, self')
    \<Longrightarrow> lw_step self (set (hir_children (HDictionary entries))) self'"
  unfolding dictionary_children
proof (induction nodes arbitrary: self entries self')
  case (Cons pair rest)
  then obtain key self1 "value" self2 entries' where steps: "lw_step self {key} self1" "lw_step self1 {value} self2"
      "lw_step self2 (fst ` set entries' \<union> snd ` set entries') self'" and entries: "entries = (key, value) # entries'"
    by (auto simp: res_simps split: if_splits dest!: operand_step Cons.IH)
  from lw_step_then [OF steps(1) lw_step_then [OF steps(2,3)]]
  show ?case by (simp add: entries insert_commute)
qed simp

lemma lower_call_step:
  assumes "lower_call below node self = Inr (kind, self')"
  shows "lw_step self (set (hir_children kind)) self'"
proof (cases "child_by_field_name ''arguments'' node")
  case None
  then show ?thesis using assms by (auto simp: lower_call_def res_simps dest!: operand_step)
next
  case (Some nodes)
  then show ?thesis using assms
    by (auto simp: lower_call_def res_simps split: if_splits
      dest!: operand_step lower_arguments_step intro: lw_step_then)
qed

lemma lower_operands_step:
  shows "lower_binary below node self = Inr (kind, self') \<Longrightarrow> lw_step self (set (hir_children kind)) self'"
    and "lower_unary below node self = Inr (kind, self') \<Longrightarrow> lw_step self (set (hir_children kind)) self'"
    and "lower_attribute below node self = Inr (kind, self') \<Longrightarrow> lw_step self (set (hir_children kind)) self'"
    and "lower_subscript below node self = Inr (kind, self') \<Longrightarrow> lw_step self (set (hir_children kind)) self'"
  by (auto simp: lower_binary_def lower_unary_def lower_attribute_def lower_subscript_def res_simps split: option.splits
      dest!: operand_step intro: lw_step_then) (rule lw_step_then, assumption+)

lemma lower_compound_step:
  assumes "lower_compound below node self = Inr (kind, self')"
  shows "lw_step self (set (hir_children kind)) self'"
  using assms
  by (auto simp: lower_compound_def res_simps simp del: hir_children.simps split: if_splits
      dest!: lower_call_step lower_operands_step lower_dictionary_step
        lower_items_step)
    (simp_all)

end

lemma lower_at_ok: "sound_lowering (lower_at parse_f64 levels)"
proof (induction levels)
  case 0
  then show ?case by (simp add: sound_lowering_def)
next
  case (Suc levels)
  have "lw_step self {e} self'" if "lower_at parse_f64 (Suc levels) node self = Inr (e, self')" for node self e self'
  proof -
    have leaf: "lw_append kind node self = (e, self') \<Longrightarrow> hir_children kind = [] \<Longrightarrow> lw_step self {e} self'" for kind
      using lw_append_step [of self kind self node e self'] by simp
    have compound: "lower_compound (lower_at parse_f64 levels) node self = Inr (kind, self1)
        \<Longrightarrow> lw_append kind node self1 = (e, self') \<Longrightarrow> lw_step self {e} self'" for kind self1
      using sound_lowering.lower_compound_step [OF Suc.IH] lw_append_step by blast
    have bound: "lw_step self {e} self" if "lw_locals self x = Some e" for x
      using that by (auto simp: lw_step_def lw_wf_def intro: ranI)
    from that show ?thesis
      using leaf compound bound sound_lowering.operand_step [OF Suc.IH]
      by (auto simp: res_simps split: if_splits option.splits)
  qed
  then show ?case by (simp add: sound_lowering_def)
qed

interpretation lowering: sound_lowering "lower_at parse_f64 levels" for parse_f64 levels
  by (rule lower_at_ok)

section \<open>Functions\<close>

definition lw_grows :: "lowerer \<Rightarrow> lowerer \<Rightarrow> bool" where
  "lw_grows self self' \<longleftrightarrow> prefix (lw_expressions self) (lw_expressions self')
     \<and> (lw_wf self \<longrightarrow> lw_size self' < 2 ^ 32 \<longrightarrow> lw_wf self')"

lemma lw_grows_refl [simp]: "lw_grows self self"
  by (simp add: lw_grows_def)

lemma lw_grows_trans: "lw_grows a b \<Longrightarrow> lw_grows b c \<Longrightarrow> lw_grows a c"
  unfolding lw_grows_def by (metis le_less_trans prefix_length_le prefix_order.trans)

lemma lw_step_grows: "lw_step self used self' \<Longrightarrow> lw_grows self self'"
  by (simp add: lw_step_def lw_grows_def)

lemma bind_local_grows:
  assumes "lw_step self {e} self1"
  shows "lw_grows self (self1\<lparr>lw_locals := (lw_locals self1)(name \<mapsto> e)\<rparr>)"
proof -
  have "ran ((lw_locals self1)(name \<mapsto> e)) \<subseteq> insert e (ran (lw_locals self1))" by (auto simp: ran_def)
  then show ?thesis using assms by (auto simp: lw_step_def lw_grows_def lw_wf_def)
qed

lemma lower_expression_step:
  "lower_expression parse_f64 depth node self = Inr (e, self') \<Longrightarrow> lw_step self {e} self'"
  unfolding lower_expression_def by (rule lowering.operand_step)

lemma lower_assignment_grows:
  assumes "lower_assignment parse_f64 node self = Inr self'"
  shows "lw_grows self self'"
  using assms by (auto simp: lower_assignment_def res_simps split: if_splits dest!: lower_expression_step intro: bind_local_grows)

lemma lower_statements_grows:
  "lower_statements parse_f64 nodes self = Inr (result, self') \<Longrightarrow> lw_grows self self'
    \<and> (\<forall>e. result = Some e \<longrightarrow> lw_wf self \<longrightarrow> lw_size self' < 2 ^ 32 \<longrightarrow> unat e < lw_size self')"
proof (induction parse_f64 nodes self arbitrary: result self' rule: lower_statements.induct)
  case (2 parse_f64 statement rest self)
  consider (skip) "lower_statements parse_f64 rest self = Inr (result, self')" "ts_kind statement \<noteq> ''return_statement''"
    | (bind) inner self1 where "lower_assignment parse_f64 inner self = Inr self1"
        "lower_statements parse_f64 rest self1 = Inr (result, self')" "ts_kind statement = ''expression_statement''"
        "first_named_child statement = Some inner" "ts_kind inner = ''assignment''"
    | (yield) node e where "lower_expression parse_f64 0 node self = Inr (e, self')" "result = Some e"
    using "2.prems" by (auto simp: res_simps split: if_splits option.splits)
  then show ?case
  proof cases
    case skip
    then show ?thesis using "2.IH" "2.prems" by (auto simp: res_simps split: if_splits option.splits)
  next
    case bind
    have "lw_grows self self1" by (rule lower_assignment_grows [OF bind(1)])
    moreover have ih: "lw_grows self1 self'
        \<and> (\<forall>e. result = Some e \<longrightarrow> lw_wf self1 \<longrightarrow> lw_size self' < 2 ^ 32 \<longrightarrow> unat e < lw_size self')"
      using "2.IH"(2) [OF bind(3,4)] bind(2,5) by simp
    moreover have "lw_wf self1" if "lw_wf self" "lw_size self' < 2 ^ 32"
    proof -
      have "lw_size self1 \<le> lw_size self'" using ih by (simp add: lw_grows_def prefix_length_le)
      then show ?thesis using that \<open>lw_grows self self1\<close> by (simp add: lw_grows_def)
    qed
    ultimately show ?thesis using lw_grows_trans by blast
  next
    case yield
    then show ?thesis using lower_expression_step [OF yield(1)] lw_step_grows by (auto simp: lw_step_def)
  qed
qed simp

lemma lower_entry_wf:
  assumes "lower_entry parse_f64 file_name entry tree = Inr hir" "length (hir_expressions hir) < 2 ^ 32"
  shows "hir_wf hir"
proof -
  let ?start = "\<lparr>lw_file_name = file_name, lw_expressions = [], lw_locals = Map.empty\<rparr>"
  have start: "lw_wf ?start" by (simp add: lw_wf_def operands_earlier_def)
  from assms(1) obtain nodes top lw where lower: "lower_statements parse_f64 nodes ?start = Inr (Some top, lw)"
      "hir_expressions hir = lw_expressions lw" "hir_root hir = top"
    by (auto simp: lower_entry_def lower_body_def res_simps Let_def split_beta simp del: find_function.simps)
  from lower_statements_grows [OF lower(1)] show ?thesis
    using start assms(2) lower(2,3) by (auto simp: hir_wf_def lw_grows_def lw_wf_def)
qed

end
