(* ===== verification/Source_Example.thy ===== *)
theory Source_Example
  imports Source_Module Hir_Soundness
begin

text \<open>
  A small file: \<open>@arena_build def f(p: ExpParams): return g(p[k])\<close>, its syntax tree, module and sequence.
\<close>

definition example_leaf :: "string \<Rightarrow> string option \<Rightarrow> string \<Rightarrow> ts_node" where
  "example_leaf kind field s = TsNode kind True field (Some s) 0 0 0 0 False False False []"

definition example_node :: "string \<Rightarrow> string option \<Rightarrow> ts_node list \<Rightarrow> ts_node" where
  "example_node kind field children = TsNode kind True field (Some ''()'') 0 0 0 0 False False False children"

definition example_call :: ts_node where
  "example_call = example_node ''call'' None
     [example_leaf ''identifier'' (Some ''function'') ''g'',
      example_node ''argument_list'' (Some ''arguments'')
        [example_node ''subscript'' None
          [example_leaf ''identifier'' (Some ''value'') ''p'', example_leaf ''identifier'' (Some ''subscript'') ''k'']]]"

definition example_tree :: ts_node where
  "example_tree = example_node ''module'' None
     [example_node ''decorated_definition'' None
       [example_leaf ''decorator'' None ''@arena_build'',
        example_node ''function_definition'' (Some ''definition'')
         [example_leaf ''identifier'' (Some ''name'') ''f'',
          example_node ''parameters'' (Some ''parameters'')
           [example_node ''typed_parameter'' None
             [example_leaf ''identifier'' None ''p'', example_leaf ''type'' (Some ''type'') ''ExpParams'']],
          example_node ''block'' (Some ''body'') [example_node ''return_statement'' None [example_call]]]]]"

definition example_span :: source_span where
  "example_span = \<lparr>span_start_byte = 0, span_end_byte = 0, span_start_line = 1, span_start_column = 1\<rparr>"

definition example_hir :: sequence_hir where
  "example_hir = \<lparr>hir_parameters = [''p''], hir_parameter_types = [''p'' \<mapsto> ''ExpParams''],
     hir_expressions = map (\<lambda>k. \<lparr>he_kind = k, he_span = example_span\<rparr>)
       [HSymbol ''g'', HSymbol ''p'', HSymbol ''k'', HSubscript 1 2, HCall 0 [3] []],
     hir_root = 4\<rparr>"

definition example_module :: source_module where
  "example_module = \<lparr>sm_file_name = ''a.py'', sm_imports = Map.empty,
     sm_sequence_entries = [\<lparr>entry_qualified_name = ''f'', entry_source = [], entry_byte_range = (0, 0)\<rparr>],
     sm_source = ''x'', sm_tree = example_tree\<rparr>"

lemmas example_defs = example_leaf_def example_node_def example_call_def example_tree_def

lemma example_parses: "module_parse (\<lambda>_. Inr example_tree) ''a.py'' ''x'' = Some (Inr example_module)"
  by (simp add: module_parse_def example_module_def discover_imports_def discover_sequence_entries_def example_defs
      named_children_def discover_child_def decorated_function_def has_arena_build_decorator_def strip_at_def str_trim_def
      ascii_whitespace_def sequence_entry_of_def child_by_field_name_def byte_range_def slice_get_def Let_def)

lemma example_lowers: "lower_sequence parse_f64 example_module ''f'' = Inr example_hir"
  by (simp add: lower_sequence_def sequence_entry_named_def example_module_def lower_entry_def example_tree_def example_node_def example_leaf_def
     byte_range_def named_children_def child_by_field_name_def function_parameters_def parameter_name_def first_named_child_def nth_opt_def
     lower_body_def lower_expression_def MAX_EXPRESSION_DEPTH_def example_call_def required_def lower_literal_def lower_compound_def
     lower_call_def lower_subscript_def lw_append_def example_hir_def example_span_def numeral_eq_Suc)

lemma example_wf: "hir_wf example_hir" "length (hir_expressions example_hir) < 2 ^ 32"
  by (auto simp: hir_wf_def operands_earlier_def example_hir_def less_Suc_eq)

end
