(* ===== verification/Hir_Reading.thy ===== *)
theory Hir_Reading
  imports Source_Example
begin

text \<open>
  What a function of restricted Python denotes: the tree of its result, with every local variable replaced by the tree it
  was bound to.  The vector of expressions that the lowering builds holds exactly this tree.
\<close>

section \<open>Trees\<close>

datatype hir_label =
    LSymbol string | LLiteral hir_literal | LAttribute string | LSubscript | LCall nat "string list"
  | LCompose composition_kind | LBinary binary_operator | LUnary unary_operator | LDictionary | LList | LTuple

fun label_of :: "hir_kind \<Rightarrow> hir_label" where
  "label_of (HSymbol s) = LSymbol s"
| "label_of (HLiteral l) = LLiteral l"
| "label_of (HAttribute _ name) = LAttribute name"
| "label_of (HSubscript _ _) = LSubscript"
| "label_of (HCall _ arguments kws) = LCall (length arguments) (map kw_name kws)"
| "label_of (HCompose kind _ _) = LCompose kind"
| "label_of (HBinary op _ _) = LBinary op"
| "label_of (HUnary op _) = LUnary op"
| "label_of (HDictionary _) = LDictionary"
| "label_of (HList _) = LList"
| "label_of (HTuple _) = LTuple"

type_synonym hir_tree = "hir_label rtree"

definition expression_label :: "hir_expression list \<Rightarrow> nat \<Rightarrow> hir_label" where
  "expression_label es i = (if i < length es then label_of (he_kind (es ! i)) else LTuple)"

definition expression_kids :: "hir_expression list \<Rightarrow> nat \<Rightarrow> nat list" where
  "expression_kids es i = (if i < length es then map unat (hir_children (he_kind (es ! i))) else [])"

definition expression_tree :: "hir_expression list \<Rightarrow> expression_id \<Rightarrow> hir_tree" where
  "expression_tree es e = tree_at (expression_label es) (expression_kids es) (unat e)"

section \<open>Meaning of the syntax\<close>

text \<open>
  \<open>denotes env node t\<close>: under the local variables \<open>env\<close> the expression at \<open>node\<close> is \<open>t\<close>.  Literals are read by the
  function \<open>literal\<close>.
\<close>

inductive denotes :: "(ts_node \<Rightarrow> hir_literal option) \<Rightarrow> (string \<rightharpoonup> hir_tree) \<Rightarrow> ts_node \<Rightarrow> hir_tree \<Rightarrow> bool"
  for literal :: "ts_node \<Rightarrow> hir_literal option" and env :: "string \<rightharpoonup> hir_tree" where
  local: "ts_kind node = ''identifier'' \<Longrightarrow> ts_text node = Some x \<Longrightarrow> env x = Some t \<Longrightarrow> denotes literal env node t"
| global: "ts_kind node = ''identifier'' \<Longrightarrow> ts_text node = Some x \<Longrightarrow> env x = None \<Longrightarrow> denotes literal env node (RNode (LSymbol x) [])"
| parens: "ts_kind node = ''parenthesized_expression'' \<Longrightarrow> first_named_child node = Some child \<Longrightarrow> denotes literal env child t
    \<Longrightarrow> denotes literal env node t"
| literal: "literal node = Some l \<Longrightarrow> denotes literal env node (RNode (LLiteral l) [])"
| attribute: "ts_kind node = ''attribute'' \<Longrightarrow> child_by_field_name ''object'' node = Some object \<Longrightarrow>
    child_by_field_name ''attribute'' node = Some attr \<Longrightarrow> ts_text attr = Some name \<Longrightarrow> denotes literal env object t
    \<Longrightarrow> denotes literal env node (RNode (LAttribute name) [t])"
| subscript: "ts_kind node = ''subscript'' \<Longrightarrow> child_by_field_name ''value'' node = Some v \<Longrightarrow>
    child_by_field_name ''subscript'' node = Some i \<Longrightarrow> denotes literal env v t \<Longrightarrow> denotes literal env i u
    \<Longrightarrow> denotes literal env node (RNode LSubscript [t, u])"
| call0: "ts_kind node = ''call'' \<Longrightarrow> child_by_field_name ''function'' node = Some f \<Longrightarrow>
    child_by_field_name ''arguments'' node = None \<Longrightarrow> denotes literal env f t
    \<Longrightarrow> denotes literal env node (RNode (LCall 0 []) [t])"
| call: "ts_kind node = ''call'' \<Longrightarrow> child_by_field_name ''function'' node = Some f \<Longrightarrow>
    child_by_field_name ''arguments'' node = Some l \<Longrightarrow> ts_kind l = ''argument_list'' \<Longrightarrow> denotes literal env f t \<Longrightarrow>
    list_all2 (denotes literal env) (filter (\<lambda>a. ts_kind a \<noteq> ''keyword_argument'') (named_children l)) positional \<Longrightarrow>
    list_all2 (\<lambda>a (name, u). Option.bind (child_by_field_name ''name'' a) ts_text = Some name
        \<and> (\<exists>v. child_by_field_name ''value'' a = Some v \<and> denotes literal env v u))
      (filter (\<lambda>a. ts_kind a = ''keyword_argument'') (named_children l)) named
    \<Longrightarrow> denotes literal env node (RNode (LCall (length positional) (map fst named)) (t # positional @ map snd named))"
| compose: "ts_kind node = ''binary_operator'' \<Longrightarrow> child_by_field_name ''left'' node = Some a \<Longrightarrow>
    child_by_field_name ''right'' node = Some b \<Longrightarrow> Option.bind (child_by_field_name ''operator'' node) ts_text = Some operator \<Longrightarrow>
    composition_operator operator = Some kind \<Longrightarrow> denotes literal env a t \<Longrightarrow> denotes literal env b u
    \<Longrightarrow> denotes literal env node (RNode (LCompose kind) [t, u])"
| binary: "ts_kind node = ''binary_operator'' \<Longrightarrow> child_by_field_name ''left'' node = Some a \<Longrightarrow>
    child_by_field_name ''right'' node = Some b \<Longrightarrow> Option.bind (child_by_field_name ''operator'' node) ts_text = Some operator \<Longrightarrow>
    composition_operator operator = None \<Longrightarrow> arithmetic_operator operator = Some op \<Longrightarrow> denotes literal env a t \<Longrightarrow> denotes literal env b u
    \<Longrightarrow> denotes literal env node (RNode (LBinary op) [t, u])"
| unary: "ts_kind node = ''unary_operator'' \<Longrightarrow> child_by_field_name ''argument'' node = Some a \<Longrightarrow>
    Option.bind (child_by_field_name ''operator'' node) ts_text = Some operator \<Longrightarrow> sign_operator operator = Some op \<Longrightarrow>
    denotes literal env a t \<Longrightarrow> denotes literal env node (RNode (LUnary op) [t])"
| dictionary: "ts_kind node = ''dictionary'' \<Longrightarrow>
    list_all2 (\<lambda>pair (t, u). ts_kind pair = ''pair'' \<and> (\<exists>k. child_by_field_name ''key'' pair = Some k \<and> denotes literal env k t)
        \<and> (\<exists>v. child_by_field_name ''value'' pair = Some v \<and> denotes literal env v u)) (named_children node) entries
    \<Longrightarrow> denotes literal env node (RNode LDictionary (concat (map (\<lambda>(t, u). [t, u]) entries)))"
| list: "ts_kind node = ''list'' \<Longrightarrow> list_all2 (denotes literal env) (named_children node) items
    \<Longrightarrow> denotes literal env node (RNode LList items)"
| tuple: "ts_kind node = ''tuple'' \<Longrightarrow> list_all2 (denotes literal env) (named_children node) items
    \<Longrightarrow> denotes literal env node (RNode LTuple items)"
monos list_all2_mono

text \<open>The statements of a body bind local variables until the first \<open>return\<close>.\<close>

inductive returns :: "(ts_node \<Rightarrow> hir_literal option) \<Rightarrow> (string \<rightharpoonup> hir_tree) \<Rightarrow> ts_node list \<Rightarrow> hir_tree \<Rightarrow> bool"
  for literal :: "ts_node \<Rightarrow> hir_literal option" where
  bind: "ts_kind statement = ''expression_statement'' \<Longrightarrow> first_named_child statement = Some assignment \<Longrightarrow>
    ts_kind assignment = ''assignment'' \<Longrightarrow> child_by_field_name ''left'' assignment = Some left \<Longrightarrow> ts_kind left = ''identifier'' \<Longrightarrow>
    ts_text left = Some name \<Longrightarrow> child_by_field_name ''right'' assignment = Some right \<Longrightarrow> denotes literal env right t \<Longrightarrow>
    returns literal (env(name \<mapsto> t)) rest u \<Longrightarrow> returns literal env (statement # rest) u"
| skip: "ts_kind statement = ''expression_statement'' \<and> first_named_child statement = None \<or> ts_kind statement = ''comment'' \<Longrightarrow>
    returns literal env rest u \<Longrightarrow> returns literal env (statement # rest) u"
| yield: "ts_kind statement = ''return_statement'' \<Longrightarrow> first_named_child statement = Some node \<Longrightarrow> denotes literal env node u \<Longrightarrow>
    returns literal env (statement # rest) u"

definition literal_reading :: "(string \<Rightarrow> u64 option) \<Rightarrow> string \<Rightarrow> ts_node \<Rightarrow> hir_literal option" where
  "literal_reading parse_f64 file_name node =
     (case lower_literal parse_f64 file_name node of Some (Inr l) \<Rightarrow> Some l | _ \<Rightarrow> None)"

section \<open>Trees while expressions are added\<close>

lemma operands_descending: "operands_earlier es \<Longrightarrow> descending (expression_kids es)"
  by (auto simp: operands_earlier_def descending_def expression_kids_def)

lemma operands_earlier_prefix: "operands_earlier es' \<Longrightarrow> prefix es es' \<Longrightarrow> operands_earlier es"
  by (auto simp: operands_earlier_def prefix_def nth_append)

lemma expression_tree_stable:
  assumes "operands_earlier es'" "prefix es es'" "unat e < length es"
  shows "expression_tree es' e = expression_tree es e"
  unfolding expression_tree_def
proof (rule tree_at_stable)
  show "descending (expression_kids es)" "descending (expression_kids es')"
    using assms operands_earlier_prefix operands_descending by blast+
  obtain more where "es' = es @ more" using assms(2) by (auto simp: prefix_def)
  then show "expression_label es' j = expression_label es j" "expression_kids es' j = expression_kids es j" if "j \<le> unat e" for j
    using that assms(3) by (auto simp: expression_label_def expression_kids_def nth_append)
qed

lemma expression_tree_unfold:
  assumes "operands_earlier es" "unat e < length es"
  shows "expression_tree es e = RNode (label_of (he_kind (es ! unat e))) (map (expression_tree es) (hir_children (he_kind (es ! unat e))))"
  using tree_at_unfold [OF operands_descending [OF assms(1)], of "expression_label es" "unat e"] assms(2)
  by (simp add: expression_tree_def [abs_def] expression_label_def expression_kids_def comp_def)

abbreviation lw_tree :: "lowerer \<Rightarrow> expression_id \<Rightarrow> hir_tree" where
  "lw_tree self \<equiv> expression_tree (lw_expressions self)"

definition lw_env :: "lowerer \<Rightarrow> string \<rightharpoonup> hir_tree" where
  "lw_env self x = map_option (lw_tree self) (lw_locals self x)"

lemma lw_step_trees:
  assumes "lw_step self used self'" "lw_wf self" "lw_size self' < 2 ^ 32"
  shows "unat e < lw_size self \<Longrightarrow> lw_tree self' e = lw_tree self e" "lw_env self' = lw_env self"
proof -
  have wf: "lw_wf self'" and pre: "prefix (lw_expressions self) (lw_expressions self')" and loc: "lw_locals self' = lw_locals self"
    using assms by (auto simp: lw_step_def)
  then show tree: "unat e < lw_size self \<Longrightarrow> lw_tree self' e = lw_tree self e" for e
    using expression_tree_stable by (simp add: lw_wf_def)
  have "unat e < lw_size self" if "lw_locals self x = Some e" for x e using assms(2) that by (auto simp: lw_wf_def intro: ranI)
  then show "lw_env self' = lw_env self" using tree by (auto simp: lw_env_def loc fun_eq_iff map_option_case split: option.splits)
qed

lemma lw_append_tree:
  assumes "lw_append kind node self = (e, self')" "lw_wf self" "lw_size self' < 2 ^ 32"
    and "\<forall>c\<in>set (hir_children kind). unat c < lw_size self"
  shows "lw_tree self' e = RNode (label_of kind) (map (lw_tree self) (hir_children kind))"
proof -
  have step: "lw_step self {} self'" "lw_step self {e} self'"
    using assms(1,4) by (auto simp: lw_append_def lw_step_def lw_wf_def operands_earlier_snoc less_Suc_eq)
  have e: "unat e = lw_size self" "he_kind (lw_expressions self' ! unat e) = kind" using assms(1,3) by (auto simp: lw_append_def)
  have "operands_earlier (lw_expressions self')" "unat e < lw_size self'"
    using step(2) assms(2,3) by (auto simp: lw_step_def lw_wf_def)
  moreover have "map (lw_tree self') (hir_children kind) = map (lw_tree self) (hir_children kind)"
    using lw_step_trees(1) [OF step(1) assms(2,3)] assms(4) by simp
  ultimately show ?thesis using expression_tree_unfold [of "lw_expressions self'" e] e(2) by simp
qed

section \<open>The lowering reads what the syntax denotes\<close>

text \<open>What a node means to a lowerer.\<close>

abbreviation lw_meaning :: "(string \<Rightarrow> u64 option) \<Rightarrow> lowerer \<Rightarrow> ts_node \<Rightarrow> hir_tree \<Rightarrow> bool" where
  "lw_meaning parse_f64 self \<equiv> denotes (literal_reading parse_f64 (lw_file_name self)) (lw_env self)"

locale reading_lowering = sound_lowering below for below :: lowering +
  fixes parse_f64 :: "string \<Rightarrow> u64 option"
  assumes operand_reads: "below node self = Inr (e, self') \<Longrightarrow> lw_wf self \<Longrightarrow> lw_size self' < 2 ^ 32
    \<Longrightarrow> lw_meaning parse_f64 self node (lw_tree self' e)"
begin

text \<open>An operand that is lowered first keeps its tree through the steps that follow.\<close>

lemma read_operand:
  assumes "below node self = Inr (e, self1)" "lw_step self1 used self'" "lw_wf self" "lw_size self' < 2 ^ 32"
  shows "lw_meaning parse_f64 self node (lw_tree self' e)"
    "lw_wf self1" "lw_env self1 = lw_env self" "lw_file_name self1 = lw_file_name self" "lw_size self1 < 2 ^ 32"
proof -
  have step: "lw_step self {e} self1" using assms(1) by (rule operand_step)
  show small: "lw_size self1 < 2 ^ 32" using lw_step_size [OF assms(2)] assms(4) by simp
  show wf: "lw_wf self1" "lw_file_name self1 = lw_file_name self" using step small assms(3) by (auto simp: lw_step_def)
  show "lw_env self1 = lw_env self" by (rule lw_step_trees(2) [OF step assms(3) small])
  have "unat e < lw_size self1" using step small assms(3) by (auto simp: lw_step_def)
  then have "lw_tree self' e = lw_tree self1 e" by (rule lw_step_trees(1) [OF assms(2) wf(1) assms(4)])
  then show "lw_meaning parse_f64 self node (lw_tree self' e)"
    using operand_reads [OF assms(1,3) small] by simp
qed

lemma read_items:
  "lower_sequence_items below nodes self = Inr (items, self') \<Longrightarrow> lw_wf self \<Longrightarrow> lw_size self' < 2 ^ 32 \<Longrightarrow>
    list_all2 (lw_meaning parse_f64 self) nodes (map (lw_tree self') items)"
proof (induction nodes arbitrary: self items)
  case (Cons item rest)
  then obtain e self1 items' where one: "below item self = Inr (e, self1)"
    and more: "lower_sequence_items below rest self1 = Inr (items', self')" "items = e # items'" by (auto simp: res_simps)
  note operand = read_operand [OF one lower_items_step [OF more(1)] Cons.prems(2,3)]
  show ?case using operand Cons.IH [OF more(1) operand(2) Cons.prems(3)] by (simp add: more(2))
qed simp

lemma read_dictionary:
  defines "D \<equiv> \<lambda>self. lw_meaning parse_f64 self"
  shows "lower_dictionary below nodes self = Inr (entries, self') \<Longrightarrow> lw_wf self \<Longrightarrow> lw_size self' < 2 ^ 32 \<Longrightarrow>
    list_all2 (\<lambda>pair (t, u). ts_kind pair = ''pair'' \<and> (\<exists>k. child_by_field_name ''key'' pair = Some k \<and> D self k t)
        \<and> (\<exists>v. child_by_field_name ''value'' pair = Some v \<and> D self v u)) nodes (map (\<lambda>(k, v). (lw_tree self' k, lw_tree self' v)) entries)"
proof (induction nodes arbitrary: self entries)
  case (Cons pair rest)
  obtain kn vn k self1 v self2 entries' where pair: "ts_kind pair = ''pair''" "child_by_field_name ''key'' pair = Some kn"
      "child_by_field_name ''value'' pair = Some vn"
    and steps: "below kn self = Inr (k, self1)" "below vn self1 = Inr (v, self2)" "lower_dictionary below rest self2 = Inr (entries', self')"
    and entries: "entries = (k, v) # entries'"
    using Cons.prems(1) by (auto simp: res_simps required_def split: if_splits)
  note rest = lower_dictionary_step [OF steps(3)]
  note second = lw_step_trans [OF operand_step [OF steps(2)] rest]
  note key = read_operand [OF steps(1) second Cons.prems(2,3)]
  note "value" = read_operand [OF steps(2) rest key(2) Cons.prems(3)]
  have "D self2 = D self" by (simp add: D_def key "value")
  then show ?case using pair key(1) "value"(1) Cons.IH [OF steps(3) "value"(2) Cons.prems(3)] by (simp add: entries D_def key(3,4))
qed simp

lemma read_arguments:
  defines "D \<equiv> \<lambda>self. lw_meaning parse_f64 self"
  shows "lower_arguments below nodes self = Inr ((arguments, kws), self') \<Longrightarrow> lw_wf self \<Longrightarrow> lw_size self' < 2 ^ 32 \<Longrightarrow>
    list_all2 (D self) (filter (\<lambda>a. ts_kind a \<noteq> ''keyword_argument'') nodes) (map (lw_tree self') arguments)
    \<and> list_all2 (\<lambda>a (name, u). Option.bind (child_by_field_name ''name'' a) ts_text = Some name
        \<and> (\<exists>v. child_by_field_name ''value'' a = Some v \<and> D self v u))
      (filter (\<lambda>a. ts_kind a = ''keyword_argument'') nodes) (map (\<lambda>k. (kw_name k, lw_tree self' (kw_value k))) kws)"
proof (induction nodes arbitrary: self arguments kws)
  case (Cons argument rest)
  obtain node e self1 arguments' kws' where one: "below node self = Inr (e, self1)"
    and more: "lower_arguments below rest self1 = Inr ((arguments', kws'), self')"
    and cases: "if ts_kind argument = ''keyword_argument''
      then \<exists>name. Option.bind (child_by_field_name ''name'' argument) ts_text = Some name
        \<and> child_by_field_name ''value'' argument = Some node
        \<and> arguments = arguments' \<and> kws = \<lparr>kw_name = name, kw_value = e\<rparr> # kws'
      else node = argument \<and> arguments = e # arguments' \<and> kws = kws'"
    using Cons.prems(1) by (auto simp: res_simps required_def split: if_splits)
  note operand = read_operand [OF one lower_arguments_step [OF more] Cons.prems(2,3)]
  have "D self1 = D self" by (simp add: D_def operand)
  then show ?case using operand(1) cases Cons.IH [OF more operand(2) Cons.prems(3)] by (auto simp: D_def split: if_splits)
qed simp

lemma read_call:
  assumes "lower_call below node self = Inr (kind, self')" "lw_wf self" "lw_size self' < 2 ^ 32" "ts_kind node = ''call''"
  shows "lw_meaning parse_f64 self node
    (RNode (label_of kind) (map (lw_tree self') (hir_children kind)))"
proof -
  obtain f fe self1 where f: "child_by_field_name ''function'' node = Some f" "below f self = Inr (fe, self1)"
    using assms(1) by (auto simp: lower_call_def required_def res_simps)
  show ?thesis
  proof (cases "child_by_field_name ''arguments'' node")
    case None
    then have kind: "kind = HCall fe [] []" "self' = self1" using assms(1) f by (auto simp: lower_call_def required_def)
    have "lw_step self1 {} self'" by (simp add: kind(2))
    note operand = read_operand [OF f(2) this assms(2,3)]
    show ?thesis using denotes.call0 [OF assms(4) f(1) None operand(1)] by (simp add: kind)
  next
    case (Some l)
    then obtain arguments kws where more: "ts_kind l = ''argument_list''" "lower_arguments below (named_children l) self1 = Inr ((arguments, kws), self')"
        "kind = HCall fe arguments kws"
      using assms(1) f by (auto simp: lower_call_def required_def res_simps split: if_splits)
    note operand = read_operand [OF f(2) lower_arguments_step [OF more(2)] assms(2,3)]
    note arguments = read_arguments [OF more(2) operand(2) assms(3), unfolded operand(3,4)]
    show ?thesis using denotes.call [OF assms(4) f(1) Some more(1) operand(1) arguments [THEN conjunct1] arguments [THEN conjunct2]]
      by (simp add: more(3) comp_def)
  qed
qed

text \<open>Two operands, one after the other.\<close>

lemma read_two:
  assumes "below a self = Inr (x, self1)" "below b self1 = Inr (y, self')" "lw_wf self" "lw_size self' < 2 ^ 32"
  shows "lw_meaning parse_f64 self a (lw_tree self' x)"
    "lw_meaning parse_f64 self b (lw_tree self' y)"
proof -
  note first = read_operand [OF assms(1) operand_step [OF assms(2)] assms(3,4)]
  show "lw_meaning parse_f64 self a (lw_tree self' x)" by (rule first(1))
  show "lw_meaning parse_f64 self b (lw_tree self' y)"
    using read_operand(1) [OF assms(2) lw_step_refl first(2) assms(4)] by (simp add: first(3,4))
qed

lemma read_one:
  assumes "below a self = Inr (x, self')" "lw_wf self" "lw_size self' < 2 ^ 32"
  shows "lw_meaning parse_f64 self a (lw_tree self' x)"
  using read_operand(1) [OF assms(1) lw_step_refl assms(2,3)] .

lemma read_operators:
  assumes "lw_wf self" "lw_size self' < 2 ^ 32"
  defines "D \<equiv> lw_meaning parse_f64 self"
    and "T \<equiv> \<lambda>kind. RNode (label_of kind) (map (lw_tree self') (hir_children kind))"
  shows "lower_binary below node self = Inr (kind, self') \<Longrightarrow> ts_kind node = ''binary_operator'' \<Longrightarrow> D node (T kind)"
    and "lower_unary below node self = Inr (kind, self') \<Longrightarrow> ts_kind node = ''unary_operator'' \<Longrightarrow> D node (T kind)"
    and "lower_attribute below node self = Inr (kind, self') \<Longrightarrow> ts_kind node = ''attribute'' \<Longrightarrow> D node (T kind)"
    and "lower_subscript below node self = Inr (kind, self') \<Longrightarrow> ts_kind node = ''subscript'' \<Longrightarrow> D node (T kind)"
proof -
  note two = read_two [OF _ _ assms(1,2), folded D_def] and one = read_one [OF _ assms(1,2), folded D_def]
  show "D node (T kind)" if "lower_binary below node self = Inr (kind, self')" "ts_kind node = ''binary_operator''"
    using that two unfolding lower_binary_def required_def
    by (fastforce simp: res_simps T_def D_def split: option.splits intro: denotes.compose denotes.binary)
  show "D node (T kind)" if "lower_unary below node self = Inr (kind, self')" "ts_kind node = ''unary_operator''"
    using that one unfolding lower_unary_def required_def by (fastforce simp: res_simps T_def D_def intro: denotes.unary)
  show "D node (T kind)" if "lower_attribute below node self = Inr (kind, self')" "ts_kind node = ''attribute''"
    using that one unfolding lower_attribute_def required_def by (fastforce simp: res_simps T_def D_def intro: denotes.attribute)
  show "D node (T kind)" if "lower_subscript below node self = Inr (kind, self')" "ts_kind node = ''subscript''"
    using that two unfolding lower_subscript_def required_def by (fastforce simp: res_simps T_def D_def intro: denotes.subscript)
qed

lemma read_compound:
  assumes "lower_compound below node self = Inr (kind, self')" "lw_wf self" "lw_size self' < 2 ^ 32"
  shows "lw_meaning parse_f64 self node
    (RNode (label_of kind) (map (lw_tree self') (hir_children kind)))"
proof -
  consider (operator) "ts_kind node = ''binary_operator''" "lower_binary below node self = Inr (kind, self')"
    | (sign) "ts_kind node = ''unary_operator''" "lower_unary below node self = Inr (kind, self')"
    | (attribute) "ts_kind node = ''attribute''" "lower_attribute below node self = Inr (kind, self')"
    | (subscript) "ts_kind node = ''subscript''" "lower_subscript below node self = Inr (kind, self')"
    | (call) "ts_kind node = ''call''" "lower_call below node self = Inr (kind, self')"
    | (dictionary) entries where "ts_kind node = ''dictionary''" "kind = HDictionary entries"
        "lower_dictionary below (named_children node) self = Inr (entries, self')"
    | (items) items where "ts_kind node = ''list'' \<and> kind = HList items \<or> ts_kind node = ''tuple'' \<and> kind = HTuple items"
        "lower_sequence_items below (named_children node) self = Inr (items, self')"
    using assms(1) by (auto simp: lower_compound_def res_simps split: if_splits)
  then show ?thesis
  proof cases
    case call
    then show ?thesis by (intro read_call [OF _ assms(2,3)])
  next
    case dictionary
    have "map (lw_tree self') (hir_children kind) = concat (map (\<lambda>(t, u). [t, u]) (map (\<lambda>(k, v). (lw_tree self' k, lw_tree self' v)) entries))"
      by (simp add: dictionary(2) map_concat comp_def case_prod_beta)
    then show ?thesis
      using denotes.dictionary [OF dictionary(1) read_dictionary [OF dictionary(3) assms(2,3)]] by (simp add: dictionary(2))
  next
    case items
    then show ?thesis using denotes.list denotes.tuple read_items [OF items(2) assms(2,3)] by auto
  qed (use read_operators [OF assms(2,3)] in simp_all)
qed

end

lemma lower_at_cases:
  assumes "lower_at parse_f64 (Suc levels) node self = Inr (e, self')"
  obtains (local) x where "ts_kind node = ''identifier''" "ts_text node = Some x" "lw_locals self x = Some e" "self' = self"
    | (global) x where "ts_kind node = ''identifier''" "ts_text node = Some x" "lw_locals self x = None"
        "lw_append (HSymbol x) node self = (e, self')"
    | (parens) child where "ts_kind node = ''parenthesized_expression''" "first_named_child node = Some child"
        "lower_at parse_f64 levels child self = Inr (e, self')"
    | (literal) l where "lower_literal parse_f64 (lw_file_name self) node = Some (Inr l)" "lw_append (HLiteral l) node self = (e, self')"
    | (compound) kind self1 where "lower_compound (lower_at parse_f64 levels) node self = Inr (kind, self1)"
        "lw_append kind node self1 = (e, self')"
proof -
  consider (id) "ts_kind node = ''identifier''" | (pa) "ts_kind node = ''parenthesized_expression''"
    | (li) l where "ts_kind node \<noteq> ''identifier''" "ts_kind node \<noteq> ''parenthesized_expression''"
        "lower_literal parse_f64 (lw_file_name self) node = Some l"
    | (co) "ts_kind node \<noteq> ''identifier''" "ts_kind node \<noteq> ''parenthesized_expression''"
        "lower_literal parse_f64 (lw_file_name self) node = None" by blast
  then show thesis
  proof cases
    case id
    then obtain x where x: "ts_text node = Some x" using assms by (auto simp: required_def res_simps)
    show thesis
    proof (cases "lw_locals self x")
      case None
      then have "lw_append (HSymbol x) node self = (e, self')" using assms id x by (simp add: required_def)
      then show thesis by (rule global [OF id x None])
    next
      case (Some v)
      then have "lw_locals self x = Some e" "self' = self" using assms id x by (simp_all add: required_def)
      then show thesis by (rule local [OF id x])
    qed
  next
    case pa
    then obtain child where child: "first_named_child node = Some child" using assms by (auto simp: required_def res_simps)
    then have "lower_at parse_f64 levels child self = Inr (e, self')" using assms pa by (simp add: required_def)
    then show thesis by (rule parens [OF pa child])
  next
    case li
    then obtain v where "l = Inr v" "lw_append (HLiteral v) node self = (e, self')" using assms by (cases l) auto
    then show thesis using literal li(3) by blast
  next
    case co
    then obtain kind self1 where "lower_compound (lower_at parse_f64 levels) node self = Inr (kind, self1)"
        "lw_append kind node self1 = (e, self')"
      using assms by (auto simp: res_simps)
    then show thesis by (rule compound)
  qed
qed

lemma lower_at_reads: "reading_lowering (lower_at parse_f64 levels) parse_f64"
proof (induction levels)
  case 0
  then show ?case by unfold_locales simp_all
next
  case (Suc levels)
  have means: "lw_meaning parse_f64 self node (lw_tree self' e)"
    if run: "lower_at parse_f64 (Suc levels) node self = Inr (e, self')" and wf: "lw_wf self" and small: "lw_size self' < 2 ^ 32"
    for node self e self'
  proof -
    from run show ?thesis
    proof (cases rule: lower_at_cases)
      case (local x)
      then show ?thesis by (intro denotes.local) (auto simp: lw_env_def)
    next
      case (global x)
      then show ?thesis using lw_append_tree [OF global(4) wf small] denotes.global by (simp add: lw_env_def)
    next
      case (parens child)
      show ?thesis by (rule denotes.parens [OF parens(1,2) reading_lowering.operand_reads [OF Suc.IH parens(3) wf small]])
    next
      case (literal l)
      then show ?thesis using lw_append_tree [OF literal(2) wf small] denotes.literal by (simp add: literal_reading_def)
    next
      case (compound kind self1)
      have step: "lw_step self (set (hir_children kind)) self1" by (rule lowering.lower_compound_step [OF compound(1)])
      have small1: "lw_size self1 < 2 ^ 32" using compound(2) small by (auto simp: lw_append_def)
      have "lw_wf self1" "\<forall>c\<in>set (hir_children kind). unat c < lw_size self1" using step wf small1 by (auto simp: lw_step_def)
      then show ?thesis
        using lw_append_tree [OF compound(2) _ small] reading_lowering.read_compound [OF Suc.IH compound(1) wf small1] by simp
    qed
  qed
  show ?case by (rule reading_lowering.intro [OF lower_at_ok reading_lowering_axioms.intro]) (rule means)
qed

interpretation reading: reading_lowering "lower_at parse_f64 levels" parse_f64 for parse_f64 levels
  by (rule lower_at_reads)

section \<open>Bodies\<close>

lemma bind_local_env:
  assumes "lw_step self {e} self1" "lw_wf self" "lw_size self1 < 2 ^ 32"
  shows "lw_env (self1\<lparr>lw_locals := (lw_locals self1)(name \<mapsto> e)\<rparr>) = (lw_env self)(name \<mapsto> lw_tree self1 e)"
  using lw_step_trees(2) [OF assms] by (auto simp: lw_env_def fun_eq_iff)

lemma lower_statements_reads:
  "lower_statements parse_f64 nodes self = Inr (Some e, self') \<Longrightarrow> lw_wf self \<Longrightarrow> lw_size self' < 2 ^ 32 \<Longrightarrow>
     returns (literal_reading parse_f64 (lw_file_name self)) (lw_env self) nodes (lw_tree self' e)"
proof (induction nodes arbitrary: self)
  case (Cons statement rest)
  consider (skip) "ts_kind statement = ''expression_statement'' \<and> first_named_child statement = None \<or> ts_kind statement = ''comment''"
        "lower_statements parse_f64 rest self = Inr (Some e, self')"
    | (bind) inner self1 where "ts_kind statement = ''expression_statement''" "first_named_child statement = Some inner"
        "ts_kind inner = ''assignment''" "lower_assignment parse_f64 inner self = Inr self1"
        "lower_statements parse_f64 rest self1 = Inr (Some e, self')"
    | (yield) node where "ts_kind statement = ''return_statement''" "first_named_child statement = Some node"
        "lower_expression parse_f64 0 node self = Inr (e, self')"
    using Cons.prems(1) by (auto simp: res_simps required_def split: if_splits option.splits)
  then show ?case
  proof cases
    case skip
    then show ?thesis using Cons.IH [OF skip(2) Cons.prems(2,3)] by (intro returns.skip)
  next
    case bind
    obtain left name right v self2 where parts: "child_by_field_name ''left'' inner = Some left" "ts_kind left = ''identifier''"
        "ts_text left = Some name" "child_by_field_name ''right'' inner = Some right" "lower_expression parse_f64 0 right self = Inr (v, self2)"
        "self1 = self2\<lparr>lw_locals := (lw_locals self2)(name \<mapsto> v)\<rparr>"
      using bind(4) by (auto simp: lower_assignment_def required_def res_simps split: if_splits)
    have "lw_grows self1 self'" using lower_statements_grows [OF bind(5)] by simp
    then have small1: "lw_size self1 < 2 ^ 32" using Cons.prems(3) by (auto simp: lw_grows_def dest: prefix_length_le)
    then have small2: "lw_size self2 < 2 ^ 32" by (simp add: parts(6))
    have wf1: "lw_wf self1" using lower_assignment_grows [OF bind(4)] Cons.prems(2) small1 by (simp add: lw_grows_def)
    note step = lower_expression_step [OF parts(5)]
    have env: "lw_env self1 = (lw_env self)(name \<mapsto> lw_tree self2 v)" "lw_file_name self1 = lw_file_name self"
      using bind_local_env [OF step Cons.prems(2) small2] step by (simp_all add: parts(6) lw_step_def)
    have "lw_meaning parse_f64 self right (lw_tree self2 v)"
      using reading.operand_reads [OF parts(5) [unfolded lower_expression_def] Cons.prems(2) small2] .
    from returns.bind [OF bind(1-3) parts(1-4) this] Cons.IH [OF bind(5) wf1 Cons.prems(3), unfolded env] show ?thesis by blast
  next
    case yield
    have "lw_meaning parse_f64 self node (lw_tree self' e)"
      using reading.operand_reads [OF yield(3) [unfolded lower_expression_def] Cons.prems(2,3)] .
    from returns.yield [OF yield(1,2) this] show ?thesis .
  qed
qed simp

text \<open>
  C7. A function that is lowered has the tree that its body returns, with the local variables replaced by what they were
  bound to, and its expressions are in the order of their construction.
\<close>

theorem lower_entry_reads:
  assumes "lower_entry parse_f64 file_name entry tree = Inr hir" "length (hir_expressions hir) < 2 ^ 32"
  shows "\<exists>function_node body. find_function (entry_byte_range entry) [tree] = Some function_node
    \<and> child_by_field_name ''body'' function_node = Some body
    \<and> returns (literal_reading parse_f64 file_name) Map.empty (named_children body) (expression_tree (hir_expressions hir) (hir_root hir))
    \<and> hir_wf hir"
proof -
  let ?start = "\<lparr>lw_file_name = file_name, lw_expressions = [], lw_locals = Map.empty\<rparr>"
  have start: "lw_wf ?start" "lw_env ?start = Map.empty" by (auto simp: lw_wf_def operands_earlier_def lw_env_def)
  obtain function_node body lw where found: "find_function (entry_byte_range entry) [tree] = Some function_node"
      "child_by_field_name ''body'' function_node = Some body"
    and lower: "lower_statements parse_f64 (named_children body) ?start = Inr (Some (hir_root hir), lw)" "hir_expressions hir = lw_expressions lw"
    using assms(1) by (auto simp: lower_entry_def lower_body_def res_simps Let_def split_beta simp del: find_function.simps)
  from lower_statements_reads [OF lower(1) start(1)] have "returns (literal_reading parse_f64 file_name) Map.empty (named_children body)
      (expression_tree (hir_expressions hir) (hir_root hir))" using assms(2) start(2) lower(2) by simp
  then show ?thesis using found lower_entry_wf [OF assms] by blast
qed

theorem lower_entry_reads_witness:
  "lower_entry (\<lambda>_. None) ''a.py'' \<lparr>entry_qualified_name = ''f'', entry_source = [], entry_byte_range = (0, 0)\<rparr> example_tree
      = Inr example_hir
    \<and> (\<exists>body. returns (literal_reading (\<lambda>_. None) ''a.py'') Map.empty (named_children body)
        (RNode (LCall 1 []) [RNode (LSymbol ''g'') [], RNode LSubscript [RNode (LSymbol ''p'') [], RNode (LSymbol ''k'') []]]))"
proof -
  let ?entry = "\<lparr>entry_qualified_name = ''f'', entry_source = [], entry_byte_range = (0, 0)\<rparr> :: sequence_entry"
  have lower: "lower_entry (\<lambda>_. None) ''a.py'' ?entry example_tree = Inr example_hir"
    using example_lowers [of "\<lambda>_. None"] by (simp add: lower_sequence_def sequence_entry_named_def example_module_def)
  have "expression_tree (hir_expressions example_hir) (hir_root example_hir)
      = RNode (LCall 1 []) [RNode (LSymbol ''g'') [], RNode LSubscript [RNode (LSymbol ''p'') [], RNode (LSymbol ''k'') []]]"
    by code_simp
  then show ?thesis using lower_entry_reads [OF lower example_wf(2)] lower by auto
qed

end
