(* ===== verification/Scan_Topology.thy ===== *)
theory Scan_Topology
  imports Source_Module
begin

text \<open>
  \<open>catseq-frontend/src/validate.rs\<close>: a scan value may not select what is called or which channels a dictionary
  names.  \<open>None\<close> is the panic of an index.
\<close>

datatype topology_context = CallTarget | ChannelDictionaryKey

record validation_error =
  ve_file_name :: string
  ve_span :: source_span
  ve_context :: topology_context

definition is_tainted :: "bool list \<Rightarrow> expression_id \<Rightarrow> bool option" where
  "is_tainted tainted expression = nth_opt tainted (unat expression)"

text \<open>\<open>any\<close> stops at the first tainted expression.\<close>

fun any_tainted :: "bool list \<Rightarrow> expression_id list \<Rightarrow> bool option" where
  "any_tainted tainted [] = Some False"
| "any_tainted tainted (e # es) =
     (case is_tainted tainted e of
        None \<Rightarrow> None
      | Some t \<Rightarrow> if t then Some True else any_tainted tainted es)"

fun taint_slots :: "scan_slot_use list \<Rightarrow> bool list \<Rightarrow> bool list option" where
  "taint_slots [] tainted = Some tainted"
| "taint_slots (slot # slots) tainted =
     (if length tainted \<le> unat (ssu_expression slot) then None
      else taint_slots slots (tainted[unat (ssu_expression slot) := True]))"

fun propagate_taint :: "(nat \<times> hir_expression) list \<Rightarrow> bool list \<Rightarrow> bool list option" where
  "propagate_taint [] tainted = Some tainted"
| "propagate_taint ((index, expression) # rest) tainted =
     (if tainted ! index then propagate_taint rest tainted
      else Option.bind (any_tainted tainted (hir_children (he_kind expression))) (\<lambda>t.
        propagate_taint rest (tainted[index := t])))"

definition topology_use :: "bool list \<Rightarrow> hir_kind \<Rightarrow> topology_context option option" where
  "topology_use tainted kind =
     (case kind of
        HCall function _ _ \<Rightarrow> map_option (\<lambda>t. if t then Some CallTarget else None) (is_tainted tainted function)
      | HDictionary entries \<Rightarrow>
          map_option (\<lambda>t. if t then Some ChannelDictionaryKey else None) (any_tainted tainted (map fst entries))
      | _ \<Rightarrow> Some None)"

fun check_topology ::
  "string \<Rightarrow> bool list \<Rightarrow> bool list \<Rightarrow> (nat \<times> hir_expression) list \<Rightarrow> (validation_error + unit) option" where
  "check_topology file_name tainted reachable [] = Some (Inr ())"
| "check_topology file_name tainted reachable ((index, expression) # rest) =
     (if \<not> reachable ! index then check_topology file_name tainted reachable rest
      else Option.bind (topology_use tainted (he_kind expression)) (\<lambda>context.
        case context of
          Some c \<Rightarrow> Some (Inl \<lparr>ve_file_name = file_name, ve_span = he_span expression, ve_context = c\<rparr>)
        | None \<Rightarrow> check_topology file_name tainted reachable rest))"

definition validate_scan_topology ::
  "string \<Rightarrow> sequence_hir \<Rightarrow> scan_slot_use list \<Rightarrow> (validation_error + unit) option" where
  "validate_scan_topology file_name hir slot_uses =
     (let indexed = enumerate 0 (hir_expressions hir) in
      Option.bind (taint_slots slot_uses (replicate (length (hir_expressions hir)) False)) (\<lambda>slots.
      Option.bind (propagate_taint indexed slots) (\<lambda>tainted.
      Option.bind (reachable_mask hir) (\<lambda>reachable.
        check_topology file_name tainted reachable indexed))))"

text \<open>\<open>SourceModule::validate_sequence_hir\<close>.\<close>

definition validate_sequence_hir :: "source_module \<Rightarrow> sequence_hir \<Rightarrow> (validation_error + unit) option" where
  "validate_sequence_hir self hir =
     Option.bind (module_scan_slots self hir) (\<lambda>slots. validate_scan_topology (sm_file_name self) hir slots)"

end
