(* ===== verification/Arena_Lowering.thy ===== *)
theory Arena_Lowering
  imports Sequence_Hir Segment_Store
begin

text \<open>
  \<open>catseq-frontend/src/arena_lowering.rs\<close>: the morphism structure of a sequence as nodes of a segment of the store.
  The store's owner is the HIR.  The outer \<open>None\<close> is a panic, or a loop that has no end.
\<close>

type_synonym hir_store = "sequence_hir arena_store"

record source_arena_program =
  sap_hir :: sequence_hir
  sap_frozen :: "sequence_hir frozen_program"
  sap_segment :: segment_id

definition sap_root :: "source_arena_program \<Rightarrow> node_ref" where
  "sap_root self = fp_root (sap_frozen self)"

datatype arena_lowering_error = NonMorphism string source_span | ArenaFailed arena_error

fun hir_kind_name :: "hir_kind \<Rightarrow> string" where
  "hir_kind_name (HSymbol _) = ''symbol''"
| "hir_kind_name (HLiteral _) = ''literal''"
| "hir_kind_name (HAttribute _ _) = ''attribute''"
| "hir_kind_name (HSubscript _ _) = ''subscript''"
| "hir_kind_name (HCall _ _ _) = ''call''"
| "hir_kind_name (HCompose _ _ _) = ''composition''"
| "hir_kind_name (HBinary _ _ _) = ''binary expression''"
| "hir_kind_name (HUnary _ _) = ''unary expression''"
| "hir_kind_name (HDictionary _) = ''dictionary''"
| "hir_kind_name (HList _) = ''list''"
| "hir_kind_name (HTuple _) = ''tuple''"

fun arena_composition_kind :: "composition_kind \<Rightarrow> node_kind" where
  "arena_composition_kind AutoSerial = NKAutoSerial"
| "arena_composition_kind StrictSerial = NKStrictSerial"
| "arena_composition_kind ParallelComposition = NKParallel"

text \<open>The entries of the dictionary that an automatic composition applies, when its right side is one.\<close>

definition applied_dictionary ::
  "sequence_hir \<Rightarrow> composition_kind \<Rightarrow> expression_id \<Rightarrow> (expression_id \<times> expression_id) list option option" where
  "applied_dictionary hir kind right =
     map_option (\<lambda>k. case k of HDictionary entries \<Rightarrow> if kind = AutoSerial then Some entries else None | _ \<Rightarrow> None)
       (kind_at hir right)"

text \<open>
  In \<open>validate_morphism_graph\<close> the right side is looked at only when the composition is automatic; an index out of
  bounds is a panic in both readings when the side is visited.
\<close>

definition morphism_successors :: "sequence_hir \<Rightarrow> hir_kind \<Rightarrow> expression_id list option option" where
  "morphism_successors hir kind =
     (case kind of
        HCall _ _ _ \<Rightarrow> Some (Some [])
      | HCompose k left right \<Rightarrow>
          (if k = AutoSerial
           then map_option (\<lambda>r. case r of HDictionary _ \<Rightarrow> Some [left] | _ \<Rightarrow> Some [left, right]) (kind_at hir right)
           else Some (Some [left, right]))
      | _ \<Rightarrow> Some None)"

function validate_graph_loop ::
  "sequence_hir \<Rightarrow> bool list \<Rightarrow> expression_id list \<Rightarrow> (arena_lowering_error + unit) option" where
  "validate_graph_loop hir seen [] = Some (Inr ())"
| "validate_graph_loop hir seen (expression # stack) =
     (if length seen \<le> unat expression then None
      else if seen ! unat expression then validate_graph_loop hir seen stack
      else case nth_opt (hir_expressions hir) (unat expression) of
          None \<Rightarrow> None
        | Some e \<Rightarrow>
            (case morphism_successors hir (he_kind e) of
               None \<Rightarrow> None
             | Some None \<Rightarrow> Some (Inl (NonMorphism (hir_kind_name (he_kind e)) (he_span e)))
             | Some (Some pushed) \<Rightarrow>
                 validate_graph_loop hir (seen[unat expression := True]) (rev pushed @ stack)))"
  by pat_completeness auto
termination
  by (relation "measures [\<lambda>(_, seen, _). count_list seen False, \<lambda>(_, _, stack). length stack]")
    (auto simp: count_False_update)

definition validate_morphism_graph :: "sequence_hir \<Rightarrow> (arena_lowering_error + unit) option" where
  "validate_morphism_graph hir =
     validate_graph_loop hir (replicate (length (hir_expressions hir)) False) [hir_root hir]"

datatype work =
    Enter expression_id
  | Alias expression_id expression_id
  | ComposeWork expression_id composition_kind expression_id expression_id
  | DeferredApplyWork expression_id expression_id expression_id

type_synonym lowered_nodes = "expression_id \<rightharpoonup> node_ref"

text \<open>One item of the loop: the items it pushes, the top first, the nodes by expression and the store.\<close>

definition enter_expression ::
  "sequence_hir \<Rightarrow> segment_id \<Rightarrow> expression_id \<Rightarrow> lowered_nodes \<Rightarrow> hir_store
     \<Rightarrow> (arena_lowering_error + work list \<times> lowered_nodes \<times> hir_store) option" where
  "enter_expression hir segment expression lowered store =
     (if lowered expression \<noteq> None then Some (Inr ([], lowered, store))
      else Option.bind (kind_at hir expression) (\<lambda>kind.
        case kind of
          HCall _ _ _ \<Rightarrow>
            Some (res_bind (res_map_err ArenaFailed (source_call segment expression store)) (\<lambda>(node, store1).
              Inr ([], lowered(expression \<mapsto> node), store1)))
        | HCompose k left right \<Rightarrow>
            map_option (\<lambda>dictionary. Inr (
              case dictionary of
                Some [] \<Rightarrow> [Enter left, Alias expression left]
              | Some (_ # _) \<Rightarrow> [Enter left, DeferredApplyWork expression left right]
              | None \<Rightarrow> [Enter left, Enter right, ComposeWork expression k left right], lowered, store))
              (applied_dictionary hir k right)
        | _ \<Rightarrow> None))"

definition lower_work ::
  "sequence_hir \<Rightarrow> segment_id \<Rightarrow> work \<Rightarrow> lowered_nodes \<Rightarrow> hir_store
     \<Rightarrow> (arena_lowering_error + work list \<times> lowered_nodes \<times> hir_store) option" where
  "lower_work hir segment item lowered store =
     (case item of
        Enter expression \<Rightarrow> enter_expression hir segment expression lowered store
      | Alias expression target \<Rightarrow>
          map_option (\<lambda>node. Inr ([], lowered(expression \<mapsto> node), store)) (lowered target)
      | ComposeWork expression kind left right \<Rightarrow> do {
          l \<leftarrow> lowered left;
          r \<leftarrow> lowered right;
          Some (res_bind (res_map_err ArenaFailed
              (as_compose segment (arena_composition_kind kind) l r expression store)) (\<lambda>(node, store1).
            Inr ([], lowered(expression \<mapsto> node), store1))) }
      | DeferredApplyWork expression left dictionary \<Rightarrow> do {
          l \<leftarrow> lowered left;
          Some (res_bind (res_map_err ArenaFailed (node_channel_mask l store)) (\<lambda>channels.
            res_bind (res_map_err ArenaFailed
              (append_raw segment NKDeferredApply (Some l) None dictionary channels expression store)) (\<lambda>(node, store1).
            Inr ([], lowered(expression \<mapsto> node), store1)))) })"

text \<open>An operation of the store that fails leaves the store as it was.\<close>

partial_function (option) lower_work_loop ::
  "sequence_hir \<Rightarrow> segment_id \<Rightarrow> work list \<Rightarrow> lowered_nodes \<Rightarrow> hir_store
     \<Rightarrow> ((arena_lowering_error + lowered_nodes) \<times> hir_store) option" where
  "lower_work_loop hir segment items lowered store =
     (case items of
        [] \<Rightarrow> Some (Inr lowered, store)
      | item # rest \<Rightarrow>
          Option.bind (lower_work hir segment item lowered store) (\<lambda>result.
            case result of
              Inl e \<Rightarrow> Some (Inl e, store)
            | Inr (pushed, lowered1, store1) \<Rightarrow> lower_work_loop hir segment (pushed @ rest) lowered1 store1))"

definition lower_sequence_hir ::
  "sequence_hir \<Rightarrow> segment_id \<Rightarrow> hir_store \<Rightarrow> ((arena_lowering_error + source_arena_program) \<times> hir_store) option" where
  "lower_sequence_hir hir segment store =
     Option.bind (validate_morphism_graph hir) (\<lambda>valid.
       case valid of
         Inl e \<Rightarrow> Some (Inl e, store)
       | Inr _ \<Rightarrow>
           Option.bind (lower_work_loop hir segment [Enter (hir_root hir)] Map.empty store) (\<lambda>(result, store1).
             case result of
               Inl e \<Rightarrow> Some (Inl e, store1)
             | Inr lowered \<Rightarrow>
                 map_option (\<lambda>top.
                   (res_bind (res_map_err ArenaFailed (freeze_with_owner top hir store1)) (\<lambda>frozen.
                     Inr \<lparr>sap_hir = hir, sap_frozen = frozen, sap_segment = segment\<rparr>), store1))
                   (lowered (hir_root hir))))"

text \<open>\<open>rebind_hir\<close> on the shared store; a root that is not in the store is the panic of \<open>expect\<close>.  Its debug
  assertion is the condition under which the session calls it.\<close>

definition rebind_hir :: "hir_store \<Rightarrow> sequence_hir \<Rightarrow> source_arena_program \<Rightarrow> source_arena_program option" where
  "rebind_hir store hir self =
     (case freeze_with_owner (sap_root self) hir store of
        Inl _ \<Rightarrow> None
      | Inr frozen \<Rightarrow> Some \<lparr>sap_hir = hir, sap_frozen = frozen, sap_segment = sap_segment self\<rparr>)"

end
