(* ===== verification/Source_Session.thy ===== *)
theory Source_Session
  imports Scan_Topology Arena_Lowering
begin

text \<open>
  \<open>catseq-frontend/src/session.rs\<close>: a session that owns the shared store and reuses what it compiled before.  The
  operations return the session also with an error, since the store keeps what was written to it.  The outer \<open>None\<close>
  is a panic or a loop that has no end.
\<close>

datatype cache_status = Compiled | SourceReused | HirReused

record resolution_snapshot =
  rs_scan_slots :: "scan_slot_use list"
  rs_resolved_paths :: "resolved_path list"
  rs_call_targets :: "resolved_path list"

record compiled_source_sequence =
  css_entry :: string
  css_program :: source_arena_program
  css_template :: template_id
  css_resolution :: resolution_snapshot

record source_compile_outcome =
  sco_status :: cache_status
  sco_artifact :: compiled_source_sequence

type_synonym definition_cache_key = "string \<times> string"

record cached_sequence =
  cs_source :: string
  cs_artifact :: compiled_source_sequence

record cached_module =
  cm_source :: string
  cm_module :: source_module

record source_session =
  ss_arena :: hir_store
  ss_modules :: "string \<rightharpoonup> cached_module"
  ss_cache :: "definition_cache_key \<rightharpoonup> cached_sequence"

datatype source_compile_error =
    ParseError frontend_error
  | HirError lowering_error
  | ValidationFailed validation_error
  | ArenaLoweringFailed arena_lowering_error
  | ArenaError arena_error

definition session_new :: "u64 \<Rightarrow> source_session \<times> u64" where
  "session_new next_id = (let (store, next_id') = store_new next_id
     in (\<lparr>ss_arena = store, ss_modules = Map.empty, ss_cache = Map.empty\<rparr>, next_id'))"

definition cached_artifact_count :: "source_session \<Rightarrow> nat" where
  "cached_artifact_count self = card (dom (ss_cache self))"

definition reuse_exact_source :: "string \<Rightarrow> string \<Rightarrow> string \<Rightarrow> source_session \<Rightarrow> source_compile_outcome option" where
  "reuse_exact_source file_name source entry self =
     Option.bind (ss_cache self (file_name, entry)) (\<lambda>cached.
       if cs_source cached = source then Some \<lparr>sco_status = SourceReused, sco_artifact = cs_artifact cached\<rparr> else None)"

definition cached_source_module :: "string \<Rightarrow> string \<Rightarrow> source_session \<Rightarrow> source_module option" where
  "cached_source_module file_name source self =
     Option.bind (ss_modules self file_name) (\<lambda>cached.
       if cm_source cached = source then Some (cm_module cached) else None)"

definition session_source_module ::
  "parser \<Rightarrow> string \<Rightarrow> string \<Rightarrow> source_session \<Rightarrow> ((frontend_error + source_module) \<times> source_session) option" where
  "session_source_module parse file_name source self =
     (case cached_source_module file_name source self of
        Some cached \<Rightarrow> Some (Inr cached, self)
      | None \<Rightarrow>
          map_option (\<lambda>parsed.
            case parsed of
              Inl e \<Rightarrow> (Inl e, self)
            | Inr source_mod \<Rightarrow>
                (Inr source_mod, self\<lparr>ss_modules := (ss_modules self)(file_name \<mapsto> \<lparr>cm_source = source, cm_module = source_mod\<rparr>)\<rparr>))
            (module_parse parse file_name source))"

definition resolution_of :: "source_module \<Rightarrow> sequence_hir \<Rightarrow> resolution_snapshot option" where
  "resolution_of source_mod hir = do {
     slot_uses \<leftarrow> module_scan_slots source_mod hir;
     paths \<leftarrow> resolved_paths source_mod hir;
     targets \<leftarrow> resolved_call_targets source_mod hir;
     Some \<lparr>rs_scan_slots = slot_uses, rs_resolved_paths = paths, rs_call_targets = targets\<rparr> }"

definition hir_matches :: "sequence_hir \<Rightarrow> resolution_snapshot \<Rightarrow> compiled_source_sequence \<Rightarrow> bool" where
  "hir_matches hir resolution artifact \<longleftrightarrow>
     structurally_eq_ignoring_spans (sap_hir (css_program artifact)) hir \<and> css_resolution artifact = resolution"

text \<open>The end of both ways to an artifact: the template is published and the artifact put into the cache.\<close>

definition publish_artifact ::
  "cache_status \<Rightarrow> string \<Rightarrow> string \<Rightarrow> string \<Rightarrow> resolution_snapshot \<Rightarrow> source_arena_program \<Rightarrow> source_session
     \<Rightarrow> (source_compile_error + source_compile_outcome) \<times> source_session" where
  "publish_artifact status file_name source entry resolution program self =
     (case publish_template_with_owner (sap_root program) 0 (sap_hir program) (ss_arena self) of
        Inl e \<Rightarrow> (Inl (ArenaError e), self)
      | Inr (template, arena) \<Rightarrow>
          (let artifact = \<lparr>css_entry = entry, css_program = program, css_template = template, css_resolution = resolution\<rparr>
           in (Inr \<lparr>sco_status = status, sco_artifact = artifact\<rparr>,
               self\<lparr>ss_arena := arena,
                 ss_cache := (ss_cache self)((file_name, entry) \<mapsto> \<lparr>cs_source = source, cs_artifact = artifact\<rparr>)\<rparr>)))"

definition compile_fresh_hir ::
  "string \<Rightarrow> string \<Rightarrow> string \<Rightarrow> sequence_hir \<Rightarrow> resolution_snapshot \<Rightarrow> source_session
     \<Rightarrow> ((source_compile_error + source_compile_outcome) \<times> source_session) option" where
  "compile_fresh_hir file_name source entry hir resolution self =
     (let (segment, arena) = create_segment TemplateSegment (ss_arena self)
      in map_option (\<lambda>(lowered, arena1).
           case lowered of
             Inl e \<Rightarrow> (Inl (ArenaLoweringFailed e), self\<lparr>ss_arena := arena1\<rparr>)
           | Inr program \<Rightarrow> publish_artifact Compiled file_name source entry resolution program (self\<lparr>ss_arena := arena1\<rparr>))
         (lower_sequence_hir hir segment arena))"

definition compile_hir ::
  "string \<Rightarrow> string \<Rightarrow> string \<Rightarrow> sequence_hir \<Rightarrow> resolution_snapshot \<Rightarrow> source_session
     \<Rightarrow> ((source_compile_error + source_compile_outcome) \<times> source_session) option" where
  "compile_hir file_name source entry hir resolution self =
     (case ss_cache self (file_name, entry) of
        Some cached \<Rightarrow>
          if hir_matches hir resolution (cs_artifact cached)
          then map_option (\<lambda>program. publish_artifact HirReused file_name source entry resolution program self)
            (rebind_hir (ss_arena self) hir (css_program (cs_artifact cached)))
          else compile_fresh_hir file_name source entry hir resolution self
      | None \<Rightarrow> compile_fresh_hir file_name source entry hir resolution self)"

definition compile_module_entry ::
  "(string \<Rightarrow> u64 option) \<Rightarrow> source_module \<Rightarrow> string \<Rightarrow> source_session
     \<Rightarrow> ((source_compile_error + source_compile_outcome) \<times> source_session) option" where
  "compile_module_entry parse_f64 source_mod entry self =
     (case reuse_exact_source (sm_file_name source_mod) (sm_source source_mod) entry self of
        Some reused \<Rightarrow> Some (Inr reused, self)
      | None \<Rightarrow>
          (case lower_sequence parse_f64 source_mod entry of
             Inl e \<Rightarrow> Some (Inl (HirError e), self)
           | Inr hir \<Rightarrow>
               Option.bind (validate_sequence_hir source_mod hir) (\<lambda>valid.
                 case valid of
                   Inl e \<Rightarrow> Some (Inl (ValidationFailed e), self)
                 | Inr _ \<Rightarrow>
                     Option.bind (resolution_of source_mod hir) (\<lambda>resolution.
                       compile_hir (sm_file_name source_mod) (sm_source source_mod) entry hir resolution self))))"

definition compile_source ::
  "parser \<Rightarrow> (string \<Rightarrow> u64 option) \<Rightarrow> string \<Rightarrow> string \<Rightarrow> string \<Rightarrow> source_session
     \<Rightarrow> ((source_compile_error + source_compile_outcome) \<times> source_session) option" where
  "compile_source parse parse_f64 file_name source entry self =
     (case reuse_exact_source file_name source entry self of
        Some reused \<Rightarrow> Some (Inr reused, self)
      | None \<Rightarrow>
          Option.bind (session_source_module parse file_name source self) (\<lambda>(found, self1).
            case found of
              Inl e \<Rightarrow> Some (Inl (ParseError e), self1)
            | Inr source_mod \<Rightarrow> compile_module_entry parse_f64 source_mod entry self1))"

end
