(* ===== verification/Topology_Soundness.thy ===== *)
theory Topology_Soundness
  imports Scan_Topology Source_Example
begin

text \<open>
  Names and scan slots of a well-formed sequence: every query returns, equal scan keys share one runtime value, and the
  topology check reports exactly the first expression whose call target or dictionary key depends on a scan slot.
\<close>

section \<open>Names\<close>

lemma kind_at_Some: "unat e < length (hir_expressions hir) \<Longrightarrow> kind_at hir e = Some (he_kind (hir_expressions hir ! unat e))"
  by (simp add: kind_at_def)

lemma hir_wf_operand:
  "hir_wf hir \<Longrightarrow> kind_at hir e = Some kind \<Longrightarrow> c \<in> set (hir_children kind)
     \<Longrightarrow> unat c < unat e \<and> unat e < length (hir_expressions hir)"
  by (auto simp: kind_at_def hir_wf_def operands_earlier_def)

lemma path_segments_returns:
  assumes "hir_wf hir"
  shows "unat e < length (hir_expressions hir) \<Longrightarrow> \<exists>found. path_segments hir e segments = Some found"
proof (induction "unat e" arbitrary: e segments rule: less_induct)
  case less
  note kind = kind_at_Some [OF less.prems]
  show ?case
  proof (cases "he_kind (hir_expressions hir ! unat e)")
    case (HAttribute object name)
    then have "unat object < unat e" using hir_wf_operand [OF assms kind] by simp
    then show ?thesis using less by (subst path_segments.simps) (simp add: kind HAttribute)
  qed (simp_all add: kind path_segments.simps [of hir e])
qed

lemma resolve_path_returns:
  "hir_wf hir \<Longrightarrow> unat e < length (hir_expressions hir) \<Longrightarrow> \<exists>path. resolve_path imps hir e = Some path"
  using path_segments_returns [of hir e "[]"] by (auto simp: resolve_path_def)

lemma collect_paths_returns:
  "\<forall>(i, e)\<in>set indexed. \<exists>path. resolve i (he_kind e) = Some path \<Longrightarrow> \<exists>paths. collect_paths resolve reachable indexed = Some paths"
  by (induction resolve reachable indexed rule: collect_paths.induct) auto

lemma in_enumerate: "(i, e) \<in> set (enumerate 0 es) \<longleftrightarrow> i < length es \<and> e = es ! i"
  by (auto simp: in_set_enumerate_eq)

lemma resolved_paths_return:
  assumes "hir_wf hir" "length (hir_expressions hir) < 2 ^ 32"
  shows "\<exists>paths. resolved_paths source_mod hir = Some paths" "\<exists>paths. resolved_call_targets source_mod hir = Some paths"
proof -
  obtain marks where marks: "reachable_mask hir = Some marks" using reachable_mask_exact [OF assms(1)] by blast
  show "\<exists>paths. resolved_paths source_mod hir = Some paths"
    using assms by (auto simp: resolved_paths_def marks in_enumerate intro!: collect_paths_returns resolve_path_returns)
  have "\<exists>path. (case he_kind e of HCall f _ _ \<Rightarrow> resolve_path (sm_imports source_mod) hir f | _ \<Rightarrow> Some None) = Some path"
    if "i < length (hir_expressions hir)" "e = hir_expressions hir ! i" for i e
  proof (cases "he_kind e")
    case (HCall f arguments kws)
    then have "unat f < i" using assms(1) that by (auto simp: hir_wf_def operands_earlier_def)
    then show ?thesis using resolve_path_returns [OF assms(1), of f "sm_imports source_mod"] that(1) HCall that(2) by auto
  qed simp_all
  then show "\<exists>paths. resolved_call_targets source_mod hir = Some paths"
    by (auto simp: resolved_call_targets_def marks in_enumerate intro!: collect_paths_returns)
qed

section \<open>Scan slots\<close>

lemma scan_slot_key_returns:
  assumes "hir_wf hir" "i < length (hir_expressions hir)"
  shows "\<exists>slot. scan_slot_key imps hir (he_kind (hir_expressions hir ! i)) = Some slot"
proof (cases "he_kind (hir_expressions hir ! i)")
  case (HSubscript v k)
  then have "unat v < i" "unat k < i" using assms by (auto simp: hir_wf_def operands_earlier_def)
  then show ?thesis
    using resolve_path_returns [OF assms(1), of v imps] resolve_path_returns [OF assms(1), of k imps] assms(2)
    by (auto simp: scan_slot_key_def HSubscript split: option.splits)
qed (simp_all add: scan_slot_key_def)

text \<open>A key in the table keeps its place, a new key takes the next one.\<close>

lemma intern_runtime_value_ok:
  assumes "intern_runtime_value keys key = (rv, keys')" "distinct keys" "length keys' \<le> 2 ^ 32"
  shows "prefix keys keys'" "distinct keys'" "set keys' = insert key (set keys)" "unat rv < length keys'" "keys' ! unat rv = key"
proof -
  have "prefix keys keys' \<and> distinct keys' \<and> set keys' = insert key (set keys) \<and> unat rv < length keys' \<and> keys' ! unat rv = key"
  proof (cases "find (\<lambda>(i, k). k = key) (enumerate 0 keys)")
    case None
    then have "\<not> (\<exists>hit\<in>set (enumerate 0 keys). snd hit = key)" by (auto simp: find_None_iff)
    moreover have "set keys = snd ` set (enumerate 0 keys)" by (metis list.set_map map_snd_enumerate)
    ultimately have "key \<notin> set keys" by auto
    then show ?thesis using assms None by (auto simp: intern_runtime_value_def)
  next
    case (Some hit)
    obtain i k where hit: "hit = (i, k)" by fastforce
    with Some have "(i, k) \<in> set (enumerate 0 keys)" "k = key" by (auto simp: find_Some_iff in_set_conv_nth)
    then have "i < length keys" "keys ! i = key" by (auto simp: in_enumerate)
    then show ?thesis using assms Some hit by (auto simp: intern_runtime_value_def)
  qed
  then show "prefix keys keys'" "distinct keys'" "set keys' = insert key (set keys)" "unat rv < length keys'" "keys' ! unat rv = key"
    by auto
qed

text \<open>The key of the expression at an index, when it is a scan slot.\<close>

definition slot_at :: "import_table \<Rightarrow> sequence_hir \<Rightarrow> nat \<Rightarrow> string option" where
  "slot_at imps hir i = (case scan_slot_key imps hir (he_kind (hir_expressions hir ! i)) of None \<Rightarrow> None | Some slot \<Rightarrow> slot)"

abbreviation numbered_by :: "string list \<Rightarrow> scan_slot_use \<Rightarrow> bool" where
  "numbered_by keys u \<equiv> unat (ssu_runtime_value u) < length keys \<and> keys ! unat (ssu_runtime_value u) = ssu_key u"

lemma scan_loop_numbers:
  assumes "hir_wf hir" "length keys + length indexed \<le> 2 ^ 32" "distinct keys"
    and "\<forall>(i, e)\<in>set indexed. i < length (hir_expressions hir) \<and> e = hir_expressions hir ! i"
  shows "\<exists>uses keys'. scan_loop imps hir reachable indexed keys = Some uses
    \<and> map (\<lambda>u. (ssu_expression u, ssu_key u)) uses
        = concat (map (\<lambda>i. case slot_at imps hir i of None \<Rightarrow> [] | Some key \<Rightarrow> [(of_nat i, key)])
            (filter (\<lambda>i. reachable ! i) (map fst indexed)))
    \<and> prefix keys keys' \<and> distinct keys' \<and> set keys' = set keys \<union> ssu_key ` set uses
    \<and> (\<forall>u\<in>set uses. numbered_by keys' u)"
  using assms(2-)
proof (induction indexed arbitrary: keys)
  case Nil
  then show ?case by auto
next
  case (Cons item rest)
  obtain i e where item: "item = (i, e)" by fastforce
  then have e: "i < length (hir_expressions hir)" "e = hir_expressions hir ! i" using Cons.prems(3) by auto
  obtain slot where slot: "scan_slot_key imps hir (he_kind e) = Some slot" using scan_slot_key_returns [OF assms(1) e(1)] e(2) by blast
  then have at: "slot_at imps hir i = slot" by (simp add: slot_at_def e(2))
  show ?case
  proof (cases "reachable ! i \<and> slot \<noteq> None")
    case False
    have "scan_loop imps hir reachable (item # rest) keys = scan_loop imps hir reachable rest keys"
      using False by (auto simp: item slot)
    then show ?thesis using Cons.IH [of keys] Cons.prems False by (auto simp: item at)
  next
    case True
    then obtain key where key: "slot = Some key" by blast
    obtain rv keys1 where intern: "intern_runtime_value keys key = (rv, keys1)" by fastforce
    have len: "length keys1 \<le> Suc (length keys)" using intern by (auto simp: intern_runtime_value_def split: option.splits)
    then have bound: "length keys1 \<le> 2 ^ 32" "length keys1 + length rest \<le> 2 ^ 32" using Cons.prems(1) by auto
    note new = intern_runtime_value_ok [OF intern Cons.prems(2) bound(1)]
    obtain uses keys' where ih: "scan_loop imps hir reachable rest keys1 = Some uses"
      "map (\<lambda>u. (ssu_expression u, ssu_key u)) uses
        = concat (map (\<lambda>i. case slot_at imps hir i of None \<Rightarrow> [] | Some key \<Rightarrow> [(of_nat i, key)])
            (filter (\<lambda>i. reachable ! i) (map fst rest)))"
      "prefix keys1 keys'" "distinct keys'" "set keys' = set keys1 \<union> ssu_key ` set uses" "\<forall>u\<in>set uses. numbered_by keys' u"
      using Cons.IH [of keys1] bound(2) new(2) Cons.prems(3) by auto
    let ?use = "\<lparr>ssu_expression = of_nat i, ssu_runtime_value = rv, ssu_key = key\<rparr>"
    have "numbered_by keys' ?use" using new(4,5) ih(3) by (auto simp: prefix_def nth_append)
    then have "scan_loop imps hir reachable (item # rest) keys = Some (?use # uses)" "\<forall>u\<in>set (?use # uses). numbered_by keys' u"
      using True ih(1,6) by (simp_all add: item slot key intern)
    moreover have "set keys' = set keys \<union> ssu_key ` set (?use # uses)" using ih(5) new(3) by auto
    moreover have "prefix keys keys'" using new(1) ih(3) by (rule prefix_order.trans)
    ultimately show ?thesis
      using ih(2,4) True by (intro exI [of _ "?use # uses"] exI [of _ keys']) (simp add: item at key)
  qed
qed

lemma indexed_all: "\<forall>(i, e)\<in>set (enumerate 0 es). i < length es \<and> e = es ! i"
  by (auto simp: in_enumerate)

lemma scan_slots_exact:
  assumes "hir_wf hir" "length (hir_expressions hir) < 2 ^ 32"
  shows "\<exists>uses keys. discover_scan_slots imps hir = Some uses
    \<and> map (\<lambda>u. (ssu_expression u, ssu_key u)) uses
        = concat (map (\<lambda>i. case slot_at imps hir i of None \<Rightarrow> [] | Some key \<Rightarrow> [(of_nat i, key)])
            (filter (\<lambda>i. i \<in> hir_reachable hir) [0..<length (hir_expressions hir)]))
    \<and> distinct keys \<and> set keys = ssu_key ` set uses
    \<and> (\<forall>u\<in>set uses. unat (ssu_runtime_value u) < length keys \<and> keys ! unat (ssu_runtime_value u) = ssu_key u)
    \<and> (\<forall>u\<in>set uses. \<forall>v\<in>set uses. ssu_runtime_value u = ssu_runtime_value v \<longleftrightarrow> ssu_key u = ssu_key v)"
proof -
  obtain marks where marks: "reachable_mask hir = Some marks" "length marks = length (hir_expressions hir)"
    "marked marks = hir_reachable hir" using reachable_mask_exact [OF assms(1)] by blast
  have same: "filter (\<lambda>i. marks ! i) [0..<length (hir_expressions hir)]
      = filter (\<lambda>i. i \<in> hir_reachable hir) [0..<length (hir_expressions hir)]"
    unfolding marks(3) [symmetric] by (rule filter_cong) (auto simp: marked_def marks(2))
  have bound: "length ([] :: string list) + length (enumerate 0 (hir_expressions hir)) \<le> 2 ^ 32" using assms(2) by simp
  from scan_loop_numbers [OF assms(1) bound distinct.simps(1) [THEN iffD2, OF TrueI] indexed_all, of imps marks]
  obtain uses keys where uses: "discover_scan_slots imps hir = Some uses" "distinct keys" "set keys = ssu_key ` set uses"
    "\<forall>u\<in>set uses. numbered_by keys u"
    "map (\<lambda>u. (ssu_expression u, ssu_key u)) uses
        = concat (map (\<lambda>i. case slot_at imps hir i of None \<Rightarrow> [] | Some key \<Rightarrow> [(of_nat i, key)])
            (filter (\<lambda>i. i \<in> hir_reachable hir) [0..<length (hir_expressions hir)]))"
    by (auto simp: discover_scan_slots_def marks(1) same)
  moreover have "ssu_runtime_value u = ssu_runtime_value v \<longleftrightarrow> ssu_key u = ssu_key v" if "u \<in> set uses" "v \<in> set uses" for u v
    using that uses(2,4) by (metis nth_eq_iff_index_eq word_unat_eq_iff)
  ultimately show ?thesis by (intro exI [of _ uses] exI [of _ keys]) blast
qed

lemma scan_slot_places:
  assumes "hir_wf hir" "length (hir_expressions hir) < 2 ^ 32" "discover_scan_slots imps hir = Some uses"
  shows "(\<lambda>u. unat (ssu_expression u)) ` set uses = {i \<in> hir_reachable hir. slot_at imps hir i \<noteq> None}"
proof -
  let ?is = "filter (\<lambda>i. i \<in> hir_reachable hir) [0..<length (hir_expressions hir)]"
  let ?at = "\<lambda>i. case slot_at imps hir i of None \<Rightarrow> [] | Some key \<Rightarrow> [(of_nat i :: expression_id, key)]"
  have places: "map (\<lambda>u. (ssu_expression u, ssu_key u)) uses = concat (map ?at ?is)"
    using scan_slots_exact [OF assms(1,2), of imps] assms(3) by auto
  have "(\<lambda>u. unat (ssu_expression u)) ` set uses = (\<lambda>p. unat (fst p)) ` set (map (\<lambda>u. (ssu_expression u, ssu_key u)) uses)"
    by (simp add: image_image)
  also have "\<dots> = (\<Union>i\<in>set ?is. if slot_at imps hir i = None then {} else {i})"
    unfolding places set_concat set_map image_UN image_image
    by (rule SUP_cong) (use assms(2) in \<open>auto split: option.splits\<close>)
  also have "\<dots> = {i \<in> hir_reachable hir. slot_at imps hir i \<noteq> None}" using hir_reachable_bound [OF assms(1)] by auto
  finally show ?thesis .
qed

text \<open>
  The specification of scan slots.  An expression is read as a dotted name \<open>first.rest\<close>; a scan slot is a subscript of
  a parameter whose declared type is \<open>ExpParams\<close>, possibly qualified, and its key is the dotted name of the index with an
  imported first name replaced by what it stands for.
\<close>

inductive dotted :: "sequence_hir \<Rightarrow> expression_id \<Rightarrow> string \<Rightarrow> string list \<Rightarrow> bool" for hir where
  symbol: "kind_at hir e = Some (HSymbol name) \<Longrightarrow> dotted hir e name []"
| attribute: "kind_at hir e = Some (HAttribute object name) \<Longrightarrow> dotted hir object first rest \<Longrightarrow> dotted hir e first (rest @ [name])"

definition with_dots :: "string \<Rightarrow> string list \<Rightarrow> string" where
  "with_dots first rest = first @ concat (map (\<lambda>name. ''.'' @ name) rest)"

inductive scan_use :: "import_table \<Rightarrow> sequence_hir \<Rightarrow> nat \<Rightarrow> string \<Rightarrow> bool" for imps hir where
  scan_use: "i < length (hir_expressions hir) \<Longrightarrow> he_kind (hir_expressions hir ! i) = HSubscript container index \<Longrightarrow>
    dotted hir container parameter attributes \<Longrightarrow> parameter \<in> set (hir_parameters hir) \<Longrightarrow>
    hir_parameter_types hir (with_dots parameter attributes) = Some ty \<Longrightarrow>
    ty = ''ExpParams'' \<or> (\<exists>qualifier. ty = qualifier @ ''.ExpParams'') \<Longrightarrow>
    dotted hir index first rest \<Longrightarrow>
    absolute = (if first \<in> set (hir_parameters hir) then first else case imps first of Some imported \<Rightarrow> imported | None \<Rightarrow> first) \<Longrightarrow>
    scan_use imps hir i (with_dots absolute rest)"

inductive_cases dotted_symbolE: "dotted hir e first []"
inductive_cases scan_useE: "scan_use imps hir i key"

lemma join_with_dots: "join_dots (first # rest) = with_dots first rest"
  by (induction rest arbitrary: first) (auto simp: with_dots_def)

lemma scan_type_exact: "is_scan_parameter_type ty \<longleftrightarrow> ty = ''ExpParams'' \<or> (\<exists>qualifier. ty = qualifier @ ''.ExpParams'')"
proof
  let ?t = "takeWhile (\<lambda>c. c \<noteq> CHR ''.'') (rev ty)" and ?d = "dropWhile (\<lambda>c. c \<noteq> CHR ''.'') (rev ty)"
  assume "is_scan_parameter_type ty"
  then have t: "rev ?t = ''ExpParams''" by (simp only: is_scan_parameter_type_def after_last_dot_def)
  have ty: "ty = rev ?d @ rev ?t" by (metis rev_append rev_rev_ident takeWhile_dropWhile_id)
  show "ty = ''ExpParams'' \<or> (\<exists>qualifier. ty = qualifier @ ''.ExpParams'')"
  proof (cases ?d)
    case Nil
    have "ty = [] @ ''ExpParams''" using ty unfolding t Nil rev.simps(1) .
    then show ?thesis by simp
  next
    case (Cons c cs)
    then have "c = CHR ''.''" using hd_dropWhile [of "\<lambda>c. c \<noteq> CHR ''.''" "rev ty"] by simp
    have "ty = (rev cs @ [c]) @ ''ExpParams''" using ty unfolding t Cons rev.simps(2) .
    then have "ty = rev cs @ ''.ExpParams''" by (simp add: \<open>c = CHR ''.''\<close>)
    then show ?thesis by blast
  qed
next
  assume "ty = ''ExpParams'' \<or> (\<exists>qualifier. ty = qualifier @ ''.ExpParams'')"
  then show "is_scan_parameter_type ty" by (auto simp: is_scan_parameter_type_def after_last_dot_def)
qed

lemma path_segments_exact:
  assumes "hir_wf hir"
  shows "unat e < length (hir_expressions hir) \<Longrightarrow> \<exists>found. path_segments hir e segments = Some found
    \<and> (\<forall>names. found = Some names \<longleftrightarrow> (\<exists>first rest. dotted hir e first rest \<and> names = segments @ rev (first # rest)))"
proof (induction "unat e" arbitrary: e segments rule: less_induct)
  case less
  note kind = kind_at_Some [OF less.prems]
  show ?case
  proof (cases "he_kind (hir_expressions hir ! unat e)")
    case (HAttribute object name)
    then have o: "unat object < unat e" "unat object < length (hir_expressions hir)"
      using hir_wf_operand [OF assms kind] less.prems by (auto intro: less_trans)
    from less.hyps [OF o, of "segments @ [name]"] obtain found where found: "path_segments hir object (segments @ [name]) = Some found"
      "\<forall>names. found = Some names \<longleftrightarrow> (\<exists>first rest. dotted hir object first rest \<and> names = (segments @ [name]) @ rev (first # rest))"
      by blast
    have d: "dotted hir e first rest \<longleftrightarrow> (\<exists>rest'. rest = rest' @ [name] \<and> dotted hir object first rest')" for first rest
      using dotted.simps [of hir e first rest] by (auto simp: kind HAttribute)
    have "path_segments hir e segments = Some found" using found(1) by (subst path_segments.simps) (simp add: kind HAttribute)
    moreover have "\<forall>names. found = Some names \<longleftrightarrow> (\<exists>first rest. dotted hir e first rest \<and> names = segments @ rev (first # rest))"
    proof (intro allI iffI)
      fix names assume "found = Some names"
      then obtain first rest where f: "dotted hir object first rest" "names = segments @ rev (first # rest @ [name])"
        using found(2) by auto
      then have "dotted hir e first (rest @ [name])" using d by blast
      then show "\<exists>first rest. dotted hir e first rest \<and> names = segments @ rev (first # rest)" using f(2) by blast
    next
      fix names assume "\<exists>first rest. dotted hir e first rest \<and> names = segments @ rev (first # rest)"
      then obtain first rest where "dotted hir object first rest" "names = (segments @ [name]) @ rev (first # rest)"
        by (auto simp: d)
      then show "found = Some names" using found(2) by blast
    qed
    ultimately show ?thesis by blast
  next
    case (HSymbol name)
    have d: "dotted hir e first rest \<longleftrightarrow> first = name \<and> rest = []" for first rest
      using dotted.simps [of hir e first rest] by (auto simp: kind HSymbol)
    show ?thesis by (subst path_segments.simps) (auto simp: kind HSymbol d)
  qed (auto simp: kind path_segments.simps [of hir e] dotted.simps [of hir e])
qed

lemma resolve_path_exact:
  assumes "hir_wf hir" "unat e < length (hir_expressions hir)"
  shows "\<exists>path. resolve_path imps hir e = Some path
    \<and> (\<forall>p. path = Some p \<longleftrightarrow> (\<exists>first rest. dotted hir e first rest \<and> resolve_segments imps hir (first # rest) = Some p))"
proof -
  from path_segments_exact [OF assms, of "[]"] obtain found where "path_segments hir e [] = Some found"
    and names: "\<And>names. found = Some names \<longleftrightarrow> (\<exists>first rest. dotted hir e first rest \<and> names = rev (first # rest))"
    by (metis append_Nil)
  then have "resolve_path imps hir e = Some (Option.bind found (\<lambda>segments. resolve_segments imps hir (rev segments)))"
    by (simp add: resolve_path_def)
  moreover have "Option.bind found (\<lambda>segments. resolve_segments imps hir (rev segments)) = Some p
      \<longleftrightarrow> (\<exists>first rest. dotted hir e first rest \<and> resolve_segments imps hir (first # rest) = Some p)" for p
    unfolding bind_eq_Some_conv names by (metis rev_rev_ident)
  ultimately show ?thesis by blast
qed

lemma resolve_segments_name:
  "resolve_segments imps hir (first # rest) = Some p \<Longrightarrow> rp_qualified_name p
     = with_dots (if first \<in> set (hir_parameters hir) then first else case imps first of Some imported \<Rightarrow> imported | None \<Rightarrow> first) rest
   \<and> (rp_root p = ParameterRoot \<longleftrightarrow> first \<in> set (hir_parameters hir))"
  by (auto simp: resolve_segments_def join_with_dots simp del: join_dots.simps split: option.splits if_splits)

lemma resolve_segments_total: "\<exists>p. resolve_segments imps hir (first # rest) = Some p"
  by (simp add: resolve_segments_def)

lemma slot_at_exact:
  assumes "hir_wf hir" "i < length (hir_expressions hir)"
  shows "slot_at imps hir i = Some key \<longleftrightarrow> scan_use imps hir i key"
proof (cases "he_kind (hir_expressions hir ! i)")
  case (HSubscript v k)
  then have small: "unat v < length (hir_expressions hir)" "unat k < length (hir_expressions hir)"
    using assms by (auto simp: hir_wf_def operands_earlier_def intro: less_trans)
  from resolve_path_exact [OF assms(1) small(1), of imps] obtain pv where pv: "resolve_path imps hir v = Some pv"
    "\<And>p. pv = Some p \<longleftrightarrow> (\<exists>first rest. dotted hir v first rest \<and> resolve_segments imps hir (first # rest) = Some p)" by blast
  from resolve_path_exact [OF assms(1) small(2), of imps] obtain pk where pk: "resolve_path imps hir k = Some pk"
    "\<And>p. pk = Some p \<longleftrightarrow> (\<exists>first rest. dotted hir k first rest \<and> resolve_segments imps hir (first # rest) = Some p)" by blast
  have slot: "slot_at imps hir i = Some key \<longleftrightarrow> (\<exists>c p. pv = Some c \<and> rp_root c = ParameterRoot
      \<and> (\<exists>ty. hir_parameter_types hir (rp_qualified_name c) = Some ty \<and> is_scan_parameter_type ty)
      \<and> pk = Some p \<and> key = rp_qualified_name p)"
    by (cases pv; cases pk) (auto simp: slot_at_def scan_slot_key_def HSubscript pv(1) pk(1) split: option.splits)
  show ?thesis
  proof
    assume "slot_at imps hir i = Some key"
    then obtain c p ty where c: "pv = Some c" "rp_root c = ParameterRoot" "hir_parameter_types hir (rp_qualified_name c) = Some ty"
      "is_scan_parameter_type ty" "pk = Some p" "key = rp_qualified_name p" unfolding slot by blast
    from c(1) pv(2) obtain parameter attributes where d: "dotted hir v parameter attributes"
      "resolve_segments imps hir (parameter # attributes) = Some c" by blast
    from c(5) pk(2) obtain first rest where e: "dotted hir k first rest" "resolve_segments imps hir (first # rest) = Some p" by blast
    note name = resolve_segments_name [OF d(2)] resolve_segments_name [OF e(2)]
    have "parameter \<in> set (hir_parameters hir)" "hir_parameter_types hir (with_dots parameter attributes) = Some ty"
      using name(1) c(2,3) by auto
    then show "scan_use imps hir i key"
      unfolding c(6) name(2) [THEN conjunct1]
      using scan_use.intros [OF assms(2) HSubscript d(1) _ _ _ e(1) refl] c(4) scan_type_exact by blast
  next
    assume "scan_use imps hir i key"
    then show "slot_at imps hir i = Some key"
    proof (cases rule: scan_use.cases)
      case 1: (scan_use v' k' parameter attributes ty first rest absolute)
      obtain c where c: "resolve_segments imps hir (parameter # attributes) = Some c" using resolve_segments_total by blast
      obtain p where p: "resolve_segments imps hir (first # rest) = Some p" using resolve_segments_total by blast
      note name = resolve_segments_name [OF c] resolve_segments_name [OF p]
      have "pv = Some c" "pk = Some p" using 1 HSubscript c p unfolding pv(2) pk(2) by auto
      then show ?thesis unfolding slot using 1 name scan_type_exact by auto
    qed
  qed
qed (auto simp: slot_at_def scan_slot_key_def elim!: scan_useE)

lemma scan_slots_used:
  assumes "hir_wf hir" "length (hir_expressions hir) < 2 ^ 32" "discover_scan_slots imps hir = Some uses"
  shows "(\<lambda>u. (unat (ssu_expression u), ssu_key u)) ` set uses = {(i, key). i \<in> hir_reachable hir \<and> scan_use imps hir i key}"
    "sorted_wrt (<) (map (\<lambda>u. unat (ssu_expression u)) uses)"
proof -
  let ?is = "filter (\<lambda>i. i \<in> hir_reachable hir) [0..<length (hir_expressions hir)]"
  let ?at = "\<lambda>i. case slot_at imps hir i of None \<Rightarrow> [] | Some key \<Rightarrow> [(of_nat i :: expression_id, key)]"
  have places: "map (\<lambda>u. (ssu_expression u, ssu_key u)) uses = concat (map ?at ?is)"
    using scan_slots_exact [OF assms(1,2), of imps] assms(3) by auto
  have small: "\<forall>i\<in>set ?is. i < 2 ^ 32" using assms(2) by auto
  have columns: "map (\<lambda>p. (unat (fst p), snd p)) (concat (map ?at is))
      = concat (map (\<lambda>i. case slot_at imps hir i of None \<Rightarrow> [] | Some key \<Rightarrow> [(i, key)]) is)" if "\<forall>i\<in>set is. i < 2 ^ 32" for "is"
    using that by (induction "is") (auto split: option.splits)
  have list: "map (\<lambda>u. (unat (ssu_expression u), ssu_key u)) uses
      = concat (map (\<lambda>i. case slot_at imps hir i of None \<Rightarrow> [] | Some key \<Rightarrow> [(i, key)]) ?is)"
    using columns [OF small] unfolding places [symmetric] by (simp add: comp_def)
  have "(\<lambda>u. (unat (ssu_expression u), ssu_key u)) ` set uses = {(i, key). i \<in> set ?is \<and> slot_at imps hir i = Some key}"
    using arg_cong [OF list, of set] by (auto split: option.splits)
  also have "\<dots> = {(i, key). i \<in> hir_reachable hir \<and> scan_use imps hir i key}"
    using hir_reachable_bound [OF assms(1)] slot_at_exact [OF assms(1)] by (auto simp: subset_iff)
  finally show "(\<lambda>u. (unat (ssu_expression u), ssu_key u)) ` set uses = {(i, key). i \<in> hir_reachable hir \<and> scan_use imps hir i key}" .
  have "map fst (concat (map (\<lambda>i. case slot_at imps hir i of None \<Rightarrow> [] | Some key \<Rightarrow> [(i, key)]) is))
      = filter (\<lambda>i. slot_at imps hir i \<noteq> None) is" for "is"
    by (induction "is") (auto split: option.splits)
  from this [of ?is] have "map (\<lambda>u. unat (ssu_expression u)) uses = filter (\<lambda>i. slot_at imps hir i \<noteq> None) ?is"
    unfolding list [symmetric] by (simp add: comp_def)
  then show "sorted_wrt (<) (map (\<lambda>u. unat (ssu_expression u)) uses)"
    by (simp add: sorted_wrt_filter)
qed

section \<open>The topology check\<close>

text \<open>An expression depends on a slot when the slot is among the expressions it is built from.\<close>

definition depends_on :: "sequence_hir \<Rightarrow> nat set \<Rightarrow> nat \<Rightarrow> bool" where
  "depends_on hir slots i \<longleftrightarrow> reachable_from (hir_kids hir) {i} \<inter> slots \<noteq> {}"

definition topology_misuse :: "sequence_hir \<Rightarrow> nat set \<Rightarrow> nat \<Rightarrow> topology_context option" where
  "topology_misuse hir slots i =
     (case he_kind (hir_expressions hir ! i) of
        HCall function _ _ \<Rightarrow> if depends_on hir slots (unat function) then Some CallTarget else None
      | HDictionary entries \<Rightarrow>
          if \<exists>(key, _)\<in>set entries. depends_on hir slots (unat key) then Some ChannelDictionaryKey else None
      | _ \<Rightarrow> None)"

lemma reachable_union: "reachable_from kids (A \<union> B) = reachable_from kids A \<union> reachable_from kids B"
proof
  show "reachable_from kids (A \<union> B) \<subseteq> reachable_from kids A \<union> reachable_from kids B"
    by (rule reachable_least) (auto intro: reachable_from.intros)
  have "reachable_from kids A \<subseteq> reachable_from kids (A \<union> B)" "reachable_from kids B \<subseteq> reachable_from kids (A \<union> B)"
    by (rule reachable_least; auto intro: reachable_from.intros)+
  then show "reachable_from kids A \<union> reachable_from kids B \<subseteq> reachable_from kids (A \<union> B)" by blast
qed

lemma reachable_each: "reachable_from kids (set xs) = (\<Union>x\<in>set xs. reachable_from kids {x})"
proof (induction xs)
  case (Cons x xs)
  then show ?case using reachable_union [of kids "{x}" "set xs"] by simp
qed simp

lemma depends_on_unfold: "depends_on hir slots i \<longleftrightarrow> i \<in> slots \<or> (\<exists>j\<in>set (hir_kids hir i). depends_on hir slots j)"
  unfolding depends_on_def using reachable_visit [of "hir_kids hir" i "{}"] reachable_each [of "hir_kids hir" "hir_kids hir i"]
  by auto

lemma any_tainted_exact:
  "\<forall>e\<in>set es. unat e < length tainted \<Longrightarrow> any_tainted tainted es = Some (\<exists>e\<in>set es. tainted ! unat e)"
  by (induction es) (auto simp: is_tainted_def nth_opt_def)

lemma taint_slots_exact:
  "\<forall>s\<in>set slots. unat (ssu_expression s) < length tainted \<Longrightarrow>
     \<exists>tainted'. taint_slots slots tainted = Some tainted' \<and> length tainted' = length tainted
       \<and> marked tainted' = marked tainted \<union> (\<lambda>s. unat (ssu_expression s)) ` set slots"
proof (induction slots arbitrary: tainted)
  case (Cons slot slots)
  let ?t = "tainted[unat (ssu_expression slot) := True]"
  from Cons.IH [of ?t] Cons.prems obtain tainted' where "taint_slots slots ?t = Some tainted'" "length tainted' = length tainted"
    "marked tainted' = marked ?t \<union> (\<lambda>s. unat (ssu_expression s)) ` set slots" by auto
  then show ?case using marked_update [of "unat (ssu_expression slot)" tainted] Cons.prems by auto
qed simp

lemma propagate_taint_exact:
  assumes "hir_wf hir" "length tainted = length (hir_expressions hir)" "k \<le> length tainted"
    and "\<forall>i<length tainted. tainted ! i = (if i < k then depends_on hir slots i else i \<in> slots)"
  shows "\<exists>tainted'. propagate_taint (enumerate k (drop k (hir_expressions hir))) tainted = Some tainted'
    \<and> length tainted' = length (hir_expressions hir) \<and> (\<forall>i<length tainted'. tainted' ! i = depends_on hir slots i)"
  using assms(2-)
proof (induction "length (hir_expressions hir) - k" arbitrary: k tainted)
  case 0
  then show ?case by auto
next
  case (Suc n)
  then have k: "k < length (hir_expressions hir)" by simp
  let ?e = "hir_expressions hir ! k"
  have list: "enumerate k (drop k (hir_expressions hir)) = (k, ?e) # enumerate (Suc k) (drop (Suc k) (hir_expressions hir))"
    using k by (simp add: Cons_nth_drop_Suc [symmetric])
  have kids: "hir_kids hir k = map unat (hir_children (he_kind ?e))" using k by (simp add: hir_kids_def)
  have small: "\<forall>c\<in>set (hir_children (he_kind ?e)). unat c < k"
    using assms(1) k by (auto simp: hir_wf_def operands_earlier_def)
  show ?case
  proof (cases "k \<in> slots")
    case True
    have dep: "depends_on hir slots k" using True depends_on_unfold by blast
    then have "\<forall>i<length tainted. tainted ! i = (if i < Suc k then depends_on hir slots i else i \<in> slots)"
      using Suc.prems(3) True by (auto simp: less_Suc_eq)
    then show ?thesis using Suc.hyps(1) [of "Suc k" tainted] Suc.hyps(2) Suc.prems True dep k by (simp add: list)
  next
    case False
    let ?t = "\<exists>e\<in>set (hir_children (he_kind ?e)). tainted ! unat e"
    have any: "any_tainted tainted (hir_children (he_kind ?e)) = Some ?t"
      using small k Suc.prems(1) by (intro any_tainted_exact) auto
    have "tainted ! unat c = depends_on hir slots (unat c)" if "c \<in> set (hir_children (he_kind ?e))" for c
      using that small k Suc.prems(1,3) by fastforce
    then have t: "?t \<longleftrightarrow> depends_on hir slots k"
      using depends_on_unfold [of hir slots k] False by (auto simp: kids)
    have "\<forall>i<length (tainted[k := ?t]). (tainted[k := ?t]) ! i = (if i < Suc k then depends_on hir slots i else i \<in> slots)"
      using Suc.prems(1,3) t k by (auto simp: nth_list_update less_Suc_eq)
    then show ?thesis
      using Suc.hyps(1) [of "Suc k" "tainted[k := ?t]"] Suc.hyps(2) Suc.prems False k any by (simp add: list)
  qed
qed

lemma topology_use_exact:
  assumes "hir_wf hir" "i < length (hir_expressions hir)" "length tainted = length (hir_expressions hir)"
    and "\<forall>i<length tainted. tainted ! i = depends_on hir slots i"
  shows "topology_use tainted (he_kind (hir_expressions hir ! i)) = Some (topology_misuse hir slots i)"
proof -
  let ?kind = "he_kind (hir_expressions hir ! i)"
  have small: "\<forall>c\<in>set (hir_children ?kind). unat c < length tainted"
    using assms(1-3) by (auto simp: hir_wf_def operands_earlier_def intro: less_trans)
  show ?thesis
  proof (cases ?kind)
    case (HCall f arguments kws)
    then show ?thesis using small assms(4) by (simp add: topology_use_def topology_misuse_def is_tainted_def)
  next
    case (HDictionary entries)
    then have "\<forall>e\<in>set (map fst entries). unat e < length tainted" using small by force
    then have "any_tainted tainted (map fst entries) = Some (\<exists>(key, _)\<in>set entries. depends_on hir slots (unat key))"
      using any_tainted_exact [of "map fst entries" tainted] assms(4) by force
    then show ?thesis by (simp add: topology_use_def topology_misuse_def HDictionary)
  qed (simp_all add: topology_use_def topology_misuse_def)
qed

lemma check_topology_exact:
  assumes "\<forall>(i, e)\<in>set indexed. topology_use tainted (he_kind e) = Some (misuse i)"
  shows "check_topology file_name tainted reachable indexed =
    Some (case find (\<lambda>(i, e). reachable ! i \<and> misuse i \<noteq> None) indexed of
        None \<Rightarrow> Inr ()
      | Some (i, e) \<Rightarrow> Inl \<lparr>ve_file_name = file_name, ve_span = he_span e, ve_context = the (misuse i)\<rparr>)"
  using assms
proof (induction indexed)
  case (Cons item rest)
  obtain i e where item: "item = (i, e)" by fastforce
  with Cons.prems have use: "topology_use tainted (he_kind e) = Some (misuse i)" by simp
  show ?case using Cons item use by (cases "reachable ! i"; cases "misuse i") auto
qed simp

lemma find_indexed:
  "find (\<lambda>(i, e). P i) (enumerate k es) = map_option (\<lambda>i. (i, es ! (i - k))) (find P [k..<k + length es])"
proof (induction es arbitrary: k)
  case (Cons e es)
  have "[k..<k + length (e # es)] = k # [Suc k..<Suc k + length es]" by (subst upt_conv_Cons) simp_all
  moreover have "map_option (\<lambda>i. (i, es ! (i - Suc k))) (find P [Suc k..<Suc k + length es])
      = map_option (\<lambda>i. (i, (e # es) ! (i - k))) (find P [Suc k..<Suc k + length es])"
  proof (rule option.map_cong0)
    fix i assume "i \<in> set_option (find P [Suc k..<Suc k + length es])"
    then have "i \<in> set [Suc k..<Suc k + length es]" by (metis elem_set find_Some_iff nth_mem)
    then have "Suc k \<le> i" by (simp only: set_upt atLeastLessThan_iff)
    then show "(i, es ! (i - Suc k)) = (i, (e # es) ! (i - k))" by (simp add: nth_Cons')
  qed
  ultimately show ?case using Cons by simp
qed simp

lemma scan_topology_exact:
  assumes "hir_wf hir" "\<forall>u\<in>set uses. unat (ssu_expression u) < length (hir_expressions hir)"
  defines "slots \<equiv> (\<lambda>u. unat (ssu_expression u)) ` set uses"
  shows "validate_scan_topology file_name hir uses =
    Some (case find (\<lambda>i. i \<in> hir_reachable hir \<and> topology_misuse hir slots i \<noteq> None) [0..<length (hir_expressions hir)] of
        None \<Rightarrow> Inr ()
      | Some i \<Rightarrow> Inl \<lparr>ve_file_name = file_name, ve_span = he_span (hir_expressions hir ! i),
          ve_context = the (topology_misuse hir slots i)\<rparr>)"
proof -
  let ?es = "hir_expressions hir" and ?none = "replicate (length (hir_expressions hir)) False"
  obtain t0 where t0: "taint_slots uses ?none = Some t0" "length t0 = length ?es" "marked t0 = slots"
    using taint_slots_exact [of uses ?none] assms(2) by (auto simp: slots_def)
  have "\<forall>i<length t0. t0 ! i = (if i < 0 then depends_on hir slots i else i \<in> slots)"
    unfolding t0(3) [symmetric] by (auto simp: marked_def)
  then obtain tainted where tainted: "propagate_taint (enumerate 0 ?es) t0 = Some tainted" "length tainted = length ?es"
      "\<forall>i<length tainted. tainted ! i = depends_on hir slots i"
    using propagate_taint_exact [OF assms(1) t0(2), of 0 slots] by auto
  obtain marks where marks: "reachable_mask hir = Some marks" "length marks = length ?es" "marked marks = hir_reachable hir"
    using reachable_mask_exact [OF assms(1)] by blast
  have "\<forall>(i, e)\<in>set (enumerate 0 ?es). topology_use tainted (he_kind e) = Some (topology_misuse hir slots i)"
    using topology_use_exact [OF assms(1) _ tainted(2,3)] by (auto simp: in_enumerate)
  from check_topology_exact [OF this, of file_name marks]
  have check: "validate_scan_topology file_name hir uses =
    Some (case find (\<lambda>i. marks ! i \<and> topology_misuse hir slots i \<noteq> None) [0..<length ?es] of
        None \<Rightarrow> Inr ()
      | Some i \<Rightarrow> Inl \<lparr>ve_file_name = file_name, ve_span = he_span (?es ! i), ve_context = the (topology_misuse hir slots i)\<rparr>)"
    by (simp add: validate_scan_topology_def t0(1) tainted(1) marks(1) find_indexed option.case_eq_if option.map_sel)
  have "find (\<lambda>i. marks ! i \<and> topology_misuse hir slots i \<noteq> None) [0..<length ?es]
      = find (\<lambda>i. i \<in> hir_reachable hir \<and> topology_misuse hir slots i \<noteq> None) [0..<length ?es]"
    unfolding marks(3) [symmetric] by (rule find_cong) (auto simp: marked_def marks(2))
  then show ?thesis using check by simp
qed

text \<open>The scan slots that a module finds in a sequence.\<close>

abbreviation slots_of :: "source_module \<Rightarrow> sequence_hir \<Rightarrow> nat set" where
  "slots_of self hir \<equiv> {i \<in> hir_reachable hir. slot_at (sm_imports self) hir i \<noteq> None}"

lemma module_check_exact:
  assumes "hir_wf hir" "length (hir_expressions hir) < 2 ^ 32"
  shows "validate_sequence_hir self hir =
    Some (case find (\<lambda>i. i \<in> hir_reachable hir \<and> topology_misuse hir (slots_of self hir) i \<noteq> None) [0..<length (hir_expressions hir)] of
        None \<Rightarrow> Inr ()
      | Some i \<Rightarrow> Inl \<lparr>ve_file_name = sm_file_name self, ve_span = he_span (hir_expressions hir ! i),
          ve_context = the (topology_misuse hir (slots_of self hir) i)\<rparr>)"
proof -
  obtain uses where uses: "discover_scan_slots (sm_imports self) hir = Some uses" using scan_slots_exact [OF assms] by blast
  note places = scan_slot_places [OF assms uses]
  have "\<forall>u\<in>set uses. unat (ssu_expression u) < length (hir_expressions hir)"
  proof
    fix u assume "u \<in> set uses"
    then have "unat (ssu_expression u) \<in> hir_reachable hir" using places by blast
    then show "unat (ssu_expression u) < length (hir_expressions hir)" using hir_reachable_bound [OF assms(1)] by blast
  qed
  from scan_topology_exact [OF assms(1) this, of "sm_file_name self", unfolded places] show ?thesis
    unfolding validate_sequence_hir_def module_scan_slots_def uses by simp
qed

section \<open>Properties\<close>

text \<open>
  C10. The scan slots of a well-formed sequence are exactly the expressions its result depends on that subscript a
  parameter of type \<open>ExpParams\<close> with a dotted name, in the order of the vector, each with that name as its key; the
  runtime values are the positions in a list of the different keys, so two uses share a value exactly when they share
  the key.
\<close>

theorem scan_slots_numbered:
  assumes "hir_wf hir" "length (hir_expressions hir) < 2 ^ 32"
  shows "\<exists>uses keys. discover_scan_slots imps hir = Some uses
    \<and> (\<lambda>u. (unat (ssu_expression u), ssu_key u)) ` set uses = {(i, key). i \<in> hir_reachable hir \<and> scan_use imps hir i key}
    \<and> sorted_wrt (<) (map (\<lambda>u. unat (ssu_expression u)) uses)
    \<and> distinct keys \<and> set keys = ssu_key ` set uses
    \<and> (\<forall>u\<in>set uses. unat (ssu_runtime_value u) < length keys \<and> keys ! unat (ssu_runtime_value u) = ssu_key u)
    \<and> (\<forall>u\<in>set uses. \<forall>v\<in>set uses. ssu_runtime_value u = ssu_runtime_value v \<longleftrightarrow> ssu_key u = ssu_key v)"
proof -
  from scan_slots_exact [OF assms, of imps] obtain uses keys where u: "discover_scan_slots imps hir = Some uses"
    "distinct keys" "set keys = ssu_key ` set uses"
    "\<forall>u\<in>set uses. unat (ssu_runtime_value u) < length keys \<and> keys ! unat (ssu_runtime_value u) = ssu_key u"
    "\<forall>u\<in>set uses. \<forall>v\<in>set uses. ssu_runtime_value u = ssu_runtime_value v \<longleftrightarrow> ssu_key u = ssu_key v" by blast
  show ?thesis by (intro exI conjI) (rule u scan_slots_used [OF assms u(1)])+
qed

theorem scan_slots_numbered_witness:
  "\<exists>uses. discover_scan_slots Map.empty example_hir = Some uses
    \<and> map (\<lambda>u. (unat (ssu_expression u), ssu_key u)) uses = [(3, ''k'')] \<and> scan_use Map.empty example_hir 3 ''k''"
proof -
  have mask: "reachable_mask example_hir = Some [True, True, True, True, True]" by code_simp
  have kinds: "kind_at example_hir 1 = Some (HSymbol ''p'')" "kind_at example_hir 2 = Some (HSymbol ''k'')"
    by (simp_all add: example_hir_def kind_at_def nth_opt_def)
  have "path_segments example_hir 1 [] = Some (Some [''p''])" "path_segments example_hir 2 [] = Some (Some [''k''])"
    by (subst path_segments.simps, simp add: kinds)+
  then have paths: "resolve_path Map.empty example_hir 1 = Some (Some \<lparr>rp_root = ParameterRoot, rp_qualified_name = ''p''\<rparr>)"
    "resolve_path Map.empty example_hir 2 = Some (Some \<lparr>rp_root = ModuleGlobal, rp_qualified_name = ''k''\<rparr>)"
    by (simp_all add: resolve_path_def resolve_segments_def) (simp_all add: example_hir_def)
  have example: "hir_expressions example_hir = map (\<lambda>k. \<lparr>he_kind = k, he_span = example_span\<rparr>)
       [HSymbol ''g'', HSymbol ''p'', HSymbol ''k'', HSubscript 1 2, HCall 0 [3] []]"
    "hir_parameter_types example_hir ''p'' = Some ''ExpParams''" by (simp_all add: example_hir_def)
  have run: "discover_scan_slots Map.empty example_hir = Some [\<lparr>ssu_expression = 3, ssu_runtime_value = 0, ssu_key = ''k''\<rparr>]"
    unfolding discover_scan_slots_def mask
    by (simp add: example scan_slot_key_def paths is_scan_parameter_type_def after_last_dot_def intern_runtime_value_def)
  from scan_slots_numbered [OF example_wf, of Map.empty] obtain uses where uses: "discover_scan_slots Map.empty example_hir = Some uses"
    and slots: "(\<lambda>u. (unat (ssu_expression u), ssu_key u)) ` set uses
      = {(i, key). i \<in> hir_reachable example_hir \<and> scan_use Map.empty example_hir i key}" by blast
  have "uses = [\<lparr>ssu_expression = 3, ssu_runtime_value = 0, ssu_key = ''k''\<rparr>]" using uses unfolding run by simp
  then have "(3, ''k'') \<in> {(i, key). i \<in> hir_reachable example_hir \<and> scan_use Map.empty example_hir i key}"
    unfolding slots [symmetric] by simp
  then have "scan_use Map.empty example_hir 3 ''k''" by blast
  then show ?thesis unfolding run by simp
qed

text \<open>
  C9. The check of a well-formed sequence by its module always returns.  It passes exactly when no expression that the
  result depends on has a call target or a dictionary key built from a scan slot; otherwise it reports the first such
  expression with its place in the source and what it is.
\<close>

theorem validate_sequence_exact:
  fixes self :: source_module
  assumes "hir_wf hir" "length (hir_expressions hir) < 2 ^ 32"
  defines "slots \<equiv> {i \<in> hir_reachable hir. \<exists>key. scan_use (sm_imports self) hir i key}"
  shows "validate_sequence_hir self hir =
    Some (case find (\<lambda>i. i \<in> hir_reachable hir \<and> topology_misuse hir slots i \<noteq> None) [0..<length (hir_expressions hir)] of
        None \<Rightarrow> Inr ()
      | Some i \<Rightarrow> Inl \<lparr>ve_file_name = sm_file_name self, ve_span = he_span (hir_expressions hir ! i),
          ve_context = the (topology_misuse hir slots i)\<rparr>)"
proof -
  have eq: "slots = slots_of self hir"
    using hir_reachable_bound [OF assms(1)] slot_at_exact [OF assms(1)] by (fastforce simp: slots_def)
  show ?thesis unfolding eq by (rule module_check_exact [OF assms(1,2)])
qed

theorem validate_sequence_exact_witness:
  "hir_wf example_hir \<and> length (hir_expressions example_hir) < 2 ^ 32 \<and> validate_sequence_hir example_module example_hir \<noteq> None"
  using validate_sequence_exact [OF example_wf, of example_module] example_wf by simp

end
