(* ===== verification/Segment_Soundness.thy ===== *)
theory Segment_Soundness
  imports Segment_Store Dag_Store "HOL-Library.Sublist"
begin

text \<open>
  Correctness of the segmented store: the store only grows, frozen segments are immutable, every
  reference it handed out stays valid, templates depend on templates only, and the statistics of a
  frozen program count exactly its reachable nodes.
\<close>

section \<open>Growth of the store\<close>

definition segment_le :: "segment \<Rightarrow> segment \<Rightarrow> bool" where
  "segment_le s s' \<longleftrightarrow> seg_kind s' = seg_kind s \<and> prefix (seg_nodes s) (seg_nodes s')
     \<and> (seg_frozen s \<longrightarrow> s' = s)"

definition store_le :: "'o arena_store \<Rightarrow> 'o arena_store \<Rightarrow> bool" where
  "store_le a b \<longleftrightarrow> st_id b = st_id a
     \<and> length (in_segments (st_inner a)) \<le> length (in_segments (st_inner b))
     \<and> (\<forall>i<length (in_segments (st_inner a)). segment_le (in_segments (st_inner a) ! i) (in_segments (st_inner b) ! i))
     \<and> prefix (in_templates (st_inner a)) (in_templates (st_inner b))
     \<and> prefix (in_instances (st_inner a)) (in_instances (st_inner b))"

lemma segment_le_refl [simp]: "segment_le s s"
  by (simp add: segment_le_def)

lemma segment_le_trans: "segment_le a b \<Longrightarrow> segment_le b c \<Longrightarrow> segment_le a c"
  by (auto simp: segment_le_def)

lemma store_le_refl [simp]: "store_le s s"
  by (simp add: store_le_def)

lemma store_le_trans:
  assumes "store_le a b" "store_le b c"
  shows "store_le a c"
proof -
  have "segment_le (in_segments (st_inner a) ! i) (in_segments (st_inner c) ! i)"
    if "i < length (in_segments (st_inner a))" for i
    using assms that by (auto simp: store_le_def intro: segment_le_trans)
  then show ?thesis using assms unfolding store_le_def by (auto intro: prefix_order.trans)
qed

lemma nth_opt_prefix: "prefix xs ys \<Longrightarrow> nth_opt xs i = Some x \<Longrightarrow> nth_opt ys i = Some x"
  by (auto simp: prefix_def nth_append)

lemma segment_from_le:
  assumes "store_le a b" "segment_from a sid = Inr s"
  shows "\<exists>s'. segment_from b sid = Inr s' \<and> segment_le s s'"
  using assms by (auto simp: segment_from_def store_le_def split: if_splits)

lemma node_from_le:
  assumes "store_le a b" "node_from a r = Inr n"
  shows "node_from b r = Inr n"
proof -
  from assms(2) obtain s where s: "segment_from a (ref_segment r) = Inr s" "nth_opt (seg_nodes s) (unat (nr_index r)) = Some n"
    by (auto simp: node_from_def res_simps)
  from segment_from_le [OF assms(1) s(1)] obtain s' where "segment_from b (ref_segment r) = Inr s'" "segment_le s s'" by blast
  then show ?thesis using s(2) nth_opt_prefix [of "seg_nodes s" "seg_nodes s'"] by (simp add: node_from_def segment_le_def)
qed

lemma template_from_le: "store_le a b \<Longrightarrow> template_from a t = Inr x \<Longrightarrow> template_from b t = Inr x"
  by (auto simp: template_from_def store_le_def simp del: nth_opt_Some_iff intro: nth_opt_prefix split: if_splits)

lemma instance_le:
  "store_le a b \<Longrightarrow> nth_opt (in_instances (st_inner a)) i = Some x \<Longrightarrow> nth_opt (in_instances (st_inner b)) i = Some x"
  by (auto simp: store_le_def simp del: nth_opt_Some_iff intro: nth_opt_prefix)

section \<open>The invariant\<close>

abbreviation in_template_segment :: "'o arena_store \<Rightarrow> node_ref \<Rightarrow> bool" where
  "in_template_segment a r \<equiv> \<exists>s. segment_from a (ref_segment r) = Inr s \<and> seg_kind s = TemplateSegment"

definition node_kids :: "arena_node \<Rightarrow> node_ref list" where
  "node_kids n = List.map_filter (\<lambda>x. x) [an_left n, an_right n]"

definition as_node_ok :: "'o arena_store \<Rightarrow> segment_kind \<Rightarrow> arena_node \<Rightarrow> bool" where
  "as_node_ok a kind n \<longleftrightarrow>
     (\<forall>c\<in>set (node_kids n). (\<exists>m. node_from a c = Inr m) \<and> (kind = TemplateSegment \<longrightarrow> in_template_segment a c))
     \<and> (if an_kind n = NKInstantiate
        then an_left n = None \<and> an_right n = None
          \<and> (\<exists>i t. nth_opt (in_instances (st_inner a)) (unat (an_payload_id n)) = Some i
               \<and> template_from a (inst_template i) = Inr t)
        else validate_node_shape (an_kind n) (an_left n) (an_right n) = Inr ())"

definition template_ok :: "'o arena_store \<Rightarrow> 'o store_template \<Rightarrow> bool" where
  "template_ok a t \<longleftrightarrow> (\<exists>n. node_from a (tmpl_root t) = Inr n)
     \<and> (\<exists>s. segment_from a (ref_segment (tmpl_root t)) = Inr s \<and> seg_kind s = TemplateSegment \<and> seg_frozen s)"

definition store_inv :: "'o arena_store \<Rightarrow> bool" where
  "store_inv a \<longleftrightarrow> (\<forall>s\<in>set (in_segments (st_inner a)). \<forall>n\<in>set (seg_nodes s). as_node_ok a (seg_kind s) n)
     \<and> (\<forall>t\<in>set (in_templates (st_inner a)). template_ok a t)"

definition store_small :: "'o arena_store \<Rightarrow> bool" where
  "store_small a \<longleftrightarrow> length (in_segments (st_inner a)) < 2 ^ 32
     \<and> (\<forall>s\<in>set (in_segments (st_inner a)). length (seg_nodes s) < 2 ^ 32)
     \<and> length (in_templates (st_inner a)) < 2 ^ 32 \<and> length (in_instances (st_inner a)) < 2 ^ 32"

lemma as_node_ok_le:
  assumes le: "store_le a b" and ok: "as_node_ok a kind n"
  shows "as_node_ok b kind n"
proof -
  have "(\<exists>m. node_from b c = Inr m) \<and> (kind = TemplateSegment \<longrightarrow> in_template_segment b c)"
    if c: "c \<in> set (node_kids n)" for c
  proof -
    from ok c have "\<exists>m. node_from a c = Inr m" and t: "kind = TemplateSegment \<longrightarrow> in_template_segment a c"
      by (auto simp: as_node_ok_def)
    then show ?thesis using node_from_le [OF le] segment_from_le [OF le] unfolding segment_le_def by metis
  qed
  then show ?thesis
    using ok template_from_le [OF le] instance_le [OF le] unfolding as_node_ok_def by (metis (no_types, lifting))
qed

lemma template_ok_le: "store_le a b \<Longrightarrow> template_ok a t \<Longrightarrow> template_ok b t"
  unfolding template_ok_def using node_from_le segment_from_le unfolding segment_le_def by metis

text \<open>
  One step of growth: at most one segment changes, by at most one node, or is new and empty.
\<close>

lemma store_inv_grow:
  assumes inv: "store_inv a" and le: "store_le a b"
    and seg: "\<And>s n. s \<in> set (in_segments (st_inner b)) \<Longrightarrow> n \<in> set (seg_nodes s) \<Longrightarrow>
      (\<exists>s0\<in>set (in_segments (st_inner a)). n \<in> set (seg_nodes s0) \<and> seg_kind s = seg_kind s0) \<or> as_node_ok b (seg_kind s) n"
    and tmpl: "\<And>t. t \<in> set (in_templates (st_inner b)) \<Longrightarrow> t \<in> set (in_templates (st_inner a)) \<or> template_ok b t"
  shows "store_inv b"
proof -
  have "as_node_ok b (seg_kind s) n" if "s \<in> set (in_segments (st_inner b))" "n \<in> set (seg_nodes s)" for s n
    using seg [OF that] inv as_node_ok_le [OF le] by (auto simp: store_inv_def)
  moreover have "template_ok b t" if "t \<in> set (in_templates (st_inner b))" for t
    using tmpl [OF that] inv template_ok_le [OF le] by (auto simp: store_inv_def)
  ultimately show ?thesis by (simp add: store_inv_def)
qed

lemma create_segment_grows:
  assumes "create_segment kind a = (sid, b)"
  shows "store_le a b" "store_inv a \<Longrightarrow> store_inv b" "store_small b \<Longrightarrow>
    segment_from b sid = Inr \<lparr>seg_kind = kind, seg_frozen = False, seg_nodes = []\<rparr>"
proof -
  have b: "b = a\<lparr>st_inner := (st_inner a)\<lparr>in_segments := in_segments (st_inner a) @
            [\<lparr>seg_kind = kind, seg_frozen = False, seg_nodes = []\<rparr>]\<rparr>\<rparr>"
    and sid: "sid = \<lparr>sid_store = st_id a, sid_index = of_nat (length (in_segments (st_inner a)))\<rparr>"
    using assms by (auto simp: create_segment_def Let_def)
  show le: "store_le a b" by (simp add: b store_le_def nth_append)
  show "store_inv b" if "store_inv a" by (rule store_inv_grow [OF that le]) (auto simp: b)
  show "segment_from b sid = Inr \<lparr>seg_kind = kind, seg_frozen = False, seg_nodes = []\<rparr>" if "store_small b"
    using that by (simp add: b sid segment_from_def store_small_def)
qed

lemma segment_mut_le:
  assumes "segment_mut_from a sid f = Inr b" "segment_from a sid = Inr s" "segment_le s (f s)"
  shows "store_le a b" "segment_from b sid = Inr (f s)"
    "in_templates (st_inner b) = in_templates (st_inner a)" "in_instances (st_inner b) = in_instances (st_inner a)"
    "set (in_segments (st_inner b)) \<subseteq> insert (f s) (set (in_segments (st_inner a)))"
    "s \<in> set (in_segments (st_inner a))" "f s \<in> set (in_segments (st_inner b))" "st_id b = st_id a"
proof -
  let ?i = "unat (sid_index sid)" and ?ss = "in_segments (st_inner a)"
  have i: "?i < length ?ss" "?ss ! ?i = s" "sid_store sid = st_id a"
    using assms(2) by (auto simp: segment_from_def split: if_splits)
  then have b: "b = a\<lparr>st_inner := (st_inner a)\<lparr>in_segments := ?ss[?i := f s]\<rparr>\<rparr>"
    using assms(1) by (auto simp: segment_mut_from_def res_simps)
  show "store_le a b" using i assms(3) by (auto simp: b store_le_def nth_list_update)
  show "segment_from b sid = Inr (f s)" using i by (simp add: b segment_from_def)
  show "set (in_segments (st_inner b)) \<subseteq> insert (f s) (set ?ss)"
    by (simp add: b set_update_subset_insert)
  show "s \<in> set ?ss" using i by (metis nth_mem)
  show "f s \<in> set (in_segments (st_inner b))" using i by (simp add: b set_update_memI)
qed (use assms in \<open>auto simp: segment_mut_from_def res_simps split: if_splits\<close>)

lemma as_append_grows:
  assumes ap: "as_append sid n a = Inr (r, b)"
  shows "store_le a b" "\<exists>s. segment_from a sid = Inr s \<and> \<not> seg_frozen s"
    "store_small b \<Longrightarrow> node_from b r = Inr n"
    "store_inv a \<Longrightarrow> (\<And>s. segment_from a sid = Inr s \<Longrightarrow> as_node_ok a (seg_kind s) n) \<Longrightarrow> store_inv b"
proof -
  let ?f = "\<lambda>s. s\<lparr>seg_nodes := seg_nodes s @ [n]\<rparr>"
  from ap obtain s where s: "segment_from a sid = Inr s" "\<not> seg_frozen s" "segment_mut_from a sid ?f = Inr b"
      "r = \<lparr>nr_store = st_id a, nr_segment = sid_index sid, nr_index = of_nat (length (seg_nodes s))\<rparr>"
    by (auto simp: as_append_def res_simps split: if_splits)
  have f: "segment_le s (?f s)" using s(2) by (simp add: segment_le_def)
  note mut = segment_mut_le [OF s(3,1) f]
  show le: "store_le a b" by (rule mut(1))
  show "\<exists>s. segment_from a sid = Inr s \<and> \<not> seg_frozen s" using s by blast
  have "ref_segment r = sid" using s(1,4) by (cases sid) (auto simp: ref_segment_def segment_from_def split: if_splits)
  moreover have "length (seg_nodes s) < 2 ^ 32" if "store_small b" using mut(7) that by (auto simp: store_small_def)
  ultimately show "node_from b r = Inr n" if "store_small b"
    using mut(2) s(4) that by (simp add: node_from_def)
  show "store_inv b" if inv: "store_inv a" and ok: "\<And>s. segment_from a sid = Inr s \<Longrightarrow> as_node_ok a (seg_kind s) n"
  proof (rule store_inv_grow [OF inv le])
    fix s' n' assume "s' \<in> set (in_segments (st_inner b))" "n' \<in> set (seg_nodes s')"
    then show "(\<exists>s0\<in>set (in_segments (st_inner a)). n' \<in> set (seg_nodes s0) \<and> seg_kind s' = seg_kind s0)
        \<or> as_node_ok b (seg_kind s') n'"
      using subsetD [OF mut(5), of s'] mut(6) as_node_ok_le [OF le ok [OF s(1)]] by fastforce
  qed (simp add: mut(3))
qed


lemma publish_grows:
  assumes ap: "publish_template_with_owner r schema owner a = Inr (t, b)"
  shows "store_le a b" "store_inv a \<Longrightarrow> store_inv b"
    "store_small b \<Longrightarrow> template_from b t = Inr \<lparr>tmpl_root = r, tmpl_schema_id = schema, tmpl_owner = owner\<rparr>"
    "\<exists>s. segment_from b (ref_segment r) = Inr s \<and> seg_frozen s"
proof -
  let ?f = "\<lambda>s. s\<lparr>seg_frozen := True\<rparr>" and ?t = "\<lparr>tmpl_root = r, tmpl_schema_id = schema, tmpl_owner = owner\<rparr>"
  from ap obtain n s a1 where s: "node_from a r = Inr n" "segment_from a (ref_segment r) = Inr s"
      "seg_kind s = TemplateSegment" "segment_mut_from a (ref_segment r) ?f = Inr a1"
      "t = \<lparr>tid_store = st_id a, tid_index = of_nat (length (in_templates (st_inner a1)))\<rparr>"
      "b = a1\<lparr>st_inner := (st_inner a1)\<lparr>in_templates := in_templates (st_inner a1) @ [?t]\<rparr>\<rparr>"
    by (auto simp: publish_template_with_owner_def res_simps split: if_splits)
  have f: "segment_le s (?f s)" by (simp add: segment_le_def)
  note mut = segment_mut_le [OF s(4,2) f]
  have le1: "store_le a1 b" by (simp add: s(6) store_le_def)
  then show le: "store_le a b" by (rule store_le_trans [OF mut(1)])
  have seg: "segment_from b (ref_segment r) = Inr (?f s)" using mut(2) by (simp add: s(6) segment_from_def split: if_splits)
  then show "\<exists>s. segment_from b (ref_segment r) = Inr s \<and> seg_frozen s" by simp
  show "template_from b t = Inr ?t" if "store_small b"
    using that mut(8) by (simp add: template_from_def s(5,6) store_small_def)
  show "store_inv b" if inv: "store_inv a"
  proof (rule store_inv_grow [OF inv le])
    fix s' n' assume "s' \<in> set (in_segments (st_inner b))" "n' \<in> set (seg_nodes s')"
    then show "(\<exists>s0\<in>set (in_segments (st_inner a)). n' \<in> set (seg_nodes s0) \<and> seg_kind s' = seg_kind s0)
        \<or> as_node_ok b (seg_kind s') n'"
      using subsetD [OF mut(5), of s'] mut(6) by (fastforce simp: s(6))
  next
    fix t' assume "t' \<in> set (in_templates (st_inner b))"
    moreover have "template_ok b ?t" using seg s(3) node_from_le [OF le s(1)] by (simp add: template_ok_def)
    ultimately show "t' \<in> set (in_templates (st_inner a)) \<or> template_ok b t'" using mut(3) by (auto simp: s(6))
  qed
qed

lemma instantiate_grows:
  assumes ap: "as_instantiate sid t env chmask pv a = Inr (r, b)"
  shows "store_le a b" "\<exists>s. segment_from a sid = Inr s \<and> \<not> seg_frozen s" "store_inv a \<Longrightarrow> store_small b \<Longrightarrow> store_inv b"
    "store_small b \<Longrightarrow> node_from b r = Inr \<lparr>an_kind = NKInstantiate, an_left = None, an_right = None,
       an_payload_id = of_nat (length (in_instances (st_inner a))), an_channel_mask = chmask, an_provenance_id = pv\<rparr>"
proof -
  let ?i = "\<lparr>inst_template = t, inst_binding_environment_id = env\<rparr>"
  let ?n = "\<lparr>an_kind = NKInstantiate, an_left = None, an_right = None,
       an_payload_id = of_nat (length (in_instances (st_inner a))), an_channel_mask = chmask, an_provenance_id = pv\<rparr>"
  define a1 where "a1 = a\<lparr>st_inner := (st_inner a)\<lparr>in_instances := in_instances (st_inner a) @ [?i]\<rparr>\<rparr>"
  from ap obtain tm s where s: "template_from a t = Inr tm" "segment_from a sid = Inr s" "\<not> seg_frozen s"
      "segment_mut_from a1 sid (\<lambda>s. s\<lparr>seg_nodes := seg_nodes s @ [?n]\<rparr>) = Inr b"
      "r = \<lparr>nr_store = st_id a, nr_segment = sid_index sid, nr_index = of_nat (length (seg_nodes s))\<rparr>"
    by (auto simp: as_instantiate_def mutable_segment_from_def res_simps Let_def a1_def split: if_splits)
  show "\<exists>s. segment_from a sid = Inr s \<and> \<not> seg_frozen s" using s by blast
  have s1: "segment_from a1 sid = Inr s" using s(2) by (simp add: a1_def segment_from_def split: if_splits)
  have app: "as_append sid ?n a1 = Inr (r, b)" using s1 s(3-5) by (simp add: as_append_def a1_def)
  have le1: "store_le a a1" by (simp add: a1_def store_le_def)
  then show le: "store_le a b" using as_append_grows(1) [OF app] by (rule store_le_trans)
  show "node_from b r = Inr ?n" if "store_small b" using that by (rule as_append_grows(3) [OF app])
  show "store_inv b" if inv: "store_inv a" and small: "store_small b"
  proof (rule as_append_grows(4) [OF app])
    show "store_inv a1" by (rule store_inv_grow [OF inv le1]) (auto simp: a1_def)
    have "prefix (in_instances (st_inner a1)) (in_instances (st_inner b))"
      using as_append_grows(1) [OF app] by (simp add: store_le_def)
    then have "length (in_instances (st_inner a)) < 2 ^ 32"
      using small prefix_length_le by (fastforce simp: store_small_def a1_def)
    moreover have "template_from a1 t = Inr tm" using le1 s(1) by (rule template_from_le)
    ultimately show "as_node_ok a1 (seg_kind s') ?n" for s'
      by (simp add: as_node_ok_def node_kids_def map_filter_simps a1_def)
  qed
qed

section \<open>Steps of the store\<close>

inductive store_step :: "'o arena_store \<Rightarrow> 'o arena_store \<Rightarrow> bool" where
  create: "create_segment kind a = (sid, b) \<Longrightarrow> store_small b \<Longrightarrow> store_step a b"
| atomic: "as_atomic sid payload chmask pv a = Inr (r, b) \<Longrightarrow> store_small b \<Longrightarrow> store_step a b"
| wait: "as_wait sid expression pv a = Inr (r, b) \<Longrightarrow> store_small b \<Longrightarrow> store_step a b"
| source_call: "source_call sid expression a = Inr (r, b) \<Longrightarrow> store_small b \<Longrightarrow> store_step a b"
| compose: "as_compose sid kind l r' pv a = Inr (r, b) \<Longrightarrow> store_small b \<Longrightarrow> store_step a b"
| raw: "append_raw sid kind l r' payload chmask pv a = Inr (r, b) \<Longrightarrow> store_small b \<Longrightarrow> store_step a b"
| publish: "publish_template_with_owner r schema owner a = Inr (t, b) \<Longrightarrow> store_small b \<Longrightarrow> store_step a b"
| instantiate: "as_instantiate sid t env chmask pv a = Inr (r, b) \<Longrightarrow> store_small b \<Longrightarrow> store_step a b"

lemma leaf_ok:
  "kind \<in> {NKAtomic, NKWait, NKSourceCall} \<Longrightarrow> as_node_ok a k \<lparr>an_kind = kind, an_left = None, an_right = None,
     an_payload_id = p, an_channel_mask = c, an_provenance_id = v\<rparr>"
  by (auto simp: as_node_ok_def node_kids_def map_filter_simps validate_node_shape_def)

lemma validate_children_ok:
  assumes "validate_template_children a sid cs = Inr ()" "segment_from a sid = Inr s" "c \<in> set cs"
    "seg_kind s = TemplateSegment"
  shows "in_template_segment a c"
  using assms by (auto simp: validate_template_children_def res_simps split: if_splits)

lemma compose_grows:
  assumes "as_compose sid kind l r' pv a = Inr (r, b)"
  shows "\<exists>c. compose_mask sid l r' a = Inr c \<and> as_append sid (composition_node kind l r' c pv) a = Inr (r, b)"
    "store_inv a \<Longrightarrow> store_inv b"
proof -
  from assms obtain c where k: "kind \<in> {NKAutoSerial, NKStrictSerial, NKParallel}" and c: "compose_mask sid l r' a = Inr c"
    and app: "as_append sid (composition_node kind l r' c pv) a = Inr (r, b)"
    by (auto simp: as_compose_def res_simps split: if_splits)
  then show "\<exists>c. compose_mask sid l r' a = Inr c \<and> as_append sid (composition_node kind l r' c pv) a = Inr (r, b)" by blast
  from c have v: "validate_template_children a sid [l, r'] = Inr ()" "\<exists>n. node_from a l = Inr n" "\<exists>n. node_from a r' = Inr n"
    by (auto simp: compose_mask_def res_simps)
  have "as_node_ok a (seg_kind s) (composition_node kind l r' c pv)" if "segment_from a sid = Inr s" for s
    using k v(2,3) validate_children_ok [OF v(1) that]
    by (auto simp: as_node_ok_def node_kids_def composition_node_def map_filter_simps validate_node_shape_def)
  then show "store_inv b" if "store_inv a" using that by (intro as_append_grows(4) [OF app])
qed

lemma raw_grows:
  assumes "append_raw sid kind l r' payload chmask pv a = Inr (r, b)"
  defines "n \<equiv> \<lparr>an_kind = kind, an_left = l, an_right = r', an_payload_id = payload,
     an_channel_mask = chmask, an_provenance_id = pv\<rparr>"
  shows "as_append sid n a = Inr (r, b)" "store_inv a \<Longrightarrow> store_inv b"
proof -
  let ?cs = "List.map_filter (\<lambda>x. x) [l, r']"
  from assms(1) have k: "kind \<noteq> NKInstantiate" "validate_node_shape kind l r' = Inr ()"
    and kids: "\<forall>c\<in>set ?cs. \<exists>n. node_from a c = Inr n"
    by (auto simp: append_raw_def res_simps Let_def split: if_splits)
  show app: "as_append sid n a = Inr (r, b)"
    using assms(1) by (auto simp: append_raw_def res_simps Let_def n_def split: if_splits)
  have "in_template_segment a c" if s: "segment_from a sid = Inr s" "seg_kind s = TemplateSegment" and c: "c \<in> set ?cs" for s c
  proof (cases "l = None \<or> r' = None")
    case True
    then show ?thesis using assms(1) s c
      by (cases l; cases r') (auto simp: append_raw_def res_simps Let_def map_filter_simps split: if_splits)
  next
    case False
    then obtain x y where xy: "l = Some x" "r' = Some y" by auto
    then have "validate_template_children a sid [x, y] = Inr ()"
      using assms(1) by (auto simp: append_raw_def res_simps Let_def split: if_splits)
    then show ?thesis using validate_children_ok [OF _ s(1) _ s(2), of "[x, y]"] c xy by (simp add: map_filter_simps)
  qed
  then have "as_node_ok a (seg_kind s) n" if "segment_from a sid = Inr s" for s
    using that k kids by (auto simp: as_node_ok_def node_kids_def n_def)
  then show "store_inv b" if "store_inv a" using that by (intro as_append_grows(4) [OF app])
qed

lemma step_grows:
  assumes "store_step a b"
  shows "store_le a b" "store_inv a \<Longrightarrow> store_inv b"
proof -
  from assms show "store_le a b"
    by cases (auto simp: as_atomic_def as_wait_def source_call_def
        dest: create_segment_grows(1) as_append_grows(1) publish_grows(1) instantiate_grows(1) compose_grows(1) raw_grows(1))
  from assms show "store_inv b" if "store_inv a"
  proof cases
    case (create kind sid)
    show ?thesis using create(1) that by (rule create_segment_grows(2))
  next
    case (publish r schema owner t)
    show ?thesis using publish(1) that by (rule publish_grows(2))
  next
    case (instantiate sid t env chmask pv r)
    show ?thesis using instantiate(1) that instantiate(2) by (rule instantiate_grows(3))
  next
    case (compose sid kind l r' pv r)
    show ?thesis using compose(1) that by (rule compose_grows(2))
  next
    case (raw sid kind l r' payload chmask pv r)
    show ?thesis using raw(1) that by (rule raw_grows(2))
  qed (use that in \<open>auto simp: as_atomic_def as_wait_def source_call_def intro!: leaf_ok dest!: as_append_grows(4)\<close>)
qed

section \<open>The reachable storage\<close>

text \<open>The nodes of the program with a given root: through both children, and from an instantiation to its template.\<close>

inductive in_program :: "'o arena_store \<Rightarrow> node_ref \<Rightarrow> node_ref \<Rightarrow> bool" for a root where
  at_root: "in_program a root root"
| at_left: "in_program a root r \<Longrightarrow> node_from a r = Inr n \<Longrightarrow> an_left n = Some c \<Longrightarrow> in_program a root c"
| at_right: "in_program a root r \<Longrightarrow> node_from a r = Inr n \<Longrightarrow> an_right n = Some c \<Longrightarrow> in_program a root c"
| at_template: "in_program a root r \<Longrightarrow> node_from a r = Inr n \<Longrightarrow> an_kind n = NKInstantiate \<Longrightarrow>
    nth_opt (in_instances (st_inner a)) (unat (an_payload_id n)) = Some i \<Longrightarrow> template_from a (inst_template i) = Inr t \<Longrightarrow>
    in_program a root (tmpl_root t)"

definition store_kids :: "'o arena_store \<Rightarrow> node_ref \<Rightarrow> node_ref list" where
  "store_kids a r = (case node_from a r of Inl _ \<Rightarrow> []
     | Inr n \<Rightarrow> (case successors a n of Inl _ \<Rightarrow> [] | Inr next \<Rightarrow> next))"

definition instances_in :: "'o arena_store \<Rightarrow> node_ref set \<Rightarrow> node_ref set" where
  "instances_in a S = {r \<in> S. \<exists>n. node_from a r = Inr n \<and> an_kind n = NKInstantiate}"

lemma node_from_member:
  assumes "node_from a r = Inr n"
  shows "\<exists>s\<in>set (in_segments (st_inner a)). n \<in> set (seg_nodes s)"
proof -
  from assms obtain s where "segment_from a (ref_segment r) = Inr s" "n \<in> set (seg_nodes s)"
    by (auto simp: node_from_def res_simps)
  moreover from this have "s \<in> set (in_segments (st_inner a))" by (auto simp: segment_from_def split: if_splits)
  ultimately show ?thesis by blast
qed

lemma template_from_member: "template_from a t = Inr x \<Longrightarrow> x \<in> set (in_templates (st_inner a))"
  by (auto simp: template_from_def split: if_splits)

lemma successors_ok:
  assumes inv: "store_inv a" and n: "node_from a r = Inr n"
  shows "successors a n = Inr (store_kids a r) \<and> set (store_kids a r) \<subseteq> valid_refs a"
proof -
  from inv node_from_member [OF n] obtain k where ok: "as_node_ok a k n" by (auto simp: store_inv_def)
  then have kids: "set (node_kids n) \<subseteq> valid_refs a" by (auto simp: as_node_ok_def valid_refs_def)
  show ?thesis
  proof (cases "an_kind n = NKInstantiate")
    case True
    with ok obtain i t where it: "nth_opt (in_instances (st_inner a)) (unat (an_payload_id n)) = Some i"
      "template_from a (inst_template i) = Inr t" by (auto simp: as_node_ok_def)
    have "template_ok a t" using inv template_from_member [OF it(2)] by (simp add: store_inv_def)
    then have "tmpl_root t \<in> valid_refs a" by (auto simp: template_ok_def valid_refs_def)
    moreover have "successors a n = Inr (rev (node_kids n @ [tmpl_root t]))"
      using True it(2) by (simp only: successors_def Let_def node_kids_def it(1)) simp
    ultimately show ?thesis using kids n by (simp add: store_kids_def)
  next
    case False
    then have "successors a n = Inr (rev (node_kids n))" by (simp add: successors_def node_kids_def Let_def)
    then show ?thesis using kids n by (simp add: store_kids_def)
  qed
qed

lemma set_node_kids: "set (node_kids n) = {c. an_left n = Some c \<or> an_right n = Some c}"
  by (auto simp: node_kids_def map_filter_simps split: option.splits)

lemma set_store_kids:
  assumes inv: "store_inv a" and n: "node_from a r = Inr n"
  shows "set (store_kids a r) = {c. an_left n = Some c \<or> an_right n = Some c}
    \<union> {tmpl_root t | i t. an_kind n = NKInstantiate \<and> nth_opt (in_instances (st_inner a)) (unat (an_payload_id n)) = Some i
         \<and> template_from a (inst_template i) = Inr t}"
proof (cases "an_kind n = NKInstantiate")
  case True
  from inv node_from_member [OF n] obtain k where "as_node_ok a k n" by (auto simp: store_inv_def)
  with True obtain i t where it: "nth_opt (in_instances (st_inner a)) (unat (an_payload_id n)) = Some i"
    "template_from a (inst_template i) = Inr t" by (auto simp: as_node_ok_def)
  then have "successors a n = Inr (rev (node_kids n @ [tmpl_root t]))"
    using True by (simp only: successors_def Let_def node_kids_def) simp
  then have "set (store_kids a r) = set (node_kids n) \<union> {tmpl_root t}"
    using n by (auto simp: store_kids_def)
  then show ?thesis using True it by (auto simp: set_node_kids)
next
  case False
  then have "successors a n = Inr (rev (node_kids n))" by (simp add: successors_def node_kids_def Let_def)
  then have "set (store_kids a r) = set (node_kids n)" using n by (simp add: store_kids_def)
  then show ?thesis using False by (simp add: set_node_kids)
qed

lemma in_program_reachable:
  assumes "store_inv a"
  shows "{q. in_program a r q} = reachable_from (store_kids a) {r}"
proof
  have "q \<in> reachable_from (store_kids a) {r}" if "in_program a r q" for q
    using that
  proof induction
    case at_root
    show ?case by (rule reachable_from.root) simp
  next
    case (at_left q n c)
    then show ?case using set_store_kids [OF assms at_left.hyps(2)] by (intro reachable_from.kid [OF at_left.IH]) auto
  next
    case (at_right q n c)
    then show ?case using set_store_kids [OF assms at_right.hyps(2)] by (intro reachable_from.kid [OF at_right.IH]) auto
  next
    case (at_template q n i t)
    then show ?case using set_store_kids [OF assms at_template.hyps(2)] by (intro reachable_from.kid [OF at_template.IH]) auto
  qed
  then show "{q. in_program a r q} \<subseteq> reachable_from (store_kids a) {r}" by blast
  show "reachable_from (store_kids a) {r} \<subseteq> {q. in_program a r q}"
  proof (rule reachable_least)
    show "{r} \<subseteq> {q. in_program a r q}" by (simp add: in_program.at_root)
    fix i j assume i: "i \<in> {q. in_program a r q}" and j: "j \<in> set (store_kids a i)"
    then obtain n where n: "node_from a i = Inr n" by (cases "node_from a i") (auto simp: store_kids_def)
    show "j \<in> {q. in_program a r q}"
      using i j unfolding set_store_kids [OF assms n]
      by (auto intro: in_program.at_left [OF _ n] in_program.at_right [OF _ n] in_program.at_template [OF _ n])
  qed
qed

lemma stats_loop_correct:
  assumes "store_inv a" "set stack \<subseteq> valid_refs a" "seen \<subseteq> valid_refs a"
    and "\<forall>r\<in>seen. set (store_kids a r) \<subseteq> seen \<union> set stack" "k = card (instances_in a seen)"
  shows "stats_loop a seen stack k = (let S = seen \<union> reachable_from (store_kids a) (set stack)
     in Inr (S, card (instances_in a S)))"
  using assms
proof (induction a seen stack k rule: stats_loop.induct)
  case (1 a seen k)
  then show ?case by simp
next
  case (2 a seen r stack k)
  show ?case
  proof (cases "r \<in> seen")
    case True
    moreover have "\<forall>r\<in>seen. set (store_kids a r) \<subseteq> seen \<union> set stack" using "2.prems"(4) True by auto
    ultimately show ?thesis
      using "2.IH"(1) "2.prems" reachable_seen [OF True, of "store_kids a" "set stack"] by simp
  next
    case False
    from "2.prems"(2) obtain n where n: "node_from a r = Inr n" by (auto simp: valid_refs_def)
    note next' = successors_ok [OF "2.prems"(1) n]
    have fin: "finite (instances_in a seen)"
      using finite_subset [OF "2.prems"(3) finite_valid_refs] by (simp add: instances_in_def)
    have "instances_in a (insert r seen) = (if an_kind n = NKInstantiate then insert r (instances_in a seen) else instances_in a seen)"
      using n by (auto simp: instances_in_def)
    moreover have "r \<notin> instances_in a seen" using False by (simp add: instances_in_def)
    ultimately have k: "k + (if an_kind n = NKInstantiate then 1 else 0) = card (instances_in a (insert r seen))"
      using "2.prems"(5) fin by simp
    have "stats_loop a (insert r seen) (store_kids a r @ stack) (k + (if an_kind n = NKInstantiate then 1 else 0))
        = (let S = insert r seen \<union> reachable_from (store_kids a) (set (store_kids a r @ stack))
           in Inr (S, card (instances_in a S)))"
      using next' "2.prems"(2-4) k by (intro "2.IH"(2) [OF False n _ "2.prems"(1)]) auto
    then show ?thesis
      using False n next' reachable_visit [of "store_kids a" r "set stack"] by simp
  qed
qed

lemma frozen_segment_le:
  "store_le a b \<Longrightarrow> segment_from a sid = Inr s \<Longrightarrow> seg_frozen s \<Longrightarrow> segment_from b sid = Inr s"
  using segment_from_le by (fastforce simp: segment_le_def)

lemma steps_grow:
  assumes "store_step\<^sup>*\<^sup>* a b"
  shows "store_le a b" "store_inv a \<Longrightarrow> store_inv b"
proof -
  from assms have "store_le a b \<and> (store_inv a \<longrightarrow> store_inv b)"
  proof induction
    case (step b c)
    then show ?case using step_grows [OF step.hyps(2)] store_le_trans [of a b c] by simp
  qed simp
  then show "store_le a b" "store_inv a \<Longrightarrow> store_inv b" by simp_all
qed

lemma new_store_inv: "store_inv (fst (store_new i))"
  by (simp add: store_new_def store_inv_def)

section \<open>Properties\<close>

text \<open>
  C35. In every store that the operations can produce from a new one, every child of a node resolves,
  nodes of template segments have only children in template segments, every node has the children its
  kind demands, instantiations resolve to a template, and the root of every template resolves inside a
  frozen template segment.
\<close>

theorem segment_store_invariant:
  assumes "store_step\<^sup>*\<^sup>* (fst (store_new i)) b"
  shows "store_inv b"
  using assms new_store_inv by (rule steps_grow(2))

text \<open>A template of one atomic node, published and instantiated in a program segment.\<close>

definition template_store :: "unit arena_store" where
  "template_store = snd (projr (as_atomic \<lparr>sid_store = 1, sid_index = 0\<rparr> 5 3 0
     (snd (create_segment TemplateSegment (fst (store_new 1))))))"

definition atom_ref :: node_ref where
  "atom_ref = \<lparr>nr_store = 1, nr_segment = 0, nr_index = 0\<rparr>"

definition published_store :: "unit arena_store" where
  "published_store = snd (projr (publish_template_with_owner atom_ref 9 () template_store))"

definition program_store :: "unit arena_store" where
  "program_store = snd (projr (as_instantiate \<lparr>sid_store = 1, sid_index = 1\<rparr> \<lparr>tid_store = 1, tid_index = 0\<rparr> 0 3 0
     (snd (create_segment ProgramSegment published_store))))"

definition instance_ref :: node_ref where
  "instance_ref = \<lparr>nr_store = 1, nr_segment = 1, nr_index = 0\<rparr>"

lemmas store_eval = template_store_def published_store_def program_store_def atom_ref_def instance_ref_def
  store_new_def create_segment_def as_atomic_def as_append_def publish_template_with_owner_def as_instantiate_def
  segment_from_def segment_mut_from_def mutable_segment_from_def node_from_def template_from_def ref_segment_def
  nth_opt_def Let_def

lemma store_runs:
  "store_step\<^sup>*\<^sup>* (fst (store_new 1)) template_store" "store_step\<^sup>*\<^sup>* template_store program_store"
proof -
  let ?s1 = "snd (create_segment TemplateSegment (fst (store_new 1))) :: unit arena_store"
  let ?s4 = "snd (create_segment ProgramSegment published_store)"
  have "store_step (fst (store_new 1)) ?s1"
    by (rule store_step.create [of TemplateSegment _ "\<lparr>sid_store = 1, sid_index = 0\<rparr>"])
      (simp_all add: store_eval store_small_def)
  moreover have "store_step ?s1 template_store"
    by (rule store_step.atomic [of "\<lparr>sid_store = 1, sid_index = 0\<rparr>" 5 3 0 _ atom_ref])
      (simp_all add: store_eval store_small_def)
  ultimately show "store_step\<^sup>*\<^sup>* (fst (store_new 1)) template_store" by simp
  have "store_step template_store published_store"
    by (rule store_step.publish [of atom_ref 9 "()" _ "\<lparr>tid_store = 1, tid_index = 0\<rparr>"])
      (simp_all add: store_eval store_small_def)
  moreover have "store_step published_store ?s4"
    by (rule store_step.create [of ProgramSegment _ "\<lparr>sid_store = 1, sid_index = 1\<rparr>"])
      (simp_all add: store_eval store_small_def)
  moreover have "store_step ?s4 program_store"
    by (rule store_step.instantiate [of "\<lparr>sid_store = 1, sid_index = 1\<rparr>" "\<lparr>tid_store = 1, tid_index = 0\<rparr>" 0 3 0 _ instance_ref])
      (simp_all add: store_eval store_small_def)
  ultimately show "store_step\<^sup>*\<^sup>* template_store program_store"
    by (blast intro: rtranclp.rtrancl_into_rtrancl)
qed

lemma store_runs_new: "store_step\<^sup>*\<^sup>* (fst (store_new 1)) program_store"
  using store_runs by (rule rtranclp_trans)

theorem segment_store_invariant_witness: "store_inv program_store"
  by (rule segment_store_invariant [OF store_runs_new])

text \<open>
  What is stored stays: along every sequence of operations a reference goes on resolving to the same
  node, a template id to the same template, and a frozen segment, in particular the segment of a
  published template, never changes.
\<close>

theorem segment_store_stable:
  assumes "store_step\<^sup>*\<^sup>* a b"
  shows "(node_from a r = Inr n \<longrightarrow> node_from b r = Inr n)
    \<and> (template_from a t = Inr x \<longrightarrow> template_from b t = Inr x)
    \<and> (segment_from a sid = Inr s \<and> seg_frozen s \<longrightarrow> segment_from b sid = Inr s)"
  using node_from_le template_from_le frozen_segment_le steps_grow(1) [OF assms] by blast

theorem segment_store_stable_witness:
  "\<exists>n. node_from template_store atom_ref = Inr n \<and> node_from program_store atom_ref = Inr n"
proof -
  have "\<exists>n. node_from template_store atom_ref = Inr n" by (simp add: store_eval)
  with segment_store_stable [OF store_runs(2), of atom_ref] show ?thesis by blast
qed

text \<open>
  C37. \<open>compose\<close> is safe although it releases the read lock before it takes the write lock: if other
  operations run in between, a node that is appended with the mask computed before is the node that
  \<open>compose\<close> would append to the store as it is then, so its mask is the union of its children's masks.
\<close>

theorem segment_compose_interleaved:
  assumes "compose_mask sid l r a = Inr c" "store_step\<^sup>*\<^sup>* a b"
    and "kind \<in> {NKAutoSerial, NKStrictSerial, NKParallel}"
  shows "compose_mask sid l r b = Inr c
    \<and> as_append sid (composition_node kind l r c pv) b = as_compose sid kind l r pv b"
proof -
  have le: "store_le a b" using assms(2) by (rule steps_grow(1))
  from assms(1) obtain x y where n: "node_from a l = Inr x" "node_from a r = Inr y"
    and v: "validate_template_children a sid [l, r] = Inr ()" and c: "c = or (an_channel_mask x) (an_channel_mask y)"
    by (auto simp: compose_mask_def res_simps)
  from v obtain s where s: "segment_from a sid = Inr s" by (auto simp: validate_template_children_def res_simps)
  from segment_from_le [OF le s] obtain s' where s': "segment_from b sid = Inr s'" "seg_kind s' = seg_kind s"
    by (auto simp: segment_le_def)
  have "in_template_segment b d" if "d \<in> {l, r}" "seg_kind s = TemplateSegment" for d
    using validate_children_ok [OF v s, of d] that segment_from_le [OF le] unfolding segment_le_def by fastforce
  then have "validate_template_children b sid [l, r] = Inr ()"
    using s' by (auto simp: validate_template_children_def res_simps)
  then have "compose_mask sid l r b = Inr c"
    using node_from_le [OF le] n c by (simp add: compose_mask_def)
  then show ?thesis using assms(3) by (auto simp: as_compose_def)
qed

theorem segment_compose_interleaved_witness:
  "compose_mask \<lparr>sid_store = 1, sid_index = 0\<rparr> atom_ref atom_ref program_store = Inr 3
    \<and> as_append \<lparr>sid_store = 1, sid_index = 0\<rparr> (composition_node NKParallel atom_ref atom_ref 3 7) program_store
      = as_compose \<lparr>sid_store = 1, sid_index = 0\<rparr> NKParallel atom_ref atom_ref 7 program_store"
proof -
  have "compose_mask \<lparr>sid_store = 1, sid_index = 0\<rparr> atom_ref atom_ref template_store = Inr 3"
    by (simp add: compose_mask_def validate_template_children_def store_eval)
  from segment_compose_interleaved [OF this store_runs(2), of NKParallel] show ?thesis by simp
qed

text \<open>
  C36. The statistics of a frozen program never fail and always terminate: the storage count is the
  number of nodes that are reached from the root through left and right children and through the
  templates of instantiations, the instance count the number of instantiations among them.
\<close>

theorem segment_reachable_stats_exact:
  assumes "store_step\<^sup>*\<^sup>* (fst (store_new i)) a" "freeze_with_owner r owner a = Inr p"
  shows "reachable_stats p = Inr (card {q. in_program a r q},
    card {q. in_program a r q \<and> (\<exists>n. node_from a q = Inr n \<and> an_kind n = NKInstantiate)})"
proof -
  have inv: "store_inv a" using assms(1) new_store_inv by (rule steps_grow(2))
  let ?S = "reachable_from (store_kids a) {r}"
  have p: "fp_store p = a" "fp_root p = r" "r \<in> valid_refs a"
    using assms(2) by (auto simp: freeze_with_owner_def valid_refs_def res_simps)
  then have "stats_loop a {} [r] 0 = Inr (?S, card (instances_in a ?S))"
    using stats_loop_correct [OF inv, of "[r]" "{}" 0] by (simp add: instances_in_def Let_def)
  then have "reachable_stats p = Inr (card ?S, card (instances_in a ?S))" using p by (simp add: reachable_stats_def)
  then show ?thesis unfolding in_program_reachable [OF inv, symmetric] instances_in_def mem_Collect_eq .
qed

text \<open>The instantiation composed with an atomic node of the program segment.\<close>

definition second_store :: "unit arena_store" where
  "second_store = snd (projr (as_atomic \<lparr>sid_store = 1, sid_index = 1\<rparr> 6 4 0 program_store))"

definition second_ref :: node_ref where
  "second_ref = \<lparr>nr_store = 1, nr_segment = 1, nr_index = 1\<rparr>"

definition composed_store :: "unit arena_store" where
  "composed_store = snd (projr (as_compose \<lparr>sid_store = 1, sid_index = 1\<rparr> NKParallel instance_ref second_ref 0 second_store))"

definition composed_ref :: node_ref where
  "composed_ref = \<lparr>nr_store = 1, nr_segment = 1, nr_index = 2\<rparr>"

lemmas composed_eval = store_eval second_store_def second_ref_def composed_store_def composed_ref_def as_compose_def
  compose_mask_def validate_template_children_def composition_node_def

lemma composed_runs: "store_step\<^sup>*\<^sup>* (fst (store_new 1)) composed_store"
proof -
  have "store_step program_store second_store"
    by (rule store_step.atomic [of "\<lparr>sid_store = 1, sid_index = 1\<rparr>" 6 4 0 _ second_ref])
      (simp_all add: composed_eval store_small_def)
  moreover have "store_step second_store composed_store"
    by (rule store_step.compose [of "\<lparr>sid_store = 1, sid_index = 1\<rparr>" NKParallel instance_ref second_ref 0 _ composed_ref])
      (simp_all add: composed_eval store_small_def)
  ultimately show ?thesis using store_runs_new by (blast intro: rtranclp.rtrancl_into_rtrancl)
qed

lemma composed_nodes:
  "{q. in_program composed_store composed_ref q} = {composed_ref, instance_ref, second_ref, atom_ref}"
proof -
  have inv: "store_inv composed_store" by (rule steps_grow(2) [OF composed_runs new_store_inv])
  have "store_kids composed_store composed_ref = [second_ref, instance_ref]" "store_kids composed_store instance_ref = [atom_ref]"
    "store_kids composed_store second_ref = []" "store_kids composed_store atom_ref = []"
    by (simp_all add: store_kids_def successors_def composed_eval map_filter_simps)
  then show ?thesis
    unfolding in_program_reachable [OF inv] by (auto simp: reachable_visit insert_commute)
qed

theorem segment_reachable_stats_exact_witness:
  "\<exists>p. freeze_with_owner composed_ref () composed_store = Inr p \<and> reachable_stats p = Inr (4, 1)
     \<and> {q. in_program composed_store composed_ref q} = {composed_ref, instance_ref, second_ref, atom_ref}"
proof -
  have "\<exists>p. freeze_with_owner composed_ref () composed_store = Inr p" by (simp add: freeze_with_owner_def composed_eval)
  then obtain p where p: "freeze_with_owner composed_ref () composed_store = Inr p" by blast
  have "{q. in_program composed_store composed_ref q \<and> (\<exists>n. node_from composed_store q = Inr n \<and> an_kind n = NKInstantiate)}
      = {q \<in> {composed_ref, instance_ref, second_ref, atom_ref}. \<exists>n. node_from composed_store q = Inr n \<and> an_kind n = NKInstantiate}"
    using composed_nodes by auto
  also have "\<dots> = {instance_ref}" by (auto simp: composed_eval)
  finally have inst: "card {q. in_program composed_store composed_ref q
      \<and> (\<exists>n. node_from composed_store q = Inr n \<and> an_kind n = NKInstantiate)} = 1" by simp
  have "card {q. in_program composed_store composed_ref q} = 4"
    unfolding composed_nodes by (simp add: composed_ref_def instance_ref_def second_ref_def atom_ref_def)
  with segment_reachable_stats_exact [OF composed_runs p] inst have "reachable_stats p = Inr (4, 1)" by simp
  with p composed_nodes show ?thesis by blast
qed

text \<open>
  The one-byte codes of node kinds round-trip: every kind is read back from its code, and every byte
  that is accepted is the code of the kind it gives.
\<close>

theorem node_kind_roundtrip:
  "node_kind_try_from (node_kind_repr k) = Inr k \<and> (node_kind_try_from v = Inr k \<longrightarrow> node_kind_repr k = v)"
  by (cases k) (auto simp: node_kind_try_from_def split: if_splits)


theorem node_kind_roundtrip_witness:
  "node_kind_try_from 11 = Inr NKInstantiate \<and> node_kind_repr NKInstantiate = 11"
proof -
  have "node_kind_try_from 11 = Inr NKInstantiate" by (simp add: node_kind_try_from_def)
  with node_kind_roundtrip [of NKInstantiate 11] show ?thesis by blast
qed

end

