(* ===== verification/Arena_Soundness.thy ===== *)
theory Arena_Soundness
  imports Arena_Lowering Source_Example Segment_Soundness
begin

text \<open>
  Lowering of a well-formed sequence into the store: it returns, it is refused exactly for an expression that is not a
  morphism, and the node of an expression represents the morphism that the expression describes.
\<close>

section \<open>The morphisms of a sequence\<close>

definition is_morphism :: "sequence_hir \<Rightarrow> expression_id \<Rightarrow> bool" where
  "is_morphism hir e \<longleftrightarrow> (case kind_at hir e of Some (HCall _ _ _) \<Rightarrow> True | Some (HCompose _ _ _) \<Rightarrow> True | _ \<Rightarrow> False)"

definition applies_dictionary :: "sequence_hir \<Rightarrow> composition_kind \<Rightarrow> expression_id \<Rightarrow> bool" where
  "applies_dictionary hir kind right \<longleftrightarrow> kind = AutoSerial \<and> (\<exists>entries. kind_at hir right = Some (HDictionary entries))"

definition morphism_operands :: "sequence_hir \<Rightarrow> expression_id \<Rightarrow> expression_id list" where
  "morphism_operands hir e =
     (case kind_at hir e of
        Some (HCompose kind left right) \<Rightarrow> if applies_dictionary hir kind right then [left] else [left, right]
      | _ \<Rightarrow> [])"

definition morphisms_of :: "sequence_hir \<Rightarrow> expression_id set" where
  "morphisms_of hir = reachable_from (morphism_operands hir) {hir_root hir}"

abbreviation in_hir :: "sequence_hir \<Rightarrow> expression_id \<Rightarrow> bool" where
  "in_hir hir e \<equiv> unat e < length (hir_expressions hir)"

text \<open>The refusal of one of the expressions.\<close>

definition non_morphism_in :: "sequence_hir \<Rightarrow> expression_id set \<Rightarrow> arena_lowering_error \<Rightarrow> bool" where
  "non_morphism_in hir es err \<longleftrightarrow> (\<exists>e\<in>es. in_hir hir e \<and> \<not> is_morphism hir e
     \<and> err = NonMorphism (hir_kind_name (he_kind (hir_expressions hir ! unat e))) (he_span (hir_expressions hir ! unat e)))"

lemma non_morphism_mono: "non_morphism_in hir es err \<Longrightarrow> es \<subseteq> fs \<Longrightarrow> non_morphism_in hir fs err"
  by (auto simp: non_morphism_in_def)

lemma kind_at_in: "in_hir hir e \<Longrightarrow> kind_at hir e = Some (he_kind (hir_expressions hir ! unat e))"
  by (simp add: kind_at_def)

lemma operand_smaller:
  assumes "hir_wf hir" "kind_at hir e = Some kind" "c \<in> set (hir_children kind)"
  shows "unat c < unat e" "in_hir hir c"
  using assms by (auto simp: kind_at_def hir_wf_def operands_earlier_def intro: less_trans)

lemma morphism_operand_smaller:
  assumes "hir_wf hir" "c \<in> set (morphism_operands hir e)"
  shows "unat c < unat e" "in_hir hir c"
proof -
  obtain kind l r where "kind_at hir e = Some (HCompose kind l r)" "c \<in> {l, r}"
    using assms(2) unfolding morphism_operands_def
    by (cases "kind_at hir e"; cases "the (kind_at hir e)") (auto split: if_splits)
  then show "unat c < unat e" "in_hir hir c" using operand_smaller [OF assms(1)] by auto
qed

lemma morphism_successors_exact:
  assumes "hir_wf hir" "in_hir hir e"
  shows "morphism_successors hir (he_kind (hir_expressions hir ! unat e)) =
    Some (if is_morphism hir e then Some (morphism_operands hir e) else None)"
proof (cases "he_kind (hir_expressions hir ! unat e)")
  case (HCompose kind l r)
  then have kind: "kind_at hir e = Some (HCompose kind l r)" using assms(2) by (simp add: kind_at_in)
  then have "in_hir hir r" using operand_smaller(2) [OF assms(1) kind] by simp
  then show ?thesis
    by (auto simp: morphism_successors_def is_morphism_def morphism_operands_def applies_dictionary_def kind HCompose kind_at_in
        split: hir_kind.splits)
qed (simp_all add: morphism_successors_def is_morphism_def morphism_operands_def kind_at_in [OF assms(2)])

lemma validate_graph_loop_exact:
  assumes "hir_wf hir" "length seen = length (hir_expressions hir)" "\<forall>e\<in>set stack. in_hir hir e"
    and "\<forall>e. unat e \<in> marked seen \<longrightarrow> is_morphism hir e \<and> set (morphism_operands hir e) \<subseteq> {c. unat c \<in> marked seen} \<union> set stack"
  shows "\<exists>r. validate_graph_loop hir seen stack = Some r
    \<and> (r = Inr () \<longrightarrow> (\<forall>e\<in>{e. unat e \<in> marked seen} \<union> reachable_from (morphism_operands hir) (set stack). is_morphism hir e))
    \<and> (\<forall>err. r = Inl err \<longrightarrow> non_morphism_in hir (reachable_from (morphism_operands hir) (set stack)) err)"
  using assms
proof (induction hir seen stack rule: validate_graph_loop.induct)
  case (1 hir seen)
  then show ?case by simp
next
  case (2 hir seen e stack)
  then have e: "in_hir hir e" "\<not> length seen \<le> unat e" by auto
  let ?ops = "morphism_operands hir" and ?S = "{c. unat c \<in> marked seen}"
  show ?case
  proof (cases "seen ! unat e")
    case True
    then have seen: "e \<in> ?S" using e 2 by (simp add: marked_def)
    have closed: "\<forall>c\<in>?S. set (?ops c) \<subseteq> ?S \<union> set stack" using "2.prems"(4) seen by auto
    note step = reachable_seen [OF seen closed]
    have sub: "reachable_from ?ops (set stack) \<subseteq> reachable_from ?ops (set (e # stack))"
      by (rule reachable_least) (auto intro: reachable_from.intros)
    have "\<forall>c. unat c \<in> marked seen \<longrightarrow> is_morphism hir c \<and> set (?ops c) \<subseteq> ?S \<union> set stack"
      using "2.prems"(4) closed by blast
    moreover have "\<forall>c\<in>set stack. in_hir hir c" using "2.prems"(3) by simp
    ultimately obtain r where r: "validate_graph_loop hir seen stack = Some r"
      "r = Inr () \<longrightarrow> (\<forall>c\<in>?S \<union> reachable_from ?ops (set stack). is_morphism hir c)"
      "\<forall>err. r = Inl err \<longrightarrow> non_morphism_in hir (reachable_from ?ops (set stack)) err"
      using "2.IH"(1) [OF e(2) True "2.prems"(1,2)] by blast
    then have "validate_graph_loop hir seen (e # stack) = Some r" using e True by simp
    then show ?thesis using r(2,3) step non_morphism_mono [OF _ sub] by (metis list.simps(15))
  next
    case False
    let ?seen = "seen[unat e := True]" and ?stack = "rev (?ops e) @ stack"
    have mk: "marked ?seen = insert (unat e) (marked seen)" using e by (intro marked_update) simp
    have insert: "{c. unat c \<in> marked ?seen} = insert e ?S" by (auto simp: mk simp flip: word_unat_eq_iff)
    have visit: "reachable_from ?ops (set (e # stack)) = insert e (reachable_from ?ops (set ?stack))"
      using reachable_visit [of ?ops e "set stack"] by simp
    show ?thesis
    proof (cases "is_morphism hir e")
      case True
      have "\<forall>c. unat c \<in> marked ?seen \<longrightarrow> is_morphism hir c \<and> set (?ops c) \<subseteq> {c. unat c \<in> marked ?seen} \<union> set ?stack"
        using "2.prems"(4) True by (auto simp: mk simp flip: word_unat_eq_iff)
      moreover have "\<forall>c\<in>set ?stack. in_hir hir c" using morphism_operand_smaller(2) [OF "2.prems"(1)] "2.prems"(3) by auto
      ultimately obtain r where r: "validate_graph_loop hir ?seen ?stack = Some r"
        "r = Inr () \<longrightarrow> (\<forall>c\<in>insert e ?S \<union> reachable_from ?ops (set ?stack). is_morphism hir c)"
        "\<forall>err. r = Inl err \<longrightarrow> non_morphism_in hir (reachable_from ?ops (set ?stack)) err"
        using "2.IH"(2) [OF e(2) False, of "hir_expressions hir ! unat e" "Some (?ops e)" "?ops e"] "2.prems"(1,2) e
        unfolding insert by (auto simp: morphism_successors_exact True)
      have "validate_graph_loop hir seen (e # stack) = Some r"
        using e False True "2.prems"(1) r(1) by (simp add: morphism_successors_exact nth_opt_def)
      moreover have "reachable_from ?ops (set ?stack) \<subseteq> reachable_from ?ops (set (e # stack))" unfolding visit by blast
      ultimately show ?thesis using r(2,3) non_morphism_mono unfolding visit by blast
    next
      case no: False
      then have "validate_graph_loop hir seen (e # stack) =
          Some (Inl (NonMorphism (hir_kind_name (he_kind (hir_expressions hir ! unat e))) (he_span (hir_expressions hir ! unat e))))"
        using e False "2.prems"(1) by (simp add: morphism_successors_exact nth_opt_def)
      then show ?thesis using no e(1) unfolding visit by (auto simp: non_morphism_in_def)
    qed
  qed
qed

lemma validate_morphism_graph_exact:
  assumes "hir_wf hir"
  shows "\<exists>r. validate_morphism_graph hir = Some r \<and> (r = Inr () \<longleftrightarrow> (\<forall>e\<in>morphisms_of hir. is_morphism hir e))
    \<and> (\<forall>err. r = Inl err \<longrightarrow> non_morphism_in hir (morphisms_of hir) err)"
proof -
  obtain r where "validate_morphism_graph hir = Some r"
    "r = Inr () \<longrightarrow> (\<forall>e\<in>morphisms_of hir. is_morphism hir e)"
    "\<forall>err. r = Inl err \<longrightarrow> non_morphism_in hir (morphisms_of hir) err"
    using validate_graph_loop_exact [OF assms, of "replicate (length (hir_expressions hir)) False" "[hir_root hir]"] assms
    by (auto simp: validate_morphism_graph_def morphisms_of_def hir_wf_def)
  moreover have "r = Inr ()" if "\<forall>e\<in>morphisms_of hir. is_morphism hir e"
    using calculation(3) that by (cases r) (auto simp: non_morphism_in_def)
  ultimately show ?thesis by blast
qed

section \<open>What a node represents\<close>

text \<open>
  A call is a leaf that names its expression; a composition has the nodes of its sides; an automatic composition with a
  dictionary is a deferred application of the dictionary, or the left side when the dictionary is empty.
\<close>

inductive represents :: "hir_store \<Rightarrow> sequence_hir \<Rightarrow> expression_id \<Rightarrow> node_ref \<Rightarrow> bool"
  for store :: hir_store and hir :: sequence_hir where
  call: "kind_at hir e = Some (HCall f arguments kws) \<Longrightarrow>
     node_from store r = Inr \<lparr>an_kind = NKSourceCall, an_left = None, an_right = None, an_payload_id = e,
       an_channel_mask = 0, an_provenance_id = e\<rparr> \<Longrightarrow> represents store hir e r"
| aliased: "kind_at hir e = Some (HCompose AutoSerial left right) \<Longrightarrow> kind_at hir right = Some (HDictionary []) \<Longrightarrow>
     represents store hir left r \<Longrightarrow> represents store hir e r"
| deferred: "kind_at hir e = Some (HCompose AutoSerial left right) \<Longrightarrow> kind_at hir right = Some (HDictionary (x # xs)) \<Longrightarrow>
     represents store hir left l \<Longrightarrow>
     node_from store r = Inr \<lparr>an_kind = NKDeferredApply, an_left = Some l, an_right = None, an_payload_id = right,
       an_channel_mask = 0, an_provenance_id = e\<rparr> \<Longrightarrow> represents store hir e r"
| composed: "kind_at hir e = Some (HCompose kind left right) \<Longrightarrow> \<not> applies_dictionary hir kind right \<Longrightarrow>
     represents store hir left l \<Longrightarrow> represents store hir right r' \<Longrightarrow>
     node_from store r = Inr (composition_node (arena_composition_kind kind) l r' 0 e) \<Longrightarrow> represents store hir e r"

lemma represents_le:
  assumes "represents store hir e r" "store_le store store'"
  shows "represents store' hir e r"
  using assms(1)
proof (induction rule: represents.induct)
  case (call e f arguments kws r)
  show ?case by (rule represents.call [OF call(1) node_from_le [OF assms(2) call(2)]])
next
  case (aliased e left right r)
  show ?case by (rule represents.aliased [OF aliased(1,2,4)])
next
  case (deferred e left right x xs l r)
  show ?case by (rule represents.deferred [OF deferred(1,2,5) node_from_le [OF assms(2) deferred(4)]])
next
  case (composed e kind left right l r' r)
  show ?case by (rule represents.composed [OF composed(1,2,6,7) node_from_le [OF assms(2) composed(5)]])
qed

lemma represents_node: "represents store hir e r \<Longrightarrow> \<exists>n. node_from store r = Inr n \<and> an_channel_mask n = 0"
  by (induction rule: represents.induct) (auto simp: composition_node_def)

lemma represents_cong:
  assumes "represents store hir e r" "kind_at hir = kind_at hir'"
  shows "represents store hir' e r"
  using assms(1)
proof (induction rule: represents.induct)
  case (call e f arguments kws r)
  show ?case by (rule represents.call [OF call [unfolded assms(2)]])
next
  case (aliased e left right r)
  show ?case by (rule represents.aliased [OF aliased(1,2) [unfolded assms(2)] aliased(4)])
next
  case (deferred e left right x xs l r)
  show ?case by (rule represents.deferred [OF deferred(1,2) [unfolded assms(2)] deferred(5,4)])
next
  case (composed e kind left right l r' r)
  show ?case by (rule represents.composed
        [OF composed(1) [unfolded assms(2)] composed(2) [unfolded applies_dictionary_def assms(2), folded applies_dictionary_def]
          composed(6,7,5)])
qed

text \<open>Only morphisms are represented, with all that they are built from.\<close>

lemma represents_operands:
  assumes "represents store hir e r"
  shows "is_morphism hir e" "c \<in> set (morphism_operands hir e) \<Longrightarrow> \<exists>r'. represents store hir c r'"
  using assms by (cases; auto simp: is_morphism_def morphism_operands_def applies_dictionary_def split: if_splits)+

lemma represents_morphisms:
  assumes "represents store hir (hir_root hir) r" "e \<in> morphisms_of hir"
  shows "is_morphism hir e"
proof -
  have "morphisms_of hir \<subseteq> {e. \<exists>r. represents store hir e r}"
    unfolding morphisms_of_def by (rule reachable_least) (use assms(1) represents_operands(2) in auto)
  then show ?thesis using assms(2) represents_operands(1) by blast
qed

section \<open>The loop\<close>

text \<open>The segment is open, holds at most one node per lowered expression, and every lowered expression is represented in it.\<close>

definition open_segment :: "hir_store \<Rightarrow> segment_id \<Rightarrow> nat \<Rightarrow> bool" where
  "open_segment store sid n \<longleftrightarrow> (\<exists>s. segment_from store sid = Inr s \<and> \<not> seg_frozen s \<and> seg_kind s = TemplateSegment
     \<and> length (seg_nodes s) \<le> n)"

definition lowered_ok :: "sequence_hir \<Rightarrow> segment_id \<Rightarrow> lowered_nodes \<Rightarrow> hir_store \<Rightarrow> bool" where
  "lowered_ok hir sid lowered store \<longleftrightarrow> open_segment store sid (card (dom lowered))
     \<and> (\<forall>e r. lowered e = Some r \<longrightarrow> in_hir hir e \<and> represents store hir e r \<and> ref_segment r = sid)"

definition same_counts :: "hir_store \<Rightarrow> hir_store \<Rightarrow> bool" where
  "same_counts store store' \<longleftrightarrow> length (in_segments (st_inner store')) = length (in_segments (st_inner store))
     \<and> in_templates (st_inner store') = in_templates (st_inner store)"

lemma append_to_open:
  assumes "open_segment store sid n" "n < 2 ^ 32"
  shows "\<exists>r store'. as_append sid node store = Inr (r, store') \<and> store_le store store' \<and> open_segment store' sid (Suc n)
    \<and> node_from store' r = Inr node \<and> ref_segment r = sid \<and> same_counts store store'"
proof -
  let ?f = "\<lambda>s. s\<lparr>seg_nodes := seg_nodes s @ [node]\<rparr>"
  from assms(1) obtain s where s: "segment_from store sid = Inr s" "\<not> seg_frozen s" "seg_kind s = TemplateSegment"
    "length (seg_nodes s) \<le> n" by (auto simp: open_segment_def)
  then obtain store' where m: "segment_mut_from store sid ?f = Inr store'"
    by (auto simp: segment_from_def segment_mut_from_def split: if_splits)
  have le: "segment_le s (?f s)" using s(2) by (simp add: segment_le_def)
  note mut = segment_mut_le [OF m s(1) le]
  let ?r = "\<lparr>nr_store = st_id store, nr_segment = sid_index sid, nr_index = of_nat (length (seg_nodes s))\<rparr>"
  have "as_append sid node store = Inr (?r, store')" using s m by (simp add: as_append_def)
  moreover have sid: "ref_segment ?r = sid" using s(1) by (cases sid) (auto simp: ref_segment_def segment_from_def split: if_splits)
  moreover have "node_from store' ?r = Inr node"
    using mut(2) assms(2) s(4) by (simp add: node_from_def sid)
  moreover have "open_segment store' sid (Suc n)" using mut(2) s by (simp add: open_segment_def)
  moreover have "same_counts store store'" using m by (auto simp: same_counts_def segment_mut_from_def res_simps split: if_splits)
  ultimately show ?thesis using mut(1) by blast
qed

text \<open>Children in the open segment itself pass the check of template segments.\<close>

lemma open_children:
  assumes "open_segment store sid n" "\<forall>c\<in>set children. ref_segment c = sid"
  shows "validate_template_children store sid children = Inr ()"
  using assms by (auto simp: validate_template_children_def open_segment_def)

lemma lowered_insert:
  assumes "lowered_ok hir sid lowered store" "store_le store store'" "open_segment store' sid (Suc (card (dom lowered)))"
    and "represents store' hir e r" "ref_segment r = sid" "in_hir hir e" "lowered e = None"
  shows "lowered_ok hir sid (lowered(e \<mapsto> r)) store'"
proof -
  have "card (dom (lowered(e \<mapsto> r))) = Suc (card (dom lowered))"
    using assms(7) by (simp add: domIff)
  moreover have "represents store' hir x y" if "lowered x = Some y" for x y
    using assms(1) that represents_le [OF _ assms(2)] by (simp add: lowered_ok_def)
  ultimately show ?thesis using assms(1,3-6) by (auto simp: lowered_ok_def)
qed

definition lower_reaches :: "sequence_hir \<Rightarrow> segment_id \<Rightarrow> work list \<Rightarrow> lowered_nodes \<Rightarrow> hir_store \<Rightarrow> work list
    \<Rightarrow> lowered_nodes \<Rightarrow> hir_store \<Rightarrow> bool" where
  "lower_reaches hir sid items lowered store items' lowered' store' \<longleftrightarrow>
     lower_work_loop hir sid items lowered store = lower_work_loop hir sid items' lowered' store'
     \<and> lowered_ok hir sid lowered' store' \<and> lowered \<subseteq>\<^sub>m lowered' \<and> store_le store store'
     \<and> same_counts store store'"

lemma lower_reaches_trans:
  "lower_reaches hir sid a la sa b lb sb \<Longrightarrow> lower_reaches hir sid b lb sb c lc sc \<Longrightarrow> lower_reaches hir sid a la sa c lc sc"
  unfolding lower_reaches_def same_counts_def using map_le_trans store_le_trans by metis

text \<open>An item that stores the node of a new expression.\<close>

lemma lower_item:
  assumes "lowered_ok hir sid lowered store" "lowered e = None" "in_hir hir e"
    and "lower_work hir sid item lowered store = Some (Inr ([], lowered(e \<mapsto> r), store'))"
    and "store_le store store'" "open_segment store' sid (Suc (card (dom lowered)))" "represents store' hir e r" "ref_segment r = sid"
    and "same_counts store store'"
  shows "lower_reaches hir sid (item # rest) lowered store rest (lowered(e \<mapsto> r)) store'"
proof -
  have "lowered \<subseteq>\<^sub>m lowered(e \<mapsto> r)" using assms(2) by (auto simp: map_le_def)
  moreover have "lower_work_loop hir sid (item # rest) lowered store = lower_work_loop hir sid rest (lowered(e \<mapsto> r)) store'"
    using assms(4) by (subst lower_work_loop.simps) simp
  ultimately show ?thesis using lowered_insert [OF assms(1,5,6,7,8,3,2)] assms(5,9) by (simp add: lower_reaches_def)
qed

lemma lowered_room:
  assumes "lowered_ok hir sid lowered store" "in_hir hir e" "lowered e = None"
  shows "card (dom lowered) < length (hir_expressions hir)"
proof -
  have "unat ` dom lowered \<subseteq> {..<length (hir_expressions hir)} - {unat e}"
    using assms by (force simp: lowered_ok_def simp flip: word_unat_eq_iff)
  then have "card (unat ` dom lowered) \<le> card ({..<length (hir_expressions hir)} - {unat e})" by (intro card_mono) auto
  moreover have "card (unat ` dom lowered) = card (dom lowered)" by (intro card_image inj_onI) (simp add: word_unat_eq_iff)
  ultimately show ?thesis using assms(2) by simp
qed

lemma lower_call_item:
  assumes ok: "lowered_ok hir sid lowered store" and small: "length (hir_expressions hir) < 2 ^ 32"
    and e: "in_hir hir e" "lowered e = None" "kind_at hir e = Some (HCall f arguments kws)"
  shows "\<exists>r store'. lower_reaches hir sid (Enter e # rest) lowered store rest (lowered(e \<mapsto> r)) store'"
proof -
  let ?node = "\<lparr>an_kind = NKSourceCall, an_left = None, an_right = None, an_payload_id = e,
       an_channel_mask = 0, an_provenance_id = e\<rparr>"
  have "open_segment store sid (card (dom lowered))" "card (dom lowered) < 2 ^ 32"
    using ok lowered_room [OF ok e(1,2)] small by (auto simp: lowered_ok_def)
  from append_to_open [OF this, of ?node] obtain r store' where new: "as_append sid ?node store = Inr (r, store')" "store_le store store'"
      "open_segment store' sid (Suc (card (dom lowered)))" "node_from store' r = Inr ?node" "ref_segment r = sid"
      "same_counts store store'" by blast
  have "lower_work hir sid (Enter e) lowered store = Some (Inr ([], lowered(e \<mapsto> r), store'))"
    using e new(1) by (simp add: lower_work_def enter_expression_def source_call_def)
  from lower_item [OF ok e(2,1) this new(2,3) represents.call [OF e(3) new(4)] new(5,6)] show ?thesis by blast
qed

lemma lower_compose_item:
  assumes ok: "lowered_ok hir sid lowered store" and small: "length (hir_expressions hir) < 2 ^ 32"
    and e: "in_hir hir e" "lowered e = None" "kind_at hir e = Some (HCompose kind left right)"
    and sides: "\<not> applies_dictionary hir kind right" "lowered left = Some l" "lowered right = Some r'"
  shows "\<exists>r store'. lower_reaches hir sid (ComposeWork e kind left right # rest) lowered store rest (lowered(e \<mapsto> r)) store'"
proof -
  let ?node = "composition_node (arena_composition_kind kind) l r' 0 e"
  have segment: "open_segment store sid (card (dom lowered))" "card (dom lowered) < 2 ^ 32"
    using ok lowered_room [OF ok e(1,2)] small by (auto simp: lowered_ok_def)
  have rep: "represents store hir left l" "represents store hir right r'" "ref_segment l = sid" "ref_segment r' = sid"
    using ok sides(2,3) by (auto simp: lowered_ok_def)
  obtain nl nr where nodes: "node_from store l = Inr nl" "an_channel_mask nl = 0" "node_from store r' = Inr nr" "an_channel_mask nr = 0"
    using represents_node [OF rep(1)] represents_node [OF rep(2)] by blast
  have "compose_mask sid l r' store = Inr 0"
    using open_children [OF segment(1), of "[l, r']"] rep nodes by (simp add: compose_mask_def)
  moreover have "arena_composition_kind kind \<in> {NKAutoSerial, NKStrictSerial, NKParallel}" by (cases kind) simp_all
  ultimately have compose: "as_compose sid (arena_composition_kind kind) l r' e store = as_append sid ?node store"
    by (auto simp: as_compose_def)
  from append_to_open [OF segment, of ?node] obtain r store' where new: "as_append sid ?node store = Inr (r, store')" "store_le store store'"
      "open_segment store' sid (Suc (card (dom lowered)))" "node_from store' r = Inr ?node" "ref_segment r = sid"
      "same_counts store store'" by blast
  have "lower_work hir sid (ComposeWork e kind left right) lowered store = Some (Inr ([], lowered(e \<mapsto> r), store'))"
    using new(1) compose sides by (simp add: lower_work_def)
  from lower_item [OF ok e(2,1) this new(2,3) represents.composed [OF e(3) sides(1) rep(1,2) [THEN represents_le, OF new(2)] new(4)]
      new(5,6)] show ?thesis by blast
qed

lemma lower_deferred_item:
  assumes ok: "lowered_ok hir sid lowered store" and small: "length (hir_expressions hir) < 2 ^ 32"
    and e: "in_hir hir e" "lowered e = None" "kind_at hir e = Some (HCompose AutoSerial left right)"
    and sides: "kind_at hir right = Some (HDictionary (x # xs))" "lowered left = Some l"
  shows "\<exists>r store'. lower_reaches hir sid (DeferredApplyWork e left right # rest) lowered store rest (lowered(e \<mapsto> r)) store'"
proof -
  let ?node = "\<lparr>an_kind = NKDeferredApply, an_left = Some l, an_right = None, an_payload_id = right,
       an_channel_mask = 0, an_provenance_id = e\<rparr>"
  have segment: "open_segment store sid (card (dom lowered))" "card (dom lowered) < 2 ^ 32"
    using ok lowered_room [OF ok e(1,2)] small by (auto simp: lowered_ok_def)
  have rep: "represents store hir left l" "ref_segment l = sid" using ok sides(2) by (auto simp: lowered_ok_def)
  obtain nl where node: "node_from store l = Inr nl" "an_channel_mask nl = 0" using represents_node [OF rep(1)] by blast
  obtain s where s: "segment_from store sid = Inr s" "seg_kind s = TemplateSegment" using segment(1) by (auto simp: open_segment_def)
  have deferred: "append_raw sid NKDeferredApply (Some l) None right 0 e store = as_append sid ?node store"
    by (simp add: append_raw_def validate_node_shape_def map_filter_def node s rep(2))
  from append_to_open [OF segment, of ?node] obtain r store' where new: "as_append sid ?node store = Inr (r, store')" "store_le store store'"
      "open_segment store' sid (Suc (card (dom lowered)))" "node_from store' r = Inr ?node" "ref_segment r = sid"
      "same_counts store store'" by blast
  have "lower_work hir sid (DeferredApplyWork e left right) lowered store = Some (Inr ([], lowered(e \<mapsto> r), store'))"
    using new(1) deferred sides(2) node by (simp add: lower_work_def node_channel_mask_def)
  from lower_item [OF ok e(2,1) this new(2,3) represents.deferred [OF e(3) sides(1) represents_le [OF rep(1) new(2)] new(4)] new(5,6)]
  show ?thesis by blast
qed

lemma lower_alias_item:
  assumes ok: "lowered_ok hir sid lowered store"
    and e: "in_hir hir e" "lowered e = None" "kind_at hir e = Some (HCompose AutoSerial left right)"
    and sides: "kind_at hir right = Some (HDictionary [])" "lowered left = Some l"
  shows "lower_reaches hir sid (Alias e left # rest) lowered store rest (lowered(e \<mapsto> l)) store"
proof -
  have rep: "represents store hir left l" "ref_segment l = sid" using ok sides(2) by (auto simp: lowered_ok_def)
  have "open_segment store sid (Suc (card (dom lowered)))" using ok by (auto simp: lowered_ok_def open_segment_def)
  moreover have "lower_work hir sid (Alias e left) lowered store = Some (Inr ([], lowered(e \<mapsto> l), store))"
    using sides(2) by (simp add: lower_work_def)
  ultimately show ?thesis
    using lower_item [OF ok e(2,1) _ store_le_refl _ represents.aliased [OF e(3) sides(1) rep(1)] rep(2)] by (auto simp: same_counts_def)
qed

text \<open>Entering a composition replaces it by its sides and the item that joins them.\<close>

definition join_items :: "sequence_hir \<Rightarrow> expression_id \<Rightarrow> composition_kind \<Rightarrow> expression_id \<Rightarrow> expression_id \<Rightarrow> work list" where
  "join_items hir e kind left right =
     (case kind_at hir right of
        Some (HDictionary entries) \<Rightarrow>
          if kind = AutoSerial then (if entries = [] then [Alias e left] else [DeferredApplyWork e left right])
          else [Enter right, ComposeWork e kind left right]
      | _ \<Rightarrow> [Enter right, ComposeWork e kind left right])"

lemma enter_composition:
  assumes "lowered_ok hir sid lowered store" "lowered e = None" "kind_at hir e = Some (HCompose kind left right)" "in_hir hir right"
  shows "lower_reaches hir sid (Enter e # rest) lowered store (Enter left # join_items hir e kind left right @ rest) lowered store"
proof -
  have "lower_work hir sid (Enter e) lowered store = Some (Inr (Enter left # join_items hir e kind left right, lowered, store))"
    using assms(2-4) by (auto simp: lower_work_def enter_expression_def applied_dictionary_def join_items_def kind_at_in
        split: hir_kind.splits list.splits)
  then have "lower_work_loop hir sid (Enter e # rest) lowered store
      = lower_work_loop hir sid (Enter left # join_items hir e kind left right @ rest) lowered store"
    by (subst lower_work_loop.simps) simp
  then show ?thesis using assms(1) by (simp add: lower_reaches_def same_counts_def)
qed

lemma enter_lowered:
  assumes "lowered_ok hir sid lowered store" "lowered e \<noteq> None"
  shows "lower_reaches hir sid (Enter e # rest) lowered store rest lowered store"
proof -
  have "lower_work hir sid (Enter e) lowered store = Some (Inr ([], lowered, store))"
    using assms(2) by (auto simp: lower_work_def enter_expression_def)
  then have "lower_work_loop hir sid (Enter e # rest) lowered store = lower_work_loop hir sid rest lowered store"
    by (subst lower_work_loop.simps) simp
  then show ?thesis using assms(1) by (simp add: lower_reaches_def same_counts_def)
qed

abbreviation entered :: "expression_id \<Rightarrow> lowered_nodes \<Rightarrow> lowered_nodes \<Rightarrow> bool" where
  "entered e lowered lowered' \<equiv> lowered' e \<noteq> None \<and> (\<forall>x. unat e < unat x \<longrightarrow> lowered' x = lowered x)"

text \<open>With the left side lowered, and the right side by the induction, the composition follows.\<close>

lemma lower_join:
  assumes ok: "lowered_ok hir sid lowered store" and small: "length (hir_expressions hir) < 2 ^ 32"
    and e: "in_hir hir e" "lowered e = None" "kind_at hir e = Some (HCompose kind left right)" "unat right < unat e"
    and left: "lowered left = Some l"
    and right: "\<not> applies_dictionary hir kind right \<Longrightarrow> \<exists>lowered' store'. entered right lowered lowered'
      \<and> lower_reaches hir sid (Enter right # ComposeWork e kind left right # rest) lowered store
          (ComposeWork e kind left right # rest) lowered' store'"
  shows "\<exists>lowered' store'. lower_reaches hir sid (join_items hir e kind left right @ rest) lowered store rest lowered' store'
    \<and> entered e lowered lowered'"
proof (cases "applies_dictionary hir kind right")
  case True
  then obtain entries where kind: "kind = AutoSerial" and dictionary: "kind_at hir right = Some (HDictionary entries)"
    by (auto simp: applies_dictionary_def)
  have "\<exists>r store'. lower_reaches hir sid (join_items hir e kind left right @ rest) lowered store rest (lowered(e \<mapsto> r)) store'"
  proof (cases entries)
    case Nil
    then show ?thesis
      using lower_alias_item [OF ok e(1,2) e(3) [unfolded kind] dictionary [unfolded Nil] left] dictionary kind
      by (auto simp: join_items_def)
  next
    case (Cons x xs)
    then show ?thesis
      using lower_deferred_item [OF ok small e(1,2) e(3) [unfolded kind] dictionary [unfolded Cons] left] dictionary kind
      by (auto simp: join_items_def)
  qed
  then show ?thesis by fastforce
next
  case False
  then have join: "join_items hir e kind left right = [Enter right, ComposeWork e kind left right]"
    by (auto simp: join_items_def applies_dictionary_def split: option.splits hir_kind.splits)
  obtain l2 s2 where two: "entered right lowered l2" "lower_reaches hir sid (join_items hir e kind left right @ rest) lowered store
      (ComposeWork e kind left right # rest) l2 s2" using right [OF False] by (auto simp: join)
  have ok2: "lowered_ok hir sid l2 s2" and new2: "l2 e = None" using two e(2,4) by (auto simp: lower_reaches_def)
  have "l2 left = Some l" using two(2) left by (force simp: lower_reaches_def map_le_def)
  moreover obtain r' where "l2 right = Some r'" using two(1) by blast
  ultimately obtain r s3 where three: "lower_reaches hir sid (ComposeWork e kind left right # rest) l2 s2 rest (l2(e \<mapsto> r)) s3"
    using lower_compose_item [OF ok2 small e(1) new2 e(3) False] by blast
  have "entered e lowered (l2(e \<mapsto> r))" using two(1) e(4) by auto
  then show ?thesis using lower_reaches_trans [OF two(2) three] by blast
qed

lemma lower_enter:
  assumes wf: "hir_wf hir" and small: "length (hir_expressions hir) < 2 ^ 32"
  shows "in_hir hir e \<Longrightarrow> \<forall>c\<in>reachable_from (morphism_operands hir) {e}. is_morphism hir c \<Longrightarrow> lowered_ok hir sid lowered store
    \<Longrightarrow> \<exists>lowered' store'. lower_reaches hir sid (Enter e # rest) lowered store rest lowered' store' \<and> entered e lowered lowered'"
proof (induction "unat e" arbitrary: e lowered store rest rule: less_induct)
  case less
  note ok = less.prems(3)
  have "is_morphism hir e" using less.prems(2) by (auto intro: reachable_from.root)
  then consider (known) "lowered e \<noteq> None" | (call) f arguments kws where "lowered e = None" "kind_at hir e = Some (HCall f arguments kws)"
    | (composed) kind left right where "lowered e = None" "kind_at hir e = Some (HCompose kind left right)"
    by (auto simp: is_morphism_def split: option.splits hir_kind.splits)
  then show ?case
  proof cases
    case known
    then show ?thesis using enter_lowered [OF ok] by blast
  next
    case call
    from lower_call_item [OF ok small less.prems(1) call] show ?thesis by fastforce
  next
    case composed
    have smaller: "unat left < unat e" "in_hir hir left" "unat right < unat e" "in_hir hir right"
      using operand_smaller [OF wf composed(2)] by auto
    have below: "\<forall>c\<in>reachable_from (morphism_operands hir) {x}. is_morphism hir c" if "x \<in> set (morphism_operands hir e)" for x
    proof -
      have "reachable_from (morphism_operands hir) {x} \<subseteq> reachable_from (morphism_operands hir) {e}"
        by (rule reachable_least) (use that in \<open>auto intro: reachable_from.intros\<close>)
      then show ?thesis using less.prems(2) by blast
    qed
    have left: "left \<in> set (morphism_operands hir e)" by (simp add: morphism_operands_def composed)
    let ?join = "join_items hir e kind left right"
    obtain l1 s1 where one: "lower_reaches hir sid (Enter left # ?join @ rest) lowered store (?join @ rest) l1 s1" "entered left lowered l1"
      using less.hyps [OF smaller(1,2) below [OF left] ok] by blast
    have ok1: "lowered_ok hir sid l1 s1" and new1: "l1 e = None" using one smaller composed(1) by (auto simp: lower_reaches_def)
    obtain l where l: "l1 left = Some l" using one(2) by blast
    have right: "right \<in> set (morphism_operands hir e)" if "\<not> applies_dictionary hir kind right"
      using that by (simp add: morphism_operands_def composed)
    obtain l2 s2 where two: "lower_reaches hir sid (?join @ rest) l1 s1 rest l2 s2" "entered e l1 l2"
      using lower_join [OF ok1 small less.prems(1) new1 composed(2) smaller(3) l] less.hyps [OF smaller(3,4) below [OF right] ok1] by blast
    have "entered e lowered l2" using one(2) two(2) smaller(1) by auto
    then show ?thesis
      using lower_reaches_trans [OF enter_composition [OF ok composed smaller(4)] lower_reaches_trans [OF one(1) two(1)]] by blast
  qed
qed

lemma lower_sequence_hir_ok:
  assumes "hir_wf hir" "length (hir_expressions hir) < 2 ^ 32" "open_segment store sid 0"
  shows "\<exists>result store'. lower_sequence_hir hir sid store = Some (result, store') \<and> store_le store store'
    \<and> same_counts store store'
    \<and> (case result of
         Inl err \<Rightarrow> store' = store \<and> non_morphism_in hir (morphisms_of hir) err
       | Inr program \<Rightarrow> (\<forall>e\<in>morphisms_of hir. is_morphism hir e) \<and> sap_hir program = hir \<and> sap_segment program = sid
           \<and> sap_frozen program = \<lparr>fp_store = store', fp_root = sap_root program, fp_owner = hir\<rparr>
           \<and> represents store' hir (hir_root hir) (sap_root program) \<and> ref_segment (sap_root program) = sid
           \<and> open_segment store' sid (length (hir_expressions hir)))"
proof -
  obtain valid where valid: "validate_morphism_graph hir = Some valid"
    "valid = Inr () \<longleftrightarrow> (\<forall>e\<in>morphisms_of hir. is_morphism hir e)" "\<forall>err. valid = Inl err \<longrightarrow> non_morphism_in hir (morphisms_of hir) err"
    using validate_morphism_graph_exact [OF assms(1)] by blast
  show ?thesis
  proof (cases valid)
    case (Inl err)
    then show ?thesis using valid by (simp add: lower_sequence_hir_def same_counts_def)
  next
    case (Inr u)
    then have graph: "\<forall>e\<in>morphisms_of hir. is_morphism hir e" using valid(2) by simp
    have root: "in_hir hir (hir_root hir)" using assms(1) by (simp add: hir_wf_def)
    have "lowered_ok hir sid Map.empty store" using assms(3) by (simp add: lowered_ok_def)
    then obtain lowered store' where done1: "lower_reaches hir sid [Enter (hir_root hir)] Map.empty store [] lowered store'"
        "lowered (hir_root hir) \<noteq> None"
      using lower_enter [OF assms(1,2) root graph [unfolded morphisms_of_def]] by blast
    then obtain r where r: "lowered (hir_root hir) = Some r" by blast
    have loop: "lower_work_loop hir sid [Enter (hir_root hir)] Map.empty store = Some (Inr lowered, store')"
      and le: "store_le store store'" "same_counts store store'" and ok: "lowered_ok hir sid lowered store'"
      using done1(1) by (simp_all add: lower_reaches_def lower_work_loop.simps [of hir sid "[]"])
    have rep: "represents store' hir (hir_root hir) r" "ref_segment r = sid" using ok r by (auto simp: lowered_ok_def)
    have "unat ` dom lowered \<subseteq> {..<length (hir_expressions hir)}" using ok by (auto simp: lowered_ok_def)
    then have "card (unat ` dom lowered) \<le> card {..<length (hir_expressions hir)}" by (intro card_mono) auto
    moreover have "card (unat ` dom lowered) = card (dom lowered)" by (intro card_image inj_onI) (simp add: word_unat_eq_iff)
    ultimately have "open_segment store' sid (length (hir_expressions hir))"
      using ok by (auto simp: lowered_ok_def open_segment_def)
    then show ?thesis
      using valid(1) Inr loop le r rep graph represents_node [OF rep(1)]
      by (auto simp: lower_sequence_hir_def freeze_with_owner_def sap_root_def)
  qed
qed

text \<open>
  C8. Lowering a well-formed sequence into an empty open segment always returns.  When an expression that has to be a
  morphism is not one, it is refused and the store is unchanged; otherwise the frozen root represents the result of the
  sequence, the segment has at most one node per expression, and nothing that was in the store before has changed.
\<close>

theorem lower_sequence_hir_correct:
  assumes "hir_wf hir" "length (hir_expressions hir) < 2 ^ 32" "open_segment store sid 0"
  shows "\<exists>result store'. lower_sequence_hir hir sid store = Some (result, store') \<and> store_le store store'
    \<and> same_counts store store'
    \<and> (case result of
         Inl err \<Rightarrow> store' = store \<and> non_morphism_in hir (morphisms_of hir) err
       | Inr program \<Rightarrow> (\<forall>e\<in>morphisms_of hir. is_morphism hir e) \<and> sap_hir program = hir \<and> sap_segment program = sid
           \<and> sap_frozen program = \<lparr>fp_store = store', fp_root = sap_root program, fp_owner = hir\<rparr>
           \<and> represents store' hir (hir_root hir) (sap_root program) \<and> ref_segment (sap_root program) = sid
           \<and> open_segment store' sid (length (hir_expressions hir)))"
  by (rule lower_sequence_hir_ok [OF assms])

definition example_store :: hir_store where
  "example_store = snd (create_segment TemplateSegment (fst (store_new 1)))"

theorem lower_sequence_hir_correct_witness:
  "open_segment example_store \<lparr>sid_store = 1, sid_index = 0\<rparr> 0 \<and> hir_wf example_hir
    \<and> (\<exists>result store'. lower_sequence_hir example_hir \<lparr>sid_store = 1, sid_index = 0\<rparr> example_store = Some (result, store')
        \<and> store_le example_store store')"
proof -
  have "open_segment example_store \<lparr>sid_store = 1, sid_index = 0\<rparr> 0"
    by (simp add: example_store_def create_segment_def store_new_def open_segment_def segment_from_def)
  then show ?thesis using lower_sequence_hir_correct [OF example_wf] example_wf(1) by blast
qed

end
