(* ===== verification/Session_Soundness.thy ===== *)
theory Session_Soundness
  imports Source_Session Topology_Soundness Arena_Soundness
begin

text \<open>
  The caches of a session are transparent: what \<open>compile_source\<close> returns is what the source text means on its own, by
  whichever way the session came to it, and the artifacts it handed out stay valid in the shared store.
\<close>

section \<open>The meaning of a source\<close>

text \<open>The stages of the compilation without session and store.\<close>

definition entry_meaning ::
  "(string \<Rightarrow> u64 option) \<Rightarrow> source_module \<Rightarrow> string \<Rightarrow> (source_compile_error + sequence_hir \<times> resolution_snapshot) option" where
  "entry_meaning parse_f64 source_mod entry =
     (case lower_sequence parse_f64 source_mod entry of
        Inl e \<Rightarrow> Some (Inl (HirError e))
      | Inr hir \<Rightarrow>
          Option.bind (validate_sequence_hir source_mod hir) (\<lambda>valid.
            case valid of
              Inl e \<Rightarrow> Some (Inl (ValidationFailed e))
            | Inr _ \<Rightarrow>
                Option.bind (resolution_of source_mod hir) (\<lambda>resolution.
                Option.bind (validate_morphism_graph hir) (\<lambda>graph.
                  case graph of
                    Inl e \<Rightarrow> Some (Inl (ArenaLoweringFailed e))
                  | Inr _ \<Rightarrow> Some (Inr (hir, resolution))))))"

definition source_meaning ::
  "parser \<Rightarrow> (string \<Rightarrow> u64 option) \<Rightarrow> string \<Rightarrow> string \<Rightarrow> string
     \<Rightarrow> (source_compile_error + sequence_hir \<times> resolution_snapshot) option" where
  "source_meaning parse parse_f64 file_name source entry =
     Option.bind (module_parse parse file_name source) (\<lambda>parsed.
       case parsed of
         Inl e \<Rightarrow> Some (Inl (ParseError e))
       | Inr source_mod \<Rightarrow> entry_meaning parse_f64 source_mod entry)"

lemma module_parse_names:
  "module_parse parse file_name source = Some (Inr source_mod) \<Longrightarrow> sm_file_name source_mod = file_name \<and> sm_source source_mod = source"
  by (auto simp: module_parse_def Let_def split: sum.splits if_splits)

section \<open>The invariant\<close>

definition artifact_ok :: "hir_store \<Rightarrow> string \<Rightarrow> compiled_source_sequence \<Rightarrow> bool" where
  "artifact_ok store entry artifact \<longleftrightarrow>
     (let hir = sap_hir (css_program artifact); top = sap_root (css_program artifact) in
      css_entry artifact = entry \<and> hir_wf hir \<and> fp_owner (sap_frozen (css_program artifact)) = hir
      \<and> represents store hir (hir_root hir) top
      \<and> (\<exists>s. segment_from store (ref_segment top) = Inr s \<and> seg_kind s = TemplateSegment)
      \<and> template_from store (css_template artifact) = Inr \<lparr>tmpl_root = top, tmpl_schema_id = 0, tmpl_owner = hir\<rparr>)"

definition session_ok :: "parser \<Rightarrow> (string \<Rightarrow> u64 option) \<Rightarrow> source_session \<Rightarrow> bool" where
  "session_ok parse parse_f64 self \<longleftrightarrow>
     (\<forall>file_name cached. ss_modules self file_name = Some cached \<longrightarrow>
        module_parse parse file_name (cm_source cached) = Some (Inr (cm_module cached)))
     \<and> (\<forall>file_name entry cached. ss_cache self (file_name, entry) = Some cached \<longrightarrow>
        source_meaning parse parse_f64 file_name (cs_source cached) entry =
          Some (Inr (sap_hir (css_program (cs_artifact cached)), css_resolution (cs_artifact cached)))
        \<and> artifact_ok (ss_arena self) entry (cs_artifact cached))"

definition arena_room :: "hir_store \<Rightarrow> bool" where
  "arena_room store \<longleftrightarrow> length (in_segments (st_inner store)) < 2 ^ 32 \<and> length (in_templates (st_inner store)) < 2 ^ 32"

lemma artifact_ok_le:
  assumes "artifact_ok store entry artifact" "store_le store store'"
  shows "artifact_ok store' entry artifact"
  using assms(1) represents_le [OF _ assms(2)] template_from_le [OF assms(2)] segment_from_le [OF assms(2)]
  unfolding artifact_ok_def Let_def segment_le_def by metis

lemma session_new_ok: "session_new next_id = (self, next_id') \<Longrightarrow> session_ok parse parse_f64 self"
  by (auto simp: session_new_def session_ok_def store_new_def Let_def)

text \<open>A larger store, and one more artifact.\<close>

lemma session_ok_arena:
  assumes "session_ok parse parse_f64 self" "store_le (ss_arena self) store"
  shows "session_ok parse parse_f64 (self\<lparr>ss_arena := store\<rparr>)"
  using assms(1) artifact_ok_le [OF _ assms(2)] by (simp add: session_ok_def)

lemma session_ok_insert:
  assumes "session_ok parse parse_f64 self" "store_le (ss_arena self) store"
    and "source_meaning parse parse_f64 file_name source entry = Some (Inr (sap_hir (css_program artifact), css_resolution artifact))"
    and "artifact_ok store entry artifact"
  shows "session_ok parse parse_f64
    (self\<lparr>ss_arena := store, ss_cache := (ss_cache self)((file_name, entry) \<mapsto> \<lparr>cs_source = source, cs_artifact = artifact\<rparr>)\<rparr>)"
  using session_ok_arena [OF assms(1,2)] assms(3,4) by (auto simp: session_ok_def)

definition at_most_one_more :: "hir_store \<Rightarrow> hir_store \<Rightarrow> bool" where
  "at_most_one_more store store' \<longleftrightarrow> length (in_segments (st_inner store')) \<le> Suc (length (in_segments (st_inner store)))
     \<and> length (in_templates (st_inner store')) \<le> Suc (length (in_templates (st_inner store)))"

text \<open>What a call of \<open>compile_source\<close> must give back.\<close>

definition outcome_ok ::
  "parser \<Rightarrow> (string \<Rightarrow> u64 option) \<Rightarrow> string \<Rightarrow> string \<Rightarrow> string \<Rightarrow> source_session
     \<Rightarrow> source_compile_error + source_compile_outcome \<Rightarrow> source_session \<Rightarrow> bool" where
  "outcome_ok parse parse_f64 file_name source entry self result self' \<longleftrightarrow>
     session_ok parse parse_f64 self' \<and> store_le (ss_arena self) (ss_arena self') \<and> at_most_one_more (ss_arena self) (ss_arena self')
     \<and> (case result of
          Inl e \<Rightarrow> source_meaning parse parse_f64 file_name source entry = Some (Inl e)
        | Inr outcome \<Rightarrow>
            (let artifact = sco_artifact outcome in
             source_meaning parse parse_f64 file_name source entry =
               Some (Inr (sap_hir (css_program artifact), css_resolution artifact))
             \<and> artifact_ok (ss_arena self') entry artifact))"

section \<open>The stages\<close>

lemma publish_ok:
  assumes "session_ok parse parse_f64 self" "length (in_templates (st_inner (ss_arena self))) < 2 ^ 32" "hir_wf hir"
    and "source_meaning parse parse_f64 file_name source entry = Some (Inr (hir, resolution))"
    and "sap_hir program = hir" "fp_owner (sap_frozen program) = hir"
    and "represents (ss_arena self) hir (hir_root hir) (sap_root program)"
    and "segment_from (ss_arena self) (ref_segment (sap_root program)) = Inr s" "seg_kind s = TemplateSegment"
    and "publish_artifact status file_name source entry resolution program self = (result, self')"
  shows "outcome_ok parse parse_f64 file_name source entry self result self'"
    "length (in_segments (st_inner (ss_arena self'))) = length (in_segments (st_inner (ss_arena self)))"
proof -
  let ?top = "sap_root program" and ?store = "ss_arena self"
  obtain n where n: "node_from ?store ?top = Inr n" using represents_node [OF assms(7)] by blast
  obtain t store' where p: "publish_template_with_owner ?top 0 hir ?store = Inr (t, store')"
    using n assms(8,9) by (auto simp: publish_template_with_owner_def segment_mut_from_def segment_from_def split: if_splits)
  note grow = publish_grows [OF p]
  have template: "template_from store' t = Inr \<lparr>tmpl_root = ?top, tmpl_schema_id = 0, tmpl_owner = hir\<rparr>"
    using p assms(2) by (auto simp: publish_template_with_owner_def segment_mut_from_def template_from_def res_simps split: if_splits)
  have counts: "length (in_segments (st_inner store')) = length (in_segments (st_inner ?store))"
      "length (in_templates (st_inner store')) = Suc (length (in_templates (st_inner ?store)))"
    using p by (auto simp: publish_template_with_owner_def segment_mut_from_def res_simps split: if_splits)
  obtain s' where s': "segment_from store' (ref_segment ?top) = Inr s'" "seg_kind s' = TemplateSegment"
    using segment_from_le [OF grow(1) assms(8)] assms(9) by (auto simp: segment_le_def)
  let ?artifact = "\<lparr>css_entry = entry, css_program = program, css_template = t, css_resolution = resolution\<rparr>"
  have artifact: "artifact_ok store' entry ?artifact"
    using assms(3,5,6) represents_le [OF assms(7) grow(1)] template s' by (simp add: artifact_ok_def Let_def)
  have result: "result = Inr \<lparr>sco_status = status, sco_artifact = ?artifact\<rparr>"
    "self' = self\<lparr>ss_arena := store',
       ss_cache := (ss_cache self)((file_name, entry) \<mapsto> \<lparr>cs_source = source, cs_artifact = ?artifact\<rparr>)\<rparr>"
    using assms(5,10) p by (auto simp: publish_artifact_def Let_def)
  have "session_ok parse parse_f64 self'"
    unfolding result by (rule session_ok_insert [OF assms(1) grow(1)]) (use assms(4,5) artifact in simp_all)
  then show "outcome_ok parse parse_f64 file_name source entry self result self'"
    using assms(4,5) grow(1) artifact counts by (simp add: outcome_ok_def at_most_one_more_def result Let_def)
  show "length (in_segments (st_inner (ss_arena self'))) = length (in_segments (st_inner (ss_arena self)))"
    by (simp add: result counts)
qed

lemma fresh_segment_open:
  assumes "create_segment TemplateSegment store = (sid, store')" "arena_room store"
  shows "open_segment store' sid 0" "store_le store store'" "in_templates (st_inner store') = in_templates (st_inner store)"
    "length (in_segments (st_inner store')) = Suc (length (in_segments (st_inner store)))"
  using assms create_segment_grows(1) [OF assms(1)]
  by (auto simp: create_segment_def Let_def open_segment_def segment_from_def arena_room_def)

text \<open>What the last stage decides, for a HIR that passed the stages before.\<close>

abbreviation graph_decides ::
  "parser \<Rightarrow> (string \<Rightarrow> u64 option) \<Rightarrow> string \<Rightarrow> string \<Rightarrow> string \<Rightarrow> sequence_hir \<Rightarrow> resolution_snapshot \<Rightarrow> bool" where
  "graph_decides parse parse_f64 file_name source entry hir resolution \<equiv>
     source_meaning parse parse_f64 file_name source entry =
       map_option (\<lambda>graph. case graph of Inl e \<Rightarrow> Inl (ArenaLoweringFailed e) | Inr _ \<Rightarrow> Inr (hir, resolution))
         (validate_morphism_graph hir)"

lemma compile_fresh_ok:
  assumes "session_ok parse parse_f64 self" "arena_room (ss_arena self)" "hir_wf hir" "length (hir_expressions hir) < 2 ^ 32"
    and meaning: "graph_decides parse parse_f64 file_name source entry hir resolution"
  shows "\<exists>result self'. compile_fresh_hir file_name source entry hir resolution self = Some (result, self')
    \<and> outcome_ok parse parse_f64 file_name source entry self result self'"
proof -
  obtain sid store where new: "create_segment TemplateSegment (ss_arena self) = (sid, store)" by fastforce
  note opened = fresh_segment_open [OF new assms(2)]
  obtain lowered store' where lower: "lower_sequence_hir hir sid store = Some (lowered, store')" "store_le store store'"
      "same_counts store store'"
    and result: "case lowered of Inl err \<Rightarrow> store' = store \<and> non_morphism_in hir (morphisms_of hir) err
       | Inr program \<Rightarrow> (\<forall>e\<in>morphisms_of hir. is_morphism hir e) \<and> sap_hir program = hir \<and> sap_segment program = sid
           \<and> sap_frozen program = \<lparr>fp_store = store', fp_root = sap_root program, fp_owner = hir\<rparr>
           \<and> represents store' hir (hir_root hir) (sap_root program) \<and> ref_segment (sap_root program) = sid
           \<and> open_segment store' sid (length (hir_expressions hir))"
    using lower_sequence_hir_ok [OF assms(3,4) opened(1)] by blast
  have le: "store_le (ss_arena self) store'" using store_le_trans [OF opened(2) lower(2)] .
  let ?self = "self\<lparr>ss_arena := store'\<rparr>"
  have ok: "session_ok parse parse_f64 ?self" by (rule session_ok_arena [OF assms(1) le])
  obtain graph where graph: "validate_morphism_graph hir = Some graph" "graph = Inr () \<longleftrightarrow> (\<forall>e\<in>morphisms_of hir. is_morphism hir e)"
    using validate_morphism_graph_exact [OF assms(3)] by blast
  show ?thesis
  proof (cases lowered)
    case (Inl err)
    then have "graph \<noteq> Inr ()" using graph(2) result by (auto simp: non_morphism_in_def)
    then have "graph = Inl err" using lower(1) graph(1) Inl by (cases graph) (auto simp: lower_sequence_hir_def)
    then show ?thesis
      using ok le meaning graph(1) lower(1) Inl opened(3,4) result
      by (auto simp: compile_fresh_hir_def new outcome_ok_def at_most_one_more_def)
  next
    case (Inr program)
    then have p: "\<forall>e\<in>morphisms_of hir. is_morphism hir e" "sap_hir program = hir" "fp_owner (sap_frozen program) = hir"
      "represents (ss_arena ?self) hir (hir_root hir) (sap_root program)" "ref_segment (sap_root program) = sid"
      "open_segment store' sid (length (hir_expressions hir))" using result by auto
    have sound: "source_meaning parse parse_f64 file_name source entry = Some (Inr (hir, resolution))"
      using meaning graph p(1) by simp
    have templates: "length (in_templates (st_inner (ss_arena ?self))) < 2 ^ 32"
      using assms(2) lower(3) opened(3) by (simp add: arena_room_def same_counts_def)
    obtain s where s: "segment_from (ss_arena ?self) (ref_segment (sap_root program)) = Inr s" "seg_kind s = TemplateSegment"
      using p(5,6) by (auto simp: open_segment_def)
    obtain outcome self' where publish: "publish_artifact Compiled file_name source entry resolution program ?self = (outcome, self')"
      by fastforce
    note published = publish_ok [OF ok templates assms(3) sound p(2-4) s publish]
    then have "outcome_ok parse parse_f64 file_name source entry self outcome self'"
      using store_le_trans [OF le] lower(3) opened(3,4) by (auto simp: outcome_ok_def at_most_one_more_def same_counts_def)
    then show ?thesis using lower(1) Inr publish by (simp add: compile_fresh_hir_def new)
  qed
qed

lemma structurally_eq_kind_at:
  assumes "structurally_eq_ignoring_spans a b"
  shows "kind_at a = kind_at b" "hir_root a = hir_root b"
proof -
  let ?as = "hir_expressions a" and ?bs = "hir_expressions b"
  have len: "length ?as = length ?bs" and all: "list_all (\<lambda>(l, r). he_kind l = he_kind r) (zip ?as ?bs)"
    using assms by (auto simp: structurally_eq_ignoring_spans_def)
  have "he_kind (?as ! i) = he_kind (?bs ! i)" if "i < length ?as" for i
    using all len that by (auto simp: list_all_length)
  then show "kind_at a = kind_at b" by (auto simp: kind_at_def nth_opt_def len)
  show "hir_root a = hir_root b" using assms by (simp add: structurally_eq_ignoring_spans_def)
qed

lemma compile_hir_ok:
  assumes "session_ok parse parse_f64 self" "arena_room (ss_arena self)" "hir_wf hir" "length (hir_expressions hir) < 2 ^ 32"
    and meaning: "graph_decides parse parse_f64 file_name source entry hir resolution"
  shows "\<exists>result self'. compile_hir file_name source entry hir resolution self = Some (result, self')
    \<and> outcome_ok parse parse_f64 file_name source entry self result self'"
proof (cases "\<exists>cached. ss_cache self (file_name, entry) = Some cached \<and> hir_matches hir resolution (cs_artifact cached)")
  case False
  then have "compile_hir file_name source entry hir resolution self = compile_fresh_hir file_name source entry hir resolution self"
    by (auto simp: compile_hir_def split: option.splits)
  then show ?thesis using compile_fresh_ok [OF assms] by simp
next
  case True
  then obtain cached where cached: "ss_cache self (file_name, entry) = Some cached" "hir_matches hir resolution (cs_artifact cached)" by blast
  define old where "old = sap_hir (css_program (cs_artifact cached))"
  define top where "top = sap_root (css_program (cs_artifact cached))"
  have same: "kind_at old = kind_at hir" "hir_root old = hir_root hir"
    using cached(2) structurally_eq_kind_at by (auto simp: hir_matches_def old_def)
  have art: "artifact_ok (ss_arena self) entry (cs_artifact cached)"
    and was: "source_meaning parse parse_f64 file_name (cs_source cached) entry = Some (Inr (old, css_resolution (cs_artifact cached)))"
    using assms(1) cached(1) by (auto simp: session_ok_def old_def)
  have rep: "represents (ss_arena self) hir (hir_root hir) top"
    using art represents_cong [OF _ same(1)] same(2) by (simp add: artifact_ok_def Let_def old_def top_def)
  obtain s where s: "segment_from (ss_arena self) (ref_segment top) = Inr s" "seg_kind s = TemplateSegment"
    using art by (auto simp: artifact_ok_def Let_def top_def)
  have "validate_morphism_graph hir = Some (Inr ())"
    using validate_morphism_graph_exact [OF assms(3)] represents_morphisms [OF rep] by blast
  then have sound: "source_meaning parse parse_f64 file_name source entry = Some (Inr (hir, resolution))" using meaning by simp
  obtain n where n: "node_from (ss_arena self) top = Inr n" using represents_node [OF rep] by blast
  define program where "program = \<lparr>sap_hir = hir, sap_frozen = \<lparr>fp_store = ss_arena self, fp_root = top, fp_owner = hir\<rparr>,
    sap_segment = sap_segment (css_program (cs_artifact cached))\<rparr>"
  have rebind: "rebind_hir (ss_arena self) hir (css_program (cs_artifact cached)) = Some program"
    using n by (simp add: rebind_hir_def freeze_with_owner_def program_def top_def)
  obtain result self' where publish: "publish_artifact HirReused file_name source entry resolution program self = (result, self')"
    by fastforce
  have p: "sap_hir program = hir" "fp_owner (sap_frozen program) = hir" "sap_root program = top"
    by (simp_all add: program_def sap_root_def)
  have "outcome_ok parse parse_f64 file_name source entry self result self'"
    using publish_ok(1) [OF assms(1) _ assms(3) sound p(1,2) _ _ _ publish] rep s assms(2) by (simp add: p(3) arena_room_def)
  then show ?thesis using cached rebind publish by (simp add: compile_hir_def)
qed

lemma reuse_ok:
  assumes "session_ok parse parse_f64 self" "reuse_exact_source file_name source entry self = Some reused"
  shows "outcome_ok parse parse_f64 file_name source entry self (Inr reused) self"
  using assms by (auto simp: reuse_exact_source_def session_ok_def outcome_ok_def at_most_one_more_def Let_def bind_eq_Some_conv split: if_splits)

lemma stages_return:
  assumes "hir_wf hir" "length (hir_expressions hir) < 2 ^ 32"
  shows "\<exists>valid resolution. validate_sequence_hir source_mod hir = Some valid \<and> resolution_of source_mod hir = Some resolution"
proof -
  have "\<exists>uses. module_scan_slots source_mod hir = Some uses"
    using scan_slots_exact [OF assms, of "sm_imports source_mod"] by (auto simp: module_scan_slots_def)
  moreover note resolved_paths_return [OF assms, of source_mod]
  ultimately show ?thesis using module_check_exact [OF assms, of source_mod] by (auto simp: resolution_of_def)
qed

text \<open>The entry of a module that was parsed from its source.\<close>

lemma compile_module_entry_ok:
  assumes "session_ok parse parse_f64 self" "arena_room (ss_arena self)"
    and parsed: "module_parse parse file_name source = Some (Inr source_mod)"
    and small: "\<And>hir. lower_sequence parse_f64 source_mod entry = Inr hir \<Longrightarrow> length (hir_expressions hir) < 2 ^ 32"
  shows "\<exists>result self'. compile_module_entry parse_f64 source_mod entry self = Some (result, self')
    \<and> outcome_ok parse parse_f64 file_name source entry self result self'"
proof -
  have names: "sm_file_name source_mod = file_name" "sm_source source_mod = source" using module_parse_names [OF parsed] by auto
  have meaning: "source_meaning parse parse_f64 file_name source entry = entry_meaning parse_f64 source_mod entry"
    by (simp add: source_meaning_def parsed)
  show ?thesis
  proof (cases "reuse_exact_source file_name source entry self")
    case (Some reused)
    then show ?thesis using reuse_ok [OF assms(1)] by (auto simp: compile_module_entry_def names)
  next
    case None
    show ?thesis
    proof (cases "lower_sequence parse_f64 source_mod entry")
      case (Inl e)
      then show ?thesis using None assms(1) by (simp add: compile_module_entry_def names outcome_ok_def at_most_one_more_def meaning entry_meaning_def)
    next
      case (Inr hir)
      note short = small [OF Inr]
      have wf: "hir_wf hir" using Inr lower_entry_wf short by (auto simp: lower_sequence_def res_simps)
      obtain valid resolution where stages: "validate_sequence_hir source_mod hir = Some valid" "resolution_of source_mod hir = Some resolution"
        using stages_return [OF wf short] by blast
      show ?thesis
      proof (cases valid)
        case (Inl e)
        then show ?thesis using None Inr assms(1) stages
          by (simp add: compile_module_entry_def names outcome_ok_def at_most_one_more_def meaning entry_meaning_def)
      next
        case valid: (Inr u)
        have decides: "graph_decides parse parse_f64 file_name source entry hir resolution"
          by (auto simp: meaning entry_meaning_def Inr stages valid option.case_eq_if map_option_case bind_eq_None_conv
              split: option.splits sum.splits)
        then show ?thesis using compile_hir_ok [OF assms(1,2) wf short decides] None
          by (simp add: compile_module_entry_def names Inr stages valid)
      qed
    qed
  qed
qed

lemma session_module_ok:
  assumes "session_ok parse parse_f64 self" "module_parse parse file_name source = Some parsed"
  shows "\<exists>self'. session_source_module parse file_name source self = Some (parsed, self') \<and> session_ok parse parse_f64 self'
    \<and> ss_arena self' = ss_arena self"
proof (cases "cached_source_module file_name source self")
  case None
  then show ?thesis using assms by (cases parsed) (auto simp: session_source_module_def session_ok_def)
next
  case (Some cached)
  then have "module_parse parse file_name source = Some (Inr cached)"
    using assms(1) by (auto simp: cached_source_module_def session_ok_def bind_eq_Some_conv split: if_splits)
  then show ?thesis using Some assms by (simp add: session_source_module_def)
qed

lemma compile_source_ok:
  assumes "session_ok parse parse_f64 self" "arena_room (ss_arena self)" "module_parse parse file_name source = Some parsed"
    and "\<And>source_mod hir. parsed = Inr source_mod \<Longrightarrow> lower_sequence parse_f64 source_mod entry = Inr hir
      \<Longrightarrow> length (hir_expressions hir) < 2 ^ 32"
  shows "\<exists>result self'. compile_source parse parse_f64 file_name source entry self = Some (result, self')
    \<and> outcome_ok parse parse_f64 file_name source entry self result self'"
proof (cases "reuse_exact_source file_name source entry self")
  case (Some reused)
  then show ?thesis using reuse_ok [OF assms(1)] by (auto simp: compile_source_def)
next
  case None
  obtain self1 where self1: "session_source_module parse file_name source self = Some (parsed, self1)"
      "session_ok parse parse_f64 self1" "ss_arena self1 = ss_arena self" using session_module_ok [OF assms(1,3)] by blast
  show ?thesis
  proof (cases parsed)
    case (Inl e)
    then show ?thesis using None self1 assms(3) by (simp add: compile_source_def outcome_ok_def at_most_one_more_def source_meaning_def)
  next
    case (Inr source_mod)
    have "arena_room (ss_arena self1)" using assms(2) self1(3) by simp
    from compile_module_entry_ok [OF self1(2) this assms(3) [unfolded Inr] assms(4) [OF Inr]]
    show ?thesis using None self1 Inr by (simp add: compile_source_def outcome_ok_def)
  qed
qed

section \<open>Runs of a session\<close>

text \<open>A request names a file, its source and an entry; a run answers the requests in turn.\<close>

type_synonym request = "string \<times> string \<times> string"

fun run_session ::
  "parser \<Rightarrow> (string \<Rightarrow> u64 option) \<Rightarrow> request list \<Rightarrow> source_session
     \<Rightarrow> ((source_compile_error + source_compile_outcome) list \<times> source_session) option" where
  "run_session parse parse_f64 [] self = Some ([], self)"
| "run_session parse parse_f64 ((file_name, source, entry) # requests) self =
     Option.bind (compile_source parse parse_f64 file_name source entry self) (\<lambda>(result, self1).
     Option.bind (run_session parse parse_f64 requests self1) (\<lambda>(results, self2). Some (result # results, self2)))"

text \<open>A request whose file can be parsed and whose function has fewer than \<open>2 ^ 32\<close> expressions.\<close>

definition request_fits :: "parser \<Rightarrow> (string \<Rightarrow> u64 option) \<Rightarrow> request \<Rightarrow> bool" where
  "request_fits parse parse_f64 = (\<lambda>(file_name, source, entry).
     case module_parse parse file_name source of
       None \<Rightarrow> False
     | Some (Inl _) \<Rightarrow> True
     | Some (Inr source_mod) \<Rightarrow>
         (case lower_sequence parse_f64 source_mod entry of Inl _ \<Rightarrow> True | Inr hir \<Rightarrow> length (hir_expressions hir) < 2 ^ 32))"

text \<open>The answer to a request agrees with what its source means on its own, and its artifact is valid in the store.\<close>

definition answers :: "parser \<Rightarrow> (string \<Rightarrow> u64 option) \<Rightarrow> hir_store \<Rightarrow> request \<Rightarrow> source_compile_error + source_compile_outcome \<Rightarrow> bool" where
  "answers parse parse_f64 store = (\<lambda>(file_name, source, entry) result.
     case result of
       Inl e \<Rightarrow> source_meaning parse parse_f64 file_name source entry = Some (Inl e)
     | Inr outcome \<Rightarrow>
         source_meaning parse parse_f64 file_name source entry =
           Some (Inr (sap_hir (css_program (sco_artifact outcome)), css_resolution (sco_artifact outcome)))
         \<and> artifact_ok store entry (sco_artifact outcome))"

lemma answers_le: "answers parse parse_f64 store request result \<Longrightarrow> store_le store store' \<Longrightarrow> answers parse parse_f64 store' request result"
  by (auto simp: answers_def artifact_ok_le split: sum.splits)

lemma outcome_answers:
  "outcome_ok parse parse_f64 file_name source entry self result self'
     \<Longrightarrow> answers parse parse_f64 (ss_arena self') (file_name, source, entry) result"
  by (auto simp: outcome_ok_def answers_def Let_def split: sum.splits)

lemma run_session_ok:
  assumes "session_ok parse parse_f64 self" "\<forall>request\<in>set requests. request_fits parse parse_f64 request"
    and "length (in_segments (st_inner (ss_arena self))) + length requests < 2 ^ 32"
    and "length (in_templates (st_inner (ss_arena self))) + length requests < 2 ^ 32"
  shows "\<exists>results self'. run_session parse parse_f64 requests self = Some (results, self')
    \<and> session_ok parse parse_f64 self' \<and> store_le (ss_arena self) (ss_arena self')
    \<and> list_all2 (answers parse parse_f64 (ss_arena self')) requests results"
  using assms
proof (induction requests arbitrary: self)
  case (Cons request requests)
  obtain file_name source entry where request: "request = (file_name, source, entry)" using prod_cases3 by blast
  have fits: "request_fits parse parse_f64 (file_name, source, entry)" using Cons.prems(2) request by simp
  then obtain parsed where parsed: "module_parse parse file_name source = Some parsed"
    by (auto simp: request_fits_def split: option.splits)
  have room: "arena_room (ss_arena self)" using Cons.prems(3,4) by (simp add: arena_room_def)
  have "length (hir_expressions hir) < 2 ^ 32" if "parsed = Inr source_mod" "lower_sequence parse_f64 source_mod entry = Inr hir"
    for source_mod hir using fits parsed that by (simp add: request_fits_def)
  then obtain result self1 where one: "compile_source parse parse_f64 file_name source entry self = Some (result, self1)"
      "outcome_ok parse parse_f64 file_name source entry self result self1"
    using compile_source_ok [OF Cons.prems(1) room parsed] by blast
  then have step: "session_ok parse parse_f64 self1" "store_le (ss_arena self) (ss_arena self1)"
      "at_most_one_more (ss_arena self) (ss_arena self1)" by (auto simp: outcome_ok_def)
  have "\<forall>r\<in>set requests. request_fits parse parse_f64 r" using Cons.prems(2) by simp
  moreover have "length (in_segments (st_inner (ss_arena self1))) + length requests < 2 ^ 32"
      "length (in_templates (st_inner (ss_arena self1))) + length requests < 2 ^ 32"
    using step(3) Cons.prems(3,4) by (auto simp: at_most_one_more_def)
  ultimately obtain results self' where rest: "run_session parse parse_f64 requests self1 = Some (results, self')"
      "session_ok parse parse_f64 self'" "store_le (ss_arena self1) (ss_arena self')"
      "list_all2 (answers parse parse_f64 (ss_arena self')) requests results" using Cons.IH [OF step(1)] by blast
  have "answers parse parse_f64 (ss_arena self') request result"
    using answers_le [OF outcome_answers [OF one(2)] rest(3)] request by simp
  then show ?case using one(1) rest store_le_trans [OF step(2) rest(3)] by (simp add: request)
qed simp

text \<open>
  C6. A new session answers every request of a run, in whatever order files, sources and entries come back: errors are
  those of the source on its own, and an artifact, compiled, reused from the same text or rebound to the same expressions,
  has the expressions and resolved names that this source has on its own and a template that represents them in the shared
  store, also after all later requests.
\<close>

theorem session_caches_transparent:
  assumes "\<forall>request\<in>set requests. request_fits parse parse_f64 request" "length requests < 2 ^ 32"
  shows "\<exists>results self'. run_session parse parse_f64 requests (fst (session_new next_id)) = Some (results, self')
    \<and> session_ok parse parse_f64 self' \<and> list_all2 (answers parse parse_f64 (ss_arena self')) requests results"
proof -
  obtain self next_id' where new: "session_new next_id = (self, next_id')" by fastforce
  have "in_segments (st_inner (ss_arena self)) = []" "in_templates (st_inner (ss_arena self)) = []"
    using new by (auto simp: session_new_def store_new_def Let_def)
  then show ?thesis using run_session_ok [OF session_new_ok [OF new] assms(1)] assms(2) new by auto
qed

theorem session_caches_transparent_witness:
  "request_fits (\<lambda>_. Inr example_tree) (\<lambda>_. None) (''a.py'', ''x'', ''f'')
    \<and> (\<exists>results self'. run_session (\<lambda>_. Inr example_tree) (\<lambda>_. None) [(''a.py'', ''x'', ''f''), (''a.py'', ''x'', ''f'')]
          (fst (session_new 1)) = Some (results, self') \<and> length results = 2)"
proof -
  let ?requests = "[(''a.py'', ''x'', ''f''), (''a.py'', ''x'', ''f'')]"
  have fits: "request_fits (\<lambda>_. Inr example_tree) (\<lambda>_. None) (''a.py'', ''x'', ''f'')"
    using example_wf(2) by (simp add: request_fits_def example_parses example_lowers)
  then obtain results self' where "run_session (\<lambda>_. Inr example_tree) (\<lambda>_. None) ?requests (fst (session_new 1)) = Some (results, self')"
      "list_all2 (answers (\<lambda>_. Inr example_tree) (\<lambda>_. None) (ss_arena self')) ?requests results"
    using session_caches_transparent [of ?requests "\<lambda>_. Inr example_tree" "\<lambda>_. None" 1] by auto
  then show ?thesis using fits by (auto dest!: list_all2_lengthD)
qed

end
