(* ===== verification/Value_Expr.thy ===== *)
theory Value_Expr
  imports Dag_Store
begin

text \<open>
  \<open>catseq-core/src/value_expr.rs\<close>: the arena of scalar and duration expressions, its validation and
  its builder.  An id is a 32-bit word read with \<open>unat\<close>; a length cast with \<open>as u32\<close> is \<open>of_nat\<close>.  A
  double is its bit pattern, and \<open>serde_json::Value\<close> is the datatype \<open>json_value\<close>, whose numbers keep the
  three representations of \<open>serde_json::Number\<close>.
\<close>

section \<open>Definitions\<close>

datatype json_value =
    JNull
  | JBool bool
  | JUnsigned int
  | JSigned int
  | JFloat u64
  | JString string
  | JArray "json_value list"
  | JObject "(string \<times> json_value) list"

type_synonym value_expr_id = u32

datatype value_expr_type = TBool | TInt64 | TFloat64 | TDuration | TString | TJson

datatype value_expr_kind =
    KConstant | KRuntimeSlot | KEnvironmentSlot | KIntrinsic
  | KAdd | KSubtract | KMultiply | KDivide | KModulo | KMaximum | KNegate | KRound

datatype rwg_waveform_derivation = RwgStatic | RwgLinear | RwgRampEndpoint

datatype value_expr_payload =
    PBool bool
  | PInt64 int
  | PFloat64 u64
  | PDurationCycles int
  | PString string
  | PJson json_value
  | PRuntimeSlot string
  | PEnvironmentSlot string
  | PRwgWaveforms rwg_waveform_derivation

record value_expr_node =
  ven_kind :: value_expr_kind
  ven_type :: value_expr_type
  ven_edge_start :: u32
  ven_edge_count :: u32
  ven_payload :: "u32 option"

record value_expr_arena =
  ve_nodes :: "value_expr_node list"
  ve_edges :: "value_expr_id list"
  ve_payloads :: "value_expr_payload list"

datatype value_expr_error =
    UnknownExpression
  | InvalidExprEdgeRange
  | InvalidExprPayload
  | UnknownExprChild nat
  | InvalidExprShape nat

definition ve_node :: "value_expr_arena \<Rightarrow> value_expr_id \<Rightarrow> value_expr_error + value_expr_node" where
  "ve_node self eid = ok_or UnknownExpression (nth_opt (ve_nodes self) (unat eid))"

definition ve_children :: "value_expr_arena \<Rightarrow> value_expr_id \<Rightarrow> value_expr_error + value_expr_id list" where
  "ve_children self eid =
     res_bind (ve_node self eid) (\<lambda>node.
       ok_or InvalidExprEdgeRange
         (slice_get (ve_edges self) (unat (ven_edge_start node)) (unat (ven_edge_count node))))"

definition ve_payload ::
  "value_expr_arena \<Rightarrow> value_expr_id \<Rightarrow> value_expr_error + value_expr_payload option" where
  "ve_payload self eid =
     res_bind (ve_node self eid) (\<lambda>node.
       case ven_payload node of
         None \<Rightarrow> Inr None
       | Some payload \<Rightarrow>
           res_bind (ok_or InvalidExprPayload (nth_opt (ve_payloads self) (unat payload)))
             (\<lambda>p. Inr (Some p)))"

fun payload_type :: "value_expr_payload \<Rightarrow> value_expr_type option" where
  "payload_type (PBool _) = Some TBool"
| "payload_type (PInt64 _) = Some TInt64"
| "payload_type (PFloat64 _) = Some TFloat64"
| "payload_type (PDurationCycles _) = Some TDuration"
| "payload_type (PString _) = Some TString"
| "payload_type (PJson _) = Some TJson"
| "payload_type (PRuntimeSlot _) = None"
| "payload_type (PEnvironmentSlot _) = None"
| "payload_type (PRwgWaveforms _) = None"

definition is_runtime_payload :: "value_expr_payload option \<Rightarrow> bool" where
  "is_runtime_payload p = (case p of Some (PRuntimeSlot _) \<Rightarrow> True | _ \<Rightarrow> False)"

definition is_environment_payload :: "value_expr_payload option \<Rightarrow> bool" where
  "is_environment_payload p = (case p of Some (PEnvironmentSlot _) \<Rightarrow> True | _ \<Rightarrow> False)"

definition is_waveform_payload :: "value_expr_payload option \<Rightarrow> bool" where
  "is_waveform_payload p = (case p of Some (PRwgWaveforms _) \<Rightarrow> True | _ \<Rightarrow> False)"

text \<open>The \<open>match\<close> on the kind: the shape is wrong.\<close>

definition ve_bad_shape ::
  "value_expr_node \<Rightarrow> value_expr_id list \<Rightarrow> value_expr_payload option \<Rightarrow> bool" where
  "ve_bad_shape node children payload =
     (case ven_kind node of
        KConstant \<Rightarrow> children \<noteq> [] \<or> Option.bind payload payload_type \<noteq> Some (ven_type node)
      | KRuntimeSlot \<Rightarrow> children \<noteq> [] \<or> \<not> is_runtime_payload payload
      | KEnvironmentSlot \<Rightarrow> children \<noteq> [] \<or> \<not> is_environment_payload payload
      | KIntrinsic \<Rightarrow> \<not> is_waveform_payload payload
      | KNegate \<Rightarrow> length children \<noteq> 1 \<or> payload \<noteq> None
      | KRound \<Rightarrow> length children \<noteq> 1 \<or> payload \<noteq> None
      | _ \<Rightarrow> length children \<noteq> 2 \<or> payload \<noteq> None)"

definition ve_validate_node :: "value_expr_arena \<Rightarrow> nat \<Rightarrow> value_expr_node \<Rightarrow> value_expr_error + unit" where
  "ve_validate_node self index node =
     (let eid = of_nat index in
      res_bind (ve_children self eid) (\<lambda>children.
      if list_ex (\<lambda>child. unat child \<ge> length (ve_nodes self)) children then Inl (UnknownExprChild index)
      else res_bind (ve_payload self eid) (\<lambda>payload.
        if ve_bad_shape node children payload then Inl (InvalidExprShape index) else Inr ())))"

definition ve_validate :: "value_expr_arena \<Rightarrow> value_expr_error + unit" where
  "ve_validate self =
     res_all (\<lambda>(index, node). ve_validate_node self index node) (enumerate 0 (ve_nodes self))"

subsection \<open>The builder\<close>

text \<open>The builder has the fields of the arena; every operation returns the new id and builder.\<close>

definition ve_builder_new :: value_expr_arena where
  "ve_builder_new = \<lparr>ve_nodes = [], ve_edges = [], ve_payloads = []\<rparr>"

definition ve_value_type :: "value_expr_arena \<Rightarrow> value_expr_id \<Rightarrow> value_expr_type option" where
  "ve_value_type self eid = map_option ven_type (nth_opt (ve_nodes self) (unat eid))"

definition ve_push :: "value_expr_node \<Rightarrow> value_expr_arena \<Rightarrow> value_expr_id \<times> value_expr_arena" where
  "ve_push node self =
     (of_nat (length (ve_nodes self)), self\<lparr>ve_nodes := ve_nodes self @ [node]\<rparr>)"

definition ve_leaf ::
  "value_expr_kind \<Rightarrow> value_expr_type \<Rightarrow> value_expr_payload \<Rightarrow> value_expr_arena
     \<Rightarrow> value_expr_id \<times> value_expr_arena" where
  "ve_leaf kind value_type payload self =
     (let payload_id = of_nat (length (ve_payloads self));
          self' = self\<lparr>ve_payloads := ve_payloads self @ [payload]\<rparr>
      in ve_push \<lparr>ven_kind = kind, ven_type = value_type,
           ven_edge_start = of_nat (length (ve_edges self')), ven_edge_count = 0,
           ven_payload = Some payload_id\<rparr> self')"

text \<open>\<open>None\<close> is the panic on a payload that is not a constant.\<close>

definition ve_constant ::
  "value_expr_payload \<Rightarrow> value_expr_arena \<Rightarrow> (value_expr_id \<times> value_expr_arena) option" where
  "ve_constant payload self =
     map_option (\<lambda>value_type. ve_leaf KConstant value_type payload self) (payload_type payload)"

definition ve_runtime_slot ::
  "string \<Rightarrow> value_expr_type \<Rightarrow> value_expr_arena \<Rightarrow> value_expr_id \<times> value_expr_arena" where
  "ve_runtime_slot name value_type self = ve_leaf KRuntimeSlot value_type (PRuntimeSlot name) self"

definition ve_environment_slot ::
  "string \<Rightarrow> value_expr_type \<Rightarrow> value_expr_arena \<Rightarrow> value_expr_id \<times> value_expr_arena" where
  "ve_environment_slot name value_type self =
     ve_leaf KEnvironmentSlot value_type (PEnvironmentSlot name) self"

definition ve_operation ::
  "value_expr_kind \<Rightarrow> value_expr_type \<Rightarrow> value_expr_id list \<Rightarrow> value_expr_arena
     \<Rightarrow> value_expr_id \<times> value_expr_arena" where
  "ve_operation kind value_type children self =
     (let edge_start = of_nat (length (ve_edges self));
          self' = self\<lparr>ve_edges := ve_edges self @ children\<rparr>
      in ve_push \<lparr>ven_kind = kind, ven_type = value_type, ven_edge_start = edge_start,
           ven_edge_count = of_nat (length children), ven_payload = None\<rparr> self')"

definition ve_rwg_waveforms ::
  "rwg_waveform_derivation \<Rightarrow> value_expr_id list \<Rightarrow> value_expr_arena
     \<Rightarrow> value_expr_id \<times> value_expr_arena" where
  "ve_rwg_waveforms derivation children self =
     (let edge_start = of_nat (length (ve_edges self));
          payload = of_nat (length (ve_payloads self));
          self' = self\<lparr>ve_edges := ve_edges self @ children,
                      ve_payloads := ve_payloads self @ [PRwgWaveforms derivation]\<rparr>
      in ve_push \<lparr>ven_kind = KIntrinsic, ven_type = TJson, ven_edge_start = edge_start,
           ven_edge_count = of_nat (length children), ven_payload = Some payload\<rparr> self')"

definition ve_finish :: "value_expr_arena \<Rightarrow> value_expr_error + value_expr_arena" where
  "ve_finish self = res_bind (ve_validate self) (\<lambda>_. Inr self)"

section \<open>Specification\<close>

text \<open>The children and the payload of a stored node, and when they fit the node.\<close>

definition ven_slice :: "value_expr_arena \<Rightarrow> value_expr_node \<Rightarrow> value_expr_id list" where
  "ven_slice a node = take (unat (ven_edge_count node)) (drop (unat (ven_edge_start node)) (ve_edges a))"

definition ven_value :: "value_expr_arena \<Rightarrow> value_expr_node \<Rightarrow> value_expr_payload option" where
  "ven_value a node = map_option (\<lambda>p. ve_payloads a ! unat p) (ven_payload node)"

definition ven_bounded :: "value_expr_arena \<Rightarrow> value_expr_node \<Rightarrow> bool" where
  "ven_bounded a node \<longleftrightarrow>
     unat (ven_edge_start node) + unat (ven_edge_count node) \<le> length (ve_edges a)
     \<and> (\<forall>p. ven_payload node = Some p \<longrightarrow> unat p < length (ve_payloads a))"

fun kind_arity :: "value_expr_kind \<Rightarrow> nat option" where
  "kind_arity KConstant = Some 0"
| "kind_arity KRuntimeSlot = Some 0"
| "kind_arity KEnvironmentSlot = Some 0"
| "kind_arity KIntrinsic = None"
| "kind_arity KNegate = Some 1"
| "kind_arity KRound = Some 1"
| "kind_arity _ = Some 2"

fun kind_payload_ok :: "value_expr_kind \<Rightarrow> value_expr_type \<Rightarrow> value_expr_payload option \<Rightarrow> bool" where
  "kind_payload_ok KConstant ty p = (\<exists>v. p = Some v \<and> payload_type v = Some ty)"
| "kind_payload_ok KRuntimeSlot ty p = (\<exists>n. p = Some (PRuntimeSlot n))"
| "kind_payload_ok KEnvironmentSlot ty p = (\<exists>n. p = Some (PEnvironmentSlot n))"
| "kind_payload_ok KIntrinsic ty p = (\<exists>d. p = Some (PRwgWaveforms d))"
| "kind_payload_ok k ty p = (p = None)"

definition value_node_ok :: "value_expr_arena \<Rightarrow> value_expr_node \<Rightarrow> bool" where
  "value_node_ok a node \<longleftrightarrow>
     ven_bounded a node
     \<and> (\<forall>c\<in>set (ven_slice a node). unat c < length (ve_nodes a))
     \<and> (\<forall>n. kind_arity (ven_kind node) = Some n \<longrightarrow> length (ven_slice a node) = n)
     \<and> kind_payload_ok (ven_kind node) (ven_type node) (ven_value a node)"

lemma ve_node_index: "i < length (ve_nodes a) \<Longrightarrow> i < 2 ^ 32 \<Longrightarrow> ve_node a (of_nat i) = Inr (ve_nodes a ! i)"
  by (simp add: ve_node_def)

lemma bad_shape_iff:
  "\<not> ve_bad_shape node children payload \<longleftrightarrow>
     (\<forall>n. kind_arity (ven_kind node) = Some n \<longrightarrow> length children = n)
     \<and> kind_payload_ok (ven_kind node) (ven_type node) payload"
  by (cases "ven_kind node"; cases payload)
    (auto simp: ve_bad_shape_def is_runtime_payload_def is_environment_payload_def is_waveform_payload_def
      split: value_expr_payload.splits)

lemma ve_validate_node_iff:
  assumes "i < length (ve_nodes a)" "i < 2 ^ 32"
  shows "ve_validate_node a i (ve_nodes a ! i) = Inr () \<longleftrightarrow> value_node_ok a (ve_nodes a ! i)"
proof -
  let ?n = "ve_nodes a ! i"
  have c: "ve_children a (of_nat i) = (if unat (ven_edge_start ?n) + unat (ven_edge_count ?n) \<le> length (ve_edges a)
      then Inr (ven_slice a ?n) else Inl InvalidExprEdgeRange)"
    by (simp add: ve_children_def ve_node_index [OF assms] slice_get_def ven_slice_def)
  have p: "ve_payload a (of_nat i) = (if \<forall>p. ven_payload ?n = Some p \<longrightarrow> unat p < length (ve_payloads a)
      then Inr (ven_value a ?n) else Inl InvalidExprPayload)"
    by (auto simp: ve_payload_def ve_node_index [OF assms] ven_value_def nth_opt_def split: option.splits)
  show ?thesis
    unfolding ve_validate_node_def Let_def c p value_node_ok_def ven_bounded_def
    using bad_shape_iff [of ?n "ven_slice a ?n" "ven_value a ?n"]
    by (auto simp: list_ex_iff not_le not_less)
qed

lemma enumerate_all:
  "(\<forall>x\<in>set (enumerate 0 xs). P (fst x) (snd x)) \<longleftrightarrow> (\<forall>i<length xs. P i (xs ! i))"
  by (force simp: set_conv_nth nth_enumerate_eq)

lemma ve_validate_iff:
  assumes "length (ve_nodes a) \<le> 2 ^ 32"
  shows "ve_validate a = Inr () \<longleftrightarrow> (\<forall>i<length (ve_nodes a). value_node_ok a (ve_nodes a ! i))"
proof -
  have "ve_validate a = Inr () \<longleftrightarrow>
      (\<forall>x\<in>set (enumerate 0 (ve_nodes a)). ve_validate_node a (fst x) (snd x) = Inr ())"
    by (simp add: ve_validate_def case_prod_beta)
  also have "\<dots> \<longleftrightarrow> (\<forall>i<length (ve_nodes a). ve_validate_node a i (ve_nodes a ! i) = Inr ())"
    by (rule enumerate_all)
  finally show ?thesis using assms ve_validate_node_iff [of _ a] by (metis order_less_le_trans)
qed

section \<open>Expressions as trees\<close>

type_synonym value_label = "value_expr_kind \<times> value_expr_type \<times> value_expr_payload option"

definition ve_label :: "value_expr_arena \<Rightarrow> nat \<Rightarrow> value_label" where
  "ve_label a i = (let n = ve_nodes a ! i in (ven_kind n, ven_type n, ven_value a n))"

definition ve_kids :: "value_expr_arena \<Rightarrow> nat \<Rightarrow> nat list" where
  "ve_kids a i = (if i < length (ve_nodes a) then map unat (ven_slice a (ve_nodes a ! i)) else [])"

definition ve_tree :: "value_expr_arena \<Rightarrow> value_expr_id \<Rightarrow> value_label rtree" where
  "ve_tree a eid = tree_at (ve_label a) (ve_kids a) (unat eid)"

definition ve_inv :: "value_expr_arena \<Rightarrow> bool" where
  "ve_inv a \<longleftrightarrow>
     (\<forall>i<length (ve_nodes a). ven_bounded a (ve_nodes a ! i)
        \<and> (\<forall>c\<in>set (ven_slice a (ve_nodes a ! i)). unat c < i))"

definition ve_room :: "value_expr_arena \<Rightarrow> value_expr_id list \<Rightarrow> bool" where
  "ve_room a children \<longleftrightarrow>
     length (ve_nodes a) < 2 ^ 32 \<and> length (ve_edges a) < 2 ^ 32 \<and> length (ve_payloads a) < 2 ^ 32
     \<and> length children < 2 ^ 32 \<and> (\<forall>c\<in>set children. unat c < length (ve_nodes a))"

lemma ve_inv_descending: "ve_inv a \<Longrightarrow> descending (ve_kids a)"
  by (auto simp: ve_inv_def descending_def ve_kids_def)

lemma ve_inv_new: "ve_inv ve_builder_new"
  by (simp add: ve_inv_def ve_builder_new_def)

text \<open>All operations of the builder add one node with its edges and at most one payload.\<close>

definition ve_add ::
  "value_expr_kind \<Rightarrow> value_expr_type \<Rightarrow> value_expr_payload option \<Rightarrow> value_expr_id list
     \<Rightarrow> value_expr_arena \<Rightarrow> value_expr_id \<times> value_expr_arena" where
  "ve_add kind ty payload children a =
     (of_nat (length (ve_nodes a)),
      \<lparr>ve_nodes = ve_nodes a @ [\<lparr>ven_kind = kind, ven_type = ty,
          ven_edge_start = of_nat (length (ve_edges a)), ven_edge_count = of_nat (length children),
          ven_payload = map_option (\<lambda>_. of_nat (length (ve_payloads a))) payload\<rparr>],
       ve_edges = ve_edges a @ children,
       ve_payloads = ve_payloads a @ (case payload of None \<Rightarrow> [] | Some p \<Rightarrow> [p])\<rparr>)"

lemma builder_adds:
  "ve_leaf kind ty payload a = ve_add kind ty (Some payload) [] a"
  "ve_operation kind ty children a = ve_add kind ty None children a"
  "ve_rwg_waveforms derivation children a = ve_add KIntrinsic TJson (Some (PRwgWaveforms derivation)) children a"
  by (simp_all add: ve_leaf_def ve_operation_def ve_rwg_waveforms_def ve_push_def ve_add_def Let_def)

lemma ve_add_old:
  assumes "ve_inv a" "i < length (ve_nodes a)" "(eid, a') = ve_add kind ty payload children a"
  shows "ve_nodes a' ! i = ve_nodes a ! i" "ven_slice a' (ve_nodes a ! i) = ven_slice a (ve_nodes a ! i)"
    "ven_bounded a' (ve_nodes a ! i)" "ven_value a' (ve_nodes a ! i) = ven_value a (ve_nodes a ! i)"
  using assms
  by (auto simp: ve_inv_def ve_add_def nth_append ven_slice_def ven_bounded_def ven_value_def
      split: option.splits intro!: option.map_cong)

lemma ve_add_new:
  assumes "ve_room a children" "(eid, a') = ve_add kind ty payload children a"
  shows "unat eid = length (ve_nodes a)" "length (ve_nodes a') = Suc (length (ve_nodes a))"
    "ven_slice a' (ve_nodes a' ! length (ve_nodes a)) = children"
    "ven_bounded a' (ve_nodes a' ! length (ve_nodes a))"
    "ve_label a' (length (ve_nodes a)) = (kind, ty, payload)"
  using assms
  by (auto simp: ve_room_def ve_add_def ven_slice_def ven_bounded_def ve_label_def ven_value_def Let_def
      split: option.splits)

lemma ve_add_inv:
  assumes inv: "ve_inv a" and room: "ve_room a children" and add: "(eid, a') = ve_add kind ty payload children a"
  shows "ve_inv a'"
  unfolding ve_inv_def
proof (intro allI impI)
  fix i assume "i < length (ve_nodes a')"
  then consider "i < length (ve_nodes a)" | "i = length (ve_nodes a)"
    using ve_add_new(2) [OF room add] by linarith
  then show "ven_bounded a' (ve_nodes a' ! i) \<and> (\<forall>c\<in>set (ven_slice a' (ve_nodes a' ! i)). unat c < i)"
  proof cases
    case 1
    then show ?thesis using ve_add_old [OF inv 1 add] inv by (simp add: ve_inv_def)
  next
    case 2
    then show ?thesis using ve_add_new [OF room add] room by (simp add: ve_room_def)
  qed
qed

lemma ve_add_tree:
  assumes inv: "ve_inv a" and room: "ve_room a children" and add: "(eid, a') = ve_add kind ty payload children a"
  shows "ve_tree a' eid = RNode (kind, ty, payload) (map (ve_tree a) children)"
    and "unat old < length (ve_nodes a) \<Longrightarrow> ve_tree a' old = ve_tree a old"
proof -
  note d = ve_inv_descending [OF inv] ve_inv_descending [OF ve_add_inv [OF inv room add]]
  have same: "ve_label a' j = ve_label a j" "ve_kids a' j = ve_kids a j" if "j < length (ve_nodes a)" for j
    using ve_add_old [OF inv that add] that ve_add_new(2) [OF room add] by (simp_all add: ve_label_def ve_kids_def)
  have old: "ve_tree a' c = ve_tree a c" if "unat c < length (ve_nodes a)" for c
    unfolding ve_tree_def using that same by (intro tree_at_stable [OF d]) simp_all
  show "unat old < length (ve_nodes a) \<Longrightarrow> ve_tree a' old = ve_tree a old" by (rule old)
  have k: "ve_kids a' (unat eid) = map unat children"
    using ve_add_new [OF room add] by (simp add: ve_kids_def)
  have "map (tree_at (ve_label a') (ve_kids a')) (map unat children) = map (ve_tree a) children"
    using old room by (simp add: ve_tree_def [symmetric] ve_room_def)
  then show "ve_tree a' eid = RNode (kind, ty, payload) (map (ve_tree a) children)"
    unfolding ve_tree_def [of a' eid] tree_at_unfold [OF d(2), of "ve_label a'" "unat eid"] k
    using ve_add_new [OF room add] by simp
qed

section \<open>Properties\<close>

text \<open>
  Validation accepts exactly the well-formed arenas: every edge range, child and payload is in
  bounds, every operator has its arity, and every payload is of the kind and type its node declares.
\<close>

theorem value_validate_exact:
  assumes "length (ve_nodes a) \<le> 2 ^ 32"
  shows "ve_validate a = Inr () \<longleftrightarrow> (\<forall>i<length (ve_nodes a). value_node_ok a (ve_nodes a ! i))"
  using assms by (rule ve_validate_iff)

theorem value_validate_exact_witness:
  "ve_validate (snd (ve_operation KAdd TInt64 [0, 0] (snd (ve_leaf KConstant TInt64 (PInt64 7) ve_builder_new))))
     = Inr ()"
  by (subst value_validate_exact)
    (auto simp: builder_adds ve_add_def ve_builder_new_def value_node_ok_def ven_bounded_def ven_slice_def
      ven_value_def nth_Cons' less_Suc_eq)

text \<open>
  The builder implements construction of expression trees: an operation yields a new id that
  denotes its operator applied to the trees of its operands, leaves every existing id with the tree it
  had, and keeps the store acyclic and in bounds.
\<close>

theorem value_builder_refines_trees:
  assumes "ve_inv a" "ve_room a children"
  shows "(case ve_operation kind ty children a of (eid, a') \<Rightarrow>
            ve_inv a' \<and> ve_tree a' eid = RNode (kind, ty, None) (map (ve_tree a) children)
            \<and> (\<forall>old. unat old < length (ve_nodes a) \<longrightarrow> ve_tree a' old = ve_tree a old))
       \<and> (case ve_leaf kind ty payload a of (eid, a') \<Rightarrow>
            ve_inv a' \<and> ve_tree a' eid = RNode (kind, ty, Some payload) []
            \<and> (\<forall>old. unat old < length (ve_nodes a) \<longrightarrow> ve_tree a' old = ve_tree a old))
       \<and> (case ve_rwg_waveforms derivation children a of (eid, a') \<Rightarrow>
            ve_inv a' \<and> ve_tree a' eid
              = RNode (KIntrinsic, TJson, Some (PRwgWaveforms derivation)) (map (ve_tree a) children)
            \<and> (\<forall>old. unat old < length (ve_nodes a) \<longrightarrow> ve_tree a' old = ve_tree a old))"
proof -
  have nil: "ve_room a []" using assms(2) by (simp add: ve_room_def)
  have step: "case ve_add k t p cs a of (eid, a') \<Rightarrow>
      ve_inv a' \<and> ve_tree a' eid = RNode (k, t, p) (map (ve_tree a) cs)
      \<and> (\<forall>old. unat old < length (ve_nodes a) \<longrightarrow> ve_tree a' old = ve_tree a old)"
    if "ve_room a cs" for k t p cs
  proof (cases "ve_add k t p cs a")
    case (Pair eid a')
    note add = Pair [symmetric]
    show ?thesis
      unfolding Pair prod.case using ve_add_inv [OF assms(1) that add] ve_add_tree [OF assms(1) that add] by blast
  qed
  show ?thesis unfolding builder_adds
    using step [OF assms(2)] step [OF nil, of kind ty "Some payload"] by simp
qed

theorem value_builder_refines_trees_witness:
  "ve_tree (snd (ve_leaf KConstant TBool (PBool True) ve_builder_new))
       (fst (ve_leaf KConstant TBool (PBool True) ve_builder_new))
     = RNode (KConstant, TBool, Some (PBool True)) []"
  using value_builder_refines_trees [OF ve_inv_new, of "[]" KConstant TBool "PBool True" RwgStatic]
  by (simp add: ve_room_def ve_builder_new_def case_prod_beta)

end
