(* ===== verification/Morphism_Arena.thy ===== *)
theory Morphism_Arena
  imports Value_Expr
begin

text \<open>
  \<open>catseq-core/src/morphism_arena.rs\<close>: the canonical morphism DAG, its validation, the builder with
  its flattening compositions and the pruning of \<open>finish\<close>.  Ids are 32-bit words; the hash maps of the
  interning tables are maps.  Assertions, slice and index panics of the builder are the value \<open>None\<close>.
\<close>

section \<open>Data\<close>

type_synonym morphism_node_id = u32

datatype boundary_policy = BAuto | BStrict

datatype wait_semantics = LogicalDisplacement | PhysicalInterval

datatype morphism_node_kind =
    MAtomic | MOpaque | MWait | MInstantiate | MDefinitionRef | MSerial | MParallel | MLoop | MSyncPhi

datatype morphism_payload =
    MpWait value_expr_id wait_semantics
  | MpAtomic u32 u32 u32
  | MpOpaque value_expr_id u32 u32 value_expr_id
  | MpInstantiate u32 u32
  | MpDefinitionRef u32 u32 u32
  | MpLoop value_expr_id

record opaque_board_call =
  call_board :: string
  call_callable :: string
  call_arguments :: value_expr_id
  call_keyword_arguments :: value_expr_id

record native_provenance =
  prov_owner :: string
  prov_line :: u32
  prov_column :: u32

record morphism_node =
  mn_kind :: morphism_node_kind
  mn_edge_start :: u32
  mn_edge_count :: u32
  mn_boundary_start :: u32
  mn_payload :: "u32 option"
  mn_provenance :: u32

record morphism_template =
  template_root :: morphism_node_id

record morphism_arena =
  ma_root :: morphism_node_id
  ma_nodes :: "morphism_node list"
  ma_edges :: "morphism_node_id list"
  ma_boundaries :: "boundary_policy list"
  ma_payloads :: "morphism_payload list"
  ma_value_arguments :: "value_expr_id list"
  ma_opaque_calls :: "opaque_board_call list"
  ma_templates :: "morphism_template list"
  ma_definitions :: "string list"
  ma_operations :: "string list"
  ma_channels :: "string list"
  ma_provenance :: "native_provenance list"

datatype morphism_arena_error =
    InvalidArgumentRange
  | InvalidOpaqueCallRange
  | UnknownMorphismNode
  | InvalidMorphismEdges
  | InvalidBoundaryRange
  | TemplateUnknownRoot nat
  | UnknownMorphismChild nat
  | SerialTooShort nat
  | ParallelTooShort nat
  | LoopBodyCount nat
  | LeafWithChildren nat
  | UnknownPayload nat
  | PayloadKindMismatch nat
  | UnknownOperation nat
  | UnknownTemplateOrChannel nat
  | UnknownDefinition nat
  | NoBoardCalls nat
  | EmptyCallIdentity nat
  | InvalidNodeCalls nat
  | InvalidNodeArguments nat
  | RootNotInBuilder

section \<open>Access and validation\<close>

definition ma_payload_arguments ::
  "morphism_arena \<Rightarrow> morphism_payload \<Rightarrow> morphism_arena_error + value_expr_id list" where
  "ma_payload_arguments self payload =
     (case payload of
        MpAtomic _ start count \<Rightarrow>
          ok_or InvalidArgumentRange (slice_get (ma_value_arguments self) (unat start) (unat count))
      | MpDefinitionRef _ start count \<Rightarrow>
          ok_or InvalidArgumentRange (slice_get (ma_value_arguments self) (unat start) (unat count))
      | _ \<Rightarrow> Inr [])"

definition ma_calls ::
  "morphism_arena \<Rightarrow> morphism_payload \<Rightarrow> morphism_arena_error + opaque_board_call list" where
  "ma_calls self payload =
     (case payload of
        MpOpaque _ call_start call_count _ \<Rightarrow>
          ok_or InvalidOpaqueCallRange
            (slice_get (ma_opaque_calls self) (unat call_start) (unat call_count))
      | _ \<Rightarrow> Inr [])"

definition ma_node :: "morphism_arena \<Rightarrow> morphism_node_id \<Rightarrow> morphism_arena_error + morphism_node" where
  "ma_node self mid = ok_or UnknownMorphismNode (nth_opt (ma_nodes self) (unat mid))"

definition ma_children ::
  "morphism_arena \<Rightarrow> morphism_node_id \<Rightarrow> morphism_arena_error + morphism_node_id list" where
  "ma_children self mid =
     res_bind (ma_node self mid) (\<lambda>node.
       ok_or InvalidMorphismEdges
         (slice_get (ma_edges self) (unat (mn_edge_start node)) (unat (mn_edge_count node))))"

definition ma_node_boundaries ::
  "morphism_arena \<Rightarrow> morphism_node_id \<Rightarrow> morphism_arena_error + boundary_policy list" where
  "ma_node_boundaries self mid =
     res_bind (ma_node self mid) (\<lambda>node.
       if mn_kind node \<noteq> MSerial then Inr []
       else ok_or InvalidBoundaryRange
              (slice_get (ma_boundaries self) (unat (mn_boundary_start node))
                 (unat (mn_edge_count node) - 1)))"

definition validate_arity ::
  "morphism_arena \<Rightarrow> nat \<Rightarrow> morphism_node \<Rightarrow> morphism_node_id list \<Rightarrow> morphism_arena_error + unit" where
  "validate_arity self index node children =
     (case mn_kind node of
        MSerial \<Rightarrow>
          if length children < 2 then Inl (SerialTooShort index)
          else res_bind (ma_node_boundaries self (of_nat index)) (\<lambda>_. Inr ())
      | MParallel \<Rightarrow> if length children < 2 then Inl (ParallelTooShort index) else Inr ()
      | MLoop \<Rightarrow> if length children \<noteq> 1 then Inl (LoopBodyCount index) else Inr ()
      | _ \<Rightarrow> if children \<noteq> [] then Inl (LeafWithChildren index) else Inr ())"

definition payload_matches_kind :: "morphism_node_kind \<Rightarrow> morphism_payload option \<Rightarrow> bool" where
  "payload_matches_kind kind payload =
     (case (kind, payload) of
        (MAtomic, Some (MpAtomic _ _ _)) \<Rightarrow> True
      | (MOpaque, Some (MpOpaque _ _ _ _)) \<Rightarrow> True
      | (MWait, Some (MpWait _ _)) \<Rightarrow> True
      | (MInstantiate, Some (MpInstantiate _ _)) \<Rightarrow> True
      | (MDefinitionRef, Some (MpDefinitionRef _ _ _)) \<Rightarrow> True
      | (MSerial, None) \<Rightarrow> True
      | (MParallel, None) \<Rightarrow> True
      | (MSyncPhi, None) \<Rightarrow> True
      | (MLoop, Some (MpLoop _)) \<Rightarrow> True
      | _ \<Rightarrow> False)"

definition validate_payload_refs ::
  "morphism_arena \<Rightarrow> nat \<Rightarrow> morphism_payload \<Rightarrow> morphism_arena_error + unit" where
  "validate_payload_refs self index payload =
     (case payload of
        MpAtomic operation _ _ \<Rightarrow>
          if unat operation \<ge> length (ma_operations self) then Inl (UnknownOperation index) else Inr ()
      | MpInstantiate template channel \<Rightarrow>
          if unat template \<ge> length (ma_templates self) \<or> unat channel \<ge> length (ma_channels self)
          then Inl (UnknownTemplateOrChannel index) else Inr ()
      | MpDefinitionRef definition' _ _ \<Rightarrow>
          if unat definition' \<ge> length (ma_definitions self) then Inl (UnknownDefinition index) else Inr ()
      | MpOpaque _ _ _ _ \<Rightarrow>
          res_bind (res_map_err (\<lambda>_. InvalidNodeCalls index) (ma_calls self payload)) (\<lambda>calls.
            if calls = [] then Inl (NoBoardCalls index)
            else if list_ex (\<lambda>c. call_board c = [] \<or> call_callable c = []) calls
            then Inl (EmptyCallIdentity index) else Inr ())
      | _ \<Rightarrow> Inr ())"

definition ma_validate_node ::
  "morphism_arena \<Rightarrow> nat \<Rightarrow> morphism_node \<Rightarrow> morphism_arena_error + unit" where
  "ma_validate_node self index node =
     res_bind (ma_children self (of_nat index)) (\<lambda>children.
     if list_ex (\<lambda>child. unat child \<ge> length (ma_nodes self)) children
     then Inl (UnknownMorphismChild index)
     else res_bind (validate_arity self index node children) (\<lambda>_.
       case mn_payload node of
         None \<Rightarrow>
           if payload_matches_kind (mn_kind node) None then Inr () else Inl (PayloadKindMismatch index)
       | Some p \<Rightarrow>
           if unat p \<ge> length (ma_payloads self) then Inl (UnknownPayload index)
           else (let payload = ma_payloads self ! unat p in
             if \<not> payload_matches_kind (mn_kind node) (Some payload)
             then Inl (PayloadKindMismatch index)
             else res_bind (validate_payload_refs self index payload) (\<lambda>_.
               res_bind (res_map_err (\<lambda>_. InvalidNodeArguments index) (ma_payload_arguments self payload))
                 (\<lambda>_. Inr ())))))"

definition ma_validate :: "morphism_arena \<Rightarrow> morphism_arena_error + unit" where
  "ma_validate self =
     res_bind (ma_node self (ma_root self)) (\<lambda>_.
     res_bind (res_all (\<lambda>(index, template).
         res_map_err (\<lambda>_. TemplateUnknownRoot index)
           (res_bind (ma_node self (template_root template)) (\<lambda>_. Inr ())))
       (enumerate 0 (ma_templates self))) (\<lambda>_.
     res_all (\<lambda>(index, node). ma_validate_node self index node) (enumerate 0 (ma_nodes self))))"

section \<open>The builder\<close>

record morphism_builder =
  mb_nodes :: "morphism_node list"
  mb_edges :: "morphism_node_id list"
  mb_boundaries :: "boundary_policy list"
  mb_payloads :: "morphism_payload list"
  mb_value_arguments :: "value_expr_id list"
  mb_opaque_calls :: "opaque_board_call list"
  mb_templates :: "morphism_template list"
  mb_definitions :: "string list"
  mb_definition_ids :: "string \<rightharpoonup> u32"
  mb_operations :: "string list"
  mb_operation_ids :: "string \<rightharpoonup> u32"
  mb_channels :: "string list"
  mb_channel_ids :: "string \<rightharpoonup> u32"
  mb_provenance :: "native_provenance list"

definition mb_new :: morphism_builder where
  "mb_new = \<lparr>mb_nodes = [], mb_edges = [], mb_boundaries = [], mb_payloads = [],
     mb_value_arguments = [], mb_opaque_calls = [], mb_templates = [],
     mb_definitions = [], mb_definition_ids = Map.empty,
     mb_operations = [], mb_operation_ids = Map.empty,
     mb_channels = [], mb_channel_ids = Map.empty, mb_provenance = []\<rparr>"

definition intern_provenance :: "native_provenance \<Rightarrow> morphism_builder \<Rightarrow> u32 \<times> morphism_builder" where
  "intern_provenance provenance self =
     (of_nat (length (mb_provenance self)), self\<lparr>mb_provenance := mb_provenance self @ [provenance]\<rparr>)"

definition intern_definition :: "string \<Rightarrow> morphism_builder \<Rightarrow> u32 \<times> morphism_builder" where
  "intern_definition value self =
     (case mb_definition_ids self value of
        Some i \<Rightarrow> (i, self)
      | None \<Rightarrow>
          (let i = of_nat (length (mb_definitions self))
           in (i, self\<lparr>mb_definitions := mb_definitions self @ [value],
                       mb_definition_ids := (mb_definition_ids self)(value \<mapsto> i)\<rparr>)))"

definition intern_operation :: "string \<Rightarrow> morphism_builder \<Rightarrow> u32 \<times> morphism_builder" where
  "intern_operation value self =
     (case mb_operation_ids self value of
        Some i \<Rightarrow> (i, self)
      | None \<Rightarrow>
          (let i = of_nat (length (mb_operations self))
           in (i, self\<lparr>mb_operations := mb_operations self @ [value],
                       mb_operation_ids := (mb_operation_ids self)(value \<mapsto> i)\<rparr>)))"

definition intern_channel :: "string \<Rightarrow> morphism_builder \<Rightarrow> u32 \<times> morphism_builder" where
  "intern_channel value self =
     (case mb_channel_ids self value of
        Some i \<Rightarrow> (i, self)
      | None \<Rightarrow>
          (let i = of_nat (length (mb_channels self))
           in (i, self\<lparr>mb_channels := mb_channels self @ [value],
                       mb_channel_ids := (mb_channel_ids self)(value \<mapsto> i)\<rparr>)))"

definition push_arguments :: "value_expr_id list \<Rightarrow> morphism_builder \<Rightarrow> (u32 \<times> u32) \<times> morphism_builder" where
  "push_arguments arguments self =
     ((of_nat (length (mb_value_arguments self)), of_nat (length arguments)),
      self\<lparr>mb_value_arguments := mb_value_arguments self @ arguments\<rparr>)"

definition push_payload :: "morphism_payload \<Rightarrow> morphism_builder \<Rightarrow> u32 \<times> morphism_builder" where
  "push_payload payload self =
     (of_nat (length (mb_payloads self)), self\<lparr>mb_payloads := mb_payloads self @ [payload]\<rparr>)"

definition push_node :: "morphism_node \<Rightarrow> morphism_builder \<Rightarrow> morphism_node_id \<times> morphism_builder" where
  "push_node node self =
     (of_nat (length (mb_nodes self)), self\<lparr>mb_nodes := mb_nodes self @ [node]\<rparr>)"

definition push_leaf ::
  "morphism_node_kind \<Rightarrow> u32 option \<Rightarrow> u32 \<Rightarrow> morphism_builder \<Rightarrow> morphism_node_id \<times> morphism_builder" where
  "push_leaf kind payload provenance self =
     push_node \<lparr>mn_kind = kind, mn_edge_start = of_nat (length (mb_edges self)), mn_edge_count = 0,
       mn_boundary_start = of_nat (length (mb_boundaries self)), mn_payload = payload,
       mn_provenance = provenance\<rparr> self"

definition push_composition ::
  "morphism_node_kind \<Rightarrow> morphism_node_id list \<Rightarrow> boundary_policy list \<Rightarrow> u32 \<Rightarrow> morphism_builder
     \<Rightarrow> morphism_node_id \<times> morphism_builder" where
  "push_composition kind children node_boundaries provenance self =
     (let edge_start = of_nat (length (mb_edges self));
          boundary_start = of_nat (length (mb_boundaries self));
          self' = self\<lparr>mb_edges := mb_edges self @ children,
                      mb_boundaries := mb_boundaries self @ node_boundaries\<rparr>
      in push_node \<lparr>mn_kind = kind, mn_edge_start = edge_start, mn_edge_count = of_nat (length children),
           mn_boundary_start = boundary_start, mn_payload = None, mn_provenance = provenance\<rparr> self')"

definition mb_definition_ref ::
  "string \<Rightarrow> value_expr_id list \<Rightarrow> u32 \<Rightarrow> morphism_builder \<Rightarrow> morphism_node_id \<times> morphism_builder" where
  "mb_definition_ref definition' arguments provenance self =
     (let (d, self1) = intern_definition definition' self;
          ((argument_start, argument_count), self2) = push_arguments arguments self1;
          (payload, self3) = push_payload (MpDefinitionRef d argument_start argument_count) self2
      in push_leaf MDefinitionRef (Some payload) provenance self3)"

definition mb_atomic ::
  "string \<Rightarrow> value_expr_id list \<Rightarrow> u32 \<Rightarrow> morphism_builder \<Rightarrow> morphism_node_id \<times> morphism_builder" where
  "mb_atomic operation arguments provenance self =
     (let (op', self1) = intern_operation operation self;
          ((argument_start, argument_count), self2) = push_arguments arguments self1;
          (payload, self3) = push_payload (MpAtomic op' argument_start argument_count) self2
      in push_leaf MAtomic (Some payload) provenance self3)"

definition mb_opaque ::
  "value_expr_id \<Rightarrow> (string \<times> string \<times> value_expr_id \<times> value_expr_id) list \<Rightarrow> value_expr_id \<Rightarrow> u32
     \<Rightarrow> morphism_builder \<Rightarrow> morphism_node_id \<times> morphism_builder" where
  "mb_opaque duration calls metadata provenance self =
     (let call_start = of_nat (length (mb_opaque_calls self));
          self1 = self\<lparr>mb_opaque_calls := mb_opaque_calls self @
            map (\<lambda>(board, callable, arguments, keyword_arguments).
              \<lparr>call_board = board, call_callable = callable, call_arguments = arguments,
               call_keyword_arguments = keyword_arguments\<rparr>) calls\<rparr>;
          (payload, self2) = push_payload
            (MpOpaque duration call_start (of_nat (length calls)) metadata) self1
      in push_leaf MOpaque (Some payload) provenance self2)"

definition time_displacement ::
  "value_expr_id \<Rightarrow> wait_semantics \<Rightarrow> u32 \<Rightarrow> morphism_builder \<Rightarrow> morphism_node_id \<times> morphism_builder" where
  "time_displacement duration semantics provenance self =
     (let (payload, self1) = push_payload (MpWait duration semantics) self
      in push_leaf MWait (Some payload) provenance self1)"

definition logical_shift ::
  "value_expr_id \<Rightarrow> u32 \<Rightarrow> morphism_builder \<Rightarrow> morphism_node_id \<times> morphism_builder" where
  "logical_shift duration provenance self = time_displacement duration LogicalDisplacement provenance self"

definition physical_wait ::
  "value_expr_id \<Rightarrow> u32 \<Rightarrow> morphism_builder \<Rightarrow> morphism_node_id \<times> morphism_builder" where
  "physical_wait duration provenance self = time_displacement duration PhysicalInterval provenance self"

definition publish_template :: "morphism_node_id \<Rightarrow> morphism_builder \<Rightarrow> (u32 \<times> morphism_builder) option" where
  "publish_template root_id self =
     (if unat root_id < length (mb_nodes self)
      then Some (of_nat (length (mb_templates self)),
                 self\<lparr>mb_templates := mb_templates self @ [\<lparr>template_root = root_id\<rparr>]\<rparr>)
      else None)"

definition mb_instantiate ::
  "u32 \<Rightarrow> string \<Rightarrow> u32 \<Rightarrow> morphism_builder \<Rightarrow> (morphism_node_id \<times> morphism_builder) option" where
  "mb_instantiate template channel provenance self =
     (if unat template < length (mb_templates self)
      then Some (let (c, self1) = intern_channel channel self;
                     (payload, self2) = push_payload (MpInstantiate template c) self1
                 in push_leaf MInstantiate (Some payload) provenance self2)
      else None)"

definition edges_of :: "morphism_builder \<Rightarrow> morphism_node \<Rightarrow> morphism_node_id list option" where
  "edges_of self node =
     slice_get (mb_edges self) (unat (mn_edge_start node)) (unat (mn_edge_count node))"

definition boundaries_of :: "morphism_builder \<Rightarrow> morphism_node \<Rightarrow> boundary_policy list option" where
  "boundaries_of self node =
     (if mn_edge_count node = 0 then None
      else slice_get (mb_boundaries self) (unat (mn_boundary_start node)) (unat (mn_edge_count node) - 1))"

text \<open>
  The flattening loop of \<open>serial\<close>: the boundary before every child but the first, then the child
  itself or, for a child that is a \<open>Serial\<close> node, its children and boundaries.
\<close>

fun flatten_serial ::
  "morphism_builder \<Rightarrow> (boundary_policy option \<times> morphism_node_id) list
     \<Rightarrow> morphism_node_id list \<Rightarrow> boundary_policy list
     \<Rightarrow> (morphism_node_id list \<times> boundary_policy list) option" where
  "flatten_serial self [] children boundaries = Some (children, boundaries)"
| "flatten_serial self ((before, child) # rest) children boundaries =
     (let boundaries1 = boundaries @ (case before of None \<Rightarrow> [] | Some b \<Rightarrow> [b])
      in do {
        node \<leftarrow> nth_opt (mb_nodes self) (unat child);
        if mn_kind node = MSerial then do {
          es \<leftarrow> edges_of self node;
          bs \<leftarrow> boundaries_of self node;
          flatten_serial self rest (children @ es) (boundaries1 @ bs) }
        else flatten_serial self rest (children @ [child]) boundaries1 })"

definition mb_serial ::
  "morphism_node_id list \<Rightarrow> boundary_policy list \<Rightarrow> u32 \<Rightarrow> morphism_builder
     \<Rightarrow> (morphism_node_id \<times> morphism_builder) option" where
  "mb_serial children boundaries provenance self =
     (if length children \<ge> 2 \<and> length boundaries + 1 = length children then do {
        (cs, bs) \<leftarrow> flatten_serial self (zip (None # map Some boundaries) children) [] [];
        Some (push_composition MSerial cs bs provenance self) }
      else None)"

fun flatten_parallel ::
  "morphism_builder \<Rightarrow> morphism_node_id list \<Rightarrow> morphism_node_id list \<Rightarrow> morphism_node_id list option" where
  "flatten_parallel self [] flattened = Some flattened"
| "flatten_parallel self (child # rest) flattened = do {
     node \<leftarrow> nth_opt (mb_nodes self) (unat child);
     if mn_kind node = MParallel then do {
       es \<leftarrow> edges_of self node;
       flatten_parallel self rest (flattened @ es) }
     else flatten_parallel self rest (flattened @ [child]) }"

definition mb_parallel ::
  "morphism_node_id list \<Rightarrow> u32 \<Rightarrow> morphism_builder \<Rightarrow> (morphism_node_id \<times> morphism_builder) option" where
  "mb_parallel children provenance self =
     (if length children \<ge> 2 then do {
        flattened \<leftarrow> flatten_parallel self children [];
        Some (push_composition MParallel flattened [] provenance self) }
      else None)"

definition loop_region ::
  "morphism_node_id \<Rightarrow> value_expr_id \<Rightarrow> u32 \<Rightarrow> morphism_builder \<Rightarrow> morphism_node_id \<times> morphism_builder" where
  "loop_region body count provenance self =
     (let edge_start = of_nat (length (mb_edges self));
          self1 = self\<lparr>mb_edges := mb_edges self @ [body]\<rparr>;
          (payload, self2) = push_payload (MpLoop count) self1;
          self3 = self2\<lparr>mb_nodes := mb_nodes self2 @ [\<lparr>mn_kind = MLoop, mn_edge_start = edge_start,
            mn_edge_count = 1, mn_boundary_start = of_nat (length (mb_boundaries self2)),
            mn_payload = Some payload, mn_provenance = provenance\<rparr>]\<rparr>
      in (of_nat (length (mb_nodes self3) - 1), self3))"

subsection \<open>Finishing\<close>

definition mb_get_kids :: "morphism_builder \<Rightarrow> nat \<Rightarrow> nat list option" where
  "mb_get_kids self i = do {
     node \<leftarrow> nth_opt (mb_nodes self) i;
     es \<leftarrow> edges_of self node;
     Some (map unat es) }"

text \<open>The first pass: number the reachable nodes and copy them.\<close>

fun number_reachable ::
  "(bool \<times> morphism_node) list \<Rightarrow> u32 option list \<Rightarrow> morphism_node list
     \<Rightarrow> u32 option list \<times> morphism_node list" where
  "number_reachable [] remap nodes = (remap, nodes)"
| "number_reachable ((reachable, node) # rest) remap nodes =
     (if reachable
      then number_reachable rest (remap @ [Some (of_nat (length nodes))]) (nodes @ [node])
      else number_reachable rest (remap @ [None]) nodes)"

definition remap_id :: "u32 option list \<Rightarrow> morphism_node_id \<Rightarrow> morphism_node_id option" where
  "remap_id remap mid = Option.bind (nth_opt remap (unat mid)) (\<lambda>x. x)"

fun option_traverse :: "('a \<Rightarrow> 'b option) \<Rightarrow> 'a list \<Rightarrow> 'b list option" where
  "option_traverse f [] = Some []"
| "option_traverse f (x # xs) = do { y \<leftarrow> f x; ys \<leftarrow> option_traverse f xs; Some (y # ys) }"

text \<open>The second pass: copy the edges and boundaries of the reachable nodes, renumbered.\<close>

fun copy_reachable ::
  "morphism_builder \<Rightarrow> u32 option list \<Rightarrow> (nat \<times> bool) list
     \<Rightarrow> morphism_node list \<Rightarrow> morphism_node_id list \<Rightarrow> boundary_policy list
     \<Rightarrow> (morphism_node list \<times> morphism_node_id list \<times> boundary_policy list) option" where
  "copy_reachable self remap [] nodes edges boundaries = Some (nodes, edges, boundaries)"
| "copy_reachable self remap ((old, reachable) # rest) nodes edges boundaries =
     (if \<not> reachable then copy_reachable self remap rest nodes edges boundaries
      else do {
        source \<leftarrow> nth_opt (mb_nodes self) old;
        target \<leftarrow> Option.bind (nth_opt remap old) (\<lambda>x. x);
        node \<leftarrow> nth_opt nodes (unat target);
        es \<leftarrow> edges_of self source;
        es' \<leftarrow> option_traverse (remap_id remap) es;
        bs \<leftarrow> (if mn_kind source = MSerial then boundaries_of self source else Some []);
        copy_reachable self remap rest
          (nodes[unat target := node\<lparr>mn_edge_start := of_nat (length edges),
                                     mn_boundary_start := of_nat (length boundaries)\<rparr>])
          (edges @ es') (boundaries @ bs) })"

definition mb_finish ::
  "morphism_node_id \<Rightarrow> morphism_builder \<Rightarrow> (morphism_arena_error + morphism_arena) option" where
  "mb_finish root_id self =
     (if unat root_id \<ge> length (mb_nodes self) then Some (Inl RootNotInBuilder)
      else do {
        reachable \<leftarrow> mark_reachable (mb_get_kids self) (replicate (length (mb_nodes self)) False)
          (rev (map unat (root_id # map template_root (mb_templates self))));
        let (remap, nodes) = number_reachable (zip reachable (mb_nodes self)) [] [];
        (nodes', edges, boundaries) \<leftarrow> copy_reachable self remap (enumerate 0 reachable) nodes [] [];
        templates \<leftarrow> option_traverse (\<lambda>t. map_option (\<lambda>r. \<lparr>template_root = r\<rparr>)
          (remap_id remap (template_root t))) (mb_templates self);
        root' \<leftarrow> remap_id remap root_id;
        let arena = \<lparr>ma_root = root', ma_nodes = nodes', ma_edges = edges, ma_boundaries = boundaries,
            ma_payloads = mb_payloads self, ma_value_arguments = mb_value_arguments self,
            ma_opaque_calls = mb_opaque_calls self, ma_templates = templates,
            ma_definitions = mb_definitions self, ma_operations = mb_operations self,
            ma_channels = mb_channels self, ma_provenance = mb_provenance self\<rparr>;
        Some (res_bind (ma_validate arena) (\<lambda>_. Inr arena)) })"

end
