(* ===== verification/Morphism_Soundness.thy ===== *)
theory Morphism_Soundness
  imports Morphism_Arena "HOL-Library.Sublist"
begin

text \<open>
  Correctness of the morphism arena.  Validation decides a declarative well-formedness; the builder
  keeps an invariant under which every node stands for a tree whose labels carry the looked-up names,
  arguments and calls; each operation has its meaning on those trees; and \<open>finish\<close>, which prunes and
  renumbers the store, keeps the trees of the root and of the templates.
\<close>


section \<open>Well-formed arenas\<close>

text \<open>What a payload says once the interning tables, argument and call ranges are looked up.\<close>

datatype morphism_content =
    CWait value_expr_id wait_semantics
  | CAtomic string "value_expr_id list"
  | COpaque value_expr_id "opaque_board_call list" value_expr_id
  | CInstantiate u32 string
  | CDefinitionRef string "value_expr_id list"
  | CLoop value_expr_id

definition ma_content :: "morphism_arena \<Rightarrow> morphism_payload \<Rightarrow> morphism_content" where
  "ma_content a payload =
     (case payload of
        MpWait d s \<Rightarrow> CWait d s
      | MpAtomic i start n \<Rightarrow>
          CAtomic (ma_operations a ! unat i) (take (unat n) (drop (unat start) (ma_value_arguments a)))
      | MpOpaque d start n meta \<Rightarrow>
          COpaque d (take (unat n) (drop (unat start) (ma_opaque_calls a))) meta
      | MpInstantiate t c \<Rightarrow> CInstantiate t (ma_channels a ! unat c)
      | MpDefinitionRef i start n \<Rightarrow>
          CDefinitionRef (ma_definitions a ! unat i) (take (unat n) (drop (unat start) (ma_value_arguments a)))
      | MpLoop c \<Rightarrow> CLoop c)"

definition mn_slice :: "morphism_arena \<Rightarrow> morphism_node \<Rightarrow> morphism_node_id list" where
  "mn_slice a n = take (unat (mn_edge_count n)) (drop (unat (mn_edge_start n)) (ma_edges a))"

definition bound_count :: "morphism_node \<Rightarrow> nat" where
  "bound_count n = (if mn_kind n = MSerial then unat (mn_edge_count n) - 1 else 0)"

definition mn_bounds :: "morphism_arena \<Rightarrow> morphism_node \<Rightarrow> boundary_policy list" where
  "mn_bounds a n = take (bound_count n) (drop (unat (mn_boundary_start n)) (ma_boundaries a))"

definition arity_ok :: "morphism_node_kind \<Rightarrow> nat \<Rightarrow> bool" where
  "arity_ok kind n \<longleftrightarrow>
     (if kind = MSerial \<or> kind = MParallel then n \<ge> 2 else if kind = MLoop then n = 1 else n = 0)"

definition payload_refs_ok :: "morphism_arena \<Rightarrow> morphism_payload \<Rightarrow> bool" where
  "payload_refs_ok a payload =
     (case payload of
        MpAtomic i start n \<Rightarrow> unat i < length (ma_operations a)
          \<and> unat start + unat n \<le> length (ma_value_arguments a)
      | MpDefinitionRef i start n \<Rightarrow> unat i < length (ma_definitions a)
          \<and> unat start + unat n \<le> length (ma_value_arguments a)
      | MpInstantiate t c \<Rightarrow> unat t < length (ma_templates a) \<and> unat c < length (ma_channels a)
      | MpOpaque _ start n _ \<Rightarrow> 0 < unat n \<and> unat start + unat n \<le> length (ma_opaque_calls a)
          \<and> (\<forall>c\<in>set (take (unat n) (drop (unat start) (ma_opaque_calls a))).
                call_board c \<noteq> [] \<and> call_callable c \<noteq> [])
      | _ \<Rightarrow> True)"

definition node_payload_ok :: "morphism_arena \<Rightarrow> morphism_node \<Rightarrow> bool" where
  "node_payload_ok a n =
     (case mn_payload n of
        None \<Rightarrow> payload_matches_kind (mn_kind n) None
      | Some p \<Rightarrow> unat p < length (ma_payloads a)
          \<and> payload_matches_kind (mn_kind n) (Some (ma_payloads a ! unat p))
          \<and> payload_refs_ok a (ma_payloads a ! unat p))"

definition ma_node_ok :: "morphism_arena \<Rightarrow> morphism_node \<Rightarrow> bool" where
  "ma_node_ok a n \<longleftrightarrow>
     unat (mn_edge_start n) + unat (mn_edge_count n) \<le> length (ma_edges a)
     \<and> (\<forall>c\<in>set (mn_slice a n). unat c < length (ma_nodes a))
     \<and> arity_ok (mn_kind n) (unat (mn_edge_count n))
     \<and> (mn_kind n = MSerial \<longrightarrow> unat (mn_boundary_start n) + bound_count n \<le> length (ma_boundaries a))
     \<and> node_payload_ok a n"

definition ma_wf :: "morphism_arena \<Rightarrow> bool" where
  "ma_wf a \<longleftrightarrow> unat (ma_root a) < length (ma_nodes a)
     \<and> (\<forall>t\<in>set (ma_templates a). unat (template_root t) < length (ma_nodes a))
     \<and> (\<forall>n\<in>set (ma_nodes a). ma_node_ok a n)"

section \<open>Validation decides well-formedness\<close>

lemma validate_arity_iff:
  assumes "i < length (ma_nodes a)" "i < 2 ^ 32" "ma_nodes a ! i = n" "length cs = unat (mn_edge_count n)"
  shows "validate_arity a i n cs = Inr () \<longleftrightarrow> arity_ok (mn_kind n) (unat (mn_edge_count n))
     \<and> (mn_kind n = MSerial \<longrightarrow> unat (mn_boundary_start n) + bound_count n \<le> length (ma_boundaries a))"
proof -
  have "ma_node_boundaries a (of_nat i) = (if mn_kind n \<noteq> MSerial then Inr [] else
      ok_or InvalidBoundaryRange (slice_get (ma_boundaries a) (unat (mn_boundary_start n)) (bound_count n)))"
    using assms(1-3) by (simp add: ma_node_boundaries_def ma_node_def nth_opt_def bound_count_def)
  then show ?thesis
    unfolding assms(4) [symmetric] by (cases "mn_kind n")
      (auto simp: validate_arity_def arity_ok_def res_simps slice_simps split: if_splits)
qed

lemma validate_refs_iff:
  "(res_bind (validate_payload_refs a i p) (\<lambda>_.
       res_bind (res_map_err (\<lambda>_. InvalidNodeArguments i) (ma_payload_arguments a p)) (\<lambda>_. Inr ())) = Inr ())
     \<longleftrightarrow> payload_refs_ok a p"
  by (cases p) (auto simp: validate_payload_refs_def ma_payload_arguments_def payload_refs_ok_def ma_calls_def
      res_simps slice_simps list_ex_iff not_le split: if_splits)

lemma ma_validate_node_iff:
  assumes "i < length (ma_nodes a)" "i < 2 ^ 32" "ma_nodes a ! i = n"
  shows "ma_validate_node a i n = Inr () \<longleftrightarrow> ma_node_ok a n"
proof (cases "unat (mn_edge_start n) + unat (mn_edge_count n) \<le> length (ma_edges a)")
  case True
  then have c: "ma_children a (of_nat i) = Inr (mn_slice a n)"
    using assms by (simp add: ma_children_def ma_node_def nth_opt_def slice_get_def mn_slice_def)
  have len: "length (mn_slice a n) = unat (mn_edge_count n)"
    using True by (simp add: mn_slice_def)
  note iffs = validate_arity_iff [OF assms len] validate_refs_iff [of a i]
  show ?thesis
  proof (cases "\<forall>c\<in>set (mn_slice a n). unat c < length (ma_nodes a)")
    case kids: True
    then have "\<not> list_ex (\<lambda>c. length (ma_nodes a) \<le> unat c) (mn_slice a n)" by (simp add: list_ex_iff not_le)
    then have "ma_validate_node a i n = Inr () \<longleftrightarrow> validate_arity a i n (mn_slice a n) = Inr () \<and> node_payload_ok a n"
      unfolding ma_validate_node_def c node_payload_ok_def iffs(2) [symmetric]
      by (cases "mn_payload n") (simp_all add: res_bind_Inr_iff Let_def)
    then show ?thesis using True kids iffs(1) by (auto simp: ma_node_ok_def)
  next
    case False
    then show ?thesis by (auto simp: ma_validate_node_def c ma_node_ok_def list_ex_iff not_less)
  qed
next
  case False
  then have "ma_children a (of_nat i) = Inl InvalidMorphismEdges"
    using assms by (simp add: ma_children_def ma_node_def nth_opt_def slice_get_def)
  then show ?thesis using False by (simp add: ma_validate_node_def ma_node_ok_def)
qed

lemma ma_validate_iff:
  assumes "length (ma_nodes a) \<le> 2 ^ 32"
  shows "ma_validate a = Inr () \<longleftrightarrow> ma_wf a"
proof -
  have root: "(\<exists>n. ma_node a m = Inr n) \<longleftrightarrow> unat m < length (ma_nodes a)" for m
    by (simp add: ma_node_def)
  have "(\<forall>x\<in>set (enumerate 0 (ma_nodes a)). ma_validate_node a (fst x) (snd x) = Inr ())
      \<longleftrightarrow> (\<forall>i<length (ma_nodes a). ma_node_ok a (ma_nodes a ! i))"
    unfolding enumerate_all [where P = "\<lambda>i n. ma_validate_node a i n = Inr ()"]
    using assms ma_validate_node_iff [of _ a] by (meson order_less_le_trans)
  moreover have "(\<forall>x\<in>set (enumerate 0 (ma_templates a)).
        \<exists>n. ma_node a (template_root (snd x)) = Inr n)
      \<longleftrightarrow> (\<forall>i<length (ma_templates a). unat (template_root (ma_templates a ! i)) < length (ma_nodes a))"
    unfolding root by (rule enumerate_all [where P = "\<lambda>_ t. unat (template_root t) < length (ma_nodes a)"])
  moreover have "ma_validate a = Inr () \<longleftrightarrow> (\<exists>n. ma_node a (ma_root a) = Inr n)
      \<and> (\<forall>x\<in>set (enumerate 0 (ma_templates a)). \<exists>n. ma_node a (template_root (snd x)) = Inr n)
      \<and> (\<forall>x\<in>set (enumerate 0 (ma_nodes a)). ma_validate_node a (fst x) (snd x) = Inr ())"
    by (simp add: ma_validate_def res_bind_Inr_iff case_prod_beta)
  ultimately show ?thesis
    unfolding ma_wf_def all_set_conv_all_nth [of "ma_templates a"] all_set_conv_all_nth [of "ma_nodes a"] root
    by (simp only:)
qed

section \<open>Trees of an arena\<close>

type_synonym morphism_label = "morphism_node_kind \<times> boundary_policy list \<times> morphism_content option \<times> u32"

definition ma_label :: "morphism_arena \<Rightarrow> nat \<Rightarrow> morphism_label" where
  "ma_label a i = (let n = ma_nodes a ! i in
     (mn_kind n, mn_bounds a n, map_option (\<lambda>p. ma_content a (ma_payloads a ! unat p)) (mn_payload n),
      mn_provenance n))"

definition ma_kids :: "morphism_arena \<Rightarrow> nat \<Rightarrow> nat list" where
  "ma_kids a i = (if i < length (ma_nodes a) then map unat (mn_slice a (ma_nodes a ! i)) else [])"

definition ma_tree :: "morphism_arena \<Rightarrow> morphism_node_id \<Rightarrow> morphism_label rtree" where
  "ma_tree a m = tree_at (ma_label a) (ma_kids a) (unat m)"

section \<open>Invariant of the builder\<close>

text \<open>The builder seen as an arena, so that both share the vocabulary above.\<close>

definition mb_view :: "morphism_node_id \<Rightarrow> morphism_builder \<Rightarrow> morphism_arena" where
  "mb_view m b = \<lparr>ma_root = m, ma_nodes = mb_nodes b, ma_edges = mb_edges b, ma_boundaries = mb_boundaries b,
     ma_payloads = mb_payloads b, ma_value_arguments = mb_value_arguments b,
     ma_opaque_calls = mb_opaque_calls b, ma_templates = mb_templates b,
     ma_definitions = mb_definitions b, ma_operations = mb_operations b,
     ma_channels = mb_channels b, ma_provenance = mb_provenance b\<rparr>"

lemma mb_view_simps [simp]:
  "ma_nodes (mb_view m b) = mb_nodes b" "ma_edges (mb_view m b) = mb_edges b"
  "ma_boundaries (mb_view m b) = mb_boundaries b" "ma_payloads (mb_view m b) = mb_payloads b"
  "ma_value_arguments (mb_view m b) = mb_value_arguments b"
  "ma_opaque_calls (mb_view m b) = mb_opaque_calls b" "ma_templates (mb_view m b) = mb_templates b"
  "ma_definitions (mb_view m b) = mb_definitions b" "ma_operations (mb_view m b) = mb_operations b"
  "ma_channels (mb_view m b) = mb_channels b" "ma_provenance (mb_view m b) = mb_provenance b"
  by (simp_all add: mb_view_def)

abbreviation mb_label :: "morphism_builder \<Rightarrow> nat \<Rightarrow> morphism_label" where
  "mb_label b \<equiv> ma_label (mb_view 0 b)"

abbreviation mb_kids :: "morphism_builder \<Rightarrow> nat \<Rightarrow> nat list" where
  "mb_kids b \<equiv> ma_kids (mb_view 0 b)"

abbreviation mb_slice :: "morphism_builder \<Rightarrow> nat \<Rightarrow> morphism_node_id list" where
  "mb_slice b i \<equiv> mn_slice (mb_view 0 b) (mb_nodes b ! i)"

abbreviation mb_bounds :: "morphism_builder \<Rightarrow> nat \<Rightarrow> boundary_policy list" where
  "mb_bounds b i \<equiv> mn_bounds (mb_view 0 b) (mb_nodes b ! i)"

definition mb_tree :: "morphism_builder \<Rightarrow> morphism_node_id \<Rightarrow> morphism_label rtree" where
  "mb_tree b = ma_tree (mb_view 0 b)"

text \<open>
  Besides well-formedness: children precede their parent, every table is as long as its ranges say
  and no composition sits directly below one of its own kind.
\<close>

definition mb_node_ok :: "morphism_builder \<Rightarrow> nat \<Rightarrow> bool" where
  "mb_node_ok b i \<longleftrightarrow> ma_node_ok (mb_view 0 b) (mb_nodes b ! i)
     \<and> unat (mn_boundary_start (mb_nodes b ! i)) + bound_count (mb_nodes b ! i) \<le> length (mb_boundaries b)
     \<and> (\<forall>c\<in>set (mb_slice b i). unat c < i \<and> (mn_kind (mb_nodes b ! i) \<in> {MSerial, MParallel} \<longrightarrow>
           mn_kind (mb_nodes b ! unat c) \<noteq> mn_kind (mb_nodes b ! i)))"

definition interned :: "(string \<rightharpoonup> u32) \<Rightarrow> string list \<Rightarrow> bool" where
  "interned ids names \<longleftrightarrow> (\<forall>v i. ids v = Some i \<longrightarrow> unat i < length names \<and> names ! unat i = v)"

definition mb_inv :: "morphism_builder \<Rightarrow> bool" where
  "mb_inv b \<longleftrightarrow>
     (\<forall>i<length (mb_nodes b). mb_node_ok b i)
     \<and> (\<forall>t\<in>set (mb_templates b). unat (template_root t) < length (mb_nodes b))
     \<and> length (mb_edges b) = sum_list (map (\<lambda>n. unat (mn_edge_count n)) (mb_nodes b))
     \<and> length (mb_boundaries b) = sum_list (map bound_count (mb_nodes b))
     \<and> (\<forall>p\<in>set (mb_payloads b). payload_refs_ok (mb_view 0 b) p)
     \<and> interned (mb_definition_ids b) (mb_definitions b)
     \<and> interned (mb_operation_ids b) (mb_operations b)
     \<and> interned (mb_channel_ids b) (mb_channels b)"

definition mb_small :: "morphism_builder \<Rightarrow> bool" where
  "mb_small b \<longleftrightarrow> length (mb_nodes b) < 2 ^ 32 \<and> length (mb_edges b) < 2 ^ 32
     \<and> length (mb_boundaries b) < 2 ^ 32 \<and> length (mb_payloads b) < 2 ^ 32
     \<and> length (mb_value_arguments b) < 2 ^ 32 \<and> length (mb_opaque_calls b) < 2 ^ 32
     \<and> length (mb_templates b) < 2 ^ 32 \<and> length (mb_definitions b) < 2 ^ 32
     \<and> length (mb_operations b) < 2 ^ 32 \<and> length (mb_channels b) < 2 ^ 32"

lemma mb_inv_node: "mb_inv b \<Longrightarrow> i < length (mb_nodes b) \<Longrightarrow> mb_node_ok b i"
  by (simp add: mb_inv_def)

lemma mb_inv_ranges:
  assumes "mb_inv b" "i < length (mb_nodes b)"
  shows "unat (mn_edge_start (mb_nodes b ! i)) + unat (mn_edge_count (mb_nodes b ! i)) \<le> length (mb_edges b)"
    "unat (mn_boundary_start (mb_nodes b ! i)) + bound_count (mb_nodes b ! i) \<le> length (mb_boundaries b)"
    "length (mb_slice b i) = unat (mn_edge_count (mb_nodes b ! i))"
    "length (mb_bounds b i) = bound_count (mb_nodes b ! i)"
proof -
  show r: "unat (mn_edge_start (mb_nodes b ! i)) + unat (mn_edge_count (mb_nodes b ! i)) \<le> length (mb_edges b)"
    "unat (mn_boundary_start (mb_nodes b ! i)) + bound_count (mb_nodes b ! i) \<le> length (mb_boundaries b)"
    using mb_inv_node [OF assms] by (simp_all add: mb_node_ok_def ma_node_ok_def)
  then show "length (mb_slice b i) = unat (mn_edge_count (mb_nodes b ! i))"
    "length (mb_bounds b i) = bound_count (mb_nodes b ! i)"
    by (simp_all add: mn_slice_def mn_bounds_def)
qed

lemma mb_inv_descending: "mb_inv b \<Longrightarrow> descending (mb_kids b)"
  by (auto simp: descending_def ma_kids_def mb_inv_def mb_node_ok_def)

lemma edges_of_Some: "mb_inv b \<Longrightarrow> i < length (mb_nodes b) \<Longrightarrow> edges_of b (mb_nodes b ! i) = Some (mb_slice b i)"
  using mb_inv_ranges(1) [of b i] by (simp add: edges_of_def mn_slice_def slice_get_def)

lemma boundaries_of_Some:
  assumes "mb_inv b" "i < length (mb_nodes b)" "mn_kind (mb_nodes b ! i) = MSerial"
  shows "boundaries_of b (mb_nodes b ! i) = Some (mb_bounds b i)"
proof -
  have "mn_edge_count (mb_nodes b ! i) \<noteq> 0"
    using mb_inv_node [OF assms(1,2)] assms(3) by (auto simp: mb_node_ok_def ma_node_ok_def arity_ok_def)
  with mb_inv_ranges(2) [OF assms(1,2)] assms(3) show ?thesis
    by (simp add: boundaries_of_def mn_bounds_def slice_get_def bound_count_def)
qed

lemma mb_get_kids_Some: "mb_inv b \<Longrightarrow> i < length (mb_nodes b) \<Longrightarrow> mb_get_kids b i = Some (mb_kids b i)"
  by (simp add: mb_get_kids_def nth_opt_def edges_of_Some ma_kids_def)

lemma mb_kids_bounded: "mb_inv b \<Longrightarrow> j \<in> set (mb_kids b i) \<Longrightarrow> j < length (mb_nodes b)"
  using descendingD [OF mb_inv_descending] by (fastforce simp: ma_kids_def split: if_splits)


section \<open>Renumbering the reachable nodes\<close>

definition rank :: "bool list \<Rightarrow> nat \<Rightarrow> nat" where
  "rank marks i = length (filter (\<lambda>j. marks ! j) [0..<i])"

definition kept :: "bool list \<Rightarrow> nat list" where
  "kept marks = filter (\<lambda>j. marks ! j) [0..<length marks]"

lemma rank_Suc: "rank marks (Suc i) = rank marks i + (if marks ! i then 1 else 0)"
  by (simp add: rank_def)

lemma rank_mono: "i \<le> j \<Longrightarrow> rank marks i \<le> rank marks j"
  by (induction j rule: dec_induct) (auto simp: rank_Suc)

lemma rank_strict: "i < j \<Longrightarrow> marks ! i \<Longrightarrow> rank marks i < rank marks j"
  using rank_mono [of "Suc i" j marks] by (simp add: rank_Suc)

lemma rank_le: "rank marks i \<le> i"
  unfolding rank_def using length_filter_le [of _ "[0..<i]"] by simp

lemma kept_rank:
  assumes "i < length marks" "marks ! i"
  shows "rank marks i < length (kept marks)" "kept marks ! rank marks i = i"
proof -
  have "[0..<length marks] = [0..<i] @ i # [Suc i..<length marks]"
    using assms(1) by (metis upt_add_eq_append upt_conv_Cons less_imp_le_nat le_add_diff_inverse zero_le)
  then have "kept marks = filter (\<lambda>j. marks ! j) [0..<i] @ i # filter (\<lambda>j. marks ! j) [Suc i..<length marks]"
    using assms(2) by (simp add: kept_def)
  then show "rank marks i < length (kept marks)" "kept marks ! rank marks i = i"
    by (simp_all add: rank_def nth_append)
qed

lemma rank_kept:
  assumes "k < length (kept marks)"
  shows "kept marks ! k < length marks" "marks ! (kept marks ! k)" "rank marks (kept marks ! k) = k"
proof -
  have "kept marks ! k \<in> set (kept marks)" using assms by (rule nth_mem)
  then show m: "kept marks ! k < length marks" "marks ! (kept marks ! k)" by (auto simp: kept_def)
  have "distinct (kept marks)" by (simp add: kept_def)
  with kept_rank [OF m] assms show "rank marks (kept marks ! k) = k"
    by (metis nth_eq_iff_index_eq)
qed

lemma number_reachable_result:
  assumes "length marks = length nodes"
  shows "number_reachable (zip marks nodes) [] []
    = (map (\<lambda>i. if marks ! i then Some (of_nat (rank marks i)) else None) [0..<length marks],
       map (nth nodes) (kept marks))"
proof -
  have "k \<le> length marks \<Longrightarrow>
      number_reachable (drop k (zip marks nodes))
        (map (\<lambda>i. if marks ! i then Some (of_nat (rank marks i)) else None) [0..<k])
        (map (nth nodes) (filter (\<lambda>j. marks ! j) [0..<k]))
      = (map (\<lambda>i. if marks ! i then Some (of_nat (rank marks i)) else None) [0..<length marks],
         map (nth nodes) (kept marks))" for k
  proof (induction "length marks - k" arbitrary: k)
    case 0
    then show ?case using assms by (simp add: kept_def)
  next
    case (Suc m)
    then have k: "k < length marks" by simp
    then have "drop k (zip marks nodes) = (marks ! k, nodes ! k) # drop (Suc k) (zip marks nodes)"
      using assms by (simp add: Cons_nth_drop_Suc [symmetric])
    then show ?case using Suc.hyps(1) [of "Suc k"] Suc.hyps(2) k
      by (cases "marks ! k") (simp_all add: rank_def)
  qed
  from this [of 0] show ?thesis by simp
qed


section \<open>The copying pass\<close>

lemma slice_of_concat:
  assumes "r < length xss"
  shows "take (length (xss ! r)) (drop (sum_list (map length (take r xss))) (concat xss)) = xss ! r"
    "sum_list (map length (take r xss)) + length (xss ! r) \<le> length (concat xss)"
proof -
  have split: "xss = take r xss @ xss ! r # drop (Suc r) xss" using assms by (rule id_take_nth_drop)
  then have c: "concat xss = concat (take r xss) @ xss ! r @ concat (drop (Suc r) xss)"
    by (metis concat.simps(2) concat_append)
  have l: "length (concat (take r xss)) = sum_list (map length (take r xss))" by (rule length_concat)
  show "take (length (xss ! r)) (drop (sum_list (map length (take r xss))) (concat xss)) = xss ! r"
    unfolding c l [symmetric] by simp
  show "sum_list (map length (take r xss)) + length (xss ! r) \<le> length (concat xss)"
    unfolding c l [symmetric] by simp
qed

lemma option_traverse_map: "(\<And>x. x \<in> set xs \<Longrightarrow> f x = Some (g x)) \<Longrightarrow> option_traverse f xs = Some (map g xs)"
  by (induction xs) auto

fun relocate :: "morphism_builder \<Rightarrow> nat list \<Rightarrow> nat \<Rightarrow> nat \<Rightarrow> morphism_node list" where
  "relocate b [] e d = []"
| "relocate b (i # is) e d =
     (mb_nodes b ! i)\<lparr>mn_edge_start := of_nat e, mn_boundary_start := of_nat d\<rparr>
       # relocate b is (e + length (mb_slice b i)) (d + length (mb_bounds b i))"

lemma length_relocate [simp]: "length (relocate b is e d) = length is"
  by (induction "is" arbitrary: e d) auto

lemma relocate_nth:
  "r < length is \<Longrightarrow> relocate b is e d ! r = (mb_nodes b ! (is ! r))
     \<lparr>mn_edge_start := of_nat (e + sum_list (map (\<lambda>i. length (mb_slice b i)) (take r is))),
      mn_boundary_start := of_nat (d + sum_list (map (\<lambda>i. length (mb_bounds b i)) (take r is)))\<rparr>"
proof (induction "is" arbitrary: e d r)
  case (Cons i "is")
  then show ?case by (cases r) (simp_all add: add.assoc)
qed simp

definition renamed :: "bool list \<Rightarrow> u32 \<Rightarrow> u32" where
  "renamed marks m = of_nat (rank marks (unat m))"

definition remap_of :: "bool list \<Rightarrow> u32 option list" where
  "remap_of marks = map (\<lambda>i. if marks ! i then Some (of_nat (rank marks i)) else None) [0..<length marks]"

lemma remap_id_marked:
  "unat m < length marks \<Longrightarrow> marks ! unat m \<Longrightarrow> remap_id (remap_of marks) m = Some (renamed marks m)"
  by (simp add: remap_id_def remap_of_def nth_opt_def renamed_def)

lemma copy_reachable_result:
  assumes inv: "mb_inv b" and len: "length marks = length (mb_nodes b)" "length marks < 2 ^ 32"
    and closed: "\<And>i c. i < length marks \<Longrightarrow> marks ! i \<Longrightarrow> c \<in> set (mb_slice b i) \<Longrightarrow> unat c < length marks \<and> marks ! unat c"
  shows "k \<le> length marks \<Longrightarrow> length pre = rank marks k \<Longrightarrow>
    copy_reachable b (remap_of marks) (enumerate k (drop k marks))
        (pre @ map (nth (mb_nodes b)) (filter (nth marks) [k..<length marks])) es bs
      = Some (pre @ relocate b (filter (nth marks) [k..<length marks]) (length es) (length bs),
              es @ concat (map (\<lambda>i. map (renamed marks) (mb_slice b i)) (filter (nth marks) [k..<length marks])),
              bs @ concat (map (mb_bounds b) (filter (nth marks) [k..<length marks])))"
proof (induction "length marks - k" arbitrary: k pre es bs)
  case 0
  then show ?case by simp
next
  case (Suc m)
  then have k: "k < length marks" by simp
  have d: "enumerate k (drop k marks) = (k, marks ! k) # enumerate (Suc k) (drop (Suc k) marks)"
    using k by (simp add: Cons_nth_drop_Suc [symmetric])
  have u: "[k..<length marks] = k # [Suc k..<length marks]" using k by (rule upt_conv_Cons)
  show ?case
  proof (cases "marks ! k")
    case False
    then show ?thesis using Suc.hyps(1) [of "Suc k" pre es bs] Suc.hyps(2) Suc.prems k
      unfolding d u by (simp add: rank_Suc)
  next
    case True
    have rk: "rank marks k < 2 ^ 32" using rank_le [of marks k] k len(2) by simp
    have es: "option_traverse (remap_id (remap_of marks)) (mb_slice b k) = Some (map (renamed marks) (mb_slice b k))"
      using closed [OF k True] by (intro option_traverse_map remap_id_marked) auto
    have bs: "(if mn_kind (mb_nodes b ! k) = MSerial then boundaries_of b (mb_nodes b ! k) else Some [])
        = Some (mb_bounds b k)"
      using boundaries_of_Some [OF inv] k len(1) by (simp add: mn_bounds_def bound_count_def)
    have t: "nth_opt (remap_of marks) k = Some (Some (of_nat (rank marks k)))"
      using k True by (simp add: remap_of_def)
    let ?n = "(mb_nodes b ! k)\<lparr>mn_edge_start := of_nat (length es), mn_boundary_start := of_nat (length bs)\<rparr>"
    have at: "nth_opt (pre @ mb_nodes b ! k # rest) (rank marks k) = Some (mb_nodes b ! k)"
      "(pre @ mb_nodes b ! k # rest)[rank marks k := ?n] = (pre @ [?n]) @ rest" for rest
      using Suc.prems(2) by (simp_all add: nth_opt_def nth_append list_update_append)
    have src: "nth_opt (mb_nodes b) k = Some (mb_nodes b ! k)" using k len(1) by simp
    have "copy_reachable b (remap_of marks) ((k, True) # todo) (pre @ mb_nodes b ! k # rest) es bs
        = copy_reachable b (remap_of marks) todo ((pre @ [?n]) @ rest)
            (es @ map (renamed marks) (mb_slice b k)) (bs @ mb_bounds b k)" for todo rest
      using k len(1) rk unfolding copy_reachable.simps src t
      by (simp add: at es bs edges_of_Some [OF inv] del: append_assoc)
    then show ?thesis
      using Suc.hyps(1) [of "Suc k" "pre @ [?n]" "es @ map (renamed marks) (mb_slice b k)" "bs @ mb_bounds b k"]
        Suc.hyps(2) Suc.prems k True
      unfolding d u by (simp add: rank_Suc)
  qed
qed

section \<open>The finished arena\<close>

definition pruned :: "morphism_node_id \<Rightarrow> morphism_builder \<Rightarrow> bool list \<Rightarrow> morphism_arena" where
  "pruned m b marks = (mb_view (renamed marks m) b)
     \<lparr>ma_nodes := relocate b (kept marks) 0 0,
      ma_edges := concat (map (\<lambda>i. map (renamed marks) (mb_slice b i)) (kept marks)),
      ma_boundaries := concat (map (mb_bounds b) (kept marks)),
      ma_templates := map (\<lambda>t. \<lparr>template_root = renamed marks (template_root t)\<rparr>) (mb_templates b)\<rparr>"

lemma pruned_simps [simp]:
  "ma_root (pruned m b marks) = renamed marks m"
  "ma_nodes (pruned m b marks) = relocate b (kept marks) 0 0"
  "ma_edges (pruned m b marks) = concat (map (\<lambda>i. map (renamed marks) (mb_slice b i)) (kept marks))"
  "ma_boundaries (pruned m b marks) = concat (map (mb_bounds b) (kept marks))"
  "ma_payloads (pruned m b marks) = mb_payloads b"
  "ma_value_arguments (pruned m b marks) = mb_value_arguments b"
  "ma_opaque_calls (pruned m b marks) = mb_opaque_calls b"
  "ma_templates (pruned m b marks) = map (\<lambda>t. \<lparr>template_root = renamed marks (template_root t)\<rparr>) (mb_templates b)"
  "ma_definitions (pruned m b marks) = mb_definitions b" "ma_operations (pruned m b marks) = mb_operations b"
  "ma_channels (pruned m b marks) = mb_channels b" "ma_provenance (pruned m b marks) = mb_provenance b"
  by (simp_all add: pruned_def mb_view_def)

text \<open>The marks cover the root and the templates and are closed under children.\<close>

definition marks_ok :: "morphism_node_id \<Rightarrow> morphism_builder \<Rightarrow> bool list \<Rightarrow> bool" where
  "marks_ok m b marks \<longleftrightarrow> length marks = length (mb_nodes b)
     \<and> marked marks = reachable_from (mb_kids b) (unat ` insert m (template_root ` set (mb_templates b)))"

lemma marks_closed:
  assumes "marks_ok m b marks" "mb_inv b" "i < length marks" "marks ! i" "c \<in> set (mb_slice b i)"
  shows "unat c < length marks \<and> marks ! unat c"
proof -
  have "i \<in> marked marks" using assms(3,4) by (simp add: marked_def)
  moreover have "unat c \<in> set (mb_kids b i)"
    using assms by (simp add: ma_kids_def marks_ok_def)
  ultimately have "unat c \<in> marked marks"
    using assms(1) by (auto simp: marks_ok_def intro: reachable_from.kid)
  then show ?thesis by (simp add: marked_def)
qed

lemma marks_roots:
  assumes "marks_ok m b marks" "t = m \<or> t \<in> template_root ` set (mb_templates b)"
  shows "unat t < length marks \<and> marks ! unat t"
proof -
  have "unat t \<in> marked marks" using assms by (auto simp: marks_ok_def intro!: reachable_from.root)
  then show ?thesis by (simp add: marked_def)
qed

lemma marks_found:
  assumes "mb_inv b" "unat m < length (mb_nodes b)"
  shows "\<exists>marks. marks_ok m b marks \<and>
    mark_reachable (mb_get_kids b) (replicate (length (mb_nodes b)) False)
      (rev (map unat (m # map template_root (mb_templates b)))) = Some marks"
proof -
  let ?marks = "replicate (length (mb_nodes b)) False"
    and ?pending = "rev (map unat (m # map template_root (mb_templates b)))"
  have "marked ?marks = {}" by (auto simp: marked_def)
  moreover have "set ?pending = unat ` insert m (template_root ` set (mb_templates b))" by auto
  moreover have "\<forall>i\<in>set ?pending. i < length (mb_nodes b)"
    using assms by (auto simp: mb_inv_def)
  ultimately show ?thesis
    using mark_reachable_correct [of ?marks "mb_get_kids b" "mb_kids b" ?pending]
      mb_get_kids_Some [OF assms(1)] mb_kids_bounded [OF assms(1)]
    by (auto simp: marks_ok_def)
qed

lemma mb_finish_pruned:
  assumes inv: "mb_inv b" and m: "unat m < length (mb_nodes b)" and small: "mb_small b"
  shows "\<exists>marks. marks_ok m b marks \<and>
    mb_finish m b = Some (res_bind (ma_validate (pruned m b marks)) (\<lambda>_. Inr (pruned m b marks)))"
proof -
  from marks_found [OF inv m] obtain marks where ok: "marks_ok m b marks"
    and mark: "mark_reachable (mb_get_kids b) (replicate (length (mb_nodes b)) False)
      (rev (map unat (m # map template_root (mb_templates b)))) = Some marks" by blast
  then have len: "length marks = length (mb_nodes b)" by (simp add: marks_ok_def)
  have len32: "length marks < 2 ^ 32" using small len by (simp add: mb_small_def)
  have num: "number_reachable (zip marks (mb_nodes b)) [] [] = (remap_of marks, map (nth (mb_nodes b)) (kept marks))"
    using number_reachable_result [OF len] by (simp add: remap_of_def)
  have copy: "copy_reachable b (remap_of marks) (enumerate 0 marks) (map (nth (mb_nodes b)) (kept marks)) [] []
      = Some (relocate b (kept marks) 0 0,
          concat (map (\<lambda>i. map (renamed marks) (mb_slice b i)) (kept marks)), concat (map (mb_bounds b) (kept marks)))"
    using copy_reachable_result [OF inv len len32 marks_closed [OF ok inv],
        where k = 0 and pre = "[]" and es = "[]" and bs = "[]"]
    by (simp add: kept_def rank_def)
  have tmpl: "option_traverse (\<lambda>t. map_option (\<lambda>r. \<lparr>template_root = r\<rparr>) (remap_id (remap_of marks) (template_root t)))
      (mb_templates b) = Some (map (\<lambda>t. \<lparr>template_root = renamed marks (template_root t)\<rparr>) (mb_templates b))"
    using marks_roots [OF ok] by (intro option_traverse_map) (simp add: remap_id_marked)
  have root: "remap_id (remap_of marks) m = Some (renamed marks m)"
    using marks_roots [OF ok, of m] by (simp add: remap_id_marked)
  have "mb_finish m b = Some (res_bind (ma_validate (pruned m b marks)) (\<lambda>_. Inr (pruned m b marks)))"
    using m unfolding mb_finish_def mark
    by (simp add: num copy tmpl root pruned_def mb_view_def [of "renamed marks m"] Let_def)
  with ok show ?thesis by blast
qed

lemma kept_sum_bound:
  fixes f :: "nat \<Rightarrow> nat"
  shows "sum_list (map f (take r (kept marks))) \<le> sum_list (map f [0..<length marks])"
proof -
  have "sum_list (map f (kept marks)) = sum_list (map f (take r (kept marks))) + sum_list (map f (drop r (kept marks)))"
    by (metis append_take_drop_id map_append sum_list_append)
  moreover have "sum_list (map f (kept marks)) \<le> sum_list (map f [0..<length marks])"
    unfolding kept_def by (rule sum_list_filter_le_nat)
  ultimately show ?thesis by linarith
qed

lemma total_lengths:
  assumes "mb_inv b"
  shows "sum_list (map (\<lambda>i. length (mb_slice b i)) [0..<length (mb_nodes b)]) = length (mb_edges b)"
    "sum_list (map (\<lambda>i. length (mb_bounds b i)) [0..<length (mb_nodes b)]) = length (mb_boundaries b)"
proof -
  have n: "map f (mb_nodes b) = map (\<lambda>i. f (mb_nodes b ! i)) [0..<length (mb_nodes b)]" for f :: "morphism_node \<Rightarrow> nat"
    by (rule nth_equalityI) auto
  have "map (\<lambda>i. length (mb_slice b i)) [0..<length (mb_nodes b)] = map (\<lambda>n. unat (mn_edge_count n)) (mb_nodes b)"
    unfolding n using mb_inv_ranges(3) [OF assms] by simp
  then show "sum_list (map (\<lambda>i. length (mb_slice b i)) [0..<length (mb_nodes b)]) = length (mb_edges b)"
    using assms by (simp add: mb_inv_def)
  have "map (\<lambda>i. length (mb_bounds b i)) [0..<length (mb_nodes b)] = map bound_count (mb_nodes b)"
    unfolding n using mb_inv_ranges(4) [OF assms] by simp
  then show "sum_list (map (\<lambda>i. length (mb_bounds b i)) [0..<length (mb_nodes b)]) = length (mb_boundaries b)"
    using assms by (simp add: mb_inv_def)
qed

lemma pruned_node:
  assumes "mb_inv b" "mb_small b" "marks_ok m b marks" "r < length (kept marks)"
  defines "n \<equiv> ma_nodes (pruned m b marks) ! r" and "i \<equiv> kept marks ! r"
  shows "mn_kind n = mn_kind (mb_nodes b ! i)" "mn_payload n = mn_payload (mb_nodes b ! i)"
    "mn_provenance n = mn_provenance (mb_nodes b ! i)" "mn_edge_count n = mn_edge_count (mb_nodes b ! i)"
    "mn_slice (pruned m b marks) n = map (renamed marks) (mb_slice b i)"
    "mn_bounds (pruned m b marks) n = mb_bounds b i"
    "unat (mn_edge_start n) + unat (mn_edge_count n) \<le> length (ma_edges (pruned m b marks))"
    "unat (mn_boundary_start n) + bound_count n \<le> length (ma_boundaries (pruned m b marks))"
proof -
  let ?e = "sum_list (map (\<lambda>i. length (mb_slice b i)) (take r (kept marks)))"
    and ?d = "sum_list (map (\<lambda>i. length (mb_bounds b i)) (take r (kept marks)))"
  have n: "n = (mb_nodes b ! i)\<lparr>mn_edge_start := of_nat ?e, mn_boundary_start := of_nat ?d\<rparr>"
    using relocate_nth [OF assms(4), of b 0 0] by (simp add: n_def i_def)
  then show [simp]: "mn_kind n = mn_kind (mb_nodes b ! i)" "mn_payload n = mn_payload (mb_nodes b ! i)"
    "mn_provenance n = mn_provenance (mb_nodes b ! i)" "mn_edge_count n = mn_edge_count (mb_nodes b ! i)"
    by simp_all
  have i: "i < length (mb_nodes b)" using rank_kept(1) [OF assms(4)] assms(3) by (simp add: i_def marks_ok_def)
  have len: "length marks = length (mb_nodes b)" using assms(3) by (simp add: marks_ok_def)
  have e: "unat (mn_edge_start n) = ?e"
    using kept_sum_bound [of "\<lambda>i. length (mb_slice b i)" r marks] total_lengths(1) [OF assms(1)] assms(2) n
    by (simp add: len mb_small_def)
  have d: "unat (mn_boundary_start n) = ?d"
    using kept_sum_bound [of "\<lambda>i. length (mb_bounds b i)" r marks] total_lengths(2) [OF assms(1)] assms(2) n
    by (simp add: len mb_small_def)
  note lens = mb_inv_ranges(3,4) [OF assms(1) i]
  have bc: "bound_count n = bound_count (mb_nodes b ! i)" by (simp add: bound_count_def)
  let ?es = "map (\<lambda>i. map (renamed marks) (mb_slice b i)) (kept marks)"
  have "take (length (?es ! r)) (drop (sum_list (map length (take r ?es))) (concat ?es)) = ?es ! r"
    "sum_list (map length (take r ?es)) + length (?es ! r) \<le> length (concat ?es)"
    by (rule slice_of_concat; simp add: assms(4))+
  moreover have "sum_list (map length (take r ?es)) = ?e" by (simp add: take_map comp_def)
  ultimately show "mn_slice (pruned m b marks) n = map (renamed marks) (mb_slice b i)"
    "unat (mn_edge_start n) + unat (mn_edge_count n) \<le> length (ma_edges (pruned m b marks))"
    using assms(4) lens by (simp_all add: mn_slice_def [of "pruned m b marks"] e i_def [symmetric])
  let ?bs = "map (mb_bounds b) (kept marks)"
  have "take (length (?bs ! r)) (drop (sum_list (map length (take r ?bs))) (concat ?bs)) = ?bs ! r"
    "sum_list (map length (take r ?bs)) + length (?bs ! r) \<le> length (concat ?bs)"
    by (rule slice_of_concat; simp add: assms(4))+
  moreover have "sum_list (map length (take r ?bs)) = ?d" by (simp add: take_map comp_def)
  ultimately show "mn_bounds (pruned m b marks) n = mb_bounds b i"
    "unat (mn_boundary_start n) + bound_count n \<le> length (ma_boundaries (pruned m b marks))"
    using assms(4) lens by (simp_all add: mn_bounds_def [of "pruned m b marks"] d bc i_def [symmetric])
qed

lemma unat_renamed:
  assumes "mb_small b" "marks_ok m b marks" "unat c < length marks"
  shows "unat (renamed marks c) = rank marks (unat c)"
proof -
  have "rank marks (unat c) < 2 ^ 32"
    using rank_le [of marks "unat c"] assms by (simp add: mb_small_def marks_ok_def)
  then show ?thesis by (simp add: renamed_def)
qed

lemma ma_content_pruned: "ma_content (pruned m b marks) p = ma_content (mb_view 0 b) p"
  by (cases p) (simp_all add: ma_content_def)

lemma pruned_label_kids:
  assumes "mb_inv b" "mb_small b" "marks_ok m b marks" "i \<in> marked marks"
  shows "ma_label (pruned m b marks) (rank marks i) = mb_label b i"
    "ma_kids (pruned m b marks) (rank marks i) = map (rank marks) (mb_kids b i)"
proof -
  have i: "i < length marks" "marks ! i" using assms(4) by (auto simp: marked_def)
  note k = kept_rank [OF i]
  note node = pruned_node [OF assms(1-3) k(1), unfolded k(2)]
  have len: "length marks = length (mb_nodes b)" using assms(3) by (simp add: marks_ok_def)
  show "ma_label (pruned m b marks) (rank marks i) = mb_label b i"
    using node by (simp add: ma_label_def Let_def ma_content_pruned del: pruned_simps(2))
  have "map (unat \<circ> renamed marks) (mb_slice b i) = map (rank marks \<circ> unat) (mb_slice b i)"
    using marks_closed [OF assms(3,1) i] unat_renamed [OF assms(2,3)] by auto
  then show "ma_kids (pruned m b marks) (rank marks i) = map (rank marks) (mb_kids b i)"
    using node(5) k(1) i(1) len by (simp add: ma_kids_def)
qed

lemma pruned_index:
  assumes "r < length (kept marks)"
  obtains i where "i \<in> marked marks" "r = rank marks i"
proof (rule that [of "kept marks ! r"])
  show "kept marks ! r \<in> marked marks" "r = rank marks (kept marks ! r)"
    using rank_kept [OF assms] by (simp_all add: marked_def)
qed

lemma pruned_descending:
  assumes "mb_inv b" "mb_small b" "marks_ok m b marks"
  shows "descending (ma_kids (pruned m b marks))"
  unfolding descending_def
proof (intro allI ballI)
  fix r j assume j: "j \<in> set (ma_kids (pruned m b marks) r)"
  then have "r < length (kept marks)" by (simp add: ma_kids_def split: if_splits)
  then obtain i where i: "i \<in> marked marks" "r = rank marks i" by (rule pruned_index)
  with j pruned_label_kids(2) [OF assms i(1)] obtain c where c: "c \<in> set (mb_kids b i)" "j = rank marks c" by auto
  have "c \<in> marked marks" using assms(3) i(1) c(1) by (auto simp: marks_ok_def intro: reachable_from.kid)
  moreover have "c < i" using c(1) by (rule descendingD [OF mb_inv_descending [OF assms(1)]])
  ultimately show "j < r" using i(2) c(2) by (simp add: rank_strict marked_def)
qed

lemma pruned_tree:
  assumes "mb_inv b" "mb_small b" "marks_ok m b marks" "t = m \<or> t \<in> template_root ` set (mb_templates b)"
  shows "ma_tree (pruned m b marks) (renamed marks t) = mb_tree b t"
proof -
  have t: "unat t < length marks" "marks ! unat t" using marks_roots [OF assms(3,4)] by auto
  have "tree_at (ma_label (pruned m b marks)) (ma_kids (pruned m b marks)) (rank marks (unat t))
      = tree_at (mb_label b) (mb_kids b) (unat t)"
  proof (rule tree_at_renumber [where A = "marked marks"])
    show "descending (mb_kids b)" using assms(1) by (rule mb_inv_descending)
    show "descending (ma_kids (pruned m b marks))" using assms(1-3) by (rule pruned_descending)
    show "j \<in> marked marks" if "i \<in> marked marks" "j \<in> set (mb_kids b i)" for i j
      using that assms(3) by (auto simp: marks_ok_def intro: reachable_from.kid)
    show "unat t \<in> marked marks" using t by (simp add: marked_def)
  qed (use pruned_label_kids [OF assms(1-3)] in auto)
  then show ?thesis by (simp add: ma_tree_def mb_tree_def unat_renamed [OF assms(2,3) t(1)])
qed

lemma pruned_reachable:
  assumes "mb_inv b" "mb_small b" "marks_ok m b marks" "r < length (kept marks)"
  shows "r \<in> reachable_from (ma_kids (pruned m b marks))
    (unat ` insert (renamed marks m) ((\<lambda>t. renamed marks (template_root t)) ` set (mb_templates b)))"
    (is "_ \<in> reachable_from ?kids ?roots")
proof -
  have "i \<in> marked marks \<and> rank marks i \<in> reachable_from ?kids ?roots"
    if "i \<in> reachable_from (mb_kids b) (unat ` insert m (template_root ` set (mb_templates b)))" for i
    using that
  proof induction
    case (root i)
    then obtain t where t: "t = m \<or> t \<in> template_root ` set (mb_templates b)" "i = unat t" by auto
    with marks_roots [OF assms(3) t(1)] have "i \<in> marked marks" "unat (renamed marks t) = rank marks i"
      using unat_renamed [OF assms(2,3)] by (auto simp: marked_def)
    moreover have "unat (renamed marks t) \<in> ?roots" using t(1) by auto
    ultimately show ?case by (metis reachable_from.root)
  next
    case (kid i j)
    then have "rank marks j \<in> set (?kids (rank marks i))"
      using pruned_label_kids(2) [OF assms(1-3)] by auto
    moreover have "j \<in> marked marks" using kid assms(3) by (auto simp: marks_ok_def intro: reachable_from.kid)
    ultimately show ?case using kid.IH by (auto intro: reachable_from.kid)
  qed
  moreover obtain i where "i \<in> marked marks" "r = rank marks i" using assms(4) by (rule pruned_index)
  ultimately show ?thesis using assms(3) by (auto simp: marks_ok_def)
qed

lemma node_payload_ok_pruned:
  assumes "mn_kind n = mn_kind n'" "mn_payload n = mn_payload n'"
  shows "node_payload_ok (pruned m b marks) n \<longleftrightarrow> node_payload_ok (mb_view 0 b) n'"
proof -
  have "payload_refs_ok (pruned m b marks) p \<longleftrightarrow> payload_refs_ok (mb_view 0 b) p" for p
    by (cases p) (simp_all add: payload_refs_ok_def)
  then show ?thesis using assms by (simp add: node_payload_ok_def split: option.splits)
qed

lemma pruned_wf:
  assumes "mb_inv b" "mb_small b" "marks_ok m b marks"
  shows "ma_wf (pruned m b marks)"
proof -
  have bound: "unat (renamed marks t) < length (kept marks)" if "unat t < length marks" "marks ! unat t" for t
    using kept_rank(1) [OF that] unat_renamed [OF assms(2,3) that(1)] by simp
  have "ma_node_ok (pruned m b marks) (ma_nodes (pruned m b marks) ! r)" if r: "r < length (kept marks)" for r
  proof -
    note node = pruned_node [OF assms r] and i = rank_kept [OF r]
    let ?i = "kept marks ! r"
    have "ma_node_ok (mb_view 0 b) (mb_nodes b ! ?i)"
      using mb_inv_node [OF assms(1), of ?i] i(1) assms(3) by (simp add: mb_node_ok_def marks_ok_def)
    moreover have "unat c < length (kept marks)" if "c \<in> set (map (renamed marks) (mb_slice b ?i))" for c
      using that marks_closed [OF assms(3,1) i(1,2)] bound by auto
    ultimately show ?thesis
      using node node_payload_ok_pruned [OF node(1,2)] by (simp add: ma_node_ok_def del: pruned_simps(2)) simp
  qed
  then have "\<forall>n\<in>set (ma_nodes (pruned m b marks)). ma_node_ok (pruned m b marks) n"
    by (simp add: all_set_conv_all_nth)
  then show ?thesis using marks_roots [OF assms(3)] bound by (auto simp: ma_wf_def)
qed

section \<open>Growing the builder\<close>

lemma prefix_slice: "prefix xs ys \<Longrightarrow> s + n \<le> length xs \<Longrightarrow> take n (drop s ys) = take n (drop s xs)"
  by (auto simp: prefix_def)

lemma prefix_at: "prefix xs ys \<Longrightarrow> i < length xs \<Longrightarrow> ys ! i = xs ! i"
  by (auto simp: prefix_def nth_append)

text \<open>No operation changes or drops an entry of a table.\<close>

definition mb_extends :: "morphism_builder \<Rightarrow> morphism_builder \<Rightarrow> bool" where
  "mb_extends b b' \<longleftrightarrow> prefix (mb_nodes b) (mb_nodes b') \<and> prefix (mb_edges b) (mb_edges b')
     \<and> prefix (mb_boundaries b) (mb_boundaries b') \<and> prefix (mb_payloads b) (mb_payloads b')
     \<and> prefix (mb_value_arguments b) (mb_value_arguments b') \<and> prefix (mb_opaque_calls b) (mb_opaque_calls b')
     \<and> prefix (mb_templates b) (mb_templates b') \<and> prefix (mb_definitions b) (mb_definitions b')
     \<and> prefix (mb_operations b) (mb_operations b') \<and> prefix (mb_channels b) (mb_channels b')"

lemma mb_extends_refl [simp]: "mb_extends b b"
  by (simp add: mb_extends_def)

lemma mb_extends_trans: "mb_extends a b \<Longrightarrow> mb_extends b c \<Longrightarrow> mb_extends a c"
  unfolding mb_extends_def by (meson prefix_order.trans)

lemma extends_lengths:
  assumes "mb_extends b b'"
  shows "length (mb_payloads b) \<le> length (mb_payloads b')"
    "length (mb_value_arguments b) \<le> length (mb_value_arguments b')"
    "length (mb_opaque_calls b) \<le> length (mb_opaque_calls b')" "length (mb_templates b) \<le> length (mb_templates b')"
    "length (mb_definitions b) \<le> length (mb_definitions b')" "length (mb_operations b) \<le> length (mb_operations b')"
    "length (mb_channels b) \<le> length (mb_channels b')"
  using assms by (simp_all add: mb_extends_def prefix_length_le)

lemma mb_small_extends: "mb_extends b b' \<Longrightarrow> mb_small b' \<Longrightarrow> mb_small b"
  by (auto simp: mb_extends_def mb_small_def dest!: prefix_length_le)

lemma ma_content_extends:
  "mb_extends b b' \<Longrightarrow> payload_refs_ok (mb_view 0 b) p \<Longrightarrow> ma_content (mb_view 0 b') p = ma_content (mb_view 0 b) p"
  by (cases p) (auto simp: ma_content_def payload_refs_ok_def mb_extends_def prefix_slice prefix_at)

lemma payload_refs_extends:
  assumes "mb_extends b b'" "payload_refs_ok (mb_view 0 b) p"
  shows "payload_refs_ok (mb_view 0 b') p"
  using extends_lengths [OF assms(1)] assms
  by (cases p) (auto simp: payload_refs_ok_def mb_extends_def prefix_slice)

lemma node_payload_extends:
  assumes "mb_extends b b'" "node_payload_ok (mb_view 0 b) n"
  shows "node_payload_ok (mb_view 0 b') n"
    "map_option (\<lambda>p. ma_content (mb_view 0 b') (mb_payloads b' ! unat p)) (mn_payload n)
      = map_option (\<lambda>p. ma_content (mb_view 0 b) (mb_payloads b ! unat p)) (mn_payload n)"
proof -
  have p: "mb_payloads b' ! unat p = mb_payloads b ! unat p" "unat p < length (mb_payloads b')"
    if "unat p < length (mb_payloads b)" for p
    using assms(1) that extends_lengths(1) [OF assms(1)] by (simp_all add: mb_extends_def prefix_at)
  show "node_payload_ok (mb_view 0 b') n"
    using assms(2) p payload_refs_extends [OF assms(1)] by (auto simp: node_payload_ok_def split: option.splits)
  show "map_option (\<lambda>p. ma_content (mb_view 0 b') (mb_payloads b' ! unat p)) (mn_payload n)
      = map_option (\<lambda>p. ma_content (mb_view 0 b) (mb_payloads b ! unat p)) (mn_payload n)"
    using assms(2) by (cases "mn_payload n") (simp_all add: node_payload_ok_def p(1) ma_content_extends [OF assms(1)])
qed

lemma extends_old:
  assumes "mb_inv b" "mb_extends b b'" "i < length (mb_nodes b)"
  shows "mb_nodes b' ! i = mb_nodes b ! i" "mb_slice b' i = mb_slice b i" "mb_bounds b' i = mb_bounds b i"
    "mb_node_ok b' i" "mb_label b' i = mb_label b i" "mb_kids b' i = mb_kids b i"
proof -
  have pre: "prefix (mb_nodes b) (mb_nodes b')" "prefix (mb_edges b) (mb_edges b')"
    "prefix (mb_boundaries b) (mb_boundaries b')" using assms(2) by (simp_all add: mb_extends_def)
  note len = prefix_length_le [OF pre(1)] prefix_length_le [OF pre(2)] prefix_length_le [OF pre(3)]
  note ranges = mb_inv_ranges [OF assms(1,3)]
  show n: "mb_nodes b' ! i = mb_nodes b ! i" using pre(1) assms(3) by (rule prefix_at)
  show s: "mb_slice b' i = mb_slice b i"
    using prefix_slice [OF pre(2) ranges(1)] n by (simp add: mn_slice_def)
  show d: "mb_bounds b' i = mb_bounds b i"
    using prefix_slice [OF pre(3) ranges(2)] n by (simp add: mn_bounds_def)
  have ok: "mb_node_ok b i" using assms(1,3) by (rule mb_inv_node)
  then have "node_payload_ok (mb_view 0 b) (mb_nodes b ! i)" by (simp add: mb_node_ok_def ma_node_ok_def)
  note payload = node_payload_extends [OF assms(2) this]
  have kid: "mb_nodes b' ! unat c = mb_nodes b ! unat c" if "c \<in> set (mb_slice b i)" for c
    using that ok assms(3) by (intro prefix_at [OF pre(1)]) (auto simp: mb_node_ok_def)
  have "ma_node_ok (mb_view 0 b') (mb_nodes b' ! i)"
    using ok payload(1) len s n by (auto simp: mb_node_ok_def ma_node_ok_def)
  then show "mb_node_ok b' i"
    using ok len s n kid by (auto simp: mb_node_ok_def)
  show "mb_label b' i = mb_label b i" using n d payload(2) by (simp add: ma_label_def Let_def)
  show "mb_kids b' i = mb_kids b i" using s len(1) assms(3) by (simp add: ma_kids_def)
qed

lemma extends_inv:
  assumes "mb_inv b" "mb_extends b b'" "mb_nodes b' = mb_nodes b @ ns" "length ns \<le> 1"
    and "ns \<noteq> [] \<Longrightarrow> mb_node_ok b' (length (mb_nodes b))"
    and "\<forall>t\<in>set (mb_templates b'). unat (template_root t) < length (mb_nodes b')"
    and "length (mb_edges b') = length (mb_edges b) + sum_list (map (\<lambda>n. unat (mn_edge_count n)) ns)"
    and "length (mb_boundaries b') = length (mb_boundaries b) + sum_list (map bound_count ns)"
    and "\<forall>p\<in>set (mb_payloads b'). p \<in> set (mb_payloads b) \<or> payload_refs_ok (mb_view 0 b') p"
    and "interned (mb_definition_ids b') (mb_definitions b')" "interned (mb_operation_ids b') (mb_operations b')"
    and "interned (mb_channel_ids b') (mb_channels b')"
  shows "mb_inv b'" "\<And>m. unat m < length (mb_nodes b) \<Longrightarrow> mb_tree b' m = mb_tree b m"
proof -
  have "mb_node_ok b' i" if "i < length (mb_nodes b')" for i
    using that extends_old(4) [OF assms(1,2), of i] assms(3-5) by (cases ns) (auto simp: less_Suc_eq)
  moreover have "payload_refs_ok (mb_view 0 b') p" if "p \<in> set (mb_payloads b')" for p
    using assms(9) that assms(1) payload_refs_extends [OF assms(2)] by (auto simp: mb_inv_def)
  ultimately show inv: "mb_inv b'"
    using assms(1,3,6-8,10-) by (simp add: mb_inv_def)
  show "mb_tree b' m = mb_tree b m" if "unat m < length (mb_nodes b)" for m
    unfolding mb_tree_def ma_tree_def
    using that extends_old(5,6) [OF assms(1,2)]
    by (intro tree_at_stable mb_inv_descending inv assms(1)) auto
qed

lemma added_tree:
  assumes "mb_inv b'" "mb_nodes b' = mb_nodes b @ [n]" "length (mb_nodes b') < 2 ^ 32"
    and "\<And>m. unat m < length (mb_nodes b) \<Longrightarrow> mb_tree b' m = mb_tree b m"
  shows "mb_tree b' (of_nat (length (mb_nodes b)))
    = RNode (mb_label b' (length (mb_nodes b))) (map (mb_tree b) (mn_slice (mb_view 0 b') n))"
proof -
  let ?i = "length (mb_nodes b)"
  have k: "mb_kids b' ?i = map unat (mn_slice (mb_view 0 b') n)" by (simp add: ma_kids_def assms(2))
  have "unat c < ?i" if "c \<in> set (mn_slice (mb_view 0 b') n)" for c
    using descendingD [OF mb_inv_descending [OF assms(1)], of "unat c" ?i] that k by simp
  then have "map (mb_tree b') (mn_slice (mb_view 0 b') n) = map (mb_tree b) (mn_slice (mb_view 0 b') n)"
    using assms(4) by auto
  moreover have "tree_at (mb_label b') (mb_kids b') ?i = RNode (mb_label b' ?i) (map (mb_tree b') (mn_slice (mb_view 0 b') n))"
    unfolding tree_at_unfold [OF mb_inv_descending [OF assms(1)], of _ ?i] k
    by (simp add: mb_tree_def ma_tree_def)
  moreover have "unat (of_nat ?i :: u32) = ?i" using assms(2,3) by simp
  ultimately show ?thesis unfolding mb_tree_def ma_tree_def by (simp only:)
qed

section \<open>Interning\<close>

text \<open>The contract of the three interning tables, and what follows from it.\<close>

locale interner =
  fixes intern :: "string \<Rightarrow> 'b \<Rightarrow> u32 \<times> 'b" and ids :: "'b \<Rightarrow> string \<rightharpoonup> u32" and names :: "'b \<Rightarrow> string list"
  assumes hit: "ids b v = Some i \<Longrightarrow> intern v b = (i, b)"
    and miss: "ids b v = None \<Longrightarrow> \<exists>b'. intern v b = (of_nat (length (names b)), b')
      \<and> names b' = names b @ [v] \<and> ids b' = (ids b)(v \<mapsto> of_nat (length (names b)))"
begin

lemma intern_correct:
  assumes "intern v b = (i, b')" "interned (ids b) (names b)" "length (names b') < 2 ^ 32"
  shows "interned (ids b') (names b')" "unat i < length (names b')" "names b' ! unat i = v"
    "prefix (names b) (names b')" "ids b' v = Some i"
proof -
  have "interned (ids b') (names b') \<and> unat i < length (names b') \<and> names b' ! unat i = v
    \<and> prefix (names b) (names b') \<and> ids b' v = Some i"
  proof (cases "ids b v")
    case (Some j)
    then show ?thesis using hit [OF Some] assms by (auto simp: interned_def)
  next
    case None
    from miss [OF None] assms(1) have e: "i = of_nat (length (names b))" "names b' = names b @ [v]"
      "ids b' = (ids b)(v \<mapsto> i)" by auto
    then have "unat i = length (names b)" using assms(3) by simp
    then show ?thesis using e assms(2) by (auto simp: interned_def nth_append less_SucI)
  qed
  then show "interned (ids b') (names b')" "unat i < length (names b')" "names b' ! unat i = v"
    "prefix (names b) (names b')" "ids b' v = Some i" by auto
qed

lemma intern_again:
  assumes "intern v b = (i, b')" "interned (ids b) (names b)" "length (names b') < 2 ^ 32"
  shows "intern v b' = (i, b')"
  using intern_correct(5) [OF assms] by (rule hit)

lemma intern_distinct:
  assumes "intern v b = (i, b1)" "intern w b1 = (j, b2)" "interned (ids b) (names b)" "length (names b2) < 2 ^ 32"
  shows "i = j \<longleftrightarrow> v = w"
proof -
  have "prefix (names b1) (names b2)"
  proof (cases "ids b1 w")
    case None
    then show ?thesis using miss [OF None] assms(2) by auto
  qed (use hit assms(2) in auto)
  then have l: "length (names b1) < 2 ^ 32" using assms(4) by (meson le_less_trans prefix_length_le)
  note one = intern_correct [OF assms(1,3) l]
  note two = intern_correct [OF assms(2) one(1) assms(4)]
  show ?thesis
  proof
    show "v = w" if "i = j" using that one(3) two(3) prefix_at [OF two(4) one(2)] by simp
    show "i = j" if "v = w" using that hit [OF one(5)] assms(2) by simp
  qed
qed

end

interpretation definitions: interner intern_definition mb_definition_ids mb_definitions
  by unfold_locales (auto simp: intern_definition_def Let_def)

interpretation operations: interner intern_operation mb_operation_ids mb_operations
  by unfold_locales (auto simp: intern_operation_def Let_def)

interpretation channels: interner intern_channel mb_channel_ids mb_channels
  by unfold_locales (auto simp: intern_channel_def Let_def)

section \<open>Leaves and loops\<close>

text \<open>
  A leaf or a loop: one payload, one node, tables of names, arguments and calls that only grow.
\<close>

lemma push_payload_node:
  assumes inv: "mb_inv b" and ext: "mb_extends b b1"
    and same: "mb_nodes b1 = mb_nodes b" "mb_edges b1 = mb_edges b" "mb_boundaries b1 = mb_boundaries b"
      "mb_templates b1 = mb_templates b" "mb_payloads b1 = mb_payloads b"
    and names: "interned (mb_definition_ids b1) (mb_definitions b1)"
      "interned (mb_operation_ids b1) (mb_operations b1)" "interned (mb_channel_ids b1) (mb_channels b1)"
    and kind: "payload_matches_kind kind (Some p)" "kind \<noteq> MLoop \<Longrightarrow> cs = []" "kind = MLoop \<Longrightarrow> length cs = 1"
    and refs: "payload_refs_ok (mb_view 0 b1) p" and kids: "\<And>c. c \<in> set cs \<Longrightarrow> unat c < length (mb_nodes b)"
    and b': "b' = b1\<lparr>mb_edges := mb_edges b1 @ cs, mb_payloads := mb_payloads b1 @ [p],
       mb_nodes := mb_nodes b1 @ [\<lparr>mn_kind = kind, mn_edge_start = of_nat (length (mb_edges b1)),
         mn_edge_count = of_nat (length cs), mn_boundary_start = of_nat (length (mb_boundaries b1)),
         mn_payload = Some (of_nat (length (mb_payloads b1))), mn_provenance = pv\<rparr>]\<rparr>"
    and small: "mb_small b'"
  shows "mb_inv b'" "\<And>m. unat m < length (mb_nodes b) \<Longrightarrow> mb_tree b' m = mb_tree b m"
    "mb_tree b' (of_nat (length (mb_nodes b))) = RNode (kind, [], Some (ma_content (mb_view 0 b1) p), pv) (map (mb_tree b) cs)"
proof -
  let ?i = "length (mb_nodes b)"
  let ?n = "mb_nodes b' ! ?i"
  have n: "?n = \<lparr>mn_kind = kind, mn_edge_start = of_nat (length (mb_edges b)),
      mn_edge_count = of_nat (length cs), mn_boundary_start = of_nat (length (mb_boundaries b)),
      mn_payload = Some (of_nat (length (mb_payloads b))), mn_provenance = pv\<rparr>"
    "mb_nodes b' = mb_nodes b @ [?n]"
    by (simp_all add: b' same)
  have ext1: "mb_extends b1 b'" by (simp add: mb_extends_def b')
  then have ext': "mb_extends b b'" by (rule mb_extends_trans [OF ext])
  have len: "length (mb_edges b) < 2 ^ 32" "length (mb_boundaries b) < 2 ^ 32" "length (mb_payloads b) < 2 ^ 32"
    "length cs < 2 ^ 32" "length (mb_nodes b') < 2 ^ 32"
    using small by (simp_all add: b' same mb_small_def)
  have notserial: "kind \<noteq> MSerial" "kind \<noteq> MParallel" using kind(1) by (auto simp: payload_matches_kind_def)
  have start: "unat (mn_edge_start ?n) = length (mb_edges b)" "unat (mn_edge_count ?n) = length cs"
    "unat (mn_boundary_start ?n) = length (mb_boundaries b)" using len by (simp_all add: n(1))
  have slice: "mn_slice (mb_view 0 b') ?n = cs"
    unfolding mn_slice_def start by (simp add: b' same)
  have content: "mb_payloads b' ! unat (of_nat (length (mb_payloads b)) :: u32) = p"
    using len(3) by (simp add: b' same)
  have "node_payload_ok (mb_view 0 b') ?n"
    using content len(3) kind(1) payload_refs_extends [OF ext1 refs]
    by (simp add: node_payload_ok_def n(1)) (simp add: b' same)
  then have ok: "ma_node_ok (mb_view 0 b') ?n"
    using start slice notserial kids kind by (auto simp: ma_node_ok_def arity_ok_def n(1) b' same less_SucI)
  have mb: "mb_node_ok b' ?i"
    using ok start slice notserial kids by (auto simp: mb_node_ok_def bound_count_def n(1) b' same)
  have one: "length [?n] \<le> 1" by simp
  have tables: "\<forall>t\<in>set (mb_templates b'). unat (template_root t) < length (mb_nodes b')"
    "length (mb_edges b') = length (mb_edges b) + sum_list (map (\<lambda>n. unat (mn_edge_count n)) [?n])"
    "length (mb_boundaries b') = length (mb_boundaries b) + sum_list (map bound_count [?n])"
    using inv len(4) notserial by (auto simp: n(1) bound_count_def b' same mb_inv_def less_SucI)
  have names': "interned (mb_definition_ids b') (mb_definitions b')"
    "interned (mb_operation_ids b') (mb_operations b')" "interned (mb_channel_ids b') (mb_channels b')"
    using names by (simp_all add: b')
  have pl: "\<forall>q\<in>set (mb_payloads b'). q \<in> set (mb_payloads b) \<or> payload_refs_ok (mb_view 0 b') q"
    using payload_refs_extends [OF ext1 refs] by (simp add: b' same)
  note grow = extends_inv [OF inv ext' n(2) one mb tables pl names']
  show "mb_inv b'" by (rule grow(1))
  show "mb_tree b' m = mb_tree b m" if "unat m < length (mb_nodes b)" for m using that by (rule grow(2))
  have "mb_label b' ?i = (kind, [], Some (ma_content (mb_view 0 b1) p), pv)"
    using content ma_content_extends [OF ext1 refs] notserial n(1)
    by (simp add: ma_label_def Let_def mn_bounds_def bound_count_def)
  then show "mb_tree b' (of_nat ?i) = RNode (kind, [], Some (ma_content (mb_view 0 b1) p), pv) (map (mb_tree b) cs)"
    using added_tree [OF grow(1) n(2) len(5) grow(2)] slice by simp
qed

section \<open>Compositions\<close>

lemma push_composition_node:
  assumes inv: "mb_inv b" and kind: "kind = MSerial \<or> kind = MParallel" and len2: "length cs \<ge> 2"
    and bounds: "length bs = (if kind = MSerial then length cs - 1 else 0)"
    and kids: "\<And>c. c \<in> set cs \<Longrightarrow> unat c < length (mb_nodes b) \<and> mn_kind (mb_nodes b ! unat c) \<noteq> kind"
    and b': "push_composition kind cs bs pv b = (m, b')" and small: "mb_small b'"
  shows "m = of_nat (length (mb_nodes b))" "length (mb_nodes b') = Suc (length (mb_nodes b))"
    "mb_inv b'" "\<And>m. unat m < length (mb_nodes b) \<Longrightarrow> mb_tree b' m = mb_tree b m"
    "mb_tree b' m = RNode (kind, bs, None, pv) (map (mb_tree b) cs)"
proof -
  let ?i = "length (mb_nodes b)"
  let ?n = "mb_nodes b' ! ?i"
  show m: "m = of_nat ?i" and "length (mb_nodes b') = Suc ?i"
    using b' by (auto simp: push_composition_def push_node_def Let_def)
  have b'': "b' = b\<lparr>mb_edges := mb_edges b @ cs, mb_boundaries := mb_boundaries b @ bs,
      mb_nodes := mb_nodes b @ [\<lparr>mn_kind = kind, mn_edge_start = of_nat (length (mb_edges b)),
        mn_edge_count = of_nat (length cs), mn_boundary_start = of_nat (length (mb_boundaries b)),
        mn_payload = None, mn_provenance = pv\<rparr>]\<rparr>"
    using b' by (simp add: push_composition_def push_node_def Let_def)
  then have n: "?n = \<lparr>mn_kind = kind, mn_edge_start = of_nat (length (mb_edges b)),
        mn_edge_count = of_nat (length cs), mn_boundary_start = of_nat (length (mb_boundaries b)),
        mn_payload = None, mn_provenance = pv\<rparr>" "mb_nodes b' = mb_nodes b @ [?n]"
    by simp_all
  have ext: "mb_extends b b'" by (simp add: mb_extends_def b'')
  have len: "length (mb_edges b) < 2 ^ 32" "length (mb_boundaries b) < 2 ^ 32" "length cs < 2 ^ 32"
    "length (mb_nodes b') < 2 ^ 32"
    using small by (simp_all add: b'' mb_small_def)
  have start: "unat (mn_edge_start ?n) = length (mb_edges b)" "unat (mn_edge_count ?n) = length cs"
    "unat (mn_boundary_start ?n) = length (mb_boundaries b)" "bound_count ?n = length bs"
    using len bounds by (simp_all add: n(1) bound_count_def)
  have slice: "mn_slice (mb_view 0 b') ?n = cs" "mn_bounds (mb_view 0 b') ?n = bs"
    unfolding mn_slice_def mn_bounds_def start by (simp_all add: b'')
  have "ma_node_ok (mb_view 0 b') ?n"
    using start slice kids kind len2
    by (auto simp: ma_node_ok_def arity_ok_def node_payload_ok_def payload_matches_kind_def n(1) b'' less_SucI)
  then have mb: "mb_node_ok b' ?i"
    using start slice kids kind by (auto simp: mb_node_ok_def n(1) b'' nth_append)
  have one: "length [?n] \<le> 1" by simp
  have tables: "\<forall>t\<in>set (mb_templates b'). unat (template_root t) < length (mb_nodes b')"
    "length (mb_edges b') = length (mb_edges b) + sum_list (map (\<lambda>n. unat (mn_edge_count n)) [?n])"
    "length (mb_boundaries b') = length (mb_boundaries b) + sum_list (map bound_count [?n])"
    unfolding list.map sum_list.Cons sum_list.Nil start using inv by (auto simp: b'' mb_inv_def less_SucI)
  have names': "interned (mb_definition_ids b') (mb_definitions b')"
    "interned (mb_operation_ids b') (mb_operations b')" "interned (mb_channel_ids b') (mb_channels b')"
    using inv by (simp_all add: b'' mb_inv_def)
  have pl: "\<forall>q\<in>set (mb_payloads b'). q \<in> set (mb_payloads b) \<or> payload_refs_ok (mb_view 0 b') q"
    by (simp add: b'')
  note grow = extends_inv [OF inv ext n(2) one mb tables pl names']
  show "mb_inv b'" by (rule grow(1))
  show "mb_tree b' m = mb_tree b m" if "unat m < length (mb_nodes b)" for m using that by (rule grow(2))
  have "mb_label b' ?i = (kind, bs, None, pv)"
    using slice(2) n(1) by (simp add: ma_label_def Let_def)
  then show "mb_tree b' m = RNode (kind, bs, None, pv) (map (mb_tree b) cs)"
    using added_tree [OF grow(1) n(2) len(4) grow(2)] slice(1) m by simp
qed

text \<open>What flattening contributes for one child.\<close>

definition parts_of :: "morphism_node_kind \<Rightarrow> morphism_builder \<Rightarrow> morphism_node_id \<Rightarrow> morphism_node_id list" where
  "parts_of kind b c = (if mn_kind (mb_nodes b ! unat c) = kind then mb_slice b (unat c) else [c])"

lemma flatten_parallel_result:
  assumes "mb_inv b" "\<forall>c\<in>set cs. unat c < length (mb_nodes b)"
  shows "flatten_parallel b cs acc = Some (acc @ concat (map (parts_of MParallel b) cs))"
  using assms(2)
  by (induction cs arbitrary: acc) (simp_all add: nth_opt_def edges_of_Some [OF assms(1)] parts_of_def)

lemma flatten_serial_result:
  assumes "mb_inv b" "\<forall>(x, c)\<in>set zs. unat c < length (mb_nodes b)"
  shows "flatten_serial b zs acc bs = Some (acc @ concat (map (\<lambda>(x, c). parts_of MSerial b c) zs),
     bs @ concat (map (\<lambda>(x, c). (case x of None \<Rightarrow> [] | Some p \<Rightarrow> [p]) @ mb_bounds b (unat c)) zs))"
  using assms(2)
proof (induction zs arbitrary: acc bs)
  case (Cons z zs)
  obtain x c where z: "z = (x, c)" by (cases z)
  have "mb_bounds b (unat c) = []" if "mn_kind (mb_nodes b ! unat c) \<noteq> MSerial"
    using that by (simp add: mn_bounds_def bound_count_def)
  then show ?case
    using Cons z by (simp add: nth_opt_def edges_of_Some [OF assms(1)] boundaries_of_Some [OF assms(1)] parts_of_def)
qed simp

lemma serial_arity:
  assumes "mb_inv b" "unat c < length (mb_nodes b)" "mn_kind (mb_nodes b ! unat c) = kind"
    "kind = MSerial \<or> kind = MParallel"
  shows "length (mb_slice b (unat c)) \<ge> 2"
proof -
  have "mb_node_ok b (unat c)" using assms(1,2) by (rule mb_inv_node)
  then show ?thesis using mb_inv_ranges(3) [OF assms(1,2)] assms(3,4)
    by (auto simp: mb_node_ok_def ma_node_ok_def arity_ok_def)
qed

lemma parts_of_props:
  assumes "mb_inv b" "unat c < length (mb_nodes b)" "kind = MSerial \<or> kind = MParallel"
  shows "parts_of kind b c \<noteq> []"
    "\<And>d. d \<in> set (parts_of kind b c) \<Longrightarrow> unat d < length (mb_nodes b) \<and> mn_kind (mb_nodes b ! unat d) \<noteq> kind"
proof -
  show "parts_of kind b c \<noteq> []" using serial_arity [OF assms(1,2)] assms(3) by (auto simp: parts_of_def)
  have "mb_node_ok b (unat c)" using assms(1,2) by (rule mb_inv_node)
  then show "unat d < length (mb_nodes b) \<and> mn_kind (mb_nodes b ! unat d) \<noteq> kind"
    if "d \<in> set (parts_of kind b c)" for d
    using that assms(2,3) by (auto simp: parts_of_def mb_node_ok_def split: if_splits)
qed

lemma concat_parts_length:
  assumes "\<forall>c\<in>set cs. f c \<noteq> []"
  shows "length cs \<le> length (concat (map f cs))"
  using assms
proof (induction cs)
  case (Cons c cs)
  then have "1 \<le> length (f c)" by (cases "f c") auto
  then show ?case using Cons by simp
qed simp

lemma serial_bounds_length:
  assumes "mb_inv b" "unat c < length (mb_nodes b)"
  shows "Suc (length (mb_bounds b (unat c))) = length (parts_of MSerial b c)"
  using mb_inv_ranges(3,4) [OF assms] serial_arity [OF assms]
  by (auto simp: parts_of_def bound_count_def split: if_splits)

lemma flattened_bounds_length:
  assumes "mb_inv b" "\<forall>c\<in>set cs. unat c < length (mb_nodes b)" "length xs = length cs"
  shows "length (concat (map (\<lambda>(x, c). (case x of None \<Rightarrow> [] | Some p \<Rightarrow> [p]) @ mb_bounds b (unat c)) (zip (map Some xs) cs)))
    = length (concat (map (parts_of MSerial b) cs))"
  using assms(3,2)
  by (induction xs cs rule: list_induct2) (simp_all flip: serial_bounds_length [OF assms(1)])

section \<open>The operations and what they mean\<close>

datatype builder_op =
    OpAtomic string "value_expr_id list" u32
  | OpDefinitionRef string "value_expr_id list" u32
  | OpOpaque value_expr_id "(string \<times> string \<times> value_expr_id \<times> value_expr_id) list" value_expr_id u32
  | OpLogicalShift value_expr_id u32
  | OpPhysicalWait value_expr_id u32
  | OpInstantiate u32 string u32
  | OpSerial "morphism_node_id list" "boundary_policy list" u32
  | OpParallel "morphism_node_id list" u32
  | OpLoop morphism_node_id value_expr_id u32

fun mb_apply :: "builder_op \<Rightarrow> morphism_builder \<Rightarrow> (morphism_node_id \<times> morphism_builder) option" where
  "mb_apply (OpAtomic f args pv) b = Some (mb_atomic f args pv b)"
| "mb_apply (OpDefinitionRef f args pv) b = Some (mb_definition_ref f args pv b)"
| "mb_apply (OpOpaque d calls meta pv) b = Some (mb_opaque d calls meta pv b)"
| "mb_apply (OpLogicalShift d pv) b = Some (logical_shift d pv b)"
| "mb_apply (OpPhysicalWait d pv) b = Some (physical_wait d pv b)"
| "mb_apply (OpInstantiate t c pv) b = mb_instantiate t c pv b"
| "mb_apply (OpSerial cs bs pv) b = mb_serial cs bs pv b"
| "mb_apply (OpParallel cs pv) b = mb_parallel cs pv b"
| "mb_apply (OpLoop body n pv) b = Some (loop_region body n pv b)"

text \<open>
  What a caller owes: node ids and templates that this builder returned, the arities the assertions
  check, and for an opaque call at least one board call with a board and a callable.
\<close>

fun op_ok :: "builder_op \<Rightarrow> morphism_builder \<Rightarrow> bool" where
  "op_ok (OpOpaque d calls meta pv) b \<longleftrightarrow> calls \<noteq> [] \<and> (\<forall>(board, callable, _)\<in>set calls. board \<noteq> [] \<and> callable \<noteq> [])"
| "op_ok (OpInstantiate t c pv) b \<longleftrightarrow> unat t < length (mb_templates b)"
| "op_ok (OpSerial cs bs pv) b \<longleftrightarrow> length cs \<ge> 2 \<and> length bs + 1 = length cs \<and> (\<forall>c\<in>set cs. unat c < length (mb_nodes b))"
| "op_ok (OpParallel cs pv) b \<longleftrightarrow> length cs \<ge> 2 \<and> (\<forall>c\<in>set cs. unat c < length (mb_nodes b))"
| "op_ok (OpLoop body n pv) b \<longleftrightarrow> unat body < length (mb_nodes b)"
| "op_ok _ b \<longleftrightarrow> True"

text \<open>The meaning on trees: a composition absorbs the operands that are compositions of its kind.\<close>

definition operands :: "morphism_node_kind \<Rightarrow> morphism_label rtree \<Rightarrow> morphism_label rtree list" where
  "operands kind t = (if fst (rlabel t) = kind then rkids t else [t])"

definition tree_bounds :: "morphism_label rtree \<Rightarrow> boundary_policy list" where
  "tree_bounds t = fst (snd (rlabel t))"

fun op_tree :: "builder_op \<Rightarrow> (morphism_node_id \<Rightarrow> morphism_label rtree) \<Rightarrow> morphism_label rtree" where
  "op_tree (OpAtomic f args pv) T = RNode (MAtomic, [], Some (CAtomic f args), pv) []"
| "op_tree (OpDefinitionRef f args pv) T = RNode (MDefinitionRef, [], Some (CDefinitionRef f args), pv) []"
| "op_tree (OpOpaque d calls meta pv) T = RNode (MOpaque, [], Some (COpaque d
     (map (\<lambda>(board, callable, arguments, keywords). \<lparr>call_board = board, call_callable = callable,
        call_arguments = arguments, call_keyword_arguments = keywords\<rparr>) calls) meta), pv) []"
| "op_tree (OpLogicalShift d pv) T = RNode (MWait, [], Some (CWait d LogicalDisplacement), pv) []"
| "op_tree (OpPhysicalWait d pv) T = RNode (MWait, [], Some (CWait d PhysicalInterval), pv) []"
| "op_tree (OpInstantiate t c pv) T = RNode (MInstantiate, [], Some (CInstantiate t c), pv) []"
| "op_tree (OpSerial cs bs pv) T =
     RNode (MSerial, tree_bounds (T (hd cs)) @ concat (map2 (\<lambda>x c. x # tree_bounds (T c)) bs (tl cs)), None, pv)
       (concat (map (operands MSerial \<circ> T) cs))"
| "op_tree (OpParallel cs pv) T = RNode (MParallel, [], None, pv) (concat (map (operands MParallel \<circ> T) cs))"
| "op_tree (OpLoop body n pv) T = RNode (MLoop, [], Some (CLoop n), pv) [T body]"

text \<open>What every operation establishes.\<close>

definition added :: "morphism_builder \<Rightarrow> morphism_node_id \<Rightarrow> morphism_builder \<Rightarrow> morphism_label rtree \<Rightarrow> bool" where
  "added b m b' t \<longleftrightarrow> mb_inv b' \<and> unat m = length (mb_nodes b) \<and> length (mb_nodes b') = Suc (length (mb_nodes b))
     \<and> (\<forall>k. unat k < length (mb_nodes b) \<longrightarrow> mb_tree b' k = mb_tree b k) \<and> mb_tree b' m = t"

lemma tree_root:
  assumes "mb_inv b"
  shows "rlabel (mb_tree b m) = mb_label b (unat m)" "rkids (mb_tree b m) = map (tree_at (mb_label b) (mb_kids b)) (mb_kids b (unat m))"
  using tree_at_unfold [OF mb_inv_descending [OF assms], of "mb_label b" "unat m"]
  by (simp_all add: mb_tree_def ma_tree_def)

lemma operands_parts:
  assumes "mb_inv b" "unat c < length (mb_nodes b)"
  shows "operands kind (mb_tree b c) = map (mb_tree b) (parts_of kind b c)"
proof -
  have "map (tree_at (mb_label b) (mb_kids b)) (mb_kids b (unat c)) = map (mb_tree b) (mb_slice b (unat c))"
    using assms(2) by (simp add: ma_kids_def mb_tree_def ma_tree_def)
  then show ?thesis
    using tree_root [OF assms(1), of c] by (simp add: operands_def parts_of_def ma_label_def Let_def)
qed

lemma tree_bounds_mb: "mb_inv b \<Longrightarrow> tree_bounds (mb_tree b c) = mb_bounds b (unat c)"
  by (simp add: tree_bounds_def tree_root ma_label_def Let_def)

lemmas inv_names = mb_inv_def [THEN iffD1, THEN conjunct2, THEN conjunct2, THEN conjunct2, THEN conjunct2, THEN conjunct2]

lemma parallel_added:
  assumes inv: "mb_inv b" and ok: "op_ok (OpParallel cs pv) b"
  shows "\<exists>m b'. mb_parallel cs pv b = Some (m, b')
    \<and> (mb_small b' \<longrightarrow> added b m b' (op_tree (OpParallel cs pv) (mb_tree b)))"
proof -
  let ?cs = "concat (map (parts_of MParallel b) cs)"
  have kids: "\<forall>c\<in>set cs. unat c < length (mb_nodes b)" and two: "length cs \<ge> 2" using ok by auto
  obtain m b' where push: "push_composition MParallel ?cs [] pv b = (m, b')" by (meson surj_pair)
  have "length ?cs \<ge> 2"
    using concat_parts_length [of cs "parts_of MParallel b"] parts_of_props(1) [OF inv] kids two by force
  moreover have "unat c < length (mb_nodes b) \<and> mn_kind (mb_nodes b ! unat c) \<noteq> MParallel" if "c \<in> set ?cs" for c
    using that parts_of_props(2) [OF inv] kids by auto
  moreover have "map (mb_tree b) ?cs = concat (map (operands MParallel \<circ> mb_tree b) cs)"
    using kids operands_parts [OF inv] by (simp add: map_concat comp_def cong: map_cong)
  ultimately have "added b m b' (op_tree (OpParallel cs pv) (mb_tree b))" if "mb_small b'"
    using push_composition_node [OF inv _ _ _ _ push that] that by (simp add: added_def mb_small_def)
  moreover have "mb_parallel cs pv b = Some (m, b')"
    using flatten_parallel_result [OF inv kids, of "[]"] two push by (simp add: mb_parallel_def)
  ultimately show ?thesis by blast
qed

lemma serial_added:
  assumes inv: "mb_inv b" and ok: "op_ok (OpSerial cs bs pv) b"
  shows "\<exists>m b'. mb_serial cs bs pv b = Some (m, b')
    \<and> (mb_small b' \<longrightarrow> added b m b' (op_tree (OpSerial cs bs pv) (mb_tree b)))"
proof -
  have kids: "\<forall>c\<in>set cs. unat c < length (mb_nodes b)" and two: "length cs \<ge> 2" "length bs + 1 = length cs"
    using ok by auto
  then obtain c cs' where cs: "cs = c # cs'" "length bs = length cs'" by (cases cs) auto
  let ?zs = "zip (None # map Some bs) cs"
  let ?cs = "concat (map (parts_of MSerial b) cs)"
    and ?bs = "concat (map (\<lambda>(x, c). (case x of None \<Rightarrow> [] | Some p \<Rightarrow> [p]) @ mb_bounds b (unat c)) ?zs)"
  obtain m b' where push: "push_composition MSerial ?cs ?bs pv b = (m, b')" by (meson surj_pair)
  have zs: "concat (map (\<lambda>(x, c). parts_of MSerial b c) ?zs) = ?cs"
  proof -
    have "map (\<lambda>(x, c). parts_of MSerial b c) ?zs = map (parts_of MSerial b) (map snd ?zs)" by (simp add: case_prod_beta)
    then show ?thesis using cs by simp
  qed
  have zk: "\<forall>(x, c)\<in>set ?zs. unat c < length (mb_nodes b)" using kids by (auto dest: set_zip_rightD)
  have "length ?cs \<ge> 2"
    using concat_parts_length [of cs "parts_of MSerial b"] parts_of_props(1) [OF inv] kids two by force
  moreover have "unat c < length (mb_nodes b) \<and> mn_kind (mb_nodes b ! unat c) \<noteq> MSerial" if "c \<in> set ?cs" for c
    using that parts_of_props(2) [OF inv] kids by auto
  moreover have "length ?bs = length ?cs - 1"
    using flattened_bounds_length [OF inv, of cs' bs] kids cs by (simp flip: serial_bounds_length [OF inv])
  moreover have "map (mb_tree b) ?cs = concat (map (operands MSerial \<circ> mb_tree b) cs)"
    using kids operands_parts [OF inv] by (simp add: map_concat comp_def cong: map_cong)
  moreover have "?bs = tree_bounds (mb_tree b (hd cs)) @ concat (map2 (\<lambda>x c. x # tree_bounds (mb_tree b c)) bs (tl cs))"
    using cs by (simp add: tree_bounds_mb [OF inv] zip_map1 comp_def case_prod_unfold)
  ultimately have "added b m b' (op_tree (OpSerial cs bs pv) (mb_tree b))" if "mb_small b'"
    using push_composition_node [OF inv _ _ _ _ push that] that by (simp add: added_def mb_small_def)
  moreover have "mb_serial cs bs pv b = Some (m, b')"
    using flatten_serial_result [OF inv zk, of "[]" "[]"] two push by (simp add: mb_serial_def zs)
  ultimately show ?thesis by blast
qed

lemma loop_added:
  assumes inv: "mb_inv b" and ok: "op_ok (OpLoop body n pv) b" and ap: "loop_region body n pv b = (m, b')"
    and small: "mb_small b'"
  shows "added b m b' (op_tree (OpLoop body n pv) (mb_tree b))"
proof -
  have "m = of_nat (length (mb_nodes b))"
    and b': "b' = b\<lparr>mb_edges := mb_edges b @ [body], mb_payloads := mb_payloads b @ [MpLoop n],
       mb_nodes := mb_nodes b @ [\<lparr>mn_kind = MLoop, mn_edge_start = of_nat (length (mb_edges b)),
         mn_edge_count = of_nat (length [body]), mn_boundary_start = of_nat (length (mb_boundaries b)),
         mn_payload = Some (of_nat (length (mb_payloads b))), mn_provenance = pv\<rparr>]\<rparr>"
    using ap by (auto simp: loop_region_def push_payload_def Let_def)
  moreover have "mb_inv b'" "\<forall>k. unat k < length (mb_nodes b) \<longrightarrow> mb_tree b' k = mb_tree b k"
      "mb_tree b' (of_nat (length (mb_nodes b))) = RNode (MLoop, [], Some (ma_content (mb_view 0 b) (MpLoop n)), pv) (map (mb_tree b) [body])"
    using push_payload_node [OF inv mb_extends_refl _ _ _ _ _ _ _ _ _ _ _ _ _ b' small] inv_names [OF inv] ok
    by (auto simp: payload_matches_kind_def payload_refs_ok_def)
  ultimately show ?thesis using small by (simp add: added_def mb_small_def ma_content_def)
qed

lemma push_leaf_added:
  assumes inv: "mb_inv b" and ext: "mb_extends b b1"
    and same: "mb_nodes b1 = mb_nodes b" "mb_edges b1 = mb_edges b" "mb_boundaries b1 = mb_boundaries b"
      "mb_templates b1 = mb_templates b" "mb_payloads b1 = mb_payloads b"
    and names: "interned (mb_definition_ids b1) (mb_definitions b1)"
      "interned (mb_operation_ids b1) (mb_operations b1)" "interned (mb_channel_ids b1) (mb_channels b1)"
    and kind: "payload_matches_kind kind (Some p)" "kind \<noteq> MLoop" and refs: "payload_refs_ok (mb_view 0 b1) p"
    and push: "push_leaf kind (Some i) pv b2 = (m, b')" "push_payload p b1 = (i, b2)" and small: "mb_small b'"
  shows "added b m b' (RNode (kind, [], Some (ma_content (mb_view 0 b1) p), pv) [])"
proof -
  have m: "m = of_nat (length (mb_nodes b))"
    and b': "b' = b1\<lparr>mb_edges := mb_edges b1 @ [], mb_payloads := mb_payloads b1 @ [p],
       mb_nodes := mb_nodes b1 @ [\<lparr>mn_kind = kind, mn_edge_start = of_nat (length (mb_edges b1)),
         mn_edge_count = of_nat (length ([] :: u32 list)), mn_boundary_start = of_nat (length (mb_boundaries b1)),
         mn_payload = Some (of_nat (length (mb_payloads b1))), mn_provenance = pv\<rparr>]\<rparr>"
    using push same by (auto simp: push_leaf_def push_node_def push_payload_def)
  note node = push_payload_node [OF inv ext same names kind(1) _ _ refs _ b' small]
  have "mb_inv b'" "\<forall>k. unat k < length (mb_nodes b) \<longrightarrow> mb_tree b' k = mb_tree b k"
      "mb_tree b' (of_nat (length (mb_nodes b))) = RNode (kind, [], Some (ma_content (mb_view 0 b1) p), pv) (map (mb_tree b) [])"
    using node kind(2) by auto
  moreover have "length (mb_nodes b') = Suc (length (mb_nodes b))" using same(1) b' by simp
  ultimately show ?thesis using small m by (simp add: added_def mb_small_def)
qed

lemma intern_frames:
  "intern_definition v b = (i, b') \<Longrightarrow> b' = b\<lparr>mb_definitions := mb_definitions b', mb_definition_ids := mb_definition_ids b'\<rparr>"
  "intern_operation v b = (i, b') \<Longrightarrow> b' = b\<lparr>mb_operations := mb_operations b', mb_operation_ids := mb_operation_ids b'\<rparr>"
  "intern_channel v b = (i, b') \<Longrightarrow> b' = b\<lparr>mb_channels := mb_channels b', mb_channel_ids := mb_channel_ids b'\<rparr>"
  by (auto simp: intern_definition_def intern_operation_def intern_channel_def Let_def split: option.splits)

lemma atomic_added:
  assumes inv: "mb_inv b" and ap: "mb_atomic f args pv b = (m, b')" and small: "mb_small b'"
  shows "added b m b' (op_tree (OpAtomic f args pv) (mb_tree b))"
proof -
  obtain i b1 where int: "intern_operation f b = (i, b1)" by (cases "intern_operation f b")
  from intern_frames(2) [OF int] obtain ids ns where b1: "b1 = b\<lparr>mb_operations := ns, mb_operation_ids := ids\<rparr>" by metis
  define b2 where "b2 = b1\<lparr>mb_value_arguments := mb_value_arguments b1 @ args\<rparr>"
  let ?p = "MpAtomic i (of_nat (length (mb_value_arguments b))) (of_nat (length args))"
  obtain p b3 where push: "push_payload ?p b2 = (p, b3)" by (meson surj_pair)
  have leaf: "push_leaf MAtomic (Some p) pv b3 = (m, b')"
    using ap int push by (simp add: mb_atomic_def push_arguments_def b2_def b1)
  have lens: "length (mb_operations b1) < 2 ^ 32" "length (mb_value_arguments b) < 2 ^ 32" "length args < 2 ^ 32"
    using small leaf push by (auto simp: push_leaf_def push_node_def push_payload_def b2_def b1 mb_small_def)
  note op = operations.intern_correct [OF int _ lens(1)]
  have "added b m b' (RNode (MAtomic, [], Some (ma_content (mb_view 0 b2) ?p), pv) [])"
    using op inv_names [OF inv] lens
    by (intro push_leaf_added [OF inv _ _ _ _ _ _ _ _ _ _ _ _ leaf push small])
      (auto simp: b2_def b1 mb_extends_def payload_matches_kind_def payload_refs_ok_def)
  then show ?thesis using op inv_names [OF inv] lens by (simp add: ma_content_def b2_def b1)
qed

lemma definition_ref_added:
  assumes inv: "mb_inv b" and ap: "mb_definition_ref f args pv b = (m, b')" and small: "mb_small b'"
  shows "added b m b' (op_tree (OpDefinitionRef f args pv) (mb_tree b))"
proof -
  obtain i b1 where int: "intern_definition f b = (i, b1)" by (cases "intern_definition f b")
  from intern_frames(1) [OF int] obtain ids ns where b1: "b1 = b\<lparr>mb_definitions := ns, mb_definition_ids := ids\<rparr>" by metis
  define b2 where "b2 = b1\<lparr>mb_value_arguments := mb_value_arguments b1 @ args\<rparr>"
  let ?p = "MpDefinitionRef i (of_nat (length (mb_value_arguments b))) (of_nat (length args))"
  obtain p b3 where push: "push_payload ?p b2 = (p, b3)" by (meson surj_pair)
  have leaf: "push_leaf MDefinitionRef (Some p) pv b3 = (m, b')"
    using ap int push by (simp add: mb_definition_ref_def push_arguments_def b2_def b1)
  have lens: "length (mb_definitions b1) < 2 ^ 32" "length (mb_value_arguments b) < 2 ^ 32" "length args < 2 ^ 32"
    using small leaf push by (auto simp: push_leaf_def push_node_def push_payload_def b2_def b1 mb_small_def)
  note op = definitions.intern_correct [OF int _ lens(1)]
  have "added b m b' (RNode (MDefinitionRef, [], Some (ma_content (mb_view 0 b2) ?p), pv) [])"
    using op inv_names [OF inv] lens
    by (intro push_leaf_added [OF inv _ _ _ _ _ _ _ _ _ _ _ _ leaf push small])
      (auto simp: b2_def b1 mb_extends_def payload_matches_kind_def payload_refs_ok_def)
  then show ?thesis using op inv_names [OF inv] lens by (simp add: ma_content_def b2_def b1)
qed

lemma opaque_added:
  assumes inv: "mb_inv b" and ok: "op_ok (OpOpaque d calls meta pv) b"
    and ap: "mb_opaque d calls meta pv b = (m, b')" and small: "mb_small b'"
  shows "added b m b' (op_tree (OpOpaque d calls meta pv) (mb_tree b))"
proof -
  let ?calls = "map (\<lambda>(board, callable, arguments, keywords). \<lparr>call_board = board, call_callable = callable,
        call_arguments = arguments, call_keyword_arguments = keywords\<rparr>) calls"
  define b1 where "b1 = b\<lparr>mb_opaque_calls := mb_opaque_calls b @ ?calls\<rparr>"
  let ?p = "MpOpaque d (of_nat (length (mb_opaque_calls b))) (of_nat (length calls)) meta"
  obtain p b2 where push: "push_payload ?p b1 = (p, b2)" by (meson surj_pair)
  have leaf: "push_leaf MOpaque (Some p) pv b2 = (m, b')"
    using ap push by (simp add: mb_opaque_def b1_def Let_def)
  have lens: "length (mb_opaque_calls b) < 2 ^ 32" "length calls < 2 ^ 32"
    using small leaf push by (auto simp: push_leaf_def push_node_def push_payload_def b1_def mb_small_def)
  have "payload_refs_ok (mb_view 0 b1) ?p"
    using ok lens by (auto simp: payload_refs_ok_def b1_def)
  then have "added b m b' (RNode (MOpaque, [], Some (ma_content (mb_view 0 b1) ?p), pv) [])"
    using inv_names [OF inv]
    by (intro push_leaf_added [OF inv _ _ _ _ _ _ _ _ _ _ _ _ leaf push small])
      (auto simp: b1_def mb_extends_def payload_matches_kind_def)
  then show ?thesis using lens by (simp add: ma_content_def b1_def)
qed

lemma wait_added:
  assumes inv: "mb_inv b" and ap: "time_displacement d s pv b = (m, b')" and small: "mb_small b'"
  shows "added b m b' (RNode (MWait, [], Some (CWait d s), pv) [])"
proof -
  obtain p b1 where push: "push_payload (MpWait d s) b = (p, b1)" by (meson surj_pair)
  have leaf: "push_leaf MWait (Some p) pv b1 = (m, b')" using ap push by (simp add: time_displacement_def)
  have "added b m b' (RNode (MWait, [], Some (ma_content (mb_view 0 b) (MpWait d s)), pv) [])"
    using inv_names [OF inv]
    by (intro push_leaf_added [OF inv _ _ _ _ _ _ _ _ _ _ _ _ leaf push small])
      (auto simp: payload_matches_kind_def payload_refs_ok_def)
  then show ?thesis by (simp add: ma_content_def)
qed

lemma instantiate_added:
  assumes inv: "mb_inv b" and ok: "unat t < length (mb_templates b)"
    and ap: "mb_instantiate t c pv b = Some (m, b')" and small: "mb_small b'"
  shows "added b m b' (op_tree (OpInstantiate t c pv) (mb_tree b))"
proof -
  obtain i b1 where int: "intern_channel c b = (i, b1)" by (cases "intern_channel c b")
  from intern_frames(3) [OF int] obtain ids ns where b1: "b1 = b\<lparr>mb_channels := ns, mb_channel_ids := ids\<rparr>" by metis
  obtain p b2 where push: "push_payload (MpInstantiate t i) b1 = (p, b2)" by (meson surj_pair)
  have leaf: "push_leaf MInstantiate (Some p) pv b2 = (m, b')"
    using ap int push ok by (simp add: mb_instantiate_def)
  have lens: "length (mb_channels b1) < 2 ^ 32"
    using small leaf push by (auto simp: push_leaf_def push_node_def push_payload_def b1 mb_small_def)
  note op = channels.intern_correct [OF int _ lens]
  have "added b m b' (RNode (MInstantiate, [], Some (ma_content (mb_view 0 b1) (MpInstantiate t i)), pv) [])"
    using op inv_names [OF inv] ok
    by (intro push_leaf_added [OF inv _ _ _ _ _ _ _ _ _ _ _ _ leaf push small])
      (auto simp: b1 mb_extends_def payload_matches_kind_def payload_refs_ok_def)
  then show ?thesis using op inv_names [OF inv] by (simp add: ma_content_def)
qed

lemma apply_added:
  assumes "mb_inv b" "op_ok op b"
  shows "\<exists>m b'. mb_apply op b = Some (m, b') \<and> (mb_small b' \<longrightarrow> added b m b' (op_tree op (mb_tree b)))"
proof (cases op)
  case (OpAtomic f args pv)
  then show ?thesis using atomic_added [OF assms(1)] by (cases "mb_atomic f args pv b") auto
next
  case (OpDefinitionRef f args pv)
  then show ?thesis using definition_ref_added [OF assms(1)] by (cases "mb_definition_ref f args pv b") auto
next
  case (OpOpaque d calls meta pv)
  then show ?thesis using opaque_added [OF assms(1), of d calls meta pv] assms(2)
    by (cases "mb_opaque d calls meta pv b") auto
next
  case (OpLogicalShift d pv)
  then show ?thesis using wait_added [OF assms(1)] by (cases "logical_shift d pv b") (auto simp: logical_shift_def)
next
  case (OpPhysicalWait d pv)
  then show ?thesis using wait_added [OF assms(1)] by (cases "physical_wait d pv b") (auto simp: physical_wait_def)
next
  case (OpInstantiate t c pv)
  with assms(2) have t: "unat t < length (mb_templates b)" by simp
  then obtain m b' where "mb_instantiate t c pv b = Some (m, b')"
    unfolding mb_instantiate_def by (metis surj_pair)
  then show ?thesis using instantiate_added [OF assms(1) t] OpInstantiate by auto
next
  case (OpSerial cs bs pv)
  then show ?thesis using serial_added [OF assms(1)] assms(2) by auto
next
  case (OpParallel cs pv)
  then show ?thesis using parallel_added [OF assms(1)] assms(2) by auto
next
  case (OpLoop body n pv)
  then show ?thesis using loop_added [OF assms(1), of body n pv] assms(2) by (cases "loop_region body n pv b") auto
qed

lemma mb_inv_templates: "mb_inv b \<Longrightarrow> \<forall>t\<in>set (mb_templates b). unat (template_root t) < length (mb_nodes b)"
  by (simp add: mb_inv_def)

section \<open>Builders that the operations can produce\<close>

inductive built :: "morphism_builder \<Rightarrow> bool" where
  new: "built mb_new"
| op: "built b \<Longrightarrow> op_ok op b \<Longrightarrow> mb_apply op b = Some (m, b') \<Longrightarrow> mb_small b' \<Longrightarrow> built b'"
| provenance: "built b \<Longrightarrow> intern_provenance p b = (i, b') \<Longrightarrow> built b'"
| template: "built b \<Longrightarrow> publish_template r b = Some (t, b') \<Longrightarrow> mb_small b' \<Longrightarrow> built b'"

lemma built_inv: "built b \<Longrightarrow> mb_inv b \<and> mb_small b"
proof (induction rule: built.induct)
  case new
  then show ?case by (simp add: mb_inv_def mb_small_def mb_new_def interned_def)
next
  case (op b op m b')
  then show ?case using apply_added [of b op] by (auto simp: added_def)
next
  case (provenance b p i b')
  then have b': "b' = b\<lparr>mb_provenance := mb_provenance b @ [p]\<rparr>" by (auto simp: intern_provenance_def)
  have "mb_extends b b'" by (simp add: mb_extends_def b')
  then have "mb_inv b'"
    using provenance.IH inv_names [of b] mb_inv_templates [of b]
    by (intro extends_inv(1) [of b b' "[]"]) (simp_all add: b')
  then show ?case using provenance.IH by (simp add: b' mb_small_def)
next
  case (template b r t b')
  then have b': "b' = b\<lparr>mb_templates := mb_templates b @ [\<lparr>template_root = r\<rparr>]\<rparr>" "unat r < length (mb_nodes b)"
    by (auto simp: publish_template_def split: if_splits)
  have "mb_extends b b'" by (simp add: mb_extends_def b')
  then have "mb_inv b'"
    using template.IH inv_names [of b] mb_inv_templates [of b] b'(2)
    by (intro extends_inv(1) [of b b' "[]"]) (simp_all add: b')
  then show ?case using template.hyps by simp
qed

section \<open>Properties\<close>

text \<open>
  Validation is exact: an arena of at most \<open>2^32\<close> nodes is accepted if and only if its root, its
  template roots and all children are nodes, every composition has its arity, every boundary, argument
  and call range lies in its table, every payload fits its node kind and every reference resolves.
\<close>

theorem morphism_validate_exact:
  assumes "length (ma_nodes a) \<le> 2 ^ 32"
  shows "ma_validate a = Inr () \<longleftrightarrow> ma_wf a"
  using assms by (rule ma_validate_iff)

definition pulse_builder :: morphism_builder where
  "pulse_builder = snd (the (mb_apply (OpSerial [0, 1] [BStrict] 0)
     (snd (the (mb_apply (OpPhysicalWait 3 0) (snd (the (mb_apply (OpAtomic ''set'' [7] 0) mb_new))))))))"

lemmas builder_eval = pulse_builder_def mb_new_def mb_atomic_def physical_wait_def time_displacement_def
  intern_operation_def push_arguments_def push_payload_def push_leaf_def push_node_def mb_serial_def
  push_composition_def Let_def nth_opt_def

theorem morphism_validate_exact_witness:
  "ma_validate (mb_view 2 pulse_builder) = Inr () \<longleftrightarrow> ma_wf (mb_view 2 pulse_builder)"
  by (rule morphism_validate_exact) (simp add: builder_eval)

lemma pulse_built: "built pulse_builder"
proof -
  let ?b1 = "snd (the (mb_apply (OpAtomic ''set'' [7] 0) mb_new))"
  let ?b2 = "snd (the (mb_apply (OpPhysicalWait 3 0) ?b1))"
  have "built ?b1"
    by (rule built.op [OF built.new, of "OpAtomic ''set'' [7] 0" 0]) (simp_all add: builder_eval mb_small_def)
  then have "built ?b2"
    by (rule built.op [of _ "OpPhysicalWait 3 0" 1]) (simp_all add: builder_eval mb_small_def)
  then show ?thesis
    by (rule built.op [of _ "OpSerial [0, 1] [BStrict] 0" 2]) (simp_all add: builder_eval mb_small_def)
qed

lemma pulse_length: "length (mb_nodes pulse_builder) = 3"
  by (simp add: builder_eval)

text \<open>
  C34. Every builder operation whose ids come from this builder succeeds, and while the tables fit
  32-bit indices the node it returns stands for the operation applied to the trees of its operands,
  with serial and parallel compositions flattened; the trees of all older nodes are unchanged.
\<close>

theorem morphism_builder_refines_trees:
  assumes "built b" "op_ok op b"
  shows "\<exists>m b'. mb_apply op b = Some (m, b') \<and> (mb_small b' \<longrightarrow>
    built b' \<and> unat m = length (mb_nodes b) \<and> mb_tree b' m = op_tree op (mb_tree b)
    \<and> (\<forall>k. unat k < length (mb_nodes b) \<longrightarrow> mb_tree b' k = mb_tree b k))"
  using apply_added [of b op] built_inv [OF assms(1)] assms built.op [OF assms] by (auto simp: added_def)

theorem morphism_builder_refines_trees_witness:
  "\<exists>m b'. mb_apply (OpSerial [2, 0] [BAuto] 5) pulse_builder = Some (m, b') \<and> built b' \<and> unat m = 3
    \<and> mb_tree b' m = op_tree (OpSerial [2, 0] [BAuto] 5) (mb_tree pulse_builder)
    \<and> mb_tree b' 2 = mb_tree pulse_builder 2"
proof -
  have ok: "op_ok (OpSerial [2, 0] [BAuto] 5) pulse_builder" by (simp add: pulse_length)
  from morphism_builder_refines_trees [OF pulse_built ok] obtain m b'
    where r: "mb_apply (OpSerial [2, 0] [BAuto] 5) pulse_builder = Some (m, b')"
      "mb_small b' \<longrightarrow> built b' \<and> unat m = length (mb_nodes pulse_builder)
        \<and> mb_tree b' m = op_tree (OpSerial [2, 0] [BAuto] 5) (mb_tree pulse_builder)
        \<and> (\<forall>k. unat k < length (mb_nodes pulse_builder) \<longrightarrow> mb_tree b' k = mb_tree pulse_builder k)" by blast
  from r(1) have "mb_small b'"
    by (auto simp: builder_eval edges_of_def boundaries_of_def slice_get_def mb_small_def)
  with r show ?thesis by (auto simp: pulse_length)
qed

text \<open>
  C38. Serial composition is associative in the arena: grouping three operands to the left or to the
  right gives nodes that stand for the same morphism, boundaries included.
\<close>

theorem morphism_serial_associative:
  assumes "built b" "op_ok (OpSerial [x, y, z] [p, q] pv) b"
    and "mb_serial [x, y] [p] pv b = Some (xy, b1)" "mb_serial [xy, z] [q] pv b1 = Some (l, b2)"
    and "mb_serial [y, z] [q] pv b2 = Some (yz, b3)" "mb_serial [x, yz] [p] pv b3 = Some (r, b4)"
    and "mb_small b1" "mb_small b2" "mb_small b3" "mb_small b4"
  shows "mb_tree b4 l = mb_tree b4 r \<and> mb_tree b4 l = op_tree (OpSerial [x, y, z] [p, q] pv) (mb_tree b)"
proof -
  have serial: "added c m c' (op_tree (OpSerial cs bs pv) (mb_tree c))"
    if "mb_inv c" "op_ok (OpSerial cs bs pv) c" "mb_serial cs bs pv c = Some (m, c')" "mb_small c'" for c cs bs m c'
    using serial_added [OF that(1,2)] that(3,4) by auto
  have inv: "mb_inv b" using assms(1) built_inv by simp
  have s1: "added b xy b1 (op_tree (OpSerial [x, y] [p] pv) (mb_tree b))"
    using assms(2,3,7) inv by (intro serial) auto
  have s2: "added b1 l b2 (op_tree (OpSerial [xy, z] [q] pv) (mb_tree b1))"
    using assms(2,4,8) s1 by (intro serial) (auto simp: added_def)
  have s3: "added b2 yz b3 (op_tree (OpSerial [y, z] [q] pv) (mb_tree b2))"
    using assms(2,5,9) s1 s2 by (intro serial) (auto simp: added_def)
  have s4: "added b3 r b4 (op_tree (OpSerial [x, yz] [p] pv) (mb_tree b3))"
    using assms(2,6,10) s1 s2 s3 by (intro serial) (auto simp: added_def)
  have "mb_tree b4 l = mb_tree b2 l" using s2 s3 s4 by (simp add: added_def)
  moreover have "mb_tree b3 x = mb_tree b x" "mb_tree b2 y = mb_tree b y" "mb_tree b2 z = mb_tree b z"
    "mb_tree b1 z = mb_tree b z" using assms(2) s1 s2 s3 by (auto simp: added_def)
  ultimately show ?thesis
    using s1 s2 s3 s4 by (simp add: added_def operands_def tree_bounds_def)
qed

text \<open>
  C33. Finishing keeps the morphism: from every builder the operations can produce, \<open>finish\<close> at one of
  its nodes returns an arena that validates, whose root and templates stand for the same morphisms as
  in the builder, and all of whose nodes are reachable from the root or a template.
\<close>

theorem morphism_finish_preserves:
  assumes "built b" "unat m < length (mb_nodes b)"
  shows "\<exists>a. mb_finish m b = Some (Inr a) \<and> ma_validate a = Inr ()
    \<and> ma_tree a (ma_root a) = mb_tree b m
    \<and> map (ma_tree a \<circ> template_root) (ma_templates a) = map (mb_tree b \<circ> template_root) (mb_templates b)
    \<and> (\<forall>i<length (ma_nodes a).
         i \<in> reachable_from (ma_kids a) (unat ` insert (ma_root a) (template_root ` set (ma_templates a))))"
proof -
  have inv: "mb_inv b" and small: "mb_small b" using built_inv [OF assms(1)] by auto
  from mb_finish_pruned [OF inv assms(2) small] obtain marks where ok: "marks_ok m b marks"
    and fin: "mb_finish m b = Some (res_bind (ma_validate (pruned m b marks)) (\<lambda>_. Inr (pruned m b marks)))" by blast
  have "length (ma_nodes (pruned m b marks)) \<le> 2 ^ 32"
    using rank_le [of marks "length marks"] ok small by (simp add: kept_def rank_def marks_ok_def mb_small_def)
  then have v: "ma_validate (pruned m b marks) = Inr ()"
    using pruned_wf [OF inv small ok] by (simp add: ma_validate_iff)
  then have "mb_finish m b = Some (Inr (pruned m b marks))" using fin by simp
  moreover have "map (ma_tree (pruned m b marks) \<circ> template_root) (ma_templates (pruned m b marks))
      = map (mb_tree b \<circ> template_root) (mb_templates b)"
    using pruned_tree [OF inv small ok] by simp
  ultimately show ?thesis
    using v pruned_tree [OF inv small ok, of m] pruned_reachable [OF inv small ok]
    by (intro exI [of _ "pruned m b marks"]) (auto simp: image_image)
qed

theorem morphism_finish_preserves_witness:
  "\<exists>a. mb_finish 1 pulse_builder = Some (Inr a) \<and> ma_validate a = Inr ()
    \<and> ma_tree a (ma_root a) = mb_tree pulse_builder 1"
  using morphism_finish_preserves [OF pulse_built, of 1] by (auto simp: pulse_length)

text \<open>
  In every builder the operations can produce, the children of a node precede it, so the store is
  acyclic, and no serial (parallel) node is a direct child of a serial (parallel) node.
\<close>

theorem morphism_builder_flat:
  assumes "built b" "i < length (mb_nodes b)" "edges_of b (mb_nodes b ! i) = Some es" "c \<in> set es"
  shows "unat c < i \<and> (mn_kind (mb_nodes b ! i) \<in> {MSerial, MParallel} \<longrightarrow>
    mn_kind (mb_nodes b ! unat c) \<noteq> mn_kind (mb_nodes b ! i))"
  using built_inv [OF assms(1)] assms(2-4) edges_of_Some [of b i] mb_inv_node [of b i]
  by (auto simp: mb_node_ok_def)

theorem morphism_builder_flat_witness:
  "unat (1 :: u32) < 2 \<and> mn_kind (mb_nodes pulse_builder ! 2) = MSerial
     \<and> mn_kind (mb_nodes pulse_builder ! unat (1 :: u32)) \<noteq> MSerial"
proof -
  have "mn_kind (mb_nodes pulse_builder ! 2) = MSerial" by (simp add: builder_eval)
  moreover have "edges_of pulse_builder (mb_nodes pulse_builder ! 2) = Some [0, 1]"
    by (simp add: builder_eval edges_of_def slice_get_def)
  ultimately show ?thesis
    using morphism_builder_flat [OF pulse_built, of 2 "[0, 1]" 1] by (simp add: pulse_length)
qed

text \<open>
  Interning is injective and stable: two operation names interned one after the other get the same
  id exactly when they are equal, and the table holds each name at its id.
\<close>

theorem morphism_intern_injective:
  assumes "built b" "intern_operation v b = (i, b1)" "intern_operation w b1 = (j, b2)"
    "length (mb_operations b2) < 2 ^ 32"
  shows "(i = j \<longleftrightarrow> v = w) \<and> mb_operations b2 ! unat j = w \<and> intern_operation w b2 = (j, b2)"
proof -
  have names: "interned (mb_operation_ids b) (mb_operations b)" "mb_small b"
    using built_inv [OF assms(1)] by (simp_all add: mb_inv_def)
  have "prefix (mb_operations b1) (mb_operations b2)"
    using assms(3) by (auto simp: intern_operation_def Let_def split: option.splits)
  then have len: "length (mb_operations b1) < 2 ^ 32" using assms(4) by (meson le_less_trans prefix_length_le)
  have n1: "interned (mb_operation_ids b1) (mb_operations b1)"
    using operations.intern_correct(1) [OF assms(2) names(1) len] .
  show ?thesis
    using operations.intern_distinct [OF assms(2,3) names(1) assms(4)]
      operations.intern_correct(3) [OF assms(3) n1 assms(4)] operations.intern_again [OF assms(3) n1 assms(4)]
    by simp
qed

theorem morphism_intern_injective_witness:
  "\<exists>b1 b2. ((0 :: u32) = 1 \<longleftrightarrow> ''set'' = ''ramp'') \<and> mb_operations b2 ! unat (1 :: u32) = ''ramp''
     \<and> intern_operation ''ramp'' b2 = (1, b2)
     \<and> intern_operation ''set'' pulse_builder = (0, b1) \<and> intern_operation ''ramp'' b1 = (1, b2)"
proof -
  define b2 where "b2 = snd (intern_operation ''ramp'' pulse_builder)"
  have e: "intern_operation ''set'' pulse_builder = (0, pulse_builder)" "intern_operation ''ramp'' pulse_builder = (1, b2)"
    by (simp_all add: builder_eval b2_def)
  have "length (mb_operations b2) < 2 ^ 32" by (simp add: builder_eval b2_def)
  from morphism_intern_injective [OF pulse_built e this] e show ?thesis by blast
qed

theorem morphism_serial_associative_witness:
  "\<exists>b1 b2 b3 b4 l r. mb_serial [0, 1] [BStrict] 0 pulse_builder = Some (3, b1)
     \<and> mb_tree b4 l = mb_tree b4 r
     \<and> mb_tree b4 l = op_tree (OpSerial [0, 1, 0] [BStrict, BAuto] 0) (mb_tree pulse_builder)"
proof -
  let ?s = "\<lambda>cs bs b. snd (the (mb_serial cs bs 0 b))"
  define b1 where "b1 = ?s [0, 1] [BStrict] pulse_builder"
  define b2 where "b2 = ?s [3, 0] [BAuto] b1"
  define b3 where "b3 = ?s [1, 0] [BAuto] b2"
  define b4 where "b4 = ?s [0, 5] [BStrict] b3"
  note evals = builder_eval edges_of_def boundaries_of_def slice_get_def mb_small_def
  have e1: "mb_serial [0, 1] [BStrict] 0 pulse_builder = Some (3, b1)" "mb_small b1"
    by (simp_all add: b1_def evals)
  have e2: "mb_serial [3, 0] [BAuto] 0 b1 = Some (4, b2)" "mb_small b2"
    by (simp_all add: b2_def b1_def evals)
  have e3: "mb_serial [1, 0] [BAuto] 0 b2 = Some (5, b3)" "mb_small b3"
    by (simp_all add: b3_def b2_def b1_def evals)
  have e4: "mb_serial [0, 5] [BStrict] 0 b3 = Some (6, b4)" "mb_small b4"
    by (simp_all add: b4_def b3_def b2_def b1_def evals)
  have ok: "op_ok (OpSerial [0, 1, 0] [BStrict, BAuto] 0) pulse_builder" by (simp add: pulse_length)
  from morphism_serial_associative [OF pulse_built ok e1(1) e2(1) e3(1) e4(1) e1(2) e2(2) e3(2) e4(2)] e1(1)
  show ?thesis by blast
qed

end
