(* ===== verification/Native_Arenas.thy ===== *)
theory Native_Arenas
  imports Morphism_Soundness
begin

text \<open>
  \<open>catseq-core/src/native_arenas.rs\<close>: the pair of a morphism arena and a value arena whose references
  from one into the other are checked.
\<close>

section \<open>The pair\<close>

record native_arenas =
  na_morphisms :: morphism_arena
  na_values :: value_expr_arena

datatype native_arenas_error = FromMorphismArena morphism_arena_error | FromValueExpr value_expr_error

definition check_value :: "value_expr_arena \<Rightarrow> value_expr_id \<Rightarrow> native_arenas_error + unit" where
  "check_value values eid = res_map_err FromValueExpr (res_bind (ve_node values eid) (\<lambda>_. Inr ()))"

text \<open>The body of the loop over the payloads.\<close>

definition check_payload ::
  "morphism_arena \<Rightarrow> value_expr_arena \<Rightarrow> morphism_payload \<Rightarrow> native_arenas_error + unit" where
  "check_payload morphisms values payload =
     (case payload of
        MpWait duration _ \<Rightarrow> check_value values duration
      | MpAtomic _ _ _ \<Rightarrow>
          res_bind (res_map_err FromMorphismArena (ma_payload_arguments morphisms payload)) (\<lambda>arguments.
            res_all (check_value values) arguments)
      | MpDefinitionRef _ _ _ \<Rightarrow>
          res_bind (res_map_err FromMorphismArena (ma_payload_arguments morphisms payload)) (\<lambda>arguments.
            res_all (check_value values) arguments)
      | MpOpaque duration _ _ metadata \<Rightarrow>
          res_bind (check_value values duration) (\<lambda>_.
          res_bind (check_value values metadata) (\<lambda>_.
          res_bind (res_map_err FromMorphismArena (ma_calls morphisms payload)) (\<lambda>calls.
            res_all (\<lambda>call. res_bind (check_value values (call_arguments call)) (\<lambda>_.
              check_value values (call_keyword_arguments call))) calls)))
      | MpInstantiate _ _ \<Rightarrow> Inr ()
      | MpLoop count \<Rightarrow> check_value values count)"

definition native_arenas_new ::
  "morphism_arena \<Rightarrow> value_expr_arena \<Rightarrow> native_arenas_error + native_arenas" where
  "native_arenas_new morphisms values =
     res_bind (res_map_err FromMorphismArena (ma_validate morphisms)) (\<lambda>_.
     res_bind (res_map_err FromValueExpr (ve_validate values)) (\<lambda>_.
     res_bind (res_all (check_payload morphisms values) (ma_payloads morphisms)) (\<lambda>_.
       Inr \<lparr>na_morphisms = morphisms, na_values = values\<rparr>)))"

section \<open>Specification\<close>

text \<open>The value expressions that a payload mentions, once its ranges are in bounds.\<close>

definition payload_values :: "morphism_arena \<Rightarrow> morphism_payload \<Rightarrow> value_expr_id set" where
  "payload_values a payload =
     (case ma_content a payload of
        CWait d _ \<Rightarrow> {d}
      | CAtomic _ args \<Rightarrow> set args
      | COpaque d calls meta \<Rightarrow> {d, meta} \<union> call_arguments ` set calls \<union> call_keyword_arguments ` set calls
      | CInstantiate _ _ \<Rightarrow> {}
      | CDefinitionRef _ args \<Rightarrow> set args
      | CLoop c \<Rightarrow> {c})"

definition payload_ranges_ok :: "morphism_arena \<Rightarrow> morphism_payload \<Rightarrow> bool" where
  "payload_ranges_ok a payload =
     (case payload of
        MpAtomic _ start n \<Rightarrow> unat start + unat n \<le> length (ma_value_arguments a)
      | MpDefinitionRef _ start n \<Rightarrow> unat start + unat n \<le> length (ma_value_arguments a)
      | MpOpaque _ start n _ \<Rightarrow> unat start + unat n \<le> length (ma_opaque_calls a)
      | _ \<Rightarrow> True)"

lemma check_value_iff [simp]: "check_value v e = Inr u \<longleftrightarrow> unat e < length (ve_nodes v)"
  by (auto simp: check_value_def ve_node_def res_simps)

lemma check_payload_iff:
  "check_payload a v p = Inr () \<longleftrightarrow>
     payload_ranges_ok a p \<and> (\<forall>e\<in>payload_values a p. unat e < length (ve_nodes v))"
  by (cases p) (auto simp: check_payload_def payload_ranges_ok_def payload_values_def ma_content_def
      ma_payload_arguments_def ma_calls_def res_bind_Inr_iff slice_get_def)

lemma native_new_iff:
  assumes "length (ma_nodes a) \<le> 2 ^ 32" "length (ve_nodes v) \<le> 2 ^ 32"
  shows "(\<exists>na. native_arenas_new a v = Inr na) \<longleftrightarrow> ma_wf a
     \<and> (\<forall>i<length (ve_nodes v). value_node_ok v (ve_nodes v ! i))
     \<and> (\<forall>p\<in>set (ma_payloads a). payload_ranges_ok a p \<and> (\<forall>e\<in>payload_values a p. unat e < length (ve_nodes v)))"
  unfolding ma_validate_iff [OF assms(1), symmetric] ve_validate_iff [OF assms(2), symmetric] check_payload_iff [symmetric]
  by (auto simp: native_arenas_new_def res_bind_Inr_iff)

section \<open>Properties\<close>

text \<open>
  The pair is accepted exactly when the morphism arena and the value arena are each well formed and
  every range of every payload is in its table and every value expression it mentions is in the value
  arena; the accepted pair holds the two arenas unchanged.
\<close>

theorem native_arenas_exact:
  assumes "length (ma_nodes a) \<le> 2 ^ 32" "length (ve_nodes v) \<le> 2 ^ 32"
  shows "native_arenas_new a v = Inr \<lparr>na_morphisms = a, na_values = v\<rparr> \<longleftrightarrow> ma_wf a
     \<and> (\<forall>i<length (ve_nodes v). value_node_ok v (ve_nodes v ! i))
     \<and> (\<forall>p\<in>set (ma_payloads a). payload_ranges_ok a p \<and> (\<forall>e\<in>payload_values a p. unat e < length (ve_nodes v)))"
  unfolding native_new_iff [OF assms, symmetric] by (auto simp: native_arenas_new_def res_bind_Inr_iff)

theorem native_arenas_exact_witness:
  "native_arenas_new (mb_view 2 pulse_builder) ve_builder_new
     \<noteq> Inr \<lparr>na_morphisms = mb_view 2 pulse_builder, na_values = ve_builder_new\<rparr>"
proof -
  have "\<not> (\<forall>p\<in>set (mb_payloads pulse_builder). payload_ranges_ok (mb_view 2 pulse_builder) p
      \<and> (\<forall>e\<in>payload_values (mb_view 2 pulse_builder) p. unat e < length (ve_nodes ve_builder_new)))"
    by (simp add: builder_eval payload_values_def ma_content_def ve_builder_new_def)
  moreover have "length (ma_nodes (mb_view 2 pulse_builder)) \<le> 2 ^ 32" "length (ve_nodes ve_builder_new) \<le> 2 ^ 32"
    by (simp_all add: pulse_length ve_builder_new_def)
  ultimately show ?thesis using native_arenas_exact [of "mb_view 2 pulse_builder" ve_builder_new] by simp
qed

text \<open>
  The two builders fit together: a morphism arena finished from any builder the operations can
  produce is accepted with any valid value arena that contains the value expressions its payloads
  mention, and the accepted morphism is the one that was built.
\<close>

theorem native_arenas_from_builders:
  assumes "built b" "unat m < length (mb_nodes b)" "ve_validate v = Inr ()" "length (ve_nodes v) \<le> 2 ^ 32"
    and "\<forall>p\<in>set (mb_payloads b). \<forall>e\<in>payload_values (mb_view 0 b) p. unat e < length (ve_nodes v)"
  shows "\<exists>a. mb_finish m b = Some (Inr a) \<and> native_arenas_new a v = Inr \<lparr>na_morphisms = a, na_values = v\<rparr>
    \<and> ma_tree a (ma_root a) = mb_tree b m"
proof -
  have inv: "mb_inv b" and small: "mb_small b" using built_inv [OF assms(1)] by auto
  from mb_finish_pruned [OF inv assms(2) small] obtain marks where ok: "marks_ok m b marks"
    and fin: "mb_finish m b = Some (res_bind (ma_validate (pruned m b marks)) (\<lambda>_. Inr (pruned m b marks)))" by blast
  let ?a = "pruned m b marks"
  have len: "length (ma_nodes ?a) \<le> 2 ^ 32"
    using rank_le [of marks "length marks"] ok small by (simp add: kept_def rank_def marks_ok_def mb_small_def)
  have wf: "ma_wf ?a" using inv small ok by (rule pruned_wf)
  have "payload_ranges_ok ?a p \<and> (\<forall>e\<in>payload_values ?a p. unat e < length (ve_nodes v))"
    if "p \<in> set (ma_payloads ?a)" for p
  proof -
    have "payload_refs_ok (mb_view 0 b) p" using inv that by (simp add: mb_inv_def)
    then have "payload_ranges_ok ?a p" by (cases p) (auto simp: payload_refs_ok_def payload_ranges_ok_def)
    moreover have "payload_values ?a p = payload_values (mb_view 0 b) p"
      by (simp add: payload_values_def ma_content_pruned)
    ultimately show ?thesis using assms(5) that by simp
  qed
  moreover have "check_payload ?a v p = Inr ()" if "p \<in> set (mb_payloads b)" for p
    using calculation that check_payload_iff by simp
  ultimately have "native_arenas_new ?a v = Inr \<lparr>na_morphisms = ?a, na_values = v\<rparr>"
    using wf ma_validate_iff [OF len] assms(3) by (simp add: native_arenas_new_def res_bind_Inr_iff)
  moreover have "mb_finish m b = Some (Inr ?a)" using fin wf ma_validate_iff [OF len] by simp
  ultimately show ?thesis using pruned_tree [OF inv small ok, of m] by auto
qed

definition pulse_values :: value_expr_arena where
  "pulse_values = \<lparr>ve_nodes = replicate 8 \<lparr>ven_kind = KConstant, ven_type = TInt64, ven_edge_start = 0,
     ven_edge_count = 0, ven_payload = Some 0\<rparr>, ve_edges = [], ve_payloads = [PInt64 100]\<rparr>"

lemma pulse_values_ok: "ve_validate pulse_values = Inr ()" "length (ve_nodes pulse_values) = 8"
  by (subst ve_validate_iff)
    (simp_all add: pulse_values_def value_node_ok_def ven_bounded_def ven_slice_def ven_value_def)

lemma pulse_pair:
  "unat 2 < length (mb_nodes pulse_builder)" "length (ve_nodes pulse_values) \<le> 2 ^ 32"
  "\<forall>p\<in>set (mb_payloads pulse_builder). \<forall>e\<in>payload_values (mb_view 0 pulse_builder) p. unat e < length (ve_nodes pulse_values)"
  by (simp_all add: pulse_values_ok pulse_length) (simp add: builder_eval payload_values_def ma_content_def)

theorem native_arenas_from_builders_witness:
  "\<exists>a. mb_finish 2 pulse_builder = Some (Inr a)
    \<and> native_arenas_new a pulse_values = Inr \<lparr>na_morphisms = a, na_values = pulse_values\<rparr>
    \<and> ma_tree a (ma_root a) = mb_tree pulse_builder 2"
  by (rule native_arenas_from_builders [OF pulse_built pulse_pair(1) pulse_values_ok(1) pulse_pair(2,3)])

end
