(* ===== verification/Exact_Decimal.thy ===== *)
theory Exact_Decimal
  imports Prelude
begin

text \<open>
  \<open>catseq-core/src/exact_decimal.rs\<close>: the checked rational arithmetic that turns durations into
  integer cycle counts.  A value is a pair of 128-bit integers; every operation fails (\<open>None\<close>)
  rather than wrap.  \<open>dec_value\<close> is the rational number a pair denotes and \<open>dec_inv\<close> the canonical
  form (positive denominator, lowest terms, both components in range).  The floating-point
  entry points (\<open>from_f64_shortest\<close>, \<open>checked_rem\<close>, \<open>to_f64\<close>) are not modelled here.
\<close>

section \<open>Definitions\<close>

record exact_decimal =
  numerator :: int
  denominator :: int

definition from_i64 :: "int \<Rightarrow> exact_decimal" where
  "from_i64 v = \<lparr>numerator = v, denominator = 1\<rparr>"

definition from_u64 :: "int \<Rightarrow> exact_decimal" where
  "from_u64 v = \<lparr>numerator = v, denominator = 1\<rparr>"

fun gcd_loop :: "nat \<Rightarrow> nat \<Rightarrow> nat" where
  "gcd_loop left right = (if right = 0 then max left 1 else gcd_loop right (left mod right))"

definition dec_new :: "int \<Rightarrow> int \<Rightarrow> exact_decimal option" where
  "dec_new n d =
     (if d \<le> 0 then None
      else let divisor = wrap_i128 (int (gcd_loop (nat \<bar>n\<bar>) (nat d)))
           in Some \<lparr>numerator = n sdiv divisor, denominator = d sdiv divisor\<rparr>)"

definition dec_checked_neg :: "exact_decimal \<Rightarrow> exact_decimal option" where
  "dec_checked_neg a = do {
     n \<leftarrow> checked_i128 (- numerator a);
     dec_new n (denominator a) }"

definition dec_checked_add :: "exact_decimal \<Rightarrow> exact_decimal \<Rightarrow> exact_decimal option" where
  "dec_checked_add a b = do {
     l \<leftarrow> checked_i128 (numerator a * denominator b);
     r \<leftarrow> checked_i128 (numerator b * denominator a);
     n \<leftarrow> checked_i128 (l + r);
     d \<leftarrow> checked_i128 (denominator a * denominator b);
     dec_new n d }"

definition dec_checked_sub :: "exact_decimal \<Rightarrow> exact_decimal \<Rightarrow> exact_decimal option" where
  "dec_checked_sub a b = do { nb \<leftarrow> dec_checked_neg b; dec_checked_add a nb }"

definition dec_checked_mul :: "exact_decimal \<Rightarrow> exact_decimal \<Rightarrow> exact_decimal option" where
  "dec_checked_mul a b = do {
     n \<leftarrow> checked_i128 (numerator a * numerator b);
     d \<leftarrow> checked_i128 (denominator a * denominator b);
     dec_new n d }"

definition dec_checked_div :: "exact_decimal \<Rightarrow> exact_decimal \<Rightarrow> exact_decimal option" where
  "dec_checked_div a b =
     (if numerator b = 0 then None
      else do {
        l \<leftarrow> checked_i128 (numerator a * denominator b);
        n \<leftarrow> checked_i128 (l * (if numerator b < 0 then - 1 else 1));
        m \<leftarrow> checked_i128 \<bar>numerator b\<bar>;
        d \<leftarrow> checked_i128 (denominator a * m);
        dec_new n d })"

definition dec_maximum :: "exact_decimal \<Rightarrow> exact_decimal \<Rightarrow> exact_decimal option" where
  "dec_maximum a b = do {
     l \<leftarrow> checked_i128 (numerator a * denominator b);
     r \<leftarrow> checked_i128 (numerator b * denominator a);
     Some (if l < r then b else a) }"

datatype rust_ordering = Less | Equal | Greater

definition int_cmp :: "int \<Rightarrow> int \<Rightarrow> rust_ordering" where
  "int_cmp x y = (if x < y then Less else if x = y then Equal else Greater)"

definition dec_checked_cmp :: "exact_decimal \<Rightarrow> exact_decimal \<Rightarrow> rust_ordering option" where
  "dec_checked_cmp a b = do {
     l \<leftarrow> checked_i128 (numerator a * denominator b);
     r \<leftarrow> checked_i128 (numerator b * denominator a);
     Some (int_cmp l r) }"

definition to_cycle_count :: "exact_decimal \<Rightarrow> int option" where
  "to_cycle_count a =
     (if numerator a < 0 \<or> numerator a smod denominator a \<noteq> 0 then None
      else checked_u64 (numerator a sdiv denominator a))"

definition to_signed_cycle_delta :: "exact_decimal \<Rightarrow> int option" where
  "to_signed_cycle_delta a =
     (if numerator a smod denominator a \<noteq> 0 then None
      else checked_i64 (numerator a sdiv denominator a))"

definition round_half_even :: "int \<Rightarrow> int \<Rightarrow> int option" where
  "round_half_even n d = (let quotient = n sdiv d; remainder = n smod d in do {
     twice_remainder \<leftarrow> checked_i128 (remainder * 2);
     if twice_remainder > d \<or> (twice_remainder = d \<and> quotient smod 2 \<noteq> 0)
     then checked_i128 (quotient + 1) else Some quotient })"

definition to_cycle_count_rounded :: "exact_decimal \<Rightarrow> int option" where
  "to_cycle_count_rounded a =
     (if numerator a < 0 then None
      else do {
        rounded \<leftarrow> round_half_even (numerator a) (denominator a);
        checked_u64 rounded })"

definition to_signed_cycle_delta_rounded :: "exact_decimal \<Rightarrow> int option" where
  "to_signed_cycle_delta_rounded a = do {
     n \<leftarrow> checked_i128 \<bar>numerator a\<bar>;
     rounded \<leftarrow> round_half_even n (denominator a);
     signed \<leftarrow> (if numerator a < 0 then checked_i128 (- rounded) else Some rounded);
     checked_i64 signed }"

section \<open>Parsing decimal literals\<close>

definition digit_value :: "char \<Rightarrow> int option" where
  "digit_value c = (let k = of_char c :: int in if 48 \<le> k \<and> k \<le> 57 then Some (k - 48) else None)"

fun digits_value :: "int \<Rightarrow> string \<Rightarrow> int option" where
  "digits_value acc [] = Some acc"
| "digits_value acc (c # cs) = do { d \<leftarrow> digit_value c; digits_value (acc * 10 + d) cs }"

text \<open>\<open>str::parse\<close> for a signed integer type: an optional sign, at least one digit, in range.\<close>

definition parse_signed :: "int \<Rightarrow> int \<Rightarrow> string \<Rightarrow> int option" where
  "parse_signed lo hi s =
     (case s of [] \<Rightarrow> None
      | c # cs \<Rightarrow>
          if c = CHR ''-'' then (if cs = [] then None
             else do { v \<leftarrow> digits_value 0 cs; checked lo hi (- v) })
          else if c = CHR ''+'' then (if cs = [] then None
             else do { v \<leftarrow> digits_value 0 cs; checked lo hi v })
          else do { v \<leftarrow> digits_value 0 s; checked lo hi v })"

fun split_once :: "(char \<Rightarrow> bool) \<Rightarrow> string \<Rightarrow> (string \<times> string) option" where
  "split_once p [] = None"
| "split_once p (c # cs) =
     (if p c then Some ([], cs)
      else map_option (\<lambda>(l, r). (c # l, r)) (split_once p cs))"

definition is_sign :: "char \<Rightarrow> bool" where
  "is_sign c \<longleftrightarrow> c = CHR ''-'' \<or> c = CHR ''+''"

definition is_exponent_mark :: "char \<Rightarrow> bool" where
  "is_exponent_mark c \<longleftrightarrow> c = CHR ''e'' \<or> c = CHR ''E''"

definition dec_parse :: "string \<Rightarrow> exact_decimal option" where
  "dec_parse value = do {
     (mantissa, exponent) \<leftarrow>
        (case split_once is_exponent_mark value of
           Some (m, e) \<Rightarrow> map_option (\<lambda>x. (m, x)) (parse_signed i32_min i32_max e)
         | None \<Rightarrow> Some (value, 0));
     let negative = (case mantissa of [] \<Rightarrow> False | c # _ \<Rightarrow> c = CHR ''-'');
     let unsigned = dropWhile is_sign mantissa;
     let (whole, fraction) = (case split_once (\<lambda>c. c = CHR ''.'') unsigned of
                                Some p \<Rightarrow> p | None \<Rightarrow> (unsigned, []));
     if whole = [] \<and> fraction = [] then None
     else do {
       v \<leftarrow> parse_signed i128_min i128_max (whole @ fraction);
       n \<leftarrow> (if negative then checked_i128 (- v) else Some v);
       len \<leftarrow> checked_i32 (int (length fraction));
       scale \<leftarrow> checked_i32 (len - exponent);
       if scale \<ge> 0
       then do { d \<leftarrow> checked_i128 (10 ^ nat scale); dec_new n d }
       else do { m \<leftarrow> checked_i128 (10 ^ nat (- scale));
                 p \<leftarrow> checked_i128 (n * m); dec_new p 1 } } }"

section \<open>Denotation and canonical form\<close>

definition dec_value :: "exact_decimal \<Rightarrow> rat" where
  "dec_value a = of_int (numerator a) / of_int (denominator a)"

definition dec_inv :: "exact_decimal \<Rightarrow> bool" where
  "dec_inv a \<longleftrightarrow> 0 < denominator a \<and> coprime (numerator a) (denominator a)
     \<and> i128 (numerator a) \<and> i128 (denominator a)"

section \<open>Canonical form and exactness\<close>

declare gcd_loop.simps [simp del]

lemma gcd_loop_eq: "gcd_loop left right = max 1 (gcd left right)"
proof (induction left right rule: gcd_loop.induct)
  case (1 left right)
  then show ?case
    by (subst gcd_loop.simps) (auto simp: gcd_red_nat [of left right] gcd.commute max.commute)
qed

lemma sdiv_exact: "0 < g \<Longrightarrow> g dvd n \<Longrightarrow> n sdiv g = n div (g::int)"
  by (auto simp: signed_divide_int_def elim!: dvdE simp: abs_mult sgn_mult mult_sgn_abs)

lemma smod_zero_iff: "0 < d \<Longrightarrow> n smod d = 0 \<longleftrightarrow> d dvd (n::int)"
  by (auto simp: signed_modulo_int_def sgn_if dvd_eq_mod_eq_0 [symmetric])

lemma sdiv_nonneg: "0 \<le> n \<Longrightarrow> 0 < d \<Longrightarrow> n sdiv d = n div (d::int)"
  by (auto simp: signed_divide_int_def sgn_if)

lemma smod_nonneg: "0 \<le> n \<Longrightarrow> 0 < d \<Longrightarrow> n smod d = n mod (d::int)"
  by (auto simp: signed_modulo_int_def sgn_if)

lemma i128_between: "i128 d \<Longrightarrow> 0 \<le> g \<Longrightarrow> g \<le> d \<Longrightarrow> i128 g"
  by (auto simp: in_range_def int_limits)

lemma dec_divisor:
  assumes "i128 n" "i128 d" "0 < d"
  shows "wrap_i128 (int (gcd_loop (nat \<bar>n\<bar>) (nat d))) = gcd n d"
proof -
  have eq: "int (gcd_loop (nat \<bar>n\<bar>) (nat d)) = max 1 (gcd n d)"
    using assms by (simp add: gcd_loop_eq of_nat_max flip: gcd_int_int_eq)
  have "0 < gcd n d" using assms by simp
  then have "max 1 (gcd n d) = gcd n d" by linarith
  moreover have "i128 (gcd n d)"
    by (rule i128_between [OF assms(2)]) (use assms in \<open>simp_all add: gcd_le2_int\<close>)
  ultimately show ?thesis by (simp add: eq)
qed

lemma dec_new_Some:
  assumes "i128 n" "i128 d" "0 < d"
  shows "dec_new n d = Some \<lparr>numerator = n div gcd n d, denominator = d div gcd n d\<rparr>"
  using assms by (simp add: dec_new_def dec_divisor sdiv_exact Let_def)

lemma dec_new_Some_iff:
  assumes "i128 n" "i128 d"
  shows "dec_new n d = Some c \<longleftrightarrow>
    0 < d \<and> c = \<lparr>numerator = n div gcd n d, denominator = d div gcd n d\<rparr>"
  using assms dec_new_Some by (cases "0 < d") (auto simp: dec_new_def)

lemma i128_div_gcd: "i128 n \<Longrightarrow> 0 < g \<Longrightarrow> i128 (n div g)"
  using zdiv_mono2 [of n 1 g] zdiv_mono2_neg [of n 1 g]
    pos_imp_zdiv_nonneg_iff [of g n] pos_imp_zdiv_neg_iff [of g n]
  by (cases "0 \<le> n") (auto simp: in_range_def int_limits)

lemma dec_new_sound:
  assumes "i128 n" "i128 d" "dec_new n d = Some c"
  shows "dec_inv c" and "dec_value c = of_int n / of_int d" and "0 < d"
proof -
  from assms have d: "0 < d"
    and c: "c = \<lparr>numerator = n div gcd n d, denominator = d div gcd n d\<rparr>"
    by (auto simp: dec_new_Some_iff)
  define g where "g = gcd n d"
  have g: "0 < g" using d by (simp add: g_def)
  have dd: "0 < d div g" using d g
    by (simp add: g_def gcd_le2_int pos_imp_zdiv_pos_iff)
  obtain n' d' where nd: "n = g * n'" "d = g * d'"
    unfolding g_def by (metis gcd_dvd1 gcd_dvd2 dvdE)
  have c': "c = \<lparr>numerator = n', denominator = d'\<rparr>"
    unfolding c g_def [symmetric] using g by (simp add: nd)
  show "0 < d" by fact
  show "dec_value c = of_int n / of_int d"
    using g by (simp add: dec_value_def c' nd)
  show "dec_inv c"
    using dd g assms d by (simp add: dec_inv_def c g_def [symmetric] i128_div_gcd)
       (simp add: g_def div_gcd_coprime)
qed

lemma dec_new_total: "i128 n \<Longrightarrow> i128 d \<Longrightarrow> 0 < d \<Longrightarrow> \<exists>c. dec_new n d = Some c"
  by (simp add: dec_new_Some)

lemmas dec_op_defs = dec_checked_neg_def dec_checked_add_def dec_checked_sub_def
  dec_checked_mul_def dec_checked_div_def

lemma dec_invD:
  assumes "dec_inv a"
  shows "0 < denominator a" "coprime (numerator a) (denominator a)"
    "i128 (numerator a)" "i128 (denominator a)"
  using assms by (auto simp: dec_inv_def)

lemma from_i64_inv: "i64 v \<Longrightarrow> dec_inv (from_i64 v) \<and> dec_value (from_i64 v) = of_int v"
  by (auto simp: from_i64_def dec_inv_def dec_value_def in_range_def int_limits)

lemma from_u64_inv: "u64r v \<Longrightarrow> dec_inv (from_u64 v) \<and> dec_value (from_u64 v) = of_int v"
  by (auto simp: from_u64_def dec_inv_def dec_value_def in_range_def int_limits)

lemma dec_neg_sound:
  assumes "dec_inv a" "dec_checked_neg a = Some c"
  shows "dec_inv c \<and> dec_value c = - dec_value a"
  using assms dec_new_sound [of "- numerator a" "denominator a" c]
  by (auto simp: dec_checked_neg_def bind_eq_Some_conv dec_invD dec_value_def)

lemma dec_add_sound:
  assumes "dec_inv a" "dec_inv b" "dec_checked_add a b = Some c"
  shows "dec_inv c \<and> dec_value c = dec_value a + dec_value b"
  using assms dec_new_sound [of "numerator a * denominator b + numerator b * denominator a"
      "denominator a * denominator b" c] dec_invD(1) [of a] dec_invD(1) [of b]
  by (auto simp: dec_checked_add_def bind_eq_Some_conv dec_value_def add_frac_eq)

lemma dec_sub_sound:
  assumes "dec_inv a" "dec_inv b" "dec_checked_sub a b = Some c"
  shows "dec_inv c \<and> dec_value c = dec_value a - dec_value b"
proof -
  from assms(3) obtain nb where nb: "dec_checked_neg b = Some nb" "dec_checked_add a nb = Some c"
    by (auto simp: dec_checked_sub_def bind_eq_Some_conv)
  from dec_neg_sound [OF assms(2) nb(1)] have "dec_inv nb" "dec_value nb = - dec_value b" by auto
  with dec_add_sound [OF assms(1) _ nb(2)] show ?thesis by simp
qed

lemma dec_mul_sound:
  assumes "dec_inv a" "dec_inv b" "dec_checked_mul a b = Some c"
  shows "dec_inv c \<and> dec_value c = dec_value a * dec_value b"
  using assms dec_new_sound [of "numerator a * numerator b" "denominator a * denominator b" c]
  by (auto simp: dec_checked_mul_def bind_eq_Some_conv dec_value_def)

lemma dec_div_sound:
  assumes "dec_inv a" "dec_inv b" "dec_checked_div a b = Some c"
  shows "dec_inv c \<and> dec_value c = dec_value a / dec_value b \<and> dec_value b \<noteq> 0"
proof -
  let ?s = "if numerator b < 0 then - 1 else 1 :: int"
  from assms(3) have nb: "numerator b \<noteq> 0" by (auto simp: dec_checked_div_def split: if_splits)
  with assms(3) have ranges: "i128 (numerator a * denominator b * ?s)"
      "i128 (denominator a * \<bar>numerator b\<bar>)"
    and new: "dec_new (numerator a * denominator b * ?s) (denominator a * \<bar>numerator b\<bar>) = Some c"
    by (auto simp: dec_checked_div_def bind_eq_Some_conv split: if_splits)
  from dec_new_sound [OF ranges new] nb dec_invD(1) [OF assms(2)] show ?thesis
    by (auto simp: dec_value_def divide_simps abs_if split: if_splits)
qed

lemma dec_compare_cross:
  assumes "dec_inv a" "dec_inv b"
  shows "numerator a * denominator b < numerator b * denominator a \<longleftrightarrow> dec_value a < dec_value b"
    and "numerator a * denominator b = numerator b * denominator a \<longleftrightarrow> dec_value a = dec_value b"
proof -
  have d: "0 < (of_int (denominator a) :: rat)" "0 < (of_int (denominator b) :: rat)"
    using assms by (auto simp: dec_inv_def)
  have c: "of_int (numerator a * denominator b) = dec_value a * (of_int (denominator a) * of_int (denominator b))"
    "of_int (numerator b * denominator a) = dec_value b * (of_int (denominator a) * of_int (denominator b))"
    using d by (auto simp: dec_value_def)
  have "numerator a * denominator b < numerator b * denominator a \<longleftrightarrow>
      (of_int (numerator a * denominator b) :: rat) < of_int (numerator b * denominator a)"
    by (simp only: of_int_less_iff)
  also have "\<dots> \<longleftrightarrow> dec_value a < dec_value b"
    unfolding c using d by simp
  finally show "numerator a * denominator b < numerator b * denominator a \<longleftrightarrow> dec_value a < dec_value b" .
  have "numerator a * denominator b = numerator b * denominator a \<longleftrightarrow>
      (of_int (numerator a * denominator b) :: rat) = of_int (numerator b * denominator a)"
    by (simp only: of_int_eq_iff)
  also have "\<dots> \<longleftrightarrow> dec_value a = dec_value b"
    unfolding c using d by simp
  finally show "numerator a * denominator b = numerator b * denominator a \<longleftrightarrow> dec_value a = dec_value b" .
qed

lemma dec_maximum_sound:
  assumes "dec_inv a" "dec_inv b" "dec_maximum a b = Some c"
  shows "dec_inv c \<and> dec_value c = max (dec_value a) (dec_value b)"
  using assms dec_compare_cross [OF assms(1,2)]
  by (auto simp: dec_maximum_def bind_eq_Some_conv max_def)

lemma dec_quotient: "dec_inv a \<Longrightarrow> quotient_of (dec_value a) = (numerator a, denominator a)"
  by (simp add: dec_value_def dec_inv_def Fract_of_int_quotient [symmetric] quotient_of_Fract
      normalize_stable)

lemma dec_value_inject:
  assumes "dec_inv a" "dec_inv b" "dec_value a = dec_value b"
  shows "a = b"
  using assms dec_quotient [OF assms(1)] dec_quotient [OF assms(2)] by simp

lemma dec_value_int_iff: "dec_inv a \<Longrightarrow> dec_value a = of_int k \<longleftrightarrow> numerator a = k * denominator a"
  by (simp add: dec_value_def dec_inv_def divide_eq_eq of_int_eq_iff flip: of_int_mult)

lemma to_cycle_count_iff:
  assumes "dec_inv a"
  shows "to_cycle_count a = Some n \<longleftrightarrow> u64r n \<and> dec_value a = of_int n"
proof -
  have d: "0 < denominator a" using assms by (simp add: dec_inv_def)
  have nn: "n * denominator a < 0 \<Longrightarrow> 0 \<le> n \<Longrightarrow> False" using d
    by (simp add: mult_less_0_iff)
  with d show ?thesis
    by (auto simp: to_cycle_count_def smod_zero_iff sdiv_exact dec_value_int_iff [OF assms] in_range_def
        elim!: dvdE)
qed

lemma to_signed_cycle_delta_iff:
  assumes "dec_inv a"
  shows "to_signed_cycle_delta a = Some n \<longleftrightarrow> i64 n \<and> dec_value a = of_int n"
proof -
  have d: "0 < denominator a" using assms by (simp add: dec_inv_def)
  with d show ?thesis
    by (auto simp: to_signed_cycle_delta_def smod_zero_iff sdiv_exact dec_value_int_iff [OF assms]
        elim!: dvdE)
qed

text \<open>What rounding to the nearest integer, ties to even, means.\<close>

definition nearest_even :: "rat \<Rightarrow> int \<Rightarrow> bool" where
  "nearest_even x n \<longleftrightarrow> \<bar>x - of_int n\<bar> \<le> 1 / 2 \<and> (\<bar>x - of_int n\<bar> = 1 / 2 \<longrightarrow> even n)"

lemma nearest_even_unique:
  assumes "nearest_even x m" "nearest_even x n"
  shows "m = n"
proof (rule ccontr)
  assume ne: "m \<noteq> n"
  have "\<bar>x - of_int m\<bar> \<le> 1 / 2" "\<bar>x - of_int n\<bar> \<le> 1 / 2"
    using assms by (auto simp: nearest_even_def)
  then have "\<bar>of_int (m - n) :: rat\<bar> \<le> 1" by linarith
  then have mn: "\<bar>m - n\<bar> \<le> 1" by (metis of_int_abs of_int_1 of_int_le_iff)
  with ne have "m = n + 1 \<or> n = m + 1" by arith
  then have "\<bar>x - of_int m\<bar> = 1 / 2 \<and> \<bar>x - of_int n\<bar> = 1 / 2"
    using \<open>\<bar>x - of_int m\<bar> \<le> 1 / 2\<close> \<open>\<bar>x - of_int n\<bar> \<le> 1 / 2\<close>
    by (auto simp: abs_le_iff abs_if split: if_splits)
  then have "even m \<and> even n" using assms by (auto simp: nearest_even_def)
  with \<open>m = n + 1 \<or> n = m + 1\<close> show False by auto
qed

lemma smod_2_odd: "0 \<le> q \<Longrightarrow> q smod 2 \<noteq> 0 \<longleftrightarrow> odd (q::int)"
  by (simp add: smod_nonneg odd_iff_mod_2_eq_one)

lemma round_half_even_sound:
  assumes "0 \<le> n" "0 < d" "round_half_even n d = Some r"
  shows "nearest_even (of_int n / of_int d) r" and "0 \<le> r"
proof -
  define q where "q = n div d"
  define m where "m = n mod d"
  have q: "0 \<le> q" and m: "0 \<le> m" "m < d" and n: "n = q * d + m"
    using assms by (auto simp: q_def m_def pos_imp_zdiv_nonneg_iff)
  have x: "(of_int n / of_int d :: rat) = of_int q + of_int m / of_int d"
    using assms(2) by (simp add: n field_simps)
  from assms have r: "r = (if 2 * m > d \<or> (2 * m = d \<and> odd q) then q + 1 else q)"
    by (auto simp: round_half_even_def Let_def sdiv_nonneg smod_nonneg bind_eq_Some_conv
        q_def [symmetric] m_def [symmetric] smod_2_odd [OF q] mult.commute split: if_splits)
  show "0 \<le> r" using q r by auto
  define t :: rat where "t = of_int m / of_int d"
  have d: "0 < (of_int d :: rat)" using assms(2) by simp
  have "t > 1 / 2 \<longleftrightarrow> (of_int d :: rat) < of_int (2 * m)"
    using d unfolding t_def by (simp add: less_divide_eq divide_less_eq mult.commute)
  then have half1: "t > 1 / 2 \<longleftrightarrow> 2 * m > d" by (simp only: of_int_less_iff)
  have "t = 1 / 2 \<longleftrightarrow> (of_int (2 * m) :: rat) = of_int d"
    using d unfolding t_def by (auto simp: field_simps)
  then have half2: "t = 1 / 2 \<longleftrightarrow> 2 * m = d" by (simp only: of_int_eq_iff)
  have t: "0 \<le> t" "t < 1" using m assms(2) by (auto simp: t_def field_simps)
  show "nearest_even (of_int n / of_int d) r"
    unfolding x t_def [symmetric] nearest_even_def r half1 [symmetric] half2 [symmetric]
    using t by (auto simp: abs_if split: if_splits)
qed

lemma round_half_even_total:
  assumes "0 \<le> n" "i128 n" "0 < d" "d \<le> 2 ^ 126"
  shows "\<exists>r. round_half_even n d = Some r"
proof (cases "d = 1")
  case True
  then show ?thesis using assms
    by (simp add: round_half_even_def sdiv_nonneg smod_nonneg checked_def in_range_def int_limits)
next
  case False
  have "0 \<le> n mod d" "n mod d < d" using assms by auto
  then have m: "i128 (n mod d * 2)" using assms(4) by (simp add: in_range_def int_limits)
  have "n div d \<le> n div 2" using assms False by (intro zdiv_mono2) auto
  moreover have "n div 2 \<le> i128_max div 2" using assms(2)
    by (intro zdiv_mono1) (auto simp: in_range_def)
  moreover have "0 \<le> n div d" using assms by (simp add: pos_imp_zdiv_nonneg_iff)
  ultimately have q: "i128 (n div d + 1)" by (simp add: in_range_def int_limits)
  show ?thesis using assms m q
    by (simp add: round_half_even_def Let_def sdiv_nonneg smod_nonneg checked_def)
qed

lemma rounded_count_iff:
  assumes "dec_inv a" "denominator a \<le> 2 ^ 126"
  shows "to_cycle_count_rounded a = Some n \<longleftrightarrow> 0 \<le> dec_value a \<and> u64r n \<and> nearest_even (dec_value a) n"
proof -
  note inv = dec_invD [OF assms(1)]
  have pos: "0 \<le> dec_value a \<longleftrightarrow> 0 \<le> numerator a"
    using inv(1) by (simp add: dec_value_def zero_le_divide_iff)
  show ?thesis
  proof (cases "0 \<le> numerator a")
    case True
    then obtain r where r: "round_half_even (numerator a) (denominator a) = Some r"
      using round_half_even_total assms inv by blast
    with round_half_even_sound [OF True inv(1)] have "nearest_even (dec_value a) r" "0 \<le> r"
      by (auto simp: dec_value_def)
    with True r pos show ?thesis
      by (auto simp: to_cycle_count_rounded_def dest: nearest_even_unique)
  qed (simp add: pos to_cycle_count_rounded_def)
qed

lemma nearest_even_neg: "nearest_even (- x) (- n) \<longleftrightarrow> nearest_even x n"
proof -
  have "\<bar>- x - of_int (- n)\<bar> = \<bar>x - of_int n\<bar>" by simp
  then show ?thesis by (simp add: nearest_even_def)
qed

lemma rounded_delta_iff:
  assumes "dec_inv a" "denominator a \<le> 2 ^ 126" "numerator a \<noteq> i128_min"
  shows "to_signed_cycle_delta_rounded a = Some n \<longleftrightarrow> i64 n \<and> nearest_even (dec_value a) n"
proof -
  note inv = dec_invD [OF assms(1)]
  have abs: "i128 \<bar>numerator a\<bar>"
    using inv(3) assms(3) by (auto simp: in_range_def int_limits)
  then obtain r where r: "round_half_even \<bar>numerator a\<bar> (denominator a) = Some r"
    using round_half_even_total [of "\<bar>numerator a\<bar>"] assms inv by auto
  from round_half_even_sound [OF _ inv(1) r]
  have ne: "nearest_even (\<bar>of_int (numerator a)\<bar> / of_int (denominator a)) r" and r0: "0 \<le> r"
    by auto
  define s where "s = (if numerator a < 0 then - r else r)"
  have sgn: "nearest_even (dec_value a) s"
    using ne nearest_even_neg [of "dec_value a" "- r"] by (auto simp: s_def dec_value_def abs_if split: if_splits)
  have "to_signed_cycle_delta_rounded a = Some n \<longleftrightarrow> i64 s \<and> n = s"
    using abs r r0 by (auto simp: to_signed_cycle_delta_rounded_def s_def bind_eq_Some_conv in_range_def int_limits)
  with sgn show ?thesis by (auto dest: nearest_even_unique)
qed

section \<open>Literals\<close>

definition is_digit :: "char \<Rightarrow> bool" where
  "is_digit c \<longleftrightarrow> 48 \<le> (of_char c :: int) \<and> (of_char c :: int) \<le> 57"

fun digits_from :: "int \<Rightarrow> string \<Rightarrow> int" where
  "digits_from acc [] = acc"
| "digits_from acc (c # cs) = digits_from (acc * 10 + (of_char c - 48)) cs"

definition digits_num :: "string \<Rightarrow> int" where
  "digits_num s = digits_from 0 s"

lemma digits_value_digits: "list_all is_digit s \<Longrightarrow> digits_value acc s = Some (digits_from acc s)"
  by (induction s arbitrary: acc) (auto simp: digit_value_def is_digit_def)

lemma digits_from_bounds:
  "list_all is_digit s \<Longrightarrow> 0 \<le> acc \<Longrightarrow>
     0 \<le> digits_from acc s \<and> digits_from acc s < (acc + 1) * 10 ^ length s"
proof (induction s arbitrary: acc)
  case (Cons c s)
  from Cons.prems have c: "48 \<le> (of_char c :: int)" "(of_char c :: int) \<le> 57"
    by (auto simp: is_digit_def)
  define acc' where "acc' = acc * 10 + (of_char c - 48)"
  have IH: "0 \<le> digits_from acc' s" "digits_from acc' s < (acc' + 1) * 10 ^ length s"
    using Cons.IH [of acc'] Cons.prems c by (auto simp: acc'_def)
  have "(acc' + 1) * (10::int) ^ length s \<le> ((acc + 1) * 10) * 10 ^ length s"
    using c by (intro mult_right_mono) (auto simp: acc'_def)
  from less_le_trans [OF IH(2) this] IH(1)
  have "0 \<le> digits_from acc' s \<and> digits_from acc' s < (acc + 1) * 10 ^ length (c # s)"
    by (simp only: mult.assoc length_Cons power_Suc simp_thms)
  then show ?case by (simp only: digits_from.simps acc'_def [symmetric])
qed simp

lemma digits_num_bounds: "list_all is_digit s \<Longrightarrow> 0 \<le> digits_num s \<and> digits_num s < 10 ^ length s"
  using digits_from_bounds [of s 0] by (simp add: digits_num_def)

lemma digit_not_special:
  assumes "is_digit c"
  shows "\<not> is_sign c" "\<not> is_exponent_mark c" "c \<noteq> CHR ''.''" "c \<noteq> CHR ''-''" "c \<noteq> CHR ''+''"
  using assms by (auto simp: is_digit_def is_sign_def is_exponent_mark_def)

lemma parse_signed_digits:
  assumes "list_all is_digit s" "s \<noteq> []"
  shows "parse_signed lo hi s = checked lo hi (digits_num s)"
  using assms digits_value_digits [OF assms(1), of 0]
  by (cases s) (auto simp: parse_signed_def digits_num_def dest: digit_not_special)

lemma split_once_None: "\<forall>c\<in>set s. \<not> p c \<Longrightarrow> split_once p s = None"
  by (induction s) auto

lemma split_once_first: "\<forall>c\<in>set l. \<not> p c \<Longrightarrow> p c \<Longrightarrow> split_once p (l @ c # r) = Some (l, r)"
  by (induction l) auto


definition sign_text :: "bool \<Rightarrow> string" where
  "sign_text neg = (if neg then ''-'' else [])"

definition signed_num :: "bool \<Rightarrow> string \<Rightarrow> int" where
  "signed_num neg s = (if neg then - digits_num s else digits_num s)"

text \<open>A literal without exponent: sign, whole digits, point, fraction digits.\<close>

lemma dec_parse_fixed:
  assumes "list_all is_digit w" "list_all is_digit f" "w \<noteq> [] \<or> f \<noteq> []"
  shows "dec_parse (sign_text neg @ w @ CHR ''.'' # f) = do {
     v \<leftarrow> checked_i128 (digits_num (w @ f));
     n \<leftarrow> (if neg then checked_i128 (- v) else Some v);
     scale \<leftarrow> checked_i32 (int (length f));
     d \<leftarrow> checked_i128 (10 ^ nat scale);
     dec_new n d }"
proof -
  have dig: "\<forall>c\<in>set w \<union> set f. is_digit c" using assms by (auto simp: list_all_iff)
  have e: "split_once is_exponent_mark (sign_text neg @ w @ CHR ''.'' # f) = None"
  proof (rule split_once_None, rule ballI)
    fix c assume "c \<in> set (sign_text neg @ w @ CHR ''.'' # f)"
    then have "is_digit c \<or> c = CHR ''-'' \<or> c = CHR ''.''"
      using dig by (cases neg) (auto simp: sign_text_def)
    then show "\<not> is_exponent_mark c"
      using digit_not_special(2) by (auto simp: is_exponent_mark_def)
  qed
  have neg: "(case sign_text neg @ w @ CHR ''.'' # f of [] \<Rightarrow> False | c # _ \<Rightarrow> c = CHR ''-'') = neg"
    using dig by (cases w) (auto simp: sign_text_def dest: digit_not_special)
  have drop: "dropWhile is_sign (sign_text neg @ w @ CHR ''.'' # f) = w @ CHR ''.'' # f"
    using dig by (cases w) (auto simp: sign_text_def is_sign_def dest: digit_not_special)
  have pt: "split_once (\<lambda>c. c = CHR ''.'') (w @ CHR ''.'' # f) = Some (w, f)"
    using dig by (intro split_once_first) (auto dest: digit_not_special)
  have ps: "parse_signed i128_min i128_max (w @ f) = checked_i128 (digits_num (w @ f))"
    using assms by (intro parse_signed_digits) auto
  have rng: "\<And>x. checked_i32 (int (length f)) = Some x \<Longrightarrow> i32 (x - 0) \<and> 0 \<le> x"
    by auto
  show ?thesis
    unfolding dec_parse_def e using assms(3)
    by (auto simp: neg drop pt ps Let_def checked_def)
qed

lemma dec_parse_fixed_value:
  assumes "list_all is_digit w" "list_all is_digit f" "w \<noteq> [] \<or> f \<noteq> []"
    "length w + length f \<le> 38"
  shows "\<exists>c. dec_parse (sign_text neg @ w @ CHR ''.'' # f) = Some c \<and> dec_inv c \<and>
    dec_value c = of_int (signed_num neg (w @ f)) / 10 ^ length f"
proof -
  have b: "0 \<le> digits_num (w @ f)" "digits_num (w @ f) < 10 ^ length (w @ f)"
    using digits_num_bounds [of "w @ f"] assms by auto
  have "(10::int) ^ length (w @ f) \<le> 10 ^ 38" using assms by (intro power_increasing) auto
  with b have v: "i128 (digits_num (w @ f))" "i128 (- digits_num (w @ f))"
    by (simp_all add: in_range_def int_limits)
  have "(10::int) ^ length f \<le> 10 ^ 38" using assms by (intro power_increasing) auto
  moreover have "0 < (10::int) ^ length f" by simp
  moreover have "i128 (10 ^ 38)" by (simp add: in_range_def int_limits)
  ultimately have d: "i128 (10 ^ length f)" by (blast intro: i128_between less_imp_le)
  have l: "i32 (int (length f))" using assms by (simp add: in_range_def int_limits)
  have s: "i128 (signed_num neg (w @ f))" using v by (simp add: signed_num_def)
  obtain c where c: "dec_new (signed_num neg (w @ f)) (10 ^ length f) = Some c"
    using dec_new_total [OF s d] by auto
  with v d l have "dec_parse (sign_text neg @ w @ CHR ''.'' # f) = Some c"
    using assms by (auto simp: dec_parse_fixed checked_def signed_num_def split: if_splits)
  with dec_new_sound [OF s d c] show ?thesis by simp
qed
section \<open>The contract of a checked operation\<close>

text \<open>
  Callers pass one of the checked operations as a function argument (the evaluator of value
  expressions does).  What such a caller relies on is this contract: canonical operands give a
  canonical result that denotes the exact rational result.
\<close>

locale exact_operation =
  fixes op :: "exact_decimal \<Rightarrow> exact_decimal \<Rightarrow> exact_decimal option"
    and f :: "rat \<Rightarrow> rat \<Rightarrow> rat"
  assumes op_sound: "dec_inv a \<Longrightarrow> dec_inv b \<Longrightarrow> op a b = Some c \<Longrightarrow>
    dec_inv c \<and> dec_value c = f (dec_value a) (dec_value b)"
begin

lemma op_determined:
  assumes "dec_inv a" "dec_inv b" "op a b = Some c" "dec_inv c'"
    "dec_value c' = f (dec_value a) (dec_value b)"
  shows "c' = c"
  using op_sound [OF assms(1-3)] assms(4,5) by (auto intro: dec_value_inject)

lemma op_cycle_count:
  assumes "dec_inv a" "dec_inv b" "op a b = Some c"
  shows "to_cycle_count c = Some n \<longleftrightarrow> u64r n \<and> f (dec_value a) (dec_value b) = of_int n"
  using op_sound [OF assms] to_cycle_count_iff by auto

end

interpretation dec_add: exact_operation dec_checked_add "(+)"
  by unfold_locales (rule dec_add_sound)

interpretation dec_sub: exact_operation dec_checked_sub "(-)"
  by unfold_locales (rule dec_sub_sound)

interpretation dec_mul: exact_operation dec_checked_mul "(*)"
  by unfold_locales (rule dec_mul_sound)

interpretation dec_div: exact_operation dec_checked_div "(/)"
  by unfold_locales (blast dest: dec_div_sound)

interpretation dec_max: exact_operation dec_maximum max
  by unfold_locales (rule dec_maximum_sound)

section \<open>Properties\<close>

text \<open>
  C29. Checked decimal arithmetic is exact: whenever an addition, subtraction, multiplication,
  division or maximum of canonical decimals returns a value, that value is canonical and denotes
  exactly the rational result; nothing is rounded and nothing wraps.
\<close>

theorem dec_arithmetic_exact:
  assumes "dec_inv a" and "dec_inv b"
  shows "(\<forall>c. dec_checked_add a b = Some c \<longrightarrow> dec_inv c \<and> dec_value c = dec_value a + dec_value b)
    \<and> (\<forall>c. dec_checked_sub a b = Some c \<longrightarrow> dec_inv c \<and> dec_value c = dec_value a - dec_value b)
    \<and> (\<forall>c. dec_checked_mul a b = Some c \<longrightarrow> dec_inv c \<and> dec_value c = dec_value a * dec_value b)
    \<and> (\<forall>c. dec_checked_div a b = Some c \<longrightarrow>
          dec_inv c \<and> dec_value b \<noteq> 0 \<and> dec_value c = dec_value a / dec_value b)
    \<and> (\<forall>c. dec_maximum a b = Some c \<longrightarrow>
          dec_inv c \<and> dec_value c = max (dec_value a) (dec_value b))"
  using assms dec_add.op_sound dec_sub.op_sound dec_mul.op_sound dec_div_sound dec_max.op_sound
  by blast

theorem dec_arithmetic_exact_witness:
  "dec_checked_add \<lparr>numerator = 1, denominator = 6\<rparr> \<lparr>numerator = 1, denominator = 3\<rparr>
     = Some \<lparr>numerator = 1, denominator = 2\<rparr>
   \<and> dec_value \<lparr>numerator = 1, denominator = 2\<rparr>
     = dec_value \<lparr>numerator = 1, denominator = 6\<rparr> + dec_value \<lparr>numerator = 1, denominator = 3\<rparr>"
proof -
  have inv: "dec_inv \<lparr>numerator = 1, denominator = 6\<rparr>" "dec_inv \<lparr>numerator = 1, denominator = 3\<rparr>"
    by (simp_all add: dec_inv_def in_range_def int_limits)
  have "dec_checked_add \<lparr>numerator = 1, denominator = 6\<rparr> \<lparr>numerator = 1, denominator = 3\<rparr>
     = Some \<lparr>numerator = 1, denominator = 2\<rparr>"
    by code_simp
  with dec_arithmetic_exact [OF inv] show ?thesis by blast
qed

text \<open>
  Conversion to cycles is exact: a canonical decimal becomes the cycle count \<open>n\<close> if and only
  if it equals the integer \<open>n\<close> and \<open>n\<close> fits in 64 unsigned bits (signed bits for a cycle delta);
  every other value is refused.
\<close>

theorem cycle_conversion_exact:
  assumes "dec_inv a"
  shows "(to_cycle_count a = Some n \<longleftrightarrow> u64r n \<and> dec_value a = of_int n)
    \<and> (to_signed_cycle_delta a = Some n \<longleftrightarrow> i64 n \<and> dec_value a = of_int n)"
  using assms to_cycle_count_iff to_signed_cycle_delta_iff by blast

theorem cycle_conversion_exact_witness:
  "to_cycle_count \<lparr>numerator = 5, denominator = 1\<rparr> = Some 5
   \<and> to_signed_cycle_delta \<lparr>numerator = 5, denominator = 1\<rparr> = Some 5
   \<and> to_cycle_count \<lparr>numerator = 21, denominator = 4\<rparr> \<noteq> Some 5"
proof -
  have "dec_inv \<lparr>numerator = 5, denominator = 1\<rparr>" "dec_inv \<lparr>numerator = 21, denominator = 4\<rparr>"
    by (simp_all add: dec_inv_def in_range_def int_limits coprime_iff_gcd_eq_1) code_simp
  from cycle_conversion_exact [OF this(1), of 5] cycle_conversion_exact [OF this(2), of 5]
  show ?thesis by (simp add: dec_value_def in_range_def int_limits)
qed



text \<open>
  A decimal literal of at most 38 digits (optional minus, whole digits, point, fraction
  digits) parses, to the canonical decimal that denotes exactly the written number.
\<close>

theorem dec_parse_exact:
  assumes "list_all is_digit w" and "list_all is_digit f" and "w \<noteq> [] \<or> f \<noteq> []"
    and "length w + length f \<le> 38"
  shows "\<exists>c. dec_parse (sign_text neg @ w @ CHR ''.'' # f) = Some c \<and> dec_inv c \<and>
    dec_value c = of_int (signed_num neg (w @ f)) / 10 ^ length f"
  using assms by (rule dec_parse_fixed_value)

theorem dec_parse_exact_witness:
  "\<exists>c. dec_parse ''-1.50'' = Some c \<and> dec_inv c \<and> dec_value c = - 150 / 100"
proof -
  have "\<exists>c. dec_parse (sign_text True @ ''1'' @ CHR ''.'' # ''50'') = Some c \<and> dec_inv c \<and>
    dec_value c = of_int (signed_num True (''1'' @ ''50'')) / 10 ^ length ''50''"
    by (rule dec_parse_exact) (simp_all add: is_digit_def)
  then show ?thesis by (simp add: sign_text_def signed_num_def digits_num_def)
qed

end
