(* ===== verification/Call_Plan_Model.thy ===== *)
theory Call_Plan_Model
  imports Native_Arenas Exact_Decimal
begin

text \<open>
  \<open>catseq-rtmq/src/oasm_call_plan/model.rs\<close> and \<open>validate.rs\<close>: the versioned inputs of the OASM backend,
  the events it schedules and the call plan it returns.  Cycle counts (\<open>u64\<close>) and deltas (\<open>i64\<close>) are
  integers whose range the operations check; a double is its bit pattern.
\<close>

section \<open>Inputs\<close>

datatype channel_kind = ChannelTtl | ChannelRwg | ChannelRsp

record channel_binding =
  cb_board :: string
  cb_local_id :: u8
  cb_kind :: channel_kind

record opaque_call_binding =
  ocb_callable :: string
  ocb_args :: "json_value list"
  ocb_kwargs :: "(string \<times> json_value) list"

record compile_environment =
  env_schema_version :: u32
  env_channels :: "string \<rightharpoonup> channel_binding"
  env_opaque_calls :: "string \<rightharpoonup> opaque_call_binding"

datatype link_value =
    LvUnsigned int
  | LvSigned int
  | LvFloat u64
  | LvBool bool
  | LvString string

record link_bindings =
  lb_schema_version :: u32
  lb_runtime_values :: "string \<rightharpoonup> link_value"
  lb_environment_values :: "string \<rightharpoonup> link_value"

definition bindings_empty :: link_bindings where
  "bindings_empty = \<lparr>lb_schema_version = 1, lb_runtime_values = Map.empty, lb_environment_values = Map.empty\<rparr>"

definition replace_environment_values_from :: "link_bindings \<Rightarrow> link_bindings \<Rightarrow> link_bindings" where
  "replace_environment_values_from source self =
     self\<lparr>lb_environment_values := lb_environment_values source\<rparr>"

record loop_timing =
  fixed_overhead_cycles :: int
  per_iteration_overhead_cycles :: int
  large_count_threshold :: int
  large_count_iteration_overhead_cycles :: int

definition loop_timing_default :: loop_timing where
  "loop_timing_default = \<lparr>fixed_overhead_cycles = 15, per_iteration_overhead_cycles = 24,
     large_count_threshold = 128, large_count_iteration_overhead_cycles = 25\<rparr>"

definition iteration_overhead :: "loop_timing \<Rightarrow> int \<Rightarrow> int" where
  "iteration_overhead self count =
     (if count \<ge> large_count_threshold self then large_count_iteration_overhead_cycles self
      else per_iteration_overhead_cycles self)"

datatype duration_quantization = QStrict | QNearestEven

datatype target_board_kind = BoardMain | BoardRwg | BoardRsp

fun oasm_argument_of :: "target_board_kind \<Rightarrow> string" where
  "oasm_argument_of BoardMain = ''main''"
| "oasm_argument_of BoardRwg = ''rwg''"
| "oasm_argument_of BoardRsp = ''rsp''"

record target_board =
  tb_kind :: target_board_kind
  tb_ttl_width :: u8

datatype atomic_lowering =
    TtlInitialize | TtlSetHigh | TtlSetLow | RwgInitialize | RwgLoad | RwgPlayLowering | RwgRfOn | RwgRfOff
  | RspInitialize | RspPidConfigLowering | RspPidStartLowering | RspPidHoldLowering | RspPidReleaseLowering
  | RspPidRelinkLowering | RspRfConfigLowering | GlobalSync | OpaqueLowering

record atomic_target_schema =
  ats_lowering :: atomic_lowering
  ats_duration_argument :: "nat option"
  ats_fixed_duration_cycles :: "int option"
  ats_board :: "string option"
  ats_instruction_cost_cycles :: int

text \<open>The boards of a profile are listed in key order, the order in which the ordered map is walked.\<close>

record target_profile =
  tp_schema_version :: u32
  tp_rtmq_abi_version :: u32
  tp_clock_hz :: int
  tp_duration_quantization :: duration_quantization
  tp_loop_timing :: loop_timing
  tp_boards :: "(string \<times> target_board) list"
  tp_operations :: "string \<rightharpoonup> atomic_target_schema"

section \<open>Outputs\<close>

datatype oasm_function =
    LoopBegin | LoopEnd | TtlConfig | TtlSet | Wait | RwgInit | RwgSetCarrier | RwgRfSwitch
  | RwgLoadWaveform | RwgPlay | WaitMaster | TrigSlave | RspInit | RspSetCarrier | RspPidConfig
  | RspPidStart | RspPidHold | RspPidRelease | RspPidRelink | RspRfConfig | UserDefinedFunc

datatype oasm_argument =
    ArgUnsigned int
  | ArgSigned int
  | ArgFloat u64
  | ArgBool bool
  | ArgString string
  | ArgJson json_value

record oasm_call =
  call_offset_cycles :: int
  call_function :: oasm_function
  call_args :: "oasm_argument list"

record oasm_board_plan =
  plan_address :: string
  plan_calls :: "oasm_call list"

record oasm_epoch_plan =
  epoch_id :: int
  epoch_origin_cycles :: int
  epoch_boards :: "oasm_board_plan list"

record oasm_call_plan =
  plan_schema_version :: u32
  plan_epochs :: "oasm_epoch_plan list"
  plan_logical_duration_cycles :: int

text \<open>
  The kinds of \<open>OasmCompileError\<close> that the passes report, similar messages share a constructor; those of
  value evaluation, of \<open>atomic_lowering.rs\<close>, of \<open>event_lowering.rs\<close> and of scheduling and plan building have datatypes
  of their own.
\<close>

datatype atomic_error =
    AtomicArgumentAbsent nat
  | JsonArgumentAbsent nat
  | ValueArenaError value_expr_error
  | NotStructured nat
  | InvalidValueReference
  | UnknownValueReference
  | NotAnInteger
  | NonFiniteValue
  | NegativePhysicalDuration
  | UnknownArgument nat
  | WrongChannelKind string channel_kind channel_kind
  | InvalidTtlLocalId
  | RwgInitOverflow
  | RspInitOverflow
  | NoWaveformExpression
  | NotWaveformAggregate
  | LoadInterrupts
  | LoadBeforeInitialize
  | NotWaveformParameters
  | StaticWithoutTargets
  | TargetsNotAggregate
  | SetStateInterrupts
  | SetStateBeforeInitialize
  | LinearWithoutTargets
  | LinearWithoutDuration
  | RampNotPositive
  | RampNotActive
  | RampCountMismatch nat nat
  | EndpointArity
  | EndpointWithoutRamp
  | PlayWithoutLoad
  | PlayBeforeInitialize
  | SwitchBeforeInitialize
  | SwitchInterrupts
  | PidWithoutConfig
  | PidWithoutSource
  | NotStaticWaveform
  | StaticWithoutSbg
  | NotWaveformParams
  | LoadWithoutSbg
  | NotArrayField string
  | SnapshotNotRecord
  | RampTargetNotRecord
  | SnapshotWithoutSbg
  | FctMismatch int
  | NumberAbsent string

datatype event_error =
    WaitOverflow
  | EpochWithoutOrigin int
  | OriginTooLarge
  | BeforeEpochOrigin int int u32
  | TimestampBeforeOrigin u32
  | EventIdOverflow
  | AtomicArguments morphism_arena_error
  | SecondGlobalSync int
  | OpaqueWithoutBoard string
  | NoOpaqueBinding string
  | NotOnChannel string
  | NoChannelBinding string
  | NegativeOperation string
  | BlackboxBeforeOrigin u32
  | NegativeBlackbox
  | BlackboxOverflow
  | BlackboxCalls morphism_arena_error
  | BlackboxShapes
  | FrontierOverflow
  | ChannelBeforeOrigin
  | FrontierTooLarge
  | SerialTimestampOverflow
  | EpochIdOverflow
  | ExpansionOverflow
  | ExpansionBudget int
  | ExpandedTimestampOverflow
  | HardwareLoopBeforeOrigin
  | NegativeHardwareBody
  | NegativeHardwareLoop
  | LoopStartTooLarge
  | LoopTimestampOverflow
  | LoopEnvelopeOverflow
  | LoopShorterThanBody
  | OrdinaryConflict string
  | BlackboxConflict string
  | OperationConflict int string
  | TtlConflict int string

datatype value_error =
    NotFinite nat
  | StructuredData nat
  | NotIntegerDuration nat
  | NumericOperationFailed
  | DivisionInvalid
  | NegationOverflow
  | RoundOverflow
  | BadSlot string
  | NoSlotPayload nat
  | IntrinsicData nat
  | NotTopological nat
  | NotNumeric nat
  | NotCycleCount nat
  | NotCycleDelta nat

datatype plan_error =
    CarrierNotNumeric
  | NoWaveformRecord
  | WaveformNotNumeric
  | CoefficientsNotArray
  | WaveformCostOverflow
  | WrongEpoch
  | EventBeforeOrigin
  | CoalesceArity
  | CoalesceNotUnsigned
  | PreloadCostOverflow
  | CursorOverflow
  | LoopBodyOverflow
  | LoopDeltaOverflow
  | LoopMarkerOverflow
  | PostLoopOverflow
  | ProgramDurationRange
  | NoEpochOrigin int
  | EpochEndBeforeOrigin
  | NoBoardCapabilities string
  | LogicalDurationRange

datatype oasm_compile_error =
    UnsupportedEnvironmentSchema u32
  | UnsupportedTargetSchema u32
  | UnsupportedAbi u32
  | ZeroClock
  | UnsupportedBindingsSchema u32
  | InvalidWait u32 oasm_compile_error
  | NegativePhysicalInterval u32
  | NoAtomicSchema string
  | InvalidHardInit
  | ArgumentRange
  | MissingDuration string
  | InvalidDuration string oasm_compile_error
  | DurationTooLarge string
  | InvalidOpaqueDuration u32 oasm_compile_error
  | OpaqueDurationTooLarge
  | SerialOverflow
  | UnresolvedDefinition string
  | LoopCountTooLarge
  | ExpandedLoopOverflow
  | NegativeLoopBody
  | LoopOverflow
  | SyncPhiUnsupported
  | SyncCountOverflow
  | ParallelEpochMismatch
  | LoopWithSync
  | AtomicError atomic_error
  | EventError event_error
  | CannotLower string u32 oasm_compile_error
  | ValueError value_error
  | PlanError plan_error

section \<open>Events\<close>

text \<open>
  What lowering hands to the scheduler.  Epochs, cycles, group ids and sequence numbers are unsigned and
  kept as integers; \<open>order_key\<close> is the derived order of \<open>EventOrder\<close>.
\<close>

record event_order =
  eo_channel_kind :: int
  eo_local_id :: u8
  eo_sequence :: int

definition order_key :: "event_order \<Rightarrow> int \<times> u8 \<times> int" where
  "order_key o' = (eo_channel_kind o', eo_local_id o', eo_sequence o')"

definition BOARD :: event_order where
  "BOARD = \<lparr>eo_channel_kind = 0, eo_local_id = 0, eo_sequence = 0\<rparr>"

definition channel_order :: "channel_kind \<Rightarrow> u8 \<Rightarrow> int \<Rightarrow> event_order" where
  "channel_order kind local_id sequence =
     \<lparr>eo_channel_kind = (case kind of ChannelRwg \<Rightarrow> 0 | ChannelRsp \<Rightarrow> 0 | ChannelTtl \<Rightarrow> 1),
      eo_local_id = local_id, eo_sequence = sequence\<rparr>"

record ttl_event =
  te_epoch :: int
  te_offset_cycles :: int
  te_board :: string
  te_local_id :: u8
  te_high :: bool
  te_instruction_cost_cycles :: int
  te_order :: event_order
  te_loop_scope :: "int option"

record direct_event =
  de_epoch :: int
  de_offset_cycles :: int
  de_board :: string
  de_function :: oasm_function
  de_args :: "oasm_argument list"
  de_instruction_cost_cycles :: int
  de_order :: event_order
  de_group_id :: int
  de_preload :: bool
  de_loop_scope :: "int option"

record oasm_loop_region =
  lr_epoch :: int
  lr_start :: int
  lr_body_duration :: int
  lr_count :: int
  lr_marker_group_id :: int

record board_epoch_input =
  bi_epoch :: int
  bi_origin_cycles :: int
  bi_address :: string
  bi_board_kind :: target_board_kind
  bi_duration_cycles :: int
  bi_initial_cursor :: int
  bi_ttl_events :: "ttl_event list"
  bi_direct_events :: "direct_event list"

section \<open>State of an RWG channel\<close>

datatype rwg_play_transition =
    Activate "json_value list"
  | ActivateUnknown
  | StartRamp "json_value list" "json_value list"
  | FinishRamp "json_value list"

datatype rwg_channel_state =
    RwgReady
  | RwgActive bool "json_value list"
  | RwgActiveUnknown bool
  | WaveformsLoaded bool rwg_play_transition int
  | RwgRamping bool "json_value list" "json_value list"

section \<open>Validation of the inputs\<close>

definition validate_inputs ::
  "compile_environment \<Rightarrow> target_profile \<Rightarrow> link_bindings \<Rightarrow> oasm_compile_error + unit" where
  "validate_inputs environment target bindings =
     (if env_schema_version environment \<noteq> 1
      then Inl (UnsupportedEnvironmentSchema (env_schema_version environment))
      else if tp_schema_version target \<noteq> 1 then Inl (UnsupportedTargetSchema (tp_schema_version target))
      else if tp_rtmq_abi_version target \<noteq> 2 then Inl (UnsupportedAbi (tp_rtmq_abi_version target))
      else if tp_clock_hz target = 0 then Inl ZeroClock
      else if lb_schema_version bindings \<noteq> 1
      then Inl (UnsupportedBindingsSchema (lb_schema_version bindings))
      else Inr ())"

section \<open>Conversion of link values\<close>

text \<open>
  What the decimals use of IEEE doubles: the finiteness test, the shortest decimal spelling of
  \<open>f64::to_string\<close>, the quotient of two integers cast to doubles, and \<open>f64::rem_euclid\<close>.
\<close>

record f64_ops =
  f64_is_finite :: "u64 \<Rightarrow> bool"
  f64_to_string :: "u64 \<Rightarrow> string"
  f64_quotient :: "int \<Rightarrow> int \<Rightarrow> u64"
  f64_rem_euclid :: "u64 \<Rightarrow> u64 \<Rightarrow> u64"

definition from_f64_shortest :: "f64_ops \<Rightarrow> u64 \<Rightarrow> exact_decimal option" where
  "from_f64_shortest fp v = (if f64_is_finite fp v then dec_parse (f64_to_string fp v) else None)"

definition dec_to_f64 :: "f64_ops \<Rightarrow> exact_decimal \<Rightarrow> u64" where
  "dec_to_f64 fp a = f64_quotient fp (numerator a) (denominator a)"

definition dec_checked_rem :: "f64_ops \<Rightarrow> exact_decimal \<Rightarrow> exact_decimal \<Rightarrow> exact_decimal option" where
  "dec_checked_rem fp a b =
     (if numerator b = 0 then None
      else from_f64_shortest fp (f64_rem_euclid fp (dec_to_f64 fp a) (dec_to_f64 fp b)))"

definition into_numeric_for :: "f64_ops \<Rightarrow> link_value \<Rightarrow> value_expr_type \<Rightarrow> exact_decimal option" where
  "into_numeric_for fp self value_type =
     (case (value_type, self) of
        (TDuration, LvUnsigned value) \<Rightarrow> map_option from_i64 (checked_i64 value)
      | (TDuration, LvSigned value) \<Rightarrow> Some (from_i64 value)
      | (TInt64, LvUnsigned value) \<Rightarrow> map_option from_i64 (checked_i64 value)
      | (TInt64, LvSigned value) \<Rightarrow> Some (from_i64 value)
      | (TFloat64, LvUnsigned value) \<Rightarrow> Some (from_u64 value)
      | (TFloat64, LvSigned value) \<Rightarrow> Some (from_i64 value)
      | (TFloat64, LvFloat value) \<Rightarrow> from_f64_shortest fp value
      | _ \<Rightarrow> None)"

definition matches_type :: "link_value \<Rightarrow> value_expr_type \<Rightarrow> bool" where
  "matches_type self value_type =
     (case (value_type, self) of
        (TDuration, LvUnsigned _) \<Rightarrow> True
      | (TDuration, LvSigned _) \<Rightarrow> True
      | (TInt64, LvUnsigned _) \<Rightarrow> True
      | (TInt64, LvSigned _) \<Rightarrow> True
      | (TFloat64, LvUnsigned _) \<Rightarrow> True
      | (TFloat64, LvSigned _) \<Rightarrow> True
      | (TFloat64, LvFloat _) \<Rightarrow> True
      | (TBool, LvBool _) \<Rightarrow> True
      | (TString, LvString _) \<Rightarrow> True
      | _ \<Rightarrow> False)"

end
