(* ===== verification/Abi_Cost.thy ===== *)
theory Abi_Cost
  imports Call_Plan_Model
begin

text \<open>
  \<open>catseq-rtmq/src/oasm_call_plan/abi_cost.rs\<close>: the cycles that a call costs on the board.  What the waveform
  costs use of IEEE doubles is the parameter record \<open>f64_arith\<close>.
\<close>

section \<open>Doubles and JSON\<close>

text \<open>
  Equality, the cast of an integer, product, quotient and \<open>powi\<close> of doubles, rounding to the nearest even
  integer with the saturating cast to 128 bits, difference, order, fractional part and the saturating cast to
  64 bits.
\<close>

record f64_arith =
  fa_eq :: "u64 \<Rightarrow> u64 \<Rightarrow> bool"
  fa_of_int :: "int \<Rightarrow> u64"
  fa_mul :: "u64 \<Rightarrow> u64 \<Rightarrow> u64"
  fa_div :: "u64 \<Rightarrow> u64 \<Rightarrow> u64"
  fa_powi :: "u64 \<Rightarrow> nat \<Rightarrow> u64"
  fa_round :: "u64 \<Rightarrow> int"
  fa_sub :: "u64 \<Rightarrow> u64 \<Rightarrow> u64"
  fa_le :: "u64 \<Rightarrow> u64 \<Rightarrow> bool"
  fa_fract :: "u64 \<Rightarrow> u64"
  fa_to_u64 :: "u64 \<Rightarrow> int"

definition json_as_f64 :: "f64_arith \<Rightarrow> json_value \<Rightarrow> u64 option" where
  "json_as_f64 fa value =
     (case value of
        JUnsigned n \<Rightarrow> Some (fa_of_int fa n)
      | JSigned n \<Rightarrow> Some (fa_of_int fa n)
      | JFloat bits \<Rightarrow> Some bits
      | _ \<Rightarrow> None)"

definition optional_json_number :: "f64_arith \<Rightarrow> json_value option \<Rightarrow> oasm_compile_error + u64 option" where
  "optional_json_number fa value =
     (case value of
        None \<Rightarrow> Inr None
      | Some JNull \<Rightarrow> Inr None
      | Some v \<Rightarrow> ok_or (PlanError WaveformNotNumeric) (map_option Some (json_as_f64 fa v)))"

section \<open>Costs\<close>

definition GLOBAL_SYNC_MARGIN_CYCLES :: int where
  "GLOBAL_SYNC_MARGIN_CYCLES = 100"

fun fixed_oasm_call_cost :: "oasm_function \<Rightarrow> int option" where
  "fixed_oasm_call_cost LoopBegin = Some 0"
| "fixed_oasm_call_cost LoopEnd = Some 0"
| "fixed_oasm_call_cost UserDefinedFunc = Some 0"
| "fixed_oasm_call_cost TtlConfig = Some 2"
| "fixed_oasm_call_cost TtlSet = Some 1"
| "fixed_oasm_call_cost RwgInit = Some 53"
| "fixed_oasm_call_cost RwgSetCarrier = None"
| "fixed_oasm_call_cost RwgRfSwitch = None"
| "fixed_oasm_call_cost RwgLoadWaveform = None"
| "fixed_oasm_call_cost RwgPlay = Some 15"
| "fixed_oasm_call_cost WaitMaster = Some 8"
| "fixed_oasm_call_cost TrigSlave = Some 17"
| "fixed_oasm_call_cost RspInit = Some 11"
| "fixed_oasm_call_cost RspSetCarrier = Some 37"
| "fixed_oasm_call_cost RspPidConfig = Some 39"
| "fixed_oasm_call_cost RspPidStart = Some 3"
| "fixed_oasm_call_cost RspPidHold = Some 2"
| "fixed_oasm_call_cost RspPidRelease = Some 15"
| "fixed_oasm_call_cost RspPidRelink = Some 15"
| "fixed_oasm_call_cost RspRfConfig = Some 13"
| "fixed_oasm_call_cost Wait = Some 0"

text \<open>The doubles 0.0, 250.0 and 8192.0.\<close>

definition f64_0 :: u64 where "f64_0 = 0"
definition f64_250 :: u64 where "f64_250 = 0x406F400000000000"
definition f64_8192 :: u64 where "f64_8192 = 0x40C0000000000000"

definition rwg_set_carrier_cost :: "f64_arith \<Rightarrow> direct_event \<Rightarrow> oasm_compile_error + int" where
  "rwg_set_carrier_cost fa event =
     res_bind
       (case nth_opt (de_args event) 1 of
          Some (ArgFloat value) \<Rightarrow> Inr value
        | Some (ArgUnsigned value) \<Rightarrow> Inr (fa_of_int fa value)
        | Some (ArgSigned value) \<Rightarrow> Inr (fa_of_int fa value)
        | _ \<Rightarrow> Inl (PlanError CarrierNotNumeric))
       (\<lambda>frequency. Inr (if fa_eq fa frequency f64_0 then 16 else if fa_eq fa frequency f64_250 then 17 else 18))"

definition unsigned_argument :: "oasm_argument \<Rightarrow> int option" where
  "unsigned_argument argument = (case argument of ArgUnsigned value \<Rightarrow> Some value | _ \<Rightarrow> None)"

text \<open>\<open>u64::count_ones\<close>.\<close>

definition count_ones :: "int \<Rightarrow> int" where
  "count_ones n = int (length (filter (bit n) [0..<64]))"

definition immediate_write_cost :: "int \<Rightarrow> int" where
  "immediate_write_cost value =
     (let low = value AND 0xFFFFFFFF in if low = 0 \<or> low = 0xFFFFFFFF then 1 else 2)"

definition rwg_coefficients_cost ::
  "f64_arith \<Rightarrow> json_value option \<Rightarrow> u64 \<Rightarrow> bool \<Rightarrow> oasm_compile_error + int" where
  "rwg_coefficients_cost fa value fct amplitude =
     (case value of
        Some (JArray coefficients) \<Rightarrow>
          (let scale = fa_div fa f64_8192 f64_250 in
           res_foldl (\<lambda>cost (order, coefficient).
             res_bind (optional_json_number fa (Some coefficient)) (\<lambda>number.
               case number of
                 None \<Rightarrow> Inr cost
               | Some c \<Rightarrow>
                   (let encoded = fa_round fa (fa_mul fa (fa_mul fa c fct) (fa_powi fa scale order));
                        encoded' = (if amplitude then drop_bit 12 encoded else encoded)
                    in ok_or (PlanError WaveformCostOverflow) (checked_u64 (cost + immediate_write_cost encoded')))))
             0 (enumerate 0 coefficients))
      | _ \<Rightarrow> Inl (PlanError CoefficientsNotArray))"

definition rwg_load_waveform_cost :: "f64_arith \<Rightarrow> direct_event \<Rightarrow> oasm_compile_error + int" where
  "rwg_load_waveform_cost fa event =
     (case de_args event of
        ArgJson (JObject waveform) # _ \<Rightarrow>
          res_bind (optional_json_number fa (map_of waveform ''fct'')) (\<lambda>fct.
          let fct = (case fct of Some f \<Rightarrow> f | None \<Rightarrow> fa_div fa (fa_of_int fa 0x100000000) f64_250) in
          res_bind (rwg_coefficients_cost fa (map_of waveform ''freq_coeffs'') fct False) (\<lambda>frequency_cost.
          res_bind (ok_or (PlanError WaveformCostOverflow) (checked_u64 (4 + frequency_cost))) (\<lambda>cost.
          res_bind (optional_json_number fa (map_of waveform ''initial_phase'')) (\<lambda>phase.
          let cost' = (case phase of
                None \<Rightarrow> cost
              | Some p \<Rightarrow> cost + immediate_write_cost (fa_round fa (fa_mul fa p (fa_of_int fa 0x100000)) AND 0xFFFFF)) in
          res_bind (rwg_coefficients_cost fa (map_of waveform ''amp_coeffs'') (fa_of_int fa 0x7FFFFFFF) True) (\<lambda>amplitude_cost.
          ok_or (PlanError WaveformCostOverflow) (checked_u64 (cost' + amplitude_cost)))))))
      | _ \<Rightarrow> Inl (PlanError NoWaveformRecord))"

definition oasm_call_cost :: "f64_arith \<Rightarrow> direct_event \<Rightarrow> oasm_compile_error + int" where
  "oasm_call_cost fa event =
     (case fixed_oasm_call_cost (de_function event) of
        Some cost \<Rightarrow> Inr cost
      | None \<Rightarrow>
          (if de_function event = RwgSetCarrier then rwg_set_carrier_cost fa event
           else if de_function event = RwgRfSwitch then
             Inr (case Option.bind (nth_opt (de_args event) 0) unsigned_argument of
                    None \<Rightarrow> 1
                  | Some channels \<Rightarrow> count_ones channels)
           else rwg_load_waveform_cost fa event))"

section \<open>Costs are unsigned and depend on the function and the arguments only\<close>

lemma immediate_cost_pos: "0 < immediate_write_cost v"
  by (simp add: immediate_write_cost_def Let_def)

lemma coefficients_cost_nonneg: "rwg_coefficients_cost fa v fct amp = Inr c \<Longrightarrow> 0 \<le> c"
proof -
  assume c: "rwg_coefficients_cost fa v fct amp = Inr c"
  then obtain cs where v: "v = Some (JArray cs)" by (auto simp: rwg_coefficients_cost_def split: option.splits json_value.splits)
  show "0 \<le> c"
    using c [unfolded rwg_coefficients_cost_def v, simplified Let_def, simplified]
    by (rule res_foldl_invariant) (auto simp: res_simps in_range_def Let_def split: option.splits)
qed

lemma oasm_call_cost_nonneg: "oasm_call_cost fa e = Inr c \<Longrightarrow> 0 \<le> c"
proof (cases "fixed_oasm_call_cost (de_function e)")
  case None
  assume c: "oasm_call_cost fa e = Inr c"
  have "rwg_load_waveform_cost fa e = Inr c \<Longrightarrow> 0 \<le> c"
    by (auto simp: rwg_load_waveform_cost_def res_simps Let_def in_range_def split: list.splits oasm_argument.splits json_value.splits)
  then show ?thesis using c None
    by (auto simp: oasm_call_cost_def rwg_set_carrier_cost_def res_simps count_ones_def split: if_splits option.splits)
next
  case (Some k)
  then have "0 \<le> k" by (cases "de_function e") auto
  then show "oasm_call_cost fa e = Inr c \<Longrightarrow> 0 \<le> c" using Some by (simp add: oasm_call_cost_def)
qed

lemma oasm_call_cost_cong:
  "de_function e = de_function e' \<Longrightarrow> de_args e = de_args e' \<Longrightarrow> oasm_call_cost fa e = oasm_call_cost fa e'"
  unfolding oasm_call_cost_def rwg_set_carrier_cost_def rwg_load_waveform_cost_def by (simp only:)

end
