(* ===== verification/Value_Eval.thy ===== *)
theory Value_Eval
  imports Call_Plan_Model
begin

text \<open>
  \<open>catseq-rtmq/src/oasm_call_plan/value_eval.rs\<close>: link-time evaluation of the value arena.  \<open>None\<close> is a
  panic of an index or a slice; the theorems show that it does not happen on validated arenas.  The
  JSON arguments are in \<open>Json_Arguments\<close>.
\<close>

section \<open>Definitions\<close>

datatype evaluated_value = EvNumeric exact_decimal value_expr_type | EvBool bool

type_synonym eval_result = "oasm_compile_error + evaluated_value"

definition bool_argument :: "native_arenas \<Rightarrow> value_expr_id \<Rightarrow> bool option" where
  "bool_argument program eid =
     (case ve_payload (na_values program) eid of
        Inr (Some (PBool value)) \<Rightarrow> Some value
      | _ \<Rightarrow> None)"

definition atomic_bool_argument :: "morphism_arena \<Rightarrow> morphism_payload \<Rightarrow> native_arenas \<Rightarrow> nat \<Rightarrow> bool" where
  "atomic_bool_argument arena payload program index =
     (case ma_payload_arguments arena payload of
        Inl _ \<Rightarrow> False
      | Inr arguments \<Rightarrow>
          (case Option.bind (nth_opt arguments index) (bool_argument program) of
             None \<Rightarrow> False
           | Some b \<Rightarrow> b))"

definition numeric_operand :: "eval_result list \<Rightarrow> value_expr_id \<Rightarrow> oasm_compile_error + exact_decimal" where
  "numeric_operand values eid =
     res_bind (case nth_opt values (unat eid) of None \<Rightarrow> Inl (ValueError (NotTopological (unat eid))) | Some v \<Rightarrow> v) (\<lambda>value.
       case value of
         EvNumeric v _ \<Rightarrow> Inr v
       | EvBool _ \<Rightarrow> Inl (ValueError (NotNumeric (unat eid))))"

definition numeric_binary ::
  "eval_result list \<Rightarrow> value_expr_id list \<Rightarrow> value_expr_type
     \<Rightarrow> (exact_decimal \<Rightarrow> exact_decimal \<Rightarrow> exact_decimal option) \<Rightarrow> eval_result option" where
  "numeric_binary values children value_type operation = do {
     c0 \<leftarrow> nth_opt children 0;
     case numeric_operand values c0 of
       Inl e \<Rightarrow> Some (Inl e)
     | Inr left \<Rightarrow> do {
         c1 \<leftarrow> nth_opt children 1;
         Some (res_bind (numeric_operand values c1) (\<lambda>right.
           ok_or (ValueError NumericOperationFailed)
             (map_option (\<lambda>v. EvNumeric v value_type) (operation left right)))) } }"

definition evaluate_link_value :: "f64_ops \<Rightarrow> link_value \<Rightarrow> value_expr_type \<Rightarrow> evaluated_value option" where
  "evaluate_link_value fp value value_type =
     (case value of
        LvBool b \<Rightarrow>
          if value_type = TBool then Some (EvBool b)
          else map_option (\<lambda>v. EvNumeric v value_type) (into_numeric_for fp value value_type)
      | _ \<Rightarrow> map_option (\<lambda>v. EvNumeric v value_type) (into_numeric_for fp value value_type))"

definition evaluate_slot ::
  "f64_ops \<Rightarrow> (string \<rightharpoonup> link_value) \<Rightarrow> string \<Rightarrow> value_expr_type \<Rightarrow> eval_result" where
  "evaluate_slot fp slots name value_type =
     ok_or (ValueError (BadSlot name))
       (Option.bind (Option.bind (slots name) (\<lambda>v. if matches_type v value_type then Some v else None))
          (\<lambda>v. evaluate_link_value fp v value_type))"

definition evaluate_constant :: "f64_ops \<Rightarrow> nat \<Rightarrow> value_expr_payload option \<Rightarrow> eval_result" where
  "evaluate_constant fp index payload =
     (case payload of
        Some (PDurationCycles value) \<Rightarrow> Inr (EvNumeric (from_i64 value) TDuration)
      | Some (PInt64 value) \<Rightarrow> Inr (EvNumeric (from_i64 value) TInt64)
      | Some (PFloat64 value) \<Rightarrow>
          ok_or (ValueError (NotFinite index)) (map_option (\<lambda>v. EvNumeric v TFloat64) (from_f64_shortest fp value))
      | Some (PBool value) \<Rightarrow> Inr (EvBool value)
      | Some (PJson _) \<Rightarrow> Inl (ValueError (StructuredData index))
      | _ \<Rightarrow> Inl (ValueError (NotIntegerDuration index)))"

text \<open>One round of the loop of \<open>evaluate_link_values\<close>.\<close>

definition evaluate_node ::
  "f64_ops \<Rightarrow> value_expr_arena \<Rightarrow> link_bindings \<Rightarrow> eval_result list \<Rightarrow> nat \<Rightarrow> value_expr_node
     \<Rightarrow> eval_result option" where
  "evaluate_node fp arena bindings values index node = do {
     children \<leftarrow> slice_get (ve_edges arena) (unat (ven_edge_start node)) (unat (ven_edge_count node));
     let payload = ve_payload arena (of_nat index);
     case ven_kind node of
       KConstant \<Rightarrow>
         Some (case payload of Inr p \<Rightarrow> evaluate_constant fp index p | Inl _ \<Rightarrow> Inl (ValueError (NotIntegerDuration index)))
     | KAdd \<Rightarrow> numeric_binary values children (ven_type node) dec_checked_add
     | KSubtract \<Rightarrow> numeric_binary values children (ven_type node) dec_checked_sub
     | KMultiply \<Rightarrow> numeric_binary values children (ven_type node) dec_checked_mul
     | KDivide \<Rightarrow> do {
         c1 \<leftarrow> nth_opt children 1;
         case numeric_operand values c1 of
           Inl e \<Rightarrow> Some (Inl e)
         | Inr divisor \<Rightarrow> do {
             c0 \<leftarrow> nth_opt children 0;
             Some (res_bind (numeric_operand values c0) (\<lambda>dividend.
               ok_or (ValueError DivisionInvalid)
                 (map_option (\<lambda>v. EvNumeric v (ven_type node)) (dec_checked_div dividend divisor)))) } }
     | KModulo \<Rightarrow> numeric_binary values children (ven_type node) (dec_checked_rem fp)
     | KMaximum \<Rightarrow> numeric_binary values children (ven_type node) dec_maximum
     | KNegate \<Rightarrow> do {
         c0 \<leftarrow> nth_opt children 0;
         Some (res_bind (numeric_operand values c0) (\<lambda>value.
           ok_or (ValueError NegationOverflow) (map_option (\<lambda>v. EvNumeric v (ven_type node)) (dec_checked_neg value)))) }
     | KRound \<Rightarrow> do {
         c0 \<leftarrow> nth_opt children 0;
         Some (res_bind (numeric_operand values c0) (\<lambda>value.
           ok_or (ValueError RoundOverflow) (map_option (\<lambda>n. EvNumeric (from_i64 n) TInt64)
             (to_signed_cycle_delta_rounded value)))) }
     | KRuntimeSlot \<Rightarrow>
         Some (case payload of
                 Inr (Some (PRuntimeSlot name)) \<Rightarrow> evaluate_slot fp (lb_runtime_values bindings) name (ven_type node)
               | _ \<Rightarrow> Inl (ValueError (NoSlotPayload index)))
     | KEnvironmentSlot \<Rightarrow>
         Some (case payload of
                 Inr (Some (PEnvironmentSlot name)) \<Rightarrow>
                   evaluate_slot fp (lb_environment_values bindings) name (ven_type node)
               | _ \<Rightarrow> Inl (ValueError (NoSlotPayload index)))
     | KIntrinsic \<Rightarrow> Some (Inl (ValueError (IntrinsicData index))) }"

fun evaluate_nodes ::
  "f64_ops \<Rightarrow> value_expr_arena \<Rightarrow> link_bindings \<Rightarrow> eval_result list \<Rightarrow> (nat \<times> value_expr_node) list
     \<Rightarrow> eval_result list option" where
  "evaluate_nodes fp arena bindings values [] = Some values"
| "evaluate_nodes fp arena bindings values ((index, node) # rest) = do {
     value \<leftarrow> evaluate_node fp arena bindings values index node;
     evaluate_nodes fp arena bindings (values @ [value]) rest }"

definition evaluate_link_values ::
  "f64_ops \<Rightarrow> native_arenas \<Rightarrow> link_bindings \<Rightarrow> eval_result list option" where
  "evaluate_link_values fp program bindings =
     (let arena = na_values program
      in evaluate_nodes fp arena bindings [] (enumerate 0 (ve_nodes arena)))"

definition eval_cycles :: "eval_result list \<Rightarrow> value_expr_id \<Rightarrow> oasm_compile_error + int" where
  "eval_cycles values eid =
     res_bind (numeric_operand values eid) (\<lambda>value. ok_or (ValueError (NotCycleCount (unat eid))) (to_cycle_count value))"

definition eval_duration_cycles ::
  "eval_result list \<Rightarrow> value_expr_id \<Rightarrow> duration_quantization \<Rightarrow> oasm_compile_error + int" where
  "eval_duration_cycles values eid quantization =
     res_bind (numeric_operand values eid) (\<lambda>value.
       ok_or (ValueError (NotCycleCount (unat eid)))
         (case quantization of
            QStrict \<Rightarrow> to_cycle_count value
          | QNearestEven \<Rightarrow> to_cycle_count_rounded value))"

definition eval_duration_delta ::
  "eval_result list \<Rightarrow> value_expr_id \<Rightarrow> duration_quantization \<Rightarrow> oasm_compile_error + int" where
  "eval_duration_delta values eid quantization =
     res_bind (numeric_operand values eid) (\<lambda>value.
       ok_or (ValueError (NotCycleDelta (unat eid)))
         (case quantization of
            QStrict \<Rightarrow> to_signed_cycle_delta value
          | QNearestEven \<Rightarrow> to_signed_cycle_delta_rounded value))"

section \<open>Evaluation of trees\<close>

text \<open>
  The reference: evaluation of an expression tree by structural recursion, with errors forgotten.
\<close>

definition numeric_of :: "evaluated_value option \<Rightarrow> exact_decimal option" where
  "numeric_of v = (case v of Some (EvNumeric d _) \<Rightarrow> Some d | _ \<Rightarrow> None)"

definition binary_value ::
  "evaluated_value option list \<Rightarrow> value_expr_type \<Rightarrow> (exact_decimal \<Rightarrow> exact_decimal \<Rightarrow> exact_decimal option)
     \<Rightarrow> evaluated_value option" where
  "binary_value vs ty f =
     (case vs of
        [a, b] \<Rightarrow> do { x \<leftarrow> numeric_of a; y \<leftarrow> numeric_of b; map_option (\<lambda>v. EvNumeric v ty) (f x y) }
      | _ \<Rightarrow> None)"

definition unary_value ::
  "evaluated_value option list \<Rightarrow> (exact_decimal \<Rightarrow> evaluated_value option) \<Rightarrow> evaluated_value option" where
  "unary_value vs f = (case vs of [a] \<Rightarrow> Option.bind (numeric_of a) f | _ \<Rightarrow> None)"

definition res_opt :: "'e + 'a \<Rightarrow> 'a option" where
  "res_opt r = (case r of Inl _ \<Rightarrow> None | Inr a \<Rightarrow> Some a)"

definition label_value ::
  "f64_ops \<Rightarrow> link_bindings \<Rightarrow> value_label \<Rightarrow> evaluated_value option list \<Rightarrow> evaluated_value option" where
  "label_value fp bindings l vs =
     (case l of (kind, ty, payload) \<Rightarrow>
        (case kind of
           KConstant \<Rightarrow> res_opt (evaluate_constant fp 0 payload)
         | KAdd \<Rightarrow> binary_value vs ty dec_checked_add
         | KSubtract \<Rightarrow> binary_value vs ty dec_checked_sub
         | KMultiply \<Rightarrow> binary_value vs ty dec_checked_mul
         | KDivide \<Rightarrow> binary_value vs ty dec_checked_div
         | KModulo \<Rightarrow> binary_value vs ty (dec_checked_rem fp)
         | KMaximum \<Rightarrow> binary_value vs ty dec_maximum
         | KNegate \<Rightarrow> unary_value vs (\<lambda>d. map_option (\<lambda>v. EvNumeric v ty) (dec_checked_neg d))
         | KRound \<Rightarrow> unary_value vs (\<lambda>d. map_option (\<lambda>n. EvNumeric (from_i64 n) TInt64) (to_signed_cycle_delta_rounded d))
         | KRuntimeSlot \<Rightarrow> (case payload of Some (PRuntimeSlot name) \<Rightarrow>
             res_opt (evaluate_slot fp (lb_runtime_values bindings) name ty) | _ \<Rightarrow> None)
         | KEnvironmentSlot \<Rightarrow> (case payload of Some (PEnvironmentSlot name) \<Rightarrow>
             res_opt (evaluate_slot fp (lb_environment_values bindings) name ty) | _ \<Rightarrow> None)
         | KIntrinsic \<Rightarrow> None))"

fun tree_value :: "f64_ops \<Rightarrow> link_bindings \<Rightarrow> value_label rtree \<Rightarrow> evaluated_value option" where
  "tree_value fp bindings (RNode l kids) = label_value fp bindings l (map (tree_value fp bindings) kids)"

lemma res_opt_simps [simp]:
  "res_opt (Inl e) = None" "res_opt (Inr a) = Some a" "res_opt (ok_or e x) = x"
  "res_opt (res_bind m f) = Option.bind (res_opt m) (\<lambda>x. res_opt (f x))"
  by (auto simp: res_opt_def ok_or_def res_bind_def split: option.splits sum.splits)

lemma res_opt_ok [simp]: "res_opt (case x of None \<Rightarrow> Inl e | Some v \<Rightarrow> v) = Option.bind x res_opt"
  by (cases x) (auto simp: res_opt_def)

text \<open>The values computed so far agree with the trees of their nodes.\<close>

definition agrees :: "f64_ops \<Rightarrow> link_bindings \<Rightarrow> value_expr_arena \<Rightarrow> eval_result list \<Rightarrow> bool" where
  "agrees fp bindings a vals \<longleftrightarrow> (\<forall>i<length vals.
     res_opt (vals ! i) = tree_value fp bindings (tree_at (ve_label a) (ve_kids a) i))"

lemma numeric_operand_agrees:
  assumes "unat c < length vals"
  shows "res_opt (numeric_operand vals c) = numeric_of (res_opt (vals ! unat c))"
  using assms by (cases "vals ! unat c")
    (auto simp: numeric_operand_def numeric_of_def nth_opt_def split: evaluated_value.splits)

lemma res_opt_case [simp]:
  "res_opt (case m of Inl e \<Rightarrow> Inl e | Inr x \<Rightarrow> f x) = Option.bind (res_opt m) (\<lambda>x. res_opt (f x))"
  by (cases m) auto

lemma numeric_binary_agrees:
  assumes "children = [c, d]" "unat c < length vals" "unat d < length vals"
  shows "\<exists>v. numeric_binary vals children ty f = Some v
    \<and> res_opt v = binary_value [res_opt (vals ! unat c), res_opt (vals ! unat d)] ty f"
proof (cases "numeric_operand vals c")
  case (Inl e)
  then have "numeric_of (res_opt (vals ! unat c)) = None"
    using numeric_operand_agrees [OF assms(2)] by simp
  then show ?thesis using Inl assms(1) by (simp add: numeric_binary_def nth_opt_def binary_value_def)
next
  case (Inr x)
  then have "numeric_of (res_opt (vals ! unat c)) = Some x"
    using numeric_operand_agrees [OF assms(2)] by simp
  then show ?thesis using Inr assms(1) numeric_operand_agrees [OF assms(3)]
    by (simp add: numeric_binary_def nth_opt_def binary_value_def)
qed

lemma constant_index: "res_opt (evaluate_constant fp i p) = res_opt (evaluate_constant fp j p)"
  by (auto simp: evaluate_constant_def split: option.splits value_expr_payload.splits)

lemma two_elements: "length xs = 2 \<Longrightarrow> \<exists>a b. xs = [a, b]"
  by (auto simp: length_Suc_conv numeral_2_eq_2)

lemma evaluate_node_agrees:
  assumes ok: "value_node_ok a n" "n = ve_nodes a ! i" "i < length (ve_nodes a)" "i < 2 ^ 32"
    and kids: "\<forall>c\<in>set (ven_slice a n). unat c < length vals"
  shows "\<exists>v. evaluate_node fp a bindings vals i n = Some v
    \<and> res_opt v = label_value fp bindings (ve_label a i) (map (\<lambda>c. res_opt (vals ! unat c)) (ven_slice a n))"
proof -
  have slice: "slice_get (ve_edges a) (unat (ven_edge_start n)) (unat (ven_edge_count n)) = Some (ven_slice a n)"
    using ok(1) by (simp add: value_node_ok_def ven_bounded_def slice_get_def ven_slice_def)
  have payload: "ve_payload a (of_nat i) = Inr (ven_value a n)"
    using ok by (auto simp: ve_payload_def ve_node_index value_node_ok_def ven_bounded_def ven_value_def nth_opt_def
        split: option.splits)
  have label: "ve_label a i = (ven_kind n, ven_type n, ven_value a n)" using ok(2) by (simp add: ve_label_def Let_def)
  note node = evaluate_node_def slice payload label label_value_def
  have shape: "kind_payload_ok (ven_kind n) (ven_type n) (ven_value a n)"
    and arity: "\<And>k. kind_arity (ven_kind n) = Some k \<Longrightarrow> length (ven_slice a n) = k"
    using ok(1) by (simp_all add: value_node_ok_def)
  have two: "\<exists>c d. ven_slice a n = [c, d] \<and> unat c < length vals \<and> unat d < length vals"
    if "kind_arity (ven_kind n) = Some 2"
    using two_elements [OF arity [OF that]] kids by auto
  have one: "\<exists>c. ven_slice a n = [c] \<and> unat c < length vals" if "kind_arity (ven_kind n) = Some 1"
    using arity [OF that] kids by (auto simp: length_Suc_conv)
  have binary: ?thesis
    if "kind_arity (ven_kind n) = Some 2"
      "evaluate_node fp a bindings vals i n = numeric_binary vals (ven_slice a n) (ven_type n) f"
      "\<And>vs. label_value fp bindings (ve_label a i) vs = binary_value vs (ven_type n) f" for f
  proof -
    from two [OF that(1)] obtain c d where "ven_slice a n = [c, d]" "unat c < length vals" "unat d < length vals" by blast
    then show ?thesis using numeric_binary_agrees [of "ven_slice a n" c d vals "ven_type n" f] that(2,3) by simp
  qed
  show ?thesis
  proof (cases "ven_kind n")
    case KConstant
    then show ?thesis using constant_index [of fp i _ 0] by (simp add: node)
  next
    case KRuntimeSlot
    then show ?thesis using shape by (auto simp: node)
  next
    case KEnvironmentSlot
    then show ?thesis using shape by (auto simp: node)
  next
    case KIntrinsic
    then show ?thesis by (simp add: node)
  next
    case KDivide
    then obtain c d where cd: "ven_slice a n = [c, d]" "unat c < length vals" "unat d < length vals" using two by auto
    show ?thesis
    proof (cases "numeric_operand vals d")
      case (Inl e)
      then have "numeric_of (res_opt (vals ! unat d)) = None" using numeric_operand_agrees [OF cd(3)] by simp
      then show ?thesis using Inl KDivide cd(1)
        by (cases "numeric_of (res_opt (vals ! unat c))") (simp_all add: node nth_opt_def binary_value_def)
    next
      case (Inr y)
      then have "numeric_of (res_opt (vals ! unat d)) = Some y" using numeric_operand_agrees [OF cd(3)] by simp
      then show ?thesis using Inr KDivide cd(1) numeric_operand_agrees [OF cd(2)]
        by (simp add: node nth_opt_def binary_value_def)
    qed
  next
    case KNegate
    then obtain c where "ven_slice a n = [c]" "unat c < length vals" using one by auto
    then show ?thesis using KNegate numeric_operand_agrees [of c vals]
      by (simp add: node nth_opt_def unary_value_def)
  next
    case KRound
    then obtain c where "ven_slice a n = [c]" "unat c < length vals" using one by auto
    then show ?thesis using KRound numeric_operand_agrees [of c vals]
      by (simp add: node nth_opt_def unary_value_def)
  qed (use binary in \<open>simp_all add: node\<close>)
qed

lemma evaluate_nodes_agree:
  assumes inv: "ve_inv a" and ok: "\<forall>i<length (ve_nodes a). value_node_ok a (ve_nodes a ! i)"
    and len: "length (ve_nodes a) \<le> 2 ^ 32"
  shows "k \<le> length (ve_nodes a) \<Longrightarrow> length vals = k \<Longrightarrow> agrees fp bindings a vals \<Longrightarrow>
    \<exists>vals'. evaluate_nodes fp a bindings vals (enumerate k (drop k (ve_nodes a))) = Some vals'
      \<and> length vals' = length (ve_nodes a) \<and> agrees fp bindings a vals'"
proof (induction "length (ve_nodes a) - k" arbitrary: k vals)
  case 0
  then show ?case by simp
next
  case (Suc m)
  then have k: "k < length (ve_nodes a)" by simp
  let ?n = "ve_nodes a ! k"
  have kids: "\<forall>c\<in>set (ven_slice a ?n). unat c < length vals"
    using inv k Suc.prems(2) by (simp add: ve_inv_def)
  have "k < 2 ^ 32" using k len by simp
  then obtain v where v: "evaluate_node fp a bindings vals k ?n = Some v"
    "res_opt v = label_value fp bindings (ve_label a k) (map (\<lambda>c. res_opt (vals ! unat c)) (ven_slice a ?n))"
    using evaluate_node_agrees [of a ?n k vals fp bindings] ok k kids by blast
  have "map (\<lambda>c. res_opt (vals ! unat c)) (ven_slice a ?n)
      = map (tree_value fp bindings) (map (tree_at (ve_label a) (ve_kids a)) (ve_kids a k))"
    using kids Suc.prems(3) k by (simp add: agrees_def ve_kids_def)
  then have "res_opt v = tree_value fp bindings (tree_at (ve_label a) (ve_kids a) k)"
    using v(2) tree_at_unfold [OF ve_inv_descending [OF inv], of "ve_label a" k] by simp
  then have "agrees fp bindings a (vals @ [v])"
    using Suc.prems(2,3) by (auto simp: agrees_def nth_append less_Suc_eq)
  moreover have "enumerate k (drop k (ve_nodes a)) = (k, ?n) # enumerate (Suc k) (drop (Suc k) (ve_nodes a))"
    using k by (simp add: Cons_nth_drop_Suc [symmetric])
  ultimately show ?case using Suc.hyps(1) [of "Suc k" "vals @ [v]"] Suc.hyps(2) Suc.prems(2) k v(1) by simp
qed

lemma evaluate_agrees:
  assumes "ve_inv a" "ve_validate a = Inr ()" "length (ve_nodes a) \<le> 2 ^ 32" "na_values program = a"
  shows "\<exists>vals. evaluate_link_values fp program bindings = Some vals \<and> length vals = length (ve_nodes a)
    \<and> (\<forall>e. unat e < length (ve_nodes a) \<longrightarrow> res_opt (vals ! unat e) = tree_value fp bindings (ve_tree a e))"
  using evaluate_nodes_agree [OF assms(1) _ assms(3), of 0 "[]" fp bindings] assms
  by (auto simp: evaluate_link_values_def ve_validate_iff agrees_def ve_tree_def)

section \<open>Exactness\<close>

text \<open>
  The rational number that a tree denotes.  Only the remainder and the reading of a double go through
  the floating-point operations.
\<close>

inductive denotes :: "f64_ops \<Rightarrow> link_bindings \<Rightarrow> value_label rtree \<Rightarrow> rat \<Rightarrow> bool" for fp bindings where
  duration: "denotes fp bindings (RNode (KConstant, ty, Some (PDurationCycles v)) kids) (of_int v)"
| int64: "denotes fp bindings (RNode (KConstant, ty, Some (PInt64 v)) kids) (of_int v)"
| float64: "from_f64_shortest fp v = Some d \<Longrightarrow> denotes fp bindings (RNode (KConstant, ty, Some (PFloat64 v)) kids) (dec_value d)"
| slot_int: "slots name = Some (LvUnsigned v) \<or> slots name = Some (LvSigned v) \<Longrightarrow>
    (kind, p, slots) = (KRuntimeSlot, PRuntimeSlot name, lb_runtime_values bindings)
      \<or> (kind, p, slots) = (KEnvironmentSlot, PEnvironmentSlot name, lb_environment_values bindings) \<Longrightarrow>
    denotes fp bindings (RNode (kind, ty, Some p) kids) (of_int v)"
| slot_float: "slots name = Some (LvFloat v) \<Longrightarrow> from_f64_shortest fp v = Some d \<Longrightarrow>
    (kind, p, slots) = (KRuntimeSlot, PRuntimeSlot name, lb_runtime_values bindings)
      \<or> (kind, p, slots) = (KEnvironmentSlot, PEnvironmentSlot name, lb_environment_values bindings) \<Longrightarrow>
    denotes fp bindings (RNode (kind, ty, Some p) kids) (dec_value d)"
| add: "denotes fp bindings s x \<Longrightarrow> denotes fp bindings t y \<Longrightarrow> denotes fp bindings (RNode (KAdd, ty, p) [s, t]) (x + y)"
| sub: "denotes fp bindings s x \<Longrightarrow> denotes fp bindings t y \<Longrightarrow> denotes fp bindings (RNode (KSubtract, ty, p) [s, t]) (x - y)"
| mul: "denotes fp bindings s x \<Longrightarrow> denotes fp bindings t y \<Longrightarrow> denotes fp bindings (RNode (KMultiply, ty, p) [s, t]) (x * y)"
| div: "denotes fp bindings s x \<Longrightarrow> denotes fp bindings t y \<Longrightarrow> y \<noteq> 0 \<Longrightarrow>
    denotes fp bindings (RNode (KDivide, ty, p) [s, t]) (x / y)"
| rem: "denotes fp bindings s (dec_value a) \<Longrightarrow> denotes fp bindings t (dec_value b) \<Longrightarrow> dec_checked_rem fp a b = Some c \<Longrightarrow>
    denotes fp bindings (RNode (KModulo, ty, p) [s, t]) (dec_value c)"
| maximum: "denotes fp bindings s x \<Longrightarrow> denotes fp bindings t y \<Longrightarrow>
    denotes fp bindings (RNode (KMaximum, ty, p) [s, t]) (max x y)"
| neg: "denotes fp bindings s x \<Longrightarrow> denotes fp bindings (RNode (KNegate, ty, p) [s]) (- x)"
| round: "denotes fp bindings s x \<Longrightarrow> nearest_even x n \<Longrightarrow> denotes fp bindings (RNode (KRound, ty, p) [s]) (of_int n)"

definition label_in_range :: "value_label \<Rightarrow> bool" where
  "label_in_range l \<longleftrightarrow> (\<forall>v. snd (snd l) = Some (PInt64 v) \<or> snd (snd l) = Some (PDurationCycles v) \<longrightarrow> i64 v)"

definition slots_in_range :: "(string \<rightharpoonup> link_value) \<Rightarrow> bool" where
  "slots_in_range slots \<longleftrightarrow> (\<forall>name v. (slots name = Some (LvUnsigned v) \<longrightarrow> u64r v) \<and> (slots name = Some (LvSigned v) \<longrightarrow> i64 v))"

definition bindings_in_range :: "link_bindings \<Rightarrow> bool" where
  "bindings_in_range b \<longleftrightarrow> slots_in_range (lb_runtime_values b) \<and> slots_in_range (lb_environment_values b)"

lemma parse_signed_range: "parse_signed lo hi s = Some v \<Longrightarrow> in_range lo hi v"
  by (auto simp: parse_signed_def bind_eq_Some_conv split: list.splits if_splits)

lemma pred_option_bind: "pred_option P (Option.bind m f) \<longleftrightarrow> (\<forall>x. m = Some x \<longrightarrow> pred_option P (f x))"
  by (cases m) auto

lemma dec_new_pred: "i128 n \<Longrightarrow> i128 d \<Longrightarrow> pred_option dec_inv (dec_new n d)"
  using dec_new_sound(1) by (cases "dec_new n d") auto

lemma i128_one: "i128 1"
  by (simp add: in_range_def int_limits)

lemma dec_parse_inv: "dec_parse s = Some c \<Longrightarrow> dec_inv c"
proof -
  have "pred_option dec_inv (dec_parse s)"
    unfolding dec_parse_def Let_def pred_option_bind case_prod_beta
    by (auto simp: pred_option_bind i128_one intro!: dec_new_pred dest: parse_signed_range)
  then show "dec_inv c" if "dec_parse s = Some c" using that by simp
qed

lemma from_f64_inv: "from_f64_shortest fp v = Some d \<Longrightarrow> dec_inv d"
  by (auto simp: from_f64_shortest_def dest: dec_parse_inv split: if_splits)

lemma rounded_delta_sound:
  assumes "dec_inv a" "to_signed_cycle_delta_rounded a = Some n"
  shows "nearest_even (dec_value a) n" "i64 n"
proof -
  have d: "0 < denominator a" using assms(1) by (simp add: dec_inv_def)
  from assms(2) obtain r where r: "round_half_even \<bar>numerator a\<bar> (denominator a) = Some r"
    "n = (if numerator a < 0 then - r else r)" "i64 n"
    by (auto simp: to_signed_cycle_delta_rounded_def bind_eq_Some_conv split: if_splits)
  have e: "nearest_even (of_int \<bar>numerator a\<bar> / of_int (denominator a)) r"
    using round_half_even_sound(1) [OF _ d r(1)] by simp
  show "nearest_even (dec_value a) n"
  proof (cases "numerator a < 0")
    case True
    then have "of_int \<bar>numerator a\<bar> / of_int (denominator a) = - dec_value a" by (simp add: dec_value_def)
    then show ?thesis using e r(2) True nearest_even_neg [of "dec_value a" "- r"] by simp
  next
    case False
    then show ?thesis using e r(2) by (simp add: dec_value_def)
  qed
  show "i64 n" by (rule r(3))
qed

lemma slot_exact:
  assumes "evaluate_slot fp slots name ty = Inr (EvNumeric d ty')" "slots_in_range slots"
  shows "dec_inv d \<and> (\<exists>v. ((slots name = Some (LvUnsigned v) \<or> slots name = Some (LvSigned v)) \<and> dec_value d = of_int v)
    \<or> (\<exists>w. slots name = Some (LvFloat w) \<and> from_f64_shortest fp w = Some d))"
proof -
  from assms(1) obtain v where v: "slots name = Some v" "evaluate_link_value fp v ty = Some (EvNumeric d ty')"
    by (auto simp: evaluate_slot_def bind_eq_Some_conv split: if_splits)
  show ?thesis
  proof (cases v)
    case (LvUnsigned k)
    then have "u64r k" using v(1) assms(2) by (auto simp: slots_in_range_def)
    then show ?thesis using v LvUnsigned from_i64_inv [of k] from_u64_inv [of k]
      by (cases ty) (auto simp: evaluate_link_value_def into_numeric_for_def)
  next
    case (LvSigned k)
    then have "i64 k" using v(1) assms(2) by (auto simp: slots_in_range_def)
    then show ?thesis using v LvSigned from_i64_inv [of k]
      by (cases ty) (auto simp: evaluate_link_value_def into_numeric_for_def)
  next
    case (LvFloat w)
    then show ?thesis using v by (cases ty) (auto simp: evaluate_link_value_def into_numeric_for_def dest: from_f64_inv)
  next
    case (LvBool w)
    then show ?thesis using v by (cases ty) (auto simp: evaluate_link_value_def into_numeric_for_def)
  next
    case (LvString w)
    then show ?thesis using v by (cases ty) (auto simp: evaluate_link_value_def into_numeric_for_def)
  qed
qed

lemma slot_denotes:
  assumes "evaluate_slot fp slots name ty = Inr (EvNumeric d ty')" "slots_in_range slots"
    and which: "(kind, p, slots) = (KRuntimeSlot, PRuntimeSlot name, lb_runtime_values bindings)
      \<or> (kind, p, slots) = (KEnvironmentSlot, PEnvironmentSlot name, lb_environment_values bindings)"
  shows "dec_inv d \<and> denotes fp bindings (RNode (kind, ty, Some p) kids) (dec_value d)"
proof -
  from slot_exact [OF assms(1,2)] have inv: "dec_inv d" by blast
  from slot_exact [OF assms(1,2)] consider
      v where "slots name = Some (LvUnsigned v) \<or> slots name = Some (LvSigned v)" "dec_value d = of_int v"
    | w where "slots name = Some (LvFloat w)" "from_f64_shortest fp w = Some d" by blast
  then show ?thesis
  proof cases
    case 1
    then show ?thesis using inv denotes.slot_int [OF 1(1) which, of fp ty kids] by simp
  next
    case 2
    then show ?thesis using inv denotes.slot_float [OF 2 which, of ty kids] by simp
  qed
qed

lemma res_opt_Some [simp]: "res_opt r = Some v \<longleftrightarrow> r = Inr v"
  by (cases r) auto

lemma binary_value_Some:
  assumes "binary_value (map g kids) ty f = Some (EvNumeric d ty')"
  shows "\<exists>s t x y k l. kids = [s, t] \<and> g s = Some (EvNumeric x k) \<and> g t = Some (EvNumeric y l) \<and> f x y = Some d"
  using assms by (auto simp: binary_value_def numeric_of_def bind_eq_Some_conv split: list.splits option.splits evaluated_value.splits)

lemma unary_value_Some:
  assumes "unary_value (map g kids) f = Some v"
  shows "\<exists>s x k. kids = [s] \<and> g s = Some (EvNumeric x k) \<and> f x = Some v"
  using assms by (auto simp: unary_value_def numeric_of_def bind_eq_Some_conv split: list.splits option.splits evaluated_value.splits)

lemma tree_value_exact:
  assumes "tree_value fp bindings t = Some (EvNumeric d ty')" "bindings_in_range bindings" "\<forall>l\<in>set_rtree t. label_in_range l"
  shows "dec_inv d \<and> denotes fp bindings t (dec_value d)"
  using assms(1,3)
proof (induction t arbitrary: d ty')
  case (RNode l kids)
  obtain kind ty payload where l: "l = (kind, ty, payload)" by (cases l)
  have slots: "slots_in_range (lb_runtime_values bindings)" "slots_in_range (lb_environment_values bindings)"
    using assms(2) by (simp_all add: bindings_in_range_def)
  have val: "label_value fp bindings (kind, ty, payload) (map (tree_value fp bindings) kids) = Some (EvNumeric d ty')"
    using RNode.prems(1) l by simp
  have IH: "dec_inv x \<and> denotes fp bindings s (dec_value x)"
    if "s \<in> set kids" "tree_value fp bindings s = Some (EvNumeric x k)" for s x k
    using RNode.IH [OF that(1)] that RNode.prems(2) by auto
  have binary: "\<exists>s t x y. kids = [s, t] \<and> dec_inv x \<and> dec_inv y \<and> denotes fp bindings s (dec_value x)
      \<and> denotes fp bindings t (dec_value y) \<and> f x y = Some d"
    if "binary_value (map (tree_value fp bindings) kids) ty f = Some (EvNumeric d ty')" for f
  proof -
    from binary_value_Some [OF that] obtain s t x y k l where b: "kids = [s, t]"
      "tree_value fp bindings s = Some (EvNumeric x k)" "tree_value fp bindings t = Some (EvNumeric y l)" "f x y = Some d" by blast
    then show ?thesis using IH [of s x k] IH [of t y l] by auto
  qed
  have arith: "dec_inv d \<and> denotes fp bindings (RNode l kids) (dec_value d)"
    if "binary_value (map (tree_value fp bindings) kids) ty f = Some (EvNumeric d ty')"
      and sound: "\<And>x y. dec_inv x \<Longrightarrow> dec_inv y \<Longrightarrow> f x y = Some d \<Longrightarrow> dec_inv d \<and> dec_value d = g (dec_value x) (dec_value y) \<and> R (dec_value y)"
      and rule: "\<And>s t x y. denotes fp bindings s x \<Longrightarrow> denotes fp bindings t y \<Longrightarrow> R y \<Longrightarrow> denotes fp bindings (RNode l [s, t]) (g x y)"
    for f g R
  proof -
    from binary [OF that(1)] obtain s t x y where b: "kids = [s, t]" "dec_inv x" "dec_inv y"
      "denotes fp bindings s (dec_value x)" "denotes fp bindings t (dec_value y)" "f x y = Some d" by blast
    show ?thesis using sound [OF b(2,3,6)] rule [OF b(4,5)] b(1) by simp
  qed
  show ?case
  proof (cases kind)
    case KConstant
    then obtain p where p: "payload = Some p" "evaluate_constant fp 0 (Some p) = Inr (EvNumeric d ty')"
      using val by (cases payload) (auto simp: label_value_def evaluate_constant_def)
    have "i64 v" if "p = PInt64 v \<or> p = PDurationCycles v" for v
      using that RNode.prems(2) l p(1) by (auto simp: label_in_range_def)
    then show ?thesis
      using p KConstant l from_i64_inv from_f64_inv
      by (cases p) (auto simp: evaluate_constant_def intro: denotes.intros)
  next
    case KRuntimeSlot
    then obtain name where p: "payload = Some (PRuntimeSlot name)" "evaluate_slot fp (lb_runtime_values bindings) name ty = Inr (EvNumeric d ty')"
      using val by (auto simp: label_value_def split: option.splits value_expr_payload.splits)
    show ?thesis unfolding l KRuntimeSlot p(1) by (rule slot_denotes [OF p(2) slots(1)]) simp
  next
    case KEnvironmentSlot
    then obtain name where p: "payload = Some (PEnvironmentSlot name)" "evaluate_slot fp (lb_environment_values bindings) name ty = Inr (EvNumeric d ty')"
      using val by (auto simp: label_value_def split: option.splits value_expr_payload.splits)
    show ?thesis unfolding l KEnvironmentSlot p(1) by (rule slot_denotes [OF p(2) slots(2)]) simp
  next
    case KIntrinsic
    then show ?thesis using val by (simp add: label_value_def)
  next
    case KAdd
    show ?thesis
    proof (rule arith [of dec_checked_add "(+)" "\<lambda>_. True"])
      show "binary_value (map (tree_value fp bindings) kids) ty dec_checked_add = Some (EvNumeric d ty')"
        using val KAdd by (simp add: label_value_def)
    qed (use dec_add_sound in blast, simp add: l KAdd denotes.add)
  next
    case KSubtract
    show ?thesis
    proof (rule arith [of dec_checked_sub "(-)" "\<lambda>_. True"])
      show "binary_value (map (tree_value fp bindings) kids) ty dec_checked_sub = Some (EvNumeric d ty')"
        using val KSubtract by (simp add: label_value_def)
    qed (use dec_sub_sound in blast, simp add: l KSubtract denotes.sub)
  next
    case KMultiply
    show ?thesis
    proof (rule arith [of dec_checked_mul "(*)" "\<lambda>_. True"])
      show "binary_value (map (tree_value fp bindings) kids) ty dec_checked_mul = Some (EvNumeric d ty')"
        using val KMultiply by (simp add: label_value_def)
    qed (use dec_mul_sound in blast, simp add: l KMultiply denotes.mul)
  next
    case KDivide
    show ?thesis
    proof (rule arith [of dec_checked_div "(/)" "\<lambda>y. y \<noteq> 0"])
      show "binary_value (map (tree_value fp bindings) kids) ty dec_checked_div = Some (EvNumeric d ty')"
        using val KDivide by (simp add: label_value_def)
    qed (use dec_div_sound in blast, simp add: l KDivide denotes.div)
  next
    case KModulo
    then obtain s t x y where b: "kids = [s, t]" "denotes fp bindings s (dec_value x)" "denotes fp bindings t (dec_value y)"
      "dec_checked_rem fp x y = Some d" using val binary [of "dec_checked_rem fp"] by (auto simp: label_value_def)
    then have "dec_inv d" by (auto simp: dec_checked_rem_def dest: from_f64_inv split: if_splits)
    then show ?thesis using b KModulo l by (auto intro: denotes.rem)
  next
    case KMaximum
    show ?thesis
    proof (rule arith [of dec_maximum "max" "\<lambda>_. True"])
      show "binary_value (map (tree_value fp bindings) kids) ty dec_maximum = Some (EvNumeric d ty')"
        using val KMaximum by (simp add: label_value_def)
    qed (use dec_maximum_sound in blast, simp add: l KMaximum denotes.maximum)
  next
    case KNegate
    then obtain s x k where "kids = [s]" "tree_value fp bindings s = Some (EvNumeric x k)" "dec_checked_neg x = Some d"
      using val by (auto simp: label_value_def dest!: unary_value_Some)
    then show ?thesis using IH [of s x k] KNegate l dec_neg_sound [of x d] by (auto intro: denotes.neg)
  next
    case KRound
    then obtain s x k n where b: "kids = [s]" "tree_value fp bindings s = Some (EvNumeric x k)"
      "to_signed_cycle_delta_rounded x = Some n" "d = from_i64 n"
      using val by (auto simp: label_value_def dest!: unary_value_Some)
    then have x: "dec_inv x" "denotes fp bindings s (dec_value x)" using IH [of s x k] by auto
    note n = rounded_delta_sound [OF x(1) b(3)]
    then show ?thesis using b(1,4) x(2) KRound l from_i64_inv [of n] by (auto intro: denotes.round)
  qed
qed

text \<open>The type that the evaluated value of a node of a given kind and declared type has.\<close>

lemma label_value_typed:
  assumes "label_value fp bindings (kind, ty, payload) vs = Some x" "kind_payload_ok kind ty payload"
  shows "(case x of EvBool b \<Rightarrow> ty = TBool | EvNumeric d ty' \<Rightarrow> ty' = (if kind = KRound then TInt64 else ty))
    \<and> \<not> (kind = KConstant \<and> ty \<in> {TString, TJson})"
proof -
  have slot: "case x of EvBool b \<Rightarrow> ty = TBool | EvNumeric d ty' \<Rightarrow> ty' = ty"
    if "evaluate_slot fp slots name ty = Inr x" for slots name
  proof -
    from that obtain v where "evaluate_link_value fp v ty = Some x"
      by (auto simp: evaluate_slot_def bind_eq_Some_conv split: if_splits)
    then show ?thesis by (cases v) (auto simp: evaluate_link_value_def split: if_splits)
  qed
  show ?thesis
    using assms slot
    by (cases kind; cases payload rule: option.exhaust)
      (auto simp: label_value_def evaluate_constant_def binary_value_def unary_value_def bind_eq_Some_conv
        split: value_expr_payload.splits list.splits)
qed

section \<open>Properties\<close>

text \<open>
  C23. Link-time evaluation never panics on a validated arena in builder order, and the value it computes
  for an expression, sharing included, is the value of the expression's tree by structural recursion.
\<close>

theorem link_values_refine_trees:
  assumes "ve_inv (na_values program)" "ve_validate (na_values program) = Inr ()" "length (ve_nodes (na_values program)) \<le> 2 ^ 32"
  shows "\<exists>vals. evaluate_link_values fp program bindings = Some vals \<and> length vals = length (ve_nodes (na_values program))
    \<and> (\<forall>e. unat e < length (ve_nodes (na_values program)) \<longrightarrow>
         res_opt (vals ! unat e) = tree_value fp bindings (ve_tree (na_values program) e))"
  by (rule evaluate_agrees [OF assms refl])

text \<open>
  C24. Durations are exact: a cycle delta read from the evaluated values is the rational number
  that the expression denotes, unrounded under the strict policy and rounded half to even otherwise.
\<close>

theorem durations_exact:
  assumes "ve_inv (na_values program)" "ve_validate (na_values program) = Inr ()" "length (ve_nodes (na_values program)) \<le> 2 ^ 32"
    and "evaluate_link_values fp program bindings = Some vals" "bindings_in_range bindings"
    and "\<forall>l\<in>set_rtree (ve_tree (na_values program) e). label_in_range l"
    and "eval_duration_delta vals e quantization = Inr n"
  shows "\<exists>x. denotes fp bindings (ve_tree (na_values program) e) x \<and> i64 n
    \<and> (case quantization of QStrict \<Rightarrow> x = of_int n | QNearestEven \<Rightarrow> nearest_even x n)"
proof -
  from assms(7) obtain d where d: "numeric_operand vals e = Inr d"
    and n: "(case quantization of QStrict \<Rightarrow> to_signed_cycle_delta d | QNearestEven \<Rightarrow> to_signed_cycle_delta_rounded d) = Some n"
    by (auto simp: eval_duration_delta_def res_bind_Inr_iff)
  have vals: "length vals = length (ve_nodes (na_values program))"
    "\<forall>e. unat e < length (ve_nodes (na_values program)) \<longrightarrow> res_opt (vals ! unat e) = tree_value fp bindings (ve_tree (na_values program) e)"
    using evaluate_agrees [OF assms(1-3) refl, of fp bindings] assms(4) by auto
  have e: "unat e < length vals" using d by (auto simp: numeric_operand_def res_bind_Inr_iff nth_opt_def split: if_splits)
  then have "numeric_of (res_opt (vals ! unat e)) = Some d" using numeric_operand_agrees [OF e] d by simp
  then obtain ty where "tree_value fp bindings (ve_tree (na_values program) e) = Some (EvNumeric d ty)"
    using vals e by (auto simp: numeric_of_def split: option.splits evaluated_value.splits)
  from tree_value_exact [OF this assms(5,6)] show ?thesis
    using n to_signed_cycle_delta_iff [of d n] rounded_delta_sound [of d n]
    by (cases quantization) auto
qed

text \<open>
  C40. Evaluation respects the declared types: in a validated arena in builder order, an expression that has a value
  has a boolean only if it is declared boolean, and a number only of its declared type; a rounding alone gives an
  integer whatever it declares.  Constants of text and of structured data never have a value.
\<close>

theorem link_values_typed:
  assumes "ve_inv (na_values program)" "ve_validate (na_values program) = Inr ()" "length (ve_nodes (na_values program)) \<le> 2 ^ 32"
    and "evaluate_link_values fp program bindings = Some vals" "ve_node (na_values program) e = Inr n"
  shows "(\<forall>b. vals ! unat e = Inr (EvBool b) \<longrightarrow> ven_type n = TBool)
    \<and> (\<forall>d ty. vals ! unat e = Inr (EvNumeric d ty) \<longrightarrow> ty = (if ven_kind n = KRound then TInt64 else ven_type n))
    \<and> (ven_kind n = KConstant \<and> ven_type n \<in> {TString, TJson} \<longrightarrow> (\<exists>error. vals ! unat e = Inl error))"
proof -
  let ?a = "na_values program"
  have e: "unat e < length (ve_nodes ?a)" "ve_nodes ?a ! unat e = n" using assms(5) by (auto simp: ve_node_def)
  then have typed: "kind_payload_ok (ven_kind n) (ven_type n) (ven_value ?a n)"
    using assms(2,3) by (auto simp: ve_validate_iff value_node_ok_def)
  have "res_opt (vals ! unat e) = tree_value fp bindings (ve_tree ?a e)"
    using evaluate_agrees [OF assms(1-3) refl, of fp bindings] assms(4) e(1) by auto
  moreover obtain kids where "ve_tree ?a e = RNode (ven_kind n, ven_type n, ven_value ?a n) kids"
    using tree_at_unfold [OF ve_inv_descending [OF assms(1)], of "ve_label ?a" "unat e"] e(2)
    by (simp add: ve_tree_def ve_label_def Let_def)
  ultimately obtain vs where v: "res_opt (vals ! unat e) = label_value fp bindings (ven_kind n, ven_type n, ven_value ?a n) vs"
    by simp
  have "ven_type n = TBool" if "vals ! unat e = Inr (EvBool b)" for b
    using v typed label_value_typed [of fp bindings "ven_kind n" "ven_type n" "ven_value ?a n" vs "EvBool b"] that by simp
  moreover have "ty = (if ven_kind n = KRound then TInt64 else ven_type n)" if "vals ! unat e = Inr (EvNumeric d ty)" for d ty
    using v typed label_value_typed [of fp bindings "ven_kind n" "ven_type n" "ven_value ?a n" vs "EvNumeric d ty"] that by simp
  moreover have "\<exists>error. vals ! unat e = Inl error" if "ven_kind n = KConstant" "ven_type n \<in> {TString, TJson}"
  proof (cases "vals ! unat e")
    case (Inr x)
    then show ?thesis
      using that v typed label_value_typed [of fp bindings "ven_kind n" "ven_type n" "ven_value ?a n" vs x] by auto
  qed blast
  ultimately show ?thesis by blast
qed

text \<open>An arena with the sum of the constants 7 and 7, and doubles that are never finite.\<close>

definition sum_program :: native_arenas where
  "sum_program = \<lparr>na_morphisms = mb_view 2 pulse_builder,
     na_values = snd (ve_operation KAdd TInt64 [0, 0] (snd (ve_leaf KConstant TInt64 (PInt64 7) ve_builder_new)))\<rparr>"

definition no_floats :: f64_ops where
  "no_floats = \<lparr>f64_is_finite = (\<lambda>_. False), f64_to_string = (\<lambda>_. []), f64_quotient = (\<lambda>_ _. 0), f64_rem_euclid = (\<lambda>_ _. 0)\<rparr>"

lemma sum_program_ok:
  "ve_inv (na_values sum_program)" "ve_validate (na_values sum_program) = Inr ()"
  "length (ve_nodes (na_values sum_program)) = 2"
proof -
  have "ve_room ve_builder_new []" by (simp add: ve_room_def ve_builder_new_def)
  note one = ve_add_inv [OF ve_inv_new this, of _ _ KConstant TInt64 "Some (PInt64 7)"]
  show "ve_inv (na_values sum_program)"
    by (auto simp: sum_program_def builder_adds ve_add_def ve_builder_new_def ve_inv_def ven_bounded_def ven_slice_def
        nth_Cons' less_Suc_eq)
  show "length (ve_nodes (na_values sum_program)) = 2"
    by (simp add: sum_program_def builder_adds ve_add_def ve_builder_new_def)
  show "ve_validate (na_values sum_program) = Inr ()"
    by (subst ve_validate_iff)
      (auto simp: sum_program_def builder_adds ve_add_def ve_builder_new_def value_node_ok_def ven_bounded_def ven_slice_def
        ven_value_def nth_Cons' less_Suc_eq)
qed

lemma sum_tree:
  "ve_tree (na_values sum_program) 1 = RNode (KAdd, TInt64, None)
     [RNode (KConstant, TInt64, Some (PInt64 7)) [], RNode (KConstant, TInt64, Some (PInt64 7)) []]"
  by (simp add: ve_tree_def tree_at_def sum_program_def builder_adds ve_add_def ve_builder_new_def ve_label_def ve_kids_def
      ven_slice_def ven_value_def Let_def)

theorem link_values_refine_trees_witness:
  "\<exists>vals. evaluate_link_values no_floats sum_program bindings_empty = Some vals
    \<and> res_opt (vals ! 1) = tree_value no_floats bindings_empty (ve_tree (na_values sum_program) 1)"
proof -
  have "length (ve_nodes (na_values sum_program)) \<le> 2 ^ 32" by (simp add: sum_program_ok)
  from link_values_refine_trees [OF sum_program_ok(1,2) this, of no_floats bindings_empty] obtain vals
    where v: "evaluate_link_values no_floats sum_program bindings_empty = Some vals"
      "\<forall>e. unat e < length (ve_nodes (na_values sum_program)) \<longrightarrow>
         res_opt (vals ! unat e) = tree_value no_floats bindings_empty (ve_tree (na_values sum_program) e)" by blast
  from v(2) [rule_format, of 1] v(1) show ?thesis by (simp add: sum_program_ok(3))
qed

theorem durations_exact_witness:
  "\<exists>x vals. evaluate_link_values no_floats sum_program bindings_empty = Some vals
    \<and> eval_duration_delta vals 1 QStrict = Inr 14
    \<and> denotes no_floats bindings_empty (ve_tree (na_values sum_program) 1) x \<and> x = 14"
proof -
  have len: "length (ve_nodes (na_values sum_program)) \<le> 2 ^ 32" by (simp add: sum_program_ok)
  have v: "evaluate_link_values no_floats sum_program bindings_empty
      = Some [Inr (EvNumeric (from_i64 7) TInt64), Inr (EvNumeric (from_i64 14) TInt64)]" (is "_ = Some ?vals")
    by (simp add: evaluate_link_values_def sum_program_def builder_adds ve_add_def ve_builder_new_def Let_def
        evaluate_node_def slice_get_def ve_payload_def ve_node_def nth_opt_def evaluate_constant_def numeric_binary_def
        numeric_operand_def dec_checked_add_def from_i64_def checked_def in_range_def int_limits dec_new_def wrap_i128_def gcd_loop_eq)
  have n: "eval_duration_delta ?vals 1 QStrict = Inr 14"
    by (simp add: eval_duration_delta_def numeric_operand_def nth_opt_def to_signed_cycle_delta_def from_i64_def
        checked_def in_range_def int_limits signed_modulo_int_def signed_divide_int_def)
  have "bindings_in_range bindings_empty" by (simp add: bindings_in_range_def slots_in_range_def bindings_empty_def)
  moreover have "\<forall>l\<in>set_rtree (ve_tree (na_values sum_program) 1). label_in_range l"
    by (simp add: sum_tree label_in_range_def in_range_def int_limits)
  ultimately obtain x where "denotes no_floats bindings_empty (ve_tree (na_values sum_program) 1) x" "x = 14"
    using durations_exact [OF sum_program_ok(1,2) len v, of 1 QStrict 14] n by auto
  then show ?thesis using v n by blast
qed

text \<open>A boolean, a duration and its negation.\<close>

definition mixed_program :: native_arenas where
  "mixed_program = \<lparr>na_morphisms = mb_view 2 pulse_builder,
     na_values = snd (ve_operation KNegate TDuration [1] (snd (ve_leaf KConstant TDuration (PDurationCycles 5)
       (snd (ve_leaf KConstant TBool (PBool True) ve_builder_new)))))\<rparr>"

lemmas mixed_eval = mixed_program_def builder_adds ve_add_def ve_builder_new_def Let_def nth_Cons' less_Suc_eq

lemma mixed_program_ok:
  "ve_inv (na_values mixed_program)" "ve_validate (na_values mixed_program) = Inr ()" "length (ve_nodes (na_values mixed_program)) \<le> 2 ^ 32"
proof -
  show "length (ve_nodes (na_values mixed_program)) \<le> 2 ^ 32" by (simp add: mixed_eval)
  show "ve_inv (na_values mixed_program)" by (auto simp: mixed_eval ve_inv_def ven_bounded_def ven_slice_def)
  show "ve_validate (na_values mixed_program) = Inr ()"
    by (subst ve_validate_iff) (auto simp: mixed_eval value_node_ok_def ven_bounded_def ven_slice_def ven_value_def)
qed

theorem link_values_typed_witness:
  "\<exists>vals n d ty. evaluate_link_values no_floats mixed_program bindings_empty = Some vals
    \<and> vals ! 0 = Inr (EvBool True) \<and> vals ! 2 = Inr (EvNumeric d ty) \<and> ve_node (na_values mixed_program) 2 = Inr n
    \<and> ven_kind n = KNegate \<and> ven_type n = TDuration \<and> ty = TDuration"
proof -
  have v: "evaluate_link_values no_floats mixed_program bindings_empty
      = Some [Inr (EvBool True), Inr (EvNumeric (from_i64 5) TDuration), Inr (EvNumeric (from_i64 (- 5)) TDuration)]" (is "_ = Some ?vals")
    by (simp add: evaluate_link_values_def mixed_eval evaluate_node_def slice_get_def ve_payload_def ve_node_def nth_opt_def
        evaluate_constant_def numeric_operand_def dec_checked_neg_def from_i64_def checked_def in_range_def int_limits
        dec_new_def wrap_i128_def gcd_loop_eq)
  have "\<exists>n. ve_node (na_values mixed_program) 2 = Inr n \<and> ven_kind n = KNegate \<and> ven_type n = TDuration"
    by (simp add: mixed_eval ve_node_def nth_opt_def)
  then obtain n where n: "ve_node (na_values mixed_program) 2 = Inr n" "ven_kind n = KNegate" "ven_type n = TDuration" by blast
  have "?vals ! unat (2 :: value_expr_id) = Inr (EvNumeric (from_i64 (- 5)) TDuration)" by simp
  with link_values_typed [OF mixed_program_ok v n(1)] n(2,3) have "TDuration = ven_type n" by fastforce
  with v n show ?thesis by (intro exI conjI [OF v]) auto
qed

end
