(* ===== verification/Json_Arguments.thy ===== *)
theory Json_Arguments
  imports Abi_Cost Value_Eval
begin

text \<open>
  The JSON part of \<open>catseq-rtmq/src/oasm_call_plan/value_eval.rs\<close>: references to evaluated expressions inside
  structured data are replaced by their values, and expressions become OASM arguments.  Objects are lists of
  entries with distinct keys, in the order of insertion.
\<close>

section \<open>Values\<close>

definition json_as_u64 :: "json_value \<Rightarrow> int option" where
  "json_as_u64 v = (case v of JUnsigned n \<Rightarrow> Some n | _ \<Rightarrow> None)"

definition json_get :: "json_value \<Rightarrow> string \<Rightarrow> json_value option" where
  "json_get v key = (case v of JObject entries \<Rightarrow> map_of entries key | _ \<Rightarrow> None)"

definition json_as_array :: "json_value \<Rightarrow> json_value list option" where
  "json_as_array v = (case v of JArray elements \<Rightarrow> Some elements | _ \<Rightarrow> None)"

definition json_as_object :: "json_value \<Rightarrow> (string \<times> json_value) list option" where
  "json_as_object v = (case v of JObject entries \<Rightarrow> Some entries | _ \<Rightarrow> None)"

text \<open>\<open>Value::from(i64)\<close> keeps the sign apart; \<open>Value::from(f64)\<close> is null when the double is not finite.\<close>

definition json_from_i64 :: "int \<Rightarrow> json_value" where
  "json_from_i64 n = (if n \<ge> 0 then JUnsigned n else JSigned n)"

definition json_from_f64 :: "f64_ops \<Rightarrow> u64 \<Rightarrow> json_value" where
  "json_from_f64 fp v = (if f64_is_finite fp v then JFloat v else JNull)"

section \<open>References to expressions\<close>

definition evaluated_json :: "f64_ops \<Rightarrow> evaluated_value \<Rightarrow> oasm_compile_error + json_value" where
  "evaluated_json fp value =
     (case value of
        EvNumeric v TInt64 \<Rightarrow> ok_or (AtomicError NotAnInteger) (map_option json_from_i64 (to_signed_cycle_delta v))
      | EvNumeric v _ \<Rightarrow>
          (let d = dec_to_f64 fp v
           in if f64_is_finite fp d then Inr (JFloat d) else Inl (AtomicError NonFiniteValue))
      | EvBool b \<Rightarrow> Inr (JBool b))"

definition resolve_reference :: "f64_ops \<Rightarrow> eval_result list \<Rightarrow> json_value \<Rightarrow> oasm_compile_error + json_value" where
  "resolve_reference fp vals reference =
     res_bind (ok_or (AtomicError InvalidValueReference) (json_as_u64 reference)) (\<lambda>index.
     res_bind (ok_or (AtomicError UnknownValueReference) (nth_opt vals (nat index))) (\<lambda>entry.
     res_bind entry (evaluated_json fp)))"

fun resolve_json_expressions :: "f64_ops \<Rightarrow> eval_result list \<Rightarrow> json_value \<Rightarrow> oasm_compile_error + json_value"
  and resolve_entries :: "f64_ops \<Rightarrow> eval_result list \<Rightarrow> (string \<times> json_value) list
        \<Rightarrow> oasm_compile_error + (string \<times> json_value) list"
  and resolve_elements :: "f64_ops \<Rightarrow> eval_result list \<Rightarrow> json_value list \<Rightarrow> oasm_compile_error + json_value list" where
  "resolve_json_expressions fp vals (JObject entries) =
     (if length entries = 1 \<and> fst (hd entries) = ''$value_expr'' then resolve_reference fp vals (snd (hd entries))
      else res_bind (resolve_entries fp vals entries) (\<lambda>es. Inr (JObject es)))"
| "resolve_json_expressions fp vals (JArray elements) =
     res_bind (resolve_elements fp vals elements) (\<lambda>es. Inr (JArray es))"
| "resolve_json_expressions fp vals v = Inr v"
| "resolve_entries fp vals [] = Inr []"
| "resolve_entries fp vals ((key, v) # rest) =
     res_bind (resolve_json_expressions fp vals v) (\<lambda>w.
     res_bind (resolve_entries fp vals rest) (\<lambda>ws. Inr ((key, w) # ws)))"
| "resolve_elements fp vals [] = Inr []"
| "resolve_elements fp vals (v # rest) =
     res_bind (resolve_json_expressions fp vals v) (\<lambda>w.
     res_bind (resolve_elements fp vals rest) (\<lambda>ws. Inr (w # ws)))"

definition lookup_payload :: "native_arenas \<Rightarrow> value_expr_id \<Rightarrow> oasm_compile_error + value_expr_payload option" where
  "lookup_payload program eid =
     res_map_err (\<lambda>error. AtomicError (ValueArenaError error)) (ve_payload (na_values program) eid)"

definition json_value_of ::
  "f64_ops \<Rightarrow> native_arenas \<Rightarrow> value_expr_id \<Rightarrow> eval_result list \<Rightarrow> oasm_compile_error + json_value" where
  "json_value_of fp program eid vals =
     res_bind (lookup_payload program eid) (\<lambda>payload.
       case payload of
         Some (PJson v) \<Rightarrow> resolve_json_expressions fp vals v
       | _ \<Rightarrow> Inl (AtomicError (NotStructured (unat eid))))"

definition json_argument ::
  "f64_ops \<Rightarrow> native_arenas \<Rightarrow> value_expr_id list \<Rightarrow> nat \<Rightarrow> eval_result list \<Rightarrow> oasm_compile_error + json_value" where
  "json_argument fp program arguments index vals =
     res_bind (ok_or (AtomicError (JsonArgumentAbsent index)) (nth_opt arguments index)) (\<lambda>eid.
       json_value_of fp program eid vals)"

definition evaluated_argument :: "f64_ops \<Rightarrow> evaluated_value \<Rightarrow> oasm_compile_error + oasm_argument" where
  "evaluated_argument fp value =
     (case value of
        EvNumeric v TInt64 \<Rightarrow> ok_or (AtomicError NotAnInteger) (map_option ArgSigned (to_signed_cycle_delta v))
      | EvNumeric v _ \<Rightarrow> Inr (ArgFloat (dec_to_f64 fp v))
      | EvBool b \<Rightarrow> Inr (ArgBool b))"

definition value_to_oasm_argument ::
  "f64_ops \<Rightarrow> native_arenas \<Rightarrow> eval_result list \<Rightarrow> value_expr_id \<Rightarrow> oasm_compile_error + oasm_argument" where
  "value_to_oasm_argument fp program vals eid =
     res_bind (lookup_payload program eid) (\<lambda>payload.
       case payload of
         Some (PBool v) \<Rightarrow> Inr (ArgBool v)
       | Some (PInt64 v) \<Rightarrow> Inr (ArgSigned v)
       | Some (PFloat64 v) \<Rightarrow> Inr (ArgFloat v)
       | Some (PDurationCycles v) \<Rightarrow> ok_or (AtomicError NegativePhysicalDuration) (map_option ArgUnsigned (checked_u64 v))
       | Some (PString v) \<Rightarrow> Inr (ArgString v)
       | Some (PJson v) \<Rightarrow> res_bind (resolve_json_expressions fp vals v) (\<lambda>w. Inr (ArgJson w))
       | _ \<Rightarrow>
           res_bind (ok_or (AtomicError (UnknownArgument (unat eid))) (nth_opt vals (unat eid))) (\<lambda>entry.
           res_bind entry (evaluated_argument fp)))"

section \<open>Resolution is complete\<close>

text \<open>JSON without a reference to an expression.\<close>

fun reference_free :: "json_value \<Rightarrow> bool" where
  "reference_free (JObject entries) \<longleftrightarrow>
     \<not> (length entries = 1 \<and> fst (hd entries) = ''$value_expr'') \<and> (\<forall>v\<in>snd ` set entries. reference_free v)"
| "reference_free (JArray elements) \<longleftrightarrow> (\<forall>v\<in>set elements. reference_free v)"
| "reference_free _ \<longleftrightarrow> True"

lemma resolve_reference_free: "resolve_reference fp vals r = Inr w \<Longrightarrow> reference_free w"
proof -
  have "evaluated_json fp v = Inr w \<Longrightarrow> reference_free w" for v
    by (cases v) (auto simp: evaluated_json_def json_from_i64_def Let_def split: value_expr_type.splits if_splits)
  then show "resolve_reference fp vals r = Inr w \<Longrightarrow> reference_free w"
    by (auto simp: resolve_reference_def res_bind_Inr_iff)
qed

lemma resolve_entries_keys: "resolve_entries fp vals es = Inr ws \<Longrightarrow> map fst ws = map fst es"
  by (induction es arbitrary: ws) (auto simp: res_simps)

lemma single_key:
  "map fst ws = map fst es \<Longrightarrow> (length ws = 1 \<and> fst (hd ws) = key) = (length es = 1 \<and> fst (hd es) = key)"
  by (cases ws; cases es) auto

lemma resolved_reference_free:
  "resolve_json_expressions fp vals v = Inr w \<Longrightarrow> reference_free w"
  "resolve_entries fp vals es = Inr ws \<Longrightarrow> \<forall>w\<in>snd ` set ws. reference_free w"
  "resolve_elements fp vals xs = Inr ys \<Longrightarrow> \<forall>w\<in>set ys. reference_free w"
proof (induction fp vals v and fp vals es and fp vals xs arbitrary: w and ws and ys
    rule: resolve_json_expressions_resolve_entries_resolve_elements.induct)
  case (1 fp vals entries)
  show ?case
  proof (cases "length entries = 1 \<and> fst (hd entries) = ''$value_expr''")
    case True
    then show ?thesis using 1 resolve_reference_free by simp
  next
    case False
    then obtain es where es: "resolve_entries fp vals entries = Inr es" "w = JObject es"
      using 1 by (auto simp: res_simps split: if_splits)
    then show ?thesis using 1(1) [OF False es(1)] False single_key [OF resolve_entries_keys [OF es(1)], of "''$value_expr''"] by simp
  qed
qed (auto simp: res_simps, fastforce)

lemma resolve_free_id:
  "reference_free v \<Longrightarrow> resolve_json_expressions fp vals v = Inr v"
  "\<forall>w\<in>snd ` set es. reference_free w \<Longrightarrow> resolve_entries fp vals es = Inr es"
  "\<forall>w\<in>set xs. reference_free w \<Longrightarrow> resolve_elements fp vals xs = Inr xs"
  by (induction fp vals v and fp vals es and fp vals xs
      rule: resolve_json_expressions_resolve_entries_resolve_elements.induct) auto

text \<open>
  Structured arguments are resolved completely: what \<open>resolve_json_expressions\<close> returns contains no reference to
  an expression, so that resolving it again, whatever the values, changes nothing; data without references is
  passed through.
\<close>

theorem json_resolution_complete:
  "(resolve_json_expressions fp vals v = Inr w \<longrightarrow> reference_free w \<and> resolve_json_expressions fp' vals' w = Inr w)
   \<and> (reference_free v \<longrightarrow> resolve_json_expressions fp vals v = Inr v)"
  using resolved_reference_free(1) resolve_free_id(1) by blast

theorem json_resolution_complete_witness:
  "reference_free (JArray [JBool True]) \<and> resolve_json_expressions no_floats [Inr (EvBool True)]
     (JArray [JObject [(''$value_expr'', JUnsigned 0)]]) = Inr (JArray [JBool True])"
proof -
  have "resolve_json_expressions no_floats [Inr (EvBool True)] (JArray [JObject [(''$value_expr'', JUnsigned 0)]])
      = Inr (JArray [JBool True])"
    by (simp add: resolve_reference_def evaluated_json_def json_as_u64_def nth_opt_def)
  moreover from this have "reference_free (JArray [JBool True])" using json_resolution_complete by blast
  ultimately show ?thesis by blast
qed

end
