(* ===== verification/Board_Scheduler.thy ===== *)
theory Board_Scheduler
  imports Abi_Cost "HOL-Library.Product_Lexorder"
begin

text \<open>
  \<open>catseq-rtmq/src/oasm_call_plan/scheduler.rs\<close>: scheduling of the events of one board in one epoch.  Ordered
  maps that are only iterated are lists in key order; \<open>sort_by_key\<close> is the stable \<open>sort_key\<close>.
\<close>

section \<open>Preloads that are superseded\<close>

type_synonym preload_key = "int \<times> int \<times> u8"

definition preload_key_of :: "direct_event \<Rightarrow> preload_key" where
  "preload_key_of event = (de_offset_cycles event, eo_channel_kind (de_order event), eo_local_id (de_order event))"

definition preload_groups :: "direct_event list \<Rightarrow> preload_key \<Rightarrow> int list" where
  "preload_groups events key =
     map de_group_id (filter (\<lambda>event. de_preload event \<and> preload_key_of event = key) events)"

definition latest_group :: "direct_event list \<Rightarrow> preload_key \<Rightarrow> int option" where
  "latest_group events key =
     (case preload_groups events key of [] \<Rightarrow> None | g # gs \<Rightarrow> Some (fold max gs g))"

definition eliminate_superseded_preloads :: "direct_event list \<Rightarrow> preload_key list \<times> direct_event list" where
  "eliminate_superseded_preloads events =
     (filter (\<lambda>key. length (remdups (preload_groups events key)) > 1)
        (remdups (map preload_key_of (filter de_preload events))),
      filter (\<lambda>event. \<not> de_preload event
        \<or> (case latest_group events (preload_key_of event) of None \<Rightarrow> True | Some latest \<Rightarrow> latest = de_group_id event))
        events)"

definition remove_fused_handoff_plays :: "preload_key list \<Rightarrow> direct_event list \<Rightarrow> direct_event list" where
  "remove_fused_handoff_plays fused_handoffs events =
     filter (\<lambda>event. de_function event \<noteq> RwgPlay \<or> preload_key_of event \<notin> set fused_handoffs) events"

section \<open>Placement of preloads\<close>

definition saturating_sub :: "int \<Rightarrow> int \<Rightarrow> int" where
  "saturating_sub a b = max 0 (a - b)"

definition saturating_add :: "int \<Rightarrow> int \<Rightarrow> int" where
  "saturating_add a b = min u64_max (a + b)"

definition group_key :: "direct_event \<Rightarrow> int \<times> int \<times> int \<times> u8 \<times> int" where
  "group_key event = (de_group_id event, de_offset_cycles event, order_key (de_order event))"

text \<open>The groups of preloads in key order: deadline, key of the order, group and the indices of its events.\<close>

definition preload_pairs :: "direct_event list \<Rightarrow> (int \<times> (int \<times> u8 \<times> int) \<times> int \<times> nat list) list" where
  "preload_pairs events =
     (let preloads = filter (\<lambda>(index, event). de_preload event) (enumerate 0 events);
          groups = map (\<lambda>key. (key, map fst (filter (\<lambda>(index, event). group_key event = key) preloads)))
            (sort (remdups (map (\<lambda>(index, event). group_key event) preloads)));
          pairs = filter (\<lambda>((group_id, deadline, order), indices).
            list_ex (\<lambda>event. de_group_id event = group_id \<and> de_offset_cycles event = deadline
              \<and> de_function event = RwgPlay) events) groups
      in sort_key (\<lambda>(deadline, order, _). (deadline, order))
           (map (\<lambda>((group_id, deadline, order), indices). (deadline, order, group_id, indices)) pairs))"

definition is_target_play :: "int \<Rightarrow> int \<Rightarrow> direct_event \<Rightarrow> bool" where
  "is_target_play group_id deadline event \<longleftrightarrow>
     de_group_id event = group_id \<and> de_offset_cycles event = deadline \<and> de_function event = RwgPlay"

definition min_of :: "int list \<Rightarrow> int option" where
  "min_of xs = (case xs of [] \<Rightarrow> None | x # ys \<Rightarrow> Some (fold min ys x))"

definition preload_start :: "direct_event list \<Rightarrow> int \<Rightarrow> int \<Rightarrow> int \<Rightarrow> int \<Rightarrow> int" where
  "preload_start events next_load_available deadline group_id cost =
     (let latest_finish = min deadline next_load_available;
          proposed_start = saturating_sub latest_finish cost;
          proposed_end = saturating_add proposed_start cost;
          conflict = min_of (map de_offset_cycles (filter (\<lambda>event.
            \<not> (de_preload event \<or> is_target_play group_id deadline event)
            \<and> proposed_start < saturating_add (de_offset_cycles event) (de_instruction_cost_cycles event)
            \<and> proposed_end > de_offset_cycles event) events));
          finish = (case conflict of None \<Rightarrow> latest_finish | Some c \<Rightarrow> c)
      in saturating_sub finish cost)"

definition preload_cost :: "direct_event list \<Rightarrow> nat list \<Rightarrow> oasm_compile_error + int" where
  "preload_cost events indices =
     res_foldl (\<lambda>total index. ok_or (PlanError PreloadCostOverflow)
       (checked_u64 (total + de_instruction_cost_cycles (events ! index)))) 0 indices"

definition set_offsets :: "int \<Rightarrow> nat list \<Rightarrow> direct_event list \<Rightarrow> direct_event list" where
  "set_offsets start indices events =
     fold (\<lambda>index es. es[index := (es ! index)\<lparr>de_offset_cycles := start\<rparr>]) indices events"

fun place_preloads ::
  "(int \<times> (int \<times> u8 \<times> int) \<times> int \<times> nat list) list \<Rightarrow> int \<Rightarrow> direct_event list
     \<Rightarrow> oasm_compile_error + direct_event list" where
  "place_preloads [] next_load_available events = Inr events"
| "place_preloads ((deadline, _, group_id, indices) # rest) next_load_available events =
     res_bind (preload_cost events indices) (\<lambda>cost.
       let start = preload_start events next_load_available deadline group_id cost
       in place_preloads rest start (set_offsets start indices events))"

definition schedule_preloads :: "direct_event list \<Rightarrow> oasm_compile_error + direct_event list" where
  "schedule_preloads events = place_preloads (rev (preload_pairs events)) u64_max events"

section \<open>Merging calls\<close>

definition coalesce_priority :: "oasm_function \<Rightarrow> int" where
  "coalesce_priority f = (if f = RwgInit then 0 else if f = TtlConfig then 1 else if f = RwgPlay then 2 else 3)"

definition mergeable :: "oasm_function \<Rightarrow> bool" where
  "mergeable f \<longleftrightarrow> f = TtlConfig \<or> f = RwgInit \<or> f = RwgPlay"

definition merge_argument :: "oasm_argument \<Rightarrow> oasm_argument \<Rightarrow> oasm_compile_error + oasm_argument" where
  "merge_argument left right =
     (case left of
        ArgUnsigned l \<Rightarrow> (case right of ArgUnsigned r \<Rightarrow> Inr (ArgUnsigned (l OR r)) | _ \<Rightarrow> Inl (PlanError CoalesceNotUnsigned))
      | _ \<Rightarrow> Inl (PlanError CoalesceNotUnsigned))"

definition order_min :: "event_order \<Rightarrow> event_order \<Rightarrow> event_order" where
  "order_min a b = (if order_key a \<le> order_key b then a else b)"

definition order_max :: "event_order \<Rightarrow> event_order \<Rightarrow> event_order" where
  "order_max a b = (if order_key a \<le> order_key b then b else a)"

definition merge_events :: "direct_event \<Rightarrow> direct_event \<Rightarrow> oasm_compile_error + direct_event" where
  "merge_events previous event =
     (let previous' = previous\<lparr>
          de_instruction_cost_cycles := max (de_instruction_cost_cycles previous) (de_instruction_cost_cycles event),
          de_order := order_min (de_order previous) (de_order event)\<rparr>
      in if de_function event = RwgInit then Inr previous'
         else case (de_args previous, de_args event) of
           ([a0, a1], [b0, b1]) \<Rightarrow>
             res_bind (merge_argument a0 b0) (\<lambda>c0.
             res_bind (merge_argument a1 b1) (\<lambda>c1. Inr (previous'\<lparr>de_args := [c0, c1]\<rparr>)))
         | _ \<Rightarrow> Inl (PlanError CoalesceArity))"

text \<open>The result is built in reverse, so that its head is the last call pushed.\<close>

fun coalesce_events ::
  "direct_event list \<Rightarrow> direct_event list \<Rightarrow> oasm_compile_error + direct_event list" where
  "coalesce_events coalesced [] = Inr (rev coalesced)"
| "coalesce_events [] (event # rest) = coalesce_events [event] rest"
| "coalesce_events (previous # before) (event # rest) =
     (if mergeable (de_function event) \<and> de_offset_cycles previous = de_offset_cycles event
         \<and> de_function previous = de_function event
      then res_bind (merge_events previous event) (\<lambda>merged. coalesce_events (merged # before) rest)
      else coalesce_events (event # previous # before) rest)"

definition coalesce_direct_events :: "direct_event list \<Rightarrow> oasm_compile_error + direct_event list" where
  "coalesce_direct_events events =
     coalesce_events [] (sort_key (\<lambda>event. (de_offset_cycles event, coalesce_priority (de_function event))) events)"

section \<open>Scheduling\<close>

definition oasm_function_priority :: "oasm_function \<Rightarrow> int" where
  "oasm_function_priority f =
     (case f of LoopBegin \<Rightarrow> 0 | RwgInit \<Rightarrow> 1 | WaitMaster \<Rightarrow> 3 | TrigSlave \<Rightarrow> 3 | LoopEnd \<Rightarrow> 4 | _ \<Rightarrow> 2)"

definition raise_cost :: "f64_arith \<Rightarrow> direct_event \<Rightarrow> oasm_compile_error + direct_event" where
  "raise_cost fa event =
     res_bind (oasm_call_cost fa event) (\<lambda>cost.
       Inr (event\<lparr>de_instruction_cost_cycles := max (de_instruction_cost_cycles event) cost\<rparr>))"

definition schedule_partition :: "f64_arith \<Rightarrow> direct_event list \<Rightarrow> oasm_compile_error + direct_event list" where
  "schedule_partition fa events =
     res_bind (res_traverse (raise_cost fa) events) (\<lambda>raised.
     let (fused_handoffs, kept) = eliminate_superseded_preloads raised in
     res_bind (schedule_preloads kept) (\<lambda>placed.
     coalesce_direct_events (remove_fused_handoff_plays fused_handoffs placed)))"

definition schedule_key :: "direct_event \<Rightarrow> int \<times> int \<times> int \<times> u8 \<times> int" where
  "schedule_key event =
     (de_offset_cycles event, oasm_function_priority (de_function event), order_key (de_order event))"

definition schedule_board_events ::
  "f64_arith \<Rightarrow> direct_event list list \<Rightarrow> direct_event list \<Rightarrow> oasm_compile_error + direct_event list" where
  "schedule_board_events fa direct_event_partitions additional_events =
     res_bind (res_traverse (schedule_partition fa) direct_event_partitions) (\<lambda>parts.
     res_bind (res_traverse (raise_cost fa) (concat parts @ additional_events)) (\<lambda>scheduled.
     Inr (sort_key schedule_key scheduled)))"

section \<open>One board in one epoch\<close>

definition localize_ttl :: "int \<Rightarrow> int \<Rightarrow> ttl_event \<Rightarrow> oasm_compile_error + ttl_event" where
  "localize_ttl epoch origin_cycles event =
     (if te_epoch event \<noteq> epoch then Inl (PlanError WrongEpoch)
      else res_bind (ok_or (PlanError EventBeforeOrigin) (checked_u64 (te_offset_cycles event - origin_cycles))) (\<lambda>offset.
        Inr (event\<lparr>te_offset_cycles := offset\<rparr>)))"

definition localize_direct :: "int \<Rightarrow> int \<Rightarrow> direct_event \<Rightarrow> oasm_compile_error + direct_event" where
  "localize_direct epoch origin_cycles event =
     (if de_epoch event \<noteq> epoch then Inl (PlanError WrongEpoch)
      else res_bind (ok_or (PlanError EventBeforeOrigin) (checked_u64 (de_offset_cycles event - origin_cycles))) (\<lambda>offset.
        Inr (event\<lparr>de_offset_cycles := offset\<rparr>)))"

record ttl_state =
  ts_mask :: u64
  ts_state :: u64
  ts_cost :: int
  ts_order :: event_order
  ts_scope :: "int option"

text \<open>\<open>1_u64 << local_id\<close> panics when the shift is too large.\<close>

definition channel_bit :: "u8 \<Rightarrow> u64 option" where
  "channel_bit local_id = (if unat local_id < 64 then Some (push_bit (unat local_id) 1) else None)"

definition ttl_join :: "ttl_state \<Rightarrow> ttl_event \<Rightarrow> ttl_state option" where
  "ttl_join st event =
     map_option (\<lambda>channel. \<lparr>ts_mask = ts_mask st OR channel,
       ts_state = (if te_high event then ts_state st OR channel else ts_state st AND NOT channel),
       ts_cost = max (ts_cost st) (te_instruction_cost_cycles event),
       ts_order = order_max (ts_order st) (te_order event),
       ts_scope = (if ts_scope st \<noteq> te_loop_scope event then None else ts_scope st)\<rparr>)
       (channel_bit (te_local_id event))"

fun ttl_fold :: "ttl_state \<Rightarrow> ttl_event list \<Rightarrow> ttl_state option" where
  "ttl_fold st [] = Some st"
| "ttl_fold st (event # rest) = Option.bind (ttl_join st event) (\<lambda>st'. ttl_fold st' rest)"

definition ttl_call :: "board_epoch_input \<Rightarrow> int \<Rightarrow> ttl_state \<Rightarrow> direct_event" where
  "ttl_call input offset st =
     \<lparr>de_epoch = bi_epoch input, de_offset_cycles = offset, de_board = bi_address input, de_function = TtlSet,
      de_args = [ArgUnsigned (uint (ts_mask st)), ArgUnsigned (uint (ts_state st)),
        ArgString (oasm_argument_of (bi_board_kind input))],
      de_instruction_cost_cycles = ts_cost st, de_order = ts_order st, de_group_id = eo_sequence (ts_order st),
      de_preload = False, de_loop_scope = ts_scope st\<rparr>"

function ttl_calls :: "board_epoch_input \<Rightarrow> ttl_event list \<Rightarrow> direct_event list option" where
  "ttl_calls input [] = Some []"
| "ttl_calls input (event # rest) =
     (let offset = te_offset_cycles event;
          same = takeWhile (\<lambda>e. te_offset_cycles e = offset) (event # rest);
          later = dropWhile (\<lambda>e. te_offset_cycles e = offset) (event # rest)
      in Option.bind (ttl_fold \<lparr>ts_mask = 0, ts_state = 0, ts_cost = 0, ts_order = BOARD,
           ts_scope = te_loop_scope event\<rparr> same) (\<lambda>st.
         Option.bind (ttl_calls input later) (\<lambda>calls. Some (ttl_call input offset st # calls))))"
  by pat_completeness auto
termination
  by (relation "measure (\<lambda>(_, events). length events)") (auto simp: le_imp_less_Suc length_dropWhile_le)

definition ttl_key :: "ttl_event \<Rightarrow> int \<times> u8 \<times> int \<times> u8 \<times> int" where
  "ttl_key event = (te_offset_cycles event, te_local_id event, order_key (te_order event))"

definition wait_call :: "int \<Rightarrow> int \<Rightarrow> oasm_call" where
  "wait_call cursor cycles = \<lparr>call_offset_cycles = cursor, call_function = Wait, call_args = [ArgUnsigned cycles]\<rparr>"

fun emit_calls :: "int \<Rightarrow> direct_event list \<Rightarrow> oasm_compile_error + int \<times> oasm_call list" where
  "emit_calls cursor [] = Inr (cursor, [])"
| "emit_calls cursor (event # rest) =
     (let actual_start = max (de_offset_cycles event) cursor in
      res_bind (ok_or (PlanError CursorOverflow) (checked_u64 (actual_start + de_instruction_cost_cycles event))) (\<lambda>cursor'.
      res_bind (emit_calls cursor' rest) (\<lambda>(final, calls).
        Inr (final,
          (if de_offset_cycles event > cursor then [wait_call cursor (de_offset_cycles event - cursor)] else [])
          @ \<lparr>call_offset_cycles = actual_start, call_function = de_function event, call_args = de_args event\<rparr> # calls))))"

definition compile_board ::
  "f64_arith \<Rightarrow> board_epoch_input \<Rightarrow> (oasm_compile_error + oasm_board_plan) option" where
  "compile_board fa input =
     (case res_traverse (localize_ttl (bi_epoch input) (bi_origin_cycles input)) (bi_ttl_events input) of
        Inl e \<Rightarrow> Some (Inl e)
      | Inr ttl \<Rightarrow>
          (case res_traverse (localize_direct (bi_epoch input) (bi_origin_cycles input)) (bi_direct_events input) of
             Inl e \<Rightarrow> Some (Inl e)
           | Inr direct \<Rightarrow>
               Option.bind (ttl_calls input (sort_key ttl_key ttl)) (\<lambda>ttl_direct_events.
               Some (res_bind (schedule_board_events fa [direct] ttl_direct_events) (\<lambda>scheduled.
                 res_bind (emit_calls (bi_initial_cursor input) scheduled) (\<lambda>(cursor, calls).
                   Inr \<lparr>plan_address = bi_address input,
                     plan_calls = calls @ (if bi_duration_cycles input > cursor
                       then [wait_call cursor (bi_duration_cycles input - cursor)] else [])\<rparr>))))))"

end
