(* ===== verification/Dag_Pass.thy ===== *)
theory Dag_Pass
  imports Dag_Store
begin

text \<open>
  Passes over a store that fill a table by index.  A pass walks the nodes in order and sets the entry of
  each node from the entries below it; it may return an error, or panic on an index out of range.  When
  the entries a node reads precede it, the pass computes the fold of the tree of every node.
\<close>

section \<open>Results that may panic\<close>

type_synonym ('e, 'a) run = "('e + 'a) option"

definition run_bind :: "('e, 'a) run \<Rightarrow> ('a \<Rightarrow> ('e, 'b) run) \<Rightarrow> ('e, 'b) run" where
  "run_bind m f = (case m of None \<Rightarrow> None | Some (Inl e) \<Rightarrow> Some (Inl e) | Some (Inr x) \<Rightarrow> f x)"

definition index_run :: "'a list \<Rightarrow> nat \<Rightarrow> ('e, 'a) run" where
  "index_run xs i = map_option Inr (nth_opt xs i)"

fun run_traverse :: "('a \<Rightarrow> ('e, 'b) run) \<Rightarrow> 'a list \<Rightarrow> ('e, 'b list) run" where
  "run_traverse f [] = Some (Inr [])"
| "run_traverse f (x # xs) = run_bind (f x) (\<lambda>y. run_bind (run_traverse f xs) (\<lambda>ys. Some (Inr (y # ys))))"

lemma run_bind_simps [simp]:
  "run_bind None f = None" "run_bind (Some (Inl e)) f = Some (Inl e)" "run_bind (Some (Inr x)) f = f x"
  by (simp_all add: run_bind_def)

lemma run_bind_Some: "run_bind (Some r) (\<lambda>x. Some (f x)) = Some (res_bind r f)"
  by (cases r) auto

lemma index_run_in [simp]: "i < length xs \<Longrightarrow> index_run xs i = Some (Inr (xs ! i))"
  by (simp add: index_run_def nth_opt_def)

lemma index_run_out [simp]: "length xs \<le> i \<Longrightarrow> index_run xs i = None"
  by (simp add: index_run_def nth_opt_def)

lemma run_traverse_index:
  "\<forall>x\<in>set is. g x < length xs \<Longrightarrow> run_traverse (\<lambda>x. index_run xs (g x)) is = Some (Inr (map (\<lambda>x. xs ! g x) is))"
  by (induction "is") auto

section \<open>Passes\<close>

fun table_pass ::
  "('v list \<Rightarrow> nat \<Rightarrow> 'n \<Rightarrow> ('e, 'v) run) \<Rightarrow> 'v list \<Rightarrow> (nat \<times> 'n) list \<Rightarrow> ('e, 'v list) run" where
  "table_pass step table [] = Some (Inr table)"
| "table_pass step table ((index, node) # rest) =
     run_bind (step table index node) (\<lambda>v. table_pass step (table[index := v]) rest)"

lemma res_traverse_cong [fundef_cong]:
  "xs = ys \<Longrightarrow> (\<And>x. x \<in> set ys \<Longrightarrow> f x = g x) \<Longrightarrow> res_traverse f xs = res_traverse g ys"
  by (induction ys arbitrary: xs) auto

fun tree_fold :: "('l \<Rightarrow> 'v list \<Rightarrow> 'e + 'v) \<Rightarrow> 'l rtree \<Rightarrow> 'e + 'v" where
  "tree_fold alg (RNode l ts) = res_bind (res_traverse (tree_fold alg) ts) (alg l)"

lemma res_traverse_map: "res_traverse f (map g xs) = res_traverse (f \<circ> g) xs"
  by (induction xs) auto

text \<open>
  What a pass relies on: the entries that a node reads precede it, its own entry is a function of its
  label and of these entries, and entries stay good.
\<close>

locale dag_pass =
  fixes lab :: "nat \<Rightarrow> 'l" and deps :: "nat \<Rightarrow> nat list" and good :: "'v \<Rightarrow> bool"
    and alg :: "'l \<Rightarrow> 'v list \<Rightarrow> 'e + 'v"
    and step :: "'v list \<Rightarrow> nat \<Rightarrow> 'n \<Rightarrow> ('e, 'v) run" and nodes :: "'n list"
  assumes deps_descending: "descending deps"
    and step_alg: "\<And>table i. length table = length nodes \<Longrightarrow> i < length nodes \<Longrightarrow>
      \<forall>j\<in>set (deps i). good (table ! j) \<Longrightarrow>
      step table i (nodes ! i) = Some (alg (lab i) (map (\<lambda>j. table ! j) (deps i)))"
    and alg_good: "\<And>i vs v. i < length nodes \<Longrightarrow> length vs = length (deps i) \<Longrightarrow> list_all good vs \<Longrightarrow>
      alg (lab i) vs = Inr v \<Longrightarrow> good v"
begin

lemma fold_step:
  assumes "\<forall>j\<in>set (deps i). tree_fold alg (tree_at lab deps j) = Inr (table ! j)"
  shows "tree_fold alg (tree_at lab deps i) = alg (lab i) (map (\<lambda>j. table ! j) (deps i))"
proof -
  have "res_traverse (tree_fold alg) (map (tree_at lab deps) (deps i)) = Inr (map (\<lambda>j. table ! j) (deps i))"
    using assms by (auto simp: res_traverse_map intro!: res_traverse_Inr_total)
  then show ?thesis by (simp add: tree_at_unfold [OF deps_descending, of lab i])
qed

lemma pass_from:
  assumes "length table = length nodes" "k \<le> length nodes"
    and "\<forall>j<k. tree_fold alg (tree_at lab deps j) = Inr (table ! j) \<and> good (table ! j)"
  shows "\<exists>r. table_pass step table (drop k (enumerate 0 nodes)) = Some r
    \<and> (case r of
         Inr t \<Rightarrow> length t = length nodes
           \<and> (\<forall>i<length nodes. tree_fold alg (tree_at lab deps i) = Inr (t ! i) \<and> good (t ! i))
       | Inl e \<Rightarrow> \<exists>i<length nodes. (\<forall>j<i. \<exists>v. tree_fold alg (tree_at lab deps j) = Inr v \<and> good v)
           \<and> tree_fold alg (tree_at lab deps i) = Inl e)"
  using assms
proof (induction "length nodes - k" arbitrary: k table)
  case 0
  then show ?case by simp
next
  case (Suc d)
  let ?F = "\<lambda>i. tree_fold alg (tree_at lab deps i)"
  from Suc have k: "k < length nodes" by simp
  then have d: "drop k (enumerate 0 nodes) = (k, nodes ! k) # drop (Suc k) (enumerate 0 nodes)"
    by (subst Cons_nth_drop_Suc [symmetric]) (simp_all add: nth_enumerate_eq)
  have below: "\<forall>j\<in>set (deps k). ?F j = Inr (table ! j) \<and> good (table ! j)"
    using Suc.prems(3) descendingD [OF deps_descending] by blast
  then have fold: "?F k = alg (lab k) (map (\<lambda>j. table ! j) (deps k))" using fold_step by blast
  have st: "step table k (nodes ! k) = Some (?F k)"
    using step_alg [OF Suc.prems(1) k] fold below by simp
  show ?case
  proof (cases "?F k")
    case (Inl e)
    then show ?thesis using st d k Suc.prems(3) by auto
  next
    case (Inr v)
    have "good v"
      using alg_good [OF k, of "map (\<lambda>j. table ! j) (deps k)" v] below fold Inr by (simp add: list_all_iff)
    then have "\<forall>j<Suc k. ?F j = Inr (table[k := v] ! j) \<and> good (table[k := v] ! j)"
      using Suc.prems Inr k by (auto simp: less_Suc_eq)
    then show ?thesis
      using Suc.hyps(1) [of "Suc k" "table[k := v]"] Suc.hyps(2) Suc.prems(1) k st Inr d by simp
  qed
qed

lemma pass_correct:
  assumes "length table = length nodes"
  shows "\<exists>r. table_pass step table (enumerate 0 nodes) = Some r"
    "table_pass step table (enumerate 0 nodes) = Some (Inr t) \<Longrightarrow>
       length t = length nodes \<and> (\<forall>i<length nodes. tree_fold alg (tree_at lab deps i) = Inr (t ! i) \<and> good (t ! i))"
    "table_pass step table (enumerate 0 nodes) = Some (Inl e) \<Longrightarrow>
       \<exists>i<length nodes. (\<forall>j<i. \<exists>v. tree_fold alg (tree_at lab deps j) = Inr v \<and> good v)
         \<and> tree_fold alg (tree_at lab deps i) = Inl e"
  using pass_from [OF assms, of 0] by auto

end

end
