(* ===== verification/Atomic_Lowering.thy ===== *)
theory Atomic_Lowering
  imports Json_Arguments Board_Scheduler Dag_Pass
begin

text \<open>
  \<open>catseq-rtmq/src/oasm_call_plan/atomic_lowering.rs\<close>: one atomic operation on one channel becomes events of a
  board, and the state of the channel moves on.  \<open>None\<close> is a panic: a shift by 64 or more, a failed \<open>expect\<close> or an
  \<open>unreachable!\<close>.
\<close>

section \<open>JSON records\<close>

definition json_u64 :: "f64_ops \<Rightarrow> f64_arith \<Rightarrow> json_value \<Rightarrow> int option" where
  "json_u64 fp fa v =
     (case json_as_u64 v of
        Some n \<Rightarrow> Some n
      | None \<Rightarrow>
          Option.bind (json_as_f64 fa v) (\<lambda>d.
            if f64_is_finite fp d \<and> fa_le fa f64_0 d \<and> fa_eq fa (fa_fract fa d) f64_0
              \<and> fa_le fa d (fa_of_int fa u64_max)
            then Some (fa_to_u64 fa d) else None))"

text \<open>
  Equality of \<open>serde_json::Value\<close>: doubles by their own equality, objects regardless of the order of their
  entries.
\<close>

fun json_eq :: "f64_arith \<Rightarrow> json_value \<Rightarrow> json_value \<Rightarrow> bool"
  and json_elements_eq :: "f64_arith \<Rightarrow> json_value list \<Rightarrow> json_value list \<Rightarrow> bool"
  and json_entries_in :: "f64_arith \<Rightarrow> (string \<times> json_value) list \<Rightarrow> (string \<times> json_value) list \<Rightarrow> bool" where
  "json_eq fa JNull w \<longleftrightarrow> w = JNull"
| "json_eq fa (JBool b) w \<longleftrightarrow> w = JBool b"
| "json_eq fa (JUnsigned n) w \<longleftrightarrow> w = JUnsigned n"
| "json_eq fa (JSigned n) w \<longleftrightarrow> w = JSigned n"
| "json_eq fa (JFloat d) w \<longleftrightarrow> (case w of JFloat d' \<Rightarrow> fa_eq fa d d' | _ \<Rightarrow> False)"
| "json_eq fa (JString s) w \<longleftrightarrow> w = JString s"
| "json_eq fa (JArray xs) w \<longleftrightarrow> (case w of JArray ys \<Rightarrow> json_elements_eq fa xs ys | _ \<Rightarrow> False)"
| "json_eq fa (JObject es) w \<longleftrightarrow>
     (case w of JObject es' \<Rightarrow> length es = length es' \<and> json_entries_in fa es es' | _ \<Rightarrow> False)"
| "json_elements_eq fa [] ys \<longleftrightarrow> ys = []"
| "json_elements_eq fa (x # xs) ys \<longleftrightarrow> (case ys of [] \<Rightarrow> False | y # ys' \<Rightarrow> json_eq fa x y \<and> json_elements_eq fa xs ys')"
| "json_entries_in fa [] es' \<longleftrightarrow> True"
| "json_entries_in fa ((key, v) # es) es' \<longleftrightarrow>
     (case map_of es' key of None \<Rightarrow> False | Some w \<Rightarrow> json_eq fa v w) \<and> json_entries_in fa es es'"

definition required_json_number ::
  "f64_arith \<Rightarrow> json_value option \<Rightarrow> string \<Rightarrow> oasm_compile_error + u64" where
  "required_json_number fa v description =
     res_bind (optional_json_number fa v) (ok_or (AtomicError (NumberAbsent description)))"

definition or_null :: "json_value option \<Rightarrow> json_value" where
  "or_null v = (case v of None \<Rightarrow> JNull | Some w \<Rightarrow> w)"

section \<open>Waveforms\<close>

definition has_sbg :: "f64_ops \<Rightarrow> f64_arith \<Rightarrow> (string \<times> json_value) list \<Rightarrow> bool" where
  "has_sbg fp fa object \<longleftrightarrow> Option.bind (map_of object ''sbg_id'') (json_u64 fp fa) \<noteq> None"

definition validate_static_waveforms ::
  "f64_ops \<Rightarrow> f64_arith \<Rightarrow> json_value list \<Rightarrow> bool \<Rightarrow> oasm_compile_error + unit" where
  "validate_static_waveforms fp fa targets require_sbg_id =
     res_all (\<lambda>target.
       res_bind (ok_or (AtomicError NotStaticWaveform) (json_as_object target)) (\<lambda>object.
       guard_res (\<not> (require_sbg_id \<and> \<not> has_sbg fp fa object)) (AtomicError StaticWithoutSbg))) targets"

definition validate_waveform_params ::
  "f64_ops \<Rightarrow> f64_arith \<Rightarrow> json_value list \<Rightarrow> oasm_compile_error + unit" where
  "validate_waveform_params fp fa waveforms =
     res_all (\<lambda>waveform.
       res_bind (ok_or (AtomicError NotWaveformParams) (json_as_object waveform)) (\<lambda>object.
       res_bind (guard_res (has_sbg fp fa object) (AtomicError LoadWithoutSbg)) (\<lambda>_.
       res_all (\<lambda>field.
         guard_res (Option.bind (map_of object field) json_as_array \<noteq> None) (AtomicError (NotArrayField field)))
         [''freq_coeffs'', ''amp_coeffs'']))) waveforms"

definition static_coefficient :: "f64_arith \<Rightarrow> (string \<times> json_value) list \<Rightarrow> string \<Rightarrow> u64 option" where
  "static_coefficient fa object field = do {
     coefficients \<leftarrow> Option.bind (map_of object field) json_as_array;
     v \<leftarrow> Option.bind (nth_opt coefficients 0) (json_as_f64 fa);
     if list_all (\<lambda>coefficient. coefficient = JNull
          \<or> (case json_as_f64 fa coefficient of None \<Rightarrow> False | Some d \<Rightarrow> fa_eq fa d f64_0)) (drop 1 coefficients)
     then Some v else None }"

definition static_snapshot ::
  "f64_ops \<Rightarrow> f64_arith \<Rightarrow> json_value \<Rightarrow> json_value option" where
  "static_snapshot fp fa waveform = do {
     object \<leftarrow> json_as_object waveform;
     sbg_id \<leftarrow> map_of object ''sbg_id'';
     freq \<leftarrow> static_coefficient fa object ''freq_coeffs'';
     amp \<leftarrow> static_coefficient fa object ''amp_coeffs'';
     let phase = (case Option.bind (map_of object ''initial_phase'') (json_as_f64 fa) of None \<Rightarrow> f64_0 | Some d \<Rightarrow> d);
     Some (JObject [(''$type'', JString ''StaticWaveform''), (''sbg_id'', sbg_id), (''freq'', json_from_f64 fp freq),
       (''amp'', json_from_f64 fp amp), (''phase'', json_from_f64 fp phase), (''fct'', or_null (map_of object ''fct''))]) }"

fun option_collect :: "('a \<Rightarrow> 'b option) \<Rightarrow> 'a list \<Rightarrow> 'b list option" where
  "option_collect f [] = Some []"
| "option_collect f (x # xs) = do { y \<leftarrow> f x; ys \<leftarrow> option_collect f xs; Some (y # ys) }"

definition static_snapshot_from_waveforms ::
  "f64_ops \<Rightarrow> f64_arith \<Rightarrow> json_value list \<Rightarrow> json_value list option" where
  "static_snapshot_from_waveforms fp fa waveforms = option_collect (static_snapshot fp fa) waveforms"

definition ramp_coefficients :: "f64_ops \<Rightarrow> f64_arith \<Rightarrow> u64 \<Rightarrow> u64 \<Rightarrow> json_value" where
  "ramp_coefficients fp fa start rate =
     (if fa_eq fa rate f64_0 then JArray [JNull, JNull, JNull, JNull]
      else JArray [json_from_f64 fp start, json_from_f64 fp rate, JNull, JNull])"

definition waveform_record :: "json_value \<Rightarrow> json_value \<Rightarrow> json_value \<Rightarrow> json_value \<Rightarrow> bool \<Rightarrow> json_value \<Rightarrow> json_value" where
  "waveform_record sbg_id freq amp phase phase_reset fct =
     JObject [(''$type'', JString ''WaveformParams''), (''sbg_id'', sbg_id), (''freq_coeffs'', freq), (''amp_coeffs'', amp),
       (''initial_phase'', phase), (''phase_reset'', JBool phase_reset), (''fct'', fct)]"

text \<open>One tone of a ramp: its ramp waveform, the waveform that stops it and the snapshot afterwards.\<close>

definition ramp_tone ::
  "f64_ops \<Rightarrow> f64_arith \<Rightarrow> u64 \<Rightarrow> json_value \<times> json_value \<Rightarrow> oasm_compile_error + json_value \<times> json_value \<times> json_value" where
  "ramp_tone fp fa duration_us = (\<lambda>(current, target).
     res_bind (ok_or (AtomicError SnapshotNotRecord) (json_as_object current)) (\<lambda>current.
     res_bind (ok_or (AtomicError RampTargetNotRecord) (json_as_object target)) (\<lambda>target.
     res_bind (ok_or (AtomicError SnapshotWithoutSbg) (Option.bind (map_of current ''sbg_id'') (json_u64 fp fa))) (\<lambda>sbg_id.
     let current_fct = or_null (map_of current ''fct''); target_fct = or_null (map_of target ''fct'') in
     res_bind (guard_res (json_eq fa current_fct target_fct) (AtomicError (FctMismatch sbg_id))) (\<lambda>_.
     res_bind (required_json_number fa (map_of current ''freq'') ''active RWG frequency'') (\<lambda>start_freq.
     res_bind (required_json_number fa (map_of current ''amp'') ''active RWG amplitude'') (\<lambda>start_amp.
     res_bind (optional_json_number fa (map_of target ''freq'')) (\<lambda>freq.
     res_bind (optional_json_number fa (map_of target ''amp'')) (\<lambda>amp.
     let target_freq = (case freq of None \<Rightarrow> start_freq | Some d \<Rightarrow> d);
         target_amp = (case amp of None \<Rightarrow> start_amp | Some d \<Rightarrow> d);
         freq_rate = fa_div fa (fa_sub fa target_freq start_freq) duration_us;
         amp_rate = fa_div fa (fa_sub fa target_amp start_amp) duration_us
     in Inr
       (waveform_record (JUnsigned sbg_id) (ramp_coefficients fp fa start_freq freq_rate)
          (ramp_coefficients fp fa start_amp amp_rate) (JFloat f64_0) False current_fct,
        waveform_record (JUnsigned sbg_id) (JArray [json_from_f64 fp target_freq, JFloat f64_0, JNull, JNull])
          (JArray [json_from_f64 fp target_amp, JFloat f64_0, JNull, JNull]) (JFloat f64_0) False target_fct,
        JObject [(''$type'', JString ''StaticWaveform''), (''sbg_id'', JUnsigned sbg_id), (''freq'', json_from_f64 fp target_freq),
          (''amp'', json_from_f64 fp target_amp), (''phase'', JFloat f64_0), (''fct'', target_fct)]))))))))))"

definition build_linear_ramp_waveforms ::
  "f64_ops \<Rightarrow> f64_arith \<Rightarrow> json_value list \<Rightarrow> json_value list \<Rightarrow> u64
     \<Rightarrow> oasm_compile_error + json_value list \<times> json_value list \<times> json_value list" where
  "build_linear_ramp_waveforms fp fa current targets duration_us =
     res_bind (res_traverse (ramp_tone fp fa duration_us) (zip current targets)) (\<lambda>tones.
       Inr (map fst tones, map (fst \<circ> snd) tones, map (snd \<circ> snd) tones))"

text \<open>\<open>None\<close> is the failed \<open>expect\<close> on the tone number.\<close>

definition static_waveform :: "f64_ops \<Rightarrow> f64_arith \<Rightarrow> bool \<Rightarrow> json_value \<Rightarrow> json_value option" where
  "static_waveform fp fa phase_reset target =
     (let object = (case json_as_object target of None \<Rightarrow> [] | Some entries \<Rightarrow> entries) in
      map_option (\<lambda>sbg_id. waveform_record (JUnsigned sbg_id)
          (JArray [or_null (map_of object ''freq''), JNull, JNull, JNull])
          (JArray [or_null (map_of object ''amp''), JNull, JNull, JNull])
          (case map_of object ''phase'' of None \<Rightarrow> JFloat f64_0 | Some phase \<Rightarrow> phase) phase_reset
          (or_null (map_of object ''fct'')))
        (Option.bind (map_of object ''sbg_id'') (json_u64 fp fa)))"

definition build_static_waveforms ::
  "f64_ops \<Rightarrow> f64_arith \<Rightarrow> json_value list \<Rightarrow> bool \<Rightarrow> json_value list option" where
  "build_static_waveforms fp fa targets phase_reset = option_collect (static_waveform fp fa phase_reset) targets"

section \<open>Operations\<close>

text \<open>The parameters of \<open>lower_atomic_events\<close>, and the four collections that it updates.\<close>

record atomic_context =
  ac_schema :: atomic_target_schema
  ac_channel_key :: string
  ac_binding :: channel_binding
  ac_board :: target_board
  ac_start :: int
  ac_epoch :: int
  ac_duration :: int
  ac_arguments :: "value_expr_id list"
  ac_program :: native_arenas
  ac_values :: "eval_result list"
  ac_clock_hz :: int
  ac_quantization :: duration_quantization
  ac_group_id :: int

record atomic_state =
  as_rwg_states :: "string \<rightharpoonup> rwg_channel_state"
  as_rsp_pid_configs :: "string \<rightharpoonup> json_value"
  as_ttl_events :: "ttl_event list"
  as_direct_events :: "direct_event list"

definition atomic_argument :: "f64_ops \<Rightarrow> atomic_context \<Rightarrow> nat \<Rightarrow> oasm_compile_error + oasm_argument" where
  "atomic_argument fp ctx index =
     res_bind (ok_or (AtomicError (AtomicArgumentAbsent index)) (nth_opt (ac_arguments ctx) index))
       (value_to_oasm_argument fp (ac_program ctx) (ac_values ctx))"

definition channel_event :: "atomic_context \<Rightarrow> int \<Rightarrow> oasm_function \<Rightarrow> oasm_argument list \<Rightarrow> int \<Rightarrow> bool \<Rightarrow> direct_event" where
  "channel_event ctx offset function args group_id preload =
     \<lparr>de_epoch = ac_epoch ctx, de_offset_cycles = offset, de_board = cb_board (ac_binding ctx), de_function = function,
      de_args = args, de_instruction_cost_cycles = ats_instruction_cost_cycles (ac_schema ctx),
      de_order = channel_order (cb_kind (ac_binding ctx)) (cb_local_id (ac_binding ctx)) group_id,
      de_group_id = group_id, de_preload = preload, de_loop_scope = None\<rparr>"

definition push_direct ::
  "direct_event list \<Rightarrow> 'a atomic_state_scheme \<Rightarrow> 'a atomic_state_scheme" where
  "push_direct events st = st\<lparr>as_direct_events := as_direct_events st @ events\<rparr>"

definition direct_call :: "atomic_context \<Rightarrow> int \<Rightarrow> oasm_function \<Rightarrow> oasm_argument list \<Rightarrow> 'a atomic_state_scheme \<Rightarrow> 'a atomic_state_scheme" where
  "direct_call ctx offset function args st = push_direct [channel_event ctx offset function args (ac_group_id ctx) False] st"

definition set_channel :: "atomic_context \<Rightarrow> rwg_channel_state \<Rightarrow> 'a atomic_state_scheme \<Rightarrow> 'a atomic_state_scheme" where
  "set_channel ctx s st = st\<lparr>as_rwg_states := (as_rwg_states st)(ac_channel_key ctx \<mapsto> s)\<rparr>"

definition validate_kind :: "atomic_context \<Rightarrow> channel_kind \<Rightarrow> (oasm_compile_error, unit) run" where
  "validate_kind ctx expected =
     Some (guard_res (cb_kind (ac_binding ctx) = expected)
       (AtomicError (WrongChannelKind (cb_board (ac_binding ctx)) (cb_kind (ac_binding ctx)) expected)))"

definition channel_mask :: "atomic_context \<Rightarrow> (oasm_compile_error, int) run" where
  "channel_mask ctx = map_option (\<lambda>bit. Inr (uint bit)) (channel_bit (cb_local_id (ac_binding ctx)))"

definition emit_prepared_rwg_loads ::
  "atomic_context \<Rightarrow> json_value list \<Rightarrow> 'a atomic_state_scheme \<Rightarrow> 'a atomic_state_scheme" where
  "emit_prepared_rwg_loads ctx waveforms st =
     push_direct (map (\<lambda>waveform. channel_event ctx (ac_start ctx) RwgLoadWaveform [ArgJson waveform] (ac_group_id ctx) True)
       waveforms) st"

definition emit_rwg_play ::
  "atomic_context \<Rightarrow> int \<Rightarrow> 'a atomic_state_scheme \<Rightarrow> (oasm_compile_error, 'a atomic_state_scheme) run" where
  "emit_rwg_play ctx group_id st =
     run_bind (channel_mask ctx) (\<lambda>bits.
       Some (Inr (push_direct [channel_event ctx (ac_start ctx) RwgPlay [ArgUnsigned bits, ArgUnsigned bits] group_id False] st)))"

text \<open>Whether the output is on in a state in which waveforms may be loaded.\<close>

definition idle_rf :: "oasm_compile_error \<Rightarrow> oasm_compile_error \<Rightarrow> rwg_channel_state option \<Rightarrow> oasm_compile_error + bool" where
  "idle_rf pending missing state =
     (case state of
        Some RwgReady \<Rightarrow> Inr False
      | Some (RwgActive rf_on _) \<Rightarrow> Inr rf_on
      | Some (RwgActiveUnknown rf_on) \<Rightarrow> Inr rf_on
      | Some (WaveformsLoaded _ _ _) \<Rightarrow> Inl pending
      | Some (RwgRamping _ _ _) \<Rightarrow> Inl pending
      | None \<Rightarrow> Inl missing)"

definition load_waveforms ::
  "atomic_context \<Rightarrow> json_value list \<Rightarrow> bool \<Rightarrow> rwg_play_transition \<Rightarrow> 'a atomic_state_scheme \<Rightarrow> 'a atomic_state_scheme" where
  "load_waveforms ctx waveforms rf_on transition st =
     set_channel ctx (WaveformsLoaded rf_on transition (ac_group_id ctx)) (emit_prepared_rwg_loads ctx waveforms st)"

definition load_params ::
  "f64_ops \<Rightarrow> f64_arith \<Rightarrow> atomic_context \<Rightarrow> value_expr_id \<Rightarrow> 'a atomic_state_scheme
     \<Rightarrow> oasm_compile_error + 'a atomic_state_scheme" where
  "load_params fp fa ctx waveform_expr st =
     res_bind (json_value_of fp (ac_program ctx) waveform_expr (ac_values ctx)) (\<lambda>v.
     res_bind (ok_or (AtomicError NotWaveformAggregate) (json_as_array v)) (\<lambda>waveforms.
     res_bind (validate_waveform_params fp fa waveforms) (\<lambda>_.
     res_bind (idle_rf (AtomicError LoadInterrupts) (AtomicError LoadBeforeInitialize)
       (as_rwg_states st (ac_channel_key ctx))) (\<lambda>rf_on.
     let transition = (case static_snapshot_from_waveforms fp fa waveforms of
         Some snapshot \<Rightarrow> Activate snapshot | None \<Rightarrow> ActivateUnknown)
     in Inr (load_waveforms ctx waveforms rf_on transition st)))))"

definition derive_static ::
  "f64_ops \<Rightarrow> f64_arith \<Rightarrow> atomic_context \<Rightarrow> value_expr_id list \<Rightarrow> rwg_channel_state option
     \<Rightarrow> (oasm_compile_error, json_value list \<times> bool \<times> rwg_play_transition) run" where
  "derive_static fp fa ctx expression_arguments state =
     run_bind (Some (ok_or (AtomicError StaticWithoutTargets) (nth_opt expression_arguments 0))) (\<lambda>targets_id.
     run_bind (Some (json_value_of fp (ac_program ctx) targets_id (ac_values ctx))) (\<lambda>v.
     run_bind (Some (ok_or (AtomicError TargetsNotAggregate) (json_as_array v))) (\<lambda>targets.
     let phase_reset = (case Option.bind (nth_opt expression_arguments 1) (bool_argument (ac_program ctx)) of
         None \<Rightarrow> True | Some b \<Rightarrow> b) in
     run_bind (Some (idle_rf (AtomicError SetStateInterrupts) (AtomicError SetStateBeforeInitialize) state)) (\<lambda>rf_on.
     run_bind (Some (validate_static_waveforms fp fa targets True)) (\<lambda>_.
     run_bind (map_option Inr (build_static_waveforms fp fa targets phase_reset)) (\<lambda>waveforms.
       Some (Inr (waveforms, rf_on, Activate targets))))))))"

definition f64_1000000 :: u64 where "f64_1000000 = 0x412E848000000000"

definition derive_linear ::
  "f64_ops \<Rightarrow> f64_arith \<Rightarrow> atomic_context \<Rightarrow> value_expr_id list \<Rightarrow> rwg_channel_state option
     \<Rightarrow> oasm_compile_error + json_value list \<times> bool \<times> rwg_play_transition" where
  "derive_linear fp fa ctx expression_arguments state =
     res_bind (ok_or (AtomicError LinearWithoutTargets) (nth_opt expression_arguments 0)) (\<lambda>targets_id.
     res_bind (ok_or (AtomicError LinearWithoutDuration) (nth_opt expression_arguments 1)) (\<lambda>duration_id.
     res_bind (eval_duration_cycles (ac_values ctx) duration_id (ac_quantization ctx)) (\<lambda>ramp_duration.
     res_bind (guard_res (ramp_duration \<noteq> 0) (AtomicError RampNotPositive)) (\<lambda>_.
     res_bind (json_value_of fp (ac_program ctx) targets_id (ac_values ctx)) (\<lambda>v.
     res_bind (ok_or (AtomicError TargetsNotAggregate) (json_as_array v)) (\<lambda>targets.
     res_bind (validate_static_waveforms fp fa targets False) (\<lambda>_.
       case state of
         Some (RwgActive rf_on snapshot) \<Rightarrow>
           res_bind (guard_res (length targets = length snapshot)
             (AtomicError (RampCountMismatch (length targets) (length snapshot)))) (\<lambda>_.
           let duration_us = fa_div fa (fa_mul fa (fa_of_int fa ramp_duration) f64_1000000) (fa_of_int fa (ac_clock_hz ctx)) in
           res_bind (build_linear_ramp_waveforms fp fa snapshot targets duration_us) (\<lambda>(ramp, static_stop, end_snapshot).
             Inr (ramp, rf_on, StartRamp static_stop end_snapshot)))
       | _ \<Rightarrow> Inl (AtomicError RampNotActive))))))))"

definition derive_endpoint ::
  "value_expr_id list \<Rightarrow> rwg_channel_state option
     \<Rightarrow> oasm_compile_error + json_value list \<times> bool \<times> rwg_play_transition" where
  "derive_endpoint expression_arguments state =
     res_bind (guard_res (length expression_arguments = 1) (AtomicError EndpointArity)) (\<lambda>_.
       case state of
         Some (RwgRamping rf_on static_stop end_snapshot) \<Rightarrow> Inr (static_stop, rf_on, FinishRamp end_snapshot)
       | _ \<Rightarrow> Inl (AtomicError EndpointWithoutRamp))"

definition load_derived ::
  "f64_ops \<Rightarrow> f64_arith \<Rightarrow> atomic_context \<Rightarrow> value_expr_id \<Rightarrow> rwg_waveform_derivation \<Rightarrow> 'a atomic_state_scheme
     \<Rightarrow> (oasm_compile_error, 'a atomic_state_scheme) run" where
  "load_derived fp fa ctx waveform_expr derivation st =
     run_bind (Some (res_map_err (\<lambda>error. AtomicError (ValueArenaError error))
       (ve_children (na_values (ac_program ctx)) waveform_expr))) (\<lambda>expression_arguments.
     let state = as_rwg_states st (ac_channel_key ctx) in
     run_bind (case derivation of
         RwgStatic \<Rightarrow> derive_static fp fa ctx expression_arguments state
       | RwgLinear \<Rightarrow> Some (derive_linear fp fa ctx expression_arguments state)
       | RwgRampEndpoint \<Rightarrow> Some (derive_endpoint expression_arguments state)) (\<lambda>(waveforms, rf_on, transition).
       Some (Inr (load_waveforms ctx waveforms rf_on transition st))))"

definition lower_rwg_load ::
  "f64_ops \<Rightarrow> f64_arith \<Rightarrow> atomic_context \<Rightarrow> 'a atomic_state_scheme \<Rightarrow> (oasm_compile_error, 'a atomic_state_scheme) run" where
  "lower_rwg_load fp fa ctx st =
     run_bind (Some (ok_or (AtomicError NoWaveformExpression) (nth_opt (ac_arguments ctx) 0))) (\<lambda>waveform_expr.
     run_bind (Some (lookup_payload (ac_program ctx) waveform_expr)) (\<lambda>payload.
       case payload of
         Some (PJson _) \<Rightarrow> Some (load_params fp fa ctx waveform_expr st)
       | Some (PRwgWaveforms derivation) \<Rightarrow> load_derived fp fa ctx waveform_expr derivation st
       | _ \<Rightarrow> Some (Inl (AtomicError NotWaveformParameters))))"

fun play_transition :: "bool \<Rightarrow> rwg_play_transition \<Rightarrow> rwg_channel_state" where
  "play_transition rf_on (Activate snapshot) = RwgActive rf_on snapshot"
| "play_transition rf_on ActivateUnknown = RwgActiveUnknown rf_on"
| "play_transition rf_on (StartRamp static_stop end_snapshot) = RwgRamping rf_on static_stop end_snapshot"
| "play_transition rf_on (FinishRamp end_snapshot) = RwgActive rf_on end_snapshot"

definition lower_rwg_play ::
  "atomic_context \<Rightarrow> 'a atomic_state_scheme \<Rightarrow> (oasm_compile_error, 'a atomic_state_scheme) run" where
  "lower_rwg_play ctx st =
     (case as_rwg_states st (ac_channel_key ctx) of
        Some (WaveformsLoaded rf_on transition preload_group_id) \<Rightarrow>
          run_bind (emit_rwg_play ctx preload_group_id st) (\<lambda>st'.
            Some (Inr (set_channel ctx (play_transition rf_on transition) st')))
      | Some _ \<Rightarrow> Some (Inl (AtomicError PlayWithoutLoad))
      | None \<Rightarrow> Some (Inl (AtomicError PlayBeforeInitialize)))"

definition lower_rwg_switch ::
  "atomic_context \<Rightarrow> bool \<Rightarrow> 'a atomic_state_scheme \<Rightarrow> (oasm_compile_error, 'a atomic_state_scheme) run" where
  "lower_rwg_switch ctx off st =
     (case as_rwg_states st (ac_channel_key ctx) of
        None \<Rightarrow> Some (Inl (AtomicError SwitchBeforeInitialize))
      | Some (WaveformsLoaded _ _ _) \<Rightarrow> Some (Inl (AtomicError SwitchInterrupts))
      | Some (RwgRamping _ _ _) \<Rightarrow> Some (Inl (AtomicError SwitchInterrupts))
      | Some state \<Rightarrow>
          run_bind (channel_mask ctx) (\<lambda>bits.
            let st' = direct_call ctx (ac_start ctx) RwgRfSwitch [ArgUnsigned bits, ArgUnsigned (if off then bits else 0)] st
            in Some (Inr (case state of
                 RwgActive _ snapshot \<Rightarrow> set_channel ctx (RwgActive (\<not> off) snapshot) st'
               | RwgActiveUnknown _ \<Rightarrow> set_channel ctx (RwgActiveUnknown (\<not> off)) st'
               | _ \<Rightarrow> st'))))"

definition lower_ttl_set ::
  "atomic_context \<Rightarrow> bool \<Rightarrow> 'a atomic_state_scheme \<Rightarrow> (oasm_compile_error, 'a atomic_state_scheme) run" where
  "lower_ttl_set ctx high st =
     (let binding = ac_binding ctx in
      if cb_local_id binding \<ge> tb_ttl_width (ac_board ctx) \<or> tb_ttl_width (ac_board ctx) > 64
      then Some (Inl (AtomicError InvalidTtlLocalId))
      else Some (Inr (st\<lparr>as_ttl_events := as_ttl_events st @
        [\<lparr>te_epoch = ac_epoch ctx, te_offset_cycles = ac_start ctx, te_board = cb_board binding,
          te_local_id = cb_local_id binding, te_high = high,
          te_instruction_cost_cycles = ats_instruction_cost_cycles (ac_schema ctx),
          te_order = channel_order (cb_kind binding) (cb_local_id binding) (ac_group_id ctx), te_loop_scope = None\<rparr>]\<rparr>)))"

definition lower_rwg_initialize ::
  "f64_ops \<Rightarrow> atomic_context \<Rightarrow> 'a atomic_state_scheme \<Rightarrow> oasm_compile_error + 'a atomic_state_scheme" where
  "lower_rwg_initialize fp ctx st =
     (let hard = (case Option.bind (nth_opt (ac_arguments ctx) 1) (bool_argument (ac_program ctx)) of
          None \<Rightarrow> False | Some b \<Rightarrow> b);
          st1 = (if hard then direct_call ctx (ac_start ctx) RwgInit [] st else st)
      in res_bind (ok_or (AtomicError RwgInitOverflow) (checked_u64 (ac_start ctx + ac_duration ctx))) (\<lambda>offset.
         res_bind (atomic_argument fp ctx 0) (\<lambda>carrier.
           Inr (set_channel ctx RwgReady
             (direct_call ctx offset RwgSetCarrier [ArgUnsigned (uint (cb_local_id (ac_binding ctx))), carrier] st1)))))"

definition lower_rsp_initialize ::
  "f64_ops \<Rightarrow> atomic_context \<Rightarrow> 'a atomic_state_scheme \<Rightarrow> oasm_compile_error + 'a atomic_state_scheme" where
  "lower_rsp_initialize fp ctx st =
     res_bind (res_traverse (atomic_argument fp ctx) [1..<length (ac_arguments ctx)]) (\<lambda>args.
     res_bind (ok_or (AtomicError RspInitOverflow) (checked_u64 (ac_start ctx + ac_duration ctx))) (\<lambda>offset.
     res_bind (atomic_argument fp ctx 0) (\<lambda>carrier.
       Inr (direct_call ctx offset RspSetCarrier [ArgUnsigned (uint (cb_local_id (ac_binding ctx))), carrier]
         (direct_call ctx (ac_start ctx) RspInit args st)))))"

definition lower_pid_config ::
  "f64_ops \<Rightarrow> atomic_context \<Rightarrow> 'a atomic_state_scheme \<Rightarrow> oasm_compile_error + 'a atomic_state_scheme" where
  "lower_pid_config fp ctx st =
     res_bind (json_argument fp (ac_program ctx) (ac_arguments ctx) 0 (ac_values ctx)) (\<lambda>config.
       Inr (direct_call ctx (ac_start ctx) RspPidConfig [ArgJson config]
         (st\<lparr>as_rsp_pid_configs := (as_rsp_pid_configs st)(ac_channel_key ctx \<mapsto> config)\<rparr>)))"

definition lower_pid_source ::
  "f64_ops \<Rightarrow> f64_arith \<Rightarrow> oasm_function \<Rightarrow> atomic_context \<Rightarrow> 'a atomic_state_scheme \<Rightarrow> oasm_compile_error + 'a atomic_state_scheme" where
  "lower_pid_source fp fa function ctx st =
     res_bind (ok_or (AtomicError PidWithoutConfig) (as_rsp_pid_configs st (ac_channel_key ctx))) (\<lambda>config.
     res_bind (ok_or (AtomicError PidWithoutSource) (Option.bind (json_get config ''dgt_source'') (json_u64 fp fa))) (\<lambda>source.
       Inr (direct_call ctx (ac_start ctx) function [ArgUnsigned source] st)))"

definition lower_pid_record ::
  "oasm_function \<Rightarrow> atomic_context \<Rightarrow> 'a atomic_state_scheme \<Rightarrow> oasm_compile_error + 'a atomic_state_scheme" where
  "lower_pid_record function ctx st =
     res_bind (ok_or (AtomicError PidWithoutConfig) (as_rsp_pid_configs st (ac_channel_key ctx))) (\<lambda>config.
       Inr (direct_call ctx (ac_start ctx) function [ArgJson config] st))"

definition lower_ttl_initialize ::
  "atomic_context \<Rightarrow> 'a atomic_state_scheme \<Rightarrow> (oasm_compile_error, 'a atomic_state_scheme) run" where
  "lower_ttl_initialize ctx st =
     run_bind (channel_mask ctx) (\<lambda>bits.
       Some (Inr (direct_call ctx (ac_start ctx) TtlConfig [ArgUnsigned bits, ArgUnsigned 0] st)))"

definition lower_atomic_events ::
  "f64_ops \<Rightarrow> f64_arith \<Rightarrow> atomic_context \<Rightarrow> 'a atomic_state_scheme \<Rightarrow> (oasm_compile_error, 'a atomic_state_scheme) run" where
  "lower_atomic_events fp fa ctx st =
     (case ats_lowering (ac_schema ctx) of
        TtlSetHigh \<Rightarrow> run_bind (validate_kind ctx ChannelTtl) (\<lambda>_. lower_ttl_set ctx True st)
      | TtlSetLow \<Rightarrow> run_bind (validate_kind ctx ChannelTtl) (\<lambda>_. lower_ttl_set ctx False st)
      | TtlInitialize \<Rightarrow> run_bind (validate_kind ctx ChannelTtl) (\<lambda>_. lower_ttl_initialize ctx st)
      | RwgInitialize \<Rightarrow> run_bind (validate_kind ctx ChannelRwg) (\<lambda>_. Some (lower_rwg_initialize fp ctx st))
      | RwgLoad \<Rightarrow> run_bind (validate_kind ctx ChannelRwg) (\<lambda>_. lower_rwg_load fp fa ctx st)
      | RwgPlayLowering \<Rightarrow> run_bind (validate_kind ctx ChannelRwg) (\<lambda>_. lower_rwg_play ctx st)
      | RwgRfOn \<Rightarrow> run_bind (validate_kind ctx ChannelRwg) (\<lambda>_. lower_rwg_switch ctx False st)
      | RwgRfOff \<Rightarrow> run_bind (validate_kind ctx ChannelRwg) (\<lambda>_. lower_rwg_switch ctx True st)
      | RspInitialize \<Rightarrow> run_bind (validate_kind ctx ChannelRsp) (\<lambda>_. Some (lower_rsp_initialize fp ctx st))
      | RspPidConfigLowering \<Rightarrow> run_bind (validate_kind ctx ChannelRsp) (\<lambda>_. Some (lower_pid_config fp ctx st))
      | RspPidStartLowering \<Rightarrow> run_bind (validate_kind ctx ChannelRsp) (\<lambda>_. Some (lower_pid_source fp fa RspPidStart ctx st))
      | RspPidHoldLowering \<Rightarrow> run_bind (validate_kind ctx ChannelRsp) (\<lambda>_. Some (lower_pid_source fp fa RspPidHold ctx st))
      | RspPidReleaseLowering \<Rightarrow> run_bind (validate_kind ctx ChannelRsp) (\<lambda>_. Some (lower_pid_record RspPidRelease ctx st))
      | RspPidRelinkLowering \<Rightarrow> run_bind (validate_kind ctx ChannelRsp) (\<lambda>_. Some (lower_pid_record RspPidRelink ctx st))
      | RspRfConfigLowering \<Rightarrow>
          Some (res_bind (atomic_argument fp ctx 0) (\<lambda>argument. Inr (direct_call ctx (ac_start ctx) RspRfConfig [argument] st)))
      | GlobalSync \<Rightarrow> None
      | OpaqueLowering \<Rightarrow> None)"

end
