(* ===== verification/Timing_Analysis.thy ===== *)
theory Timing_Analysis
  imports Dag_Pass Value_Eval
begin

text \<open>
  \<open>catseq-rtmq/src/oasm_call_plan/epochs.rs\<close>, \<open>timing.rs\<close> and \<open>arena_util.rs\<close>: the two passes over the
  morphism DAG that number the global synchronisations and compute the durations.  The parallel vectors
  of the timing pass are one table of rows.  \<open>None\<close> is a panic: an index out of range or an
  \<open>unreachable!\<close>.
\<close>

section \<open>Access\<close>

definition children_by_node :: "morphism_arena \<Rightarrow> morphism_node \<Rightarrow> (oasm_compile_error, morphism_node_id list) run" where
  "children_by_node arena node =
     map_option Inr (slice_get (ma_edges arena) (unat (mn_edge_start node)) (unat (mn_edge_count node)))"

definition node_payload :: "morphism_arena \<Rightarrow> morphism_node \<Rightarrow> (oasm_compile_error, morphism_payload option) run" where
  "node_payload arena node =
     (case mn_payload node of
        None \<Rightarrow> Some (Inr None)
      | Some p \<Rightarrow> run_bind (index_run (ma_payloads arena) (unat p)) (\<lambda>payload. Some (Inr (Some payload))))"

section \<open>Global synchronisation epochs\<close>

definition u32_max :: int where "u32_max = 2 ^ 32 - 1"

fun serial_syncs :: "int list \<Rightarrow> int \<Rightarrow> morphism_node_id list \<Rightarrow> (oasm_compile_error, int) run" where
  "serial_syncs counts count [] = Some (Inr count)"
| "serial_syncs counts count (child # rest) =
     run_bind (index_run counts (unat child)) (\<lambda>n.
     run_bind (Some (ok_or SyncCountOverflow (checked 0 u32_max (count + n)))) (\<lambda>count'.
     serial_syncs counts count' rest))"

fun any_differs :: "int list \<Rightarrow> int \<Rightarrow> morphism_node_id list \<Rightarrow> (oasm_compile_error, bool) run" where
  "any_differs counts first [] = Some (Inr False)"
| "any_differs counts first (child # rest) =
     run_bind (index_run counts (unat child)) (\<lambda>n.
       if n \<noteq> first then Some (Inr True) else any_differs counts first rest)"

fun parallel_syncs :: "int list \<Rightarrow> morphism_node_id list \<Rightarrow> (oasm_compile_error, int) run" where
  "parallel_syncs counts [] = Some (Inr 0)"
| "parallel_syncs counts (child # rest) =
     run_bind (index_run counts (unat child)) (\<lambda>first.
     run_bind (any_differs counts first rest) (\<lambda>differs.
       if differs then Some (Inl ParallelEpochMismatch) else Some (Inr first)))"

definition epoch_node ::
  "target_profile \<Rightarrow> morphism_arena \<Rightarrow> int list \<Rightarrow> nat \<Rightarrow> morphism_node \<Rightarrow> (oasm_compile_error, int) run" where
  "epoch_node target arena counts index node =
     run_bind (node_payload arena node) (\<lambda>payload.
       case mn_kind node of
         MAtomic \<Rightarrow>
           (case payload of
              Some (MpAtomic operation _ _) \<Rightarrow>
                run_bind (index_run (ma_operations arena) (unat operation)) (\<lambda>name.
                  Some (Inr (case tp_operations target name of
                               Some schema \<Rightarrow> if ats_lowering schema = GlobalSync then 1 else 0
                             | None \<Rightarrow> 0)))
            | _ \<Rightarrow> Some (Inr 0))
       | MInstantiate \<Rightarrow>
           (case payload of
              Some (MpInstantiate t _) \<Rightarrow>
                run_bind (index_run (ma_templates arena) (unat t)) (\<lambda>template.
                  index_run counts (unat (template_root template)))
            | _ \<Rightarrow> Some (Inr 0))
       | MSerial \<Rightarrow> run_bind (children_by_node arena node) (serial_syncs counts 0)
       | MParallel \<Rightarrow> run_bind (children_by_node arena node) (parallel_syncs counts)
       | MLoop \<Rightarrow>
           run_bind (children_by_node arena node) (\<lambda>children.
           run_bind (index_run children 0) (\<lambda>body.
           run_bind (index_run counts (unat body)) (\<lambda>n.
             if n \<noteq> 0 then Some (Inl LoopWithSync) else Some (Inr 0))))
       | _ \<Rightarrow> Some (Inr 0))"

definition analyze_epochs :: "native_arenas \<Rightarrow> target_profile \<Rightarrow> (oasm_compile_error, int list) run" where
  "analyze_epochs program target =
     (let arena = na_morphisms program
      in table_pass (epoch_node target arena) (replicate (length (ma_nodes arena)) 0)
           (enumerate 0 (ma_nodes arena)))"

section \<open>Timing\<close>

record node_timing =
  nt_duration :: int
  nt_logical_duration :: int
  nt_frontier :: int
  nt_logical_frontier :: int
  nt_rewinds :: bool

definition wait_timing ::
  "target_profile \<Rightarrow> eval_result list \<Rightarrow> morphism_arena \<Rightarrow> morphism_node \<Rightarrow> value_expr_id \<Rightarrow> wait_semantics
     \<Rightarrow> (oasm_compile_error, node_timing) run" where
  "wait_timing target vals arena node duration semantics =
     run_bind (index_run (ma_provenance arena) (unat (mn_provenance node))) (\<lambda>source.
     run_bind (Some (res_map_err (InvalidWait (mn_provenance node))
       (eval_duration_delta vals duration (tp_duration_quantization target)))) (\<lambda>d.
       if semantics = PhysicalInterval \<and> d < 0
       then Some (Inl (NegativePhysicalInterval (mn_provenance node)))
       else Some (Inr \<lparr>nt_duration = d, nt_logical_duration = d, nt_frontier = max d 0,
              nt_logical_frontier = max d 0, nt_rewinds = d < 0\<rparr>)))"

definition same_timing :: "int \<Rightarrow> node_timing" where
  "same_timing d = \<lparr>nt_duration = d, nt_logical_duration = d, nt_frontier = d, nt_logical_frontier = d,
     nt_rewinds = False\<rparr>"

definition u64_checked_div :: "int \<Rightarrow> int \<Rightarrow> int option" where
  "u64_checked_div a b = (if b = 0 then None else Some (a div b))"

definition atomic_cycles ::
  "target_profile \<Rightarrow> eval_result list \<Rightarrow> native_arenas \<Rightarrow> morphism_node \<Rightarrow> morphism_payload \<Rightarrow> string
     \<Rightarrow> atomic_target_schema \<Rightarrow> (oasm_compile_error, int) run" where
  "atomic_cycles target vals program node payload operation schema =
     (let arena = na_morphisms program in
      if ats_lowering schema = RwgInitialize \<and> atomic_bool_argument arena payload program 1
      then Some (ok_or InvalidHardInit (u64_checked_div (tp_clock_hz target) 1000000))
      else case ats_fixed_duration_cycles schema of
        Some duration \<Rightarrow> Some (Inr duration)
      | None \<Rightarrow>
          (case ats_duration_argument schema of
             None \<Rightarrow> Some (Inr 0)
           | Some position \<Rightarrow>
               run_bind (Some (res_map_err (\<lambda>_. ArgumentRange) (ma_payload_arguments arena payload))) (\<lambda>arguments.
                 case nth_opt arguments position of
                   None \<Rightarrow>
                     run_bind (index_run (ma_provenance arena) (unat (mn_provenance node))) (\<lambda>source.
                       Some (Inl (MissingDuration operation)))
                 | Some duration \<Rightarrow>
                     Some (res_map_err (InvalidDuration operation)
                       (eval_duration_cycles vals duration (tp_duration_quantization target))))))"

definition atomic_timing ::
  "target_profile \<Rightarrow> eval_result list \<Rightarrow> native_arenas \<Rightarrow> morphism_node \<Rightarrow> morphism_payload \<Rightarrow> u32
     \<Rightarrow> (oasm_compile_error, node_timing) run" where
  "atomic_timing target vals program node payload operation =
     run_bind (index_run (ma_operations (na_morphisms program)) (unat operation)) (\<lambda>name.
     run_bind (Some (ok_or (NoAtomicSchema name) (tp_operations target name))) (\<lambda>schema.
     run_bind (atomic_cycles target vals program node payload name schema) (\<lambda>duration.
     Some (res_bind (ok_or (DurationTooLarge name) (checked_i64 duration)) (\<lambda>d. Inr (same_timing d))))))"

definition opaque_timing ::
  "eval_result list \<Rightarrow> morphism_arena \<Rightarrow> morphism_node \<Rightarrow> value_expr_id \<Rightarrow> (oasm_compile_error, node_timing) run" where
  "opaque_timing vals arena node duration =
     (case eval_cycles vals duration of
        Inl error \<Rightarrow>
          run_bind (index_run (ma_provenance arena) (unat (mn_provenance node))) (\<lambda>source.
            Some (Inl (InvalidOpaqueDuration (mn_provenance node) error)))
      | Inr d \<Rightarrow> Some (res_bind (ok_or OpaqueDurationTooLarge (checked_i64 d)) (\<lambda>d. Inr (same_timing d))))"

fun serial_timing ::
  "node_timing list \<Rightarrow> node_timing \<Rightarrow> morphism_node_id list \<Rightarrow> (oasm_compile_error, node_timing) run" where
  "serial_timing rows acc [] = Some (Inr acc)"
| "serial_timing rows acc (child # rest) =
     run_bind (index_run rows (unat child)) (\<lambda>row.
     run_bind (Some (ok_or SerialOverflow (checked_i64 (nt_duration acc + nt_frontier row)))) (\<lambda>f.
     run_bind (Some (ok_or SerialOverflow (checked_i64 (nt_logical_duration acc + nt_logical_frontier row)))) (\<lambda>lf.
     run_bind (Some (ok_or SerialOverflow (checked_i64 (nt_duration acc + nt_duration row)))) (\<lambda>d.
     run_bind (Some (ok_or SerialOverflow (checked_i64 (nt_logical_duration acc + nt_logical_duration row)))) (\<lambda>ld.
     serial_timing rows
       \<lparr>nt_duration = d, nt_logical_duration = ld, nt_frontier = max (nt_frontier acc) f,
        nt_logical_frontier = max (nt_logical_frontier acc) lf,
        nt_rewinds = (nt_rewinds acc \<or> nt_rewinds row)\<rparr> rest)))))"

definition max_or_zero :: "int list \<Rightarrow> int" where
  "max_or_zero xs = (case xs of [] \<Rightarrow> 0 | x # ys \<Rightarrow> fold max ys x)"

definition parallel_timing :: "node_timing list \<Rightarrow> node_timing" where
  "parallel_timing rows =
     \<lparr>nt_duration = max_or_zero (map nt_duration rows),
      nt_logical_duration = max_or_zero (map nt_logical_duration rows),
      nt_frontier = max_or_zero (map nt_frontier rows),
      nt_logical_frontier = max_or_zero (map nt_logical_frontier rows),
      nt_rewinds = list_ex nt_rewinds rows\<rparr>"

definition i64_saturating_sub :: "int \<Rightarrow> int \<Rightarrow> int" where
  "i64_saturating_sub a b = max i64_min (min i64_max (a - b))"

definition repeated_frontier :: "int \<Rightarrow> int \<Rightarrow> int \<Rightarrow> oasm_compile_error + int" where
  "repeated_frontier repetitions_before_last delta frontier =
     res_bind (ok_or ExpandedLoopOverflow
       (if delta \<ge> 0 then checked_i64 (delta * repetitions_before_last) else Some 0)) (\<lambda>last_start.
     ok_or ExpandedLoopOverflow (checked_i64 (last_start + frontier)))"

definition expanded_loop_timing :: "int \<Rightarrow> node_timing \<Rightarrow> oasm_compile_error + node_timing" where
  "expanded_loop_timing count body =
     res_bind (ok_or LoopCountTooLarge (checked_i64 count)) (\<lambda>count.
     let repetitions_before_last = i64_saturating_sub count 1 in
     res_bind (ok_or ExpandedLoopOverflow (checked_i64 (nt_duration body * count))) (\<lambda>d.
     res_bind (ok_or ExpandedLoopOverflow (checked_i64 (nt_logical_duration body * count))) (\<lambda>ld.
     res_bind (repeated_frontier repetitions_before_last (nt_duration body) (nt_frontier body)) (\<lambda>f.
     res_bind (repeated_frontier repetitions_before_last (nt_logical_duration body) (nt_logical_frontier body)) (\<lambda>lf.
       Inr \<lparr>nt_duration = d, nt_logical_duration = ld, nt_frontier = f, nt_logical_frontier = lf,
            nt_rewinds = True\<rparr>)))))"

definition hardware_loop_timing :: "loop_timing \<Rightarrow> int \<Rightarrow> node_timing \<Rightarrow> oasm_compile_error + node_timing" where
  "hardware_loop_timing timing count body =
     res_bind (ok_or NegativeLoopBody (checked_u64 (nt_duration body))) (\<lambda>body_duration.
     res_bind (ok_or LoopOverflow (checked_u64 (body_duration + iteration_overhead timing count))) (\<lambda>iteration.
     res_bind (ok_or LoopOverflow (checked_u64 (iteration * count))) (\<lambda>iterations.
     res_bind (ok_or LoopOverflow (checked_u64 (fixed_overhead_cycles timing + iterations))) (\<lambda>total.
     res_bind (ok_or LoopCountTooLarge (checked_i64 count)) (\<lambda>signed_count.
     res_bind (ok_or LoopOverflow (checked_i64 (nt_logical_duration body * signed_count))) (\<lambda>ld.
     res_bind (ok_or LoopOverflow (checked_i64 total)) (\<lambda>d.
       Inr \<lparr>nt_duration = d, nt_logical_duration = ld, nt_frontier = d, nt_logical_frontier = max ld 0,
            nt_rewinds = False\<rparr>)))))))"

definition loop_node_timing ::
  "target_profile \<Rightarrow> eval_result list \<Rightarrow> morphism_arena \<Rightarrow> node_timing list \<Rightarrow> morphism_node \<Rightarrow> value_expr_id
     \<Rightarrow> (oasm_compile_error, node_timing) run" where
  "loop_node_timing target vals arena rows node count_expr =
     run_bind (Some (eval_cycles vals count_expr)) (\<lambda>count.
     run_bind (children_by_node arena node) (\<lambda>children.
     run_bind (index_run children 0) (\<lambda>body.
     run_bind (index_run rows (unat body)) (\<lambda>row.
       Some (if nt_rewinds row then expanded_loop_timing count row
             else hardware_loop_timing (tp_loop_timing target) count row)))))"

definition timing_node ::
  "target_profile \<Rightarrow> eval_result list \<Rightarrow> native_arenas \<Rightarrow> node_timing list \<Rightarrow> nat \<Rightarrow> morphism_node
     \<Rightarrow> (oasm_compile_error, node_timing) run" where
  "timing_node target vals program rows index node =
     (let arena = na_morphisms program in
      run_bind (node_payload arena node) (\<lambda>payload.
        case mn_kind node of
          MWait \<Rightarrow> (case payload of Some (MpWait d s) \<Rightarrow> wait_timing target vals arena node d s | _ \<Rightarrow> None)
        | MAtomic \<Rightarrow>
            (case payload of
               Some (MpAtomic operation a n) \<Rightarrow>
                 atomic_timing target vals program node (MpAtomic operation a n) operation
             | _ \<Rightarrow> None)
        | MOpaque \<Rightarrow> (case payload of Some (MpOpaque d _ _ _) \<Rightarrow> opaque_timing vals arena node d | _ \<Rightarrow> None)
        | MInstantiate \<Rightarrow>
            (case payload of
               Some (MpInstantiate t _) \<Rightarrow>
                 run_bind (index_run (ma_templates arena) (unat t)) (\<lambda>template.
                   index_run rows (unat (template_root template)))
             | _ \<Rightarrow> None)
        | MSerial \<Rightarrow> run_bind (children_by_node arena node) (serial_timing rows (same_timing 0))
        | MParallel \<Rightarrow>
            run_bind (children_by_node arena node) (\<lambda>children.
            run_bind (run_traverse (\<lambda>child. index_run rows (unat child)) children) (\<lambda>entries.
              Some (Inr (parallel_timing entries))))
        | MDefinitionRef \<Rightarrow>
            (case payload of
               Some (MpDefinitionRef d _ _) \<Rightarrow>
                 run_bind (index_run (ma_definitions arena) (unat d)) (\<lambda>definition.
                   Some (Inl (UnresolvedDefinition definition)))
             | _ \<Rightarrow> Some (Inl (UnresolvedDefinition ''<unknown>'')))
        | MLoop \<Rightarrow> (case payload of Some (MpLoop count) \<Rightarrow> loop_node_timing target vals arena rows node count | _ \<Rightarrow> None)
        | MSyncPhi \<Rightarrow> Some (Inl SyncPhiUnsupported)))"

record timing_analysis =
  ta_evaluated_values :: "eval_result list"
  ta_durations :: "int list"
  ta_frontiers :: "int list"
  ta_logical_frontiers :: "int list"
  ta_contains_rewind :: "bool list"

definition timing_rows ::
  "f64_ops \<Rightarrow> native_arenas \<Rightarrow> target_profile \<Rightarrow> link_bindings
     \<Rightarrow> (oasm_compile_error, eval_result list \<times> node_timing list) run" where
  "timing_rows fp program target bindings =
     (let arena = na_morphisms program in
      case evaluate_link_values fp program bindings of
        None \<Rightarrow> None
      | Some vals \<Rightarrow>
          run_bind (table_pass (timing_node target vals program) (replicate (length (ma_nodes arena)) (same_timing 0))
             (enumerate 0 (ma_nodes arena))) (\<lambda>rows. Some (Inr (vals, rows))))"

definition analyze_timing ::
  "f64_ops \<Rightarrow> native_arenas \<Rightarrow> target_profile \<Rightarrow> link_bindings \<Rightarrow> (oasm_compile_error, timing_analysis) run" where
  "analyze_timing fp program target bindings =
     run_bind (timing_rows fp program target bindings) (\<lambda>(vals, rows).
       Some (Inr \<lparr>ta_evaluated_values = vals, ta_durations = map nt_duration rows,
         ta_frontiers = map nt_frontier rows, ta_logical_frontiers = map nt_logical_frontier rows,
         ta_contains_rewind = map nt_rewinds rows\<rparr>))"

end
