(* ===== verification/Event_Lowering.thy ===== *)
theory Event_Lowering
  imports Atomic_Lowering Timing_Analysis "HOL-Library.List_Lexorder" "HOL-Library.Char_ord"
begin

text \<open>
  \<open>catseq-rtmq/src/oasm_call_plan/event_lowering.rs\<close>: the traversal of the morphism DAG with an explicit stack, which
  lowers every visited node into board events.  The stack is a list with its top first; the mutable variables of
  \<open>lower_events\<close> are the record \<open>lowering_state\<close>.  \<open>None\<close> is a panic or a traversal that does not end; indices and
  counts fit the 64 bits of \<open>usize\<close>.
\<close>

section \<open>State\<close>

definition MAX_REWIND_LOOP_EXPANDED_NODE_VISITS :: int where
  "MAX_REWIND_LOOP_EXPANDED_NODE_VISITS = 100000"

record opaque_interval =
  oi_epoch :: int
  oi_start :: int
  oi_end :: int
  oi_board :: string
  oi_group_id :: int

record ordinary_board_interval =
  ob_epoch :: int
  ob_start :: int
  ob_end :: int
  ob_board :: string
  ob_loop_group :: "int option"

record loop_frame =
  lf_start :: int
  lf_epoch :: int
  lf_body_duration :: int
  lf_total_duration :: int
  lf_count :: int
  lf_ttl_start :: nat
  lf_direct_start :: nat
  lf_opaque_start :: nat
  lf_ordinary_start :: nat

datatype traversal_task =
    Visit nat int int "nat option"
  | FinishLoop loop_frame

record lowering_state = atomic_state +
  ls_loop_regions :: "oasm_loop_region list"
  ls_opaque_intervals :: "opaque_interval list"
  ls_ordinary_intervals :: "ordinary_board_interval list"
  ls_expanded_visits :: int
  ls_epoch_origins :: "(int \<times> int) list"
  ls_next_event_id :: int

record lowered_events =
  le_ttl_events :: "ttl_event list"
  le_direct_events :: "direct_event list"
  le_loop_regions :: "oasm_loop_region list"
  le_epoch_origins :: "(int \<times> int) list"

text \<open>The parameters of \<open>lower_events\<close>.\<close>

record lowering_context =
  lc_program :: native_arenas
  lc_environment :: compile_environment
  lc_target :: target_profile
  lc_timing :: timing_analysis
  lc_sync_counts :: "int list"

abbreviation lc_arena :: "lowering_context \<Rightarrow> morphism_arena" where
  "lc_arena lc \<equiv> na_morphisms (lc_program lc)"

abbreviation lc_values :: "lowering_context \<Rightarrow> eval_result list" where
  "lc_values lc \<equiv> ta_evaluated_values (lc_timing lc)"

definition slice_from :: "'a list \<Rightarrow> nat \<Rightarrow> ('e, 'a list) run" where
  "slice_from xs start = (if start \<le> length xs then Some (Inr (drop start xs)) else None)"

definition ordered_set :: "string list \<Rightarrow> string list" where
  "ordered_set xs = sort (remdups xs)"

definition max_or :: "int \<Rightarrow> int list \<Rightarrow> int" where
  "max_or d xs = (case xs of [] \<Rightarrow> d | x # ys \<Rightarrow> fold max ys x)"

section \<open>Exclusive use of a board by opaque operations\<close>

definition event_conflicts :: "opaque_interval \<Rightarrow> int \<Rightarrow> int \<Rightarrow> bool" where
  "event_conflicts interval start duration =
     (if oi_start interval = oi_end interval \<or> start \<ge> oi_end interval then False
      else if start \<ge> oi_start interval then True
      else start < oi_start interval \<and> saturating_add start duration > oi_start interval)"

definition ordinary_conflict :: "opaque_interval \<Rightarrow> ordinary_board_interval \<Rightarrow> bool" where
  "ordinary_conflict interval ordinary \<longleftrightarrow>
     oi_epoch interval = ob_epoch ordinary \<and> oi_board interval = ob_board ordinary
     \<and> ob_loop_group ordinary \<noteq> Some (oi_group_id interval)
     \<and> oi_start interval < oi_end interval \<and> ob_start ordinary < ob_end ordinary
     \<and> oi_start interval < ob_end ordinary \<and> ob_start ordinary < oi_end interval"

definition blackbox_conflict :: "opaque_interval \<Rightarrow> opaque_interval \<Rightarrow> bool" where
  "blackbox_conflict interval other \<longleftrightarrow>
     oi_epoch interval = oi_epoch other \<and> oi_board interval = oi_board other
     \<and> oi_group_id interval \<noteq> oi_group_id other
     \<and> oi_start interval < oi_end interval \<and> oi_start other < oi_end other
     \<and> oi_start interval < oi_end other \<and> oi_start other < oi_end interval"

definition direct_conflict :: "opaque_interval \<Rightarrow> direct_event \<Rightarrow> bool" where
  "direct_conflict interval event \<longleftrightarrow>
     de_epoch event = oi_epoch interval \<and> de_board event = oi_board interval \<and> de_group_id event \<noteq> oi_group_id interval
     \<and> de_loop_scope event \<noteq> Some (oi_group_id interval)
     \<and> \<not> (de_function event = UserDefinedFunc \<and> de_instruction_cost_cycles event = 0)
     \<and> event_conflicts interval (de_offset_cycles event) (de_instruction_cost_cycles event)"

definition ttl_conflict :: "opaque_interval \<Rightarrow> ttl_event \<Rightarrow> bool" where
  "ttl_conflict interval event \<longleftrightarrow>
     te_epoch event = oi_epoch interval \<and> te_board event = oi_board interval
     \<and> te_loop_scope event \<noteq> Some (oi_group_id interval)
     \<and> event_conflicts interval (te_offset_cycles event) (te_instruction_cost_cycles event)"

fun validate_opaque_exclusivity ::
  "opaque_interval list \<Rightarrow> ordinary_board_interval list \<Rightarrow> ttl_event list \<Rightarrow> direct_event list
     \<Rightarrow> oasm_compile_error + unit" where
  "validate_opaque_exclusivity [] ordinary_intervals ttl_events direct_events = Inr ()"
| "validate_opaque_exclusivity (interval # rest) ordinary_intervals ttl_events direct_events =
     res_bind (res_all (\<lambda>ordinary. guard_res (\<not> ordinary_conflict interval ordinary)
       (EventError (OrdinaryConflict (oi_board interval)))) ordinary_intervals) (\<lambda>_.
     res_bind (res_all (\<lambda>other. guard_res (\<not> blackbox_conflict interval other)
       (EventError (BlackboxConflict (oi_board interval)))) rest) (\<lambda>_.
     res_bind (res_all (\<lambda>event. guard_res (\<not> direct_conflict interval event)
       (EventError (OperationConflict (de_offset_cycles event) (oi_board interval)))) direct_events) (\<lambda>_.
     res_bind (res_all (\<lambda>event. guard_res (\<not> ttl_conflict interval event)
       (EventError (TtlConflict (te_offset_cycles event) (oi_board interval)))) ttl_events) (\<lambda>_.
     validate_opaque_exclusivity rest ordinary_intervals ttl_events direct_events))))"

section \<open>Size of an expanded loop body\<close>

lemma run_bind_cong [fundef_cong]:
  "m = m' \<Longrightarrow> (\<And>x. m' = Some (Inr x) \<Longrightarrow> f x = g x) \<Longrightarrow> run_bind m f = run_bind m' g"
  by (auto simp: run_bind_def split: option.splits sum.splits)

definition template_roots :: "morphism_arena \<Rightarrow> morphism_node \<Rightarrow> (oasm_compile_error, nat list) run" where
  "template_roots arena node =
     (if mn_kind node = MInstantiate
      then run_bind (node_payload arena node) (\<lambda>payload.
        case payload of
          Some (MpInstantiate t _) \<Rightarrow>
            run_bind (index_run (ma_templates arena) (unat t)) (\<lambda>template. Some (Inr [unat (template_root template)]))
        | _ \<Rightarrow> None)
      else Some (Inr []))"

function visit_count :: "morphism_arena \<Rightarrow> nat list \<Rightarrow> int \<Rightarrow> (oasm_compile_error, int) run" where
  "visit_count arena [] visits = Some (Inr visits)"
| "visit_count arena (node_id # pending) visits =
     run_bind (Some (ok_or (EventError ExpansionOverflow) (checked_u64 (visits + 1)))) (\<lambda>visits'.
       if visits' > MAX_REWIND_LOOP_EXPANDED_NODE_VISITS then Some (Inr visits')
       else run_bind (index_run (ma_nodes arena) node_id) (\<lambda>node.
         run_bind (template_roots arena node) (\<lambda>roots.
         run_bind (children_by_node arena node) (\<lambda>children.
           visit_count arena (rev (map unat children) @ roots @ pending) visits'))))"
  by pat_completeness auto
termination
  by (relation "measure (\<lambda>(_, _, visits). nat (MAX_REWIND_LOOP_EXPANDED_NODE_VISITS + 1 - visits))") auto

definition expanded_body_visit_count :: "morphism_arena \<Rightarrow> nat \<Rightarrow> (oasm_compile_error, int) run" where
  "expanded_body_visit_count arena body = visit_count arena [body] 0"

section \<open>Visiting a node\<close>

text \<open>A visit returns the tasks that it pushes, top of the stack first, and the state afterwards.\<close>

type_synonym visit_result = "(oasm_compile_error, traversal_task list \<times> lowering_state) run"

definition epoch_origin :: "int \<Rightarrow> lowering_state \<Rightarrow> oasm_compile_error + int" where
  "epoch_origin epoch st =
     res_bind (ok_or (EventError (EpochWithoutOrigin epoch)) (map_of (ls_epoch_origins st) epoch)) (\<lambda>origin.
       ok_or (EventError OriginTooLarge) (checked_i64 origin))"

definition at_source :: "lowering_context \<Rightarrow> morphism_node \<Rightarrow> oasm_compile_error \<Rightarrow> (oasm_compile_error, 'a) run" where
  "at_source lc node error =
     run_bind (index_run (ma_provenance (lc_arena lc)) (unat (mn_provenance node))) (\<lambda>source. Some (Inl error))"

definition visit_wait :: "lowering_context \<Rightarrow> morphism_node \<Rightarrow> nat \<Rightarrow> int \<Rightarrow> int \<Rightarrow> lowering_state \<Rightarrow> visit_result" where
  "visit_wait lc node node_id start epoch st =
     run_bind (index_run (ta_durations (lc_timing lc)) node_id) (\<lambda>duration.
     run_bind (Some (ok_or (EventError WaitOverflow) (checked_i64 (start + duration)))) (\<lambda>end'.
     run_bind (Some (epoch_origin epoch st)) (\<lambda>origin.
       if end' < origin then at_source lc node (EventError (BeforeEpochOrigin end' origin (mn_provenance node)))
       else Some (Inr ([], st)))))"

definition signed_start :: "lowering_context \<Rightarrow> morphism_node \<Rightarrow> oasm_compile_error \<Rightarrow> int \<Rightarrow> (oasm_compile_error, int) run" where
  "signed_start lc node error start =
     (case checked_u64 start of None \<Rightarrow> at_source lc node error | Some s \<Rightarrow> Some (Inr s))"

definition fresh_event_id :: "lowering_state \<Rightarrow> oasm_compile_error + int \<times> lowering_state" where
  "fresh_event_id st =
     res_bind (ok_or (EventError EventIdOverflow) (checked_u64 (ls_next_event_id st + 1))) (\<lambda>next.
       Inr (ls_next_event_id st, st\<lparr>ls_next_event_id := next\<rparr>))"

definition board_event ::
  "int \<Rightarrow> int \<Rightarrow> string \<Rightarrow> oasm_function \<Rightarrow> oasm_argument list \<Rightarrow> int \<Rightarrow> int \<Rightarrow> int option \<Rightarrow> direct_event" where
  "board_event epoch offset board function args cost group_id loop_scope =
     \<lparr>de_epoch = epoch, de_offset_cycles = offset, de_board = board, de_function = function, de_args = args,
      de_instruction_cost_cycles = cost, de_order = BOARD, de_group_id = group_id, de_preload = False,
      de_loop_scope = loop_scope\<rparr>"

definition epoch_frontier :: "int \<Rightarrow> int \<Rightarrow> lowering_state \<Rightarrow> int" where
  "epoch_frontier epoch start st =
     max_or start
       (map (\<lambda>event. saturating_add (de_offset_cycles event) (de_instruction_cost_cycles event))
          (filter (\<lambda>event. de_epoch event = epoch) (as_direct_events st))
        @ map (\<lambda>event. saturating_add (te_offset_cycles event) (te_instruction_cost_cycles event))
          (filter (\<lambda>event. te_epoch event = epoch) (as_ttl_events st)))"

definition sync_event :: "atomic_target_schema \<Rightarrow> int \<Rightarrow> int \<Rightarrow> int \<Rightarrow> int \<Rightarrow> string \<times> target_board \<Rightarrow> direct_event" where
  "sync_event schema epoch start group_id master_wait = (\<lambda>(address, board).
     if tb_kind board = BoardMain
     then board_event epoch start address TrigSlave [ArgUnsigned master_wait, ArgUnsigned 12345]
            (ats_instruction_cost_cycles schema) group_id None
     else board_event epoch start address WaitMaster [ArgUnsigned 12345] (ats_instruction_cost_cycles schema) group_id None)"

definition visit_sync ::
  "lowering_context \<Rightarrow> atomic_target_schema \<Rightarrow> int \<Rightarrow> int \<Rightarrow> int \<Rightarrow> lowering_state \<Rightarrow> visit_result" where
  "visit_sync lc schema start epoch group_id st =
     (case checked 0 u32_max (epoch + 1) of
        None \<Rightarrow> None
      | Some next \<Rightarrow>
          if map_of (ls_epoch_origins st) next \<noteq> None then Some (Inl (EventError (SecondGlobalSync epoch)))
          else
            let st1 = st\<lparr>ls_epoch_origins := ls_epoch_origins st @ [(next, start)]\<rparr>;
                master_wait = saturating_add (saturating_sub (epoch_frontier epoch start st1) start) GLOBAL_SYNC_MARGIN_CYCLES
            in Some (Inr ([], push_direct
                 (map (sync_event schema epoch start group_id master_wait) (tp_boards (lc_target lc))) st1)))"

definition visit_opaque_operation ::
  "lowering_context \<Rightarrow> string \<Rightarrow> atomic_target_schema \<Rightarrow> int \<Rightarrow> int \<Rightarrow> int \<Rightarrow> lowering_state \<Rightarrow> visit_result" where
  "visit_opaque_operation lc operation schema start epoch group_id st =
     run_bind (Some (ok_or (EventError (OpaqueWithoutBoard operation)) (ats_board schema))) (\<lambda>board.
     run_bind (Some (ok_or (EventError (NoOpaqueBinding operation)) (env_opaque_calls (lc_environment lc) operation))) (\<lambda>opaque.
       Some (Inr ([], push_direct [board_event epoch start board UserDefinedFunc
           [ArgString (ocb_callable opaque), ArgJson (JArray (ocb_args opaque)), ArgJson (JObject (ocb_kwargs opaque))]
           (ats_instruction_cost_cycles schema) group_id None] st))))"

definition visit_channel_operation ::
  "f64_ops \<Rightarrow> f64_arith \<Rightarrow> lowering_context \<Rightarrow> morphism_node \<Rightarrow> nat \<Rightarrow> string \<Rightarrow> atomic_target_schema \<Rightarrow> value_expr_id list
     \<Rightarrow> int \<Rightarrow> int \<Rightarrow> nat option \<Rightarrow> int \<Rightarrow> lowering_state \<Rightarrow> visit_result" where
  "visit_channel_operation fp fa lc node node_id operation schema arguments start epoch channel group_id st =
     run_bind (Some (ok_or (EventError (NotOnChannel operation)) channel)) (\<lambda>channel.
     run_bind (index_run (ma_channels (lc_arena lc)) channel) (\<lambda>channel_key.
     run_bind (Some (ok_or (EventError (NoChannelBinding channel_key)) (env_channels (lc_environment lc) channel_key))) (\<lambda>binding.
     run_bind (Some (ok_or (PlanError (NoBoardCapabilities (cb_board binding))) (map_of (tp_boards (lc_target lc)) (cb_board binding)))) (\<lambda>board.
     run_bind (index_run (ta_durations (lc_timing lc)) node_id) (\<lambda>d.
     run_bind (Some (ok_or (EventError (NegativeOperation operation)) (checked_u64 d))) (\<lambda>duration.
       case lower_atomic_events fp fa
           \<lparr>ac_schema = schema, ac_channel_key = channel_key, ac_binding = binding, ac_board = board, ac_start = start,
            ac_epoch = epoch, ac_duration = duration, ac_arguments = arguments, ac_program = lc_program lc,
            ac_values = lc_values lc, ac_clock_hz = tp_clock_hz (lc_target lc),
            ac_quantization = tp_duration_quantization (lc_target lc), ac_group_id = group_id\<rparr> st of
         None \<Rightarrow> None
       | Some (Inl error) \<Rightarrow> at_source lc node (CannotLower operation (mn_provenance node) error)
       | Some (Inr st') \<Rightarrow> Some (Inr ([], st'))))))))"

definition visit_atomic ::
  "f64_ops \<Rightarrow> f64_arith \<Rightarrow> lowering_context \<Rightarrow> morphism_node \<Rightarrow> nat \<Rightarrow> morphism_payload option \<Rightarrow> int \<Rightarrow> int \<Rightarrow> nat option
     \<Rightarrow> lowering_state \<Rightarrow> visit_result" where
  "visit_atomic fp fa lc node node_id payload start0 epoch channel st =
     run_bind (signed_start lc node (EventError (TimestampBeforeOrigin (mn_provenance node))) start0) (\<lambda>start.
     run_bind (Some (fresh_event_id st)) (\<lambda>(group_id, st1).
       case payload of
         Some (MpAtomic oid a n) \<Rightarrow>
           run_bind (index_run (ma_operations (lc_arena lc)) (unat oid)) (\<lambda>operation.
           run_bind (Some (ok_or (NoAtomicSchema operation) (tp_operations (lc_target lc) operation))) (\<lambda>schema.
           run_bind (Some (res_map_err (\<lambda>error. EventError (AtomicArguments error))
             (ma_payload_arguments (lc_arena lc) (MpAtomic oid a n)))) (\<lambda>arguments.
             if ats_lowering schema = GlobalSync then visit_sync lc schema start epoch group_id st1
             else if ats_lowering schema = OpaqueLowering
             then visit_opaque_operation lc operation schema start epoch group_id st1
             else visit_channel_operation fp fa lc node node_id operation schema arguments start epoch channel group_id st1)))
       | _ \<Rightarrow> None))"

definition lower_opaque_call ::
  "f64_ops \<Rightarrow> lowering_context \<Rightarrow> opaque_board_call \<Rightarrow> oasm_compile_error + string \<times> string \<times> json_value \<times> json_value" where
  "lower_opaque_call fp lc call =
     res_bind (guard_res (map_of (tp_boards (lc_target lc)) (call_board call) \<noteq> None)
       (PlanError (NoBoardCapabilities (call_board call)))) (\<lambda>_.
     res_bind (json_value_of fp (lc_program lc) (call_arguments call) (lc_values lc)) (\<lambda>arguments.
     res_bind (json_value_of fp (lc_program lc) (call_keyword_arguments call) (lc_values lc)) (\<lambda>keyword_arguments.
     res_bind (guard_res (\<not> (json_as_array arguments = None \<or> json_as_object keyword_arguments = None))
       (EventError BlackboxShapes)) (\<lambda>_.
       Inr (call_board call, call_callable call, arguments, keyword_arguments)))))"

definition push_blackbox ::
  "int \<Rightarrow> int \<Rightarrow> int \<Rightarrow> int \<Rightarrow> string \<times> string \<times> json_value \<times> json_value \<Rightarrow> lowering_state \<Rightarrow> lowering_state" where
  "push_blackbox epoch start duration group_id = (\<lambda>(board, callable, arguments, keyword_arguments) st.
     (push_direct [board_event epoch start board UserDefinedFunc
         [ArgString callable, ArgJson arguments, ArgJson keyword_arguments] duration group_id None] st)
     \<lparr>ls_opaque_intervals := ls_opaque_intervals st @
        [\<lparr>oi_epoch = epoch, oi_start = start, oi_end = start + duration, oi_board = board, oi_group_id = group_id\<rparr>]\<rparr>)"

definition visit_opaque ::
  "f64_ops \<Rightarrow> lowering_context \<Rightarrow> morphism_node \<Rightarrow> nat \<Rightarrow> morphism_payload option \<Rightarrow> int \<Rightarrow> int \<Rightarrow> lowering_state \<Rightarrow> visit_result" where
  "visit_opaque fp lc node node_id payload start0 epoch st =
     run_bind (signed_start lc node (EventError (BlackboxBeforeOrigin (mn_provenance node))) start0) (\<lambda>start.
     run_bind (index_run (ta_durations (lc_timing lc)) node_id) (\<lambda>d.
     run_bind (Some (ok_or (EventError NegativeBlackbox) (checked_u64 d))) (\<lambda>duration.
     run_bind (Some (ok_or (EventError BlackboxOverflow) (checked_u64 (start + duration)))) (\<lambda>end'.
     run_bind (Some (fresh_event_id st)) (\<lambda>(group_id, st1).
       case payload of
         Some (MpOpaque de cs cn metadata) \<Rightarrow>
           run_bind (Some (json_value_of fp (lc_program lc) metadata (lc_values lc))) (\<lambda>_.
           run_bind (Some (res_map_err (\<lambda>error. EventError (BlackboxCalls error))
             (ma_calls (lc_arena lc) (MpOpaque de cs cn metadata)))) (\<lambda>calls.
           run_bind (Some (res_traverse (lower_opaque_call fp lc) calls)) (\<lambda>lowered_calls.
             Some (Inr ([], fold (push_blackbox epoch start duration group_id) lowered_calls st1)))))
       | _ \<Rightarrow> None)))))"

definition occupy_channel ::
  "lowering_context \<Rightarrow> nat \<Rightarrow> u32 \<Rightarrow> int \<Rightarrow> int \<Rightarrow> lowering_state \<Rightarrow> (oasm_compile_error, lowering_state) run" where
  "occupy_channel lc node_id channel start epoch st =
     run_bind (index_run (ta_frontiers (lc_timing lc)) node_id) (\<lambda>frontier.
       if frontier > 0
       then run_bind (Some (ok_or (EventError FrontierOverflow) (checked_i64 (start + frontier)))) (\<lambda>end'.
         run_bind (Some (epoch_origin epoch st)) (\<lambda>origin.
         let occupancy_start = max start origin in
         if end' > occupancy_start
         then run_bind (index_run (ma_channels (lc_arena lc)) (unat channel)) (\<lambda>channel_key.
           run_bind (Some (ok_or (EventError (NoChannelBinding channel_key)) (env_channels (lc_environment lc) channel_key))) (\<lambda>binding.
           run_bind (Some (ok_or (EventError ChannelBeforeOrigin) (checked_u64 occupancy_start))) (\<lambda>from'.
           run_bind (Some (ok_or (EventError FrontierTooLarge) (checked_u64 end'))) (\<lambda>until'.
             Some (Inr (st\<lparr>ls_ordinary_intervals := ls_ordinary_intervals st @
               [\<lparr>ob_epoch = epoch, ob_start = from', ob_end = until', ob_board = cb_board binding,
                 ob_loop_group = None\<rparr>]\<rparr>))))))
         else Some (Inr st)))
       else Some (Inr st))"

definition visit_instantiate ::
  "lowering_context \<Rightarrow> nat \<Rightarrow> morphism_payload option \<Rightarrow> int \<Rightarrow> int \<Rightarrow> lowering_state \<Rightarrow> visit_result" where
  "visit_instantiate lc node_id payload start epoch st =
     (case payload of
        Some (MpInstantiate t channel) \<Rightarrow>
          run_bind (occupy_channel lc node_id channel start epoch st) (\<lambda>st'.
          run_bind (index_run (ma_templates (lc_arena lc)) (unat t)) (\<lambda>template.
            Some (Inr ([Visit (unat (template_root template)) start epoch (Some (unat channel))], st'))))
      | _ \<Rightarrow> None)"

fun serial_tasks ::
  "lowering_context \<Rightarrow> nat option \<Rightarrow> int \<Rightarrow> int \<Rightarrow> morphism_node_id list \<Rightarrow> (oasm_compile_error, traversal_task list) run" where
  "serial_tasks lc channel start epoch [] = Some (Inr [])"
| "serial_tasks lc channel start epoch (child # rest) =
     run_bind (index_run (ta_durations (lc_timing lc)) (unat child)) (\<lambda>duration.
     run_bind (Some (ok_or (EventError SerialTimestampOverflow) (checked_i64 (start + duration)))) (\<lambda>start'.
     run_bind (index_run (lc_sync_counts lc) (unat child)) (\<lambda>count.
     run_bind (Some (ok_or (EventError EpochIdOverflow) (checked 0 u32_max (epoch + count)))) (\<lambda>epoch'.
     run_bind (serial_tasks lc channel start' epoch' rest) (\<lambda>tasks.
       Some (Inr (Visit (unat child) start epoch channel # tasks)))))))"

fun iteration_tasks :: "nat \<Rightarrow> int \<Rightarrow> nat \<Rightarrow> int \<Rightarrow> int \<Rightarrow> nat option \<Rightarrow> oasm_compile_error + traversal_task list" where
  "iteration_tasks body duration 0 start epoch channel = Inr []"
| "iteration_tasks body duration (Suc n) start epoch channel =
     res_bind (ok_or (EventError ExpandedTimestampOverflow) (checked_i64 (start + duration))) (\<lambda>start'.
     res_bind (iteration_tasks body duration n start' epoch channel) (\<lambda>tasks.
       Inr (Visit body start epoch channel # tasks)))"

definition expand_loop ::
  "lowering_context \<Rightarrow> nat \<Rightarrow> int \<Rightarrow> int \<Rightarrow> int \<Rightarrow> nat option \<Rightarrow> lowering_state \<Rightarrow> visit_result" where
  "expand_loop lc body count start epoch channel st =
     run_bind (expanded_body_visit_count (lc_arena lc) body) (\<lambda>body_visits.
     run_bind (Some (ok_or (EventError ExpansionOverflow) (checked_u64 (count * body_visits)))) (\<lambda>additional_visits.
     run_bind (Some (ok_or (EventError ExpansionOverflow) (checked_u64 (ls_expanded_visits st + additional_visits)))) (\<lambda>visits.
       if visits > MAX_REWIND_LOOP_EXPANDED_NODE_VISITS then Some (Inl (EventError (ExpansionBudget visits)))
       else run_bind (index_run (ta_durations (lc_timing lc)) body) (\<lambda>duration.
         run_bind (Some (iteration_tasks body duration (nat count) start epoch channel)) (\<lambda>tasks.
           Some (Inr (tasks, st\<lparr>ls_expanded_visits := visits\<rparr>)))))))"

definition enter_loop ::
  "lowering_context \<Rightarrow> nat \<Rightarrow> nat \<Rightarrow> int \<Rightarrow> int \<Rightarrow> int \<Rightarrow> nat option \<Rightarrow> lowering_state \<Rightarrow> visit_result" where
  "enter_loop lc node_id body count start0 epoch channel st =
     run_bind (Some (ok_or (EventError HardwareLoopBeforeOrigin) (checked_u64 start0))) (\<lambda>start.
     run_bind (index_run (ta_durations (lc_timing lc)) body) (\<lambda>d.
     run_bind (Some (ok_or (EventError NegativeHardwareBody) (checked_u64 d))) (\<lambda>body_duration.
     run_bind (index_run (ta_durations (lc_timing lc)) node_id) (\<lambda>t.
     run_bind (Some (ok_or (EventError NegativeHardwareLoop) (checked_u64 t))) (\<lambda>total_duration.
     run_bind (Some (ok_or (EventError LoopStartTooLarge) (checked_i64 start))) (\<lambda>start'.
       Some (Inr ([Visit body start' epoch channel,
         FinishLoop \<lparr>lf_start = start, lf_epoch = epoch, lf_body_duration = body_duration, lf_total_duration = total_duration,
           lf_count = count, lf_ttl_start = length (as_ttl_events st), lf_direct_start = length (as_direct_events st),
           lf_opaque_start = length (ls_opaque_intervals st),
           lf_ordinary_start = length (ls_ordinary_intervals st)\<rparr>], st))))))))"

definition visit_loop ::
  "lowering_context \<Rightarrow> morphism_node \<Rightarrow> nat \<Rightarrow> morphism_payload option \<Rightarrow> int \<Rightarrow> int \<Rightarrow> nat option \<Rightarrow> lowering_state \<Rightarrow> visit_result" where
  "visit_loop lc node node_id payload start epoch channel st =
     (case payload of
        Some (MpLoop count_expr) \<Rightarrow>
          run_bind (Some (eval_cycles (lc_values lc) count_expr)) (\<lambda>count.
          run_bind (children_by_node (lc_arena lc) node) (\<lambda>children.
          run_bind (index_run children 0) (\<lambda>body.
          run_bind (index_run (ta_contains_rewind (lc_timing lc)) (unat body)) (\<lambda>rewinds.
            if rewinds then expand_loop lc (unat body) count start epoch channel st
            else enter_loop lc node_id (unat body) count start epoch channel st))))
      | _ \<Rightarrow> None)"

definition visit_node ::
  "f64_ops \<Rightarrow> f64_arith \<Rightarrow> lowering_context \<Rightarrow> nat \<Rightarrow> int \<Rightarrow> int \<Rightarrow> nat option \<Rightarrow> lowering_state \<Rightarrow> visit_result" where
  "visit_node fp fa lc node_id start epoch channel st =
     run_bind (index_run (ma_nodes (lc_arena lc)) node_id) (\<lambda>node.
     run_bind (node_payload (lc_arena lc) node) (\<lambda>payload.
       case mn_kind node of
         MWait \<Rightarrow> visit_wait lc node node_id start epoch st
       | MAtomic \<Rightarrow> visit_atomic fp fa lc node node_id payload start epoch channel st
       | MOpaque \<Rightarrow> visit_opaque fp lc node node_id payload start epoch st
       | MInstantiate \<Rightarrow> visit_instantiate lc node_id payload start epoch st
       | MSerial \<Rightarrow>
           run_bind (children_by_node (lc_arena lc) node) (\<lambda>children.
           run_bind (serial_tasks lc channel start epoch children) (\<lambda>tasks. Some (Inr (tasks, st))))
       | MParallel \<Rightarrow>
           run_bind (children_by_node (lc_arena lc) node) (\<lambda>children.
             Some (Inr (map (\<lambda>child. Visit (unat child) start epoch channel) children, st)))
       | MLoop \<Rightarrow> visit_loop lc node node_id payload start epoch channel st
       | MDefinitionRef \<Rightarrow> None
       | MSyncPhi \<Rightarrow> None))"

section \<open>Leaving a hardware loop\<close>

definition loop_markers :: "loop_frame \<Rightarrow> int \<Rightarrow> int \<Rightarrow> int \<Rightarrow> string \<Rightarrow> direct_event list" where
  "loop_markers frame marker_group_id body_end cursor_advance board =
     [board_event (lf_epoch frame) (lf_start frame) board LoopBegin [ArgUnsigned 1, ArgUnsigned (lf_count frame)] 0
        marker_group_id (Some marker_group_id),
      board_event (lf_epoch frame) body_end board LoopEnd [] cursor_advance marker_group_id (Some marker_group_id)]"

definition close_loop ::
  "loop_frame \<Rightarrow> int \<Rightarrow> int \<Rightarrow> int \<Rightarrow> int \<Rightarrow> opaque_interval list \<Rightarrow> ordinary_board_interval list \<Rightarrow> ttl_event list
     \<Rightarrow> direct_event list \<Rightarrow> lowering_state \<Rightarrow> lowering_state" where
  "close_loop frame marker_group_id body_end loop_end cursor_advance opaque ordinary ttl direct st =
     (let opaque_boards = ordered_set (map oi_board (filter (\<lambda>interval. oi_start interval < oi_end interval) opaque));
          ordinary_boards = ordered_set (map ob_board ordinary @ map te_board ttl @ map de_board direct);
          boards = ordered_set (map te_board ttl @ map de_board direct);
          scope = Some marker_group_id
      in st\<lparr>ls_opaque_intervals := take (lf_opaque_start frame) (ls_opaque_intervals st) @
             map (\<lambda>board. \<lparr>oi_epoch = lf_epoch frame, oi_start = lf_start frame, oi_end = loop_end, oi_board = board,
               oi_group_id = marker_group_id\<rparr>) opaque_boards,
           ls_ordinary_intervals := take (lf_ordinary_start frame) (ls_ordinary_intervals st) @
             map (\<lambda>board. \<lparr>ob_epoch = lf_epoch frame, ob_start = lf_start frame, ob_end = loop_end, ob_board = board,
               ob_loop_group = scope\<rparr>) ordinary_boards,
           ls_loop_regions := ls_loop_regions st @
             [\<lparr>lr_epoch = lf_epoch frame, lr_start = lf_start frame, lr_body_duration = lf_body_duration frame,
               lr_count = lf_count frame, lr_marker_group_id = marker_group_id\<rparr>],
           as_ttl_events := take (lf_ttl_start frame) (as_ttl_events st) @ map (\<lambda>event. event\<lparr>te_loop_scope := scope\<rparr>) ttl,
           as_direct_events := take (lf_direct_start frame) (as_direct_events st)
             @ map (\<lambda>event. event\<lparr>de_loop_scope := scope\<rparr>) direct
             @ concat (map (loop_markers frame marker_group_id body_end cursor_advance) boards)\<rparr>)"

definition finish_loop :: "loop_frame \<Rightarrow> lowering_state \<Rightarrow> visit_result" where
  "finish_loop frame st =
     run_bind (slice_from (ls_opaque_intervals st) (lf_opaque_start frame)) (\<lambda>opaque.
     run_bind (slice_from (ls_ordinary_intervals st) (lf_ordinary_start frame)) (\<lambda>ordinary.
     run_bind (slice_from (as_ttl_events st) (lf_ttl_start frame)) (\<lambda>ttl.
     run_bind (slice_from (as_direct_events st) (lf_direct_start frame)) (\<lambda>direct.
     run_bind (Some (validate_opaque_exclusivity opaque ordinary ttl direct)) (\<lambda>_.
     run_bind (Some (ok_or (EventError LoopTimestampOverflow)
       (checked_u64 (lf_start frame + lf_body_duration frame)))) (\<lambda>body_end.
     run_bind (Some (ok_or (EventError LoopEnvelopeOverflow)
       (checked_u64 (lf_start frame + lf_total_duration frame)))) (\<lambda>loop_end.
     run_bind (Some (ok_or (EventError LoopShorterThanBody)
       (checked_u64 (lf_total_duration frame - lf_body_duration frame)))) (\<lambda>cursor_advance.
     run_bind (Some (fresh_event_id st)) (\<lambda>(marker_group_id, st1).
       Some (Inr ([], close_loop frame marker_group_id body_end loop_end cursor_advance opaque ordinary ttl direct st1)))))))))))"

section \<open>The traversal\<close>

definition run_task :: "f64_ops \<Rightarrow> f64_arith \<Rightarrow> lowering_context \<Rightarrow> traversal_task \<Rightarrow> lowering_state \<Rightarrow> visit_result" where
  "run_task fp fa lc task st =
     (case task of
        Visit node_id start epoch channel \<Rightarrow> visit_node fp fa lc node_id start epoch channel st
      | FinishLoop frame \<Rightarrow> finish_loop frame st)"

partial_function (option) traverse ::
  "f64_ops \<Rightarrow> f64_arith \<Rightarrow> lowering_context \<Rightarrow> traversal_task list \<Rightarrow> lowering_state \<Rightarrow> (oasm_compile_error, lowering_state) run" where
  "traverse fp fa lc pending st =
     (case pending of
        [] \<Rightarrow> Some (Inr st)
      | task # rest \<Rightarrow>
          Option.bind (run_task fp fa lc task st) (\<lambda>r.
            case r of
              Inl error \<Rightarrow> Some (Inl error)
            | Inr p \<Rightarrow> traverse fp fa lc (fst p @ rest) (snd p)))"

definition initial_state :: lowering_state where
  "initial_state =
     \<lparr>as_rwg_states = Map.empty, as_rsp_pid_configs = Map.empty, as_ttl_events = [], as_direct_events = [],
      ls_loop_regions = [], ls_opaque_intervals = [], ls_ordinary_intervals = [], ls_expanded_visits = 0,
      ls_epoch_origins = [(0, 0)], ls_next_event_id = 0\<rparr>"

definition lower_events ::
  "f64_ops \<Rightarrow> f64_arith \<Rightarrow> lowering_context \<Rightarrow> (oasm_compile_error, lowered_events) run" where
  "lower_events fp fa lc =
     run_bind (traverse fp fa lc [Visit (unat (ma_root (lc_arena lc))) 0 0 None] initial_state) (\<lambda>st.
     run_bind (Some (validate_opaque_exclusivity (ls_opaque_intervals st) (ls_ordinary_intervals st)
       (as_ttl_events st) (as_direct_events st))) (\<lambda>_.
       Some (Inr \<lparr>le_ttl_events = as_ttl_events st, le_direct_events = as_direct_events st,
         le_loop_regions = ls_loop_regions st, le_epoch_origins = ls_epoch_origins st\<rparr>)))"

end
