(* ===== verification/Plan_Builder.thy ===== *)
theory Plan_Builder
  imports Event_Lowering
begin

text \<open>
  \<open>catseq-rtmq/src/oasm_call_plan/loop_lowering.rs\<close>, \<open>plan_builder.rs\<close> and \<open>compile_oasm_call_plan\<close> of
  \<open>oasm_call_plan.rs\<close>: loops that take longer on a board than the timeline says push later events back, and the
  events of every epoch are compiled board by board.
\<close>

section \<open>Occupancy of hardware loops\<close>

record loop_events =
  lv_ttl :: "ttl_event list"
  lv_direct :: "direct_event list"
  lv_origins :: "(int \<times> int) list"

definition region_start :: "oasm_loop_region \<Rightarrow> direct_event list \<Rightarrow> int" where
  "region_start region direct_events =
     (case find (\<lambda>event. de_group_id event = lr_marker_group_id region \<and> de_function event = LoopBegin) direct_events of
        None \<Rightarrow> lr_start region
      | Some event \<Rightarrow> de_offset_cycles event)"

definition direct_in_body :: "oasm_loop_region \<Rightarrow> direct_event \<Rightarrow> bool" where
  "direct_in_body region event \<longleftrightarrow> de_epoch event = lr_epoch region
     \<and> de_loop_scope event = Some (lr_marker_group_id region) \<and> de_group_id event \<noteq> lr_marker_group_id region"

definition ttl_in_body :: "oasm_loop_region \<Rightarrow> ttl_event \<Rightarrow> bool" where
  "ttl_in_body region event \<longleftrightarrow> te_epoch event = lr_epoch region
     \<and> te_loop_scope event = Some (lr_marker_group_id region)"

definition loop_boards :: "oasm_loop_region \<Rightarrow> loop_events \<Rightarrow> string list" where
  "loop_boards region events =
     map de_board (filter (direct_in_body region) (lv_direct events))
     @ map te_board (filter (ttl_in_body region) (lv_ttl events))"

text \<open>Events of the loop's boards that fall into the loop but are not part of it move behind the body.\<close>

definition displace_direct :: "oasm_loop_region \<Rightarrow> string list \<Rightarrow> int \<Rightarrow> int \<Rightarrow> int \<Rightarrow> direct_event \<Rightarrow> direct_event" where
  "displace_direct region boards start end' after_body event =
     (if de_epoch event = lr_epoch region \<and> de_board event \<in> set boards
         \<and> de_loop_scope event \<noteq> Some (lr_marker_group_id region)
         \<and> de_offset_cycles event \<ge> start \<and> de_offset_cycles event \<le> end'
      then event\<lparr>de_offset_cycles := after_body\<rparr> else event)"

definition displace_ttl :: "oasm_loop_region \<Rightarrow> string list \<Rightarrow> int \<Rightarrow> int \<Rightarrow> int \<Rightarrow> ttl_event \<Rightarrow> ttl_event" where
  "displace_ttl region boards start end' after_body event =
     (if te_epoch event = lr_epoch region \<and> te_board event \<in> set boards
         \<and> te_loop_scope event \<noteq> Some (lr_marker_group_id region)
         \<and> te_offset_cycles event \<ge> start \<and> te_offset_cycles event \<le> end'
      then event\<lparr>te_offset_cycles := after_body\<rparr> else event)"

definition body_partitions :: "oasm_loop_region \<Rightarrow> direct_event list \<Rightarrow> direct_event list list" where
  "body_partitions region direct_events =
     (let body = filter (direct_in_body region) direct_events
      in map (\<lambda>board. filter (\<lambda>event. de_board event = board) body) (ordered_set (map de_board body)))"

definition ttl_placeholders :: "oasm_loop_region \<Rightarrow> ttl_event list \<Rightarrow> direct_event list" where
  "ttl_placeholders region ttl_events =
     (let body = filter (ttl_in_body region) ttl_events;
          key = (\<lambda>event. (te_board event, te_offset_cycles event));
          least = (\<lambda>k. case map te_order (filter (\<lambda>event. key event = k) body) of
            [] \<Rightarrow> BOARD | o' # os \<Rightarrow> fold (\<lambda>o2 o1. order_min o1 o2) os o')
      in map (\<lambda>k. \<lparr>de_epoch = lr_epoch region, de_offset_cycles = snd k, de_board = fst k, de_function = TtlSet,
            de_args = [], de_instruction_cost_cycles = 1, de_order = least k, de_group_id = eo_sequence (least k),
            de_preload = False, de_loop_scope = Some (lr_marker_group_id region)\<rparr>)
           (sort (remdups (map key body))))"

fun board_cursors :: "int \<Rightarrow> (string \<times> int) list \<Rightarrow> direct_event list \<Rightarrow> oasm_compile_error + (string \<times> int) list" where
  "board_cursors start cursors [] = Inr cursors"
| "board_cursors start cursors (event # rest) =
     (let cursor = (case map_of cursors (de_board event) of None \<Rightarrow> start | Some c \<Rightarrow> c);
          actual_start = max (de_offset_cycles event) cursor
      in res_bind (ok_or (PlanError LoopBodyOverflow) (checked_u64 (actual_start + de_instruction_cost_cycles event))) (\<lambda>c.
         board_cursors start ((de_board event, c) # filter (\<lambda>entry. fst entry \<noteq> de_board event) cursors) rest))"

definition body_occupancy :: "f64_arith \<Rightarrow> oasm_loop_region \<Rightarrow> int \<Rightarrow> int \<Rightarrow> loop_events \<Rightarrow> oasm_compile_error + int" where
  "body_occupancy fa region start end' events =
     res_bind (schedule_board_events fa (body_partitions region (lv_direct events)) (ttl_placeholders region (lv_ttl events))) (\<lambda>scheduled.
     res_bind (board_cursors start [] scheduled) (\<lambda>cursors.
       Inr (max (saturating_sub (max_or end' (map snd cursors)) start) (lr_body_duration region))))"

definition delay_direct :: "oasm_loop_region \<Rightarrow> int \<Rightarrow> int \<Rightarrow> int \<Rightarrow> direct_event \<Rightarrow> oasm_compile_error + direct_event" where
  "delay_direct region end' loop_delta marker_extra event =
     (if de_group_id event = lr_marker_group_id region \<and> de_function event = LoopEnd
      then res_bind (ok_or (PlanError LoopMarkerOverflow) (checked_u64 (de_instruction_cost_cycles event + marker_extra))) (\<lambda>cost.
        Inr (event\<lparr>de_instruction_cost_cycles := cost\<rparr>))
      else if de_epoch event > lr_epoch region \<or> (de_epoch event = lr_epoch region \<and> de_offset_cycles event > end')
      then res_bind (ok_or (PlanError PostLoopOverflow) (checked_u64 (de_offset_cycles event + loop_delta))) (\<lambda>offset.
        Inr (event\<lparr>de_offset_cycles := offset\<rparr>))
      else Inr event)"

definition delay_ttl :: "oasm_loop_region \<Rightarrow> int \<Rightarrow> int \<Rightarrow> ttl_event \<Rightarrow> oasm_compile_error + ttl_event" where
  "delay_ttl region end' loop_delta event =
     (if te_epoch event > lr_epoch region \<or> (te_epoch event = lr_epoch region \<and> te_offset_cycles event > end')
      then res_bind (ok_or (PlanError PostLoopOverflow) (checked_u64 (te_offset_cycles event + loop_delta))) (\<lambda>offset.
        Inr (event\<lparr>te_offset_cycles := offset\<rparr>))
      else Inr event)"

definition delay_origin :: "int \<Rightarrow> int \<Rightarrow> int \<times> int \<Rightarrow> oasm_compile_error + int \<times> int" where
  "delay_origin end' loop_delta = (\<lambda>(epoch, origin).
     if origin > end'
     then res_bind (ok_or (PlanError PostLoopOverflow) (checked_u64 (origin + loop_delta))) (\<lambda>o'. Inr (epoch, o'))
     else Inr (epoch, origin))"

definition delay_events :: "oasm_loop_region \<Rightarrow> int \<Rightarrow> int \<Rightarrow> int \<Rightarrow> loop_events \<Rightarrow> oasm_compile_error + loop_events" where
  "delay_events region end' loop_delta marker_extra events =
     res_bind (res_traverse (delay_direct region end' loop_delta marker_extra) (lv_direct events)) (\<lambda>direct.
     res_bind (res_traverse (delay_ttl region end' loop_delta) (lv_ttl events)) (\<lambda>ttl.
     res_bind (res_traverse (delay_origin end' loop_delta) (lv_origins events)) (\<lambda>origins.
       Inr \<lparr>lv_ttl = ttl, lv_direct = direct, lv_origins = origins\<rparr>)))"

definition apply_region :: "f64_arith \<Rightarrow> int \<times> loop_events \<Rightarrow> oasm_loop_region \<Rightarrow> oasm_compile_error + int \<times> loop_events" where
  "apply_region fa = (\<lambda>(total_delta, events) region.
     let start = region_start region (lv_direct events) in
     res_bind (ok_or (PlanError LoopBodyOverflow) (checked_u64 (start + lr_body_duration region))) (\<lambda>end'.
     res_bind (ok_or (PlanError LoopBodyOverflow) (checked_u64 (end' + 1))) (\<lambda>after_body.
     let boards = loop_boards region events;
         displaced = events\<lparr>lv_direct := map (displace_direct region boards start end' after_body) (lv_direct events),
           lv_ttl := map (displace_ttl region boards start end' after_body) (lv_ttl events)\<rparr>
     in res_bind (body_occupancy fa region start end' displaced) (\<lambda>actual_body_duration.
     let body_delta = actual_body_duration - lr_body_duration region in
     res_bind (ok_or (PlanError LoopDeltaOverflow) (checked_u64 (body_delta * lr_count region))) (\<lambda>loop_delta.
       if loop_delta = 0 then Inr (total_delta, displaced)
       else res_bind (delay_events region end' loop_delta (saturating_sub loop_delta body_delta) displaced) (\<lambda>delayed.
         res_bind (ok_or (PlanError LoopDeltaOverflow) (checked_u64 (total_delta + loop_delta))) (\<lambda>total. Inr (total, delayed))))))))"

definition apply_loop_timing :: "f64_arith \<Rightarrow> oasm_loop_region list \<Rightarrow> loop_events \<Rightarrow> oasm_compile_error + int \<times> loop_events" where
  "apply_loop_timing fa regions events = res_foldl (apply_region fa) (0, events) regions"

section \<open>Epochs\<close>

definition epoch_input ::
  "target_board \<Rightarrow> int \<Rightarrow> int \<Rightarrow> int \<Rightarrow> (string \<rightharpoonup> int) \<Rightarrow> loop_events \<Rightarrow> string \<Rightarrow> board_epoch_input" where
  "epoch_input board epoch origin duration cursors events address =
     \<lparr>bi_epoch = epoch, bi_origin_cycles = origin, bi_address = address, bi_board_kind = tb_kind board,
      bi_duration_cycles = duration, bi_initial_cursor = (case cursors address of None \<Rightarrow> 0 | Some c \<Rightarrow> c),
      bi_ttl_events = filter (\<lambda>event. te_epoch event = epoch \<and> te_board event = address) (lv_ttl events),
      bi_direct_events = filter (\<lambda>event. de_epoch event = epoch \<and> de_board event = address) (lv_direct events)\<rparr>"

definition compile_address ::
  "f64_arith \<Rightarrow> target_profile \<Rightarrow> int \<Rightarrow> int \<Rightarrow> int \<Rightarrow> (string \<rightharpoonup> int) \<Rightarrow> loop_events \<Rightarrow> string
     \<Rightarrow> (oasm_compile_error, oasm_board_plan) run" where
  "compile_address fa target epoch origin duration cursors events address =
     run_bind (Some (ok_or (PlanError (NoBoardCapabilities address)) (map_of (tp_boards target) address))) (\<lambda>board.
       compile_board fa (epoch_input board epoch origin duration cursors events address))"

definition is_sync_call :: "oasm_call \<Rightarrow> bool" where
  "is_sync_call call \<longleftrightarrow> call_function call = WaitMaster \<or> call_function call = TrigSlave"

text \<open>When a board is done with a synchronisation; the sum is a plain addition that panics on overflow.\<close>

definition sync_end :: "oasm_call \<Rightarrow> (oasm_compile_error, int) run" where
  "sync_end call =
     (if call_function call = WaitMaster
      then Option.bind (fixed_oasm_call_cost WaitMaster) (\<lambda>cost.
        map_option Inr (checked_u64 (call_offset_cycles call + cost)))
      else Some (Inr (call_offset_cycles call)))"

definition max_of :: "int list \<Rightarrow> int option" where
  "max_of xs = (case xs of [] \<Rightarrow> None | x # ys \<Rightarrow> Some (fold max ys x))"

definition set_master_wait :: "int \<Rightarrow> oasm_call \<Rightarrow> oasm_call" where
  "set_master_wait sync_frontier call =
     (if call_function call = TrigSlave
      then let master_wait = saturating_add (saturating_sub sync_frontier (call_offset_cycles call)) GLOBAL_SYNC_MARGIN_CYCLES
           in call\<lparr>call_args := (case call_args call of [] \<Rightarrow> [] | _ # args \<Rightarrow> ArgUnsigned master_wait # args)\<rparr>
      else call)"

definition align_boards :: "oasm_board_plan list \<Rightarrow> (oasm_compile_error, oasm_board_plan list) run" where
  "align_boards boards =
     run_bind (run_traverse sync_end (filter is_sync_call (concat (map plan_calls boards)))) (\<lambda>ends.
       Some (Inr (case max_of ends of
           None \<Rightarrow> boards
         | Some sync_frontier \<Rightarrow>
             map (\<lambda>board. board\<lparr>plan_calls := map (set_master_wait sync_frontier) (plan_calls board)\<rparr>) boards)))"

definition carry_cycles :: "oasm_board_plan \<Rightarrow> int option" where
  "carry_cycles board =
     Option.bind (find is_sync_call (rev (plan_calls board))) (\<lambda>call. fixed_oasm_call_cost (call_function call))"

definition carry_cursors :: "oasm_board_plan list \<Rightarrow> string \<rightharpoonup> int" where
  "carry_cursors boards =
     fold (\<lambda>board cursors. case carry_cycles board of None \<Rightarrow> cursors | Some c \<Rightarrow> cursors(plan_address board \<mapsto> c))
       boards Map.empty"

definition build_epoch ::
  "f64_arith \<Rightarrow> target_profile \<Rightarrow> loop_events \<Rightarrow> int \<Rightarrow> string list \<Rightarrow> (string \<rightharpoonup> int) \<Rightarrow> int
     \<Rightarrow> (oasm_compile_error, oasm_epoch_plan) run" where
  "build_epoch fa target events program_duration addresses cursors epoch =
     run_bind (Some (ok_or (PlanError (NoEpochOrigin epoch)) (map_of (lv_origins events) epoch))) (\<lambda>origin.
     case checked 0 u32_max (epoch + 1) of
       None \<Rightarrow> None
     | Some next \<Rightarrow>
         let end' = (case map_of (lv_origins events) next of None \<Rightarrow> program_duration | Some o' \<Rightarrow> o') in
         run_bind (Some (ok_or (PlanError EpochEndBeforeOrigin) (checked_u64 (end' - origin)))) (\<lambda>duration.
         run_bind (run_traverse (compile_address fa target epoch origin duration cursors events) addresses) (\<lambda>boards.
         run_bind (align_boards boards) (\<lambda>aligned.
           Some (Inr \<lparr>epoch_id = epoch, epoch_origin_cycles = origin, epoch_boards = aligned\<rparr>)))))"

fun build_epochs ::
  "f64_arith \<Rightarrow> target_profile \<Rightarrow> loop_events \<Rightarrow> int \<Rightarrow> string list \<Rightarrow> (string \<rightharpoonup> int) \<Rightarrow> int list
     \<Rightarrow> (oasm_compile_error, oasm_epoch_plan list) run" where
  "build_epochs fa target events program_duration addresses cursors [] = Some (Inr [])"
| "build_epochs fa target events program_duration addresses cursors (epoch # rest) =
     run_bind (build_epoch fa target events program_duration addresses cursors epoch) (\<lambda>plan.
     run_bind (build_epochs fa target events program_duration addresses (carry_cursors (epoch_boards plan)) rest) (\<lambda>plans.
       Some (Inr (plan # plans))))"

section \<open>The plan\<close>

definition program_addresses :: "loop_events \<Rightarrow> string list" where
  "program_addresses events = ordered_set (map te_board (lv_ttl events) @ map de_board (lv_direct events))"

definition build_call_plan ::
  "f64_arith \<Rightarrow> native_arenas \<Rightarrow> target_profile \<Rightarrow> timing_analysis \<Rightarrow> int list \<Rightarrow> lowered_events
     \<Rightarrow> (oasm_compile_error, oasm_call_plan) run" where
  "build_call_plan fa program target timing sync_counts lowered =
     (let top = unat (ma_root (na_morphisms program)) in
      run_bind (Some (res_traverse (raise_cost fa) (le_direct_events lowered))) (\<lambda>direct_events.
      run_bind (Some (apply_loop_timing fa (le_loop_regions lowered)
        \<lparr>lv_ttl = le_ttl_events lowered, lv_direct = direct_events, lv_origins = le_epoch_origins lowered\<rparr>)) (\<lambda>(delta, events).
      run_bind (Some (ok_or (PlanError LoopDeltaOverflow) (checked_i64 delta))) (\<lambda>loop_delta.
      run_bind (index_run (ta_frontiers timing) top) (\<lambda>frontier.
      run_bind (Some (ok_or (PlanError ProgramDurationRange) (Option.bind (checked_i64 (frontier + loop_delta)) checked_u64))) (\<lambda>program_duration.
      run_bind (index_run sync_counts top) (\<lambda>syncs.
      run_bind (build_epochs fa target events program_duration (program_addresses events) Map.empty [0..syncs]) (\<lambda>epochs.
      run_bind (index_run (ta_logical_frontiers timing) top) (\<lambda>logical.
      run_bind (Some (ok_or (PlanError LogicalDurationRange) (checked_u64 logical))) (\<lambda>logical_duration.
        Some (Inr \<lparr>plan_schema_version = 1, plan_epochs = epochs, plan_logical_duration_cycles = logical_duration\<rparr>)))))))))))"

definition compile_oasm_call_plan ::
  "f64_ops \<Rightarrow> f64_arith \<Rightarrow> native_arenas \<Rightarrow> compile_environment \<Rightarrow> target_profile \<Rightarrow> link_bindings
     \<Rightarrow> (oasm_compile_error, oasm_call_plan) run" where
  "compile_oasm_call_plan fp fa program environment target bindings =
     run_bind (Some (validate_inputs environment target bindings)) (\<lambda>_.
     run_bind (analyze_timing fp program target bindings) (\<lambda>timing.
     run_bind (analyze_epochs program target) (\<lambda>sync_counts.
     run_bind (lower_events fp fa \<lparr>lc_program = program, lc_environment = environment, lc_target = target,
       lc_timing = timing, lc_sync_counts = sync_counts\<rparr>) (\<lambda>lowered.
     build_call_plan fa program target timing sync_counts lowered))))"

end
