(* ===== verification/Atomic_Soundness.thy ===== *)
theory Atomic_Soundness
  imports Atomic_Lowering
begin

text \<open>
  What lowering one atomic operation does: it never panics for channels below 64, it appends events of the
  channel's board only, and the state of an RWG channel follows a small automaton in which every load is played
  at most once.
\<close>

section \<open>No panic\<close>

lemma option_collect_defined: "(\<And>x. x \<in> set xs \<Longrightarrow> f x \<noteq> None) \<Longrightarrow> option_collect f xs \<noteq> None"
proof (induction xs)
  case (Cons x xs)
  then have "f x \<noteq> None" "option_collect f xs \<noteq> None" by simp_all
  then show ?case by auto
qed simp

lemma static_waveforms_defined:
  assumes "validate_static_waveforms fp fa targets True = Inr ()"
  shows "build_static_waveforms fp fa targets phase_reset \<noteq> None"
  unfolding build_static_waveforms_def
proof (rule option_collect_defined)
  fix target assume "target \<in> set targets"
  with assms show "static_waveform fp fa phase_reset target \<noteq> None"
    by (fastforce simp: validate_static_waveforms_def has_sbg_def static_waveform_def res_simps)
qed

lemma run_bind_not_None: "m \<noteq> None \<Longrightarrow> (\<And>x. m = Some (Inr x) \<Longrightarrow> f x \<noteq> None) \<Longrightarrow> run_bind m f \<noteq> None"
  by (auto simp: run_bind_def split: option.splits sum.splits)

lemma channel_mask_defined: "unat (cb_local_id (ac_binding ctx)) < 64 \<Longrightarrow> channel_mask ctx \<noteq> None"
  by (simp add: channel_mask_def channel_bit_def)

lemma validate_kind_defined: "m \<noteq> None \<Longrightarrow> run_bind (validate_kind ctx k) (\<lambda>_. m) \<noteq> None"
  by (rule run_bind_not_None) (simp_all add: validate_kind_def)

lemma derive_static_defined: "derive_static fp fa ctx args state \<noteq> None"
  unfolding derive_static_def Let_def
  by (intro run_bind_not_None) (use static_waveforms_defined in auto)

lemma lower_atomic_total:
  assumes "unat (cb_local_id (ac_binding ctx)) < 64" "ats_lowering (ac_schema ctx) \<notin> {GlobalSync, OpaqueLowering}"
  shows "lower_atomic_events fp fa ctx st \<noteq> None"
proof -
  note mask = channel_mask_defined [OF assms(1)]
  have load: "lower_rwg_load fp fa ctx st \<noteq> None"
    unfolding lower_rwg_load_def load_derived_def Let_def
    by (intro run_bind_not_None)
      (auto simp: run_bind_def derive_static_defined split: option.splits sum.splits value_expr_payload.splits rwg_waveform_derivation.splits)
  have play: "lower_rwg_play ctx st \<noteq> None"
    using mask by (auto simp: lower_rwg_play_def emit_rwg_play_def run_bind_def split: option.splits sum.splits rwg_channel_state.splits)
  have switch: "lower_rwg_switch ctx off st \<noteq> None" for off
    using mask by (auto simp: lower_rwg_switch_def Let_def run_bind_def split: option.splits sum.splits rwg_channel_state.splits)
  have ttl: "lower_ttl_set ctx high st \<noteq> None" "lower_ttl_initialize ctx st \<noteq> None" for high
    using mask by (auto simp: lower_ttl_set_def lower_ttl_initialize_def Let_def run_bind_def split: option.splits sum.splits)
  show ?thesis
    using assms(2) load play switch ttl
    by (cases "ats_lowering (ac_schema ctx)")
      (simp_all add: lower_atomic_events_def validate_kind_defined del: not_None_eq)
qed

section \<open>Effects\<close>

text \<open>
  The automaton of an RWG channel.  Loading prepares a transition from an idle channel, the start of a ramp from a
  known waveform, or the end of a running ramp; playing takes the transition; only the switch and initialisation
  change whether the output is on.
\<close>

inductive rwg_moves :: "int \<Rightarrow> atomic_lowering \<Rightarrow> rwg_channel_state option \<Rightarrow> rwg_channel_state option \<Rightarrow> bool" for group_id where
  initialize: "rwg_moves group_id RwgInitialize s (Some RwgReady)"
| load_ready: "t \<in> {ActivateUnknown} \<union> range Activate \<Longrightarrow>
    rwg_moves group_id RwgLoad (Some RwgReady) (Some (WaveformsLoaded False t group_id))"
| load_active: "t \<in> {ActivateUnknown} \<union> range Activate \<union> {StartRamp stop snapshot' | stop snapshot'. length snapshot' = length snapshot} \<Longrightarrow>
    rwg_moves group_id RwgLoad (Some (RwgActive rf snapshot)) (Some (WaveformsLoaded rf t group_id))"
| load_unknown: "t \<in> {ActivateUnknown} \<union> range Activate \<Longrightarrow>
    rwg_moves group_id RwgLoad (Some (RwgActiveUnknown rf)) (Some (WaveformsLoaded rf t group_id))"
| load_endpoint: "rwg_moves group_id RwgLoad (Some (RwgRamping rf stop snapshot)) (Some (WaveformsLoaded rf (FinishRamp snapshot) group_id))"
| play_known: "rwg_moves group_id RwgPlayLowering (Some (WaveformsLoaded rf (Activate snapshot) g)) (Some (RwgActive rf snapshot))"
| play_unknown: "rwg_moves group_id RwgPlayLowering (Some (WaveformsLoaded rf ActivateUnknown g)) (Some (RwgActiveUnknown rf))"
| play_ramp: "rwg_moves group_id RwgPlayLowering (Some (WaveformsLoaded rf (StartRamp stop snapshot) g)) (Some (RwgRamping rf stop snapshot))"
| play_endpoint: "rwg_moves group_id RwgPlayLowering (Some (WaveformsLoaded rf (FinishRamp snapshot) g)) (Some (RwgActive rf snapshot))"
| switch_ready: "lowering \<in> {RwgRfOn, RwgRfOff} \<Longrightarrow> rwg_moves group_id lowering (Some RwgReady) (Some RwgReady)"
| switch_active: "lowering \<in> {RwgRfOn, RwgRfOff} \<Longrightarrow>
    rwg_moves group_id lowering (Some (RwgActive rf snapshot)) (Some (RwgActive (lowering = RwgRfOn) snapshot))"
| switch_unknown: "lowering \<in> {RwgRfOn, RwgRfOff} \<Longrightarrow>
    rwg_moves group_id lowering (Some (RwgActiveUnknown rf)) (Some (RwgActiveUnknown (lowering = RwgRfOn)))"
| other: "lowering \<notin> {RwgInitialize, RwgLoad, RwgPlayLowering, RwgRfOn, RwgRfOff} \<Longrightarrow> rwg_moves group_id lowering s s"

text \<open>The direct events of an operation: a play of the pending group, loads of the new group, or other calls of it.\<close>

definition channel_call :: "atomic_context \<Rightarrow> direct_event \<Rightarrow> bool" where
  "channel_call ctx event \<longleftrightarrow>
     de_epoch event = ac_epoch ctx \<and> de_board event = cb_board (ac_binding ctx) \<and> de_loop_scope event = None
     \<and> de_order event = channel_order (cb_kind (ac_binding ctx)) (cb_local_id (ac_binding ctx)) (de_group_id event)"

inductive calls_of :: "atomic_context \<Rightarrow> rwg_channel_state option \<Rightarrow> direct_event list \<Rightarrow> bool" for ctx where
  quiet: "ats_lowering (ac_schema ctx) \<notin> {RwgLoad, RwgPlayLowering} \<Longrightarrow>
    \<forall>e\<in>set es. channel_call ctx e \<and> de_group_id e = ac_group_id ctx \<and> \<not> de_preload e
      \<and> de_function e \<notin> {RwgPlay, RwgLoadWaveform} \<Longrightarrow> calls_of ctx s es"
| loads: "ats_lowering (ac_schema ctx) = RwgLoad \<Longrightarrow>
    \<forall>e\<in>set es. channel_call ctx e \<and> de_group_id e = ac_group_id ctx \<and> de_preload e
      \<and> de_function e = RwgLoadWaveform \<Longrightarrow> calls_of ctx s es"
| play: "ats_lowering (ac_schema ctx) = RwgPlayLowering \<Longrightarrow> channel_call ctx e \<Longrightarrow> de_group_id e = g \<Longrightarrow> \<not> de_preload e
    \<Longrightarrow> de_function e = RwgPlay \<Longrightarrow> calls_of ctx (Some (WaveformsLoaded rf t g)) [e]"

definition atomic_effect :: "atomic_context \<Rightarrow> 'a atomic_state_scheme \<Rightarrow> 'a atomic_state_scheme \<Rightarrow> bool" where
  "atomic_effect ctx st st' \<longleftrightarrow>
     atomic_state.more st' = atomic_state.more st
     \<and> (\<exists>ttl. as_ttl_events st' = as_ttl_events st @ ttl
          \<and> (\<forall>e\<in>set ttl. te_epoch e = ac_epoch ctx \<and> te_board e = cb_board (ac_binding ctx) \<and> te_loop_scope e = None
              \<and> unat (te_local_id e) < 64))
     \<and> (\<exists>es. as_direct_events st' = as_direct_events st @ es \<and> calls_of ctx (as_rwg_states st (ac_channel_key ctx)) es)
     \<and> rwg_moves (ac_group_id ctx) (ats_lowering (ac_schema ctx))
          (as_rwg_states st (ac_channel_key ctx)) (as_rwg_states st' (ac_channel_key ctx))
     \<and> (\<forall>key. key \<noteq> ac_channel_key ctx \<longrightarrow> as_rwg_states st' key = as_rwg_states st key
          \<and> as_rsp_pid_configs st' key = as_rsp_pid_configs st key)"

lemma channel_event_call: "channel_call ctx (channel_event ctx offset f args g pre)"
  by (simp add: channel_call_def channel_event_def)

lemma channel_event_fields [simp]:
  "de_group_id (channel_event ctx offset f args g pre) = g" "de_preload (channel_event ctx offset f args g pre) = pre"
  "de_function (channel_event ctx offset f args g pre) = f"
  by (simp_all add: channel_event_def)

lemma quiet_effect:
  assumes "ats_lowering (ac_schema ctx) \<notin> {RwgInitialize, RwgLoad, RwgPlayLowering, RwgRfOn, RwgRfOff}"
    and "\<forall>e\<in>set es. channel_call ctx e \<and> de_group_id e = ac_group_id ctx \<and> \<not> de_preload e \<and> de_function e \<notin> {RwgPlay, RwgLoadWaveform}"
  shows "atomic_effect ctx st (push_direct es st)"
  using assms
  by (auto simp: atomic_effect_def push_direct_def intro: calls_of.quiet rwg_moves.other)

lemma load_effect:
  assumes "ats_lowering (ac_schema ctx) = RwgLoad"
    and "rwg_moves (ac_group_id ctx) RwgLoad (as_rwg_states st (ac_channel_key ctx)) (Some (WaveformsLoaded rf t (ac_group_id ctx)))"
  shows "atomic_effect ctx st (load_waveforms ctx waveforms rf t st)"
  using assms
  by (auto simp: atomic_effect_def load_waveforms_def set_channel_def emit_prepared_rwg_loads_def push_direct_def
      channel_event_call intro!: calls_of.loads)

lemma idle_moves:
  assumes "idle_rf p m s = Inr rf" "t \<in> {ActivateUnknown} \<union> range Activate"
  shows "rwg_moves g RwgLoad s (Some (WaveformsLoaded rf t g))"
  using assms
  by (auto simp: idle_rf_def split: option.splits rwg_channel_state.splits
      intro: rwg_moves.load_ready rwg_moves.load_active rwg_moves.load_unknown)

lemma res_bind_InrE:
  assumes "res_bind m f = Inr y"
  obtains x where "m = Inr x" "f x = Inr y"
  using assms by (auto simp: res_bind_Inr_iff)

lemma linear_moves:
  assumes "derive_linear fp fa ctx args s = Inr (waveforms, rf, t)"
  shows "rwg_moves g RwgLoad s (Some (WaveformsLoaded rf t g))"
proof -
  from assms obtain targets n where "(case s of
         Some (RwgActive rf_on snapshot) \<Rightarrow>
           res_bind (guard_res (length targets = length snapshot)
             (AtomicError (RampCountMismatch (length targets) (length snapshot)))) (\<lambda>_.
           let duration_us = fa_div fa (fa_mul fa (fa_of_int fa n) f64_1000000) (fa_of_int fa (ac_clock_hz ctx)) in
           res_bind (build_linear_ramp_waveforms fp fa snapshot targets duration_us) (\<lambda>(ramp, static_stop, end_snapshot).
             Inr (ramp, rf_on, StartRamp static_stop end_snapshot)))
       | _ \<Rightarrow> Inl (AtomicError RampNotActive)) = Inr (waveforms, rf, t)"
    unfolding derive_linear_def by (elim res_bind_InrE)
  then obtain snapshot d stop snapshot' where s: "s = Some (RwgActive rf snapshot)" "length targets = length snapshot"
      "build_linear_ramp_waveforms fp fa snapshot targets d = Inr (waveforms, stop, snapshot')" "t = StartRamp stop snapshot'"
    unfolding Let_def by (cases s; cases "the s") (auto elim!: res_bind_InrE)
  then have "length snapshot' = length snapshot"
    by (auto simp: build_linear_ramp_waveforms_def res_simps dest!: list_all2_lengthD)
  with s show ?thesis by (auto intro!: rwg_moves.load_active)
qed

lemma static_moves:
  assumes "derive_static fp fa ctx args s = Some (Inr (waveforms, rf, t))"
  shows "rwg_moves g RwgLoad s (Some (WaveformsLoaded rf t g))"
proof -
  from assms obtain targets p m where "t = Activate targets" "idle_rf p m s = Inr rf"
    by (auto simp: derive_static_def Let_def run_bind_def split: option.splits sum.splits)
  then show ?thesis using idle_moves by blast
qed

lemma endpoint_moves:
  "derive_endpoint args s = Inr (waveforms, rf, t) \<Longrightarrow> rwg_moves g RwgLoad s (Some (WaveformsLoaded rf t g))"
  by (auto simp: derive_endpoint_def res_bind_Inr_iff split: option.splits rwg_channel_state.splits intro: rwg_moves.load_endpoint)

lemma run_bind_InrE:
  assumes "run_bind m f = Some (Inr y)"
  obtains x where "m = Some (Inr x)" "f x = Some (Inr y)"
  using assms by (auto simp: run_bind_def split: option.splits sum.splits)

lemma rwg_load_effect:
  assumes "ats_lowering (ac_schema ctx) = RwgLoad" "lower_rwg_load fp fa ctx st = Some (Inr st')"
  shows "atomic_effect ctx st st'"
proof -
  let ?s = "as_rwg_states st (ac_channel_key ctx)"
  from assms(2) obtain e payload where e: "(case payload of
         Some (PJson _) \<Rightarrow> Some (load_params fp fa ctx e st)
       | Some (PRwgWaveforms derivation) \<Rightarrow> load_derived fp fa ctx e derivation st
       | _ \<Rightarrow> Some (Inl (AtomicError NotWaveformParameters))) = Some (Inr st')"
    unfolding lower_rwg_load_def by (elim run_bind_InrE)
  then consider "load_params fp fa ctx e st = Inr st'" | d where "load_derived fp fa ctx e d st = Some (Inr st')"
    by (auto split: option.splits value_expr_payload.splits)
  then show ?thesis
  proof cases
    case 1
    then obtain waveforms rf t p m where "st' = load_waveforms ctx waveforms rf t st" "idle_rf p m ?s = Inr rf"
        "t \<in> {ActivateUnknown} \<union> range Activate"
      by (auto simp: load_params_def Let_def res_bind_Inr_iff split: option.splits)
    then show ?thesis using load_effect [OF assms(1) idle_moves] by blast
  next
    case 2
    then obtain args waveforms rf t where l: "st' = load_waveforms ctx waveforms rf t st"
        "(case d of RwgStatic \<Rightarrow> derive_static fp fa ctx args ?s
           | RwgLinear \<Rightarrow> Some (derive_linear fp fa ctx args ?s)
           | RwgRampEndpoint \<Rightarrow> Some (derive_endpoint args ?s)) = Some (Inr (waveforms, rf, t))"
      unfolding load_derived_def Let_def by (elim run_bind_InrE) auto
    then have "rwg_moves (ac_group_id ctx) RwgLoad ?s (Some (WaveformsLoaded rf t (ac_group_id ctx)))"
      by (cases d) (auto intro: static_moves linear_moves endpoint_moves)
    then show ?thesis using load_effect [OF assms(1)] l(1) by blast
  qed
qed

lemma rwg_play_effect:
  assumes "ats_lowering (ac_schema ctx) = RwgPlayLowering" "lower_rwg_play ctx st = Some (Inr st')"
  shows "atomic_effect ctx st st'"
proof -
  from assms(2) obtain rf t g bits where s: "as_rwg_states st (ac_channel_key ctx) = Some (WaveformsLoaded rf t g)"
    "st' = set_channel ctx (play_transition rf t)
       (push_direct [channel_event ctx (ac_start ctx) RwgPlay [ArgUnsigned bits, ArgUnsigned bits] g False] st)"
    by (auto simp: lower_rwg_play_def emit_rwg_play_def elim!: run_bind_InrE split: option.splits rwg_channel_state.splits)
  moreover have "rwg_moves (ac_group_id ctx) RwgPlayLowering (Some (WaveformsLoaded rf t g)) (Some (play_transition rf t))"
    by (cases t) (auto intro: rwg_moves.intros)
  ultimately show ?thesis using assms(1)
    by (auto simp: atomic_effect_def set_channel_def push_direct_def channel_event_call intro: calls_of.play)
qed

lemma rwg_switch_effect:
  assumes "ats_lowering (ac_schema ctx) = (if off then RwgRfOff else RwgRfOn)" "lower_rwg_switch ctx off st = Some (Inr st')"
  shows "atomic_effect ctx st st'"
proof -
  let ?s = "as_rwg_states st (ac_channel_key ctx)"
  from assms(2) obtain es where es: "\<forall>e\<in>set es. channel_call ctx e \<and> de_group_id e = ac_group_id ctx \<and> \<not> de_preload e
      \<and> de_function e \<notin> {RwgPlay, RwgLoadWaveform}"
    "?s = Some RwgReady \<and> st' = push_direct es st
     \<or> (\<exists>rf snapshot. ?s = Some (RwgActive rf snapshot) \<and> st' = set_channel ctx (RwgActive (\<not> off) snapshot) (push_direct es st))
     \<or> (\<exists>rf. ?s = Some (RwgActiveUnknown rf) \<and> st' = set_channel ctx (RwgActiveUnknown (\<not> off)) (push_direct es st))"
    by (auto simp: lower_rwg_switch_def direct_call_def Let_def channel_event_call elim!: run_bind_InrE
        split: option.splits rwg_channel_state.splits) (force simp: channel_event_call)+
  have q: "calls_of ctx ?s es" using es(1) assms(1) by (auto intro!: calls_of.quiet split: if_splits)
  from es(2) show ?thesis using q assms(1)
    rwg_moves.switch_ready [of "ats_lowering (ac_schema ctx)" "ac_group_id ctx"]
    rwg_moves.switch_active [of "ats_lowering (ac_schema ctx)" "ac_group_id ctx"]
    rwg_moves.switch_unknown [of "ats_lowering (ac_schema ctx)" "ac_group_id ctx"]
    by (auto simp: atomic_effect_def set_channel_def push_direct_def split: if_splits)
qed

lemma quiet_effects:
  assumes "ats_lowering (ac_schema ctx) \<notin> {RwgInitialize, RwgLoad, RwgPlayLowering, RwgRfOn, RwgRfOff}"
    and "f \<notin> {RwgPlay, RwgLoadWaveform}" "f' \<notin> {RwgPlay, RwgLoadWaveform}"
  shows "atomic_effect ctx st (direct_call ctx o1 f a1 st)" "atomic_effect ctx st (direct_call ctx o2 f' a2 (direct_call ctx o1 f a1 st))"
    "atomic_effect ctx st (direct_call ctx o1 f a1 (st\<lparr>as_rsp_pid_configs := (as_rsp_pid_configs st)(ac_channel_key ctx \<mapsto> config)\<rparr>))"
proof -
  let ?e1 = "channel_event ctx o1 f a1 (ac_group_id ctx) False" and ?e2 = "channel_event ctx o2 f' a2 (ac_group_id ctx) False"
  note q = quiet_effect [OF assms(1)]
  show "atomic_effect ctx st (direct_call ctx o1 f a1 st)"
    using q [of "[?e1]"] assms(2) by (simp add: direct_call_def channel_event_call)
  have "direct_call ctx o2 f' a2 (direct_call ctx o1 f a1 st) = push_direct [?e1, ?e2] st"
    by (simp add: direct_call_def push_direct_def)
  then show "atomic_effect ctx st (direct_call ctx o2 f' a2 (direct_call ctx o1 f a1 st))"
    using q [of "[?e1, ?e2]"] assms(2,3) by (simp add: channel_event_call)
  show "atomic_effect ctx st (direct_call ctx o1 f a1 (st\<lparr>as_rsp_pid_configs := (as_rsp_pid_configs st)(ac_channel_key ctx \<mapsto> config)\<rparr>))"
    using q [of "[?e1]" st] assms(2) by (auto simp: direct_call_def push_direct_def channel_event_call atomic_effect_def)
qed

lemma rwg_initialize_effect:
  assumes "ats_lowering (ac_schema ctx) = RwgInitialize" "lower_rwg_initialize fp ctx st = Inr st'"
  shows "atomic_effect ctx st st'"
proof -
  from assms(2) obtain hard offset args where st': "st' = set_channel ctx RwgReady (direct_call ctx offset RwgSetCarrier args
      (if hard then direct_call ctx (ac_start ctx) RwgInit [] st else st))"
    unfolding lower_rwg_initialize_def Let_def by (elim res_bind_InrE) auto
  let ?es = "(if hard then [channel_event ctx (ac_start ctx) RwgInit [] (ac_group_id ctx) False] else [])
    @ [channel_event ctx offset RwgSetCarrier args (ac_group_id ctx) False]"
  have "calls_of ctx s ?es" for s using assms(1) by (intro calls_of.quiet) (auto simp: channel_event_call)
  moreover have "st' = set_channel ctx RwgReady (push_direct ?es st)"
    using st' by (auto simp: direct_call_def push_direct_def)
  ultimately show ?thesis using assms(1) rwg_moves.initialize
    by (auto simp: atomic_effect_def set_channel_def push_direct_def)
qed

lemma ttl_set_effect:
  assumes "ats_lowering (ac_schema ctx) \<in> {TtlSetHigh, TtlSetLow}" "lower_ttl_set ctx high st = Some (Inr st')"
  shows "atomic_effect ctx st st'"
proof -
  have "unat (cb_local_id (ac_binding ctx)) < 64" if "\<not> cb_local_id (ac_binding ctx) \<ge> tb_ttl_width (ac_board ctx)"
      "\<not> tb_ttl_width (ac_board ctx) > 64"
    using that by (auto simp: word_less_nat_alt word_le_nat_alt not_le not_less)
  then show ?thesis using assms calls_of.quiet [of ctx "[]"]
    by (auto simp: lower_ttl_set_def Let_def atomic_effect_def intro!: rwg_moves.other split: if_splits)
qed

lemma lower_atomic_effect:
  assumes "lower_atomic_events fp fa ctx st = Some (Inr st')"
  shows "atomic_effect ctx st st'"
proof -
  have k: "m = Some (Inr st')" if "run_bind (validate_kind ctx k) (\<lambda>_. m) = Some (Inr st')" for k m
    using that by (rule run_bind_InrE)
  note op = assms [unfolded lower_atomic_events_def]
  show ?thesis
  proof (cases "ats_lowering (ac_schema ctx)")
    case TtlInitialize
    then show ?thesis using k op
      by (auto simp: lower_ttl_initialize_def elim!: run_bind_InrE intro!: quiet_effects)
  next
    case RspInitialize
    then have "lower_rsp_initialize fp ctx st = Inr st'" using k op by auto
    then show ?thesis using RspInitialize
      by (auto simp: lower_rsp_initialize_def elim!: res_bind_InrE intro!: quiet_effects)
  next
    case RspPidConfigLowering
    then have "lower_pid_config fp ctx st = Inr st'" using k op by auto
    then show ?thesis using RspPidConfigLowering by (auto simp: lower_pid_config_def elim!: res_bind_InrE intro!: quiet_effects)
  next
    case RspRfConfigLowering
    then show ?thesis using op by (auto elim!: res_bind_InrE intro!: quiet_effects)
  next
    case RspPidStartLowering
    then have "lower_pid_source fp fa RspPidStart ctx st = Inr st'" using k op by auto
    then show ?thesis using RspPidStartLowering by (auto simp: lower_pid_source_def elim!: res_bind_InrE intro!: quiet_effects)
  next
    case RspPidHoldLowering
    then have "lower_pid_source fp fa RspPidHold ctx st = Inr st'" using k op by auto
    then show ?thesis using RspPidHoldLowering by (auto simp: lower_pid_source_def elim!: res_bind_InrE intro!: quiet_effects)
  next
    case RspPidReleaseLowering
    then have "lower_pid_record RspPidRelease ctx st = Inr st'" using k op by auto
    then show ?thesis using RspPidReleaseLowering by (auto simp: lower_pid_record_def elim!: res_bind_InrE intro!: quiet_effects)
  next
    case RspPidRelinkLowering
    then have "lower_pid_record RspPidRelink ctx st = Inr st'" using k op by auto
    then show ?thesis using RspPidRelinkLowering by (auto simp: lower_pid_record_def elim!: res_bind_InrE intro!: quiet_effects)
  next
    case RwgInitialize
    then have "lower_rwg_initialize fp ctx st = Inr st'" using k op by auto
    then show ?thesis using rwg_initialize_effect [OF RwgInitialize] by blast
  next
    case RwgLoad
    have "lower_rwg_load fp fa ctx st = Some (Inr st')" by (rule k [of ChannelRwg]) (use op RwgLoad in simp)
    then show ?thesis using rwg_load_effect [OF RwgLoad] by blast
  next
    case RwgPlayLowering
    have "lower_rwg_play ctx st = Some (Inr st')" by (rule k [of ChannelRwg]) (use op RwgPlayLowering in simp)
    then show ?thesis using rwg_play_effect [OF RwgPlayLowering] by blast
  next
    case RwgRfOn
    have "lower_rwg_switch ctx False st = Some (Inr st')" by (rule k [of ChannelRwg]) (use op RwgRfOn in simp)
    then show ?thesis using rwg_switch_effect [of ctx False st st'] RwgRfOn by simp
  next
    case RwgRfOff
    have "lower_rwg_switch ctx True st = Some (Inr st')" by (rule k [of ChannelRwg]) (use op RwgRfOff in simp)
    then show ?thesis using rwg_switch_effect [of ctx True st st'] RwgRfOff by simp
  next
    case TtlSetHigh
    have "lower_ttl_set ctx True st = Some (Inr st')" by (rule k [of ChannelTtl]) (use op TtlSetHigh in simp)
    then show ?thesis using ttl_set_effect [of ctx True st st'] TtlSetHigh by simp
  next
    case TtlSetLow
    have "lower_ttl_set ctx False st = Some (Inr st')" by (rule k [of ChannelTtl]) (use op TtlSetLow in simp)
    then show ?thesis using ttl_set_effect [of ctx False st st'] TtlSetLow by simp
  qed (use op in auto)
qed

section \<open>Properties\<close>

text \<open>
  C16. RWG channels follow their automaton: an operation that is lowered moves its own channel along the edges of
  \<open>rwg_moves\<close> (a play takes the channel to the waveform that was loaded, to the ramp, or from the ramp to its end),
  with the number of tones kept by a ramp and the output switched by the switch operations only, leaves every
  other channel alone, and appends events of its own board and epoch only: one play of the loaded group, loads of the
  new group, or calls that neither load nor play.
\<close>

theorem rwg_channel_automaton:
  assumes "lower_atomic_events fp fa ctx st = Some (Inr st')"
  shows "rwg_moves (ac_group_id ctx) (ats_lowering (ac_schema ctx))
      (as_rwg_states st (ac_channel_key ctx)) (as_rwg_states st' (ac_channel_key ctx))
    \<and> (\<forall>key. key \<noteq> ac_channel_key ctx \<longrightarrow> as_rwg_states st' key = as_rwg_states st key)
    \<and> (\<exists>es. as_direct_events st' = as_direct_events st @ es
         \<and> calls_of ctx (as_rwg_states st (ac_channel_key ctx)) es
         \<and> (\<forall>e\<in>set es. de_board e = cb_board (ac_binding ctx) \<and> de_epoch e = ac_epoch ctx))"
proof -
  have effect: "atomic_effect ctx st st'" by (rule lower_atomic_effect [OF assms])
  then obtain es where "as_direct_events st' = as_direct_events st @ es" "calls_of ctx (as_rwg_states st (ac_channel_key ctx)) es"
    by (auto simp: atomic_effect_def)
  moreover from this(2) have "\<forall>e\<in>set es. de_board e = cb_board (ac_binding ctx) \<and> de_epoch e = ac_epoch ctx"
    by cases (auto simp: channel_call_def)
  ultimately show ?thesis using effect by (auto simp: atomic_effect_def)
qed

text \<open>
  Unlike the operations that set a TTL channel, its initialisation does not compare the channel number with the width of
  the board: from 64 on the shift that forms the mask overflows.
\<close>

lemma ttl_initialize_unchecked_width:
  assumes "ats_lowering (ac_schema ctx) = TtlInitialize" "cb_kind (ac_binding ctx) = ChannelTtl" "64 \<le> unat (cb_local_id (ac_binding ctx))"
  shows "lower_atomic_events fp fa ctx st = None"
  using assms
  by (simp add: lower_atomic_events_def validate_kind_def lower_ttl_initialize_def channel_mask_def channel_bit_def)

text \<open>A play on a channel whose waveforms are loaded.\<close>

definition play_context :: atomic_context where
  "play_context = \<lparr>ac_schema = \<lparr>ats_lowering = RwgPlayLowering, ats_duration_argument = None, ats_fixed_duration_cycles = None,
       ats_board = None, ats_instruction_cost_cycles = 15\<rparr>,
     ac_channel_key = ''cooling'', ac_binding = \<lparr>cb_board = ''rwg0'', cb_local_id = 1, cb_kind = ChannelRwg\<rparr>,
     ac_board = \<lparr>tb_kind = BoardRwg, tb_ttl_width = 32\<rparr>, ac_start = 100, ac_epoch = 0, ac_duration = 0, ac_arguments = [],
     ac_program = \<lparr>na_morphisms = mb_view 0 mb_new, na_values = ve_builder_new\<rparr>, ac_values = [], ac_clock_hz = 250000000,
     ac_quantization = QStrict, ac_group_id = 8\<rparr>"

definition loaded_state :: atomic_state where
  "loaded_state = \<lparr>as_rwg_states = [''cooling'' \<mapsto> WaveformsLoaded True (FinishRamp [JNull, JNull]) 7, ''repump'' \<mapsto> RwgReady],
     as_rsp_pid_configs = Map.empty, as_ttl_events = [], as_direct_events = []\<rparr>"

lemma play_loaded:
  "\<exists>st'. lower_atomic_events fp fa play_context loaded_state = Some (Inr st')
     \<and> as_rwg_states st' = [''cooling'' \<mapsto> RwgActive True [JNull, JNull], ''repump'' \<mapsto> RwgReady]"
  by (simp add: lower_atomic_events_def play_context_def validate_kind_def lower_rwg_play_def loaded_state_def emit_rwg_play_def
      channel_mask_def channel_bit_def set_channel_def push_direct_def fun_eq_iff)

text \<open>Some arithmetic for concrete runs, none of which computes with it.\<close>

definition word_floats :: f64_arith where
  "word_floats = \<lparr>fa_eq = (=), fa_of_int = of_int, fa_mul = (*), fa_div = (div), fa_powi = (^), fa_round = uint, fa_sub = (-),
     fa_le = (\<le>), fa_fract = (\<lambda>_. 0), fa_to_u64 = uint\<rparr>"

theorem rwg_channel_automaton_witness:
  "\<exists>st' e. lower_atomic_events no_floats word_floats play_context loaded_state = Some (Inr st')
     \<and> as_rwg_states st' = [''cooling'' \<mapsto> RwgActive True [JNull, JNull], ''repump'' \<mapsto> RwgReady]
     \<and> rwg_moves 8 RwgPlayLowering (Some (WaveformsLoaded True (FinishRamp [JNull, JNull]) 7)) (Some (RwgActive True [JNull, JNull]))
     \<and> as_direct_events st' = [e] \<and> de_function e = RwgPlay \<and> de_group_id e = 7 \<and> de_board e = ''rwg0''"
proof -
  obtain st' where st': "lower_atomic_events no_floats word_floats play_context loaded_state = Some (Inr st')"
    "as_rwg_states st' = [''cooling'' \<mapsto> RwgActive True [JNull, JNull], ''repump'' \<mapsto> RwgReady]" using play_loaded by blast
  note ok = rwg_channel_automaton [OF st'(1), unfolded st'(2)]
  then obtain es where "as_direct_events st' = es"
    and calls: "calls_of play_context (Some (WaveformsLoaded True (FinishRamp [JNull, JNull]) 7)) es"
    by (auto simp: play_context_def loaded_state_def)
  moreover from calls have "\<exists>e. es = [e] \<and> de_function e = RwgPlay \<and> de_group_id e = 7 \<and> de_board e = ''rwg0''"
    by cases (auto simp: play_context_def channel_call_def)
  moreover have "rwg_moves 8 RwgPlayLowering (Some (WaveformsLoaded True (FinishRamp [JNull, JNull]) 7)) (Some (RwgActive True [JNull, JNull]))"
    using ok [THEN conjunct1] by (simp add: play_context_def loaded_state_def)
  ultimately show ?thesis using st' by blast
qed

end
