(* ===== verification/Resolved_Arena.thy ===== *)
theory Resolved_Arena
  imports Timing_Analysis
begin

text \<open>
  Arenas whose templates resolve.  The passes of \<open>Timing_Analysis\<close> read the entry of a template's root at each
  of its instances, so they fold the trees in which instances are replaced by their templates.  Every arena
  finished from a builder is resolved, and \<open>node_shape\<close> lists what the passes find at a node.
\<close>

section \<open>Arenas with resolved templates\<close>

definition ma_content_at :: "morphism_arena \<Rightarrow> nat \<Rightarrow> morphism_content option" where
  "ma_content_at a i = fst (snd (snd (ma_label a i)))"

definition content_root :: "morphism_arena \<Rightarrow> morphism_content option \<Rightarrow> nat list" where
  "content_root a content =
     (case content of
        Some (CInstantiate t _) \<Rightarrow> [unat (template_root (ma_templates a ! unat t))]
      | _ \<Rightarrow> [])"

definition instance_roots :: "morphism_arena \<Rightarrow> nat \<Rightarrow> nat list" where
  "instance_roots a i = (if i < length (ma_nodes a) then content_root a (ma_content_at a i) else [])"

lemma content_root_instance: "r \<in> set (content_root a (Some x)) \<Longrightarrow> \<exists>t c. x = CInstantiate t c"
  by (cases x) (simp_all add: content_root_def)

lemma content_root_eq: "r \<in> set (content_root a (Some (CInstantiate t c))) \<Longrightarrow> r = unat (template_root (ma_templates a ! unat t))"
  by (simp add: content_root_def)

lemma instance_rootsE:
  assumes "r \<in> set (instance_roots a i)"
  obtains t c where "i < length (ma_nodes a)" "ma_content_at a i = Some (CInstantiate t c)"
    "r = unat (template_root (ma_templates a ! unat t))"
proof -
  from assms have r: "i < length (ma_nodes a)" "r \<in> set (content_root a (ma_content_at a i))"
    by (simp_all add: instance_roots_def split: if_splits)
  then obtain x where x: "ma_content_at a i = Some x" by (cases "ma_content_at a i") (simp_all add: content_root_def)
  with r(2) content_root_instance content_root_eq that [OF r(1)] show ?thesis by metis
qed

definition ma_deps :: "morphism_arena \<Rightarrow> nat \<Rightarrow> nat list" where
  "ma_deps a i = ma_kids a i @ instance_roots a i"

definition expanded_tree :: "morphism_arena \<Rightarrow> nat \<Rightarrow> morphism_label rtree" where
  "expanded_tree a = tree_at (ma_label a) (ma_deps a)"

text \<open>Well-formed, with children and templates before the nodes that use them.\<close>

definition ma_resolved :: "morphism_arena \<Rightarrow> bool" where
  "ma_resolved a \<longleftrightarrow> ma_wf a \<and> descending (ma_deps a)"

lemma ma_deps_descending:
  assumes "descending (ma_kids a)" "\<And>i r. i < length (ma_nodes a) \<Longrightarrow> r \<in> set (instance_roots a i) \<Longrightarrow> r < i"
  shows "descending (ma_deps a)"
proof -
  have "r < i" if "r \<in> set (instance_roots a i)" for i r
    using assms(2) that by (cases "i < length (ma_nodes a)") (auto simp: instance_roots_def content_root_def)
  then show ?thesis using assms(1) by (auto simp: descending_def ma_deps_def)
qed

lemma content_template:
  assumes "ma_node_ok a (ma_nodes a ! i)" "ma_content_at a i = Some (CInstantiate t c)"
  shows "unat t < length (ma_templates a)"
proof -
  from assms(2) obtain p where p: "mn_payload (ma_nodes a ! i) = Some p"
      "ma_content a (ma_payloads a ! unat p) = CInstantiate t c" by (auto simp: ma_content_at_def ma_label_def Let_def)
  then obtain k where "ma_payloads a ! unat p = MpInstantiate t k" by (cases "ma_payloads a ! unat p") (auto simp: ma_content_def)
  then show ?thesis using assms(1) p(1) by (auto simp: ma_node_ok_def node_payload_ok_def payload_refs_ok_def)
qed

definition templates_precede :: "morphism_builder \<Rightarrow> bool" where
  "templates_precede b \<longleftrightarrow> (\<forall>i<length (mb_nodes b). \<forall>r\<in>set (instance_roots (mb_view 0 b) i). r < i)"

lemma tree_label: "mb_inv b \<Longrightarrow> unat m = i \<Longrightarrow> mb_label b i = rlabel (mb_tree b m)"
  using tree_root(1) by simp

lemma same_labels:
  assumes "mb_inv b" "mb_inv b'" "mb_small b" "i < length (mb_nodes b)"
    and "\<forall>k. unat k < length (mb_nodes b) \<longrightarrow> mb_tree b' k = mb_tree b k"
  shows "mb_label b' i = mb_label b i"
proof -
  have u: "unat (of_nat i :: u32) = i" using assms(3,4) by (simp add: mb_small_def)
  show ?thesis using tree_label [OF assms(1) u] tree_label [OF assms(2) u] assms(4,5) u by simp
qed

lemma apply_templates:
  assumes "mb_apply op b = Some (m, b')"
  shows "mb_templates b' = mb_templates b"
proof -
  note leaf = push_leaf_def push_node_def push_payload_def push_arguments_def
  note names = intern_frames(1) [THEN arg_cong [of _ _ mb_templates]]
    intern_frames(2) [THEN arg_cong [of _ _ mb_templates]] intern_frames(3) [THEN arg_cong [of _ _ mb_templates]]
  show ?thesis
    using assms
    by (cases op)
      (auto simp: mb_atomic_def mb_definition_ref_def mb_opaque_def logical_shift_def physical_wait_def
        time_displacement_def mb_instantiate_def mb_serial_def mb_parallel_def push_composition_def
        loop_region_def leaf Let_def bind_eq_Some_conv dest: names split: if_splits prod.splits)
qed

lemma op_tree_instance:
  assumes "fst (snd (snd (rlabel (op_tree op T)))) = Some (CInstantiate t c)"
  obtains pv where "op = OpInstantiate t c pv"
  using assms by (cases op) auto

lemma precede_step:
  assumes "templates_precede b" "i < length (mb_nodes b)" "mb_inv b" "mb_label b' i = mb_label b i"
    and "prefix (mb_templates b) (mb_templates b')" "i < length (mb_nodes b')" "r \<in> set (instance_roots (mb_view 0 b') i)"
  shows "r < i"
proof -
  from assms(7) obtain t c where t: "ma_content_at (mb_view 0 b) i = Some (CInstantiate t c)"
      "r = unat (template_root (mb_templates b' ! unat t))"
    using assms(4) by (elim instance_rootsE) (simp add: ma_content_at_def)
  have "ma_node_ok (mb_view 0 b) (ma_nodes (mb_view 0 b) ! i)"
    using mb_inv_node [OF assms(3,2)] by (simp add: mb_node_ok_def)
  from content_template [OF this t(1)] have "mb_templates b' ! unat t = mb_templates b ! unat t"
    using assms(5) by (simp add: prefix_at)
  then have "r \<in> set (instance_roots (mb_view 0 b) i)" using t assms(2) by (simp add: instance_roots_def content_root_def)
  then show ?thesis using assms(1,2) by (auto simp: templates_precede_def)
qed

lemma precede_extends:
  assumes "templates_precede b" "mb_inv b" "mb_extends b b'" "mb_nodes b' = mb_nodes b"
  shows "templates_precede b'"
proof -
  have "prefix (mb_templates b) (mb_templates b')" using assms(3) by (simp add: mb_extends_def)
  then show ?thesis
    using precede_step [OF assms(1) _ assms(2)] extends_old(5) [OF assms(2,3)] assms(4)
    unfolding templates_precede_def by metis
qed

lemma built_precede: "built b \<Longrightarrow> templates_precede b"
proof (induction rule: built.induct)
  case new
  then show ?case by (simp add: templates_precede_def mb_new_def)
next
  case (op b op m b')
  have inv: "mb_inv b" "mb_small b" using built_inv [OF op.hyps(1)] by auto
  have add: "added b m b' (op_tree op (mb_tree b))"
    using apply_added [OF inv(1) op.hyps(2)] op.hyps(3,4) by auto
  have temps: "mb_templates b' = mb_templates b" using apply_templates [OF op.hyps(3)] .
  have new: "mb_label b' (length (mb_nodes b)) = rlabel (op_tree op (mb_tree b))"
    using add tree_label [of b' m] by (simp add: added_def)
  show ?case unfolding templates_precede_def
  proof (intro allI impI ballI)
    fix i r assume i: "i < length (mb_nodes b')" and r: "r \<in> set (instance_roots (mb_view 0 b') i)"
    show "r < i"
    proof (cases "i < length (mb_nodes b)")
      case True
      moreover have "mb_label b' i = mb_label b i"
        using same_labels [OF inv(1) _ inv(2) True] add by (simp add: added_def)
      ultimately show ?thesis using precede_step [OF op.IH _ inv(1) _ _ i r] temps by simp
    next
      case False
      then have i': "i = length (mb_nodes b)" using i add by (simp add: added_def)
      obtain t c where t: "ma_content_at (mb_view 0 b') i = Some (CInstantiate t c)"
          "r = unat (template_root (ma_templates (mb_view 0 b') ! unat t))" using instance_rootsE [OF r] by blast
      have "fst (snd (snd (rlabel (op_tree op (mb_tree b))))) = Some (CInstantiate t c)"
        using t(1) unfolding i' ma_content_at_def new .
      then obtain pv where "op = OpInstantiate t c pv" by (rule op_tree_instance)
      then have "unat t < length (mb_templates b)" using op.hyps(2) by simp
      then show ?thesis using mb_inv_templates [OF inv(1)] t(2) i' by (simp add: temps)
    qed
  qed
next
  case (provenance b p i b')
  then have b': "b' = b\<lparr>mb_provenance := mb_provenance b @ [p]\<rparr>" by (auto simp: intern_provenance_def)
  show ?case using precede_extends [OF provenance.IH] built_inv [OF provenance.hyps(1)] by (simp add: b' mb_extends_def)
next
  case (template b r t b')
  then have b': "b' = b\<lparr>mb_templates := mb_templates b @ [\<lparr>template_root = r\<rparr>]\<rparr>"
    by (auto simp: publish_template_def split: if_splits)
  show ?case using precede_extends [OF template.IH] built_inv [OF template.hyps(1)] by (simp add: b' mb_extends_def)
qed

lemma pruned_resolved:
  assumes "mb_inv b" "mb_small b" "marks_ok m b marks" "templates_precede b"
  shows "ma_resolved (pruned m b marks)"
proof -
  let ?a = "pruned m b marks"
  have "r < k" if k: "k < length (ma_nodes ?a)" and r: "r \<in> set (instance_roots ?a k)" for k r
  proof -
    from k obtain i where i: "i \<in> marked marks" "k = rank marks i" using pruned_index [of k marks] by auto
    then have n: "i < length (mb_nodes b)" using assms(3) by (auto simp: marked_def marks_ok_def)
    note lab = pruned_label_kids(1) [OF assms(1-3) i(1)]
    from r obtain t c where t: "ma_content_at (mb_view 0 b) i = Some (CInstantiate t c)"
        "r = unat (template_root (ma_templates ?a ! unat t))"
      unfolding i(2) by (elim instance_rootsE) (simp add: ma_content_at_def lab)
    have "ma_node_ok (mb_view 0 b) (ma_nodes (mb_view 0 b) ! i)"
      using mb_inv_node [OF assms(1) n] by (simp add: mb_node_ok_def)
    from content_template [OF this t(1)] have ut: "unat t < length (mb_templates b)" by simp
    let ?root = "template_root (mb_templates b ! unat t)"
    have "unat ?root \<in> set (instance_roots (mb_view 0 b) i)" using t(1) n by (simp add: instance_roots_def content_root_def)
    then have less: "unat ?root < i" using assms(4) n by (auto simp: templates_precede_def)
    have m: "unat ?root < length marks \<and> marks ! unat ?root" using marks_roots [OF assms(3)] ut by simp
    have "r = rank marks (unat ?root)" using t(2) ut unat_renamed [OF assms(2,3)] m by simp
    then show ?thesis using rank_strict [OF less] m i(2) by simp
  qed
  then show ?thesis
    using ma_deps_descending [OF pruned_descending [OF assms(1-3)]] pruned_wf [OF assms(1-3)]
    by (simp add: ma_resolved_def)
qed

lemma finish_resolved:
  assumes "built b" "mb_finish m b = Some (Inr a)" "unat m < length (mb_nodes b)"
  shows "ma_resolved a"
proof -
  have inv: "mb_inv b" "mb_small b" using built_inv [OF assms(1)] by auto
  from mb_finish_pruned [OF inv(1) assms(3) inv(2)] assms(2) obtain marks where "marks_ok m b marks" "a = pruned m b marks"
    by (metis option.inject res_bind_Inr_iff sum.inject(2))
  then show ?thesis using pruned_resolved [OF inv _ built_precede [OF assms(1)]] by simp
qed

section \<open>The shapes of a node\<close>

lemma node_access:
  assumes "ma_resolved a" "i < length (ma_nodes a)"
  shows "children_by_node a (ma_nodes a ! i) = Some (Inr (mn_slice a (ma_nodes a ! i)))"
    "ma_kids a i = map unat (mn_slice a (ma_nodes a ! i))"
    "\<forall>c\<in>set (mn_slice a (ma_nodes a ! i)). unat c < length (ma_nodes a)"
    "arity_ok (mn_kind (ma_nodes a ! i)) (length (mn_slice a (ma_nodes a ! i)))"
    "ma_label a i = (mn_kind (ma_nodes a ! i), mn_bounds a (ma_nodes a ! i), ma_content_at a i, mn_provenance (ma_nodes a ! i))"
proof -
  have ok: "ma_node_ok a (ma_nodes a ! i)" using assms by (simp add: ma_resolved_def ma_wf_def)
  then show "children_by_node a (ma_nodes a ! i) = Some (Inr (mn_slice a (ma_nodes a ! i)))"
    "\<forall>c\<in>set (mn_slice a (ma_nodes a ! i)). unat c < length (ma_nodes a)"
    by (simp_all add: ma_node_ok_def children_by_node_def slice_get_def mn_slice_def)
  from ok have "length (mn_slice a (ma_nodes a ! i)) = unat (mn_edge_count (ma_nodes a ! i))"
    by (auto simp: ma_node_ok_def mn_slice_def)
  then show "arity_ok (mn_kind (ma_nodes a ! i)) (length (mn_slice a (ma_nodes a ! i)))"
    using ok by (simp add: ma_node_ok_def)
  show "ma_kids a i = map unat (mn_slice a (ma_nodes a ! i))" using assms(2) by (simp add: ma_kids_def)
  show "ma_label a i = (mn_kind (ma_nodes a ! i), mn_bounds a (ma_nodes a ! i), ma_content_at a i, mn_provenance (ma_nodes a ! i))"
    by (simp add: ma_label_def ma_content_at_def Let_def)
qed

lemma node_payload_access:
  assumes "ma_resolved a" "i < length (ma_nodes a)"
  obtains payload where "node_payload a (ma_nodes a ! i) = Some (Inr payload)"
    "ma_content_at a i = map_option (ma_content a) payload"
    "payload_matches_kind (mn_kind (ma_nodes a ! i)) payload"
    "\<And>p. payload = Some p \<Longrightarrow> payload_refs_ok a p"
proof -
  have ok: "node_payload_ok a (ma_nodes a ! i)" using assms by (simp add: ma_resolved_def ma_wf_def ma_node_ok_def)
  show ?thesis
  proof (cases "mn_payload (ma_nodes a ! i)")
    case None
    then show ?thesis using ok
      by (intro that [of None]) (simp_all add: node_payload_def ma_content_at_def ma_label_def Let_def node_payload_ok_def)
  next
    case (Some p)
    then show ?thesis using ok
      by (intro that [of "Some (ma_payloads a ! unat p)"])
        (simp_all add: node_payload_def ma_content_at_def ma_label_def Let_def node_payload_ok_def)
  qed
qed

text \<open>One case per kind of node, with what the passes look up.\<close>

lemma node_shape:
  assumes "ma_resolved a" "i < length (ma_nodes a)"
  obtains
    (wait) d s where "mn_kind (ma_nodes a ! i) = MWait" "node_payload a (ma_nodes a ! i) = Some (Inr (Some (MpWait d s)))"
      "ma_content_at a i = Some (CWait d s)" "ma_deps a i = []"
  | (atomic) f start n args where "mn_kind (ma_nodes a ! i) = MAtomic"
      "node_payload a (ma_nodes a ! i) = Some (Inr (Some (MpAtomic f start n)))" "unat f < length (ma_operations a)"
      "ma_payload_arguments a (MpAtomic f start n) = Inr args"
      "ma_content_at a i = Some (CAtomic (ma_operations a ! unat f) args)" "ma_deps a i = []"
  | (opaque) d start n meta calls where "mn_kind (ma_nodes a ! i) = MOpaque"
      "node_payload a (ma_nodes a ! i) = Some (Inr (Some (MpOpaque d start n meta)))"
      "ma_content_at a i = Some (COpaque d calls meta)" "ma_deps a i = []"
  | (inst) t c where "mn_kind (ma_nodes a ! i) = MInstantiate"
      "node_payload a (ma_nodes a ! i) = Some (Inr (Some (MpInstantiate t c)))" "unat t < length (ma_templates a)"
      "ma_content_at a i = Some (CInstantiate t (ma_channels a ! unat c))"
      "ma_deps a i = [unat (template_root (ma_templates a ! unat t))]"
      "unat (template_root (ma_templates a ! unat t)) < length (ma_nodes a)"
  | (definition_ref) f start n args where "mn_kind (ma_nodes a ! i) = MDefinitionRef"
      "node_payload a (ma_nodes a ! i) = Some (Inr (Some (MpDefinitionRef f start n)))" "unat f < length (ma_definitions a)"
      "ma_content_at a i = Some (CDefinitionRef (ma_definitions a ! unat f) args)" "ma_deps a i = []"
  | (serial) "mn_kind (ma_nodes a ! i) = MSerial" "node_payload a (ma_nodes a ! i) = Some (Inr None)"
      "ma_deps a i = map unat (mn_slice a (ma_nodes a ! i))" "mn_slice a (ma_nodes a ! i) \<noteq> []"
  | (parallel) "mn_kind (ma_nodes a ! i) = MParallel" "node_payload a (ma_nodes a ! i) = Some (Inr None)"
      "ma_deps a i = map unat (mn_slice a (ma_nodes a ! i))" "mn_slice a (ma_nodes a ! i) \<noteq> []"
  | (loop) n body where "mn_kind (ma_nodes a ! i) = MLoop" "node_payload a (ma_nodes a ! i) = Some (Inr (Some (MpLoop n)))"
      "ma_content_at a i = Some (CLoop n)" "mn_slice a (ma_nodes a ! i) = [body]" "ma_deps a i = [unat body]"
  | (sync_phi) "mn_kind (ma_nodes a ! i) = MSyncPhi" "node_payload a (ma_nodes a ! i) = Some (Inr None)" "ma_deps a i = []"
proof -
  let ?n = "ma_nodes a ! i"
  obtain payload where p: "node_payload a ?n = Some (Inr payload)" "ma_content_at a i = map_option (ma_content a) payload"
      "payload_matches_kind (mn_kind ?n) payload" "\<And>p. payload = Some p \<Longrightarrow> payload_refs_ok a p"
    using node_payload_access [OF assms] by metis
  note acc = node_access [OF assms]
  have deps: "ma_deps a i = map unat (mn_slice a ?n) @ content_root a (ma_content_at a i)"
    using assms(2) acc(2) by (simp add: ma_deps_def instance_roots_def)
  show ?thesis
  proof (cases payload)
    case None
    have ne: "mn_kind ?n \<in> {MSerial, MParallel} \<Longrightarrow> mn_slice a ?n \<noteq> []" using acc(4) by (auto simp: arity_ok_def)
    show ?thesis using None p acc(4) deps serial parallel sync_phi ne
      by (cases "mn_kind ?n") (auto simp: payload_matches_kind_def arity_ok_def content_root_def)
  next
    case (Some q)
    note refs = p(4) [OF Some]
    show ?thesis
    proof (cases q)
      case (MpWait d s)
      with Some p(3) have k: "mn_kind ?n = MWait" by (cases "mn_kind ?n") (simp_all add: payload_matches_kind_def)
      then show ?thesis using wait [of d s] MpWait Some p acc(4) deps by (simp add: ma_content_def content_root_def arity_ok_def)
    next
      case (MpAtomic f start n)
      with Some p(3) have k: "mn_kind ?n = MAtomic" by (cases "mn_kind ?n") (simp_all add: payload_matches_kind_def)
      then show ?thesis using atomic [of f start n] MpAtomic Some p acc(4) deps refs
        by (simp add: ma_content_def content_root_def arity_ok_def payload_refs_ok_def ma_payload_arguments_def slice_get_def)
    next
      case (MpOpaque d start n meta)
      with Some p(3) have k: "mn_kind ?n = MOpaque" by (cases "mn_kind ?n") (simp_all add: payload_matches_kind_def)
      then show ?thesis using opaque [of d start n meta] MpOpaque Some p acc(4) deps by (simp add: ma_content_def content_root_def arity_ok_def)
    next
      case (MpInstantiate t c)
      with Some p(3) have k: "mn_kind ?n = MInstantiate" by (cases "mn_kind ?n") (simp_all add: payload_matches_kind_def)
      have t: "unat t < length (ma_templates a)" using refs MpInstantiate by (simp add: payload_refs_ok_def)
      then have "unat (template_root (ma_templates a ! unat t)) < length (ma_nodes a)"
        using assms(1) by (simp add: ma_resolved_def ma_wf_def)
      then show ?thesis using inst [of t c] MpInstantiate Some p acc(4) deps k t
        by (simp add: ma_content_def content_root_def arity_ok_def)
    next
      case (MpDefinitionRef f start n)
      with Some p(3) have k: "mn_kind ?n = MDefinitionRef" by (cases "mn_kind ?n") (simp_all add: payload_matches_kind_def)
      then show ?thesis using definition_ref [of f start n] MpDefinitionRef Some p acc(4) deps refs
        by (simp add: ma_content_def content_root_def arity_ok_def payload_refs_ok_def)
    next
      case (MpLoop n)
      with Some p(3) have k: "mn_kind ?n = MLoop" by (cases "mn_kind ?n") (simp_all add: payload_matches_kind_def)
      then obtain body where "mn_slice a ?n = [body]" using acc(4) by (auto simp: arity_ok_def length_Suc_conv)
      then show ?thesis using loop [of n body] MpLoop Some p deps k by (simp add: ma_content_def content_root_def)
    qed
  qed
qed

end
