(* ===== verification/Epoch_Soundness.thy ===== *)
theory Epoch_Soundness
  imports Resolved_Arena
begin

text \<open>
  What \<open>analyze_epochs\<close> computes: the number of global synchronisations that every way through a node crosses.
\<close>

section \<open>Epochs\<close>

definition content_syncs :: "target_profile \<Rightarrow> morphism_content option \<Rightarrow> int" where
  "content_syncs target content =
     (case content of
        Some (CAtomic name _) \<Rightarrow>
          (case tp_operations target name of
             Some schema \<Rightarrow> if ats_lowering schema = GlobalSync then 1 else 0
           | None \<Rightarrow> 0)
      | _ \<Rightarrow> 0)"

definition sync_alg :: "target_profile \<Rightarrow> morphism_label \<Rightarrow> int list \<Rightarrow> oasm_compile_error + int" where
  "sync_alg target l vs =
     (case l of (kind, _, content, _) \<Rightarrow>
        (case kind of
           MAtomic \<Rightarrow> Inr (content_syncs target content)
         | MInstantiate \<Rightarrow> Inr (hd vs)
         | MSerial \<Rightarrow> ok_or SyncCountOverflow (checked 0 u32_max (sum_list vs))
         | MParallel \<Rightarrow> if \<forall>n\<in>set vs. n = hd vs then Inr (hd vs) else Inl ParallelEpochMismatch
         | MLoop \<Rightarrow> if hd vs = 0 then Inr 0 else Inl LoopWithSync
         | _ \<Rightarrow> Inr 0))"

abbreviation u32r :: "int \<Rightarrow> bool" where "u32r \<equiv> in_range 0 u32_max"

lemma serial_syncs_sum:
  assumes "\<forall>c\<in>set cs. unat c < length counts \<and> u32r (counts ! unat c)" "u32r count"
  shows "serial_syncs counts count cs
    = Some (ok_or SyncCountOverflow (checked 0 u32_max (count + sum_list (map (\<lambda>c. counts ! unat c) cs))))"
  using assms
proof (induction cs arbitrary: count)
  case (Cons c cs)
  have "0 \<le> sum_list (map (\<lambda>c. counts ! unat c) cs)" using Cons.prems(1) by (auto simp: in_range_def intro!: sum_list_nonneg)
  then show ?case
    using Cons by (cases "u32r (count + counts ! unat c)") (auto simp: checked_def in_range_def add.assoc)
qed (simp add: checked_def)

lemma any_differs_iff:
  "\<forall>c\<in>set cs. unat c < length counts \<Longrightarrow>
     any_differs counts first cs = Some (Inr (\<exists>c\<in>set cs. counts ! unat c \<noteq> first))"
  by (induction cs) auto

lemma parallel_syncs_eq:
  "\<forall>c\<in>set cs. unat c < length counts \<Longrightarrow> cs \<noteq> [] \<Longrightarrow>
     parallel_syncs counts cs = Some (sync_alg target (MParallel, bs, content, pv) (map (\<lambda>c. counts ! unat c) cs))"
  by (cases cs) (auto simp: any_differs_iff sync_alg_def)

text \<open>The nodes of an arena whose templates resolve; the passes say nothing about others.\<close>

definition resolved_nodes :: "morphism_arena \<Rightarrow> morphism_node list" where
  "resolved_nodes a = (if ma_resolved a then ma_nodes a else [])"

definition resolved_deps :: "morphism_arena \<Rightarrow> nat \<Rightarrow> nat list" where
  "resolved_deps a = (if ma_resolved a then ma_deps a else (\<lambda>_. []))"

lemma resolved_simps [simp]:
  "ma_resolved a \<Longrightarrow> resolved_nodes a = ma_nodes a" "ma_resolved a \<Longrightarrow> resolved_deps a = ma_deps a"
  by (simp_all add: resolved_nodes_def resolved_deps_def)

lemma resolved_descending: "descending (resolved_deps a)"
  by (simp add: resolved_deps_def ma_resolved_def) (simp add: descending_def)

lemma resolved_index: "i < length (resolved_nodes a) \<Longrightarrow> ma_resolved a \<and> i < length (ma_nodes a)"
  by (simp add: resolved_nodes_def split: if_splits)

lemma epoch_node_alg:
  assumes a: "ma_resolved a" "i < length (ma_nodes a)" and counts: "length counts = length (ma_nodes a)"
    and good: "\<forall>j\<in>set (ma_deps a i). u32r (counts ! j)"
  shows "epoch_node target a counts i (ma_nodes a ! i) = Some (sync_alg target (ma_label a i) (map (\<lambda>j. counts ! j) (ma_deps a i)))"
  using a
proof (cases rule: node_shape)
  case serial
  have "u32r 0" by (simp add: in_range_def u32_max_def)
  with serial show ?thesis
    using node_access [OF a] good counts serial_syncs_sum [of "mn_slice a (ma_nodes a ! i)" counts 0]
    by (simp add: epoch_node_def sync_alg_def comp_def)
next
  case parallel
  then show ?thesis
    using node_access [OF a] counts
    by (simp add: epoch_node_def comp_def parallel_syncs_eq [of _ _ target _ "ma_content_at a i"])
next
  case (loop n body)
  then show ?thesis using node_access [OF a] counts by (simp add: epoch_node_def sync_alg_def)
qed (use node_access [OF a] counts in \<open>simp_all add: epoch_node_def sync_alg_def content_syncs_def\<close>)

lemma sync_alg_good:
  assumes a: "ma_resolved a" "i < length (ma_nodes a)" and vs: "length vs = length (ma_deps a i)" "list_all u32r vs"
    and alg: "sync_alg target (ma_label a i) vs = Inr v"
  shows "u32r v"
proof -
  have hd: "vs \<noteq> [] \<Longrightarrow> u32r (hd vs)" using vs(2) by (cases vs) auto
  have c: "u32r (content_syncs target c)" for c
    by (auto simp: content_syncs_def in_range_def u32_max_def split: option.splits morphism_content.splits)
  have z: "u32r 0" by (simp add: in_range_def u32_max_def)
  have "mn_kind (ma_nodes a ! i) \<in> {MInstantiate, MParallel} \<Longrightarrow> vs \<noteq> []"
    using a vs(1) by (cases rule: node_shape) auto
  then show ?thesis
    using alg hd c z node_access(5) [OF a]
    by (cases "mn_kind (ma_nodes a ! i)") (auto simp: sync_alg_def split: if_splits)
qed

interpretation epochs: dag_pass "ma_label a" "resolved_deps a" u32r "sync_alg target" "epoch_node target a" "resolved_nodes a"
  for a target
proof unfold_locales
  show "descending (resolved_deps a)" by (rule resolved_descending)
next
  fix counts i assume h: "length counts = length (resolved_nodes a)" "i < length (resolved_nodes a)"
    "\<forall>j\<in>set (resolved_deps a i). u32r (counts ! j)"
  then have r: "ma_resolved a" "i < length (ma_nodes a)" using resolved_index by blast+
  show "epoch_node target a counts i (resolved_nodes a ! i)
      = Some (sync_alg target (ma_label a i) (map (\<lambda>j. counts ! j) (resolved_deps a i)))"
    using h epoch_node_alg [OF r] by (simp add: r(1))
next
  fix i vs v assume h: "i < length (resolved_nodes a)" "length vs = length (resolved_deps a i)" "list_all u32r vs"
    and alg: "sync_alg target (ma_label a i) vs = Inr v"
  then have r: "ma_resolved a" "i < length (ma_nodes a)" using resolved_index by blast+
  show "u32r v" using sync_alg_good [OF r _ h(3) alg] h(2) by (simp add: r(1))
qed

text \<open>
  The reference: the numbers of global synchronisations that a way through a morphism may cross.  A
  parallel composition is left through any branch.
\<close>

inductive crosses :: "target_profile \<Rightarrow> morphism_label rtree \<Rightarrow> int \<Rightarrow> bool" for target where
  leaf: "kind \<notin> {MSerial, MParallel, MLoop, MInstantiate} \<Longrightarrow>
    crosses target (RNode (kind, bs, content, pv) ts) (if kind = MAtomic then content_syncs target content else 0)"
| inner: "kind \<in> {MParallel, MLoop, MInstantiate} \<Longrightarrow> t \<in> set ts \<Longrightarrow> crosses target t n \<Longrightarrow>
    crosses target (RNode (kind, bs, content, pv) ts) n"
| serial: "list_all2 (crosses target) ts ns \<Longrightarrow> crosses target (RNode (MSerial, bs, content, pv) ts) (sum_list ns)"

inductive_simps crosses_node: "crosses target (RNode (kind, bs, content, pv) ts) n"

lemma crosses_serial_unique:
  assumes "list_all2 (\<lambda>t v. \<forall>k. crosses target t k \<longleftrightarrow> k = v) ts vs"
  shows "list_all2 (crosses target) ts ns \<longleftrightarrow> ns = vs"
  using assms
proof (induction ts vs arbitrary: ns rule: list_all2_induct)
  case (Cons t ts v vs)
  then show ?case by (cases ns) auto
qed simp

text \<open>The ways through a node, given those through the nodes it depends on.\<close>

lemma crosses_step:
  assumes a: "ma_resolved a" "i < length (ma_nodes a)"
    and kids: "list_all2 (\<lambda>t v. \<forall>k. crosses target t k \<longleftrightarrow> k = v) (map (expanded_tree a) (ma_deps a i)) vs"
  shows "crosses target (expanded_tree a i) k \<longleftrightarrow>
    (case mn_kind (ma_nodes a ! i) of
       MAtomic \<Rightarrow> k = content_syncs target (ma_content_at a i)
     | MSerial \<Rightarrow> k = sum_list vs
     | MParallel \<Rightarrow> k \<in> set vs
     | MLoop \<Rightarrow> k \<in> set vs
     | MInstantiate \<Rightarrow> k \<in> set vs
     | _ \<Rightarrow> k = 0)"
proof -
  have some: "(\<exists>t\<in>set (map (expanded_tree a) (ma_deps a i)). crosses target t k) \<longleftrightarrow> k \<in> set vs"
    using kids by (induction rule: list_all2_induct) auto
  have "expanded_tree a i = RNode (ma_label a i) (map (expanded_tree a) (ma_deps a i))"
    unfolding expanded_tree_def using a(1) by (intro tree_at_unfold) (simp add: ma_resolved_def)
  then show ?thesis
    using some crosses_serial_unique [OF kids] node_access(5) [OF a]
    by (cases "mn_kind (ma_nodes a ! i)") (auto simp: crosses_node)
qed

lemma sync_alg_parallel:
  "sync_alg target (MParallel, bs, content, pv) vs = Inr m \<Longrightarrow> (\<forall>n\<in>set vs. n = m) \<and> m = hd vs"
  by (cases "\<forall>n\<in>set vs. n = hd vs") (simp_all add: sync_alg_def)

lemma crosses_exact:
  assumes a: "ma_resolved a"
  shows "i < length (ma_nodes a) \<Longrightarrow> tree_fold (sync_alg target) (expanded_tree a i) = Inr m \<Longrightarrow>
    crosses target (expanded_tree a i) k \<longleftrightarrow> k = m"
proof (induction i arbitrary: m k rule: less_induct)
  case (less i)
  have desc: "descending (ma_deps a)" using a by (simp add: ma_resolved_def)
  have "expanded_tree a i = RNode (ma_label a i) (map (expanded_tree a) (ma_deps a i))"
    unfolding expanded_tree_def using desc by (rule tree_at_unfold)
  with less.prems(2) obtain vs where vs: "list_all2 (\<lambda>t v. tree_fold (sync_alg target) t = Inr v) (map (expanded_tree a) (ma_deps a i)) vs"
      "sync_alg target (ma_label a i) vs = Inr m"
    by (auto simp: res_simps)
  then have kids: "list_all2 (\<lambda>t v. \<forall>k. crosses target t k \<longleftrightarrow> k = v) (map (expanded_tree a) (ma_deps a i)) vs"
    using less.IH descendingD [OF desc] less.prems(1)
    by (auto simp: list_all2_conv_all_nth dest!: nth_mem)
  have len: "length vs = length (ma_deps a i)" using vs(1) by (simp add: list_all2_lengthD [symmetric])
  note step = crosses_step [OF a less.prems(1) kids] and lab = node_access(5) [OF a less.prems(1)]
  from a less.prems(1) show ?case
  proof (cases rule: node_shape)
    case parallel
    then have "hd vs \<in> set vs" using len by (cases vs) auto
    moreover have "(\<forall>n\<in>set vs. n = m) \<and> m = hd vs" using vs(2) parallel(1) sync_alg_parallel by (simp add: lab)
    ultimately have "k \<in> set vs \<longleftrightarrow> k = m" by blast
    then show ?thesis using parallel(1) by (simp add: step)
  next
    case (inst t c)
    then show ?thesis using vs(2) lab len by (auto simp: step sync_alg_def length_Suc_conv)
  next
    case (loop n body)
    then show ?thesis using vs(2) lab len by (auto simp: step sync_alg_def length_Suc_conv split: if_splits)
  qed (use vs(2) in \<open>simp_all add: step sync_alg_def lab\<close>, auto?)
qed

text \<open>What an error of the pass says about the tree of a node.\<close>

definition epoch_fault :: "target_profile \<Rightarrow> oasm_compile_error \<Rightarrow> morphism_label rtree \<Rightarrow> bool" where
  "epoch_fault target e t =
     (case e of
        ParallelEpochMismatch \<Rightarrow> \<exists>k k'. crosses target t k \<and> crosses target t k' \<and> k \<noteq> k'
      | LoopWithSync \<Rightarrow> fst (rlabel t) = MLoop \<and> (\<exists>k. crosses target t k \<and> k \<noteq> 0)
      | SyncCountOverflow \<Rightarrow> \<exists>k. crosses target t k \<and> u32_max < k
      | _ \<Rightarrow> False)"

lemma expanded_unfold:
  "ma_resolved a \<Longrightarrow> expanded_tree a i = RNode (ma_label a i) (map (expanded_tree a) (ma_deps a i))"
  unfolding expanded_tree_def by (rule tree_at_unfold) (simp add: ma_resolved_def)

lemma epoch_error_fault:
  assumes a: "ma_resolved a" "i < length (ma_nodes a)"
    and ok: "\<forall>j<i. \<exists>v. tree_fold (sync_alg target) (expanded_tree a j) = Inr v \<and> u32r v"
    and err: "tree_fold (sync_alg target) (expanded_tree a i) = Inl e"
  shows "epoch_fault target e (expanded_tree a i)"
proof -
  have desc: "descending (ma_deps a)" using a(1) by (simp add: ma_resolved_def)
  from ok have "\<exists>v. \<forall>j<i. tree_fold (sync_alg target) (expanded_tree a j) = Inr (v j) \<and> u32r (v j)" by metis
  then obtain v where v: "\<And>j. j < i \<Longrightarrow> tree_fold (sync_alg target) (expanded_tree a j) = Inr (v j) \<and> u32r (v j)" by blast
  let ?vs = "map v (ma_deps a i)"
  have "res_traverse (tree_fold (sync_alg target)) (map (expanded_tree a) (ma_deps a i)) = Inr ?vs"
    using v descendingD [OF desc] by (auto simp: res_traverse_map intro!: res_traverse_Inr_total)
  then have alg: "sync_alg target (ma_label a i) ?vs = Inl e"
    using err by (simp add: expanded_unfold [OF a(1), of i])
  have kids: "list_all2 (\<lambda>t v. \<forall>k. crosses target t k \<longleftrightarrow> k = v) (map (expanded_tree a) (ma_deps a i)) ?vs"
    using v descendingD [OF desc] crosses_exact [OF a(1)] a(2)
    by (auto simp: list_all2_conv_all_nth) (metis less_trans nth_mem)+
  note step = crosses_step [OF a kids]
  have lab: "fst (rlabel (expanded_tree a i)) = mn_kind (ma_nodes a ! i)"
    using expanded_unfold [OF a(1), of i] node_access(5) [OF a] by simp
  have nonneg: "0 \<le> sum_list ?vs"
    using v descendingD [OF desc] by (intro sum_list_nonneg) (auto simp: in_range_def)
  from a show ?thesis
  proof (cases rule: node_shape)
    case serial
    then show ?thesis using alg node_access(5) [OF a] nonneg
      by (auto simp: sync_alg_def epoch_fault_def step checked_def in_range_def split: if_splits)
  next
    case parallel
    then have hd: "hd ?vs \<in> set ?vs" by (intro hd_in_set) simp
    have "e = ParallelEpochMismatch" "\<exists>n\<in>set ?vs. n \<noteq> hd ?vs"
      using parallel alg node_access(5) [OF a] by (simp_all add: sync_alg_def split: if_splits)
    moreover have "crosses target (expanded_tree a i) k \<longleftrightarrow> k \<in> set ?vs" for k using step parallel by simp
    ultimately show ?thesis using hd by (auto simp: epoch_fault_def simp del: set_map)
  next
    case (loop n body)
    then show ?thesis using alg node_access(5) [OF a] by (auto simp: sync_alg_def epoch_fault_def step lab split: if_splits)
  qed (use alg node_access(5) [OF a] in \<open>auto simp: sync_alg_def\<close>)
qed

section \<open>Properties\<close>


text \<open>A loop of five physical waits of a hundred cycles, at one source location.\<close>

definition pause_builder :: morphism_builder where
  "pause_builder = snd (loop_region 0 1 0 (snd (physical_wait 0 0 (snd (intern_provenance \<lparr>prov_owner = ''main'', prov_line = 1, prov_column = 0\<rparr> mb_new)))))"

definition pause_values :: value_expr_arena where
  "pause_values = snd (ve_leaf KConstant TInt64 (PInt64 5) (snd (ve_leaf KConstant TInt64 (PInt64 100) ve_builder_new)))"

definition pause_program :: native_arenas where
  "pause_program = \<lparr>na_morphisms = mb_view 1 pause_builder, na_values = pause_values\<rparr>"

definition pause_target :: target_profile where
  "pause_target = \<lparr>tp_schema_version = 1, tp_rtmq_abi_version = 2, tp_clock_hz = 250000000, tp_duration_quantization = QStrict,
     tp_loop_timing = loop_timing_default, tp_boards = [], tp_operations = Map.empty\<rparr>"

lemmas pause_eval = pause_builder_def loop_region_def physical_wait_def time_displacement_def intern_provenance_def mb_new_def
  push_payload_def push_leaf_def push_node_def Let_def

lemma pause_built: "built pause_builder"
proof -
  let ?b1 = "snd (intern_provenance \<lparr>prov_owner = ''main'', prov_line = 1, prov_column = 0\<rparr> mb_new)"
  let ?b2 = "snd (physical_wait 0 0 ?b1)"
  have "built ?b1" by (rule built.provenance [OF built.new]) (rule surjective_pairing)
  then have "built ?b2"
    by (rule built.op [of _ "OpPhysicalWait 0 0" 0]) (simp_all add: pause_eval mb_small_def)
  then show ?thesis
    by (rule built.op [of _ "OpLoop 0 1 0" 1]) (simp_all add: pause_eval mb_small_def)
qed

lemma pause_valid: "ma_validate (mb_view 1 pause_builder) = Inr ()"
  by (subst ma_validate_iff)
    (simp_all add: pause_eval mb_view_def ma_wf_def ma_node_ok_def mn_slice_def arity_ok_def node_payload_ok_def
      payload_matches_kind_def payload_refs_ok_def)

lemma pause_finish: "mb_finish 1 pause_builder = Some (Inr (na_morphisms pause_program))"
  using pause_valid
  by (simp add: mb_finish_def pause_program_def pause_eval mb_view_def nth_opt_def mb_get_kids_def edges_of_def slice_get_def
      remap_id_def)


end
