(* ===== verification/Timing_Soundness.thy ===== *)
theory Timing_Soundness
  imports Epoch_Soundness
begin

text \<open>
  What \<open>analyze_timing\<close> computes: durations and frontiers of morphisms over unbounded integers, with rewinding
  loops unrolled, and the bounds that hold of them.
\<close>

section \<open>Timing of trees\<close>

lemma evaluated_ranges:
  "eval_cycles vals e = Inr n \<Longrightarrow> u64r n"
  "eval_duration_cycles vals e q = Inr n \<Longrightarrow> u64r n"
  "eval_duration_delta vals e q = Inr n \<Longrightarrow> i64 n"
  by (cases q; auto simp: eval_cycles_def eval_duration_cycles_def eval_duration_delta_def res_simps to_cycle_count_def
      to_cycle_count_rounded_def to_signed_cycle_delta_def to_signed_cycle_delta_rounded_def bind_eq_Some_conv
      split: if_splits)+

text \<open>The timing of a leaf, from the content of its label.\<close>

definition wait_row ::
  "target_profile \<Rightarrow> eval_result list \<Rightarrow> u32 \<Rightarrow> value_expr_id \<Rightarrow> wait_semantics \<Rightarrow> oasm_compile_error + node_timing" where
  "wait_row target vals pv duration semantics =
     res_bind (res_map_err (InvalidWait pv) (eval_duration_delta vals duration (tp_duration_quantization target))) (\<lambda>d.
       if semantics = PhysicalInterval \<and> d < 0 then Inl (NegativePhysicalInterval pv)
       else Inr \<lparr>nt_duration = d, nt_logical_duration = d, nt_frontier = max d 0, nt_logical_frontier = max d 0,
          nt_rewinds = d < 0\<rparr>)"

definition schema_length ::
  "target_profile \<Rightarrow> eval_result list \<Rightarrow> native_arenas \<Rightarrow> string \<Rightarrow> value_expr_id list \<Rightarrow> atomic_target_schema
     \<Rightarrow> oasm_compile_error + int" where
  "schema_length target vals program name args schema =
     (if ats_lowering schema = RwgInitialize \<and> Option.bind (nth_opt args 1) (bool_argument program) = Some True
      then Inr (tp_clock_hz target div 1000000)
      else case ats_fixed_duration_cycles schema of
        Some d \<Rightarrow> Inr d
      | None \<Rightarrow>
          (case ats_duration_argument schema of
             None \<Rightarrow> Inr 0
           | Some position \<Rightarrow>
               res_bind (ok_or (MissingDuration name) (nth_opt args position)) (\<lambda>d.
                 res_map_err (InvalidDuration name) (eval_duration_cycles vals d (tp_duration_quantization target)))))"

definition atomic_length ::
  "target_profile \<Rightarrow> eval_result list \<Rightarrow> native_arenas \<Rightarrow> string \<Rightarrow> value_expr_id list \<Rightarrow> oasm_compile_error + int" where
  "atomic_length target vals program name args =
     res_bind (ok_or (NoAtomicSchema name) (tp_operations target name)) (schema_length target vals program name args)"

definition fixed_row :: "oasm_compile_error \<Rightarrow> int \<Rightarrow> oasm_compile_error + node_timing" where
  "fixed_row too_large d = res_bind (ok_or too_large (checked_i64 d)) (\<lambda>d. Inr (same_timing d))"

fun serial_rows :: "node_timing \<Rightarrow> node_timing list \<Rightarrow> oasm_compile_error + node_timing" where
  "serial_rows acc [] = Inr acc"
| "serial_rows acc (row # rest) =
     res_bind (ok_or SerialOverflow (checked_i64 (nt_duration acc + nt_frontier row))) (\<lambda>f.
     res_bind (ok_or SerialOverflow (checked_i64 (nt_logical_duration acc + nt_logical_frontier row))) (\<lambda>lf.
     res_bind (ok_or SerialOverflow (checked_i64 (nt_duration acc + nt_duration row))) (\<lambda>d.
     res_bind (ok_or SerialOverflow (checked_i64 (nt_logical_duration acc + nt_logical_duration row))) (\<lambda>ld.
     serial_rows
       \<lparr>nt_duration = d, nt_logical_duration = ld, nt_frontier = max (nt_frontier acc) f,
        nt_logical_frontier = max (nt_logical_frontier acc) lf,
        nt_rewinds = (nt_rewinds acc \<or> nt_rewinds row)\<rparr> rest))))"

definition timing_alg ::
  "target_profile \<Rightarrow> eval_result list \<Rightarrow> native_arenas \<Rightarrow> morphism_label \<Rightarrow> node_timing list
     \<Rightarrow> oasm_compile_error + node_timing" where
  "timing_alg target vals program l rows =
     (case l of (kind, _, content, pv) \<Rightarrow>
        (case content of
           Some (CWait d s) \<Rightarrow> wait_row target vals pv d s
         | Some (CAtomic name args) \<Rightarrow> res_bind (atomic_length target vals program name args) (fixed_row (DurationTooLarge name))
         | Some (COpaque d _ _) \<Rightarrow>
             res_bind (res_map_err (InvalidOpaqueDuration pv) (eval_cycles vals d)) (fixed_row OpaqueDurationTooLarge)
         | Some (CInstantiate _ _) \<Rightarrow> Inr (hd rows)
         | Some (CDefinitionRef name _) \<Rightarrow> Inl (UnresolvedDefinition name)
         | Some (CLoop n) \<Rightarrow>
             res_bind (eval_cycles vals n) (\<lambda>count.
               if nt_rewinds (hd rows) then expanded_loop_timing count (hd rows)
               else hardware_loop_timing (tp_loop_timing target) count (hd rows))
         | None \<Rightarrow>
             if kind = MSerial then serial_rows (same_timing 0) rows
             else if kind = MParallel then Inr (parallel_timing rows)
             else Inl SyncPhiUnsupported))"

lemma serial_timing_rows:
  "\<forall>c\<in>set cs. unat c < length rows \<Longrightarrow>
     serial_timing rows acc cs = Some (serial_rows acc (map (\<lambda>c. rows ! unat c) cs))"
proof (induction cs arbitrary: acc)
  case (Cons c cs)
  then show ?case by (simp add: ok_or_def split: option.splits)
qed simp

definition provenance_ok :: "morphism_arena \<Rightarrow> bool" where
  "provenance_ok a \<longleftrightarrow> (\<forall>n\<in>set (ma_nodes a). unat (mn_provenance n) < length (ma_provenance a))"

lemma content_none:
  assumes "ma_resolved a" "i < length (ma_nodes a)" "node_payload a (ma_nodes a ! i) = Some (Inr None)"
  shows "ma_content_at a i = None"
proof -
  obtain payload where "node_payload a (ma_nodes a ! i) = Some (Inr payload)" "ma_content_at a i = map_option (ma_content a) payload"
    using node_payload_access [OF assms(1,2)] by metis
  then show ?thesis using assms(3) by simp
qed

lemma atomic_cycles_eq:
  assumes "ma_payload_arguments (na_morphisms program) payload = Inr args"
    and "unat (mn_provenance node) < length (ma_provenance (na_morphisms program))"
  shows "atomic_cycles target vals program node payload name schema = Some (schema_length target vals program name args schema)"
proof -
  have b: "atomic_bool_argument (na_morphisms program) payload program 1
      \<longleftrightarrow> Option.bind (nth_opt args 1) (bool_argument program) = Some True"
    using assms(1) by (auto simp: atomic_bool_argument_def split: option.splits)
  show ?thesis
  proof (cases "ats_fixed_duration_cycles schema")
    case None
    then show ?thesis
      using assms unfolding atomic_cycles_def schema_length_def b Let_def
      by (cases "ats_duration_argument schema") (simp_all add: u64_checked_div_def ok_or_def split: option.splits)
  next
    case (Some d)
    then show ?thesis unfolding atomic_cycles_def schema_length_def b Let_def by (simp add: u64_checked_div_def)
  qed
qed

lemma timing_node_alg:
  fixes program :: native_arenas
  defines "a \<equiv> na_morphisms program"
  assumes a: "ma_resolved a" "i < length (ma_nodes a)" and prov: "provenance_ok a" and rows: "length rows = length (ma_nodes a)"
  shows "timing_node target vals program rows i (ma_nodes a ! i)
    = Some (timing_alg target vals program (ma_label a i) (map (\<lambda>j. rows ! j) (ma_deps a i)))"
proof -
  note acc = node_access [OF a]
  have pv: "index_run (ma_provenance a) (unat (mn_provenance (ma_nodes a ! i))) =
      Some (Inr (ma_provenance a ! unat (mn_provenance (ma_nodes a ! i))))"
    using prov a(2) by (simp add: provenance_ok_def)
  from a show ?thesis
  proof (cases rule: node_shape)
    case (wait d s)
    then show ?thesis using acc(5)
      by (simp add: pv timing_node_def a_def [symmetric] timing_alg_def wait_timing_def wait_row_def res_bind_def res_map_err_def
          run_bind_def split: sum.splits)
  next
    case (atomic f start n args)
    have "unat (mn_provenance (ma_nodes a ! i)) < length (ma_provenance a)" using prov a(2) by (simp add: provenance_ok_def)
    note cycles = atomic_cycles_eq [OF atomic(4) [unfolded a_def] this [unfolded a_def], folded a_def]
    show ?thesis using atomic acc(5)
      by (simp add: timing_node_def a_def [symmetric] timing_alg_def atomic_timing_def cycles atomic_length_def fixed_row_def
          run_bind_def res_bind_def ok_or_def split: option.splits sum.splits)
  next
    case (opaque d start n meta calls)
    then show ?thesis using acc(5)
      by (simp add: pv timing_node_def a_def [symmetric] timing_alg_def opaque_timing_def fixed_row_def res_bind_def res_map_err_def
          run_bind_def split: sum.splits)
  next
    case (inst t c)
    then show ?thesis using acc(5) rows by (simp add: timing_node_def a_def [symmetric] timing_alg_def)
  next
    case (definition_ref f start n args)
    then show ?thesis using acc(5) by (simp add: timing_node_def a_def [symmetric] timing_alg_def)
  next
    case serial
    then show ?thesis using acc rows content_none [OF a serial(2)] serial_timing_rows [of "mn_slice a (ma_nodes a ! i)" rows "same_timing 0"]
      by (simp add: timing_node_def a_def [symmetric] timing_alg_def comp_def)
  next
    case parallel
    then show ?thesis using acc rows content_none [OF a parallel(2)]
      by (simp add: run_traverse_index timing_node_def a_def [symmetric] timing_alg_def comp_def)
  next
    case (loop n body)
    then show ?thesis using acc rows
      by (simp add: timing_node_def a_def [symmetric] timing_alg_def loop_node_timing_def res_bind_def run_bind_def split: sum.splits)
  next
    case sync_phi
    then show ?thesis using acc(5) content_none [OF a sync_phi(2)] by (simp add: timing_node_def a_def [symmetric] timing_alg_def)
  qed
qed

section \<open>Sound rows\<close>

definition sound_row :: "node_timing \<Rightarrow> bool" where
  "sound_row r \<longleftrightarrow> i64 (nt_duration r) \<and> i64 (nt_logical_duration r) \<and> i64 (nt_frontier r) \<and> i64 (nt_logical_frontier r)
     \<and> 0 \<le> nt_frontier r \<and> nt_duration r \<le> nt_frontier r \<and> 0 \<le> nt_logical_frontier r
     \<and> nt_logical_duration r \<le> nt_logical_frontier r
     \<and> (\<not> nt_rewinds r \<longrightarrow> nt_duration r = nt_frontier r \<and> nt_logical_duration r = nt_logical_frontier r)"

text \<open>What the unsigned fields of a target profile guarantee.\<close>

definition target_in_range :: "target_profile \<Rightarrow> bool" where
  "target_in_range target \<longleftrightarrow> 0 \<le> tp_clock_hz target
     \<and> (\<forall>name schema d. tp_operations target name = Some schema \<longrightarrow> ats_fixed_duration_cycles schema = Some d \<longrightarrow> 0 \<le> d)
     \<and> 0 \<le> fixed_overhead_cycles (tp_loop_timing target) \<and> 0 \<le> per_iteration_overhead_cycles (tp_loop_timing target)
     \<and> 0 \<le> large_count_iteration_overhead_cycles (tp_loop_timing target)"

definition then_timing :: "node_timing \<Rightarrow> node_timing \<Rightarrow> node_timing" where
  "then_timing r s =
     \<lparr>nt_duration = nt_duration r + nt_duration s,
      nt_logical_duration = nt_logical_duration r + nt_logical_duration s,
      nt_frontier = max (nt_frontier r) (nt_duration r + nt_frontier s),
      nt_logical_frontier = max (nt_logical_frontier r) (nt_logical_duration r + nt_logical_frontier s),
      nt_rewinds = (nt_rewinds r \<or> nt_rewinds s)\<rparr>"

definition serial_of :: "node_timing list \<Rightarrow> node_timing" where
  "serial_of rows = foldl then_timing (same_timing 0) rows"

lemma i64_max: "i64 x \<Longrightarrow> i64 y \<Longrightarrow> i64 (max x y)"
  by (auto simp: in_range_def)

lemma i64_zero [simp]: "i64 0"
  by (simp add: in_range_def int_limits)

lemma sound_same: "0 \<le> d \<Longrightarrow> i64 d \<Longrightarrow> sound_row (same_timing d)"
  by (simp add: sound_row_def same_timing_def)

lemma sound_then:
  assumes "sound_row r" "sound_row s" "i64 (nt_duration r + nt_frontier s)" "i64 (nt_duration r + nt_duration s)"
    "i64 (nt_logical_duration r + nt_logical_frontier s)" "i64 (nt_logical_duration r + nt_logical_duration s)"
  shows "sound_row (then_timing r s)"
  using assms by (auto simp: sound_row_def then_timing_def i64_max)

lemma serial_rows_sound:
  "sound_row acc \<Longrightarrow> list_all sound_row rows \<Longrightarrow> serial_rows acc rows = Inr v \<Longrightarrow>
     sound_row v \<and> v = foldl then_timing acc rows"
proof (induction rows arbitrary: acc)
  case (Cons row rows)
  have "then_timing acc row = \<lparr>nt_duration = nt_duration acc + nt_duration row,
      nt_logical_duration = nt_logical_duration acc + nt_logical_duration row,
      nt_frontier = max (nt_frontier acc) (nt_duration acc + nt_frontier row),
      nt_logical_frontier = max (nt_logical_frontier acc) (nt_logical_duration acc + nt_logical_frontier row),
      nt_rewinds = (nt_rewinds acc \<or> nt_rewinds row)\<rparr>" by (simp add: then_timing_def)
  with Cons.prems(3) have "serial_rows (then_timing acc row) rows = Inr v" "i64 (nt_duration acc + nt_frontier row)"
    "i64 (nt_duration acc + nt_duration row)" "i64 (nt_logical_duration acc + nt_logical_frontier row)"
    "i64 (nt_logical_duration acc + nt_logical_duration row)"
    by (auto simp: res_simps)
  then show ?case using Cons.IH [of "then_timing acc row"] sound_then [of acc row] Cons.prems(1,2) by auto
qed simp

lemma max_or_zero_Max: "xs \<noteq> [] \<Longrightarrow> max_or_zero xs = Max (set xs)"
proof (cases xs)
  case (Cons x ys)
  have "fold max ys x = Max (set (x # ys))"
    by (simp only: Max.set_eq_fold)
  then show ?thesis using Cons by (simp add: max_or_zero_def)
qed simp

lemma max_or_zero_in: "xs \<noteq> [] \<Longrightarrow> max_or_zero xs \<in> set xs"
  by (simp add: max_or_zero_Max)

lemma max_or_zero_mono:
  assumes "\<forall>r\<in>set rows. f r \<le> g r"
  shows "max_or_zero (map f rows) \<le> max_or_zero (map g rows)"
proof (cases "rows = []")
  case False
  then obtain r where "r \<in> set rows" "max_or_zero (map f rows) = f r" using max_or_zero_in [of "map f rows"] by auto
  then show ?thesis using assms False
    by (simp add: max_or_zero_Max [of "map g rows"]) (metis List.finite_set Max_ge finite_imageI imageI order_trans)
qed simp

lemma parallel_sound:
  assumes "list_all sound_row rows"
  shows "sound_row (parallel_timing rows)"
proof (cases "rows = []")
  case True
  then show ?thesis by (simp add: parallel_timing_def max_or_zero_def sound_row_def)
next
  case False
  have s: "sound_row r" if "r \<in> set rows" for r using assms that by (simp add: list_all_iff)
  have pick: "\<exists>r\<in>set rows. max_or_zero (map f rows) = f r" for f using max_or_zero_in [of "map f rows"] False by auto
  have le: "max_or_zero (map nt_duration rows) \<le> max_or_zero (map nt_frontier rows)"
    "max_or_zero (map nt_logical_duration rows) \<le> max_or_zero (map nt_logical_frontier rows)"
    using s by (intro max_or_zero_mono; simp add: sound_row_def)+
  have "\<not> list_ex nt_rewinds rows \<Longrightarrow> map nt_duration rows = map nt_frontier rows"
    "\<not> list_ex nt_rewinds rows \<Longrightarrow> map nt_logical_duration rows = map nt_logical_frontier rows"
    using s by (auto simp: list_ex_iff sound_row_def)
  then have eq: "\<not> list_ex nt_rewinds rows \<longrightarrow> max_or_zero (map nt_duration rows) = max_or_zero (map nt_frontier rows)
      \<and> max_or_zero (map nt_logical_duration rows) = max_or_zero (map nt_logical_frontier rows)" by metis
  have col: "P (max_or_zero (map f rows))" if "\<And>r. sound_row r \<Longrightarrow> P (f r)" for P f
    using pick [of f] s that by metis
  have "i64 (max_or_zero (map nt_duration rows))" "i64 (max_or_zero (map nt_logical_duration rows))"
    "i64 (max_or_zero (map nt_frontier rows))" "i64 (max_or_zero (map nt_logical_frontier rows))"
    "0 \<le> max_or_zero (map nt_frontier rows)" "0 \<le> max_or_zero (map nt_logical_frontier rows)"
    by (rule col, simp add: sound_row_def)+
  then show ?thesis using le eq by (simp add: sound_row_def parallel_timing_def)
qed

lemma unrolled:
  assumes "0 \<le> nt_frontier r" "0 \<le> nt_logical_frontier r"
  shows "serial_of (replicate (Suc n) r) =
    \<lparr>nt_duration = nt_duration r * (int n + 1), nt_logical_duration = nt_logical_duration r * (int n + 1),
     nt_frontier = (if nt_duration r \<ge> 0 then nt_duration r * int n else 0) + nt_frontier r,
     nt_logical_frontier = (if nt_logical_duration r \<ge> 0 then nt_logical_duration r * int n else 0) + nt_logical_frontier r,
     nt_rewinds = nt_rewinds r\<rparr>"
proof (induction n)
  case 0
  then show ?case using assms by (simp add: serial_of_def then_timing_def same_timing_def)
next
  case (Suc n)
  have "serial_of (xs @ [r]) = then_timing (serial_of xs) r" for xs by (simp add: serial_of_def)
  then have "serial_of (replicate (Suc (Suc n)) r) = then_timing (serial_of (replicate (Suc n) r)) r"
    by (metis replicate_Suc replicate_append_same)
  moreover have "nt_duration r < 0 \<Longrightarrow> nt_duration r * (int n + 1) \<le> 0" "nt_logical_duration r < 0 \<Longrightarrow> nt_logical_duration r * (int n + 1) \<le> 0"
    by (simp_all add: mult_nonpos_nonneg)
  ultimately show ?case using assms unfolding Suc by (auto simp: then_timing_def algebra_simps)
qed

lemma expanded_loop_sound:
  assumes "sound_row body" "u64r count" "nt_rewinds body" "expanded_loop_timing count body = Inr v"
  shows "sound_row v" "0 < count \<Longrightarrow> v = serial_of (replicate (nat count) body)"
proof -
  have c: "i64_saturating_sub count 1 = count - 1"
    using assms(2,4) by (auto simp: expanded_loop_timing_def res_simps i64_saturating_sub_def in_range_def int_limits)
  from assms(4) have v: "v = \<lparr>nt_duration = nt_duration body * count, nt_logical_duration = nt_logical_duration body * count,
       nt_frontier = (if nt_duration body \<ge> 0 then nt_duration body * (count - 1) else 0) + nt_frontier body,
       nt_logical_frontier = (if nt_logical_duration body \<ge> 0 then nt_logical_duration body * (count - 1) else 0) + nt_logical_frontier body,
       nt_rewinds = True\<rparr>" "i64 (nt_duration v)" "i64 (nt_logical_duration v)" "i64 (nt_frontier v)" "i64 (nt_logical_frontier v)"
    by (auto simp: expanded_loop_timing_def res_simps Let_def repeated_frontier_def c split: if_splits)
  have f: "0 \<le> (if d \<ge> 0 then d * (count - 1) else 0) + f \<and> d * count \<le> (if d \<ge> 0 then d * (count - 1) else 0) + f"
    if "0 \<le> f" "d \<le> f" for d f
  proof (cases "0 \<le> d")
    case True
    have "0 \<le> d * count" using True assms(2) by (simp add: in_range_def)
    then show ?thesis using that True by (simp add: algebra_simps)
  next
    case False
    then have "d * count \<le> 0" using assms(2) by (simp add: mult_nonpos_nonneg in_range_def)
    then show ?thesis using that False by simp
  qed
  show "sound_row v"
    using v(2-) f [of "nt_frontier body" "nt_duration body"] f [of "nt_logical_frontier body" "nt_logical_duration body"] assms(1)
    unfolding sound_row_def by (simp add: v(1))
  show "v = serial_of (replicate (nat count) body)" if "0 < count"
  proof -
    have n: "nat count = Suc (nat (count - 1))" "int (nat (count - 1)) = count - 1" using that by simp_all
    show ?thesis using unrolled [of body "nat (count - 1)"] assms(1,3) that unfolding n(1) by (simp add: v(1) sound_row_def)
  qed
qed

definition hardware_row :: "loop_timing \<Rightarrow> int \<Rightarrow> node_timing \<Rightarrow> node_timing" where
  "hardware_row timing count body =
     (let d = fixed_overhead_cycles timing + count * (nt_duration body + iteration_overhead timing count);
          ld = count * nt_logical_duration body
      in \<lparr>nt_duration = d, nt_logical_duration = ld, nt_frontier = d, nt_logical_frontier = ld, nt_rewinds = False\<rparr>)"

lemma hardware_loop_sound:
  assumes "sound_row body" "u64r count" "\<not> nt_rewinds body" "hardware_loop_timing (tp_loop_timing target) count body = Inr v"
    and "target_in_range target"
  shows "sound_row v" "v = hardware_row (tp_loop_timing target) count body"
proof -
  let ?d = "fixed_overhead_cycles (tp_loop_timing target) + (nt_duration body + iteration_overhead (tp_loop_timing target) count) * count"
    and ?ld = "nt_logical_duration body * count"
  from assms(4) have v: "v = \<lparr>nt_duration = ?d, nt_logical_duration = ?ld, nt_frontier = ?d, nt_logical_frontier = max ?ld 0, nt_rewinds = False\<rparr>"
      "i64 ?d" "i64 ?ld"
    by (auto simp: hardware_loop_timing_def res_simps)
  have body: "0 \<le> nt_duration body" "0 \<le> nt_logical_duration body" using assms(1,3) by (auto simp: sound_row_def)
  have over: "0 \<le> iteration_overhead (tp_loop_timing target) count" using assms(5) by (simp add: target_in_range_def iteration_overhead_def)
  have pos: "0 \<le> ?d" "0 \<le> ?ld" using body over assms(2,5) by (simp_all add: target_in_range_def in_range_def)
  show "v = hardware_row (tp_loop_timing target) count body" using v(1) pos by (simp add: hardware_row_def Let_def algebra_simps)
  show "sound_row v" using v pos by (simp add: sound_row_def)
qed

lemma atomic_length_range:
  assumes "target_in_range target" "atomic_length target vals program name args = Inr d"
  shows "0 \<le> d"
proof -
  from assms(2) obtain schema where s: "tp_operations target name = Some schema" "schema_length target vals program name args schema = Inr d"
    by (auto simp: atomic_length_def res_simps)
  have "u64r d" if "eval_duration_cycles vals e q = Inr d" for e q using evaluated_ranges(2) [OF that] .
  then show ?thesis
    using s assms(1) by (auto simp: schema_length_def target_in_range_def res_simps in_range_def split: if_splits option.splits)
qed

lemma fixed_row_sound: "0 \<le> d \<Longrightarrow> fixed_row e d = Inr v \<Longrightarrow> sound_row v \<and> v = same_timing d"
  by (auto simp: fixed_row_def res_simps sound_same)

lemma wait_row_sound:
  assumes "wait_row target vals pv e s = Inr v"
  shows "sound_row v"
proof -
  from assms obtain d where d: "eval_duration_delta vals e (tp_duration_quantization target) = Inr d"
    "v = \<lparr>nt_duration = d, nt_logical_duration = d, nt_frontier = max d 0, nt_logical_frontier = max d 0, nt_rewinds = d < 0\<rparr>"
    by (auto simp: wait_row_def res_simps split: if_splits)
  then show ?thesis using evaluated_ranges(3) [OF d(1)] by (simp add: sound_row_def i64_max)
qed

lemma timing_alg_good:
  fixes program :: native_arenas
  defines "a \<equiv> na_morphisms program"
  assumes a: "ma_resolved a" "i < length (ma_nodes a)" and target: "target_in_range target"
    and vs: "length vs = length (ma_deps a i)" "list_all sound_row vs"
    and alg: "timing_alg target vals program (ma_label a i) vs = Inr v"
  shows "sound_row v"
  using a
proof (cases rule: node_shape)
  case (wait d s)
  then show ?thesis using alg node_access(5) [OF a] wait_row_sound by (simp add: timing_alg_def)
next
  case (atomic f start n args)
  then obtain d where "atomic_length target vals program (ma_operations a ! unat f) args = Inr d"
      "fixed_row (DurationTooLarge (ma_operations a ! unat f)) d = Inr v"
    using alg node_access(5) [OF a] by (auto simp: timing_alg_def res_simps)
  then show ?thesis using atomic_length_range [OF target] fixed_row_sound by blast
next
  case (opaque d start n meta calls)
  then obtain k where "eval_cycles vals d = Inr k" "fixed_row OpaqueDurationTooLarge k = Inr v"
    using alg node_access(5) [OF a] by (auto simp: timing_alg_def res_simps)
  then show ?thesis using evaluated_ranges(1) fixed_row_sound by (metis in_range_def)
next
  case (inst t c)
  then show ?thesis using alg node_access(5) [OF a] vs by (cases vs) (auto simp: timing_alg_def)
next
  case (definition_ref f start n args)
  then show ?thesis using alg node_access(5) [OF a] by (simp add: timing_alg_def)
next
  case serial
  then show ?thesis using alg node_access(5) [OF a] content_none [OF a serial(2)] vs(2)
      serial_rows_sound [of "same_timing 0" vs v] by (auto simp: timing_alg_def sound_same)
next
  case parallel
  then show ?thesis using alg node_access(5) [OF a] content_none [OF a parallel(2)] vs(2) parallel_sound [of vs]
    by (simp add: timing_alg_def)
next
  case (loop n body)
  with vs obtain r where r: "vs = [r]" "sound_row r" by (auto simp: length_Suc_conv)
  from loop alg node_access(5) [OF a] r(1) obtain k where k: "eval_cycles vals n = Inr k"
      "(if nt_rewinds r then expanded_loop_timing k r else hardware_loop_timing (tp_loop_timing target) k r) = Inr v"
    by (auto simp: timing_alg_def res_simps cong del: if_weak_cong)
  note u = evaluated_ranges(1) [OF k(1)]
  show ?thesis
  proof (cases "nt_rewinds r")
    case True
    with k(2) show ?thesis using expanded_loop_sound(1) [OF r(2) u True] by simp
  next
    case False
    with k(2) show ?thesis using hardware_loop_sound(1) [OF r(2) u False _ target] by simp
  qed
next
  case sync_phi
  then show ?thesis using alg node_access(5) [OF a] content_none [OF a sync_phi(2)] by (simp add: timing_alg_def)
qed

definition timing_nodes :: "target_profile \<Rightarrow> morphism_arena \<Rightarrow> morphism_node list" where
  "timing_nodes target a = (if target_in_range target \<and> provenance_ok a then resolved_nodes a else [])"

lemma timing_nodes_eq: "ma_resolved a \<Longrightarrow> provenance_ok a \<Longrightarrow> target_in_range target \<Longrightarrow> timing_nodes target a = ma_nodes a"
  by (simp add: timing_nodes_def)

lemma timing_index:
  assumes "i < length (timing_nodes target a)"
  shows "ma_resolved a" "i < length (ma_nodes a)" "provenance_ok a" "target_in_range target"
  using assms by (auto simp: timing_nodes_def resolved_nodes_def split: if_splits)

interpretation timing: dag_pass "ma_label (na_morphisms program)" "resolved_deps (na_morphisms program)" sound_row
    "timing_alg target vals program" "timing_node target vals program" "timing_nodes target (na_morphisms program)"
  for program target vals
proof unfold_locales
  show "descending (resolved_deps (na_morphisms program))" by (rule resolved_descending)
next
  fix rows :: "node_timing list" and i
  assume h: "length rows = length (timing_nodes target (na_morphisms program))"
    "i < length (timing_nodes target (na_morphisms program))"
  note r = timing_index [OF h(2)]
  show "timing_node target vals program rows i (timing_nodes target (na_morphisms program) ! i)
      = Some (timing_alg target vals program (ma_label (na_morphisms program) i)
          (map (\<lambda>j. rows ! j) (resolved_deps (na_morphisms program) i)))"
    using timing_node_alg [OF r(1,2,3)] h(1) by (simp add: timing_nodes_eq [OF r(1,3,4)] r(1))
next
  fix i vs v assume h: "i < length (timing_nodes target (na_morphisms program))"
    "length vs = length (resolved_deps (na_morphisms program) i)" "list_all sound_row vs"
    and alg: "timing_alg target vals program (ma_label (na_morphisms program) i) vs = Inr v"
  note r = timing_index [OF h(1)]
  show "sound_row v" using timing_alg_good [OF r(1,2,4) _ h(3) alg] h(2) by (simp add: r(1))
qed

text \<open>
  The reference: the timing of a morphism.  A loop whose body rewinds the cursor is the serial composition of its
  iterations; other loops run in hardware.  A morphism has a timing only if the cycles of its leaves, the number of
  iterations of its loops, the timing of every prefix of its serial compositions and the timing of its loops are
  numbers of 64 bits.
\<close>

definition parallel_of :: "node_timing list \<Rightarrow> node_timing" where
  "parallel_of rows =
     \<lparr>nt_duration = Max (nt_duration ` set rows), nt_logical_duration = Max (nt_logical_duration ` set rows),
      nt_frontier = Max (nt_frontier ` set rows), nt_logical_frontier = Max (nt_logical_frontier ` set rows),
      nt_rewinds = (\<exists>row\<in>set rows. nt_rewinds row)\<rparr>"

lemma parallel_timing_of: "rows \<noteq> [] \<Longrightarrow> parallel_timing rows = parallel_of rows"
  by (simp add: parallel_timing_def parallel_of_def max_or_zero_Max list_ex_iff)

definition row_in_i64 :: "node_timing \<Rightarrow> bool" where
  "row_in_i64 r \<longleftrightarrow> i64 (nt_duration r) \<and> i64 (nt_logical_duration r) \<and> i64 (nt_frontier r) \<and> i64 (nt_logical_frontier r)"

inductive has_timing :: "target_profile \<Rightarrow> eval_result list \<Rightarrow> native_arenas \<Rightarrow> morphism_label rtree \<Rightarrow> node_timing \<Rightarrow> bool"
  for target vals program where
  wait: "eval_duration_delta vals e (tp_duration_quantization target) = Inr d \<Longrightarrow> (s = PhysicalInterval \<longrightarrow> 0 \<le> d) \<Longrightarrow>
    has_timing target vals program (RNode (MWait, bs, Some (CWait e s), pv) [])
      \<lparr>nt_duration = d, nt_logical_duration = d, nt_frontier = max d 0, nt_logical_frontier = max d 0, nt_rewinds = d < 0\<rparr>"
| atomic: "atomic_length target vals program name args = Inr d \<Longrightarrow> i64 d \<Longrightarrow>
    has_timing target vals program (RNode (MAtomic, bs, Some (CAtomic name args), pv) []) (same_timing d)"
| opaque: "eval_cycles vals e = Inr d \<Longrightarrow> i64 d \<Longrightarrow>
    has_timing target vals program (RNode (MOpaque, bs, Some (COpaque e calls meta), pv) []) (same_timing d)"
| inst: "has_timing target vals program t r \<Longrightarrow>
    has_timing target vals program (RNode (MInstantiate, bs, Some (CInstantiate template channel), pv) [t]) r"
| serial: "list_all2 (has_timing target vals program) ts rs \<Longrightarrow> \<forall>k\<le>length rs. row_in_i64 (serial_of (take k rs)) \<Longrightarrow>
    has_timing target vals program (RNode (MSerial, bs, None, pv) ts) (serial_of rs)"
| parallel: "list_all2 (has_timing target vals program) ts rs \<Longrightarrow> rs \<noteq> [] \<Longrightarrow>
    has_timing target vals program (RNode (MParallel, bs, None, pv) ts) (parallel_of rs)"
| expanded: "eval_cycles vals n = Inr count \<Longrightarrow> 0 < count \<Longrightarrow> i64 count \<Longrightarrow> has_timing target vals program t r \<Longrightarrow> nt_rewinds r \<Longrightarrow>
    row_in_i64 (serial_of (replicate (nat count) r)) \<Longrightarrow>
    has_timing target vals program (RNode (MLoop, bs, Some (CLoop n), pv) [t]) (serial_of (replicate (nat count) r))"
| hardware: "eval_cycles vals n = Inr count \<Longrightarrow> 0 < count \<Longrightarrow> i64 count \<Longrightarrow> has_timing target vals program t r \<Longrightarrow> \<not> nt_rewinds r \<Longrightarrow>
    row_in_i64 (hardware_row (tp_loop_timing target) count r) \<Longrightarrow>
    has_timing target vals program (RNode (MLoop, bs, Some (CLoop n), pv) [t]) (hardware_row (tp_loop_timing target) count r)"

definition loops_positive :: "morphism_arena \<Rightarrow> eval_result list \<Rightarrow> bool" where
  "loops_positive a vals \<longleftrightarrow> (\<forall>i<length (ma_nodes a). \<forall>n. ma_content_at a i = Some (CLoop n) \<longrightarrow> eval_cycles vals n \<noteq> Inr 0)"

lemma sound_row_in_i64: "sound_row r \<Longrightarrow> row_in_i64 r"
  by (simp add: sound_row_def row_in_i64_def)

lemma serial_rows_prefixes:
  assumes "sound_row acc" "list_all sound_row rows" "serial_rows acc rows = Inr v"
  shows "k \<le> length rows \<Longrightarrow> row_in_i64 (foldl then_timing acc (take k rows))"
  using assms
proof (induction rows arbitrary: acc k)
  case Nil
  then show ?case by (simp add: sound_row_in_i64)
next
  case (Cons row rows)
  have then_row: "then_timing acc row = \<lparr>nt_duration = nt_duration acc + nt_duration row,
      nt_logical_duration = nt_logical_duration acc + nt_logical_duration row,
      nt_frontier = max (nt_frontier acc) (nt_duration acc + nt_frontier row),
      nt_logical_frontier = max (nt_logical_frontier acc) (nt_logical_duration acc + nt_logical_frontier row),
      nt_rewinds = (nt_rewinds acc \<or> nt_rewinds row)\<rparr>" by (simp add: then_timing_def)
  with Cons.prems(4) have "serial_rows (then_timing acc row) rows = Inr v" "i64 (nt_duration acc + nt_frontier row)"
    "i64 (nt_duration acc + nt_duration row)" "i64 (nt_logical_duration acc + nt_logical_frontier row)"
    "i64 (nt_logical_duration acc + nt_logical_duration row)"
    by (auto simp: res_simps)
  then show ?case
    using Cons.IH [of "k - 1" "then_timing acc row"] Cons.prems sound_then [of acc row] by (cases k) (auto simp: sound_row_in_i64)
qed

lemma then_timing_checks:
  assumes "sound_row acc" "sound_row row" "row_in_i64 (then_timing acc row)"
  shows "i64 (nt_duration acc + nt_frontier row)" "i64 (nt_duration acc + nt_duration row)"
    "i64 (nt_logical_duration acc + nt_logical_frontier row)" "i64 (nt_logical_duration acc + nt_logical_duration row)"
  using assms by (auto simp: sound_row_def row_in_i64_def then_timing_def in_range_def)

lemma serial_rows_complete:
  assumes "sound_row acc" "list_all sound_row rows" "\<forall>k\<le>length rows. row_in_i64 (foldl then_timing acc (take k rows))"
  shows "serial_rows acc rows = Inr (foldl then_timing acc rows)"
  using assms
proof (induction rows arbitrary: acc)
  case (Cons row rows)
  have "row_in_i64 (then_timing acc row)" using Cons.prems(3) [rule_format, of 1] by simp
  note c = then_timing_checks [OF Cons.prems(1) _ this] sound_then [OF Cons.prems(1), of row]
  have "\<forall>k\<le>length rows. row_in_i64 (foldl then_timing (then_timing acc row) (take k rows))"
    using Cons.prems(3) by (metis Suc_le_mono foldl_Cons length_Cons take_Suc_Cons)
  then have "serial_rows (then_timing acc row) rows = Inr (foldl then_timing (then_timing acc row) rows)"
    using Cons.IH [of "then_timing acc row"] c Cons.prems(2) by simp
  then show ?case using c Cons.prems(2) by (simp add: then_timing_def [of acc row] checked_def)
qed simp

lemma expanded_loop_complete:
  assumes "sound_row body" "0 < count" "i64 count" "nt_rewinds body" "row_in_i64 (serial_of (replicate (nat count) body))"
  shows "expanded_loop_timing count body = Inr (serial_of (replicate (nat count) body))"
proof -
  have c: "i64_saturating_sub count 1 = count - 1"
    using assms(2,3) by (auto simp: i64_saturating_sub_def in_range_def int_limits)
  have n: "nat count = Suc (nat (count - 1))" "int (nat (count - 1)) = count - 1" using assms(2) by simp_all
  have u: "serial_of (replicate (nat count) body) = \<lparr>nt_duration = nt_duration body * count, nt_logical_duration = nt_logical_duration body * count,
       nt_frontier = (if nt_duration body \<ge> 0 then nt_duration body * (count - 1) else 0) + nt_frontier body,
       nt_logical_frontier = (if nt_logical_duration body \<ge> 0 then nt_logical_duration body * (count - 1) else 0) + nt_logical_frontier body,
       nt_rewinds = True\<rparr>"
    using unrolled [of body "nat (count - 1)"] assms(1,4) assms(2) unfolding n(1) by (simp add: sound_row_def)
  have rf: "repeated_frontier (count - 1) d f = Inr ((if d \<ge> 0 then d * (count - 1) else 0) + f)"
    if "0 \<le> f" "i64 ((if d \<ge> 0 then d * (count - 1) else 0) + f)" for d f
  proof -
    have "0 \<le> d \<Longrightarrow> 0 \<le> d * (count - 1)" using assms(2) by simp
    then have "0 \<le> d \<Longrightarrow> i64 (d * (count - 1))" using that by (auto simp: in_range_def int_limits)
    then show ?thesis using that by (cases "0 \<le> d") (simp_all add: repeated_frontier_def checked_def)
  qed
  have fits: "i64 (nt_duration body * count)" "i64 (nt_logical_duration body * count)"
    "i64 ((if nt_duration body \<ge> 0 then nt_duration body * (count - 1) else 0) + nt_frontier body)"
    "i64 ((if nt_logical_duration body \<ge> 0 then nt_logical_duration body * (count - 1) else 0) + nt_logical_frontier body)"
    using assms(5) unfolding u row_in_i64_def by simp_all
  have "0 \<le> nt_frontier body" "0 \<le> nt_logical_frontier body" using assms(1) by (simp_all add: sound_row_def)
  note f = rf [OF this(1) fits(3)] rf [OF this(2) fits(4)]
  show ?thesis unfolding u using assms(3) fits(1,2) by (simp add: expanded_loop_timing_def c Let_def checked_def f)
qed

lemma hardware_loop_complete:
  assumes "sound_row body" "0 < count" "i64 count" "\<not> nt_rewinds body" "target_in_range target"
    and fits: "row_in_i64 (hardware_row (tp_loop_timing target) count body)"
  shows "hardware_loop_timing (tp_loop_timing target) count body = Inr (hardware_row (tp_loop_timing target) count body)"
proof -
  let ?f = "fixed_overhead_cycles (tp_loop_timing target)"
  let ?i = "nt_duration body + iteration_overhead (tp_loop_timing target) count" and ?ld = "nt_logical_duration body * count"
  have body: "0 \<le> nt_duration body" "0 \<le> nt_logical_duration body" using assms(1,4) by (auto simp: sound_row_def)
  have over: "0 \<le> iteration_overhead (tp_loop_timing target) count" "0 \<le> ?f"
    using assms(5) by (simp_all add: target_in_range_def iteration_overhead_def)
  have d: "i64 (?f + ?i * count)" "i64 ?ld" using fits by (simp_all add: row_in_i64_def hardware_row_def Let_def mult.commute)
  have "?i * 1 \<le> ?i * count" using body over assms(2) by (intro mult_left_mono) auto
  then have "u64r (nt_duration body)" "u64r ?i" "u64r (?i * count)" "u64r (?f + ?i * count)"
    using d(1) body over by (auto simp: in_range_def int_limits)
  moreover have "0 \<le> ?ld" using body assms(2) by simp
  ultimately show ?thesis using d assms(3)
    by (simp add: hardware_loop_timing_def checked_def hardware_row_def Let_def mult.commute max_def)
qed

lemma times_step:
  fixes program :: native_arenas
  defines "a \<equiv> na_morphisms program"
  assumes a: "ma_resolved a" "i < length (ma_nodes a)" and target: "target_in_range target" and loops: "loops_positive a vals"
    and kids: "list_all2 (has_timing target vals program) (map (expanded_tree a) (ma_deps a i)) rs" "list_all sound_row rs"
    and alg: "timing_alg target vals program (ma_label a i) rs = Inr r"
  shows "has_timing target vals program (expanded_tree a i) r"
proof -
  note tree = expanded_unfold [OF a(1), of i] and lab = node_access(5) [OF a]
  from a show ?thesis
  proof (cases rule: node_shape)
    case (wait d s)
    then show ?thesis using alg unfolding tree lab
      by (auto simp: timing_alg_def wait_row_def res_simps split: if_splits intro!: has_timing.wait)
  next
    case (atomic f start n args)
    then obtain d where d: "atomic_length target vals program (ma_operations a ! unat f) args = Inr d"
        "fixed_row (DurationTooLarge (ma_operations a ! unat f)) d = Inr r"
      using alg lab by (auto simp: timing_alg_def res_simps)
    then have "r = same_timing d" "i64 d" by (auto simp: fixed_row_def res_simps)
    then show ?thesis using d(1) atomic unfolding tree lab by (simp add: has_timing.atomic)
  next
    case (opaque d start n meta calls)
    then obtain k where k: "eval_cycles vals d = Inr k" "fixed_row OpaqueDurationTooLarge k = Inr r"
      using alg lab by (auto simp: timing_alg_def res_simps)
    then have "r = same_timing k" "i64 k" by (auto simp: fixed_row_def res_simps)
    then show ?thesis using k(1) opaque unfolding tree lab by (simp add: has_timing.opaque)
  next
    case (inst t c)
    then show ?thesis using alg lab kids(1) unfolding tree
      by (auto simp: timing_alg_def list_all2_Cons1 intro: has_timing.inst)
  next
    case (definition_ref f start n args)
    then show ?thesis using alg lab by (simp add: timing_alg_def)
  next
    case serial
    have "sound_row (same_timing 0)" by (simp add: sound_same)
    moreover have rows: "serial_rows (same_timing 0) rs = Inr r"
      using serial alg lab content_none [OF a serial(2)] by (simp add: timing_alg_def)
    ultimately have "r = serial_of rs" "\<forall>k\<le>length rs. row_in_i64 (serial_of (take k rs))"
      using serial_rows_sound [OF _ kids(2)] serial_rows_prefixes [OF _ kids(2)] by (auto simp: serial_of_def)
    then show ?thesis using has_timing.serial [OF kids(1)] serial content_none [OF a serial(2)] unfolding tree lab by simp
  next
    case parallel
    have ne: "rs \<noteq> []" using kids(1) parallel(3,4) by auto
    then have "r = parallel_of rs" using alg lab content_none [OF a parallel(2)] parallel by (simp add: timing_alg_def parallel_timing_of)
    then show ?thesis using has_timing.parallel [OF kids(1) ne] parallel content_none [OF a parallel(2)] unfolding tree lab by simp
  next
    case (loop n body)
    from kids(1) loop(5) obtain b where b: "rs = [b]" "has_timing target vals program (expanded_tree a (unat body)) b"
      by (auto simp: list_all2_Cons1)
    with kids(2) have sb: "sound_row b" by simp
    from loop alg lab b(1) obtain k where k: "eval_cycles vals n = Inr k"
        "(if nt_rewinds b then expanded_loop_timing k b else hardware_loop_timing (tp_loop_timing target) k b) = Inr r"
      by (auto simp: timing_alg_def res_simps cong del: if_weak_cong)
    have pos: "0 < k" using loops a(2) loop(3) k(1) evaluated_ranges(1) [OF k(1)] by (auto simp: loops_positive_def in_range_def order_less_le)
    show ?thesis
    proof (cases "nt_rewinds b")
      case True
      then have e: "expanded_loop_timing k b = Inr r" using k(2) by simp
      note s = expanded_loop_sound [OF sb evaluated_ranges(1) [OF k(1)] True e]
      have "i64 k" using e by (auto simp: expanded_loop_timing_def res_simps)
      then show ?thesis using has_timing.expanded [OF k(1) pos _ b(2) True] s pos sound_row_in_i64 loop unfolding tree lab by simp
    next
      case False
      then have h: "hardware_loop_timing (tp_loop_timing target) k b = Inr r" using k(2) by simp
      note s = hardware_loop_sound [OF sb evaluated_ranges(1) [OF k(1)] False h target]
      have "i64 k" using h by (auto simp: hardware_loop_timing_def res_simps)
      then show ?thesis using has_timing.hardware [OF k(1) pos _ b(2) False] s sound_row_in_i64 loop unfolding tree lab by simp
    qed
  next
    case sync_phi
    then show ?thesis using alg lab content_none [OF a sync_phi(2)] by (simp add: timing_alg_def)
  qed
qed

lemma times_fold:
  fixes program :: native_arenas
  defines "a \<equiv> na_morphisms program"
  assumes a: "ma_resolved a" and prov: "provenance_ok a" and target: "target_in_range target" and loops: "loops_positive a vals"
    and len: "length rows = length (ma_nodes a)"
    and folds: "\<forall>i<length (ma_nodes a). tree_fold (timing_alg target vals program) (expanded_tree a i) = Inr (rows ! i) \<and> sound_row (rows ! i)"
  shows "i < length (ma_nodes a) \<Longrightarrow> has_timing target vals program (expanded_tree a i) (rows ! i)"
proof (induction i rule: less_induct)
  case (less i)
  have desc: "descending (ma_deps a)" using a by (simp add: ma_resolved_def)
  have below: "j < i \<and> j < length (ma_nodes a)" if "j \<in> set (ma_deps a i)" for j
    using descendingD [OF desc that] less.prems by simp
  let ?rs = "map (\<lambda>j. rows ! j) (ma_deps a i)"
  have "res_traverse (tree_fold (timing_alg target vals program)) (map (expanded_tree a) (ma_deps a i)) = Inr ?rs"
    using folds below by (auto simp: res_traverse_map intro!: res_traverse_Inr_total)
  moreover have "tree_fold (timing_alg target vals program) (expanded_tree a i) = Inr (rows ! i)" using folds less.prems by blast
  ultimately have "timing_alg target vals program (ma_label a i) ?rs = Inr (rows ! i)"
    unfolding expanded_unfold [OF a, of i] by simp
  moreover have "list_all2 (has_timing target vals program) (map (expanded_tree a) (ma_deps a i)) ?rs"
    using less.IH below by (auto simp: list_all2_conv_all_nth)
  moreover have "list_all sound_row ?rs" using folds below by (simp add: list_all_iff)
  ultimately show ?case using times_step [of program i target vals ?rs "rows ! i"] a less.prems target loops by (simp add: a_def)
qed

text \<open>Conversely, the timing of a tree that has one is found.\<close>

lemma fixed_row_complete: "i64 d \<Longrightarrow> fixed_row e d = Inr (same_timing d)"
  by (simp add: fixed_row_def checked_def)

lemma timing_alg_label:
  "timing_alg target vals program (kind, bs, Some (CWait e s), pv) rows = wait_row target vals pv e s"
  "timing_alg target vals program (kind, bs, Some (CAtomic name args), pv) rows
     = res_bind (atomic_length target vals program name args) (fixed_row (DurationTooLarge name))"
  "timing_alg target vals program (kind, bs, Some (COpaque e calls meta), pv) rows
     = res_bind (res_map_err (InvalidOpaqueDuration pv) (eval_cycles vals e)) (fixed_row OpaqueDurationTooLarge)"
  "timing_alg target vals program (kind, bs, Some (CInstantiate template channel), pv) rows = Inr (hd rows)"
  "timing_alg target vals program (kind, bs, Some (CLoop n), pv) rows = res_bind (eval_cycles vals n) (\<lambda>count.
     if nt_rewinds (hd rows) then expanded_loop_timing count (hd rows)
     else hardware_loop_timing (tp_loop_timing target) count (hd rows))"
  "timing_alg target vals program (MSerial, bs, None, pv) rows = serial_rows (same_timing 0) rows"
  "timing_alg target vals program (MParallel, bs, None, pv) rows = Inr (parallel_timing rows)"
  by (simp_all add: timing_alg_def)

lemma traverse_times:
  assumes "list_all2 (\<lambda>t r. has_timing target vals program t r \<and> tree_fold (timing_alg target vals program) t = Inr r \<and> sound_row r) ts rs"
  shows "res_traverse (tree_fold (timing_alg target vals program)) ts = Inr rs" "list_all sound_row rs"
  using assms by (induction rule: list_all2_induct) auto

lemma times_complete:
  assumes "has_timing target vals program t r" and target: "target_in_range target"
  shows "tree_fold (timing_alg target vals program) t = Inr r \<and> sound_row r"
  using assms(1)
proof induction
  case (wait e d s bs pv)
  then have w: "wait_row target vals pv e s = Inr \<lparr>nt_duration = d, nt_logical_duration = d, nt_frontier = max d 0,
      nt_logical_frontier = max d 0, nt_rewinds = d < 0\<rparr>"
    by (auto simp: wait_row_def)
  then show ?case using wait_row_sound [OF w] by (simp add: timing_alg_label)
next
  case (atomic name args d bs pv)
  then show ?case using atomic_length_range [OF target] by (simp add: timing_alg_label fixed_row_complete sound_same)
next
  case (opaque e d calls meta bs pv)
  then have "0 \<le> d" using evaluated_ranges(1) by (metis in_range_def)
  then show ?case using opaque by (simp add: timing_alg_label fixed_row_complete sound_same)
next
  case (inst t r bs template channel pv)
  then show ?case by (simp add: timing_alg_label)
next
  case (serial ts rs bs pv)
  note kids = traverse_times [OF serial.IH]
  have z: "sound_row (same_timing 0)" by (simp add: sound_same)
  have rows: "serial_rows (same_timing 0) rs = Inr (serial_of rs)"
    unfolding serial_of_def by (rule serial_rows_complete [OF z kids(2)]) (use serial.hyps in \<open>simp add: serial_of_def\<close>)
  then show ?case using kids serial_rows_sound [OF z kids(2) rows, THEN conjunct1] by (simp add: timing_alg_label)
next
  case (parallel ts rs bs pv)
  note kids = traverse_times [OF parallel.IH]
  then show ?case using parallel_sound [OF kids(2)] parallel.hyps by (simp add: timing_alg_label parallel_timing_of)
next
  case (expanded n count t r bs pv)
  then have e: "expanded_loop_timing count r = Inr (serial_of (replicate (nat count) r))" by (intro expanded_loop_complete) auto
  then show ?case using expanded expanded_loop_sound(1) [OF _ evaluated_ranges(1) [OF expanded(1)] _ e] by (simp add: timing_alg_label)
next
  case (hardware n count t r bs pv)
  then have h: "hardware_loop_timing (tp_loop_timing target) count r = Inr (hardware_row (tp_loop_timing target) count r)"
    using target by (intro hardware_loop_complete) auto
  then show ?case using hardware hardware_loop_sound(1) [OF _ evaluated_ranges(1) [OF hardware(1)] _ h target] by (simp add: timing_alg_label)
qed

text \<open>What the pass establishes on a resolved arena, before the columns are split.\<close>

lemma timing_rows_correct:
  fixes program :: native_arenas
  defines "a \<equiv> na_morphisms program"
  assumes a: "ma_resolved a" "provenance_ok a" "target_in_range target" and vals: "evaluate_link_values fp program bindings = Some vals"
  shows "\<exists>r. timing_rows fp program target bindings = Some r \<and>
    (case r of
       Inr (vs, rows) \<Rightarrow> vs = vals \<and> length rows = length (ma_nodes a) \<and>
         (\<forall>i<length (ma_nodes a). tree_fold (timing_alg target vals program) (expanded_tree a i) = Inr (rows ! i) \<and> sound_row (rows ! i))
     | Inl e \<Rightarrow> \<exists>i<length (ma_nodes a). tree_fold (timing_alg target vals program) (expanded_tree a i) = Inl e)"
proof -
  let ?t = "replicate (length (ma_nodes a)) (same_timing 0)"
  note nodes = timing_nodes_eq [OF a]
  have t: "length ?t = length (timing_nodes target (na_morphisms program))" using nodes by (simp add: a_def)
  note correct = timing.pass_correct [OF t, of vals, folded a_def, unfolded nodes resolved_simps(2) [OF a(1)] expanded_tree_def [symmetric]]
  from correct(1) obtain r where r: "table_pass (timing_node target vals program) ?t (enumerate 0 (ma_nodes a)) = Some r" by blast
  have rows: "timing_rows fp program target bindings = run_bind (Some r) (\<lambda>rows. Some (Inr (vals, rows)))"
    using r vals by (simp add: timing_rows_def Let_def a_def)
  show ?thesis
  proof (cases r)
    case (Inr rows')
    then show ?thesis using rows correct(2) [of rows'] r by simp
  next
    case (Inl e)
    then show ?thesis using rows correct(3) [of e] r by auto
  qed
qed

lemma pause_vals: "evaluate_link_values no_floats pause_program bindings_empty
    = Some [Inr (EvNumeric (from_i64 100) TInt64), Inr (EvNumeric (from_i64 5) TInt64)]"
  by (simp add: pause_program_def pause_values_def evaluate_link_values_def builder_adds ve_add_def ve_builder_new_def Let_def
        evaluate_node_def slice_get_def ve_payload_def ve_node_def nth_opt_def evaluate_constant_def)

lemma pause_program_ok:
  "unat 1 < length (mb_nodes pause_builder)" "provenance_ok (na_morphisms pause_program)" "target_in_range pause_target"
  "loops_positive (na_morphisms pause_program) [Inr (EvNumeric (from_i64 100) TInt64), Inr (EvNumeric (from_i64 5) TInt64)]"
  by (simp_all add: pause_program_def pause_eval mb_view_def provenance_ok_def pause_target_def target_in_range_def
      loop_timing_default_def loops_positive_def ma_content_at_def ma_label_def ma_content_def less_Suc_eq
      eval_cycles_def numeric_operand_def nth_opt_def from_i64_def to_cycle_count_def
      signed_modulo_int_def signed_divide_int_def checked_def in_range_def int_limits)

lemma pause_timing:
  "analyze_timing no_floats pause_program pause_target bindings_empty = Some (Inr
     \<lparr>ta_evaluated_values = [Inr (EvNumeric (from_i64 100) TInt64), Inr (EvNumeric (from_i64 5) TInt64)],
      ta_durations = [100, 635], ta_frontiers = [100, 635], ta_logical_frontiers = [100, 500],
      ta_contains_rewind = [False, False]\<rparr>)"
  by (simp add: analyze_timing_def timing_rows_def pause_vals Let_def)
    (simp add: pause_program_def pause_eval mb_view_def timing_node_def node_payload_def wait_timing_def index_run_def nth_opt_def
      eval_duration_delta_def eval_cycles_def numeric_operand_def from_i64_def pause_target_def to_cycle_count_def to_signed_cycle_delta_def
      signed_modulo_int_def signed_divide_int_def checked_def in_range_def int_limits loop_node_timing_def children_by_node_def slice_get_def
      hardware_loop_timing_def iteration_overhead_def loop_timing_default_def)

section \<open>Properties\<close>

text \<open>
  C21. The timing pass computes the timing of the morphism: on every arena finished from a builder whose loops run at
  least once it does not panic; when it returns, the entry of each node is the timing of the node's expanded tree,
  where a loop whose body rewinds is unrolled; and it fails only if the tree of some node has no timing, be it for a
  value that cannot be evaluated, for a construct that is not supported or for a sum that leaves 64 bits.
\<close>

theorem analyze_timing_refines:
  assumes "built b" "unat m < length (mb_nodes b)" "mb_finish m b = Some (Inr (na_morphisms program))"
    and "provenance_ok (na_morphisms program)" "target_in_range target"
    and "evaluate_link_values fp program bindings = Some vals" "loops_positive (na_morphisms program) vals"
  shows "\<exists>r. analyze_timing fp program target bindings = Some r \<and>
    (case r of
       Inr ta \<Rightarrow> ta_evaluated_values ta = vals \<and>
         (\<exists>rows. length rows = length (ma_nodes (na_morphisms program)) \<and>
            ta_durations ta = map nt_duration rows \<and> ta_frontiers ta = map nt_frontier rows \<and>
            ta_logical_frontiers ta = map nt_logical_frontier rows \<and> ta_contains_rewind ta = map nt_rewinds rows \<and>
            (\<forall>i<length rows. has_timing target vals program (expanded_tree (na_morphisms program) i) (rows ! i)))
     | Inl e \<Rightarrow> \<exists>i<length (ma_nodes (na_morphisms program)).
         \<nexists>row. has_timing target vals program (expanded_tree (na_morphisms program) i) row)"
proof -
  have a: "ma_resolved (na_morphisms program)" using finish_resolved assms(1-3) by blast
  from timing_rows_correct [OF a assms(4-6)] obtain r where r: "timing_rows fp program target bindings = Some r"
    "case r of
       Inr (vs, rows) \<Rightarrow> vs = vals \<and> length rows = length (ma_nodes (na_morphisms program)) \<and>
         (\<forall>i<length (ma_nodes (na_morphisms program)). tree_fold (timing_alg target vals program) (expanded_tree (na_morphisms program) i) = Inr (rows ! i)
            \<and> sound_row (rows ! i))
     | Inl e \<Rightarrow> \<exists>i<length (ma_nodes (na_morphisms program)).
         tree_fold (timing_alg target vals program) (expanded_tree (na_morphisms program) i) = Inl e" by blast
  show ?thesis
  proof (cases r)
    case (Inl e)
    then obtain i where i: "i < length (ma_nodes (na_morphisms program))"
      "tree_fold (timing_alg target vals program) (expanded_tree (na_morphisms program) i) = Inl e" using r(2) by auto
    then have "\<nexists>row. has_timing target vals program (expanded_tree (na_morphisms program) i) row"
      using times_complete [OF _ assms(5)] by fastforce
    then show ?thesis using Inl r(1) i(1) by (auto simp: analyze_timing_def)
  next
    case (Inr p)
    obtain vs rows where p: "p = (vs, rows)" by (cases p)
    note res = r [unfolded Inr p, simplified]
    then show ?thesis
      using times_fold [OF a assms(4,5,7), of rows] by (auto simp: analyze_timing_def)
  qed
qed

text \<open>
  Frontiers bound durations: in every table the timing pass returns, all entries fit 64-bit integers, a
  frontier is non-negative and not before the end of the node, and for nodes that never rewind the cursor it is
  the end of the node.
\<close>

theorem timing_frontiers_bound:
  assumes "built b" "unat m < length (mb_nodes b)" "mb_finish m b = Some (Inr (na_morphisms program))"
    and "provenance_ok (na_morphisms program)" "target_in_range target"
    and "analyze_timing fp program target bindings = Some (Inr ta)" "i < length (ma_nodes (na_morphisms program))"
  shows "i64 (ta_durations ta ! i) \<and> i64 (ta_frontiers ta ! i) \<and> i64 (ta_logical_frontiers ta ! i)
    \<and> 0 \<le> ta_frontiers ta ! i \<and> ta_durations ta ! i \<le> ta_frontiers ta ! i \<and> 0 \<le> ta_logical_frontiers ta ! i
    \<and> (\<not> ta_contains_rewind ta ! i \<longrightarrow> ta_durations ta ! i = ta_frontiers ta ! i)"
proof -
  have a: "ma_resolved (na_morphisms program)" using finish_resolved assms(1-3) by blast
  from assms(6) obtain vals where vals: "evaluate_link_values fp program bindings = Some vals"
    by (cases "evaluate_link_values fp program bindings") (auto simp: analyze_timing_def timing_rows_def Let_def)
  from assms(6) obtain vs rows where rows: "timing_rows fp program target bindings = Some (Inr (vs, rows))"
      "ta_durations ta = map nt_duration rows" "ta_frontiers ta = map nt_frontier rows"
      "ta_logical_frontiers ta = map nt_logical_frontier rows" "ta_contains_rewind ta = map nt_rewinds rows"
    by (auto simp: analyze_timing_def run_bind_def split: option.splits sum.splits)
  then have "length rows = length (ma_nodes (na_morphisms program))" "sound_row (rows ! i)"
    using timing_rows_correct [OF a assms(4,5) vals] assms(7) by auto
  then show ?thesis using rows assms(7) by (auto simp: sound_row_def)
qed

theorem analyze_timing_refines_witness:
  "\<exists>ta r. analyze_timing no_floats pause_program pause_target bindings_empty = Some (Inr ta) \<and> ta_durations ta = [100, 635]
    \<and> has_timing pause_target [Inr (EvNumeric (from_i64 100) TInt64), Inr (EvNumeric (from_i64 5) TInt64)] pause_program
      (expanded_tree (na_morphisms pause_program) 1) r \<and> nt_duration r = 635 \<and> nt_logical_frontier r = 500"
proof -
  from analyze_timing_refines [OF pause_built pause_program_ok(1) pause_finish pause_program_ok(2,3) pause_vals pause_program_ok(4)]
  obtain x y where "nt_duration y = 635" "nt_logical_frontier y = 500"
      "\<forall>i<length (ma_nodes (na_morphisms pause_program)). has_timing pause_target
         [Inr (EvNumeric (from_i64 100) TInt64), Inr (EvNumeric (from_i64 5) TInt64)] pause_program
         (expanded_tree (na_morphisms pause_program) i) ([x, y] ! i)"
    unfolding pause_timing by auto
  moreover have "1 < length (ma_nodes (na_morphisms pause_program))" by (simp add: pause_program_def pause_eval mb_view_def)
  ultimately show ?thesis unfolding pause_timing by (intro exI [of _ y] exI conjI [OF refl]) (auto dest!: spec [of _ 1])
qed

theorem timing_frontiers_bound_witness:
  "ta_durations \<lparr>ta_evaluated_values = [Inr (EvNumeric (from_i64 100) TInt64), Inr (EvNumeric (from_i64 5) TInt64)],
      ta_durations = [100, 635], ta_frontiers = [100, 635], ta_logical_frontiers = [100, 500],
      ta_contains_rewind = [False, False]\<rparr> ! 1 \<le> 635"
proof -
  have "1 < length (ma_nodes (na_morphisms pause_program))" by (simp add: pause_program_def pause_eval mb_view_def)
  from timing_frontiers_bound [OF pause_built pause_program_ok(1) pause_finish pause_program_ok(2,3) pause_timing this]
  show ?thesis by simp
qed

end
