(* ===== verification/Traversal_Soundness.thy ===== *)
theory Traversal_Soundness
  imports Event_Lowering Atomic_Soundness Timing_Soundness
begin

text \<open>
  The traversal with an explicit stack is the recursive lowering of the morphism: what a task pushes is finished
  before its siblings begin.  On analysed programs it ends and does not panic, and it opens every epoch.
\<close>

section \<open>Recursive lowering\<close>

inductive lowered ::
  "f64_ops \<Rightarrow> f64_arith \<Rightarrow> lowering_context \<Rightarrow> traversal_task list \<Rightarrow> lowering_state \<Rightarrow> oasm_compile_error + lowering_state \<Rightarrow> bool"
  for fp fa lc where
  finished: "lowered fp fa lc [] st (Inr st)"
| fail: "run_task fp fa lc task st = Some (Inl error) \<Longrightarrow> lowered fp fa lc (task # rest) st (Inl error)"
| fail_inside: "run_task fp fa lc task st = Some (Inr (pushed, st1)) \<Longrightarrow> lowered fp fa lc pushed st1 (Inl error) \<Longrightarrow>
    lowered fp fa lc (task # rest) st (Inl error)"
| step: "run_task fp fa lc task st = Some (Inr (pushed, st1)) \<Longrightarrow> lowered fp fa lc pushed st1 (Inr st2) \<Longrightarrow>
    lowered fp fa lc rest st2 r \<Longrightarrow> lowered fp fa lc (task # rest) st r"

inductive_cases lowered_NilE: "lowered fp fa lc [] st r"
inductive_cases lowered_ConsE: "lowered fp fa lc (task # rest) st r"

lemma lowered_append:
  "lowered fp fa lc xs st r \<Longrightarrow>
     (case r of Inl error \<Rightarrow> lowered fp fa lc (xs @ ys) st (Inl error)
      | Inr st' \<Rightarrow> \<forall>r'. lowered fp fa lc ys st' r' \<longrightarrow> lowered fp fa lc (xs @ ys) st r')"
  by (induction rule: lowered.induct) (auto intro: lowered.intros split: sum.splits)

lemma lowered_split:
  "lowered fp fa lc (xs @ ys) st r \<Longrightarrow>
     (\<exists>error. r = Inl error \<and> lowered fp fa lc xs st (Inl error)) \<or> (\<exists>st'. lowered fp fa lc xs st (Inr st') \<and> lowered fp fa lc ys st' r)"
proof (induction xs arbitrary: st)
  case Nil
  then show ?case by (auto intro: lowered.finished)
next
  case (Cons task xs)
  from Cons.prems show ?case
    by (simp, elim lowered_ConsE) (use Cons.IH in \<open>blast intro: lowered.intros\<close>)+
qed

lemma traverse_lowered: "lowered fp fa lc tasks st r \<Longrightarrow>
   traverse fp fa lc (tasks @ rest) st = (case r of Inl error \<Rightarrow> Some (Inl error) | Inr st' \<Rightarrow> traverse fp fa lc rest st')"
proof (induction arbitrary: rest rule: lowered.induct)
  case (fail task st error rest')
  then show ?case by (subst traverse.simps) simp
next
  case (fail_inside task st pushed st1 error rest')
  then show ?case using fail_inside.IH [of "rest' @ rest"] by (subst traverse.simps) simp
next
  case (step task st pushed st1 st2 rest' r)
  then show ?case using step.IH(1) [of "rest' @ rest"] by (subst traverse.simps) simp
qed simp

lemma traverse_iff: "traverse fp fa lc tasks st = Some r \<longleftrightarrow> lowered fp fa lc tasks st r"
proof
  assume "lowered fp fa lc tasks st r"
  from traverse_lowered [OF this, of "[]"] show "traverse fp fa lc tasks st = Some r"
    by (simp add: traverse.simps split: sum.splits)
next
  assume t: "traverse fp fa lc tasks st = Some r"
  show "lowered fp fa lc tasks st r"
  proof (rule traverse.raw_induct [OF _ t])
    fix traverse fp fa lc pending st r
    assume IH: "\<And>fp fa lc pending st y. traverse fp fa lc pending st = Some y \<Longrightarrow> lowered fp fa lc pending st y"
      and body: "(case pending of [] \<Rightarrow> Some (Inr st)
        | task # rest \<Rightarrow> Option.bind (run_task fp fa lc task st) (\<lambda>r.
            case r of Inl error \<Rightarrow> Some (Inl error) | Inr p \<Rightarrow> traverse fp fa lc (fst p @ rest) (snd p))) = Some r"
    show "lowered fp fa lc pending st r"
    proof (cases pending)
      case Nil
      then show ?thesis using body by (auto intro: lowered.finished)
    next
      case (Cons task rest)
      with body obtain r1 where r1: "run_task fp fa lc task st = Some r1"
        "(case r1 of Inl error \<Rightarrow> Some (Inl error) | Inr p \<Rightarrow> traverse fp fa lc (fst p @ rest) (snd p)) = Some r"
        by (auto simp: bind_eq_Some_conv)
      show ?thesis
      proof (cases r1)
        case (Inl error)
        then show ?thesis using r1 Cons by (auto intro: lowered.fail)
      next
        case (Inr p)
        then have "lowered fp fa lc (fst p @ rest) (snd p) r" using IH r1(2) by simp
        then show ?thesis using r1(1) Inr Cons lowered_split [of fp fa lc "fst p" rest "snd p" r]
          by (cases p) (auto intro: lowered.fail_inside lowered.step)
      qed
    qed
  qed
qed

section \<open>Invariants of the traversal\<close>

text \<open>What every task keeps, the traversal keeps.\<close>

locale lowering_invariant =
  fixes fp :: f64_ops and fa :: f64_arith and lc :: lowering_context and inv :: "lowering_state \<Rightarrow> bool"
  assumes task_keeps: "run_task fp fa lc task st = Some (Inr (pushed, st')) \<Longrightarrow> inv st \<Longrightarrow> inv st'"
begin

lemma lowered_keeps:
  assumes "lowered fp fa lc tasks st r" "inv st"
  shows "pred_sum (\<lambda>_. True) inv r"
  using assms
proof (induction rule: lowered.induct)
  case (step task st pushed st1 st2 rest r)
  then show ?case using task_keeps by simp
qed (auto dest: task_keeps)

lemma traverse_keeps: "traverse fp fa lc tasks st = Some (Inr st') \<Longrightarrow> inv st \<Longrightarrow> inv st'"
  using lowered_keeps [of tasks st "Inr st'"] by (simp add: traverse_iff)

end

section \<open>Total correctness\<close>

text \<open>The tasks are lowered, with an error or into a state that satisfies the postcondition.\<close>

definition ends ::
  "f64_ops \<Rightarrow> f64_arith \<Rightarrow> lowering_context \<Rightarrow> traversal_task list \<Rightarrow> lowering_state \<Rightarrow> (lowering_state \<Rightarrow> bool) \<Rightarrow> bool" where
  "ends fp fa lc tasks st Q \<longleftrightarrow> (\<exists>r. lowered fp fa lc tasks st r \<and> (\<forall>st'. r = Inr st' \<longrightarrow> Q st'))"

lemma ends_mono: "ends fp fa lc tasks st Q \<Longrightarrow> (\<And>st'. Q st' \<Longrightarrow> Q' st') \<Longrightarrow> ends fp fa lc tasks st Q'"
  by (auto simp: ends_def)

lemma ends_Nil: "Q st \<Longrightarrow> ends fp fa lc [] st Q"
  by (auto simp: ends_def intro: lowered.finished)

lemma ends_task:
  assumes "run_task fp fa lc task st \<noteq> None"
    and "\<And>pushed st1. run_task fp fa lc task st = Some (Inr (pushed, st1)) \<Longrightarrow>
      ends fp fa lc pushed st1 (\<lambda>st2. ends fp fa lc rest st2 Q)"
  shows "ends fp fa lc (task # rest) st Q"
proof -
  from assms(1) obtain r where r: "run_task fp fa lc task st = Some r" by blast
  show ?thesis
  proof (cases r)
    case (Inl error)
    then show ?thesis using r by (auto simp: ends_def intro: lowered.fail)
  next
    case (Inr p)
    obtain pushed st1 where p: "p = (pushed, st1)" by (cases p)
    from assms(2) r Inr p obtain r1 where r1: "lowered fp fa lc pushed st1 r1"
      "\<And>st2. r1 = Inr st2 \<Longrightarrow> ends fp fa lc rest st2 Q" by (auto simp: ends_def)
    show ?thesis
    proof (cases r1)
      case (Inl error)
      then show ?thesis using r Inr p r1(1) \<open>r = Inr p\<close> by (auto simp: ends_def intro: lowered.fail_inside)
    next
      case (Inr st2)
      then show ?thesis using r p r1 \<open>r = Inr p\<close> unfolding ends_def by (blast intro: lowered.step)
    qed
  qed
qed

lemma ends_Cons:
  assumes "ends fp fa lc [task] st Q1" "\<And>st1. Q1 st1 \<Longrightarrow> ends fp fa lc rest st1 Q"
  shows "ends fp fa lc (task # rest) st Q"
proof -
  from assms(1) obtain r where r: "lowered fp fa lc [task] st r" "\<And>st1. r = Inr st1 \<Longrightarrow> Q1 st1" by (auto simp: ends_def)
  show ?thesis
  proof (cases r)
    case (Inl error)
    then show ?thesis using lowered_append [OF r(1), of rest] by (auto simp: ends_def)
  next
    case (Inr st1)
    then show ?thesis using lowered_append [OF r(1), of rest] assms(2) [OF r(2)] by (auto simp: ends_def)
  qed
qed

section \<open>Epochs\<close>

definition origins :: "lowering_state \<Rightarrow> int set" where
  "origins st = fst ` set (ls_epoch_origins st)"

definition epochs_of :: "lowering_state \<Rightarrow> int set" where
  "epochs_of st = de_epoch ` set (as_direct_events st) \<union> te_epoch ` set (as_ttl_events st) \<union> lr_epoch ` set (ls_loop_regions st)"

definition grown :: "lowering_state \<Rightarrow> lowering_state \<Rightarrow> bool" where
  "grown st st' \<longleftrightarrow> length (as_ttl_events st) \<le> length (as_ttl_events st') \<and> length (as_direct_events st) \<le> length (as_direct_events st')
     \<and> length (ls_opaque_intervals st) \<le> length (ls_opaque_intervals st')
     \<and> length (ls_ordinary_intervals st) \<le> length (ls_ordinary_intervals st')"

text \<open>A part of the program with \<open>k\<close> global synchronisations, begun in epoch \<open>e\<close>.\<close>

definition opens :: "int \<Rightarrow> int \<Rightarrow> lowering_state \<Rightarrow> lowering_state \<Rightarrow> bool" where
  "opens e k st st' \<longleftrightarrow> grown st st' \<and> origins st' = origins st \<union> {e + 1..e + k} \<and> epochs_of st' \<subseteq> epochs_of st \<union> {e..e + k}"

lemma grown_refl: "grown st st"
  by (simp add: grown_def)

lemma grown_trans: "grown st st1 \<Longrightarrow> grown st1 st2 \<Longrightarrow> grown st st2"
  by (auto simp: grown_def)

lemma opens_refl: "opens e 0 st st"
  by (auto simp: opens_def grown_refl)

lemma opens_then:
  assumes "opens e k st st1" "opens (e + k) k' st1 st2" "0 \<le> k" "0 \<le> k'"
  shows "opens e (k + k') st st2"
proof -
  have "{e + 1..e + k} \<union> {e + k + 1..e + k + k'} = {e + 1..e + (k + k')}" using assms(3,4) by auto
  then have "origins st2 = origins st \<union> {e + 1..e + (k + k')}" using assms(1,2) by (simp add: opens_def Un_assoc)
  moreover have "{e..e + k} \<union> {e + k..e + k + k'} \<subseteq> {e..e + (k + k')}" using assms(3,4) by auto
  then have "epochs_of st2 \<subseteq> epochs_of st \<union> {e..e + (k + k')}" using assms(1,2) unfolding opens_def by blast
  moreover have "grown st st2" using assms(1,2) grown_trans unfolding opens_def by blast
  ultimately show ?thesis unfolding opens_def by blast
qed

lemma opens_beside:
  assumes "opens e k st st1" "opens e k st1 st2"
  shows "opens e k st st2"
proof -
  have "grown st st2" using assms grown_trans unfolding opens_def by blast
  moreover have "origins st2 = origins st \<union> {e + 1..e + k}" using assms by (simp add: opens_def Un_assoc)
  moreover have "epochs_of st2 \<subseteq> epochs_of st \<union> {e..e + k}" using assms unfolding opens_def by blast
  ultimately show ?thesis unfolding opens_def by blast
qed

lemma run_bind_None_iff: "run_bind m f = None \<longleftrightarrow> m = None \<or> (\<exists>x. m = Some (Inr x) \<and> f x = None)"
  by (auto simp: run_bind_def split: option.splits sum.splits)

section \<open>Tasks of an analysed program\<close>

text \<open>What the analyses establish and the bindings guarantee.\<close>

definition analysed :: "lowering_context \<Rightarrow> bool" where
  "analysed lc \<longleftrightarrow>
     (let a = lc_arena lc; n = length (ma_nodes a) in
      ma_resolved a \<and> provenance_ok a \<and> length (ta_durations (lc_timing lc)) = n \<and> length (ta_frontiers (lc_timing lc)) = n
      \<and> length (ta_contains_rewind (lc_timing lc)) = n \<and> length (lc_sync_counts lc) = n
      \<and> (\<forall>i<n. mn_kind (ma_nodes a ! i) \<notin> {MDefinitionRef, MSyncPhi})
      \<and> (\<forall>i<n. u32r (lc_sync_counts lc ! i)
           \<and> sync_alg (lc_target lc) (ma_label a i) (map (\<lambda>j. lc_sync_counts lc ! j) (ma_deps a i)) = Inr (lc_sync_counts lc ! i))
      \<and> (\<forall>key b. env_channels (lc_environment lc) key = Some b \<longrightarrow> unat (cb_local_id b) < 64))"

definition visitable :: "lowering_context \<Rightarrow> nat \<Rightarrow> int \<Rightarrow> nat option \<Rightarrow> bool" where
  "visitable lc i e c \<longleftrightarrow> i < length (ma_nodes (lc_arena lc)) \<and> 0 \<le> e \<and> e + lc_sync_counts lc ! i \<le> u32_max
     \<and> (\<forall>k. c = Some k \<longrightarrow> k < length (ma_channels (lc_arena lc)))"

lemma atomic_effect_opens:
  assumes "atomic_effect ctx st st'" "ac_epoch ctx = e"
  shows "opens e 0 st st'"
proof -
  obtain ttl es where a: "as_ttl_events st' = as_ttl_events st @ ttl" "\<forall>x\<in>set ttl. te_epoch x = e"
      "as_direct_events st' = as_direct_events st @ es" "calls_of ctx (as_rwg_states st (ac_channel_key ctx)) es"
      "atomic_state.more st' = atomic_state.more st"
    using assms by (auto simp: atomic_effect_def)
  have "\<forall>x\<in>set es. de_epoch x = e" using a(4) assms(2) by cases (auto simp: channel_call_def)
  moreover have "ls_epoch_origins st' = ls_epoch_origins st" "ls_loop_regions st' = ls_loop_regions st"
      "ls_opaque_intervals st' = ls_opaque_intervals st" "ls_ordinary_intervals st' = ls_ordinary_intervals st"
    using a(5) by (cases st; cases st'; simp)+
  ultimately show ?thesis using a by (auto simp: opens_def grown_def origins_def epochs_of_def)
qed

lemma at_source_error:
  assumes "provenance_ok (lc_arena lc)" "node \<in> set (ma_nodes (lc_arena lc))"
  shows "at_source lc node error = Some (Inl error)"
  using assms by (simp add: at_source_def provenance_ok_def)

lemma signed_start_cases:
  assumes "provenance_ok (lc_arena lc)" "node \<in> set (ma_nodes (lc_arena lc))"
  shows "signed_start lc node error start = Some (ok_or error (checked_u64 start))"
  by (simp add: signed_start_def at_source_error [OF assms] ok_or_def split: option.split)

lemma fresh_event_id_opens: "fresh_event_id st = Inr (g, st') \<Longrightarrow> opens e 0 st st'"
  by (auto simp: fresh_event_id_def res_bind_Inr_iff opens_def grown_def origins_def epochs_of_def)

lemma sync_event_epoch [simp]: "de_epoch (sync_event schema e start g w p) = e"
  by (cases p) (simp add: sync_event_def board_event_def)

lemma visit_sync_opens:
  assumes "visit_sync lc schema start e g st = Some (Inr (pushed, st'))"
  shows "pushed = [] \<and> opens e 1 st st'"
proof -
  let ?es = "\<lambda>w. map (sync_event schema e start g w) (tp_boards (lc_target lc))"
  from assms obtain w where "pushed = []" "st' = push_direct (?es w) (st\<lparr>ls_epoch_origins := ls_epoch_origins st @ [(e + 1, start)]\<rparr>)"
    by (auto simp: visit_sync_def Let_def checked_def split: option.splits if_splits)
  then show ?thesis by (auto simp: opens_def grown_def origins_def epochs_of_def push_direct_def)
qed

lemma visit_opaque_operation_opens:
  assumes "visit_opaque_operation lc name schema start e g st = Some (Inr (pushed, st'))"
  shows "pushed = [] \<and> opens e 0 st st'"
  using assms unfolding visit_opaque_operation_def
  by (elim run_bind_InrE) (auto simp: opens_def grown_def origins_def epochs_of_def push_direct_def board_event_def)

lemma visit_channel_operation_ok:
  assumes lc: "analysed lc" and i: "i < length (ma_nodes (lc_arena lc))"
    and c: "\<And>k. c = Some k \<Longrightarrow> k < length (ma_channels (lc_arena lc))"
    and lowering: "ats_lowering schema \<notin> {GlobalSync, OpaqueLowering}"
    and v_def: "v = visit_channel_operation fp fa lc (ma_nodes (lc_arena lc) ! i) i name schema args start e c g st"
  shows "v \<noteq> None" "v = Some (Inr (pushed, st')) \<Longrightarrow> pushed = [] \<and> opens e 0 st st'"
proof -
  let ?ctx = "\<lambda>key b board d. \<lparr>ac_schema = schema, ac_channel_key = key, ac_binding = b, ac_board = board, ac_start = start,
            ac_epoch = e, ac_duration = d, ac_arguments = args, ac_program = lc_program lc,
            ac_values = lc_values lc, ac_clock_hz = tp_clock_hz (lc_target lc),
            ac_quantization = tp_duration_quantization (lc_target lc), ac_group_id = g\<rparr>"
  have a: "\<And>error. at_source lc (ma_nodes (lc_arena lc) ! i) error = Some (Inl error)"
    using lc i by (intro at_source_error) (auto simp: analysed_def Let_def)
  have t: "lower_atomic_events fp fa (?ctx key b board d) st \<noteq> None" if "env_channels (lc_environment lc) key = Some b" for key b board d
    using lc that lowering by (intro lower_atomic_total) (auto simp: analysed_def Let_def)
  show "v \<noteq> None" unfolding v_def visit_channel_operation_def
    using lc i c t by (intro run_bind_not_None) (auto simp: analysed_def Let_def a split: option.splits sum.splits)
  show "pushed = [] \<and> opens e 0 st st'" if "v = Some (Inr (pushed, st'))"
    using that unfolding v_def visit_channel_operation_def
    by (elim run_bind_InrE)
      (auto simp: a split: option.splits sum.splits dest!: lower_atomic_effect elim!: atomic_effect_opens)
qed

lemma visit_wait_ok:
  assumes lc: "analysed lc" and i: "i < length (ma_nodes (lc_arena lc))"
    and v_def: "v = visit_wait lc (ma_nodes (lc_arena lc) ! i) i start e st"
  shows "v \<noteq> None" "v = Some (Inr (pushed, st')) \<Longrightarrow> pushed = [] \<and> opens e 0 st st'"
proof -
  have a: "\<And>error. at_source lc (ma_nodes (lc_arena lc) ! i) error = Some (Inl error)"
    using lc i by (intro at_source_error) (auto simp: analysed_def Let_def)
  show "v \<noteq> None" unfolding v_def visit_wait_def
    using lc i by (intro run_bind_not_None) (auto simp: analysed_def Let_def a)
  show "pushed = [] \<and> opens e 0 st st'" if "v = Some (Inr (pushed, st'))"
    using that unfolding v_def visit_wait_def by (elim run_bind_InrE) (auto simp: a opens_refl split: if_splits)
qed

lemma visit_atomic_ok:
  assumes lc: "analysed lc" and v: "visitable lc i e c" and kind: "mn_kind (ma_nodes (lc_arena lc) ! i) = MAtomic"
    and payload: "node_payload (lc_arena lc) (ma_nodes (lc_arena lc) ! i) = Some (Inr (Some (MpAtomic f a n)))"
      "unat f < length (ma_operations (lc_arena lc))"
      "ma_content_at (lc_arena lc) i = Some (CAtomic (ma_operations (lc_arena lc) ! unat f) args)"
    and w_def: "w = visit_atomic fp fa lc (ma_nodes (lc_arena lc) ! i) i (Some (MpAtomic f a n)) start0 e c st"
  shows "w \<noteq> None" "w = Some (Inr (pushed, st')) \<Longrightarrow> pushed = [] \<and> opens e (lc_sync_counts lc ! i) st st'"
proof -
  let ?a = "lc_arena lc" let ?name = "ma_operations ?a ! unat f"
  have i: "ma_resolved ?a" "i < length (ma_nodes ?a)" using lc v by (auto simp: analysed_def visitable_def Let_def)
  have count: "lc_sync_counts lc ! i = content_syncs (lc_target lc) (Some (CAtomic ?name args))"
    using lc i node_access(5) [OF i] kind payload(3) by (auto simp: analysed_def Let_def sync_alg_def)
  have sync: "visit_sync lc schema start e g st1 \<noteq> None"
    if "tp_operations (lc_target lc) ?name = Some schema" "ats_lowering schema = GlobalSync" for schema start g st1
    using that v count by (auto simp: visit_sync_def visitable_def content_syncs_def checked_def in_range_def Let_def)
  have start: "signed_start lc (ma_nodes ?a ! i) error s = Some (ok_or error (checked_u64 s))" for error s
    using lc i by (intro signed_start_cases) (auto simp: analysed_def Let_def)
  have c: "\<And>k. c = Some k \<Longrightarrow> k < length (ma_channels ?a)" using v by (auto simp: visitable_def)
  have channel: "visit_channel_operation fp fa lc (ma_nodes ?a ! i) i name schema args s e c g st1 \<noteq> None"
      "visit_channel_operation fp fa lc (ma_nodes ?a ! i) i name schema args s e c g st1 = Some (Inr (p, st2)) \<Longrightarrow> p = [] \<and> opens e 0 st1 st2"
    if "ats_lowering schema \<notin> {GlobalSync, OpaqueLowering}" for name schema args s g st1 p st2
    using visit_channel_operation_ok [OF lc i(2) c that refl] by blast+
  have opq: "visit_opaque_operation lc name schema s e g st1 \<noteq> None" for name schema s g st1
    unfolding visit_opaque_operation_def by (intro run_bind_not_None) auto
  show "w \<noteq> None"
    using payload(2) sync opq channel(1)
    by (auto simp: w_def visit_atomic_def start run_bind_None_iff simp del: not_None_eq split: if_splits)
  assume "w = Some (Inr (pushed, st'))"
  then obtain start g st1 schema arguments where st1: "fresh_event_id st = Inr (g, st1)" "tp_operations (lc_target lc) ?name = Some schema"
    and r: "(if ats_lowering schema = GlobalSync then visit_sync lc schema start e g st1
             else if ats_lowering schema = OpaqueLowering
             then visit_opaque_operation lc ?name schema start e g st1
             else visit_channel_operation fp fa lc (ma_nodes ?a ! i) i ?name schema arguments start e c g st1) = Some (Inr (pushed, st'))"
    unfolding w_def visit_atomic_def start using payload(2) by (elim run_bind_InrE) (auto elim!: run_bind_InrE)
  have "pushed = [] \<and> opens e (if ats_lowering schema = GlobalSync then 1 else 0) st1 st'"
    using r visit_sync_opens visit_opaque_operation_opens channel(2) by (auto split: if_splits)
  moreover have "opens e 0 st st1" using fresh_event_id_opens [OF st1(1)] .
  ultimately show "pushed = [] \<and> opens e (lc_sync_counts lc ! i) st st'"
    using opens_then [of e 0 st st1] count st1(2) by (auto simp: content_syncs_def split: if_splits)
qed

lemma push_blackbox_opens: "opens e 0 st (push_blackbox e start duration g p st)"
  by (cases p) (auto simp: push_blackbox_def opens_def grown_def origins_def epochs_of_def push_direct_def board_event_def)

lemma push_blackboxes_opens: "opens e 0 st (fold (push_blackbox e start duration g) ps st)"
proof (induction ps arbitrary: st)
  case (Cons p ps)
  show ?case using opens_beside [OF push_blackbox_opens Cons.IH] by simp
qed (simp add: opens_refl)

lemma visit_opaque_ok:
  assumes lc: "analysed lc" and i: "i < length (ma_nodes (lc_arena lc))"
    and v_def: "v = visit_opaque fp lc (ma_nodes (lc_arena lc) ! i) i (Some (MpOpaque d cs cn meta)) start0 e st"
  shows "v \<noteq> None" "v = Some (Inr (pushed, st')) \<Longrightarrow> pushed = [] \<and> opens e 0 st st'"
proof -
  have start: "signed_start lc (ma_nodes (lc_arena lc) ! i) error s = Some (ok_or error (checked_u64 s))" for error s
    using lc i by (intro signed_start_cases) (auto simp: analysed_def Let_def)
  have d: "i < length (ta_durations (lc_timing lc))" using lc i by (auto simp: analysed_def Let_def)
  show "v \<noteq> None" using d by (auto simp: v_def visit_opaque_def start run_bind_None_iff simp del: not_None_eq)
  assume "v = Some (Inr (pushed, st'))"
  then obtain g st1 start duration calls where "fresh_event_id st = Inr (g, st1)" "pushed = []"
      "st' = fold (push_blackbox e start duration g) calls st1"
    using d by (auto simp: v_def visit_opaque_def start elim!: run_bind_InrE)
  then show "pushed = [] \<and> opens e 0 st st'" using opens_beside [OF fresh_event_id_opens push_blackboxes_opens] by blast
qed

lemma occupy_channel_ok:
  assumes lc: "analysed lc" and i: "i < length (ma_nodes (lc_arena lc))" "unat c < length (ma_channels (lc_arena lc))"
  shows "occupy_channel lc i c start e st \<noteq> None" "occupy_channel lc i c start e st = Some (Inr st') \<Longrightarrow> opens e 0 st st'"
proof -
  have f: "i < length (ta_frontiers (lc_timing lc))" using lc i by (auto simp: analysed_def Let_def)
  then show "occupy_channel lc i c start e st \<noteq> None"
    using i(2) by (auto simp: occupy_channel_def run_bind_None_iff Let_def simp del: not_None_eq)
  show "opens e 0 st st'" if "occupy_channel lc i c start e st = Some (Inr st')"
    using that f i(2) by (auto simp: occupy_channel_def Let_def opens_refl elim!: run_bind_InrE split: if_splits)
      (auto simp: opens_def grown_def origins_def epochs_of_def)
qed

lemma visit_count_total:
  assumes "ma_resolved a" "\<forall>i\<in>set pending. i < length (ma_nodes a)"
  shows "visit_count a pending visits \<noteq> None"
  using assms
proof (induction a pending visits rule: visit_count.induct)
  case (2 a i pending visits)
  then have i: "ma_resolved a" "i < length (ma_nodes a)" by simp_all
  obtain roots where roots: "template_roots a (ma_nodes a ! i) = Some (Inr roots)" "\<forall>r\<in>set roots. r < length (ma_nodes a)"
    using i by (cases rule: node_shape) (auto simp: template_roots_def)
  note acc = node_access [OF i]
  let ?next = "visit_count a (rev (map unat (mn_slice a (ma_nodes a ! i))) @ roots @ pending)"
  have "?next (visits + 1) \<noteq> None" if "u64r (visits + 1)" "\<not> MAX_REWIND_LOOP_EXPANDED_NODE_VISITS < visits + 1"
  proof (rule 2(1))
    show "Some (ok_or (EventError ExpansionOverflow) (checked_u64 (visits + 1))) = Some (Inr (visits + 1))" using that by simp
  qed (use that i roots acc 2(3) in auto)
  then show ?case using i acc(1) roots(1) by (auto simp: run_bind_None_iff simp del: not_None_eq)
qed simp

lemma finish_loop_ok:
  assumes frame: "lf_ttl_start frame = length (as_ttl_events st0)" "lf_direct_start frame = length (as_direct_events st0)"
      "lf_opaque_start frame = length (ls_opaque_intervals st0)" "lf_ordinary_start frame = length (ls_ordinary_intervals st0)"
      "lf_epoch frame = e"
    and opens: "opens e 0 st0 st"
  shows "finish_loop frame st \<noteq> None" "finish_loop frame st = Some (Inr (pushed, st')) \<Longrightarrow> pushed = [] \<and> opens e 0 st0 st'"
proof -
  have le: "lf_ttl_start frame \<le> length (as_ttl_events st)" "lf_direct_start frame \<le> length (as_direct_events st)"
      "lf_opaque_start frame \<le> length (ls_opaque_intervals st)" "lf_ordinary_start frame \<le> length (ls_ordinary_intervals st)"
    using opens frame by (auto simp: opens_def grown_def)
  then show "finish_loop frame st \<noteq> None"
    by (auto simp: finish_loop_def run_bind_None_iff slice_from_def simp del: not_None_eq)
  assume "finish_loop frame st = Some (Inr (pushed, st'))"
  then obtain g st1 body_end loop_end advance where st1: "fresh_event_id st = Inr (g, st1)" "pushed = []"
    "st' = close_loop frame g body_end loop_end advance (drop (lf_opaque_start frame) (ls_opaque_intervals st))
       (drop (lf_ordinary_start frame) (ls_ordinary_intervals st)) (drop (lf_ttl_start frame) (as_ttl_events st))
       (drop (lf_direct_start frame) (as_direct_events st)) st1"
    using le unfolding finish_loop_def slice_from_def by (elim run_bind_InrE) (auto simp: le)
  from st1(1) have "st1 = st\<lparr>ls_next_event_id := ls_next_event_id st1\<rparr>" by (auto simp: fresh_event_id_def res_bind_Inr_iff)
  then obtain m where m: "st1 = st\<lparr>ls_next_event_id := m\<rparr>" by blast
  have epochs: "de_epoch ` set (concat (map (loop_markers frame g body_end advance) boards)) \<subseteq> {e}" for boards
    using frame(5) by (auto simp: loop_markers_def board_event_def)
  have sub: "epochs_of st' \<subseteq> epochs_of st \<union> {e}"
    using epochs [of "ordered_set (map te_board (drop (lf_ttl_start frame) (as_ttl_events st)) @ map de_board (drop (lf_direct_start frame) (as_direct_events st)))"]
      frame(5)
    unfolding st1(3) m by (auto simp: close_loop_def Let_def epochs_of_def dest: in_set_dropD in_set_takeD)
  have "grown st0 st'" using le frame unfolding st1(3) m by (auto simp: close_loop_def Let_def grown_def)
  moreover have "origins st' = origins st" unfolding st1(3) m by (simp add: close_loop_def Let_def origins_def)
  ultimately show "pushed = [] \<and> opens e 0 st0 st'" using opens st1(2) sub by (auto simp: opens_def)
qed

text \<open>Visits of children that open no epoch, one after the other.\<close>

lemma ends_visits:
  assumes "\<And>task st. task \<in> set tasks \<Longrightarrow> ends fp fa lc [task] st (opens e k st)" "k = 0 \<or> tasks \<noteq> []" "0 \<le> k"
  shows "ends fp fa lc tasks st (opens e k st)"
  using assms
proof (induction tasks arbitrary: st)
  case Nil
  then show ?case by (auto intro: ends_Nil opens_refl)
next
  case (Cons task tasks)
  show ?case
  proof (cases "tasks = []")
    case False
    show ?thesis
    proof (rule ends_Cons [OF Cons.prems(1)])
      fix st1 assume st1: "opens e k st st1"
      show "ends fp fa lc tasks st1 (opens e k st)"
        using Cons.IH [of st1] Cons.prems False by (auto intro: ends_mono opens_beside [OF st1])
    qed simp
  qed (use Cons.prems in simp)
qed

lemma iteration_visits:
  "iteration_tasks body d n start e c = Inr tasks \<Longrightarrow> task \<in> set tasks \<Longrightarrow> \<exists>s. task = Visit body s e c"
  by (induction n arbitrary: start tasks) (auto simp: res_bind_Inr_iff)

lemma serial_visits:
  assumes "\<And>child start epoch st. child \<in> set children \<Longrightarrow> visitable lc (unat child) epoch c \<Longrightarrow>
      ends fp fa lc [Visit (unat child) start epoch c] st (opens epoch (counts ! unat child) st)"
    and "\<forall>child\<in>set children. unat child < length (ma_nodes (lc_arena lc)) \<and> 0 \<le> counts ! unat child"
    and "0 \<le> e" "\<And>k. c = Some k \<Longrightarrow> k < length (ma_channels (lc_arena lc))" "counts = lc_sync_counts lc"
    and "serial_tasks lc c start e children = Some (Inr tasks)" "length counts = length (ma_nodes (lc_arena lc))"
  shows "ends fp fa lc tasks st (opens e (sum_list (map (\<lambda>child. counts ! unat child) children)) st)"
  using assms
proof (induction children arbitrary: start e tasks st)
  case Nil
  then show ?case by (auto intro: ends_Nil opens_refl)
next
  case (Cons child children)
  let ?k = "counts ! unat child" and ?rest = "sum_list (map (\<lambda>child. counts ! unat child) children)"
  from Cons.prems(6) obtain d start' tasks' where t: "u32r (e + ?k)" "serial_tasks lc c start' (e + ?k) children = Some (Inr tasks')"
      "tasks = Visit (unat child) start e c # tasks'"
    using Cons.prems(2,5,7) by (auto elim!: run_bind_InrE)
  have rest: "0 \<le> ?rest" using Cons.prems(2) by (intro sum_list_nonneg) auto
  have v: "visitable lc (unat child) e c" using Cons.prems(2-5) t(1) by (auto simp: visitable_def in_range_def)
  show ?case unfolding t(3)
  proof (rule ends_Cons [OF Cons.prems(1) [OF _ v]])
    fix st1 assume st1: "opens e ?k st st1"
    have "ends fp fa lc tasks' st1 (opens (e + ?k) ?rest st1)"
      by (rule Cons.IH [OF Cons.prems(1)]) (use Cons.prems t(1,2) in \<open>auto simp: in_range_def\<close>)
    then show "ends fp fa lc tasks' st1 (opens e (sum_list (map (\<lambda>child. counts ! unat child) (child # children))) st)"
      using opens_then [OF st1 _ _ rest] Cons.prems(2) by (auto intro: ends_mono)
  qed simp
qed

lemma visit_loop_ends:
  assumes lc: "analysed lc" and v: "visitable lc i e c"
    and loop: "mn_kind (ma_nodes (lc_arena lc) ! i) = MLoop"
      "node_payload (lc_arena lc) (ma_nodes (lc_arena lc) ! i) = Some (Inr (Some (MpLoop n)))"
      "mn_slice (lc_arena lc) (ma_nodes (lc_arena lc) ! i) = [body]" "ma_deps (lc_arena lc) i = [unat body]"
    and IH: "\<And>start st. visitable lc (unat body) e c \<Longrightarrow> ends fp fa lc [Visit (unat body) start e c] st (opens e (lc_sync_counts lc ! unat body) st)"
  shows "ends fp fa lc [Visit i start e c] st (opens e (lc_sync_counts lc ! i) st)"
proof -
  let ?a = "lc_arena lc"
  have i: "ma_resolved ?a" "i < length (ma_nodes ?a)" using lc v by (auto simp: analysed_def visitable_def Let_def)
  note acc = node_access [OF i]
  have body: "unat body < length (ma_nodes ?a)" using acc(3) loop(3) by simp
  have count: "lc_sync_counts lc ! unat body = 0" "lc_sync_counts lc ! i = 0"
    using lc i acc(5) loop by (auto simp: analysed_def Let_def sync_alg_def split: if_splits)
  have vb: "visitable lc (unat body) e c" using v body count by (simp add: visitable_def)
  note IH0 = IH [OF vb, unfolded count]
  have len: "length (ta_durations (lc_timing lc)) = length (ma_nodes ?a)" "length (ta_contains_rewind (lc_timing lc)) = length (ma_nodes ?a)"
    using lc by (auto simp: analysed_def Let_def)
  have task: "run_task fp fa lc (Visit i start e c) st =
      run_bind (Some (eval_cycles (lc_values lc) n)) (\<lambda>count.
        if ta_contains_rewind (lc_timing lc) ! unat body then expand_loop lc (unat body) count start e c st
        else enter_loop lc i (unat body) count start e c st)"
    using i acc(1) loop body len by (simp add: run_task_def visit_node_def visit_loop_def)
  have expand: "expand_loop lc (unat body) count start e c st \<noteq> None" for count
  proof -
    have "expanded_body_visit_count ?a (unat body) \<noteq> None"
      unfolding expanded_body_visit_count_def by (rule visit_count_total [OF i(1)]) (simp add: body)
    then show ?thesis using body len by (auto simp: expand_loop_def run_bind_None_iff simp del: not_None_eq)
  qed
  have enter: "enter_loop lc i (unat body) count start e c st \<noteq> None" for count
    using body i len by (auto simp: enter_loop_def run_bind_None_iff simp del: not_None_eq)
  show ?thesis unfolding count
  proof (rule ends_task)
    show "run_task fp fa lc (Visit i start e c) st \<noteq> None"
      unfolding task using expand enter by (auto simp: run_bind_None_iff simp del: not_None_eq)
  next
    fix pushed st1 assume r: "run_task fp fa lc (Visit i start e c) st = Some (Inr (pushed, st1))"
    then obtain n' where n': "(if ta_contains_rewind (lc_timing lc) ! unat body then expand_loop lc (unat body) n' start e c st
        else enter_loop lc i (unat body) n' start e c st) = Some (Inr (pushed, st1))"
      unfolding task by (elim run_bind_InrE) blast
    show "ends fp fa lc pushed st1 (\<lambda>st2. ends fp fa lc [] st2 (opens e 0 st))"
    proof (cases "ta_contains_rewind (lc_timing lc) ! unat body")
      case True
      with n' obtain d visits where t: "iteration_tasks (unat body) d (nat n') start e c = Inr pushed" "st1 = st\<lparr>ls_expanded_visits := visits\<rparr>"
        by (auto simp: expand_loop_def elim!: run_bind_InrE split: if_splits)
      have "opens e 0 st1 = opens e 0 st" unfolding t(2) by (auto simp: opens_def grown_def origins_def epochs_of_def fun_eq_iff)
      moreover have "ends fp fa lc pushed st1 (opens e 0 st1)"
      proof (rule ends_visits)
        fix task st' assume "task \<in> set pushed"
        then obtain s where "task = Visit (unat body) s e c" using iteration_visits [OF t(1)] by blast
        then show "ends fp fa lc [task] st' (opens e 0 st')" using IH0 by simp
      qed simp_all
      ultimately show ?thesis by (auto intro: ends_mono ends_Nil)
    next
      case False
      with n' obtain s frame where t: "pushed = [Visit (unat body) s e c, FinishLoop frame]" "st1 = st"
          "lf_ttl_start frame = length (as_ttl_events st)" "lf_direct_start frame = length (as_direct_events st)"
          "lf_opaque_start frame = length (ls_opaque_intervals st)" "lf_ordinary_start frame = length (ls_ordinary_intervals st)"
          "lf_epoch frame = e"
        by (auto simp: enter_loop_def elim!: run_bind_InrE)
      show ?thesis unfolding t(1,2)
      proof (rule ends_Cons [OF IH0])
        fix st2 assume "opens e 0 st st2"
        note fin = finish_loop_ok [OF t(3-7) this]
        show "ends fp fa lc [FinishLoop frame] st2 (\<lambda>st2. ends fp fa lc [] st2 (opens e 0 st))"
          by (rule ends_task) (use fin in \<open>auto simp: run_task_def intro: ends_Nil\<close>)
      qed
    qed
  qed
qed

text \<open>Every visit of an analysed program ends, and opens the epochs that the analysis counted.\<close>

lemma visit_ends:
  assumes lc: "analysed lc" and v: "visitable lc i e c"
  shows "ends fp fa lc [Visit i start e c] st (opens e (lc_sync_counts lc ! i) st)"
  using v
proof (induction i arbitrary: start e c st rule: less_induct)
  case (less i)
  let ?a = "lc_arena lc" let ?n = "ma_nodes ?a ! i" let ?counts = "lc_sync_counts lc"
  have i: "ma_resolved ?a" "i < length (ma_nodes ?a)" using lc less.prems by (auto simp: analysed_def visitable_def Let_def)
  have desc: "descending (ma_deps ?a)" using i(1) by (simp add: ma_resolved_def)
  note acc = node_access [OF i]
  have counts: "length ?counts = length (ma_nodes ?a)" "\<And>j. j < length (ma_nodes ?a) \<Longrightarrow> 0 \<le> ?counts ! j"
      "sync_alg (lc_target lc) (ma_label ?a i) (map (\<lambda>j. ?counts ! j) (ma_deps ?a i)) = Inr (?counts ! i)"
    using lc i(2) by (auto simp: analysed_def Let_def in_range_def)
  have leaf: "ends fp fa lc [Visit i start e c] st Q"
    if "run_task fp fa lc (Visit i start e c) st \<noteq> None"
      "\<And>pushed st'. run_task fp fa lc (Visit i start e c) st = Some (Inr (pushed, st')) \<Longrightarrow> pushed = [] \<and> Q st'" for Q
    using that by (intro ends_task) (auto intro!: ends_Nil simp del: not_None_eq)
  have node: "run_task fp fa lc (Visit i start e c) st = run_bind (node_payload ?a ?n) (\<lambda>payload.
      case mn_kind ?n of
         MWait \<Rightarrow> visit_wait lc ?n i start e st
       | MAtomic \<Rightarrow> visit_atomic fp fa lc ?n i payload start e c st
       | MOpaque \<Rightarrow> visit_opaque fp lc ?n i payload start e st
       | MInstantiate \<Rightarrow> visit_instantiate lc i payload start e st
       | MSerial \<Rightarrow> run_bind (serial_tasks lc c start e (mn_slice ?a ?n)) (\<lambda>tasks. Some (Inr (tasks, st)))
       | MParallel \<Rightarrow> Some (Inr (map (\<lambda>child. Visit (unat child) start e c) (mn_slice ?a ?n), st))
       | MLoop \<Rightarrow> visit_loop lc ?n i payload start e c st
       | MDefinitionRef \<Rightarrow> None
       | MSyncPhi \<Rightarrow> None)"
    using i(2) acc(1) by (simp add: run_task_def visit_node_def cong: morphism_node_kind.case_cong)
  have child: "ends fp fa lc [Visit (unat j) s e' c'] st' (opens e' (?counts ! unat j) st')"
    if "unat j \<in> set (ma_deps ?a i)" "visitable lc (unat j) e' c'" for j s e' c' st'
    using less.IH [OF descendingD [OF desc that(1)] that(2)] .
  from i show ?case
  proof (cases rule: node_shape)
    case (wait d s)
    have z: "?counts ! i = 0" using counts(3) acc(5) wait by (simp add: sync_alg_def)
    show ?thesis unfolding z
      by (rule leaf) (use visit_wait_ok [OF lc i(2) refl] wait node in \<open>auto simp del: not_None_eq\<close>)
  next
    case (atomic f a n args)
    note ok = visit_atomic_ok [OF lc less.prems atomic(1-3,5) refl]
    show ?thesis by (rule leaf) (use ok atomic node in \<open>auto simp del: not_None_eq\<close>)
  next
    case (opaque d a n meta calls)
    have z: "?counts ! i = 0" using counts(3) acc(5) opaque by (simp add: sync_alg_def)
    show ?thesis unfolding z
      by (rule leaf) (use visit_opaque_ok [OF lc i(2) refl] opaque node in \<open>auto simp del: not_None_eq\<close>)
  next
    case (loop n body)
    show ?thesis
      by (rule visit_loop_ends [OF lc less.prems loop(1,2,4,5) child]) (simp add: loop(5))
  next
    case (definition_ref f a n args)
    then show ?thesis using lc i by (auto simp: analysed_def Let_def)
  next
    case sync_phi
    then show ?thesis using lc i by (auto simp: analysed_def Let_def)
  next
    case serial
    have sum: "?counts ! i = sum_list (map (\<lambda>j. ?counts ! unat j) (mn_slice ?a ?n))"
      using counts(3) acc(5) serial by (auto simp: sync_alg_def comp_def)
    have below: "\<forall>j\<in>set (mn_slice ?a ?n). unat j < length (ma_nodes ?a) \<and> 0 \<le> ?counts ! unat j" using acc(3) counts(2) by blast
    have total: "serial_tasks lc c s e' cs \<noteq> None" if "\<forall>j\<in>set cs. unat j < length (ma_nodes ?a)" for s e' cs
      using that lc by (induction cs arbitrary: s e')
        (auto simp: analysed_def Let_def run_bind_None_iff simp del: not_None_eq)
    show ?thesis unfolding sum
    proof (rule ends_task)
      show "run_task fp fa lc (Visit i start e c) st \<noteq> None"
        using node serial total below by (auto simp: run_bind_None_iff simp del: not_None_eq)
    next
      fix pushed st1 assume "run_task fp fa lc (Visit i start e c) st = Some (Inr (pushed, st1))"
      then have t: "serial_tasks lc c start e (mn_slice ?a ?n) = Some (Inr pushed)" "st1 = st"
        using node serial by (auto elim!: run_bind_InrE)
      have "ends fp fa lc pushed st (opens e (sum_list (map (\<lambda>j. ?counts ! unat j) (mn_slice ?a ?n))) st)"
        by (rule serial_visits [OF child below _ _ refl t(1) counts(1)])
          (use less.prems in \<open>simp_all add: serial(3) visitable_def\<close>)
      then show "ends fp fa lc pushed st1 (\<lambda>st2. ends fp fa lc [] st2 (opens e (sum_list (map (\<lambda>j. ?counts ! unat j) (mn_slice ?a ?n))) st))"
        unfolding t(2) by (auto intro: ends_mono ends_Nil)
    qed
  next
    case parallel
    have same: "?counts ! unat j = ?counts ! i" if "j \<in> set (mn_slice ?a ?n)" for j
      using counts(3) acc(5) parallel that by (auto simp: sync_alg_def split: if_splits)
    show ?thesis
    proof (rule ends_task)
      show "run_task fp fa lc (Visit i start e c) st \<noteq> None" using node parallel by simp
    next
      fix pushed st1 assume "run_task fp fa lc (Visit i start e c) st = Some (Inr (pushed, st1))"
      then have t: "pushed = map (\<lambda>child. Visit (unat child) start e c) (mn_slice ?a ?n)" "st1 = st" using node parallel by auto
      have v: "visitable lc (unat j) e c" if "j \<in> set (mn_slice ?a ?n)" for j
        using less.prems acc(3) that same [OF that] by (auto simp: visitable_def)
      have "ends fp fa lc pushed st (opens e (?counts ! i) st)"
      proof (rule ends_visits)
        fix task st' assume "task \<in> set pushed"
        then obtain j where "j \<in> set (mn_slice ?a ?n)" "task = Visit (unat j) start e c" unfolding t(1) by auto
        then show "ends fp fa lc [task] st' (opens e (?counts ! i) st')"
          using child [OF _ v] same parallel(3) by simp
      qed (use t(1) parallel(4) counts(2) [OF i(2)] in simp_all)
      then show "ends fp fa lc pushed st1 (\<lambda>st2. ends fp fa lc [] st2 (opens e (?counts ! i) st))"
        unfolding t(2) by (auto intro: ends_mono ends_Nil)
    qed
  next
    case (inst t ch)
    let ?r = "template_root (ma_templates ?a ! unat t)"
    have same: "?counts ! unat ?r = ?counts ! i" using counts(3) acc(5) inst by (simp add: sync_alg_def)
    have ch: "unat ch < length (ma_channels ?a)"
    proof -
      obtain payload where "node_payload ?a ?n = Some (Inr payload)" "\<And>p. payload = Some p \<Longrightarrow> payload_refs_ok ?a p"
        using node_payload_access [OF i] by metis
      then show ?thesis using inst(2) by (auto simp: payload_refs_ok_def)
    qed
    have v: "visitable lc (unat ?r) e (Some (unat ch))" using less.prems inst(6) same ch by (simp add: visitable_def)
    note occ = occupy_channel_ok [OF lc i(2) ch]
    show ?thesis
    proof (rule ends_task)
      show "run_task fp fa lc (Visit i start e c) st \<noteq> None"
        using node inst occ(1) by (auto simp: visit_instantiate_def run_bind_None_iff simp del: not_None_eq)
    next
      fix pushed st1 assume "run_task fp fa lc (Visit i start e c) st = Some (Inr (pushed, st1))"
      then have t: "pushed = [Visit (unat ?r) start e (Some (unat ch))]" "opens e 0 st st1"
        using node inst occ(2) by (auto simp: visit_instantiate_def elim!: run_bind_InrE)
      have "ends fp fa lc pushed st1 (opens e (?counts ! i) st1)" unfolding t(1) using child [OF _ v] inst same by simp
      then show "ends fp fa lc pushed st1 (\<lambda>st2. ends fp fa lc [] st2 (opens e (?counts ! i) st))"
        using opens_then [OF t(2), simplified] counts(2) [OF i(2)] by (auto intro: ends_mono ends_Nil)
    qed
  qed
qed

end
