(* ===== verification/Scheduler_Soundness.thy ===== *)
theory Scheduler_Soundness
  imports Board_Scheduler "HOL-Library.Multiset"
begin

text \<open>What the board scheduler guarantees.\<close>

section \<open>The timeline of a plan\<close>

text \<open>A plan as it runs on the board: pauses and calls, one directly after the other.\<close>

datatype board_step = Pad int | Play direct_event

fun render :: "int \<Rightarrow> board_step list \<Rightarrow> oasm_call list" where
  "render t [] = []"
| "render t (Pad n # steps) = wait_call t n # render (t + n) steps"
| "render t (Play e # steps) =
     \<lparr>call_offset_cycles = t, call_function = de_function e, call_args = de_args e\<rparr>
     # render (t + de_instruction_cost_cycles e) steps"

fun step_length :: "board_step \<Rightarrow> int" where
  "step_length (Pad n) = n"
| "step_length (Play e) = de_instruction_cost_cycles e"

fun played :: "board_step list \<Rightarrow> direct_event list" where
  "played [] = []"
| "played (Pad n # steps) = played steps"
| "played (Play e # steps) = e # played steps"

fun start_times :: "int \<Rightarrow> board_step list \<Rightarrow> int list" where
  "start_times t [] = []"
| "start_times t (Pad n # steps) = start_times (t + n) steps"
| "start_times t (Play e # steps) = t # start_times (t + de_instruction_cost_cycles e) steps"

text \<open>Start times that respect the offsets, the order and the costs of the events.\<close>

fun feasible :: "int \<Rightarrow> direct_event list \<Rightarrow> int list \<Rightarrow> bool" where
  "feasible t [] [] \<longleftrightarrow> True"
| "feasible t (e # es) (s # ss) \<longleftrightarrow> t \<le> s \<and> de_offset_cycles e \<le> s \<and> feasible (s + de_instruction_cost_cycles e) es ss"
| "feasible t _ _ \<longleftrightarrow> False"

fun board_steps :: "int \<Rightarrow> direct_event list \<Rightarrow> board_step list" where
  "board_steps t [] = []"
| "board_steps t (e # es) =
     (if de_offset_cycles e > t then [Pad (de_offset_cycles e - t)] else [])
     @ Play e # board_steps (max (de_offset_cycles e) t + de_instruction_cost_cycles e) es"

lemma render_append: "render t (xs @ ys) = render t xs @ render (t + sum_list (map step_length xs)) ys"
  by (induction t xs rule: render.induct) (auto simp: add.assoc)

lemma played_append [simp]: "played (xs @ ys) = played xs @ played ys"
  by (induction xs rule: played.induct) auto

lemma played_board_steps [simp]: "played (board_steps t es) = es"
  by (induction t es rule: board_steps.induct) auto

lemma emit_calls_render:
  "emit_calls t es = Inr (final, calls) \<Longrightarrow>
     calls = render t (board_steps t es) \<and> final = t + sum_list (map step_length (board_steps t es))"
proof (induction t es arbitrary: final calls rule: board_steps.induct)
  case (2 t e es)
  let ?s = "max (de_offset_cycles e) t"
  from "2.prems" obtain calls' where "emit_calls (?s + de_instruction_cost_cycles e) es = Inr (final, calls')"
    "calls = (if de_offset_cycles e > t then [wait_call t (de_offset_cycles e - t)] else [])
       @ \<lparr>call_offset_cycles = ?s, call_function = de_function e, call_args = de_args e\<rparr> # calls'"
    by (auto simp: Let_def res_simps split: prod.splits)
  with "2.IH" show ?case by (auto simp: max_def)
qed simp

lemma feasible_board_steps: "feasible t es (start_times t (board_steps t es))"
  by (induction t es rule: board_steps.induct) (auto simp: max_def)

lemma feasible_mono: "feasible t es ss \<Longrightarrow> t' \<le> t \<Longrightarrow> feasible t' es ss"
  by (cases es; cases ss) auto

lemma board_steps_earliest:
  "feasible t es ss \<Longrightarrow> list_all2 (\<le>) (start_times t (board_steps t es)) ss"
proof (induction t es arbitrary: ss rule: board_steps.induct)
  case (2 t e es)
  from "2.prems" obtain s ss' where ss: "ss = s # ss'" by (cases ss) auto
  let ?s = "max (de_offset_cycles e) t"
  have "?s \<le> s" "feasible (s + de_instruction_cost_cycles e) es ss'" using "2.prems" ss by auto
  then have "list_all2 (\<le>) (start_times (?s + de_instruction_cost_cycles e) (board_steps (?s + de_instruction_cost_cycles e) es)) ss'"
    using feasible_mono [of "s + de_instruction_cost_cycles e" es ss' "?s + de_instruction_cost_cycles e"] by (intro "2.IH") simp
  then show ?case using \<open>?s \<le> s\<close> ss by (auto simp: max_def split: if_splits)
next
  case (1 t)
  then show ?case by (cases ss) auto
qed

section \<open>Costs, order and placement of events\<close>

lemma raise_cost_props:
  assumes "raise_cost fa e = Inr e'"
  shows "e' = e\<lparr>de_instruction_cost_cycles := de_instruction_cost_cycles e'\<rparr>"
    "de_instruction_cost_cycles e \<le> de_instruction_cost_cycles e'"
    "\<exists>c. oasm_call_cost fa e' = Inr c \<and> c \<le> de_instruction_cost_cycles e'"
proof -
  from assms obtain c where c: "oasm_call_cost fa e = Inr c" "e' = e\<lparr>de_instruction_cost_cycles := max (de_instruction_cost_cycles e) c\<rparr>"
    by (auto simp: raise_cost_def res_simps)
  moreover have "oasm_call_cost fa e' = oasm_call_cost fa e" by (rule oasm_call_cost_cong) (simp_all add: c(2))
  ultimately show "e' = e\<lparr>de_instruction_cost_cycles := de_instruction_cost_cycles e'\<rparr>"
    "de_instruction_cost_cycles e \<le> de_instruction_cost_cycles e'"
    "\<exists>c. oasm_call_cost fa e' = Inr c \<and> c \<le> de_instruction_cost_cycles e'"
    by simp_all
qed

lemma schedule_sorted:
  assumes "schedule_board_events fa parts extra = Inr evs"
  shows "sorted (map schedule_key evs)"
    "\<forall>e\<in>set evs. \<exists>c. oasm_call_cost fa e = Inr c \<and> c \<le> de_instruction_cost_cycles e"
proof -
  from assms obtain ps raised where r: "res_traverse (raise_cost fa) (concat ps @ extra) = Inr raised" "evs = sort_key schedule_key raised"
    by (auto simp: schedule_board_events_def res_simps)
  show "sorted (map schedule_key evs)" by (simp add: r(2))
  show "\<forall>e\<in>set evs. \<exists>c. oasm_call_cost fa e = Inr c \<and> c \<le> de_instruction_cost_cycles e"
    using r(1) raise_cost_props(3) by (auto simp: r(2) res_simps list_all2_conv_all_nth in_set_conv_nth) metis
qed

definition raised :: "f64_arith \<Rightarrow> direct_event \<Rightarrow> direct_event" where
  "raised fa e = (case oasm_call_cost fa e of
     Inl _ \<Rightarrow> e | Inr c \<Rightarrow> e\<lparr>de_instruction_cost_cycles := max (de_instruction_cost_cycles e) c\<rparr>)"

lemma raise_cost_raised: "raise_cost fa e = Inr e' \<Longrightarrow> e' = raised fa e"
  by (auto simp: raise_cost_def raised_def res_simps)

lemma raised_fields [simp]:
  "de_epoch (raised fa e) = de_epoch e" "de_offset_cycles (raised fa e) = de_offset_cycles e"
  "de_board (raised fa e) = de_board e" "de_function (raised fa e) = de_function e" "de_args (raised fa e) = de_args e"
  "de_order (raised fa e) = de_order e" "de_group_id (raised fa e) = de_group_id e" "de_preload (raised fa e) = de_preload e"
  "de_loop_scope (raised fa e) = de_loop_scope e"
  by (simp_all add: raised_def split: sum.splits)

lemma raised_idem [simp]: "raised fa (raised fa e) = raised fa e"
proof -
  have "oasm_call_cost fa (raised fa e) = oasm_call_cost fa e" by (rule oasm_call_cost_cong) simp_all
  then show ?thesis by (cases "oasm_call_cost fa e") (simp_all add: raised_def)
qed

lemma traverse_raised: "res_traverse (raise_cost fa) es = Inr es' \<Longrightarrow> es' = map (raised fa) es"
  by (auto simp: res_simps list_all2_conv_all_nth intro!: nth_equalityI raise_cost_raised)

subsection \<open>Placement of preloads\<close>

lemma fold_min_in: "fold min ys (x::int) \<in> set (x # ys)"
proof -
  have "Min (set (x # ys)) = fold min ys x" by (simp only: Min.set_eq_fold)
  then show ?thesis using Min_in [of "set (x # ys)"] by simp
qed

lemma preload_start_bounds:
  assumes "0 \<le> cost" "0 \<le> deadline" "0 \<le> next"
  shows "0 \<le> preload_start events next deadline group_id cost"
    "preload_start events next deadline group_id cost \<le> deadline"
    "preload_start events next deadline group_id cost \<le> next"
    "0 < preload_start events next deadline group_id cost \<Longrightarrow>
       preload_start events next deadline group_id cost + cost \<le> min deadline next"
proof -
  let ?latest = "min deadline next" and ?start = "saturating_sub (min deadline next) cost"
  let ?hits = "map de_offset_cycles (filter (\<lambda>event.
            \<not> (de_preload event \<or> is_target_play group_id deadline event)
            \<and> ?start < saturating_add (de_offset_cycles event) (de_instruction_cost_cycles event)
            \<and> saturating_add ?start cost > de_offset_cycles event) events)"
  have s: "preload_start events next deadline group_id cost
      = saturating_sub (case min_of ?hits of None \<Rightarrow> ?latest | Some c \<Rightarrow> c) cost"
    by (simp add: preload_start_def Let_def)
  have hit: "c < ?start + cost" if "min_of ?hits = Some c" for c
  proof -
    from that have "c \<in> set ?hits" using fold_min_in by (auto simp: min_of_def split: list.splits simp del: set_map)
    then show ?thesis by (auto simp: saturating_add_def)
  qed
  have r: "saturating_sub (case min_of ?hits of None \<Rightarrow> ?latest | Some c \<Rightarrow> c) cost \<le> ?start"
    using hit by (cases "min_of ?hits") (auto simp: saturating_sub_def)
  have "?start \<le> ?latest" using assms by (auto simp: saturating_sub_def)
  then show "preload_start events next deadline group_id cost \<le> deadline"
    "preload_start events next deadline group_id cost \<le> next" using r s by auto
  show "0 \<le> preload_start events next deadline group_id cost" by (simp add: s saturating_sub_def)
  assume "0 < preload_start events next deadline group_id cost"
  then show "preload_start events next deadline group_id cost + cost \<le> min deadline next"
    using r s by (auto simp: saturating_sub_def max_def split: if_splits)
qed

text \<open>An event whose offset may have been moved to an earlier time.\<close>

definition moved_earlier :: "direct_event \<Rightarrow> direct_event \<Rightarrow> bool" where
  "moved_earlier e e' \<longleftrightarrow> e' = e\<lparr>de_offset_cycles := de_offset_cycles e'\<rparr> \<and> 0 \<le> de_offset_cycles e'
     \<and> de_offset_cycles e' \<le> de_offset_cycles e \<and> (\<not> de_preload e \<longrightarrow> e' = e)"

lemma set_offsets_length [simp]: "length (set_offsets s is es) = length es"
  unfolding set_offsets_def by (induction "is" arbitrary: es) auto

lemma set_offsets_nth:
  "i < length es \<Longrightarrow> set_offsets s is es ! i = (if i \<in> set is then (es ! i)\<lparr>de_offset_cycles := s\<rparr> else es ! i)"
proof (induction "is" arbitrary: es)
  case (Cons j js)
  then have "set_offsets s (j # js) es ! i = set_offsets s js (es[j := (es ! j)\<lparr>de_offset_cycles := s\<rparr>]) ! i"
    by (simp add: set_offsets_def)
  also have "\<dots> = (if i \<in> set js then (es[j := (es ! j)\<lparr>de_offset_cycles := s\<rparr>] ! i)\<lparr>de_offset_cycles := s\<rparr>
      else es[j := (es ! j)\<lparr>de_offset_cycles := s\<rparr>] ! i)" using Cons by simp
  also have "\<dots> = (if i \<in> set (j # js) then (es ! i)\<lparr>de_offset_cycles := s\<rparr> else es ! i)"
    using Cons.prems by (cases "i = j") (auto simp: nth_list_update)
  finally show ?case .
qed (simp add: set_offsets_def)

lemma preload_cost_nonneg: "preload_cost es is = Inr c \<Longrightarrow> 0 \<le> c"
  unfolding preload_cost_def by (erule res_foldl_invariant) (auto simp: in_range_def)

lemma place_preloads_moved:
  assumes "place_preloads pairs next es = Inr es'" "0 \<le> next"
    and "\<forall>(deadline, order, group_id, is)\<in>set pairs. 0 \<le> deadline
      \<and> (\<forall>i\<in>set is. i < length es0 \<and> de_preload (es0 ! i) \<and> de_offset_cycles (es0 ! i) = deadline)"
    and "list_all2 moved_earlier es0 es"
  shows "list_all2 moved_earlier es0 es'"
  using assms
proof (induction pairs "next" es rule: place_preloads.induct)
  case (2 deadline order group_id "is" rest "next" es)
  from "2.prems"(1) obtain cost where c: "preload_cost es is = Inr cost"
    and rest: "place_preloads rest (preload_start es next deadline group_id cost)
      (set_offsets (preload_start es next deadline group_id cost) is es) = Inr es'"
    by (auto simp: res_simps Let_def)
  let ?s = "preload_start es next deadline group_id cost"
  have s: "0 \<le> ?s" "?s \<le> deadline"
    using preload_start_bounds [of cost deadline "next"] preload_cost_nonneg [OF c] "2.prems"(2,3) by auto
  have "list_all2 moved_earlier es0 (set_offsets ?s is es)"
    unfolding list_all2_conv_all_nth
  proof (intro conjI allI impI)
    show "length es0 = length (set_offsets ?s is es)" using "2.prems"(4) by (simp add: list_all2_lengthD)
    fix i assume i: "i < length es0"
    then have m: "moved_earlier (es0 ! i) (es ! i)" and i': "i < length es"
      using "2.prems"(4) by (auto simp: list_all2_conv_all_nth)
    have e: "es ! i = (es0 ! i)\<lparr>de_offset_cycles := de_offset_cycles (es ! i)\<rparr>" using m unfolding moved_earlier_def by blast
    have "i \<in> set is \<Longrightarrow> (es ! i)\<lparr>de_offset_cycles := ?s\<rparr> = (es0 ! i)\<lparr>de_offset_cycles := ?s\<rparr>"
      by (subst e) simp
    then show "moved_earlier (es0 ! i) (set_offsets ?s is es ! i)"
      using m s "2.prems"(3) i by (auto simp: set_offsets_nth [OF i'] moved_earlier_def)
  qed
  then show ?case using "2.IH" [OF refl rest] "2.prems"(3) s by auto
qed simp

lemma preload_pairs_indices:
  assumes "(deadline, order, group_id, is) \<in> set (preload_pairs es)" "i \<in> set is"
  shows "i < length es \<and> de_preload (es ! i) \<and> de_offset_cycles (es ! i) = deadline"
  using assms
  by (auto simp: preload_pairs_def Let_def group_key_def in_set_enumerate_eq)

lemma preload_pairs_deadline:
  assumes "(deadline, order, group_id, is) \<in> set (preload_pairs es)"
  shows "\<exists>e\<in>set es. de_offset_cycles e = deadline"
  using assms by (auto simp: preload_pairs_def Let_def group_key_def in_set_enumerate_eq) (metis nth_mem)

lemma schedule_preloads_moved:
  assumes "schedule_preloads es = Inr es'" "\<forall>e\<in>set es. 0 \<le> de_offset_cycles e"
  shows "list_all2 moved_earlier es es'"
proof (rule place_preloads_moved [OF assms(1) [unfolded schedule_preloads_def]])
  show "0 \<le> u64_max" by (simp add: u64_max_def)
  show "\<forall>(deadline, order, group_id, is)\<in>set (rev (preload_pairs es)). 0 \<le> deadline
      \<and> (\<forall>i\<in>set is. i < length es \<and> de_preload (es ! i) \<and> de_offset_cycles (es ! i) = deadline)"
    using preload_pairs_indices preload_pairs_deadline assms(2) by fastforce
  show "list_all2 moved_earlier es es" using assms(2) by (auto simp: list_all2_conv_all_nth moved_earlier_def)
qed

lemma start_times_pad [simp]: "start_times t (xs @ [Pad n]) = start_times t xs"
  by (induction t xs rule: start_times.induct) auto

lemma board_steps_pads: "Pad n \<in> set (board_steps t es) \<Longrightarrow> 0 < n"
  by (induction t es rule: board_steps.induct) (auto split: if_splits)

lemma compile_board_parts:
  assumes "compile_board fa input = Some (Inr plan)"
  obtains ttl direct calls scheduled cursor emitted where
    "res_traverse (localize_ttl (bi_epoch input) (bi_origin_cycles input)) (bi_ttl_events input) = Inr ttl"
    "res_traverse (localize_direct (bi_epoch input) (bi_origin_cycles input)) (bi_direct_events input) = Inr direct"
    "ttl_calls input (sort_key ttl_key ttl) = Some calls" "schedule_board_events fa [direct] calls = Inr scheduled"
    "emit_calls (bi_initial_cursor input) scheduled = Inr (cursor, emitted)"
    "plan = \<lparr>plan_address = bi_address input,
       plan_calls = emitted @ (if bi_duration_cycles input > cursor then [wait_call cursor (bi_duration_cycles input - cursor)] else [])\<rparr>"
  using assms by (auto simp: compile_board_def res_bind_Inr_iff bind_eq_Some_conv split: sum.splits)

section \<open>TTL calls\<close>

text \<open>The level that the events at one time leave on a channel: that of the last of them.\<close>

definition ttl_level :: "bool \<Rightarrow> nat \<Rightarrow> ttl_event list \<Rightarrow> bool" where
  "ttl_level before ch es =
     (let xs = filter (\<lambda>e. unat (te_local_id e) = ch) es in if xs = [] then before else te_high (last xs))"

lemma ttl_level_snoc:
  "ttl_level before ch (es @ [e]) = (if unat (te_local_id e) = ch then te_high e else ttl_level before ch es)"
  by (simp add: ttl_level_def Let_def)

lemma ttl_fold_append: "ttl_fold st (xs @ ys) = Option.bind (ttl_fold st xs) (\<lambda>st'. ttl_fold st' ys)"
proof (induction xs arbitrary: st)
  case (Cons x xs)
  then show ?case by (cases "ttl_join st x") auto
qed simp

lemma ttl_fold_bits:
  assumes "\<forall>e\<in>set es. unat (te_local_id e) < 64"
  shows "\<exists>st'. ttl_fold st es = Some st' \<and> (\<forall>ch<64.
    (bit (ts_mask st') ch \<longleftrightarrow> bit (ts_mask st) ch \<or> (\<exists>e\<in>set es. unat (te_local_id e) = ch))
    \<and> (bit (ts_state st') ch \<longleftrightarrow> ttl_level (bit (ts_state st) ch) ch es))"
  using assms
proof (induction es rule: rev_induct)
  case Nil
  then show ?case by (simp add: ttl_level_def)
next
  case (snoc e es)
  then obtain st1 where st1: "ttl_fold st es = Some st1" "\<forall>ch<64.
    (bit (ts_mask st1) ch \<longleftrightarrow> bit (ts_mask st) ch \<or> (\<exists>e\<in>set es. unat (te_local_id e) = ch))
    \<and> (bit (ts_state st1) ch \<longleftrightarrow> ttl_level (bit (ts_state st) ch) ch es)" by auto
  have id: "unat (te_local_id e) < 64" using snoc.prems by simp
  let ?c = "push_bit (unat (te_local_id e)) 1 :: u64"
  have c: "bit ?c ch \<longleftrightarrow> ch = unat (te_local_id e)" if "ch < 64" for ch
    using that id by (auto simp: bit_exp_iff)
  from id obtain st2 where st2: "ttl_join st1 e = Some st2" "ts_mask st2 = ts_mask st1 OR ?c"
      "ts_state st2 = (if te_high e then ts_state st1 OR ?c else ts_state st1 AND NOT ?c)"
    by (simp add: ttl_join_def channel_bit_def)
  have "(bit (ts_mask st2) ch \<longleftrightarrow> bit (ts_mask st) ch \<or> (\<exists>e\<in>set (es @ [e]). unat (te_local_id e) = ch))
    \<and> (bit (ts_state st2) ch \<longleftrightarrow> ttl_level (bit (ts_state st) ch) ch (es @ [e]))" if "ch < 64" for ch
    using st1(2) that c [OF that] by (auto simp: st2(2,3) ttl_level_snoc bit_or_iff bit_and_iff bit_not_iff)
  then show ?case using st1(1) st2(1) by (auto simp: ttl_fold_append)
qed

text \<open>A \<open>ttl_set\<close> call that writes exactly the channels with an event at its time, with their last levels.\<close>

definition ttl_call_exact :: "ttl_event list \<Rightarrow> direct_event \<Rightarrow> bool" where
  "ttl_call_exact es c \<longleftrightarrow> de_function c = TtlSet \<and> (\<exists>written levels board. de_args c = [ArgUnsigned (uint written), ArgUnsigned (uint (levels :: u64)), board]
     \<and> (\<forall>ch<64. (bit (written :: u64) ch \<longleftrightarrow> (\<exists>e\<in>set es. te_offset_cycles e = de_offset_cycles c \<and> unat (te_local_id e) = ch))
       \<and> (bit levels ch \<longleftrightarrow> ttl_level False ch (filter (\<lambda>e. te_offset_cycles e = de_offset_cycles c) es))))"

lemma sorted_filter_none: "sorted (map f (y # ys)) \<Longrightarrow> f x < f y \<Longrightarrow> filter (\<lambda>z. f z = f x) ys = []"
  by (auto simp: filter_empty_conv)

lemma takeWhile_sorted_filter:
  "sorted (map f (x # xs)) \<Longrightarrow> takeWhile (\<lambda>y. f y = f x) (x # xs) = filter (\<lambda>y. f y = f x) (x # xs)"
proof (induction xs)
  case (Cons y ys)
  show ?case
  proof (cases "f y = f x")
    case False
    then have "f x < f y" using Cons.prems by auto
    then show ?thesis using False sorted_filter_none [of f y ys x] Cons.prems by simp
  qed (use Cons in auto)
qed simp

lemma dropWhile_sorted_filter:
  "sorted (map f (x # xs)) \<Longrightarrow> dropWhile (\<lambda>y. f y = f x) (x # xs) = filter (\<lambda>y. f y \<noteq> f x) (x # xs)"
proof (induction xs)
  case (Cons y ys)
  show ?case
  proof (cases "f y = f x")
    case False
    then have "\<forall>z\<in>set ys. f z \<noteq> f x" using Cons.prems by auto
    then show ?thesis using False by (simp add: filter_id_conv)
  qed (use Cons in auto)
qed simp

lemma ttl_calls_correct:
  assumes "sorted (map te_offset_cycles es)" "\<forall>e\<in>set es. unat (te_local_id e) < 64"
  shows "\<exists>calls. ttl_calls input es = Some calls \<and> sorted_wrt (<) (map de_offset_cycles calls)
    \<and> de_offset_cycles ` set calls = te_offset_cycles ` set es \<and> (\<forall>c\<in>set calls. ttl_call_exact es c)"
  using assms
proof (induction input es rule: ttl_calls.induct)
  case (2 input e es)
  let ?t = "te_offset_cycles e"
  let ?same = "filter (\<lambda>x. te_offset_cycles x = ?t) (e # es)" and ?later = "filter (\<lambda>x. te_offset_cycles x \<noteq> ?t) (e # es)"
  note tw = takeWhile_sorted_filter [OF "2.prems"(1)] and dw = dropWhile_sorted_filter [OF "2.prems"(1)]
  obtain st where st: "ttl_fold \<lparr>ts_mask = 0, ts_state = 0, ts_cost = 0, ts_order = BOARD, ts_scope = te_loop_scope e\<rparr> ?same = Some st"
      "\<forall>ch<64. (bit (ts_mask st) ch \<longleftrightarrow> (\<exists>x\<in>set ?same. unat (te_local_id x) = ch))
        \<and> (bit (ts_state st) ch \<longleftrightarrow> ttl_level False ch ?same)"
    using ttl_fold_bits [of ?same "\<lparr>ts_mask = 0, ts_state = 0, ts_cost = 0, ts_order = BOARD, ts_scope = te_loop_scope e\<rparr>"] "2.prems"(2)
    by auto
  have "sorted (map te_offset_cycles ?later)" using "2.prems"(1) by (intro sorted_filter) simp
  moreover have "\<forall>x\<in>set ?later. unat (te_local_id x) < 64" using "2.prems"(2) by auto
  ultimately obtain calls where calls: "ttl_calls input ?later = Some calls"
      "sorted_wrt (<) (map de_offset_cycles calls)" "de_offset_cycles ` set calls = te_offset_cycles ` set ?later" "\<forall>c\<in>set calls. ttl_call_exact ?later c"
    using "2.IH" [OF refl refl refl, of st] tw dw st(1) by auto
  have out: "ttl_calls input (e # es) = Some (ttl_call input ?t st # calls)"
    using st(1) calls(1) unfolding ttl_calls.simps Let_def tw dw by simp
  have head: "ttl_call_exact (e # es) (ttl_call input ?t st)"
    unfolding ttl_call_exact_def using st(2)
    by (intro conjI exI [of _ "ts_mask st"] exI [of _ "ts_state st"] exI) (auto simp: ttl_call_def)
  have later: "ttl_call_exact (e # es) c" if c: "c \<in> set calls" for c
  proof -
    have "de_offset_cycles c \<in> te_offset_cycles ` set ?later" using c calls(3) by blast
    then have "de_offset_cycles c \<noteq> ?t" by auto
    then have eqs: "filter (\<lambda>x. te_offset_cycles x = de_offset_cycles c) ?later = filter (\<lambda>x. te_offset_cycles x = de_offset_cycles c) (e # es)"
      "\<And>P. (\<exists>x\<in>set ?later. te_offset_cycles x = de_offset_cycles c \<and> P x) \<longleftrightarrow> (\<exists>x\<in>set (e # es). te_offset_cycles x = de_offset_cycles c \<and> P x)"
      by (auto intro!: filter_cong)
    have "ttl_call_exact ?later c" using calls(4) c by blast
    then show ?thesis unfolding ttl_call_exact_def eqs .
  qed
  have first: "?t < de_offset_cycles c" if "c \<in> set calls" for c
  proof -
    from that calls(3) obtain x where "x \<in> set ?later" "de_offset_cycles c = te_offset_cycles x" by blast
    then show ?thesis using "2.prems"(1) by (auto simp: order_less_le)
  qed
  have offset: "de_offset_cycles (ttl_call input ?t st) = ?t" by (simp add: ttl_call_def)
  have "te_offset_cycles ` set (e # es) = insert ?t (te_offset_cycles ` set ?later)" by auto
  then have "de_offset_cycles ` set (ttl_call input ?t st # calls) = te_offset_cycles ` set (e # es)"
    using calls(3) offset by simp
  moreover have "sorted_wrt (<) (map de_offset_cycles (ttl_call input ?t st # calls))" using calls(2) first offset by simp
  moreover have "\<forall>c\<in>set (ttl_call input ?t st # calls). ttl_call_exact (e # es) c" using head later by simp
  ultimately show ?case using out by blast
qed simp

section \<open>Properties\<close>

text \<open>
  C19. The plan of a board is its schedule, played as early as possible: it consists of the scheduled calls in
  order, separated by pauses that end exactly when the next call is due, each step begins when the one before
  has ended, no start times that respect offsets, order and costs are earlier for any call, and the plan lasts
  at least as long as the epoch.
\<close>

theorem compile_board_earliest:
  assumes "compile_board fa input = Some (Inr plan)"
  shows "\<exists>ttl direct calls scheduled steps.
      res_traverse (localize_ttl (bi_epoch input) (bi_origin_cycles input)) (bi_ttl_events input) = Inr ttl
    \<and> res_traverse (localize_direct (bi_epoch input) (bi_origin_cycles input)) (bi_direct_events input) = Inr direct
    \<and> ttl_calls input (sort_key ttl_key ttl) = Some calls \<and> schedule_board_events fa [direct] calls = Inr scheduled
    \<and> plan_address plan = bi_address input
    \<and> plan_calls plan = render (bi_initial_cursor input) steps \<and> played steps = scheduled
    \<and> (\<forall>n. Pad n \<in> set steps \<longrightarrow> 0 < n)
    \<and> bi_duration_cycles input \<le> bi_initial_cursor input + sum_list (map step_length steps)
    \<and> feasible (bi_initial_cursor input) scheduled (start_times (bi_initial_cursor input) steps)
    \<and> (\<forall>ss. feasible (bi_initial_cursor input) scheduled ss \<longrightarrow>
         list_all2 (\<le>) (start_times (bi_initial_cursor input) steps) ss)"
proof -
  let ?t = "bi_initial_cursor input"
  from assms obtain ttl direct calls scheduled cursor emitted where parts:
    "res_traverse (localize_ttl (bi_epoch input) (bi_origin_cycles input)) (bi_ttl_events input) = Inr ttl"
    "res_traverse (localize_direct (bi_epoch input) (bi_origin_cycles input)) (bi_direct_events input) = Inr direct"
    "ttl_calls input (sort_key ttl_key ttl) = Some calls" "schedule_board_events fa [direct] calls = Inr scheduled"
    and emit: "emit_calls ?t scheduled = Inr (cursor, emitted)"
    and plan: "plan = \<lparr>plan_address = bi_address input,
       plan_calls = emitted @ (if bi_duration_cycles input > cursor then [wait_call cursor (bi_duration_cycles input - cursor)] else [])\<rparr>"
    by (rule compile_board_parts)
  define steps where "steps = board_steps ?t scheduled
    @ (if bi_duration_cycles input > cursor then [Pad (bi_duration_cycles input - cursor)] else [])"
  note em = emit_calls_render [OF emit]
  have "plan_calls plan = render ?t steps" using em by (simp add: plan steps_def render_append)
  moreover have "played steps = scheduled" by (simp add: steps_def)
  moreover have "\<forall>n. Pad n \<in> set steps \<longrightarrow> 0 < n" using board_steps_pads by (auto simp: steps_def)
  moreover have "bi_duration_cycles input \<le> ?t + sum_list (map step_length steps)" using em by (simp add: steps_def)
  moreover have "start_times ?t steps = start_times ?t (board_steps ?t scheduled)" by (simp add: steps_def)
  ultimately show ?thesis using parts feasible_board_steps [of ?t scheduled] board_steps_earliest [of ?t scheduled] plan by auto
qed

text \<open>A main board with two TTL edges at cycle 10 and a pulse play at cycle 30, in an epoch of 100 cycles.\<close>

definition edge_event :: "u8 \<Rightarrow> bool \<Rightarrow> ttl_event" where
  "edge_event ch level = \<lparr>te_epoch = 0, te_offset_cycles = 10, te_board = ''main'', te_local_id = ch, te_high = level,
     te_instruction_cost_cycles = 1, te_order = BOARD, te_loop_scope = None\<rparr>"

definition play_event :: direct_event where
  "play_event = \<lparr>de_epoch = 0, de_offset_cycles = 30, de_board = ''main'', de_function = UserDefinedFunc,
     de_args = [], de_instruction_cost_cycles = 20, de_order = BOARD, de_group_id = 1,
     de_preload = False, de_loop_scope = None\<rparr>"

definition edge_input :: board_epoch_input where
  "edge_input = \<lparr>bi_epoch = 0, bi_origin_cycles = 0, bi_address = ''main'', bi_board_kind = BoardMain,
     bi_duration_cycles = 100, bi_initial_cursor = 0, bi_ttl_events = [edge_event 3 True, edge_event 1 True],
     bi_direct_events = [play_event]\<rparr>"

definition no_arith :: f64_arith where
  "no_arith = \<lparr>fa_eq = (\<lambda>_ _. False), fa_of_int = (\<lambda>_. 0), fa_mul = (\<lambda>_ _. 0), fa_div = (\<lambda>_ _. 0),
     fa_powi = (\<lambda>_ _. 0), fa_round = (\<lambda>_. 0), fa_sub = (\<lambda>_ _. 0),
     fa_le = (\<lambda>_ _. False), fa_fract = (\<lambda>_. 0), fa_to_u64 = (\<lambda>_. 0)\<rparr>"

lemma edge_sorted: "sort_key ttl_key [edge_event 3 True, edge_event 1 True] = [edge_event 1 True, edge_event 3 True]"
  by (simp add: ttl_key_def edge_event_def word_le_nat_alt)

lemma edge_ttl: "ttl_calls edge_input [edge_event 1 True, edge_event 3 True] = Some [
    ttl_call edge_input 10 \<lparr>ts_mask = 10, ts_state = 10, ts_cost = 1, ts_order = BOARD, ts_scope = None\<rparr>]"
  by (simp add: edge_event_def ttl_join_def channel_bit_def order_max_def order_key_def BOARD_def)

lemma edge_schedule:
  "schedule_board_events no_arith [[play_event]] [ttl_call edge_input 10 \<lparr>ts_mask = 10, ts_state = 10, ts_cost = 1, ts_order = BOARD, ts_scope = None\<rparr>]
     = Inr [ttl_call edge_input 10 \<lparr>ts_mask = 10, ts_state = 10, ts_cost = 1, ts_order = BOARD, ts_scope = None\<rparr>, play_event]"
  by (simp add: schedule_board_events_def schedule_partition_def raise_cost_def oasm_call_cost_def play_event_def ttl_call_def
      eliminate_superseded_preloads_def schedule_preloads_def preload_pairs_def remove_fused_handoff_plays_def
      coalesce_direct_events_def schedule_key_def oasm_function_priority_def Let_def)

lemma edge_plan: "\<exists>plan. compile_board no_arith edge_input = Some (Inr plan)"
proof -
  have "res_traverse (localize_ttl 0 0) [edge_event 3 True, edge_event 1 True] = Inr [edge_event 3 True, edge_event 1 True]"
    "res_traverse (localize_direct 0 0) [play_event] = Inr [play_event]"
    by (simp_all add: localize_ttl_def localize_direct_def edge_event_def play_event_def checked_def in_range_def int_limits)
  moreover have "\<exists>cursor calls. emit_calls 0 [ttl_call edge_input 10 \<lparr>ts_mask = 10, ts_state = 10, ts_cost = 1, ts_order = BOARD, ts_scope = None\<rparr>,
      play_event] = Inr (cursor, calls)"
    by (simp add: ttl_call_def play_event_def checked_def in_range_def int_limits)
  moreover have "bi_epoch edge_input = 0" "bi_origin_cycles edge_input = 0" "bi_initial_cursor edge_input = 0"
    "bi_ttl_events edge_input = [edge_event 3 True, edge_event 1 True]" "bi_direct_events edge_input = [play_event]"
    by (simp_all add: edge_input_def)
  ultimately show ?thesis using edge_sorted edge_ttl edge_schedule by (auto simp: compile_board_def)
qed

theorem compile_board_earliest_witness:
  "\<exists>plan steps. compile_board no_arith edge_input = Some (Inr plan) \<and> plan_calls plan = render 0 steps
    \<and> 100 \<le> sum_list (map step_length steps)"
proof -
  from edge_plan obtain plan where p: "compile_board no_arith edge_input = Some (Inr plan)" by blast
  have "bi_initial_cursor edge_input = 0" "bi_duration_cycles edge_input = 100" by (simp_all add: edge_input_def)
  with compile_board_earliest [OF p] p show ?thesis by auto
qed

text \<open>
  Preloads only move to earlier times: scheduling changes no event but the offsets of preloads, and these
  stay non-negative and never grow.
\<close>

theorem preloads_move_earlier:
  assumes "schedule_preloads es = Inr es'" "\<forall>e\<in>set es. 0 \<le> de_offset_cycles e"
  shows "list_all2 (\<lambda>e e'. e' = e\<lparr>de_offset_cycles := de_offset_cycles e'\<rparr> \<and> 0 \<le> de_offset_cycles e'
    \<and> de_offset_cycles e' \<le> de_offset_cycles e \<and> (\<not> de_preload e \<longrightarrow> e' = e)) es es'"
  using schedule_preloads_moved [OF assms] unfolding moved_earlier_def .

definition load_event :: direct_event where
  "load_event = play_event\<lparr>de_function := RwgLoadWaveform, de_preload := True\<rparr>"

theorem preloads_move_earlier_witness:
  "\<exists>e e'. schedule_preloads [load_event, play_event\<lparr>de_function := RwgPlay\<rparr>] = Inr [e, e'] \<and> de_offset_cycles e = 10
    \<and> e' = play_event\<lparr>de_function := RwgPlay\<rparr>"
proof -
  let ?es = "[load_event, play_event\<lparr>de_function := RwgPlay\<rparr>]"
  have s: "schedule_preloads ?es = Inr [load_event\<lparr>de_offset_cycles := 10\<rparr>, play_event\<lparr>de_function := RwgPlay\<rparr>]"
    by (simp add: schedule_preloads_def preload_pairs_def load_event_def play_event_def group_key_def order_key_def BOARD_def
        preload_cost_def preload_start_def set_offsets_def is_target_play_def min_of_def saturating_sub_def saturating_add_def
        checked_def in_range_def int_limits Let_def)
  have "\<forall>e\<in>set ?es. 0 \<le> de_offset_cycles e" by (simp add: load_event_def play_event_def)
  from preloads_move_earlier [OF s this] s show ?thesis by auto
qed

text \<open>
  C25. TTL edges become one call per time: for channels below 64 the calls have strictly increasing times, one for
  each time with an edge, and each writes exactly the channels with an edge at its time, with the level of the
  last edge.
\<close>

theorem ttl_calls_exact:
  assumes "\<forall>e\<in>set es. unat (te_local_id e) < 64"
  shows "\<exists>calls. ttl_calls input (sort_key ttl_key es) = Some calls \<and> sorted_wrt (<) (map de_offset_cycles calls)
    \<and> de_offset_cycles ` set calls = te_offset_cycles ` set es \<and> (\<forall>c\<in>set calls. ttl_call_exact (sort_key ttl_key es) c)"
proof -
  have "sorted (map ttl_key (sort_key ttl_key es))" by simp
  then have "sorted (map te_offset_cycles (sort_key ttl_key es))"
    by (auto simp: sorted_wrt_map ttl_key_def elim!: sorted_wrt_mono_rel [rotated])
  from ttl_calls_correct [OF this, of input] assms show ?thesis by simp
qed

theorem ttl_calls_exact_witness:
  "\<exists>c. ttl_calls edge_input (sort_key ttl_key [edge_event 3 True, edge_event 1 True]) = Some [c] \<and> de_offset_cycles c = 10
    \<and> ttl_call_exact [edge_event 1 True, edge_event 3 True] c"
proof -
  have "\<forall>e\<in>set [edge_event 3 True, edge_event 1 True]. unat (te_local_id e) < 64" by (simp add: edge_event_def)
  from ttl_calls_exact [OF this, of edge_input] show ?thesis unfolding edge_sorted edge_ttl by (auto simp: ttl_call_def)
qed

end
