(* ===== verification/Lowering_Soundness.thy ===== *)
theory Lowering_Soundness
  imports Traversal_Soundness Scheduler_Soundness
begin

text \<open>
  Theorems about \<open>lower_events\<close> on programs that passed the analyses, about the exclusive use of boards by opaque
  operations, and about the pairing of loads and plays.
\<close>

section \<open>Analysed programs\<close>

lemma counts_step:
  assumes a: "ma_resolved a" "i < length (ma_nodes a)"
    and folds: "\<And>j. j < length (ma_nodes a) \<Longrightarrow> tree_fold alg (expanded_tree a j) = Inr (v j)"
  shows "alg (ma_label a i) (map v (ma_deps a i)) = Inr (v i)"
proof -
  have desc: "descending (ma_deps a)" using a(1) by (simp add: ma_resolved_def)
  have "res_traverse (tree_fold alg) (map (expanded_tree a) (ma_deps a i)) = Inr (map v (ma_deps a i))"
  proof -
    have "j < length (ma_nodes a)" if "j \<in> set (ma_deps a i)" for j using descendingD [OF desc that] a(2) by simp
    then show ?thesis using folds by (auto simp: res_traverse_map comp_def intro!: res_traverse_Inr_total)
  qed
  then show ?thesis using folds [OF a(2)] by (simp add: expanded_unfold [OF a(1), of i])
qed

lemma epochs_counted:
  assumes a: "ma_resolved (na_morphisms program)" and r: "analyze_epochs program target = Some (Inr counts)"
  shows "length counts = length (ma_nodes (na_morphisms program))
    \<and> (\<forall>i<length counts. u32r (counts ! i) \<and> tree_fold (sync_alg target) (expanded_tree (na_morphisms program) i) = Inr (counts ! i))"
proof -
  let ?a = "na_morphisms program"
  let ?t = "replicate (length (ma_nodes ?a)) (0 :: int)"
  have pass: "analyze_epochs program target = table_pass (epoch_node target ?a) ?t (enumerate 0 (resolved_nodes ?a))"
    by (simp add: analyze_epochs_def a Let_def)
  have t: "length ?t = length (resolved_nodes ?a)" by (simp add: a)
  note correct = epochs.pass_correct [OF t, of target, folded pass, unfolded resolved_simps [OF a] expanded_tree_def [symmetric]]
  show ?thesis using correct(2) [of counts] r by auto
qed

lemma timed_kinds:
  fixes program :: native_arenas
  defines "a \<equiv> na_morphisms program"
  assumes a: "ma_resolved a" "provenance_ok a" "target_in_range target"
    and r: "analyze_timing fp program target bindings = Some (Inr ta)"
  shows "length (ta_durations ta) = length (ma_nodes a)" "length (ta_frontiers ta) = length (ma_nodes a)"
    "length (ta_logical_frontiers ta) = length (ma_nodes a)" "length (ta_contains_rewind ta) = length (ma_nodes a)"
    "i < length (ma_nodes a) \<Longrightarrow> mn_kind (ma_nodes a ! i) \<notin> {MDefinitionRef, MSyncPhi}"
    "evaluate_link_values fp program bindings = Some (ta_evaluated_values ta)"
proof -
  obtain vals where vals: "evaluate_link_values fp program bindings = Some vals"
    using r by (cases "evaluate_link_values fp program bindings") (auto simp: analyze_timing_def timing_rows_def Let_def)
  from r obtain vs rows where rows: "timing_rows fp program target bindings = Some (Inr (vs, rows))"
      "ta = \<lparr>ta_evaluated_values = vs, ta_durations = map nt_duration rows, ta_frontiers = map nt_frontier rows,
         ta_logical_frontiers = map nt_logical_frontier rows, ta_contains_rewind = map nt_rewinds rows\<rparr>"
    by (auto simp: analyze_timing_def elim!: run_bind_InrE)
  from timing_rows_correct [OF a [unfolded a_def] vals] rows(1)
  have c: "vs = vals" "length rows = length (ma_nodes a)"
      "\<And>j. j < length (ma_nodes a) \<Longrightarrow> tree_fold (timing_alg target vals program) (expanded_tree a j) = Inr (rows ! j)"
    by (auto simp: a_def)
  then show "length (ta_durations ta) = length (ma_nodes a)" "length (ta_frontiers ta) = length (ma_nodes a)"
    "length (ta_logical_frontiers ta) = length (ma_nodes a)" "length (ta_contains_rewind ta) = length (ma_nodes a)"
    "evaluate_link_values fp program bindings = Some (ta_evaluated_values ta)"
    using rows(2) vals by simp_all
  assume i: "i < length (ma_nodes a)"
  have "timing_alg target vals program (ma_label a i) (map (\<lambda>j. rows ! j) (ma_deps a i)) = Inr (rows ! i)"
    by (rule counts_step [OF a(1) i c(3)])
  with a(1) i show "mn_kind (ma_nodes a ! i) \<notin> {MDefinitionRef, MSyncPhi}"
    using node_access(5) [OF a(1) i] content_none [OF a(1) i] by (cases rule: node_shape) (auto simp: timing_alg_def)
qed

definition lowering_inputs ::
  "native_arenas \<Rightarrow> compile_environment \<Rightarrow> target_profile \<Rightarrow> timing_analysis \<Rightarrow> int list \<Rightarrow> lowering_context" where
  "lowering_inputs program environment target timing counts =
     \<lparr>lc_program = program, lc_environment = environment, lc_target = target, lc_timing = timing, lc_sync_counts = counts\<rparr>"

text \<open>Channel numbers fit the 64-bit masks of the boards.\<close>

definition channels_fit :: "compile_environment \<Rightarrow> bool" where
  "channels_fit environment \<longleftrightarrow> (\<forall>key b. env_channels environment key = Some b \<longrightarrow> unat (cb_local_id b) < 64)"

lemma analysed_inputs:
  assumes "ma_resolved (na_morphisms program)" "provenance_ok (na_morphisms program)" "target_in_range target"
    and "analyze_timing fp program target bindings = Some (Inr ta)" "analyze_epochs program target = Some (Inr counts)"
    and "channels_fit environment"
  shows "analysed (lowering_inputs program environment target ta counts)"
  using timed_kinds [OF assms(1-4)] epochs_counted [OF assms(1,5)] assms(1,2,6)
    counts_step [OF assms(1), where alg = "sync_alg target" and v = "\<lambda>j. counts ! j"]
  by (auto simp: analysed_def lowering_inputs_def Let_def channels_fit_def)

lemma root_visitable:
  assumes lc: "analysed lc"
  shows "visitable lc (unat (ma_root (lc_arena lc))) 0 None"
proof -
  have "unat (ma_root (lc_arena lc)) < length (ma_nodes (lc_arena lc))"
    using lc by (auto simp: analysed_def Let_def ma_resolved_def ma_wf_def)
  then show ?thesis using lc by (auto simp: visitable_def analysed_def Let_def in_range_def)
qed

lemma lower_events_ends:
  assumes lc: "analysed lc"
  shows "\<exists>r. traverse fp fa lc [Visit (unat (ma_root (lc_arena lc))) 0 0 None] initial_state = Some r
    \<and> (\<forall>st. r = Inr st \<longrightarrow> opens 0 (lc_sync_counts lc ! unat (ma_root (lc_arena lc))) initial_state st)"
  using visit_ends [OF lc root_visitable [OF lc], of fp fa 0 initial_state] by (auto simp: ends_def traverse_iff)

section \<open>Exclusive use of a board\<close>

text \<open>The cycles of an interval, and the cycles that a call touches: its first one and those that it costs.\<close>

definition blocked :: "opaque_interval \<Rightarrow> int set" where
  "blocked interval = {oi_start interval..<oi_end interval}"

definition touched :: "int \<Rightarrow> int \<Rightarrow> int set" where
  "touched start cost = {c. start \<le> c \<and> (c = start \<or> c < start + cost)}"

definition foreign_ordinary :: "opaque_interval \<Rightarrow> ordinary_board_interval \<Rightarrow> bool" where
  "foreign_ordinary interval other \<longleftrightarrow> oi_epoch interval = ob_epoch other \<and> oi_board interval = ob_board other
     \<and> ob_loop_group other \<noteq> Some (oi_group_id interval)"

definition foreign_blackbox :: "opaque_interval \<Rightarrow> opaque_interval \<Rightarrow> bool" where
  "foreign_blackbox interval other \<longleftrightarrow> oi_epoch interval = oi_epoch other \<and> oi_board interval = oi_board other
     \<and> oi_group_id interval \<noteq> oi_group_id other"

definition foreign_call :: "opaque_interval \<Rightarrow> direct_event \<Rightarrow> bool" where
  "foreign_call interval event \<longleftrightarrow> de_epoch event = oi_epoch interval \<and> de_board event = oi_board interval
     \<and> de_group_id event \<noteq> oi_group_id interval \<and> de_loop_scope event \<noteq> Some (oi_group_id interval)
     \<and> \<not> (de_function event = UserDefinedFunc \<and> de_instruction_cost_cycles event = 0)"

definition foreign_edge :: "opaque_interval \<Rightarrow> ttl_event \<Rightarrow> bool" where
  "foreign_edge interval event \<longleftrightarrow> te_epoch event = oi_epoch interval \<and> te_board event = oi_board interval
     \<and> te_loop_scope event \<noteq> Some (oi_group_id interval)"

definition interval_ok :: "opaque_interval \<Rightarrow> bool" where
  "interval_ok interval \<longleftrightarrow> oi_start interval \<le> oi_end interval \<and> oi_end interval \<le> u64_max"

lemma event_conflicts_touched:
  assumes "interval_ok interval" "0 \<le> cost"
  shows "event_conflicts interval start cost \<longleftrightarrow> touched start cost \<inter> blocked interval \<noteq> {}"
proof (cases "oi_start interval = oi_end interval \<or> start \<ge> oi_end interval")
  case True
  then show ?thesis by (auto simp: event_conflicts_def touched_def blocked_def)
next
  case False
  then have lt: "oi_start interval < oi_end interval" "start < oi_end interval" using assms(1) by (auto simp: interval_ok_def)
  show ?thesis
  proof (cases "start \<ge> oi_start interval")
    case True
    then have "start \<in> touched start cost \<inter> blocked interval" using lt by (simp add: touched_def blocked_def)
    then show ?thesis using True lt by (auto simp: event_conflicts_def)
  next
    case before: False
    show ?thesis
    proof (cases "oi_start interval < start + cost")
      case True
      then have "oi_start interval \<in> touched start cost \<inter> blocked interval" using lt before by (simp add: touched_def blocked_def)
      then show ?thesis using True lt before assms(1) by (auto simp: event_conflicts_def saturating_add_def interval_ok_def)
    next
      case False
      then show ?thesis using lt before by (auto simp: event_conflicts_def saturating_add_def touched_def blocked_def)
    qed
  qed
qed

lemma intervals_disjoint: "{a..<b} \<inter> {c..<d} = {} \<longleftrightarrow> \<not> (a < b \<and> c < d \<and> a < d \<and> c < b)" for a b c d :: int
proof -
  have "max a c \<in> {a..<b} \<inter> {c..<d}" if "a < b \<and> c < d \<and> a < d \<and> c < b" using that by auto
  then show ?thesis by fastforce
qed

lemma validate_exclusive_iff:
  "validate_opaque_exclusivity intervals ordinary ttl direct = Inr () \<longleftrightarrow>
     (\<forall>i\<in>set intervals. (\<forall>j\<in>set ordinary. \<not> ordinary_conflict i j) \<and> (\<forall>e\<in>set direct. \<not> direct_conflict i e)
        \<and> (\<forall>e\<in>set ttl. \<not> ttl_conflict i e))
     \<and> sorted_wrt (\<lambda>i j. \<not> blackbox_conflict i j) intervals"
  by (induction intervals) (auto simp: res_bind_Inr_iff)

section \<open>Loads and plays\<close>

type_synonym call_signature = "oasm_function \<times> int \<times> bool \<times> string \<times> event_order"

definition signature :: "direct_event \<Rightarrow> call_signature" where
  "signature e = (de_function e, de_group_id e, de_preload e, de_board e, de_order e)"

definition plays :: "call_signature list \<Rightarrow> int list" where
  "plays cs = map (\<lambda>(_, g, _). g) (filter (\<lambda>(f, _). f = RwgPlay) cs)"

definition fresh_ids :: "call_signature list \<Rightarrow> int \<Rightarrow> bool" where
  "fresh_ids cs next \<longleftrightarrow> (\<forall>f g pre board order. (f, g, pre, board, order) \<in> set cs \<longrightarrow> g < next \<and> (pre \<longrightarrow> f = RwgLoadWaveform))"

definition plays_match :: "call_signature list \<Rightarrow> bool" where
  "plays_match cs \<longleftrightarrow> (\<forall>g pre board order f' board' order'.
     (RwgPlay, g, pre, board, order) \<in> set cs \<longrightarrow> (f', g, True, board', order') \<in> set cs \<longrightarrow> board' = board \<and> order' = order)"

definition loads_wait ::
  "(string \<rightharpoonup> channel_binding) \<Rightarrow> call_signature list \<Rightarrow> (string \<rightharpoonup> rwg_channel_state) \<Rightarrow> int \<Rightarrow> bool" where
  "loads_wait bindings cs states next \<longleftrightarrow> (\<forall>key rf t g. states key = Some (WaveformsLoaded rf t g) \<longrightarrow>
     g < next \<and> g \<notin> set (plays cs) \<and> (\<exists>b. bindings key = Some b \<and> (\<forall>f' board' order'. (f', g, True, board', order') \<in> set cs \<longrightarrow>
       board' = cb_board b \<and> order' = channel_order (cb_kind b) (cb_local_id b) g)))"

definition one_channel :: "(string \<rightharpoonup> rwg_channel_state) \<Rightarrow> bool" where
  "one_channel states \<longleftrightarrow> (\<forall>key key' rf t rf' t' g. states key = Some (WaveformsLoaded rf t g) \<longrightarrow>
     states key' = Some (WaveformsLoaded rf' t' g) \<longrightarrow> key = key')"

text \<open>
  Event ids are fresh; a group is played at most once, on the board and in the order of its loads; a group that waits
  for its play has not been played and belongs to one channel.
\<close>

definition paired ::
  "(string \<rightharpoonup> channel_binding) \<Rightarrow> call_signature list \<Rightarrow> (string \<rightharpoonup> rwg_channel_state) \<Rightarrow> int \<Rightarrow> bool" where
  "paired bindings cs states next \<longleftrightarrow> fresh_ids cs next \<and> distinct (plays cs) \<and> plays_match cs
     \<and> loads_wait bindings cs states next \<and> one_channel states"

definition waiting :: "rwg_channel_state option \<Rightarrow> bool" where
  "waiting s \<longleftrightarrow> (\<exists>rf t g. s = Some (WaveformsLoaded rf t g))"

lemma plays_append [simp]: "plays (cs @ cs') = plays cs @ plays cs'"
  by (simp add: plays_def)

lemma plays_in: "g \<in> set (plays cs) \<longleftrightarrow> (\<exists>pre board order. (RwgPlay, g, pre, board, order) \<in> set cs)"
  by (force simp: plays_def)

lemma paired_quiet:
  assumes p: "paired bindings cs states next" and le: "next \<le> next'"
    and new: "\<And>f g pre board order. (f, g, pre, board, order) \<in> set new \<Longrightarrow> g < next' \<and> \<not> pre \<and> f \<noteq> RwgPlay"
    and states: "\<And>key. states' key = states key \<or> \<not> waiting (states' key)"
  shows "paired bindings (cs @ new) states' next'"
proof -
  have plays: "plays new = []" using new by (fastforce simp: plays_def filter_empty_conv)
  have old: "states' key = Some (WaveformsLoaded rf t g) \<Longrightarrow> states key = Some (WaveformsLoaded rf t g)" for key rf t g
    using states [of key] by (auto simp: waiting_def)
  have "fresh_ids (cs @ new) next'" using p new le by (fastforce simp: paired_def fresh_ids_def)
  moreover have "plays_match (cs @ new)" using p new by (fastforce simp: paired_def plays_match_def)
  moreover have "loads_wait bindings (cs @ new) states' next'"
    unfolding loads_wait_def
  proof (intro allI impI)
    fix k rf t g assume "states' k = Some (WaveformsLoaded rf t g)"
    then have "g < next \<and> g \<notin> set (plays cs) \<and> (\<exists>b. bindings k = Some b \<and> (\<forall>f' board' order'.
        (f', g, True, board', order') \<in> set cs \<longrightarrow> board' = cb_board b \<and> order' = channel_order (cb_kind b) (cb_local_id b) g))"
      using p old unfolding paired_def loads_wait_def by blast
    then show "g < next' \<and> g \<notin> set (plays (cs @ new)) \<and> (\<exists>b. bindings k = Some b \<and> (\<forall>f' board' order'.
        (f', g, True, board', order') \<in> set (cs @ new) \<longrightarrow> board' = cb_board b \<and> order' = channel_order (cb_kind b) (cb_local_id b) g))"
      using le new by (auto simp: plays dest!: new)
  qed
  moreover have "one_channel states'" using p old unfolding paired_def one_channel_def by blast
  ultimately show ?thesis using p by (simp add: paired_def plays)
qed

lemma paired_load:
  assumes p: "paired bindings cs states next" and b: "bindings key = Some b"
    and new: "\<And>c. c \<in> set new \<Longrightarrow> c = (RwgLoadWaveform, next, True, cb_board b, channel_order (cb_kind b) (cb_local_id b) next)"
  shows "paired bindings (cs @ new) (states(key \<mapsto> WaveformsLoaded rf t next)) (next + 1)"
proof -
  let ?states = "states(key \<mapsto> WaveformsLoaded rf t next)"
  have plays: "plays new = []" using new by (fastforce simp: plays_def filter_empty_conv)
  have old: "g < next" if "(f, g, pre, board, order) \<in> set cs" for f g pre board order
    using p that by (fastforce simp: paired_def fresh_ids_def)
  have wait: "g < next" if "states k = Some (WaveformsLoaded rf' t' g)" for k rf' t' g
    using p that by (auto simp: paired_def loads_wait_def)
  have "fresh_ids (cs @ new) (next + 1)"
    unfolding fresh_ids_def
  proof (intro allI impI)
    fix f g pre board order assume "(f, g, pre, board, order) \<in> set (cs @ new)"
    then consider "(f, g, pre, board, order) \<in> set cs" | "(f, g, pre, board, order) \<in> set new" by auto
    then show "g < next + 1 \<and> (pre \<longrightarrow> f = RwgLoadWaveform)"
    proof cases
      case 1
      then have "g < next \<and> (pre \<longrightarrow> f = RwgLoadWaveform)" using p unfolding paired_def fresh_ids_def by blast
      then show ?thesis by simp
    qed (auto dest: new)
  qed
  moreover have "plays_match (cs @ new)"
    unfolding plays_match_def
  proof (intro allI impI)
    fix g pre board order f' board' order'
    assume x: "(RwgPlay, g, pre, board, order) \<in> set (cs @ new)" and y: "(f', g, True, board', order') \<in> set (cs @ new)"
    have x': "(RwgPlay, g, pre, board, order) \<in> set cs" using x by (auto dest: new)
    with old [OF this] y have "(f', g, True, board', order') \<in> set cs" by (auto dest: new)
    with x' p show "board' = board \<and> order' = order" unfolding paired_def plays_match_def by blast
  qed
  moreover have "loads_wait bindings (cs @ new) ?states (next + 1)"
    unfolding loads_wait_def
  proof (intro allI impI)
    fix k rf' t' g assume k: "?states k = Some (WaveformsLoaded rf' t' g)"
    show "g < next + 1 \<and> g \<notin> set (plays (cs @ new)) \<and> (\<exists>b. bindings k = Some b \<and> (\<forall>f' board' order'.
        (f', g, True, board', order') \<in> set (cs @ new) \<longrightarrow> board' = cb_board b \<and> order' = channel_order (cb_kind b) (cb_local_id b) g))"
    proof (cases "k = key")
      case True
      then have g: "g = next" using k by simp
      have "next \<notin> set (plays cs)" by (auto simp: plays_in dest: old)
      then show ?thesis unfolding g using True b by (auto simp: plays dest: old new)
    next
      case False
      then have s: "states k = Some (WaveformsLoaded rf' t' g)" using k by simp
      then obtain b' where "bindings k = Some b'" "g \<notin> set (plays cs)" "\<forall>f' board' order'. (f', g, True, board', order') \<in> set cs \<longrightarrow>
          board' = cb_board b' \<and> order' = channel_order (cb_kind b') (cb_local_id b') g"
        using p unfolding paired_def loads_wait_def by blast
      then show ?thesis using wait [OF s] by (auto simp: plays dest: new)
    qed
  qed
  moreover have "one_channel ?states"
    unfolding one_channel_def
  proof (intro allI impI)
    fix k k' rf1 t1 rf2 t2 g assume "?states k = Some (WaveformsLoaded rf1 t1 g)" "?states k' = Some (WaveformsLoaded rf2 t2 g)"
    moreover have "states k = Some (WaveformsLoaded rf1 t1 g) \<Longrightarrow> states k' = Some (WaveformsLoaded rf2 t2 g) \<Longrightarrow> k = k'"
      using p unfolding paired_def one_channel_def by blast
    ultimately show "k = k'" using wait [of k] wait [of k'] by (auto split: if_splits)
  qed
  ultimately show ?thesis using p by (simp add: paired_def plays)
qed

lemma paired_play:
  assumes p: "paired bindings cs states next" and s: "states key = Some (WaveformsLoaded rf t g)" and b: "bindings key = Some b"
    and s': "\<not> waiting (Some s')" and new: "new = (RwgPlay, g, False, cb_board b, channel_order (cb_kind b) (cb_local_id b) g)"
  shows "paired bindings (cs @ [new]) (states(key \<mapsto> s')) (next + 1)"
proof -
  have plays: "plays [new] = [g]" by (simp add: plays_def new)
  have g: "g < next" "g \<notin> set (plays cs)" "\<And>f' board' order'. (f', g, True, board', order') \<in> set cs \<Longrightarrow>
      board' = cb_board b \<and> order' = channel_order (cb_kind b) (cb_local_id b) g"
    using p s b by (fastforce simp: paired_def loads_wait_def)+
  have other: "states k = Some (WaveformsLoaded rf' t' g')" "g' \<noteq> g"
    if "(states(key \<mapsto> s')) k = Some (WaveformsLoaded rf' t' g')" for k rf' t' g'
  proof -
    have k: "k \<noteq> key" using that s' by (auto simp: waiting_def)
    then show "states k = Some (WaveformsLoaded rf' t' g')" using that by simp
    then show "g' \<noteq> g" using k s p unfolding paired_def one_channel_def by blast
  qed
  have "fresh_ids (cs @ [new]) (next + 1)" using p g(1) by (fastforce simp: paired_def fresh_ids_def new)
  moreover have "plays_match (cs @ [new])" using p g(3) by (fastforce simp: paired_def plays_match_def new)
  moreover have "loads_wait bindings (cs @ [new]) (states(key \<mapsto> s')) (next + 1)"
    unfolding loads_wait_def
  proof (intro allI impI)
    fix k rf' t' g' assume "(states(key \<mapsto> s')) k = Some (WaveformsLoaded rf' t' g')"
    note k = other [OF this]
    from k(1) p have "g' < next \<and> g' \<notin> set (plays cs) \<and> (\<exists>b. bindings k = Some b \<and> (\<forall>f' board' order'.
        (f', g', True, board', order') \<in> set cs \<longrightarrow> board' = cb_board b \<and> order' = channel_order (cb_kind b) (cb_local_id b) g'))"
      unfolding paired_def loads_wait_def by blast
    then show "g' < next + 1 \<and> g' \<notin> set (plays (cs @ [new])) \<and> (\<exists>b. bindings k = Some b \<and> (\<forall>f' board' order'.
        (f', g', True, board', order') \<in> set (cs @ [new]) \<longrightarrow> board' = cb_board b \<and> order' = channel_order (cb_kind b) (cb_local_id b) g'))"
      using k(2) unfolding plays_append plays by (auto simp: new)
  qed
  moreover have "one_channel (states(key \<mapsto> s'))" using p other(1) unfolding paired_def one_channel_def by blast
  ultimately show ?thesis using p g(2) by (simp add: paired_def plays)
qed

definition pairing :: "lowering_context \<Rightarrow> lowering_state \<Rightarrow> bool" where
  "pairing lc st \<longleftrightarrow> paired (env_channels (lc_environment lc)) (map signature (as_direct_events st)) (as_rwg_states st) (ls_next_event_id st)
     \<and> distinct (map fst (ls_epoch_origins st)) \<and> (\<forall>e\<in>set (as_ttl_events st). unat (te_local_id e) < 64)"

lemma pairing_atomic:
  assumes p: "paired bindings (map signature (as_direct_events st)) (as_rwg_states st) (ac_group_id ctx)"
    and b: "bindings (ac_channel_key ctx) = Some (ac_binding ctx)" and effect: "atomic_effect ctx st st'"
  shows "paired bindings (map signature (as_direct_events st')) (as_rwg_states st') (ac_group_id ctx + 1)"
proof -
  let ?k = "ac_channel_key ctx" let ?s = "as_rwg_states st ?k" and ?s' = "as_rwg_states st' ?k"
  obtain es where es: "as_direct_events st' = as_direct_events st @ es" "calls_of ctx ?s es"
    and moves: "rwg_moves (ac_group_id ctx) (ats_lowering (ac_schema ctx)) ?s ?s'"
    and rest: "\<And>key. key \<noteq> ?k \<Longrightarrow> as_rwg_states st' key = as_rwg_states st key"
    using effect by (auto simp: atomic_effect_def)
  have upd: "as_rwg_states st' = (as_rwg_states st)(?k := ?s')" using rest by auto
  from es(2) show ?thesis
  proof cases
    case quiet
    have "?s' = ?s \<or> \<not> waiting ?s'" using moves quiet(1) by cases (auto simp: waiting_def)
    then have "as_rwg_states st' key = as_rwg_states st key \<or> \<not> waiting (as_rwg_states st' key)" for key
      using rest by (cases "key = ?k") auto
    then show ?thesis using quiet(2) unfolding es(1) map_append
      by (intro paired_quiet [OF p]) (auto simp: signature_def)
  next
    case loads
    have "\<exists>rf t. ?s' = Some (WaveformsLoaded rf t (ac_group_id ctx))" using moves loads(1) by cases auto
    then obtain rf t where s': "as_rwg_states st' = (as_rwg_states st)(?k \<mapsto> WaveformsLoaded rf t (ac_group_id ctx))" using upd by auto
    show ?thesis unfolding es(1) map_append s'
      by (rule paired_load [OF p b]) (use loads(2) in \<open>auto simp: signature_def channel_call_def\<close>)
  next
    case (play e g rf t)
    have "\<exists>x. ?s' = Some x \<and> \<not> waiting (Some x)" using moves play by cases (auto simp: waiting_def)
    then obtain x where x: "?s' = Some x" "\<not> waiting (Some x)" by blast
    then have s': "as_rwg_states st' = (as_rwg_states st)(?k \<mapsto> x)" using upd by auto
    show ?thesis unfolding es(1) map_append s' using play x(2)
      by (simp add: paired_play [OF p play(1) b] signature_def channel_call_def)
  qed
qed

lemma fresh_event_id_Inr:
  "fresh_event_id st = Inr (g, st') \<longleftrightarrow> g = ls_next_event_id st \<and> u64r (g + 1) \<and> st' = st\<lparr>ls_next_event_id := g + 1\<rparr>"
  by (auto simp: fresh_event_id_def res_bind_Inr_iff)

lemma pairing_fresh:
  assumes "pairing lc st" "fresh_event_id st = Inr (g, st')"
  shows "pairing lc st'"
  using assms paired_quiet [of _ _ "as_rwg_states st" "ls_next_event_id st" "ls_next_event_id st + 1" "[]" "as_rwg_states st"]
  by (auto simp: pairing_def fresh_event_id_Inr)

text \<open>Direct events that belong to no channel keep the pairing.\<close>

lemma pairing_push:
  assumes p: "pairing lc st" and es: "\<And>e. e \<in> set es \<Longrightarrow> de_group_id e < ls_next_event_id st \<and> \<not> de_preload e \<and> de_function e \<noteq> RwgPlay"
    and st': "map signature (as_direct_events st') = map signature (as_direct_events st) @ map signature es"
      "as_rwg_states st' = as_rwg_states st" "ls_next_event_id st' = ls_next_event_id st" "distinct (map fst (ls_epoch_origins st'))"
      "te_local_id ` set (as_ttl_events st') \<subseteq> te_local_id ` set (as_ttl_events st)"
  shows "pairing lc st'"
proof -
  have "\<forall>e\<in>set (as_ttl_events st'). unat (te_local_id e) < 64" using p st'(5) unfolding pairing_def by fastforce
  then show ?thesis using p st'(1-4) unfolding pairing_def
    by (auto intro!: paired_quiet [where states = "as_rwg_states st"] simp: signature_def dest!: es)
qed

lemma board_event_quiet [simp]:
  "de_group_id (board_event e o' b f args c g s) = g" "de_preload (board_event e o' b f args c g s) = False"
  "de_function (board_event e o' b f args c g s) = f"
  by (simp_all add: board_event_def)

lemma sync_event_quiet [simp]:
  "de_group_id (sync_event schema e start g w p) = g" "\<not> de_preload (sync_event schema e start g w p)"
  "de_function (sync_event schema e start g w p) \<noteq> RwgPlay"
  by (cases p; simp add: sync_event_def)+

lemma pairing_sync:
  assumes "visit_sync lc schema start e g st = Some (Inr (pushed, st'))" "pairing lc st" "g < ls_next_event_id st"
  shows "pairing lc st'"
proof -
  obtain w where st': "st' = push_direct (map (sync_event schema e start g w) (tp_boards (lc_target lc)))
      (st\<lparr>ls_epoch_origins := ls_epoch_origins st @ [(e + 1, start)]\<rparr>)" "map_of (ls_epoch_origins st) (e + 1) = None"
    using assms(1) by (auto simp: visit_sync_def Let_def checked_def split: option.splits if_splits)
  show ?thesis
    by (rule pairing_push [OF assms(2), of "map (sync_event schema e start g w) (tp_boards (lc_target lc))"])
      (use assms st' in \<open>auto simp: push_direct_def pairing_def map_of_eq_None_iff\<close>)
qed

lemma pairing_channel:
  assumes "visit_channel_operation fp fa lc node i name schema args start e c g st1 = Some (Inr (pushed, st'))"
    and st: "pairing lc st" "fresh_event_id st = Inr (g, st1)"
  shows "pairing lc st'"
proof -
  from assms(1) obtain ctx where ctx: "lower_atomic_events fp fa ctx st1 = Some (Inr st')" "ac_group_id ctx = g"
      "env_channels (lc_environment lc) (ac_channel_key ctx) = Some (ac_binding ctx)"
    unfolding visit_channel_operation_def
    by (elim run_bind_InrE) (auto simp: at_source_def elim!: run_bind_InrE split: option.splits sum.splits)
  have effect: "atomic_effect ctx st1 st'" by (rule lower_atomic_effect [OF ctx(1)])
  then have "ls_next_event_id st' = ls_next_event_id st1" "ls_epoch_origins st' = ls_epoch_origins st1"
    by (cases st1; cases st'; simp add: atomic_effect_def)+
  moreover have "unat (te_local_id ev) < 64" if "ev \<in> set (as_ttl_events st')" for ev
    using that effect st by (auto simp: atomic_effect_def pairing_def fresh_event_id_Inr)
  ultimately show ?thesis
    using st pairing_atomic [where bindings = "env_channels (lc_environment lc)" and ctx = ctx, OF _ _ effect] ctx(3) by (auto simp: pairing_def fresh_event_id_Inr ctx(2))
qed

lemma pairing_blackboxes:
  assumes "pairing lc st" "g < ls_next_event_id st"
  shows "pairing lc (fold (push_blackbox e start d g) ps st)"
  using assms
proof (induction ps arbitrary: st)
  case (Cons p ps)
  let ?st = "push_blackbox e start d g p st"
  obtain ev where ev: "as_direct_events ?st = as_direct_events st @ [ev]" "as_rwg_states ?st = as_rwg_states st"
      "ls_next_event_id ?st = ls_next_event_id st" "ls_epoch_origins ?st = ls_epoch_origins st"
      "as_ttl_events ?st = as_ttl_events st"
      "de_group_id ev = g \<and> \<not> de_preload ev \<and> de_function ev = UserDefinedFunc"
    by (cases p) (auto simp: push_blackbox_def push_direct_def)
  have "pairing lc ?st"
    by (rule pairing_push [OF Cons.prems(1), of "[ev]"]) (use ev Cons.prems in \<open>auto simp: pairing_def\<close>)
  moreover note ev(3)
  ultimately show ?case using Cons by simp
qed simp

lemma pairing_atomic_visit:
  assumes "visit_atomic fp fa lc node i payload start0 e c st = Some (Inr (pushed, st'))" "pairing lc st"
  shows "pairing lc st'"
proof -
  from assms(1) obtain start g st1 name schema args where f: "fresh_event_id st = Inr (g, st1)"
    and r: "(if ats_lowering schema = GlobalSync then visit_sync lc schema start e g st1
             else if ats_lowering schema = OpaqueLowering
             then visit_opaque_operation lc name schema start e g st1
             else visit_channel_operation fp fa lc node i name schema args start e c g st1) = Some (Inr (pushed, st'))"
    unfolding visit_atomic_def by (elim run_bind_InrE) (auto elim!: run_bind_InrE split: option.splits morphism_payload.splits)
  note p1 = pairing_fresh [OF assms(2) f]
  have g: "g < ls_next_event_id st1" using f by (auto simp: fresh_event_id_Inr)
  have "pairing lc st'" if "visit_opaque_operation lc name schema start e g st1 = Some (Inr (pushed, st'))"
  proof -
    from that obtain ev where "st' = push_direct [ev] st1" "de_group_id ev = g \<and> \<not> de_preload ev \<and> de_function ev = UserDefinedFunc"
      unfolding visit_opaque_operation_def by (elim run_bind_InrE) auto
    then show ?thesis using p1 g by (intro pairing_push [OF p1, of "[ev]"]) (auto simp: push_direct_def pairing_def)
  qed
  then show ?thesis using r pairing_sync [OF _ p1 g] pairing_channel [OF _ assms(2) f] by (auto split: if_splits)
qed

lemma pairing_finish:
  assumes "finish_loop frame st = Some (Inr (pushed, st'))" "pairing lc st"
  shows "pairing lc st'"
proof -
  from assms(1) obtain g st1 body_end loop_end advance opaque ordinary where f: "fresh_event_id st = Inr (g, st1)"
    "lf_ttl_start frame \<le> length (as_ttl_events st)" "lf_direct_start frame \<le> length (as_direct_events st)"
    "st' = close_loop frame g body_end loop_end advance opaque ordinary (drop (lf_ttl_start frame) (as_ttl_events st))
       (drop (lf_direct_start frame) (as_direct_events st)) st1"
    unfolding finish_loop_def slice_from_def by (elim run_bind_InrE) (auto split: if_splits)
  note p1 = pairing_fresh [OF assms(2) f(1)]
  obtain boards where d: "as_direct_events st' = take (lf_direct_start frame) (as_direct_events st1)
      @ map (\<lambda>event. event\<lparr>de_loop_scope := Some g\<rparr>) (drop (lf_direct_start frame) (as_direct_events st))
      @ concat (map (loop_markers frame g body_end advance) boards)"
    unfolding f(4) by (auto simp: close_loop_def Let_def)
  have scoped: "signature (event\<lparr>de_loop_scope := s\<rparr>) = signature event" for event s by (simp add: signature_def)
  have same: "as_direct_events st1 = as_direct_events st" using f(1) by (auto simp: fresh_event_id_Inr)
  have "map signature (as_direct_events st') = map signature (as_direct_events st1)
      @ map signature (concat (map (loop_markers frame g body_end advance) boards))"
  proof -
    have "signature \<circ> (\<lambda>event. event\<lparr>de_loop_scope := Some g\<rparr>) = signature" by (simp add: fun_eq_iff scoped)
    moreover have "map signature (take n xs) @ map signature (drop n xs) @ zs = map signature xs @ zs" for n xs zs
      by (metis append_assoc append_take_drop_id map_append)
    ultimately show ?thesis unfolding d same map_append by simp
  qed
  moreover have "te_local_id ` set (as_ttl_events st') \<subseteq> te_local_id ` set (as_ttl_events st1)"
    using f(1) set_take_subset [of "lf_ttl_start frame" "as_ttl_events st"] set_drop_subset [of "lf_ttl_start frame" "as_ttl_events st"]
    unfolding f(4) by (auto simp: close_loop_def Let_def fresh_event_id_Inr)
  moreover have "de_group_id ev < ls_next_event_id st1 \<and> \<not> de_preload ev \<and> de_function ev \<noteq> RwgPlay"
    if "ev \<in> set (concat (map (loop_markers frame g body_end advance) boards))" for ev
    using that f(1) by (auto simp: fresh_event_id_Inr loop_markers_def)
  moreover have "as_rwg_states st' = as_rwg_states st1" "ls_next_event_id st' = ls_next_event_id st1"
      "ls_epoch_origins st' = ls_epoch_origins st1"
    unfolding f(4) by (simp_all add: close_loop_def Let_def)
  moreover have "distinct (map fst (ls_epoch_origins st1))" using p1 by (simp add: pairing_def)
  ultimately show ?thesis
    using pairing_push [OF p1, of "concat (map (loop_markers frame g body_end advance) boards)" st'] by simp
qed

lemma pairing_visit:
  assumes "visit_node fp fa lc i start e c st = Some (Inr (pushed, st'))" "pairing lc st"
  shows "pairing lc st'"
proof -
  obtain node payload where v: "(case mn_kind node of
         MWait \<Rightarrow> visit_wait lc node i start e st
       | MAtomic \<Rightarrow> visit_atomic fp fa lc node i payload start e c st
       | MOpaque \<Rightarrow> visit_opaque fp lc node i payload start e st
       | MInstantiate \<Rightarrow> visit_instantiate lc i payload start e st
       | MSerial \<Rightarrow>
           run_bind (children_by_node (lc_arena lc) node) (\<lambda>children.
           run_bind (serial_tasks lc c start e children) (\<lambda>tasks. Some (Inr (tasks, st))))
       | MParallel \<Rightarrow>
           run_bind (children_by_node (lc_arena lc) node) (\<lambda>children.
             Some (Inr (map (\<lambda>child. Visit (unat child) start e c) children, st)))
       | MLoop \<Rightarrow> visit_loop lc node i payload start e c st
       | MDefinitionRef \<Rightarrow> None
       | MSyncPhi \<Rightarrow> None) = Some (Inr (pushed, st'))"
    using assms(1) unfolding visit_node_def by (elim run_bind_InrE) blast
  show ?thesis
  proof (cases "mn_kind node")
    case MAtomic
    then show ?thesis using v pairing_atomic_visit assms(2) by simp
  next
    case MOpaque
    then obtain g st1 start duration calls where f: "fresh_event_id st = Inr (g, st1)"
        "st' = fold (push_blackbox e start duration g) calls st1"
      using v unfolding visit_opaque_def by (auto elim!: run_bind_InrE split: option.splits morphism_payload.splits)
    then show ?thesis using pairing_blackboxes [OF pairing_fresh [OF assms(2) f(1)]] by (auto simp: fresh_event_id_Inr)
  next
    case MInstantiate
    then obtain ch where "occupy_channel lc i ch start e st = Some (Inr st')"
      using v by (auto simp: visit_instantiate_def elim!: run_bind_InrE split: option.splits morphism_payload.splits)
    then show ?thesis using assms(2)
      by (auto simp: occupy_channel_def Let_def pairing_def elim!: run_bind_InrE split: if_splits)
  next
    case MLoop
    then show ?thesis using v assms(2)
      by (auto simp: visit_loop_def expand_loop_def enter_loop_def pairing_def elim!: run_bind_InrE
          split: option.splits morphism_payload.splits if_splits)
  next
    case MWait
    then show ?thesis using v assms(2) by (auto simp: visit_wait_def at_source_def elim!: run_bind_InrE split: if_splits)
  qed (use v assms(2) in \<open>auto elim!: run_bind_InrE\<close>)
qed

interpretation pairing: lowering_invariant fp fa lc "pairing lc" for fp fa lc
proof unfold_locales
  fix task st pushed st' assume "run_task fp fa lc task st = Some (Inr (pushed, st'))" "pairing lc st"
  then show "pairing lc st'"
    by (cases task) (auto simp: run_task_def intro: pairing_visit pairing_finish)
qed

lemma pairing_initial: "pairing lc initial_state"
  by (simp add: pairing_def initial_state_def paired_def fresh_ids_def plays_def plays_match_def loads_wait_def one_channel_def)

section \<open>Properties\<close>

text \<open>
  Event lowering always returns: for a program finished from a builder that passed the timing and epoch analyses, with
  channel numbers below 64, the traversal ends and nothing panics, although loops that rewind are unrolled.
\<close>

theorem event_lowering_terminates:
  assumes "built b" "unat m < length (mb_nodes b)" "mb_finish m b = Some (Inr (na_morphisms program))"
    and "provenance_ok (na_morphisms program)" "target_in_range target" "channels_fit environment"
    and "analyze_timing fp program target bindings = Some (Inr timing)" "analyze_epochs program target = Some (Inr counts)"
  shows "\<exists>r. lower_events fp fa (lowering_inputs program environment target timing counts) = Some r"
proof -
  have a: "ma_resolved (na_morphisms program)" using finish_resolved assms(1-3) by blast
  let ?lc = "lowering_inputs program environment target timing counts"
  from lower_events_ends [OF analysed_inputs [OF a assms(4,5,7,8,6)], of fp fa]
  obtain r where "traverse fp fa ?lc [Visit (unat (ma_root (lc_arena ?lc))) 0 0 None] initial_state = Some r" by blast
  then show ?thesis
    by (cases r) (simp_all add: lower_events_def run_bind_Some)
qed

text \<open>
  C12. Epochs are numbered without gaps: the lowered events of such a program have exactly one origin for each of the epochs
  \<open>0\<close> to the number of global synchronisations that the analysis counted, the first one at cycle 0, and every event and
  loop belongs to one of these epochs.
\<close>

theorem event_lowering_epochs:
  assumes "built b" "unat m < length (mb_nodes b)" "mb_finish m b = Some (Inr (na_morphisms program))"
    and "provenance_ok (na_morphisms program)" "target_in_range target" "channels_fit environment"
    and "analyze_timing fp program target bindings = Some (Inr timing)" "analyze_epochs program target = Some (Inr counts)"
    and "lower_events fp fa (lowering_inputs program environment target timing counts) = Some (Inr events)"
  shows "distinct (map fst (le_epoch_origins events))
    \<and> fst ` set (le_epoch_origins events) = {0..counts ! unat (ma_root (na_morphisms program))}
    \<and> de_epoch ` set (le_direct_events events) \<union> te_epoch ` set (le_ttl_events events) \<union> lr_epoch ` set (le_loop_regions events)
        \<subseteq> {0..counts ! unat (ma_root (na_morphisms program))}"
proof -
  have a: "ma_resolved (na_morphisms program)" using finish_resolved assms(1-3) by blast
  let ?lc = "lowering_inputs program environment target timing counts" and ?n = "counts ! unat (ma_root (na_morphisms program))"
  have lc: "analysed ?lc" by (rule analysed_inputs [OF a assms(4,5,7,8,6)])
  from assms(9) obtain st where st: "traverse fp fa ?lc [Visit (unat (ma_root (lc_arena ?lc))) 0 0 None] initial_state = Some (Inr st)"
    "events = \<lparr>le_ttl_events = as_ttl_events st, le_direct_events = as_direct_events st,
       le_loop_regions = ls_loop_regions st, le_epoch_origins = ls_epoch_origins st\<rparr>"
    unfolding lower_events_def by (elim run_bind_InrE) auto
  from lower_events_ends [OF lc, of fp fa] st(1) have "opens 0 ?n initial_state st" by (simp add: lowering_inputs_def)
  moreover have "pairing ?lc st" by (rule pairing.traverse_keeps [OF st(1) pairing_initial])
  moreover have "0 \<le> ?n" using root_visitable [OF lc] lc
    by (auto simp: visitable_def analysed_def Let_def in_range_def lowering_inputs_def)
  ultimately show ?thesis unfolding st(2)
    by (auto simp: opens_def origins_def epochs_of_def initial_state_def pairing_def)
qed

text \<open>
  C17. Loads and plays are paired: among the lowered events of any program a group of waveforms is played at most once, and a
  play is a call on the same board and with the same order as every load of its group, so that the scheduler places the
  loads before the play of their own channel.
\<close>

theorem rwg_loads_played_once:
  assumes "lower_events fp fa lc = Some (Inr events)"
  shows "distinct (map de_group_id (filter (\<lambda>e. de_function e = RwgPlay) (le_direct_events events)))
    \<and> (\<forall>play\<in>set (le_direct_events events). \<forall>load\<in>set (le_direct_events events).
         de_function play = RwgPlay \<and> de_preload load \<and> de_group_id load = de_group_id play \<longrightarrow>
         de_function load = RwgLoadWaveform \<and> de_board load = de_board play \<and> de_order load = de_order play)"
proof -
  from assms obtain st where st: "traverse fp fa lc [Visit (unat (ma_root (lc_arena lc))) 0 0 None] initial_state = Some (Inr st)"
    "le_direct_events events = as_direct_events st"
    unfolding lower_events_def by (elim run_bind_InrE) auto
  have p: "paired (env_channels (lc_environment lc)) (map signature (as_direct_events st)) (as_rwg_states st) (ls_next_event_id st)"
    using pairing.traverse_keeps [OF st(1) pairing_initial] by (simp add: pairing_def)
  have plays: "plays (map signature es) = map de_group_id (filter (\<lambda>e. de_function e = RwgPlay) es)" for es
    by (induction es) (auto simp: plays_def signature_def)
  have sig: "(de_function e, de_group_id e, de_preload e, de_board e, de_order e) \<in> set (map signature (as_direct_events st))"
    if "e \<in> set (as_direct_events st)" for e
    using that by (force simp: signature_def)
  have loads: "f = RwgLoadWaveform" if "(f, g, True, board, order) \<in> set (map signature (as_direct_events st))" for f g board order
    using p that unfolding paired_def fresh_ids_def by blast
  have match: "board' = board \<and> order' = order" if "(RwgPlay, g, pre, board, order) \<in> set (map signature (as_direct_events st))"
      "(f', g, True, board', order') \<in> set (map signature (as_direct_events st))" for g pre board order f' board' order'
    using p that unfolding paired_def plays_match_def by blast
  have "de_function load = RwgLoadWaveform \<and> de_board load = de_board play \<and> de_order load = de_order play"
    if e: "play \<in> set (as_direct_events st)" "load \<in> set (as_direct_events st)" "de_function play = RwgPlay" "de_preload load"
      "de_group_id load = de_group_id play" for play load
  proof -
    have x: "(RwgPlay, de_group_id play, de_preload play, de_board play, de_order play) \<in> set (map signature (as_direct_events st))"
      using sig [OF e(1)] e(3) by simp
    have y: "(de_function load, de_group_id play, True, de_board load, de_order load) \<in> set (map signature (as_direct_events st))"
      using sig [OF e(2)] e(4,5) by simp
    show ?thesis using loads [OF y] match [OF x y] by simp
  qed
  moreover have "distinct (map de_group_id (filter (\<lambda>e. de_function e = RwgPlay) (as_direct_events st)))"
    using p by (simp add: paired_def plays)
  ultimately show ?thesis unfolding st(2) by blast
qed

text \<open>
  C18. The exclusivity check is exact: for intervals and costs in range it passes if and only if the cycles of every opaque
  interval are disjoint from the ordinary intervals, from the other opaque intervals and from the cycles touched by the
  calls and edges on its board and in its epoch, those of the operation itself and of its own loop excepted.
\<close>

theorem opaque_exclusivity_exact:
  assumes "\<forall>i\<in>set intervals. interval_ok i" "\<forall>e\<in>set direct. 0 \<le> de_instruction_cost_cycles e"
    and "\<forall>e\<in>set ttl. 0 \<le> te_instruction_cost_cycles e"
  shows "validate_opaque_exclusivity intervals ordinary ttl direct = Inr () \<longleftrightarrow>
    (\<forall>i\<in>set intervals.
       (\<forall>j\<in>set ordinary. foreign_ordinary i j \<longrightarrow> blocked i \<inter> {ob_start j..<ob_end j} = {})
     \<and> (\<forall>e\<in>set direct. foreign_call i e \<longrightarrow> blocked i \<inter> touched (de_offset_cycles e) (de_instruction_cost_cycles e) = {})
     \<and> (\<forall>e\<in>set ttl. foreign_edge i e \<longrightarrow> blocked i \<inter> touched (te_offset_cycles e) (te_instruction_cost_cycles e) = {}))
    \<and> sorted_wrt (\<lambda>i j. foreign_blackbox i j \<longrightarrow> blocked i \<inter> blocked j = {}) intervals"
proof -
  have o': "ordinary_conflict i j \<longleftrightarrow> foreign_ordinary i j \<and> blocked i \<inter> {ob_start j..<ob_end j} \<noteq> {}" for i j
    by (auto simp: ordinary_conflict_def foreign_ordinary_def blocked_def intervals_disjoint)
  have b: "blackbox_conflict i j \<longleftrightarrow> foreign_blackbox i j \<and> blocked i \<inter> blocked j \<noteq> {}" for i j
    by (auto simp: blackbox_conflict_def foreign_blackbox_def blocked_def intervals_disjoint)
  have d: "direct_conflict i e \<longleftrightarrow> foreign_call i e \<and> blocked i \<inter> touched (de_offset_cycles e) (de_instruction_cost_cycles e) \<noteq> {}"
    if "i \<in> set intervals" "e \<in> set direct" for i e
    using that assms event_conflicts_touched [of i "de_instruction_cost_cycles e"]
    by (auto simp: direct_conflict_def foreign_call_def Int_commute)
  have t: "ttl_conflict i e \<longleftrightarrow> foreign_edge i e \<and> blocked i \<inter> touched (te_offset_cycles e) (te_instruction_cost_cycles e) \<noteq> {}"
    if "i \<in> set intervals" "e \<in> set ttl" for i e
    using that assms event_conflicts_touched [of i "te_instruction_cost_cycles e"]
    by (auto simp: ttl_conflict_def foreign_edge_def Int_commute)
  have s: "sorted_wrt (\<lambda>i j. \<not> blackbox_conflict i j) intervals
      = sorted_wrt (\<lambda>i j. foreign_blackbox i j \<longrightarrow> blocked i \<inter> blocked j = {}) intervals"
    by (rule arg_cong [where f = "\<lambda>P. sorted_wrt P intervals"]) (auto simp: fun_eq_iff b)
  show ?thesis unfolding validate_exclusive_iff s by (auto simp: o' d t)
qed

text \<open>The loop of five waits, without channels or boards.\<close>

definition pause_environment :: compile_environment where
  "pause_environment = \<lparr>env_schema_version = 1, env_channels = Map.empty, env_opaque_calls = Map.empty\<rparr>"

definition pause_analysis :: timing_analysis where
  "pause_analysis = \<lparr>ta_evaluated_values = [Inr (EvNumeric (from_i64 100) TInt64), Inr (EvNumeric (from_i64 5) TInt64)],
      ta_durations = [100, 635], ta_frontiers = [100, 635], ta_logical_frontiers = [100, 500],
      ta_contains_rewind = [False, False]\<rparr>"

definition pause_events :: lowered_events where
  "pause_events = \<lparr>le_ttl_events = [], le_direct_events = [],
     le_loop_regions = [\<lparr>lr_epoch = 0, lr_start = 0, lr_body_duration = 100, lr_count = 5, lr_marker_group_id = 0\<rparr>],
     le_epoch_origins = [(0, 0)]\<rparr>"

lemma pause_counts: "analyze_epochs pause_program pause_target = Some (Inr [0, 0])"
  by (simp add: analyze_epochs_def pause_program_def pause_eval mb_view_def Let_def epoch_node_def node_payload_def index_run_def
      nth_opt_def children_by_node_def slice_get_def)

lemma pause_fits: "channels_fit pause_environment"
  by (simp add: channels_fit_def pause_environment_def)

abbreviation pause_inputs :: lowering_context where
  "pause_inputs \<equiv> lowering_inputs pause_program pause_environment pause_target pause_analysis [0, 0]"

lemma pause_traverse:
  "traverse fp fa pause_inputs [Visit 1 0 0 None] initial_state = Some (Inr (initial_state\<lparr>
     ls_loop_regions := le_loop_regions pause_events, ls_next_event_id := 1\<rparr>))"
proof -
  let ?frame = "\<lparr>lf_start = 0, lf_epoch = 0, lf_body_duration = 100, lf_total_duration = 635, lf_count = 5, lf_ttl_start = 0,
    lf_direct_start = 0, lf_opaque_start = 0, lf_ordinary_start = 0\<rparr>"
  note eval = pause_program_def pause_eval mb_view_def lowering_inputs_def run_task_def visit_node_def node_payload_def
    index_run_def nth_opt_def initial_state_def pause_analysis_def checked_def in_range_def int_limits
  have "run_task fp fa pause_inputs (Visit 1 0 0 None) initial_state
      = Some (Inr ([Visit 0 0 0 None, FinishLoop ?frame], initial_state))"
    by (simp add: eval visit_loop_def enter_loop_def children_by_node_def slice_get_def eval_cycles_def numeric_operand_def
        from_i64_def to_cycle_count_def signed_modulo_int_def signed_divide_int_def)
  moreover have "run_task fp fa pause_inputs (Visit 0 0 0 None) initial_state = Some (Inr ([], initial_state))"
    by (simp add: eval visit_wait_def epoch_origin_def)
  moreover have "run_task fp fa pause_inputs (FinishLoop ?frame) initial_state
      = Some (Inr ([], initial_state\<lparr>ls_loop_regions := le_loop_regions pause_events, ls_next_event_id := 1\<rparr>))"
    by (simp add: run_task_def finish_loop_def slice_from_def fresh_event_id_def close_loop_def ordered_set_def initial_state_def
        pause_events_def checked_def in_range_def int_limits)
  ultimately show ?thesis by (simp add: traverse.simps)
qed

lemma pause_lowered: "lower_events fp fa pause_inputs = Some (Inr pause_events)"
proof -
  have "unat (ma_root (lc_arena pause_inputs)) = 1" by (simp add: lowering_inputs_def pause_program_def mb_view_def)
  then show ?thesis using pause_traverse [of fp fa] unfolding lower_events_def
    by (simp add: initial_state_def pause_events_def)
qed

theorem event_lowering_terminates_witness:
  "\<exists>r. lower_events no_floats no_arith pause_inputs = Some r"
  by (rule event_lowering_terminates [OF pause_built pause_program_ok(1) pause_finish pause_program_ok(2,3) pause_fits
        pause_timing [folded pause_analysis_def] pause_counts])

theorem event_lowering_epochs_witness:
  "fst ` set (le_epoch_origins pause_events) = {0..0} \<and> lr_epoch ` set (le_loop_regions pause_events) \<subseteq> {0..0}"
  using event_lowering_epochs [OF pause_built pause_program_ok(1) pause_finish pause_program_ok(2,3) pause_fits
      pause_timing [folded pause_analysis_def] pause_counts pause_lowered [of no_floats no_arith]]
  by (simp add: pause_program_def mb_view_def)

text \<open>A tone: a channel is initialised, and two waveforms are loaded and played after another.\<close>

abbreviation tone_node :: "morphism_node_kind \<Rightarrow> u32 \<Rightarrow> u32 option \<Rightarrow> morphism_node" where
  "tone_node kind edges payload \<equiv> \<lparr>mn_kind = kind, mn_edge_start = 0, mn_edge_count = edges, mn_boundary_start = 0,
     mn_payload = payload, mn_provenance = 0\<rparr>"

abbreviation tone_waveform :: json_value where
  "tone_waveform \<equiv> JObject [(''sbg_id'', JUnsigned 0), (''freq_coeffs'', JArray [JNull]), (''amp_coeffs'', JArray [JNull])]"

definition tone_program :: native_arenas where
  "tone_program = \<lparr>na_morphisms = \<lparr>ma_root = 4,
      ma_nodes = [tone_node MAtomic 0 (Some 0), tone_node MAtomic 0 (Some 1), tone_node MAtomic 0 (Some 2),
        tone_node MSerial 5 None, tone_node MInstantiate 0 (Some 3)],
      ma_edges = [0, 1, 2, 1, 2], ma_boundaries = [BAuto, BAuto, BAuto, BAuto],
      ma_payloads = [MpAtomic 0 0 1, MpAtomic 1 1 1, MpAtomic 2 2 0, MpInstantiate 0 0],
      ma_value_arguments = [0, 1], ma_opaque_calls = [], ma_templates = [\<lparr>template_root = 3\<rparr>], ma_definitions = [],
      ma_operations = [''initialize'', ''load'', ''play''], ma_channels = [''cooling''],
      ma_provenance = [\<lparr>prov_owner = ''main'', prov_line = 1, prov_column = 0\<rparr>]\<rparr>,
     na_values = \<lparr>ve_nodes = [\<lparr>ven_kind = KConstant, ven_type = TInt64, ven_edge_start = 0, ven_edge_count = 0, ven_payload = Some 0\<rparr>,
        \<lparr>ven_kind = KConstant, ven_type = TJson, ven_edge_start = 0, ven_edge_count = 0, ven_payload = Some 1\<rparr>],
      ve_edges = [], ve_payloads = [PInt64 200, PJson (JArray [tone_waveform])]\<rparr>\<rparr>"

abbreviation tone_schema :: "atomic_lowering \<Rightarrow> atomic_target_schema" where
  "tone_schema lowering \<equiv> \<lparr>ats_lowering = lowering, ats_duration_argument = None, ats_fixed_duration_cycles = Some 10,
     ats_board = None, ats_instruction_cost_cycles = 4\<rparr>"

definition tone_inputs :: lowering_context where
  "tone_inputs = \<lparr>lc_program = tone_program,
     lc_environment = \<lparr>env_schema_version = 1, env_channels = [''cooling'' \<mapsto> \<lparr>cb_board = ''rwg0'', cb_local_id = 1, cb_kind = ChannelRwg\<rparr>],
       env_opaque_calls = Map.empty\<rparr>,
     lc_target = pause_target\<lparr>tp_boards := [(''rwg0'', \<lparr>tb_kind = BoardRwg, tb_ttl_width = 32\<rparr>)],
       tp_operations := [''initialize'' \<mapsto> tone_schema RwgInitialize, ''load'' \<mapsto> tone_schema RwgLoad, ''play'' \<mapsto> tone_schema RwgPlayLowering]\<rparr>,
     lc_timing = \<lparr>ta_evaluated_values = [], ta_durations = [10, 10, 10, 50, 50], ta_frontiers = [10, 10, 10, 50, 50],
       ta_logical_frontiers = [10, 10, 10, 50, 50], ta_contains_rewind = replicate 5 False\<rparr>,
     lc_sync_counts = replicate 5 0\<rparr>"

abbreviation tone_event :: "int \<Rightarrow> oasm_function \<Rightarrow> oasm_argument list \<Rightarrow> int \<Rightarrow> bool \<Rightarrow> direct_event" where
  "tone_event offset function args group_id preload \<equiv> \<lparr>de_epoch = 0, de_offset_cycles = offset, de_board = ''rwg0'',
     de_function = function, de_args = args, de_instruction_cost_cycles = 4, de_order = channel_order ChannelRwg 1 group_id,
     de_group_id = group_id, de_preload = preload, de_loop_scope = None\<rparr>"

abbreviation tone_load :: "int \<Rightarrow> int \<Rightarrow> direct_event" where
  "tone_load offset group_id \<equiv> tone_event offset RwgLoadWaveform [ArgJson tone_waveform] group_id True"

abbreviation tone_play :: "int \<Rightarrow> int \<Rightarrow> direct_event" where
  "tone_play offset group_id \<equiv> tone_event offset RwgPlay [ArgUnsigned 2, ArgUnsigned 2] group_id False"

definition tone_carrier :: direct_event where
  "tone_carrier = tone_event 10 RwgSetCarrier [ArgUnsigned 1, ArgSigned 200] 0 False"

definition tone_state :: "rwg_channel_state option \<Rightarrow> direct_event list \<Rightarrow> int \<Rightarrow> lowering_state" where
  "tone_state s events n = initial_state\<lparr>as_rwg_states := Map.empty(''cooling'' := s), as_direct_events := events,
     ls_ordinary_intervals := [\<lparr>ob_epoch = 0, ob_start = 0, ob_end = 50, ob_board = ''rwg0'', ob_loop_group = None\<rparr>],
     ls_next_event_id := n\<rparr>"

lemmas tone_eval = tone_state_def tone_inputs_def tone_program_def run_task_def visit_node_def node_payload_def index_run_def nth_opt_def
  initial_state_def checked_def in_range_def int_limits pause_target_def children_by_node_def slice_get_def

lemma tone_enter: "run_task fp fa tone_inputs (Visit 4 0 0 None) initial_state
    = Some (Inr ([Visit 3 0 0 (Some 0)], tone_state None [] 0))"
  by (simp add: tone_eval visit_instantiate_def occupy_channel_def epoch_origin_def)

lemma tone_serial: "run_task fp fa tone_inputs (Visit 3 0 0 (Some 0)) st
    = Some (Inr ([Visit 0 0 0 (Some 0), Visit 1 10 0 (Some 0), Visit 2 20 0 (Some 0), Visit 1 30 0 (Some 0), Visit 2 40 0 (Some 0)], st))"
  by (simp add: tone_eval u32_max_def)

lemmas tone_atomic = visit_atomic_def signed_start_def fresh_event_id_def ma_payload_arguments_def visit_channel_operation_def
  lower_atomic_events_def validate_kind_def channel_event_def push_direct_def set_channel_def

lemma tone_initialize: "run_task fp fa tone_inputs (Visit 0 0 0 (Some 0)) (tone_state None [] 0)
    = Some (Inr ([], tone_state (Some RwgReady) [tone_carrier] 1))"
  by (simp add: tone_eval tone_atomic lower_rwg_initialize_def direct_call_def atomic_argument_def value_to_oasm_argument_def
      lookup_payload_def ve_payload_def ve_node_def tone_carrier_def)

lemma tone_loads: "run_task fp fa tone_inputs (Visit 1 t 0 (Some 0)) (tone_state (Some s) es g)
    = Some (Inr ([], tone_state (Some (WaveformsLoaded False ActivateUnknown g)) (es @ [tone_load t g]) (g + 1)))"
  if "s \<in> {RwgReady, RwgActiveUnknown False}" "t \<in> {10, 30}" "0 \<le> g" "g \<le> 100"
  using that
  by (auto simp: tone_eval tone_atomic lower_rwg_load_def lookup_payload_def ve_payload_def ve_node_def load_params_def json_value_of_def
      res_simps json_as_array_def json_as_object_def validate_waveform_params_def has_sbg_def json_u64_def json_as_u64_def
      idle_rf_def static_snapshot_from_waveforms_def static_snapshot_def static_coefficient_def json_as_f64_def load_waveforms_def
      emit_prepared_rwg_loads_def)

lemma tone_plays: "run_task fp fa tone_inputs (Visit 2 t 0 (Some 0)) (tone_state (Some (WaveformsLoaded False ActivateUnknown g')) es g)
    = Some (Inr ([], tone_state (Some (RwgActiveUnknown False)) (es @ [tone_play t g']) (g + 1)))"
  if "t \<in> {20, 40}" "0 \<le> g" "g \<le> 100"
  using that
  by (auto simp: tone_eval tone_atomic lower_rwg_play_def emit_rwg_play_def channel_mask_def channel_bit_def)

definition tone_events :: lowered_events where
  "tone_events = \<lparr>le_ttl_events = [],
     le_direct_events = [tone_carrier, tone_load 10 1, tone_play 20 1, tone_load 30 3, tone_play 40 3],
     le_loop_regions = [], le_epoch_origins = [(0, 0)]\<rparr>"

lemma tone_lowered: "lower_events fp fa tone_inputs = Some (Inr tone_events)"
proof -
  have "unat (ma_root (lc_arena tone_inputs)) = 4" by (simp add: tone_inputs_def tone_program_def)
  then show ?thesis
    by (simp add: lower_events_def traverse.simps tone_enter tone_serial tone_initialize tone_loads tone_plays del: One_nat_def)
      (simp add: tone_state_def initial_state_def tone_events_def)
qed

theorem rwg_loads_played_once_witness:
  "lower_events no_floats no_arith tone_inputs = Some (Inr tone_events)
   \<and> filter (\<lambda>e. de_function e = RwgPlay) (le_direct_events tone_events) = [tone_play 20 1, tone_play 40 3]
   \<and> filter de_preload (le_direct_events tone_events) = [tone_load 10 1, tone_load 30 3]
   \<and> distinct (map de_group_id [tone_play 20 1, tone_play 40 3])
   \<and> de_board (tone_load 10 1) = de_board (tone_play 20 1) \<and> de_order (tone_load 10 1) = de_order (tone_play 20 1)
   \<and> de_board (tone_load 30 3) = de_board (tone_play 40 3) \<and> de_order (tone_load 30 3) = de_order (tone_play 40 3)"
proof -
  have e: "filter (\<lambda>e. de_function e = RwgPlay) (le_direct_events tone_events) = [tone_play 20 1, tone_play 40 3]"
    "filter de_preload (le_direct_events tone_events) = [tone_load 10 1, tone_load 30 3]"
    by (simp_all add: tone_events_def tone_carrier_def)
  note ok = rwg_loads_played_once [OF tone_lowered [of no_floats no_arith]]
  have same: "de_board (tone_load t g) = de_board (tone_play t' g) \<and> de_order (tone_load t g) = de_order (tone_play t' g)"
    if "tone_load t g \<in> set (le_direct_events tone_events)" "tone_play t' g \<in> set (le_direct_events tone_events)" for t t' g
    using ok [THEN conjunct2, rule_format, OF that(2,1)] by simp
  have "de_board (tone_load 10 1) = de_board (tone_play 20 1) \<and> de_order (tone_load 10 1) = de_order (tone_play 20 1)"
    "de_board (tone_load 30 3) = de_board (tone_play 40 3) \<and> de_order (tone_load 30 3) = de_order (tone_play 40 3)"
    by (rule same; simp add: tone_events_def)+
  with ok [THEN conjunct1, unfolded e(1)] show ?thesis by (simp only: tone_lowered e)
qed

theorem opaque_exclusivity_exact_witness:
  "validate_opaque_exclusivity [\<lparr>oi_epoch = 0, oi_start = 100, oi_end = 200, oi_board = ''main'', oi_group_id = 1\<rparr>] [] []
     [board_event 0 200 ''main'' TtlSet [] 1 2 None] = Inr ()
   \<and> validate_opaque_exclusivity [\<lparr>oi_epoch = 0, oi_start = 100, oi_end = 200, oi_board = ''main'', oi_group_id = 1\<rparr>] [] []
     [board_event 0 99 ''main'' TtlSet [] 2 2 None] \<noteq> Inr ()"
proof -
  let ?i = "\<lparr>oi_epoch = 0, oi_start = 100, oi_end = 200, oi_board = ''main'', oi_group_id = 1\<rparr>"
  have "100 \<in> blocked ?i \<inter> touched 99 2" by (simp add: blocked_def touched_def)
  then have "blocked ?i \<inter> touched 99 2 \<noteq> {}" by blast
  moreover have "blocked ?i \<inter> touched 200 1 = {}" by (auto simp: blocked_def touched_def)
  ultimately show ?thesis
    using opaque_exclusivity_exact [of "[?i]" "[board_event 0 200 ''main'' TtlSet [] 1 2 None]" "[]" "[]"]
      opaque_exclusivity_exact [of "[?i]" "[board_event 0 99 ''main'' TtlSet [] 2 2 None]" "[]" "[]"]
    by (simp add: interval_ok_def board_event_def foreign_call_def int_limits)
qed

end
