(* ===== verification/Loop_Soundness.thy ===== *)
theory Loop_Soundness
  imports Plan_Builder Lowering_Soundness
begin

text \<open>
  The timing of loops (\<open>apply_loop_timing\<close> in \<open>loop_lowering.rs\<close>): the correction only delays, and by how much is
  specified from the calls of each loop's body.
\<close>

section \<open>Loops only delay\<close>

definition later_direct :: "direct_event \<Rightarrow> direct_event \<Rightarrow> bool" where
  "later_direct e e' \<longleftrightarrow> (\<exists>delay extra. 0 \<le> delay \<and> 0 \<le> extra \<and> (extra \<noteq> 0 \<longrightarrow> de_function e = LoopEnd)
     \<and> e' = e\<lparr>de_offset_cycles := de_offset_cycles e + delay, de_instruction_cost_cycles := de_instruction_cost_cycles e + extra\<rparr>)"

definition later_ttl :: "ttl_event \<Rightarrow> ttl_event \<Rightarrow> bool" where
  "later_ttl e e' \<longleftrightarrow> (\<exists>delay. 0 \<le> delay \<and> e' = e\<lparr>te_offset_cycles := te_offset_cycles e + delay\<rparr>)"

definition later_origin :: "int \<times> int \<Rightarrow> int \<times> int \<Rightarrow> bool" where
  "later_origin p p' \<longleftrightarrow> fst p' = fst p \<and> snd p \<le> snd p'"

definition delayed :: "loop_events \<Rightarrow> loop_events \<Rightarrow> bool" where
  "delayed events events' \<longleftrightarrow> list_all2 later_ttl (lv_ttl events) (lv_ttl events')
     \<and> list_all2 later_direct (lv_direct events) (lv_direct events') \<and> list_all2 later_origin (lv_origins events) (lv_origins events')"

lemma later_refl: "later_direct e e" "later_ttl t t" "later_origin p p"
proof -
  show "later_direct e e" unfolding later_direct_def by (intro exI [of _ 0]) simp
  show "later_ttl t t" unfolding later_ttl_def by (intro exI [of _ 0]) simp
qed (simp add: later_origin_def)

lemma later_trans:
  "later_direct e e1 \<Longrightarrow> later_direct e1 e2 \<Longrightarrow> later_direct e e2"
  "later_ttl t t1 \<Longrightarrow> later_ttl t1 t2 \<Longrightarrow> later_ttl t t2"
  "later_origin p p1 \<Longrightarrow> later_origin p1 p2 \<Longrightarrow> later_origin p p2"
proof -
  assume a: "later_direct e e1" and b: "later_direct e1 e2"
  from a obtain d1 x1 where 1: "0 \<le> d1" "0 \<le> x1" "x1 \<noteq> 0 \<longrightarrow> de_function e = LoopEnd"
      "e1 = e\<lparr>de_offset_cycles := de_offset_cycles e + d1, de_instruction_cost_cycles := de_instruction_cost_cycles e + x1\<rparr>"
    unfolding later_direct_def by blast
  from b obtain d2 x2 where 2: "0 \<le> d2" "0 \<le> x2" "x2 \<noteq> 0 \<longrightarrow> de_function e1 = LoopEnd"
      "e2 = e1\<lparr>de_offset_cycles := de_offset_cycles e1 + d2, de_instruction_cost_cycles := de_instruction_cost_cycles e1 + x2\<rparr>"
    unfolding later_direct_def by blast
  have "e2 = e\<lparr>de_offset_cycles := de_offset_cycles e + (d1 + d2), de_instruction_cost_cycles := de_instruction_cost_cycles e + (x1 + x2)\<rparr>"
    using 1(4) 2(4) by simp
  moreover have "x1 + x2 \<noteq> 0 \<longrightarrow> de_function e = LoopEnd" using 1(3,4) 2(3) by auto
  moreover have "0 \<le> d1 + d2" "0 \<le> x1 + x2" using 1(1,2) 2(1,2) by simp_all
  ultimately show "later_direct e e2" unfolding later_direct_def by blast
next
  assume "later_ttl t t1" "later_ttl t1 t2"
  then obtain d1 d2 where "0 \<le> d1" "0 \<le> d2" "t2 = t\<lparr>te_offset_cycles := te_offset_cycles t + (d1 + d2)\<rparr>"
    by (auto simp: later_ttl_def add.assoc)
  then show "later_ttl t t2" unfolding later_ttl_def by (intro exI [of _ "d1 + d2"]) auto
next
  show "later_origin p p1 \<Longrightarrow> later_origin p1 p2 \<Longrightarrow> later_origin p p2" by (auto simp: later_origin_def)
qed

lemma delayed_refl: "delayed events events"
  by (simp add: delayed_def later_refl list_all2_same)

lemma delayed_trans: "delayed a b \<Longrightarrow> delayed b c \<Longrightarrow> delayed a c"
  unfolding delayed_def by (blast intro: list_all2_trans later_trans)

lemma displaced_later:
  "delayed events (events\<lparr>lv_direct := map (displace_direct region boards start end' (end' + 1)) (lv_direct events),
     lv_ttl := map (displace_ttl region boards start end' (end' + 1)) (lv_ttl events)\<rparr>)"
proof -
  have "later_direct e (displace_direct region boards start end' (end' + 1) e)" for e
    unfolding later_direct_def displace_direct_def
    by (intro exI [of _ "if de_epoch e = lr_epoch region \<and> de_board e \<in> set boards
         \<and> de_loop_scope e \<noteq> Some (lr_marker_group_id region) \<and> de_offset_cycles e \<ge> start \<and> de_offset_cycles e \<le> end'
       then end' + 1 - de_offset_cycles e else 0"] exI [of _ 0]) auto
  moreover have "later_ttl e (displace_ttl region boards start end' (end' + 1) e)" for e
    unfolding later_ttl_def displace_ttl_def
    by (intro exI [of _ "if te_epoch e = lr_epoch region \<and> te_board e \<in> set boards
         \<and> te_loop_scope e \<noteq> Some (lr_marker_group_id region) \<and> te_offset_cycles e \<ge> start \<and> te_offset_cycles e \<le> end'
       then end' + 1 - te_offset_cycles e else 0"]) auto
  ultimately show ?thesis by (simp add: delayed_def list_all2_conv_all_nth later_refl)
qed

lemma delay_events_later:
  assumes "delay_events region end' delta extra events = Inr events'" "0 \<le> delta" "0 \<le> extra"
  shows "delayed events events'"
proof -
  have "later_direct e e'" if "delay_direct region end' delta extra e = Inr e'" for e e'
  proof -
    let ?m = "de_group_id e = lr_marker_group_id region \<and> de_function e = LoopEnd"
    from that assms(2,3) show ?thesis unfolding later_direct_def
      by (intro exI [of _ "de_offset_cycles e' - de_offset_cycles e"] exI [of _ "de_instruction_cost_cycles e' - de_instruction_cost_cycles e"])
        (auto simp: delay_direct_def res_bind_Inr_iff split: if_splits)
  qed
  moreover have "later_ttl e e'" if "delay_ttl region end' delta e = Inr e'" for e e'
    using that assms(2) unfolding later_ttl_def
    by (intro exI [of _ "te_offset_cycles e' - te_offset_cycles e"]) (auto simp: delay_ttl_def res_bind_Inr_iff split: if_splits)
  moreover have "later_origin p p'" if "delay_origin end' delta p = Inr p'" for p p'
    using that assms(2) by (cases p) (auto simp: later_origin_def delay_origin_def res_bind_Inr_iff split: if_splits)
  ultimately show ?thesis using assms(1)
    by (auto simp: delay_events_def delayed_def res_bind_Inr_iff res_traverse_Inr_iff elim!: list_all2_mono)
qed

lemma apply_region_later:
  assumes "apply_region fa (t0, events) region = Inr (t0', events')"
  shows "delayed events events' \<and> t0 \<le> t0'"
proof -
  let ?start = "region_start region (lv_direct events)" and ?stop = "region_start region (lv_direct events) + lr_body_duration region"
  let ?boards = "loop_boards region events"
  let ?d = "events\<lparr>lv_direct := map (displace_direct region ?boards ?start ?stop (?stop + 1)) (lv_direct events),
     lv_ttl := map (displace_ttl region ?boards ?start ?stop (?stop + 1)) (lv_ttl events)\<rparr>"
  from assms obtain actual delta where delta: "u64r delta" "(if delta = 0 then Inr (t0, ?d)
       else res_bind (delay_events region ?stop delta (saturating_sub delta (actual - lr_body_duration region)) ?d) (\<lambda>delayed.
         res_bind (ok_or (PlanError LoopDeltaOverflow) (checked_u64 (t0 + delta))) (\<lambda>t. Inr (t, delayed)))) = Inr (t0', events')"
    unfolding apply_region_def Let_def split_conv by (elim res_bind_InrE) auto
  have d: "delayed events ?d" by (rule displaced_later)
  show ?thesis
  proof (cases "delta = 0")
    case True
    then show ?thesis using delta d by simp
  next
    case False
    with delta(2) have "delay_events region ?stop delta (saturating_sub delta (actual - lr_body_duration region)) ?d = Inr events'"
        "t0' = t0 + delta" by (auto simp: res_bind_Inr_iff)
    then show ?thesis using delta(1) delayed_trans [OF d delay_events_later] by (auto simp: saturating_sub_def in_range_def)
  qed
qed

lemma apply_loop_timing_later:
  assumes "apply_loop_timing fa regions events = Inr (delta, events')"
  shows "delayed events events' \<and> 0 \<le> delta"
proof -
  have "case r of (t0', events') \<Rightarrow> delayed events0 events' \<and> t0 \<le> t0'"
    if "res_foldl (apply_region fa) (t0, events0) regions = Inr r" for t0 events0 r
    using that
  proof (induction regions arbitrary: t0 events0)
    case Nil
    then show ?case by (auto simp: delayed_refl)
  next
    case (Cons region regions)
    then obtain t1 e1 where s: "apply_region fa (t0, events0) region = Inr (t1, e1)"
      "res_foldl (apply_region fa) (t1, e1) regions = Inr r" by (auto simp: res_bind_Inr_iff)
    then show ?case using apply_region_later [OF s(1)] Cons.IH [OF s(2)] delayed_trans by (auto split: prod.splits)
  qed
  from this [of 0 events] assms show ?thesis by (auto simp: apply_loop_timing_def)
qed

section \<open>The correction exactly\<close>

text \<open>
  The specification of the correction.  A loop starts at its opening marker; the calls of its body run one after another
  on each board, as early as their offsets allow, and the excess is how much longer than declared the slowest board is.
\<close>

definition begins_at :: "oasm_loop_region \<Rightarrow> direct_event list \<Rightarrow> int" where
  "begins_at region direct =
     (case filter (\<lambda>e. de_function e = LoopBegin \<and> de_group_id e = lr_marker_group_id region) direct of
        [] \<Rightarrow> lr_start region | e # _ \<Rightarrow> de_offset_cycles e)"

definition stops_at :: "oasm_loop_region \<Rightarrow> direct_event list \<Rightarrow> int" where
  "stops_at region direct = begins_at region direct + lr_body_duration region"

definition boards_of_loop :: "oasm_loop_region \<Rightarrow> loop_events \<Rightarrow> string set" where
  "boards_of_loop region events =
     {de_board e | e. e \<in> set (lv_direct events) \<and> de_epoch e = lr_epoch region
        \<and> de_loop_scope e = Some (lr_marker_group_id region) \<and> de_group_id e \<noteq> lr_marker_group_id region}
     \<union> {te_board e | e. e \<in> set (lv_ttl events) \<and> te_epoch e = lr_epoch region
        \<and> te_loop_scope e = Some (lr_marker_group_id region)}"

definition loop_calls :: "oasm_loop_region \<Rightarrow> direct_event list \<Rightarrow> direct_event list list \<Rightarrow> bool" where
  "loop_calls region direct partitions \<longleftrightarrow>
     (let body = filter (\<lambda>e. de_loop_scope e = Some (lr_marker_group_id region) \<and> de_group_id e \<noteq> lr_marker_group_id region
            \<and> de_epoch e = lr_epoch region) direct
      in \<exists>boards. sorted boards \<and> distinct boards \<and> set boards = de_board ` set body
        \<and> partitions = map (\<lambda>board. filter (\<lambda>e. de_board e = board) body) boards)"

definition loop_edges :: "oasm_loop_region \<Rightarrow> ttl_event list \<Rightarrow> direct_event list \<Rightarrow> bool" where
  "loop_edges region ttl slots \<longleftrightarrow>
     (let body = {t \<in> set ttl. te_loop_scope t = Some (lr_marker_group_id region) \<and> te_epoch t = lr_epoch region};
          places = map (\<lambda>e. (de_board e, de_offset_cycles e)) slots
      in sorted places \<and> distinct places \<and> set places = (\<lambda>t. (te_board t, te_offset_cycles t)) ` body
        \<and> (\<forall>e \<in> set slots. de_function e = TtlSet \<and> de_args e = [] \<and> de_instruction_cost_cycles e = 1 \<and> \<not> de_preload e
             \<and> de_epoch e = lr_epoch region \<and> de_loop_scope e = Some (lr_marker_group_id region)
             \<and> de_group_id e = eo_sequence (de_order e)
             \<and> is_arg_min order_key (\<lambda>r. r \<in> te_order ` {t \<in> body. te_board t = de_board e \<and> te_offset_cycles t = de_offset_cycles e})
                 (de_order e)))"

definition run_until :: "int \<Rightarrow> direct_event list \<Rightarrow> int" where
  "run_until start calls = foldl (\<lambda>cursor e. max (de_offset_cycles e) cursor + de_instruction_cost_cycles e) start calls"

definition loop_excess :: "oasm_loop_region \<Rightarrow> int \<Rightarrow> direct_event list \<Rightarrow> int" where
  "loop_excess region start calls =
     Max (insert 0 ((\<lambda>board. run_until start (filter (\<lambda>e. de_board e = board) calls) - start - lr_body_duration region)
       ` de_board ` set calls))"

text \<open>
  With an excess of \<open>d\<close> cycles per iteration everything after the loop moves by \<open>count * d\<close>; what falls into the loop on
  one of its boards without being part of it moves behind the loop first; the closing marker stays and takes the excess
  of all iterations but the last.
\<close>

definition moved_offset :: "oasm_loop_region \<Rightarrow> string set \<Rightarrow> int \<Rightarrow> int \<Rightarrow> int \<Rightarrow> int \<Rightarrow> string \<Rightarrow> int option \<Rightarrow> int \<Rightarrow> int" where
  "moved_offset region boards start stop shift epoch board scope offset =
     (if epoch = lr_epoch region \<and> board \<in> boards \<and> scope \<noteq> Some (lr_marker_group_id region) \<and> start \<le> offset \<and> offset \<le> stop
      then stop + 1 + shift
      else if lr_epoch region < epoch \<or> epoch = lr_epoch region \<and> stop < offset then offset + shift
      else offset)"

definition moved_call :: "oasm_loop_region \<Rightarrow> string set \<Rightarrow> int \<Rightarrow> int \<Rightarrow> int \<Rightarrow> direct_event \<Rightarrow> direct_event" where
  "moved_call region boards start stop d e =
     (if de_function e = LoopEnd \<and> de_group_id e = lr_marker_group_id region
      then e\<lparr>de_offset_cycles := moved_offset region boards start stop 0 (de_epoch e) (de_board e) (de_loop_scope e) (de_offset_cycles e),
             de_instruction_cost_cycles := de_instruction_cost_cycles e + (if 0 < lr_count region then (lr_count region - 1) * d else 0)\<rparr>
      else e\<lparr>de_offset_cycles := moved_offset region boards start stop (lr_count region * d)
              (de_epoch e) (de_board e) (de_loop_scope e) (de_offset_cycles e)\<rparr>)"

definition moved_edge :: "oasm_loop_region \<Rightarrow> string set \<Rightarrow> int \<Rightarrow> int \<Rightarrow> int \<Rightarrow> ttl_event \<Rightarrow> ttl_event" where
  "moved_edge region boards start stop d e =
     e\<lparr>te_offset_cycles := moved_offset region boards start stop (lr_count region * d)
        (te_epoch e) (te_board e) (te_loop_scope e) (te_offset_cycles e)\<rparr>"

definition moved_events :: "oasm_loop_region \<Rightarrow> int \<Rightarrow> loop_events \<Rightarrow> loop_events" where
  "moved_events region d events =
     (let start = begins_at region (lv_direct events); stop = stops_at region (lv_direct events);
          boards = boards_of_loop region events
      in \<lparr>lv_ttl = map (moved_edge region boards start stop d) (lv_ttl events),
          lv_direct = map (moved_call region boards start stop d) (lv_direct events),
          lv_origins = map (\<lambda>(epoch, origin). (epoch, if stop < origin then origin + lr_count region * d else origin)) (lv_origins events)\<rparr>)"

inductive loops_corrected :: "f64_arith \<Rightarrow> oasm_loop_region list \<Rightarrow> loop_events \<Rightarrow> int \<Rightarrow> loop_events \<Rightarrow> bool" for fa where
  none: "loops_corrected fa [] events 0 events"
| loop: "loop_calls region (lv_direct events) partitions \<Longrightarrow> loop_edges region (lv_ttl events) slots \<Longrightarrow>
    schedule_board_events fa partitions slots = Inr calls \<Longrightarrow>
    d = loop_excess region (begins_at region (lv_direct events)) calls \<Longrightarrow>
    loops_corrected fa regions (moved_events region d events) rest events' \<Longrightarrow>
    loops_corrected fa (region # regions) events (lr_count region * d + rest) events'"

lemma region_start_begins: "region_start region direct = begins_at region direct"
  by (induction direct) (auto simp: region_start_def begins_at_def)

lemma loop_boards_set: "set (loop_boards region events) = boards_of_loop region events"
  by (auto simp: loop_boards_def boards_of_loop_def direct_in_body_def ttl_in_body_def)

lemma body_partitions_calls: "loop_calls region direct (body_partitions region direct)"
proof -
  have "direct_in_body region = (\<lambda>e. de_loop_scope e = Some (lr_marker_group_id region) \<and> de_group_id e \<noteq> lr_marker_group_id region
      \<and> de_epoch e = lr_epoch region)" by (auto simp: direct_in_body_def fun_eq_iff)
  then show ?thesis unfolding loop_calls_def body_partitions_def Let_def
    by (intro exI [of _ "ordered_set (map de_board (filter (direct_in_body region) direct))"]) (simp add: ordered_set_def)
qed

lemma order_min_fold:
  "is_arg_min order_key (\<lambda>r. r \<in> set (r0 # rs)) (fold (\<lambda>o2 o1. order_min o1 o2) rs r0)"
proof (induction rs arbitrary: r0)
  case Nil
  then show ?case by (simp add: is_arg_min_def)
next
  case (Cons r rs)
  from Cons [of "order_min r0 r"] show ?case
    by (auto simp: is_arg_min_def order_min_def not_less not_le split: if_splits intro: order.trans less_imp_le)
qed

lemma ttl_placeholders_edges: "loop_edges region ttl (ttl_placeholders region ttl)"
proof -
  let ?body = "filter (ttl_in_body region) ttl"
  let ?key = "\<lambda>t. (te_board t, te_offset_cycles t)"
  have b: "{t \<in> set ttl. te_loop_scope t = Some (lr_marker_group_id region) \<and> te_epoch t = lr_epoch region} = set ?body"
    by (auto simp: ttl_in_body_def)
  have least: "is_arg_min order_key (\<lambda>r. r \<in> te_order ` {t \<in> set ?body. te_board t = fst k \<and> te_offset_cycles t = snd k})
     (case map te_order (filter (\<lambda>t. ?key t = k) ?body) of [] \<Rightarrow> BOARD | o' # os \<Rightarrow> fold (\<lambda>o2 o1. order_min o1 o2) os o')"
    if "k \<in> ?key ` set ?body" for k
  proof -
    have s: "te_order ` {t \<in> set ?body. te_board t = fst k \<and> te_offset_cycles t = snd k} = set (map te_order (filter (\<lambda>t. ?key t = k) ?body))"
      by auto
    from that have "filter (\<lambda>t. ?key t = k) ?body \<noteq> []" by (auto simp: filter_empty_conv)
    then obtain r rs where r: "map te_order (filter (\<lambda>t. ?key t = k) ?body) = r # rs"
      by (cases "map te_order (filter (\<lambda>t. ?key t = k) ?body)") auto
    show ?thesis unfolding s r using order_min_fold by simp
  qed
  have p: "map (\<lambda>e. (de_board e, de_offset_cycles e)) (ttl_placeholders region ttl) = sort (remdups (map ?key ?body))"
    by (simp add: ttl_placeholders_def Let_def comp_def)
  show ?thesis unfolding loop_edges_def Let_def b p using least
    by (auto simp: ttl_placeholders_def Let_def)
qed

lemma displaced_body:
  "filter (direct_in_body region) (map (displace_direct region boards start stop after') es) = filter (direct_in_body region) es"
  "filter (ttl_in_body region) (map (displace_ttl region boards start stop after') ts) = filter (ttl_in_body region) ts"
  by (induction es, simp_all add: displace_direct_def direct_in_body_def)
    (induction ts, simp_all add: displace_ttl_def ttl_in_body_def)

text \<open>The cursors of the boards are the ends of their runs.\<close>

lemma map_of_replace: "map_of ((b, c) # filter (\<lambda>entry. fst entry \<noteq> b) cursors) = (map_of cursors)(b \<mapsto> c)"
proof (rule ext)
  fix x
  show "map_of ((b, c) # filter (\<lambda>entry. fst entry \<noteq> b) cursors) x = ((map_of cursors)(b \<mapsto> c)) x"
    by (induction cursors) auto
qed

lemma board_cursors_run:
  assumes "board_cursors start cursors es = Inr cs" "distinct (map fst cursors)"
  shows "distinct (map fst cs) \<and> map_of cs = (\<lambda>b. if b \<in> dom (map_of cursors) \<union> de_board ` set es
    then Some (run_until (case map_of cursors b of None \<Rightarrow> start | Some c \<Rightarrow> c) (filter (\<lambda>e. de_board e = b) es)) else None)"
  using assms
proof (induction es arbitrary: cursors)
  case Nil
  then show ?case by (auto simp: run_until_def fun_eq_iff)
next
  case (Cons e es)
  let ?b = "de_board e"
  let ?c = "max (de_offset_cycles e) (case map_of cursors ?b of None \<Rightarrow> start | Some c \<Rightarrow> c) + de_instruction_cost_cycles e"
  let ?cursors = "(?b, ?c) # filter (\<lambda>entry. fst entry \<noteq> ?b) cursors"
  have step: "board_cursors start ?cursors es = Inr cs" using Cons.prems(1) by (auto simp: Let_def elim!: res_bind_InrE)
  have d: "distinct (map fst ?cursors)" using Cons.prems(2) by (auto simp: distinct_map_filter)
  note ih = Cons.IH [OF step d]
  have "map_of cs b = (if b \<in> dom (map_of cursors) \<union> de_board ` set (e # es)
      then Some (run_until (case map_of cursors b of None \<Rightarrow> start | Some c \<Rightarrow> c) (filter (\<lambda>e. de_board e = b) (e # es))) else None)" for b
    using ih unfolding map_of_replace by (cases "b = ?b") (auto simp: run_until_def)
  with ih show ?case by blast
qed

lemma max_or_Max: "xs \<noteq> [] \<Longrightarrow> max_or d xs = Max (set xs)"
  by (cases xs) (simp_all add: max_or_def Max.set_eq_fold [symmetric] del: Max_insert)

lemma body_occupancy_excess:
  assumes "body_occupancy fa region start (start + lr_body_duration region) events = Inr actual" "0 \<le> lr_body_duration region"
  shows "\<exists>calls. schedule_board_events fa (body_partitions region (lv_direct events)) (ttl_placeholders region (lv_ttl events)) = Inr calls
    \<and> actual - lr_body_duration region = loop_excess region start calls"
proof -
  from assms(1) obtain calls cs where calls: "schedule_board_events fa (body_partitions region (lv_direct events))
      (ttl_placeholders region (lv_ttl events)) = Inr calls" "board_cursors start [] calls = Inr cs"
    and actual: "actual = max (saturating_sub (max_or (start + lr_body_duration region) (map snd cs)) start) (lr_body_duration region)"
    by (auto simp: body_occupancy_def res_bind_Inr_iff)
  let ?run = "\<lambda>b. run_until start (filter (\<lambda>e. de_board e = b) calls)"
  have cs: "distinct (map fst cs)" "map_of cs = (\<lambda>b. if b \<in> de_board ` set calls then Some (?run b) else None)"
    using board_cursors_run [OF calls(2)] by auto
  have ends: "set (map snd cs) = ?run ` de_board ` set calls"
  proof -
    have "set (map snd cs) = ran (map_of cs)" using cs(1) by (simp add: ran_distinct)
    also have "\<dots> = ?run ` de_board ` set calls" unfolding cs(2) by (auto simp: ran_def)
    finally show ?thesis .
  qed
  have "actual - lr_body_duration region = loop_excess region start calls"
  proof (cases "calls = []")
    case True
    then have "cs = []" using ends by simp
    then show ?thesis using True assms(2) by (simp add: actual loop_excess_def max_or_def saturating_sub_def)
  next
    case False
    then have ne: "map snd cs \<noteq> []" using ends by (metis image_is_empty set_empty)
    let ?E = "?run ` de_board ` set calls"
    have m: "max_or (start + lr_body_duration region) (map snd cs) = Max ?E" unfolding max_or_Max [OF ne] ends ..
    have E: "finite ?E" "?E \<noteq> {}" using False by auto
    have "(\<lambda>b. ?run b - start - lr_body_duration region) ` de_board ` set calls = (\<lambda>x. x - start - lr_body_duration region) ` ?E"
      by (simp add: image_image)
    then have "loop_excess region start calls = max 0 (Max ((\<lambda>x. x - start - lr_body_duration region) ` ?E))"
      unfolding loop_excess_def using E by simp
    also have "Max ((\<lambda>x. x - start - lr_body_duration region) ` ?E) = Max ?E - start - lr_body_duration region"
      by (rule mono_Max_commute [symmetric, OF _ E]) (auto simp: mono_def)
    finally show ?thesis using assms(2) unfolding actual m by (auto simp: saturating_sub_def)
  qed
  then show ?thesis using calls(1) by blast
qed

lemma delay_moves:
  fixes region :: oasm_loop_region
  assumes "set boards' = boards" "d \<ge> 0" "delta = d * lr_count region" "delta \<noteq> 0" "0 \<le> delta"
  defines "extra \<equiv> saturating_sub delta d"
  shows "delay_direct region stop delta extra (displace_direct region boards' start stop (stop + 1) e) = Inr e' \<Longrightarrow>
      e' = moved_call region boards start stop d e"
    "delay_ttl region stop delta (displace_ttl region boards' start stop (stop + 1) t) = Inr t' \<Longrightarrow>
      t' = moved_edge region boards start stop d t"
proof -
  have c: "0 < lr_count region" using assms(2-5) by (metis mult_eq_0_iff order_less_le zero_le_mult_iff leD)
  then have "d * 1 \<le> d * lr_count region" using assms(2) by (intro mult_left_mono) auto
  then have x: "extra = (lr_count region - 1) * d" using assms(3) unfolding extra_def saturating_sub_def by (simp add: algebra_simps)
  show "delay_direct region stop delta extra (displace_direct region boards' start stop (stop + 1) e) = Inr e' \<Longrightarrow>
      e' = moved_call region boards start stop d e"
    using c x by (auto simp: delay_direct_def displace_direct_def moved_call_def moved_offset_def assms(1,3) res_bind_Inr_iff mult.commute
      split: if_splits)
  show "delay_ttl region stop delta (displace_ttl region boards' start stop (stop + 1) t) = Inr t' \<Longrightarrow>
      t' = moved_edge region boards start stop d t"
    by (auto simp: delay_ttl_def displace_ttl_def moved_edge_def moved_offset_def assms(1,3) res_bind_Inr_iff mult.commute split: if_splits)
qed

lemma displaced_moves:
  assumes "set boards' = boards" "delta = d * lr_count region" "delta = 0" "0 \<le> d"
  shows "displace_direct region boards' start stop (stop + 1) e = moved_call region boards start stop d e"
    "displace_ttl region boards' start stop (stop + 1) t = moved_edge region boards start stop d t"
proof -
  have "d = 0 \<or> lr_count region = 0" using assms by auto
  then show "displace_direct region boards' start stop (stop + 1) e = moved_call region boards start stop d e"
    "displace_ttl region boards' start stop (stop + 1) t = moved_edge region boards start stop d t"
    by (auto simp: displace_direct_def displace_ttl_def moved_call_def moved_edge_def moved_offset_def assms(1))
qed

lemma pointwise_map: "list_all2 P xs ys \<Longrightarrow> (\<And>x y. P x y \<Longrightarrow> y = h x) \<Longrightarrow> ys = map h xs"
  by (induction rule: list_all2_induct) auto

lemma loop_excess_nonneg: "0 \<le> loop_excess region start calls"
  by (simp add: loop_excess_def)

lemma apply_region_moves:
  assumes "apply_region fa (t0, events) region = Inr (t0', events')" "0 \<le> lr_body_duration region"
  defines "start \<equiv> begins_at region (lv_direct events)"
  shows "\<exists>calls. schedule_board_events fa (body_partitions region (lv_direct events)) (ttl_placeholders region (lv_ttl events)) = Inr calls
    \<and> t0' = t0 + lr_count region * loop_excess region start calls
    \<and> events' = moved_events region (loop_excess region start calls) events"
proof -
  let ?stop = "stops_at region (lv_direct events)"
  let ?boards = "loop_boards region events"
  let ?d = "events\<lparr>lv_direct := map (displace_direct region ?boards start ?stop (?stop + 1)) (lv_direct events),
     lv_ttl := map (displace_ttl region ?boards start ?stop (?stop + 1)) (lv_ttl events)\<rparr>"
  have stop: "?stop = start + lr_body_duration region" by (simp add: stops_at_def start_def)
  from assms(1) obtain actual delta where occ: "body_occupancy fa region start ?stop ?d = Inr actual"
    and delta: "delta = (actual - lr_body_duration region) * lr_count region" "u64r delta"
    "(if delta = 0 then Inr (t0, ?d)
       else res_bind (delay_events region ?stop delta (saturating_sub delta (actual - lr_body_duration region)) ?d) (\<lambda>delayed.
         res_bind (ok_or (PlanError LoopDeltaOverflow) (checked_u64 (t0 + delta))) (\<lambda>t. Inr (t, delayed)))) = Inr (t0', events')"
    unfolding apply_region_def Let_def split_conv region_start_begins start_def stops_at_def by (elim res_bind_InrE) auto
  have same: "body_partitions region (lv_direct ?d) = body_partitions region (lv_direct events)"
    "ttl_placeholders region (lv_ttl ?d) = ttl_placeholders region (lv_ttl events)"
    by (simp_all add: body_partitions_def ttl_placeholders_def displaced_body)
  have "\<exists>calls. schedule_board_events fa (body_partitions region (lv_direct ?d)) (ttl_placeholders region (lv_ttl ?d)) = Inr calls
      \<and> actual - lr_body_duration region = loop_excess region start calls"
    by (rule body_occupancy_excess [OF _ assms(2)]) (use occ stop in simp)
  then obtain calls where
    calls: "schedule_board_events fa (body_partitions region (lv_direct events)) (ttl_placeholders region (lv_ttl events)) = Inr calls"
    and x: "actual - lr_body_duration region = loop_excess region start calls" unfolding same by blast
  let ?x = "loop_excess region start calls"
  have delta': "delta = ?x * lr_count region" using delta(1) x by simp
  have "t0' = t0 + lr_count region * ?x \<and> events' = moved_events region ?x events"
  proof (cases "delta = 0")
    case True
    note dm = displaced_moves [OF loop_boards_set delta' True loop_excess_nonneg]
    have "lr_count region * ?x = 0" using True delta' by (simp only: mult.commute)
    then have o: "map (\<lambda>(epoch, origin). (epoch, if ?stop < origin then origin + lr_count region * ?x else origin)) (lv_origins events)
        = lv_origins events" by (intro map_idI) auto
    have "t0' = t0" "events' = ?d" using delta(3) True by simp_all
    moreover have "?d = moved_events region ?x events"
      using o [unfolded start_def] dm by (intro loop_events.equality) (simp_all add: moved_events_def Let_def start_def)
    ultimately show ?thesis using \<open>lr_count region * ?x = 0\<close> by simp
  next
    case False
    from delta(3) False have e: "delay_events region ?stop delta (saturating_sub delta ?x) ?d = Inr events'" and t: "t0' = t0 + delta"
      by (auto simp: res_bind_Inr_iff x)
    have pos: "0 \<le> delta" using delta(2) by (simp add: in_range_def)
    note m = delay_moves [OF loop_boards_set loop_excess_nonneg delta' False pos]
    have o: "delay_origin ?stop delta p = Inr p' \<Longrightarrow>
        p' = (\<lambda>(epoch, origin). (epoch, if ?stop < origin then origin + lr_count region * ?x else origin)) p" for p p'
      by (cases p) (auto simp: delay_origin_def delta' res_bind_Inr_iff mult.commute split: if_splits)
    have "lv_direct events' = map (moved_call region (boards_of_loop region events) start ?stop ?x) (lv_direct events)"
      "lv_ttl events' = map (moved_edge region (boards_of_loop region events) start ?stop ?x) (lv_ttl events)"
      "lv_origins events' = map (\<lambda>(epoch, origin). (epoch, if ?stop < origin then origin + lr_count region * ?x else origin)) (lv_origins events)"
      using e m o by (auto simp: delay_events_def res_bind_Inr_iff res_traverse_Inr_iff list_all2_map1 intro!: pointwise_map)
    then have "events' = moved_events region ?x events"
      by (intro loop_events.equality, simp_all only: moved_events_def Let_def start_def loop_events.simps) simp
    then show ?thesis using t delta' by (simp add: mult.commute)
  qed
  then show ?thesis using calls by blast
qed

lemma apply_loop_timing_moves:
  assumes "apply_loop_timing fa regions events = Inr (delta, events')" "\<forall>region \<in> set regions. 0 \<le> lr_body_duration region"
  shows "loops_corrected fa regions events delta events'"
proof -
  have "\<exists>delta. t = t0 + delta \<and> loops_corrected fa regions events0 delta events1"
    if "res_foldl (apply_region fa) (t0, events0) regions = Inr (t, events1)" for t0 events0 t events1
    using that assms(2)
  proof (induction regions arbitrary: t0 events0)
    case Nil
    then show ?case by (auto intro: loops_corrected.intros)
  next
    case (Cons region regions)
    then obtain t1 e1 where s: "apply_region fa (t0, events0) region = Inr (t1, e1)"
      "res_foldl (apply_region fa) (t1, e1) regions = Inr (t, events1)" by (auto simp: res_bind_Inr_iff)
    have "\<forall>region \<in> set regions. 0 \<le> lr_body_duration region" using Cons.prems(2) by simp
    from Cons.IH [OF s(2) this] obtain rest where "t = t1 + rest" "loops_corrected fa regions e1 rest events1" by blast
    moreover from apply_region_moves [OF s(1)] Cons.prems(2) obtain calls where
      "schedule_board_events fa (body_partitions region (lv_direct events0)) (ttl_placeholders region (lv_ttl events0)) = Inr calls"
      "t1 = t0 + lr_count region * loop_excess region (begins_at region (lv_direct events0)) calls"
      "e1 = moved_events region (loop_excess region (begins_at region (lv_direct events0)) calls) events0" by auto
    ultimately show ?case using loops_corrected.loop [OF body_partitions_calls ttl_placeholders_edges] by (metis add.assoc)
  qed
  from this [of 0 events delta events'] assms(1) show ?thesis by (auto simp: apply_loop_timing_def)
qed


text \<open>
  C15. The timing of loops is exact: a loop is corrected, one after the other, by the excess of its body, which is how much longer
  than declared the slowest of its boards takes for the scheduled calls of one iteration (zero when all keep to it).  With
  \<open>d\<close> cycles of excess and \<open>count\<close> iterations, everything after the loop and every epoch that starts after it moves by exactly
  \<open>count * d\<close>, a call that falls into the loop on one of its boards without belonging to it moves behind the body and by the
  same, the closing marker stays and gets longer by \<open>(count - 1) * d\<close>, all else keeps its time, and the total is the
  sum of what the loops add.  Nothing is lost, added, reordered or moved to an earlier time.
\<close>

theorem loop_timing_exact:
  assumes "apply_loop_timing fa regions events = Inr (delta, events')" "\<forall>region \<in> set regions. 0 \<le> lr_body_duration region"
  shows "loops_corrected fa regions events delta events' \<and> delayed events events' \<and> 0 \<le> delta"
  using apply_loop_timing_moves [OF assms] apply_loop_timing_later [OF assms(1)] by blast

text \<open>
  A loop of five iterations that is declared to take ten cycles, with two calls of eight cycles each: six cycles of excess,
  so what comes after the loop moves from 20 to 50 and the closing marker takes 64 cycles instead of 40.
\<close>

definition loop_call :: "int \<Rightarrow> int \<Rightarrow> oasm_function \<Rightarrow> oasm_argument list \<Rightarrow> int \<Rightarrow> int option \<Rightarrow> direct_event" where
  "loop_call offset number f args cost scope =
     \<lparr>de_epoch = 0, de_offset_cycles = offset, de_board = ''main'', de_function = f, de_args = args,
      de_instruction_cost_cycles = cost, de_order = \<lparr>eo_channel_kind = 0, eo_local_id = 0, eo_sequence = number\<rparr>,
      de_group_id = number, de_preload = False, de_loop_scope = scope\<rparr>"

definition slow_loop :: oasm_loop_region where
  "slow_loop = \<lparr>lr_epoch = 0, lr_start = 0, lr_body_duration = 10, lr_count = 5, lr_marker_group_id = 7\<rparr>"

definition slow_events :: "int \<Rightarrow> int \<Rightarrow> loop_events" where
  "slow_events cost later = \<lparr>lv_ttl = [],
     lv_direct = [loop_call 0 7 LoopBegin [ArgUnsigned 1, ArgUnsigned 5] 0 (Some 7), loop_call 0 1 RspPidHold [] 8 (Some 7),
       loop_call 0 2 RspPidHold [] 8 (Some 7), loop_call 10 7 LoopEnd [] cost (Some 7), loop_call later 3 RspPidHold [] 8 None],
     lv_origins = [(0, 0)]\<rparr>"

lemma slow_body:
  "schedule_board_events no_arith (body_partitions slow_loop (lv_direct (slow_events 40 20))) (ttl_placeholders slow_loop [])
     = Inr [loop_call 0 1 RspPidHold [] 8 (Some 7), loop_call 0 2 RspPidHold [] 8 (Some 7)]"
proof -
  have "body_partitions slow_loop (lv_direct (slow_events 40 20)) =
      [[loop_call 0 1 RspPidHold [] 8 (Some 7), loop_call 0 2 RspPidHold [] 8 (Some 7)]]"
    by (simp add: body_partitions_def direct_in_body_def slow_loop_def slow_events_def loop_call_def ordered_set_def)
  then show ?thesis
    by (simp add: ttl_placeholders_def schedule_board_events_def schedule_partition_def raise_cost_def oasm_call_cost_def loop_call_def
      eliminate_superseded_preloads_def remove_fused_handoff_plays_def schedule_preloads_def preload_pairs_def
      coalesce_direct_events_def mergeable_def coalesce_priority_def schedule_key_def oasm_function_priority_def order_key_def)
qed

lemma slow_timing:
  "apply_loop_timing no_arith [slow_loop] (slow_events 40 20) = Inr (30, slow_events 64 50)"
proof -
  let ?e = "slow_events 40 20"
  have boards: "loop_boards slow_loop ?e = [''main'', ''main'']"
    by (simp add: loop_boards_def direct_in_body_def ttl_in_body_def slow_loop_def slow_events_def loop_call_def)
  have d: "map (displace_direct slow_loop [''main'', ''main''] 0 10 11) (lv_direct ?e) = lv_direct ?e"
    by (simp add: displace_direct_def slow_loop_def slow_events_def loop_call_def)
  have start: "region_start slow_loop (lv_direct ?e) = 0"
    by (simp add: region_start_def slow_loop_def slow_events_def loop_call_def)
  have "body_occupancy no_arith slow_loop 0 10 ?e = Inr 16"
    using slow_body by (simp add: body_occupancy_def slow_events_def loop_call_def checked_def in_range_def int_limits max_or_def saturating_sub_def slow_loop_def)
  moreover have "?e\<lparr>lv_direct := lv_direct ?e, lv_ttl := map f (lv_ttl ?e)\<rparr> = ?e" for f by (simp add: slow_events_def)
  moreover have "delay_events slow_loop 10 30 24 ?e = Inr (slow_events 64 50)"
    by (simp add: slow_loop_def slow_events_def delay_events_def delay_direct_def delay_origin_def loop_call_def
      checked_def in_range_def int_limits)
  moreover have "lr_body_duration slow_loop = 10" "lr_count slow_loop = 5" by (simp_all add: slow_loop_def)
  ultimately have "apply_region no_arith (0, ?e) slow_loop = Inr (30, slow_events 64 50)"
    by (simp add: apply_region_def start boards d saturating_sub_def checked_def in_range_def int_limits)
  then show ?thesis by (simp add: apply_loop_timing_def)
qed

theorem loop_timing_exact_witness:
  "apply_loop_timing no_arith [slow_loop] (slow_events 40 20) = Inr (30, slow_events 64 50)
    \<and> loops_corrected no_arith [slow_loop] (slow_events 40 20) 30 (slow_events 64 50) \<and> delayed (slow_events 40 20) (slow_events 64 50)"
proof -
  have "\<forall>region \<in> set [slow_loop]. 0 \<le> lr_body_duration region" by (simp add: slow_loop_def)
  from loop_timing_exact [OF slow_timing this] slow_timing show ?thesis by blast
qed

end
