(* ===== verification/Plan_Soundness.thy ===== *)
theory Plan_Soundness
  imports Loop_Soundness
begin

text \<open>
  Theorems about the alignment of boards at global synchronisations and about the whole of \<open>compile_oasm_call_plan\<close>.
\<close>

section \<open>Alignment at global synchronisations\<close>

definition sync_done :: "oasm_call \<Rightarrow> int" where
  "sync_done call = call_offset_cycles call + (if call_function call = WaitMaster then 8 else 0)"

abbreviation calls_in :: "oasm_board_plan list \<Rightarrow> oasm_call set" where
  "calls_in boards \<equiv> \<Union>board\<in>set boards. set (plan_calls board)"

lemma max_of_ge: "max_of xs = Some m \<Longrightarrow> x \<in> set xs \<Longrightarrow> x \<le> m"
proof -
  have "x \<le> fold max ys y" if "x \<in> set (y # ys)" for ys and y :: int
    using that Max_ge [of "set (y # ys)" x] by (simp add: Max.set_eq_fold [symmetric])
  then show "max_of xs = Some m \<Longrightarrow> x \<in> set xs \<Longrightarrow> x \<le> m" by (auto simp: max_of_def split: list.splits)
qed

lemma list_all2_image: "list_all2 P xs ys \<Longrightarrow> y \<in> set ys \<Longrightarrow> \<exists>x\<in>set xs. P x y"
  by (induction rule: list_all2_induct) auto

lemma run_bind_Inr_iff: "run_bind m f = Some (Inr y) \<longleftrightarrow> (\<exists>x. m = Some (Inr x) \<and> f x = Some (Inr y))"
  by (auto simp: run_bind_def split: option.splits sum.splits)

lemma run_traverse_Inr_iff: "run_traverse f xs = Some (Inr ys) \<longleftrightarrow> list_all2 (\<lambda>x y. f x = Some (Inr y)) xs ys"
proof (induction xs arbitrary: ys)
  case (Cons x xs)
  then show ?case by (cases ys) (auto simp: run_bind_Inr_iff)
qed auto

lemma run_traverse_defined: "(\<And>x. x \<in> set xs \<Longrightarrow> f x \<noteq> None) \<Longrightarrow> run_traverse f xs \<noteq> None"
  by (induction xs) (auto simp: run_bind_None_iff)

lemma sync_end_Inr: "sync_end call = Some (Inr t) \<Longrightarrow> t = sync_done call"
  by (auto simp: sync_end_def sync_done_def checked_def split: if_splits)

lemma set_master_wait_other: "call_function call \<noteq> TrigSlave \<Longrightarrow> set_master_wait t call = call"
  by (simp add: set_master_wait_def)

lemma set_master_wait_fields [simp]:
  "call_offset_cycles (set_master_wait t call) = call_offset_cycles call"
  "call_function (set_master_wait t call) = call_function call" "sync_done (set_master_wait t call) = sync_done call"
  "is_sync_call (set_master_wait t call) = is_sync_call call"
  by (simp_all add: set_master_wait_def sync_done_def is_sync_call_def Let_def)

text \<open>The boards after alignment: one frontier, past which every board is done, sets the waits of the master.\<close>

lemma align_boards_frontier:
  assumes "align_boards boards = Some (Inr aligned)"
  obtains t where "aligned = map (\<lambda>board. board\<lparr>plan_calls := map (set_master_wait t) (plan_calls board)\<rparr>) boards"
    "\<And>call. call \<in> calls_in boards \<Longrightarrow> is_sync_call call \<Longrightarrow> sync_done call \<le> t"
proof -
  let ?syncs = "filter is_sync_call (concat (map plan_calls boards))"
  from assms obtain dones where d: "list_all2 (\<lambda>c t. sync_end c = Some (Inr t)) ?syncs dones"
    and a: "aligned = (case max_of dones of None \<Rightarrow> boards
      | Some t \<Rightarrow> map (\<lambda>board. board\<lparr>plan_calls := map (set_master_wait t) (plan_calls board)\<rparr>) boards)"
    unfolding align_boards_def by (elim run_bind_InrE) (auto simp: run_traverse_Inr_iff)
  have done_in: "sync_done call \<in> set dones" if "call \<in> set ?syncs" for call
  proof -
    have "list_all2 (\<lambda>t c. sync_end c = Some (Inr t)) dones ?syncs" using d by (simp add: list_all2_conv_all_nth)
    from list_all2_image [OF this that] show ?thesis using sync_end_Inr by auto
  qed
  show ?thesis
  proof (cases "max_of dones")
    case None
    then have none: "call_function call \<noteq> TrigSlave" "\<not> is_sync_call call" if "call \<in> calls_in boards" for call
      using that done_in [of call] by (auto simp: max_of_def is_sync_call_def split: list.splits)
    then have "map (set_master_wait 0) (plan_calls board) = plan_calls board" if "board \<in> set boards" for board
      using that by (intro map_idI set_master_wait_other) blast
    then have "aligned = map (\<lambda>board. board\<lparr>plan_calls := map (set_master_wait 0) (plan_calls board)\<rparr>) boards"
      using a None by (simp add: map_idI)
    then show ?thesis using none that by blast
  next
    case (Some t)
    show ?thesis
    proof (rule that [of t])
      show "aligned = map (\<lambda>board. board\<lparr>plan_calls := map (set_master_wait t) (plan_calls board)\<rparr>) boards" using a Some by simp
      show "sync_done call \<le> t" if "call \<in> calls_in boards" "is_sync_call call" for call
        using that max_of_ge [OF Some done_in [of call]] by auto
    qed
  qed
qed

section \<open>The backend returns\<close>

lemma emit_calls_fit:
  assumes "emit_calls cursor events = Inr (final, calls)" "call \<in> set calls" "call_function call = WaitMaster"
    and "\<forall>e\<in>set events. de_function e = WaitMaster \<longrightarrow> 8 \<le> de_instruction_cost_cycles e" "0 \<le> cursor"
  shows "u64r (call_offset_cycles call + 8)"
  using assms
proof (induction cursor events arbitrary: final calls rule: emit_calls.induct)
  case (2 cursor event rest)
  let ?start = "max (de_offset_cycles event) cursor"
  from "2.prems"(1) obtain more where m: "u64r (?start + de_instruction_cost_cycles event)"
    "emit_calls (?start + de_instruction_cost_cycles event) rest = Inr (final, more)"
    "calls = (if de_offset_cycles event > cursor then [wait_call cursor (de_offset_cycles event - cursor)] else [])
       @ \<lparr>call_offset_cycles = ?start, call_function = de_function event, call_args = de_args event\<rparr> # more"
    by (auto simp: Let_def res_bind_Inr_iff)
  have "call \<in> set more \<or> (call_offset_cycles call = ?start \<and> de_function event = WaitMaster)"
    using "2.prems"(2,3) unfolding m(3) by (auto simp: wait_call_def split: if_splits)
  then show ?case
  proof
    assume "call \<in> set more"
    then show ?thesis
      using "2.IH" [of ?start "?start + de_instruction_cost_cycles event" final more] m "2.prems" by (simp add: in_range_def)
  next
    assume c: "call_offset_cycles call = ?start \<and> de_function event = WaitMaster"
    then have "8 \<le> de_instruction_cost_cycles event" using "2.prems"(4) by simp
    then show ?thesis using c m(1) "2.prems"(5) by (simp add: in_range_def)
  qed
qed simp

lemma compile_board_fits:
  assumes "compile_board fa input = Some (Inr plan)" "call \<in> set (plan_calls plan)" "0 \<le> bi_initial_cursor input"
  shows "sync_end call \<noteq> None"
proof (cases "call_function call = WaitMaster")
  case True
  from assms(1) obtain calls direct scheduled cursor emitted where p: "schedule_board_events fa [direct] calls = Inr scheduled"
    "emit_calls (bi_initial_cursor input) scheduled = Inr (cursor, emitted)"
    "plan_calls plan = emitted @ (if bi_duration_cycles input > cursor then [wait_call cursor (bi_duration_cycles input - cursor)] else [])"
    by (elim compile_board_parts) auto
  have "\<forall>e\<in>set scheduled. de_function e = WaitMaster \<longrightarrow> 8 \<le> de_instruction_cost_cycles e"
    using schedule_sorted(2) [OF p(1)] by (fastforce simp: oasm_call_cost_def)
  moreover have "call \<in> set emitted" using assms(2) True unfolding p(3) by (auto simp: wait_call_def split: if_splits)
  ultimately have "u64r (call_offset_cycles call + 8)" using emit_calls_fit [OF p(2) _ True _ assms(3)] by blast
  then show ?thesis using True by (simp add: sync_end_def checked_def)
qed (simp add: sync_end_def)

lemma compile_board_defined:
  assumes "\<forall>e\<in>set (bi_ttl_events input). unat (te_local_id e) < 64"
  shows "compile_board fa input \<noteq> None"
proof (cases "res_traverse (localize_ttl (bi_epoch input) (bi_origin_cycles input)) (bi_ttl_events input)")
  case (Inr ttl)
  have local: "te_local_id e' = te_local_id e" if "localize_ttl (bi_epoch input) (bi_origin_cycles input) e = Inr e'" for e e'
    using that by (auto simp: localize_ttl_def res_bind_Inr_iff split: if_splits)
  from Inr have l: "list_all2 (\<lambda>e e'. localize_ttl (bi_epoch input) (bi_origin_cycles input) e = Inr e') (bi_ttl_events input) ttl"
    by (simp add: res_traverse_Inr_iff)
  have "\<forall>e\<in>set ttl. unat (te_local_id e) < 64"
    using list_all2_image [OF l] assms local by fastforce
  moreover have "sorted (map te_offset_cycles (sort_key ttl_key ttl))"
  proof -
    have "sorted (map ttl_key (sort_key ttl_key ttl))" by simp
    then have "sorted_wrt (\<lambda>x y. te_offset_cycles x \<le> te_offset_cycles y) (sort_key ttl_key ttl)"
      unfolding sorted_map by (rule sorted_wrt_mono_rel [rotated]) (auto simp: ttl_key_def)
    then show ?thesis by (simp add: sorted_map)
  qed
  ultimately obtain calls where "ttl_calls input (sort_key ttl_key ttl) = Some calls"
    using ttl_calls_correct [of "sort_key ttl_key ttl" input] by auto
  then show ?thesis by (simp add: compile_board_def Inr split: sum.splits)
qed (simp add: compile_board_def)

abbreviation cursors_ok :: "(string \<rightharpoonup> int) \<Rightarrow> bool" where
  "cursors_ok cursors \<equiv> \<forall>address c. cursors address = Some c \<longrightarrow> 0 \<le> c"

lemma carry_cursors_ok: "cursors_ok (carry_cursors boards)"
proof -
  have cost: "fixed_oasm_call_cost f = Some c \<Longrightarrow> 0 \<le> c" for f c by (cases f) auto
  have "cursors_ok (fold (\<lambda>board cursors. case carry_cycles board of None \<Rightarrow> cursors | Some c \<Rightarrow> cursors(plan_address board \<mapsto> c)) boards m)"
    if "cursors_ok m" for m
    using that
  proof (induction boards arbitrary: m)
    case (Cons board boards)
    have carry: "carry_cycles board = Some c \<Longrightarrow> 0 \<le> c" for c by (auto simp: carry_cycles_def bind_eq_Some_conv dest: cost)
    show ?case
    proof (cases "carry_cycles board")
      case None
      then show ?thesis using Cons by simp
    next
      case (Some c)
      then have "cursors_ok (m(plan_address board \<mapsto> c))" using Cons.prems carry by simp
      from Cons.IH [OF this] show ?thesis using Some by (simp add: fun_upd_def)
    qed
  qed simp
  from this [of Map.empty] show ?thesis by (simp add: carry_cursors_def)
qed

abbreviation wired :: "ttl_event list \<Rightarrow> bool" where
  "wired events \<equiv> \<forall>e\<in>set events. unat (te_local_id e) < 64"

lemma compile_address_defined:
  "wired (lv_ttl events) \<Longrightarrow> compile_address fa target epoch origin duration cursors events address \<noteq> None"
  unfolding compile_address_def
  by (intro run_bind_not_None compile_board_defined) (auto simp: epoch_input_def)

lemma compile_address_Inr:
  assumes "compile_address fa target epoch origin duration cursors events address = Some (Inr board)" "cursors_ok cursors"
  shows "plan_address board = address" "call \<in> set (plan_calls board) \<Longrightarrow> sync_end call \<noteq> None"
proof -
  from assms(1) obtain b where b: "compile_board fa (epoch_input b epoch origin duration cursors events address) = Some (Inr board)"
    by (auto simp: compile_address_def run_bind_Inr_iff)
  then show "plan_address board = address" by (elim compile_board_parts) (simp add: epoch_input_def)
  show "call \<in> set (plan_calls board) \<Longrightarrow> sync_end call \<noteq> None"
    by (rule compile_board_fits [OF b]) (use assms(2) in \<open>auto simp: epoch_input_def split: option.splits\<close>)
qed

lemma build_epoch_defined:
  assumes "wired (lv_ttl events)" "cursors_ok cursors" "u32r (epoch + 1)"
  shows "build_epoch fa target events duration addresses cursors epoch \<noteq> None"
proof -
  have align: "align_boards boards \<noteq> None"
    if b: "run_traverse (compile_address fa target epoch origin d cursors events) addresses = Some (Inr boards)" for boards origin d
  proof -
    from b have l: "list_all2 (\<lambda>a b. compile_address fa target epoch origin d cursors events a = Some (Inr b)) addresses boards"
      by (simp add: run_traverse_Inr_iff)
    have "sync_end call \<noteq> None" if "board \<in> set boards" "call \<in> set (plan_calls board)" for board call
      using list_all2_image [OF l that(1)] compile_address_Inr(2) [OF _ assms(2) that(2)] by blast
    then show ?thesis unfolding align_boards_def by (intro run_bind_not_None run_traverse_defined) auto
  qed
  have "run_traverse (compile_address fa target epoch origin d cursors events) addresses \<noteq> None" for origin d
    by (rule run_traverse_defined) (rule compile_address_defined [OF assms(1)])
  with align show ?thesis unfolding build_epoch_def using assms(3)
    by (auto simp: checked_def Let_def run_bind_None_iff simp del: not_None_eq)
qed

lemma build_epoch_shape:
  assumes "build_epoch fa target events duration addresses cursors epoch = Some (Inr plan)" "cursors_ok cursors"
  shows "epoch_id plan = epoch" "map plan_address (epoch_boards plan) = addresses"
    "map_of (lv_origins events) epoch = Some (epoch_origin_cycles plan)"
proof -
  from assms(1) obtain origin d boards aligned where p: "map_of (lv_origins events) epoch = Some origin"
    "run_traverse (compile_address fa target epoch origin d cursors events) addresses = Some (Inr boards)"
    "align_boards boards = Some (Inr aligned)" "plan = \<lparr>epoch_id = epoch, epoch_origin_cycles = origin, epoch_boards = aligned\<rparr>"
    unfolding build_epoch_def
    by (auto simp: run_bind_Inr_iff Let_def ok_or_def split: option.splits)
  have "list_all2 (\<lambda>a b. plan_address b = a) addresses boards"
    using p(2) compile_address_Inr(1) [OF _ assms(2)] unfolding run_traverse_Inr_iff by (auto elim!: list_all2_mono)
  then have "map plan_address boards = addresses" by (simp add: list_all2_conv_all_nth list_eq_iff_nth_eq)
  moreover have "map plan_address aligned = map plan_address boards"
    using p(3) by (elim align_boards_frontier) simp
  ultimately show "epoch_id plan = epoch" "map plan_address (epoch_boards plan) = addresses"
    "map_of (lv_origins events) epoch = Some (epoch_origin_cycles plan)" using p(1,4) by simp_all
qed

lemma build_epochs_ok:
  assumes "wired (lv_ttl events)" "cursors_ok cursors" "\<forall>epoch\<in>set epochs. u32r (epoch + 1)"
  shows "\<exists>r. build_epochs fa target events duration addresses cursors epochs = Some r
    \<and> (\<forall>plans. r = Inr plans \<longrightarrow> map epoch_id plans = epochs
         \<and> (\<forall>plan\<in>set plans. map plan_address (epoch_boards plan) = addresses
              \<and> map_of (lv_origins events) (epoch_id plan) = Some (epoch_origin_cycles plan)))"
  using assms(2,3)
proof (induction epochs arbitrary: cursors)
  case (Cons epoch epochs)
  then obtain r where r: "build_epoch fa target events duration addresses cursors epoch = Some r"
    using build_epoch_defined [OF assms(1) Cons.prems(1)] by fastforce
  show ?case
  proof (cases r)
    case (Inl e)
    then show ?thesis using r by simp
  next
    case (Inr plan)
    note shape = build_epoch_shape [OF r [unfolded Inr] Cons.prems(1)]
    have "\<forall>epoch\<in>set epochs. u32r (epoch + 1)" using Cons.prems(2) by simp
    from Cons.IH [OF carry_cursors_ok this, of "epoch_boards plan"] obtain r' where r':
      "build_epochs fa target events duration addresses (carry_cursors (epoch_boards plan)) epochs = Some r'"
      "\<forall>plans. r' = Inr plans \<longrightarrow> map epoch_id plans = epochs
         \<and> (\<forall>plan\<in>set plans. map plan_address (epoch_boards plan) = addresses
              \<and> map_of (lv_origins events) (epoch_id plan) = Some (epoch_origin_cycles plan))" by blast
    then show ?thesis using r Inr shape by (cases r') auto
  qed
qed simp

lemma delayed_wired: "delayed events events' \<Longrightarrow> wired (lv_ttl events) \<Longrightarrow> wired (lv_ttl events')"
  unfolding delayed_def later_ttl_def by (auto dest!: list_all2_image)

lemma epochs_total:
  assumes "ma_resolved (na_morphisms program)"
  shows "\<exists>r. analyze_epochs program target = Some r"
proof -
  let ?a = "na_morphisms program" let ?t = "replicate (length (ma_nodes ?a)) (0 :: int)"
  have "analyze_epochs program target = table_pass (epoch_node target ?a) ?t (enumerate 0 (resolved_nodes ?a))"
    by (simp add: analyze_epochs_def assms Let_def)
  moreover have "length ?t = length (resolved_nodes ?a)" by (simp add: assms)
  ultimately show ?thesis using epochs.pass_correct(1) [of ?t ?a target] by simp
qed

text \<open>Lowered events of analysed inputs drive channels below 64.\<close>

lemma lowered_wired:
  assumes "lower_events fp fa lc = Some (Inr lowered_events)"
  shows "wired (le_ttl_events lowered_events)"
proof -
  from assms obtain st where "traverse fp fa lc [Visit (unat (ma_root (lc_arena lc))) 0 0 None] initial_state = Some (Inr st)"
    "le_ttl_events lowered_events = as_ttl_events st"
    unfolding lower_events_def by (elim run_bind_InrE) auto
  then show ?thesis using pairing.traverse_keeps [OF _ pairing_initial] by (auto simp: pairing_def)
qed

text \<open>What the plan of a program looks like.\<close>

definition plan_of :: "native_arenas \<Rightarrow> timing_analysis \<Rightarrow> int list \<Rightarrow> oasm_call_plan \<Rightarrow> bool" where
  "plan_of program timing counts plan \<longleftrightarrow>
     map epoch_id (plan_epochs plan) = [0..counts ! unat (ma_root (na_morphisms program))]
     \<and> plan_logical_duration_cycles plan = ta_logical_frontiers timing ! unat (ma_root (na_morphisms program))
     \<and> (\<exists>addresses. sorted addresses \<and> distinct addresses
          \<and> (\<forall>epoch\<in>set (plan_epochs plan). map plan_address (epoch_boards epoch) = addresses))"

lemma build_call_plan_ok:
  assumes a: "unat (ma_root (na_morphisms program)) < length counts" "length (ta_frontiers timing) = length counts"
      "length (ta_logical_frontiers timing) = length counts"
    and w: "wired (le_ttl_events lowered_events)" and n: "counts ! unat (ma_root (na_morphisms program)) < u32_max"
  shows "\<exists>r. build_call_plan fa program target timing counts lowered_events = Some r
    \<and> (\<forall>plan. r = Inr plan \<longrightarrow> plan_of program timing counts plan)"
proof -
  let ?root = "unat (ma_root (na_morphisms program))"
  let ?epochs = "[0..counts ! ?root]"
  have u32: "\<forall>epoch\<in>set ?epochs. u32r (epoch + 1)" using n by (auto simp: in_range_def)
  have epochs: "\<exists>r. build_epochs fa target events d (program_addresses events) Map.empty ?epochs = Some r
      \<and> (\<forall>plans. r = Inr plans \<longrightarrow> map epoch_id plans = ?epochs
           \<and> (\<forall>plan\<in>set plans. map plan_address (epoch_boards plan) = program_addresses events))"
    if "apply_loop_timing fa (le_loop_regions lowered_events)
        \<lparr>lv_ttl = le_ttl_events lowered_events, lv_direct = direct, lv_origins = le_epoch_origins lowered_events\<rparr> = Inr (delta, events)"
    for direct delta events d
  proof -
    have "wired (lv_ttl events)" using delayed_wired apply_loop_timing_later [OF that] w by auto
    from build_epochs_ok [OF this _ u32, of Map.empty fa target d "program_addresses events"] show ?thesis by auto
  qed
  have addresses: "sorted (program_addresses events) \<and> distinct (program_addresses events)" for events
    by (simp add: program_addresses_def ordered_set_def)
  show ?thesis
  proof (cases "build_call_plan fa program target timing counts lowered_events")
    case None
    then show ?thesis using epochs a
      by (auto simp: build_call_plan_def Let_def run_bind_None_iff index_run_def nth_opt_def split: prod.splits) (metis option.distinct(1))
  next
    case (Some r)
    have "plan_of program timing counts plan" if "r = Inr plan" for plan
    proof -
      from Some that obtain direct delta events d logical plans where p:
        "apply_loop_timing fa (le_loop_regions lowered_events)
          \<lparr>lv_ttl = le_ttl_events lowered_events, lv_direct = direct, lv_origins = le_epoch_origins lowered_events\<rparr> = Inr (delta, events)"
        "build_epochs fa target events d (program_addresses events) Map.empty ?epochs = Some (Inr plans)"
        "plan = \<lparr>plan_schema_version = 1, plan_epochs = plans, plan_logical_duration_cycles = ta_logical_frontiers timing ! ?root\<rparr>"
        using a by (auto simp: build_call_plan_def Let_def run_bind_Inr_iff index_run_def nth_opt_def split: prod.splits)
      show ?thesis using epochs [OF p(1), of d] addresses [of events] unfolding p(2,3) plan_of_def by auto
    qed
    then show ?thesis using Some by blast
  qed
qed

section \<open>Properties\<close>

text \<open>
  C11. The back end returns: for a program whose arenas were built and finished, whose values validate, whose channel numbers
  are below 64 and which crosses fewer than \<open>2 ^ 32 - 1\<close> global synchronisations, compilation to a call plan neither
  panics nor runs forever; when it succeeds, the plan has one entry for every epoch that the analysis counted, in order,
  every epoch lists the same boards, sorted and without duplicates, and the logical duration is that of the timing analysis.
\<close>

theorem call_plan_returns:
  assumes "built b" "unat m < length (mb_nodes b)" "mb_finish m b = Some (Inr (na_morphisms program))"
    and "provenance_ok (na_morphisms program)" "target_in_range target" "channels_fit environment"
    and "ve_inv (na_values program)" "ve_validate (na_values program) = Inr ()" "length (ve_nodes (na_values program)) \<le> 2 ^ 32"
    and "\<forall>counts. analyze_epochs program target = Some (Inr counts) \<longrightarrow> counts ! unat (ma_root (na_morphisms program)) < u32_max"
  shows "\<exists>r. compile_oasm_call_plan fp fa program environment target bindings = Some r
    \<and> (\<forall>plan. r = Inr plan \<longrightarrow>
         (\<exists>timing counts. analyze_timing fp program target bindings = Some (Inr timing)
            \<and> analyze_epochs program target = Some (Inr counts) \<and> plan_of program timing counts plan))"
proof -
  have a: "ma_resolved (na_morphisms program)" using finish_resolved assms(1-3) by blast
  obtain vals where vals: "evaluate_link_values fp program bindings = Some vals"
    using evaluate_agrees [OF assms(7-9) refl, of fp bindings] by blast
  have timing_some: "analyze_timing fp program target bindings \<noteq> None"
    using timing_rows_correct [OF a assms(4,5) vals] by (auto simp: analyze_timing_def run_bind_None_iff)
  obtain re where re: "analyze_epochs program target = Some re" using epochs_total [OF a] by blast
  have backend: "\<exists>r. run_bind (lower_events fp fa (lowering_inputs program environment target timing counts)) (build_call_plan fa program target timing counts) = Some r
      \<and> (\<forall>plan. r = Inr plan \<longrightarrow> plan_of program timing counts plan)"
    if t: "analyze_timing fp program target bindings = Some (Inr timing)" and c: "analyze_epochs program target = Some (Inr counts)" for timing counts
  proof -
    let ?lc = "lowering_inputs program environment target timing counts"
    have "lower_events fp fa ?lc \<noteq> None"
      using lower_events_ends [OF analysed_inputs [OF a assms(4,5) t c assms(6)], of fp fa]
      by (auto simp: lower_events_def run_bind_None_iff simp del: not_None_eq)
    then obtain r where r: "lower_events fp fa ?lc = Some r" by blast
    show ?thesis
    proof (cases r)
      case (Inr lowered_events)
      have len: "length counts = length (ma_nodes (na_morphisms program))" using epochs_counted [OF a c] by blast
      then have "unat (ma_root (na_morphisms program)) < length counts" using a by (simp add: ma_resolved_def ma_wf_def)
      from build_call_plan_ok [OF this _ _ lowered_wired [OF r [unfolded Inr]]] show ?thesis
        using timed_kinds(2,3) [OF a assms(4,5) t] len assms(10) c r Inr by simp
    qed (use r in simp)
  qed
  show ?thesis
  proof (cases "validate_inputs environment target bindings")
    case (Inr u)
    obtain rt where rt: "analyze_timing fp program target bindings = Some rt" using timing_some by blast
    show ?thesis
    proof (cases "\<exists>timing counts. rt = Inr timing \<and> re = Inr counts")
      case True
      then obtain timing counts where tc: "rt = Inr timing" "re = Inr counts" by blast
      from backend [OF rt [unfolded tc] re [unfolded tc]] show ?thesis
        using rt re tc Inr by (auto simp: compile_oasm_call_plan_def lowering_inputs_def)
    next
      case False
      then show ?thesis using rt re Inr by (cases rt; cases re; simp add: compile_oasm_call_plan_def)
    qed
  qed (simp add: compile_oasm_call_plan_def)
qed

text \<open>
  C14. No board is left behind at a global synchronisation: after alignment the master waits, from its trigger, until every
  board of the epoch has finished waiting for or triggering the synchronisation and the margin has passed, unless that time
  exceeds 64 bits; apart from this argument of the triggers the plans are unchanged.
\<close>

theorem sync_waits_for_all_boards:
  assumes "align_boards boards = Some (Inr aligned)"
  shows "map plan_address aligned = map plan_address boards
    \<and> list_all2 (\<lambda>board board'. list_all2 (\<lambda>call call'. call_offset_cycles call' = call_offset_cycles call
        \<and> call_function call' = call_function call \<and> tl (call_args call') = tl (call_args call)
        \<and> (call_function call \<noteq> TrigSlave \<longrightarrow> call' = call)) (plan_calls board) (plan_calls board')) boards aligned
    \<and> (\<forall>trigger\<in>calls_in aligned. call_function trigger = TrigSlave \<and> call_args trigger \<noteq> [] \<longrightarrow>
         (\<exists>wait rest. call_args trigger = ArgUnsigned wait # rest \<and>
            (wait = u64_max \<or> (\<forall>call\<in>calls_in aligned. is_sync_call call \<longrightarrow>
               sync_done call + GLOBAL_SYNC_MARGIN_CYCLES \<le> call_offset_cycles trigger + wait))))"
proof -
  from assms obtain t where t: "aligned = map (\<lambda>board. board\<lparr>plan_calls := map (set_master_wait t) (plan_calls board)\<rparr>) boards"
    "\<And>call. call \<in> calls_in boards \<Longrightarrow> is_sync_call call \<Longrightarrow> sync_done call \<le> t" by (elim align_boards_frontier) blast
  have "tl (call_args (set_master_wait t call)) = tl (call_args call)" for call
    by (simp add: set_master_wait_def Let_def split: list.splits)
  then have same: "list_all2 (\<lambda>call call'. call_offset_cycles call' = call_offset_cycles call
        \<and> call_function call' = call_function call \<and> tl (call_args call') = tl (call_args call)
        \<and> (call_function call \<noteq> TrigSlave \<longrightarrow> call' = call)) calls (map (set_master_wait t) calls)" for calls
    by (simp add: list_all2_conv_all_nth set_master_wait_other)
  have calls: "calls_in aligned = set_master_wait t ` calls_in boards" unfolding t(1) by auto
  have "\<exists>wait rest. call_args trigger = ArgUnsigned wait # rest \<and>
      (wait = u64_max \<or> (\<forall>call\<in>calls_in aligned. is_sync_call call \<longrightarrow>
         sync_done call + GLOBAL_SYNC_MARGIN_CYCLES \<le> call_offset_cycles trigger + wait))"
    if tr: "trigger \<in> calls_in aligned" "call_function trigger = TrigSlave" "call_args trigger \<noteq> []" for trigger
  proof -
    let ?wait = "saturating_add (saturating_sub t (call_offset_cycles trigger)) GLOBAL_SYNC_MARGIN_CYCLES"
    from tr(1) obtain call where "trigger = set_master_wait t call" unfolding calls by blast
    with tr(2,3) obtain rest where "call_args trigger = ArgUnsigned ?wait # rest"
      by (auto simp: set_master_wait_def Let_def split: if_splits list.splits)
    moreover have "?wait = u64_max \<or> t + GLOBAL_SYNC_MARGIN_CYCLES \<le> call_offset_cycles trigger + ?wait"
      by (auto simp: saturating_add_def saturating_sub_def min_def)
    moreover have "sync_done c \<le> t" if "c \<in> calls_in aligned" "is_sync_call c" for c
    proof -
      from that obtain x where "x \<in> calls_in boards" "c = set_master_wait t x" unfolding calls by blast
      then show ?thesis using t(2) [of x] that(2) by simp
    qed
    ultimately show ?thesis by fastforce
  qed
  moreover have "list_all2 (\<lambda>board board'. list_all2 (\<lambda>call call'. call_offset_cycles call' = call_offset_cycles call
        \<and> call_function call' = call_function call \<and> tl (call_args call') = tl (call_args call)
        \<and> (call_function call \<noteq> TrigSlave \<longrightarrow> call' = call)) (plan_calls board) (plan_calls board')) boards aligned"
    unfolding t(1) list_all2_map2 by (rule list_all2_refl) (simp add: same)
  moreover have "map plan_address aligned = map plan_address boards" unfolding t(1) by simp
  ultimately show ?thesis by blast
qed

lemma pause_values_ok:
  "ve_inv (na_values pause_program)" "ve_validate (na_values pause_program) = Inr ()" "length (ve_nodes (na_values pause_program)) = 2"
proof -
  note eval = pause_program_def pause_values_def builder_adds ve_add_def ve_builder_new_def
  show "ve_inv (na_values pause_program)"
    by (auto simp: eval ve_inv_def ven_bounded_def ven_slice_def nth_Cons' less_Suc_eq)
  show "length (ve_nodes (na_values pause_program)) = 2" by (simp add: eval)
  show "ve_validate (na_values pause_program) = Inr ()"
    by (simp add: eval ve_validate_def ve_validate_node_def ve_children_def ve_payload_def ve_node_def ve_bad_shape_def nth_opt_def
        slice_get_def)
qed

theorem call_plan_returns_witness:
  "\<exists>r. compile_oasm_call_plan no_floats no_arith pause_program pause_environment pause_target bindings_empty = Some r
    \<and> (\<forall>plan. r = Inr plan \<longrightarrow> map epoch_id (plan_epochs plan) = [0..0] \<and> plan_logical_duration_cycles plan = 500)"
proof -
  have top: "unat (ma_root (na_morphisms pause_program)) = 1" by (simp add: pause_program_def mb_view_def)
  have "\<forall>counts. analyze_epochs pause_program pause_target = Some (Inr counts)
      \<longrightarrow> counts ! unat (ma_root (na_morphisms pause_program)) < u32_max"
    by (simp add: pause_counts top u32_max_def)
  from call_plan_returns [OF pause_built pause_program_ok(1) pause_finish pause_program_ok(2,3) pause_fits pause_values_ok(1,2) _ this,
      of no_floats no_arith bindings_empty]
  show ?thesis by (auto simp: pause_values_ok(3) pause_counts pause_timing plan_of_def top)
qed

definition sync_boards :: "oasm_board_plan list" where
  "sync_boards = [\<lparr>plan_address = ''main'', plan_calls = [
       \<lparr>call_offset_cycles = 10, call_function = TrigSlave, call_args = [ArgUnsigned 0, ArgUnsigned 7]\<rparr>]\<rparr>,
     \<lparr>plan_address = ''rwg0'', plan_calls = [\<lparr>call_offset_cycles = 40, call_function = WaitMaster, call_args = [ArgUnsigned 7]\<rparr>]\<rparr>]"

theorem sync_waits_for_all_boards_witness:
  "\<exists>aligned. align_boards sync_boards = Some (Inr aligned) \<and>
     (\<forall>call\<in>calls_in aligned. is_sync_call call \<longrightarrow> sync_done call + 100 \<le> 10 + 138)"
proof -
  have a: "align_boards sync_boards = Some (Inr [\<lparr>plan_address = ''main'', plan_calls = [
       \<lparr>call_offset_cycles = 10, call_function = TrigSlave, call_args = [ArgUnsigned 138, ArgUnsigned 7]\<rparr>]\<rparr>,
     \<lparr>plan_address = ''rwg0'', plan_calls = [\<lparr>call_offset_cycles = 40, call_function = WaitMaster, call_args = [ArgUnsigned 7]\<rparr>]\<rparr>])"
    by (simp add: align_boards_def sync_boards_def is_sync_call_def sync_end_def max_of_def set_master_wait_def saturating_add_def
        saturating_sub_def GLOBAL_SYNC_MARGIN_CYCLES_def checked_def in_range_def int_limits)
  from sync_waits_for_all_boards [OF a] show ?thesis unfolding a
    by (simp add: is_sync_call_def sync_done_def GLOBAL_SYNC_MARGIN_CYCLES_def int_limits)
qed

end
