(* ===== verification/Partition_Soundness.thy ===== *)
theory Partition_Soundness
  imports Scheduler_Soundness
begin

text \<open>
  What a schedule does to the events of a board, specified event by event: which preloads and plays are dropped, where
  preloads move, which calls are joined into one and with which arguments, and that nothing else changes.
\<close>

section \<open>The specification\<close>

text \<open>
  Two events are at the same place when they have the same time and channel.  A preload is superseded by a preload of a later group
  at its place; a play is fused when preloads of different groups are at its place.
\<close>

definition same_place :: "direct_event \<Rightarrow> direct_event \<Rightarrow> bool" where
  "same_place e e' \<longleftrightarrow> de_offset_cycles e = de_offset_cycles e' \<and> eo_channel_kind (de_order e) = eo_channel_kind (de_order e')
     \<and> eo_local_id (de_order e) = eo_local_id (de_order e')"

definition superseded :: "direct_event list \<Rightarrow> direct_event \<Rightarrow> bool" where
  "superseded part e \<longleftrightarrow> de_preload e \<and> (\<exists>e'\<in>set part. de_preload e' \<and> same_place e e' \<and> de_group_id e < de_group_id e')"

definition fused_play :: "direct_event list \<Rightarrow> direct_event \<Rightarrow> bool" where
  "fused_play part e \<longleftrightarrow> de_function e = RwgPlay \<and> (\<exists>a\<in>set part. \<exists>b\<in>set part. de_preload a \<and> de_preload b
     \<and> same_place e a \<and> same_place e b \<and> de_group_id a \<noteq> de_group_id b)"

definition survives :: "direct_event list \<Rightarrow> direct_event \<Rightarrow> bool" where
  "survives part e \<longleftrightarrow> \<not> superseded part e \<and> \<not> fused_play part e"

text \<open>A preload whose group is played at its time moves ahead so far that it is done by then, or to the start of the epoch.\<close>

definition has_play :: "direct_event list \<Rightarrow> direct_event \<Rightarrow> bool" where
  "has_play part e \<longleftrightarrow> de_preload e \<and> (\<exists>p\<in>set part. de_function p = RwgPlay \<and> de_group_id p = de_group_id e
     \<and> de_offset_cycles p = de_offset_cycles e)"

definition advanced :: "direct_event list \<Rightarrow> direct_event \<Rightarrow> direct_event \<Rightarrow> bool" where
  "advanced part e e' \<longleftrightarrow> (if has_play part e
     then e' = e\<lparr>de_offset_cycles := de_offset_cycles e'\<rparr> \<and> 0 \<le> de_offset_cycles e' \<and> de_offset_cycles e' \<le> de_offset_cycles e
       \<and> (de_offset_cycles e' = 0 \<or> de_offset_cycles e' + de_instruction_cost_cycles e \<le> de_offset_cycles e)
     else e' = e)"

text \<open>
  The calls of one function at one time form a batch when the function takes masks of channels; every other call is alone.
  A batch becomes one call with the union of the masks.
\<close>

definition joinable :: "direct_event \<Rightarrow> bool" where
  "joinable e \<longleftrightarrow> de_function e \<in> {TtlConfig, RwgInit, RwgPlay}"

definition alike :: "direct_event \<Rightarrow> direct_event \<Rightarrow> bool" where
  "alike e e' \<longleftrightarrow> de_function e' = de_function e \<and> de_offset_cycles e' = de_offset_cycles e"

definition batched :: "direct_event list \<Rightarrow> direct_event list list \<Rightarrow> bool" where
  "batched es batches \<longleftrightarrow> mset (concat batches) = mset es
     \<and> (\<forall>batch\<in>set batches. \<exists>e\<in>set es. batch = (if joinable e then filter (alike e) es else [e]))"

definition union_of :: "(direct_event \<Rightarrow> oasm_argument) \<Rightarrow> direct_event list \<Rightarrow> oasm_argument \<Rightarrow> bool" where
  "union_of arg batch u \<longleftrightarrow> (\<exists>n. u = ArgUnsigned n \<and> (\<forall>e\<in>set batch. \<exists>m. arg e = ArgUnsigned m)
     \<and> (\<forall>i. bit n i \<longleftrightarrow> (\<exists>e\<in>set batch. \<exists>m. arg e = ArgUnsigned m \<and> bit m i)))"

definition joined :: "direct_event list \<Rightarrow> direct_event \<Rightarrow> bool" where
  "joined batch c \<longleftrightarrow>
     c = (hd batch)\<lparr>de_instruction_cost_cycles := de_instruction_cost_cycles c, de_order := de_order c, de_args := de_args c\<rparr>
     \<and> de_instruction_cost_cycles c = Max (de_instruction_cost_cycles ` set batch)
     \<and> is_arg_min order_key (\<lambda>r. r \<in> de_order ` set batch) (de_order c)
     \<and> (if length batch = 1 \<or> de_function (hd batch) = RwgInit then de_args c = de_args (hd batch)
        else (\<forall>e\<in>set batch. length (de_args e) = 2) \<and> length (de_args c) = 2
          \<and> (\<forall>k<2. union_of (\<lambda>e. de_args e ! k) batch (de_args c ! k)))"

section \<open>Superseded preloads and fused plays\<close>

lemma preload_key_same: "preload_key_of e = preload_key_of e' \<longleftrightarrow> same_place e e'"
  by (auto simp: preload_key_of_def same_place_def)

lemma fold_max_in: "fold max ys (x::int) \<in> set (x # ys) \<and> (\<forall>y\<in>set (x # ys). y \<le> fold max ys x)"
proof -
  have "Max (set (x # ys)) = fold max ys x" by (simp only: Max.set_eq_fold)
  then show ?thesis using Max_in [of "set (x # ys)"] Max_ge [of "set (x # ys)"] by simp
qed

lemma eliminate_survivors: "snd (eliminate_superseded_preloads es) = filter (\<lambda>e. \<not> superseded es e) es"
  unfolding eliminate_superseded_preloads_def snd_conv
proof (rule filter_cong [OF refl])
  fix e assume e: "e \<in> set es"
  show "(\<not> de_preload e \<or> (case latest_group es (preload_key_of e) of None \<Rightarrow> True | Some latest \<Rightarrow> latest = de_group_id e))
    \<longleftrightarrow> \<not> superseded es e"
  proof (cases "de_preload e")
    case True
    let ?gs = "preload_groups es (preload_key_of e)"
    have gs: "set ?gs = de_group_id ` {e' \<in> set es. de_preload e' \<and> same_place e e'}"
      by (auto simp: preload_groups_def preload_key_same) (auto simp: same_place_def)
    have "de_group_id e \<in> set ?gs" using e True unfolding gs by (auto simp: same_place_def)
    then obtain g gs' where g: "?gs = g # gs'" by (cases ?gs) auto
    have "fold max gs' g = de_group_id e \<longleftrightarrow> (\<forall>x\<in>set ?gs. x \<le> de_group_id e)"
      using fold_max_in [of gs' g] \<open>de_group_id e \<in> set ?gs\<close> unfolding g by (metis order_antisym)
    also have "\<dots> \<longleftrightarrow> \<not> superseded es e" using True unfolding gs by (auto simp: superseded_def not_less)
    finally show ?thesis using True by (simp add: latest_group_def g)
  qed (simp add: superseded_def)
qed

lemma fused_handoffs: "preload_key_of e \<in> set (fst (eliminate_superseded_preloads es)) \<longleftrightarrow>
    (\<exists>a\<in>set es. \<exists>b\<in>set es. de_preload a \<and> de_preload b \<and> same_place e a \<and> same_place e b \<and> de_group_id a \<noteq> de_group_id b)"
proof -
  let ?gs = "preload_groups es (preload_key_of e)"
  have gs: "set ?gs = de_group_id ` {e' \<in> set es. de_preload e' \<and> same_place e e'}"
    by (auto simp: preload_groups_def preload_key_same) (auto simp: same_place_def)
  have "1 < length (remdups ?gs) \<longleftrightarrow> (\<exists>x\<in>set ?gs. \<exists>y\<in>set ?gs. x \<noteq> y)"
  proof -
    have "length (remdups ?gs) = card (set ?gs)" by (simp add: length_remdups_card_conv)
    moreover have "1 < card (set ?gs) \<longleftrightarrow> \<not> card (set ?gs) \<le> Suc 0" by auto
    ultimately show ?thesis using card_le_Suc0_iff_eq [of "set ?gs"] by auto
  qed
  moreover have "preload_key_of e \<in> preload_key_of ` {a \<in> set es. de_preload a}" if "x \<in> set ?gs" for x
    using that by (auto simp: preload_groups_def) (metis (mono_tags, lifting) image_eqI mem_Collect_eq)
  ultimately show ?thesis unfolding eliminate_superseded_preloads_def gs by (auto simp: gs) 
qed

lemma survives_raised: "survives (map (raised fa) es) (raised fa e) = survives es e"
  by (simp add: survives_def superseded_def fused_play_def same_place_def)

lemma has_play_raised: "has_play (map (raised fa) es) (raised fa e) = has_play es e"
  by (simp add: has_play_def)

section \<open>Placement of preloads\<close>

lemma preload_cost_ge:
  assumes "preload_cost es is = Inr c" "i \<in> set is" "\<forall>j\<in>set is. 0 \<le> de_instruction_cost_cycles (es ! j)"
  shows "de_instruction_cost_cycles (es ! i) \<le> c"
proof -
  have "t \<le> c \<and> (\<forall>i\<in>set is. t + de_instruction_cost_cycles (es ! i) \<le> c)"
    if "res_foldl (\<lambda>total index. ok_or (PlanError PreloadCostOverflow)
       (checked_u64 (total + de_instruction_cost_cycles (es ! index)))) t is = Inr c" for t
    using that assms(3)
  proof (induction "is" arbitrary: t)
    case (Cons j js)
    then have "res_foldl (\<lambda>total index. ok_or (PlanError PreloadCostOverflow)
       (checked_u64 (total + de_instruction_cost_cycles (es ! index)))) (t + de_instruction_cost_cycles (es ! j)) js = Inr c"
      by (auto simp: res_simps)
    from Cons.IH [OF this] Cons.prems(2) show ?case by fastforce
  qed simp
  from this [of 0] assms(1,2) show ?thesis by (simp add: preload_cost_def)
qed

lemma place_preloads_advanced:
  assumes "place_preloads pairs next es = Inr es'" "0 \<le> next"
    and "\<forall>(deadline, order, group_id, is)\<in>set pairs. 0 \<le> deadline
      \<and> (\<forall>i\<in>set is. i < length es0 \<and> de_preload (es0 ! i) \<and> de_offset_cycles (es0 ! i) = deadline)"
    and "length es = length es0" "\<forall>i<length es0. de_instruction_cost_cycles (es ! i) = de_instruction_cost_cycles (es0 ! i)"
    and "\<forall>e\<in>set es0. 0 \<le> de_instruction_cost_cycles e"
  shows "\<forall>i<length es0. if i \<in> (\<Union>(deadline, order, group_id, is)\<in>set pairs. set is)
    then de_offset_cycles (es' ! i) = 0 \<or> de_offset_cycles (es' ! i) + de_instruction_cost_cycles (es0 ! i) \<le> de_offset_cycles (es0 ! i)
    else es' ! i = es ! i"
  using assms(1-5)
proof (induction pairs "next" es rule: place_preloads.induct)
  case (2 deadline order group_id "is" rest "next" es)
  from "2.prems"(1) obtain cost where c: "preload_cost es is = Inr cost"
    and rest: "place_preloads rest (preload_start es next deadline group_id cost)
      (set_offsets (preload_start es next deadline group_id cost) is es) = Inr es'"
    by (auto simp: res_simps Let_def)
  let ?s = "preload_start es next deadline group_id cost"
  have s: "0 \<le> ?s" "?s = 0 \<or> ?s + cost \<le> deadline"
    using preload_start_bounds [of cost deadline "next" es group_id] preload_cost_nonneg [OF c] "2.prems"(2,3) by force+
  have costs: "\<forall>i<length es0. de_instruction_cost_cycles (set_offsets ?s is es ! i) = de_instruction_cost_cycles (es0 ! i)"
    using "2.prems"(4,5) by (simp add: set_offsets_nth)
  have own: "de_instruction_cost_cycles (es0 ! i) \<le> cost \<and> de_offset_cycles (es0 ! i) = deadline" if "i \<in> set is" for i
  proof -
    have "i < length es0" "de_offset_cycles (es0 ! i) = deadline" using that "2.prems"(3) by auto
    moreover have "\<forall>j\<in>set is. 0 \<le> de_instruction_cost_cycles (es ! j)" using "2.prems"(3,5) assms(6) by auto
    ultimately show ?thesis using preload_cost_ge [OF c that] "2.prems"(5) by simp
  qed
  have ih: "\<forall>i<length es0. if i \<in> (\<Union>(deadline, order, group_id, is)\<in>set rest. set is)
    then de_offset_cycles (es' ! i) = 0 \<or> de_offset_cycles (es' ! i) + de_instruction_cost_cycles (es0 ! i) \<le> de_offset_cycles (es0 ! i)
    else es' ! i = set_offsets ?s is es ! i"
    using "2.IH" [OF refl rest s(1) _ _ costs] "2.prems"(3,4) by simp
  show ?case
  proof (intro allI impI)
    fix i assume i: "i < length es0"
    show "if i \<in> (\<Union>(deadline, order, group_id, is)\<in>set ((deadline, order, group_id, is) # rest). set is)
      then de_offset_cycles (es' ! i) = 0 \<or> de_offset_cycles (es' ! i) + de_instruction_cost_cycles (es0 ! i) \<le> de_offset_cycles (es0 ! i)
      else es' ! i = es ! i"
    proof (cases "i \<in> (\<Union>(deadline, order, group_id, is)\<in>set rest. set is)")
      case True
      then show ?thesis using ih i by auto
    next
      case False
      then have e: "es' ! i = set_offsets ?s is es ! i" using ih i by auto
      show ?thesis using False own [of i] s unfolding e by (auto simp: set_offsets_nth i "2.prems"(4))
    qed
  qed
qed simp

lemma in_filterI: "x \<in> set xs \<Longrightarrow> P x \<Longrightarrow> x \<in> set (filter P xs)"
  by simp

lemma preload_pairs_has_play:
  "(\<Union>(deadline, order, group_id, is)\<in>set (preload_pairs es). set is) = {i. i < length es \<and> has_play es (es ! i)}"
proof (intro set_eqI iffI)
  fix i assume "i \<in> (\<Union>(deadline, order, group_id, is)\<in>set (preload_pairs es). set is)"
  then show "i \<in> {i. i < length es \<and> has_play es (es ! i)}"
    by (auto simp: preload_pairs_def Let_def has_play_def group_key_def in_set_enumerate_eq list_ex_iff)
next
  fix i assume "i \<in> {i. i < length es \<and> has_play es (es ! i)}"
  then have i: "i < length es" "has_play es (es ! i)" by auto
  let ?is = "map fst (filter (\<lambda>(index, event). group_key event = group_key (es ! i))
    (filter (\<lambda>(index, event). de_preload event) (enumerate 0 es)))"
  have "(i, es ! i) \<in> set (filter (\<lambda>(index, event). de_preload event) (enumerate 0 es))"
    using i by (simp add: has_play_def in_set_enumerate_eq)
  then have key: "group_key (es ! i) \<in> (\<lambda>(index, event). group_key event) ` set (filter (\<lambda>(index, event). de_preload event) (enumerate 0 es))"
    by (rule rev_image_eqI) simp
  let ?pre = "filter (\<lambda>(index, event). de_preload event) (enumerate 0 es)"
  have group: "(group_key (es ! i), ?is) \<in> set (map (\<lambda>key. (key, map fst (filter (\<lambda>(index, event). group_key event = key) ?pre)))
      (sort (remdups (map (\<lambda>(index, event). group_key event) ?pre))))"
    unfolding set_map set_sort set_remdups by (rule image_eqI [OF refl key])
  have played: "(\<lambda>((group_id, deadline, order), indices). list_ex (\<lambda>event. de_group_id event = group_id
      \<and> de_offset_cycles event = deadline \<and> de_function event = RwgPlay) es) (group_key (es ! i), ?is)"
    using i(2) by (auto simp: group_key_def has_play_def list_ex_iff)
  have "(de_offset_cycles (es ! i), order_key (de_order (es ! i)), de_group_id (es ! i), ?is) \<in> set (preload_pairs es)"
    unfolding preload_pairs_def Let_def set_sort
  proof (subst set_map, rule image_eqI)
    show "(group_key (es ! i), ?is) \<in> set (filter (\<lambda>((group_id, deadline, order), indices).
        list_ex (\<lambda>event. de_group_id event = group_id \<and> de_offset_cycles event = deadline \<and> de_function event = RwgPlay) es)
        (map (\<lambda>key. (key, map fst (filter (\<lambda>(index, event). group_key event = key) ?pre)))
          (sort (remdups (map (\<lambda>(index, event). group_key event) ?pre)))))"
      by (rule in_filterI, rule group, rule played)
  qed (simp add: group_key_def)
  moreover have "i \<in> set ?is" using i by (force simp: has_play_def in_set_enumerate_eq image_iff)
  ultimately show "i \<in> (\<Union>(deadline, order, group_id, is)\<in>set (preload_pairs es). set is)" by fastforce
qed

lemma schedule_preloads_advanced:
  assumes "schedule_preloads es = Inr es'" "\<forall>e\<in>set es. 0 \<le> de_offset_cycles e" "\<forall>e\<in>set es. 0 \<le> de_instruction_cost_cycles e"
  shows "list_all2 (advanced es) es es'"
proof -
  have m: "list_all2 moved_earlier es es'" by (rule schedule_preloads_moved [OF assms(1,2)])
  have "\<forall>(deadline, order, group_id, is)\<in>set (rev (preload_pairs es)). 0 \<le> deadline
      \<and> (\<forall>i\<in>set is. i < length es \<and> de_preload (es ! i) \<and> de_offset_cycles (es ! i) = deadline)"
    using preload_pairs_indices preload_pairs_deadline assms(2) by fastforce
  from place_preloads_advanced [OF assms(1) [unfolded schedule_preloads_def] _ this refl _ assms(3)]
  have "\<forall>i<length es. if has_play es (es ! i)
    then de_offset_cycles (es' ! i) = 0 \<or> de_offset_cycles (es' ! i) + de_instruction_cost_cycles (es ! i) \<le> de_offset_cycles (es ! i)
    else es' ! i = es ! i"
    using preload_pairs_has_play [of es] by (simp add: u64_max_def)
  then show ?thesis using m unfolding list_all2_conv_all_nth advanced_def moved_earlier_def by metis
qed

section \<open>Joined calls\<close>

lemma joined_single: "joined [e] c \<longleftrightarrow> c = e"
  by (auto simp: joined_def is_arg_min_def)

lemma joined_fields:
  assumes "joined batch c"
  shows "de_function c = de_function (hd batch)" "de_offset_cycles c = de_offset_cycles (hd batch)"
proof -
  from assms have c: "c = (hd batch)\<lparr>de_instruction_cost_cycles := de_instruction_cost_cycles c, de_order := de_order c, de_args := de_args c\<rparr>"
    unfolding joined_def by blast
  show "de_function c = de_function (hd batch)" by (subst c) simp
  show "de_offset_cycles c = de_offset_cycles (hd batch)" by (subst c) simp
qed

lemma union_of_snoc:
  assumes "union_of arg batch u" "merge_argument u (arg e) = Inr v"
  shows "union_of arg (batch @ [e]) v"
  using assms by (auto simp: union_of_def merge_argument_def bit_or_iff split: oasm_argument.splits)

lemma union_of_single: "arg e = ArgUnsigned n \<Longrightarrow> union_of arg [e] (arg e)"
  by (auto simp: union_of_def)

lemma all_below_2: "(\<forall>k<2. P k) \<longleftrightarrow> P 0 \<and> P (Suc 0)"
  by (auto simp: less_2_cases_iff)

lemma joined_snoc:
  assumes j: "joined batch p" and ne: "batch \<noteq> []" and m: "merge_events p e = Inr c" and f: "de_function e = de_function p"
  shows "joined (batch @ [e]) c"
proof -
  let ?h = "hd batch"
  from j have p: "p = ?h\<lparr>de_instruction_cost_cycles := de_instruction_cost_cycles p, de_order := de_order p, de_args := de_args p\<rparr>"
    and cost: "de_instruction_cost_cycles p = Max (de_instruction_cost_cycles ` set batch)"
    and least: "is_arg_min order_key (\<lambda>r. r \<in> de_order ` set batch) (de_order p)"
    and args: "if length batch = 1 \<or> de_function ?h = RwgInit then de_args p = de_args ?h
        else (\<forall>e\<in>set batch. length (de_args e) = 2) \<and> length (de_args p) = 2
          \<and> (\<forall>k<2. union_of (\<lambda>e. de_args e ! k) batch (de_args p ! k))"
    unfolding joined_def by blast+
  have fp: "de_function p = de_function ?h" by (rule joined_fields [OF j])
  let ?p = "p\<lparr>de_instruction_cost_cycles := max (de_instruction_cost_cycles p) (de_instruction_cost_cycles e),
    de_order := order_min (de_order p) (de_order e)\<rparr>"
  from m have c: "c = ?p\<lparr>de_args := de_args c\<rparr>" "de_function e = RwgInit \<Longrightarrow> de_args c = de_args p"
    by (auto simp: merge_events_def Let_def res_simps split: if_splits list.splits)
  have "c = ?h\<lparr>de_instruction_cost_cycles := de_instruction_cost_cycles c, de_order := de_order c, de_args := de_args c\<rparr>"
    by (subst (1 2 3) c(1), subst (1) p) simp
  moreover have "de_instruction_cost_cycles c = Max (de_instruction_cost_cycles ` set (batch @ [e]))"
    by (subst c(1)) (use ne cost in \<open>simp add: max.commute\<close>)
  moreover have "is_arg_min order_key (\<lambda>r. r \<in> de_order ` set (batch @ [e])) (de_order c)"
    by (subst c(1)) (use least in \<open>auto simp: is_arg_min_def order_min_def not_less not_le\<close>)
  moreover have "if length (batch @ [e]) = 1 \<or> de_function ?h = RwgInit then de_args c = de_args ?h
      else (\<forall>x\<in>set (batch @ [e]). length (de_args x) = 2) \<and> length (de_args c) = 2
        \<and> (\<forall>k<2. union_of (\<lambda>x. de_args x ! k) (batch @ [e]) (de_args c ! k))"
  proof (cases "de_function ?h = RwgInit")
    case True
    then show ?thesis using args c(2) f fp by simp
  next
    case False
    with m f fp obtain a0 a1 b0 b1 c0 c1 where x: "de_args p = [a0, a1]" "de_args e = [b0, b1]" "de_args c = [c0, c1]"
      "merge_argument a0 b0 = Inr c0" "merge_argument a1 b1 = Inr c1"
      by (auto simp: merge_events_def Let_def res_simps split: if_splits list.splits)
    have "(\<forall>x\<in>set batch. length (de_args x) = 2) \<and> (\<forall>k<2. union_of (\<lambda>x. de_args x ! k) batch (de_args p ! k))"
    proof (cases "length batch = 1")
      case True
      then have b: "batch = [?h]" using ne by (cases batch) auto
      have h: "de_args ?h = [a0, a1]" using args True x(1) by simp
      obtain n0 n1 where "a0 = ArgUnsigned n0" "a1 = ArgUnsigned n1"
        using x(4,5) by (auto simp: merge_argument_def split: oasm_argument.splits)
      then show ?thesis unfolding all_below_2 using h x(1)
        by (subst (1 2 3) b) (auto simp: union_of_def)
    qed (use args False in simp)
    then show ?thesis using False x union_of_snoc [of _ batch _ e] ne unfolding all_below_2 by auto
  qed
  ultimately show ?thesis unfolding joined_def using ne by simp
qed

section \<open>Batches\<close>

definition call_key :: "direct_event \<Rightarrow> int \<times> int" where
  "call_key e = (de_offset_cycles e, coalesce_priority (de_function e))"

lemma alike_key: "joinable e \<Longrightarrow> alike e e' \<longleftrightarrow> call_key e' = call_key e"
  by (auto simp: joinable_def alike_def call_key_def coalesce_priority_def split: if_splits)

lemma joinable_alike: "alike e e' \<Longrightarrow> joinable e' \<longleftrightarrow> joinable e"
  by (simp add: alike_def joinable_def)

lemma mergeable_joinable: "mergeable (de_function e) \<longleftrightarrow> joinable e"
  by (auto simp: mergeable_def joinable_def)

text \<open>
  The state of the merging loop: the batches so far, the last one first, with the calls still to come.  The last batch may still
  grow; every earlier one of a joinable function lies strictly before it.
\<close>

definition batching :: "direct_event list list \<Rightarrow> direct_event list \<Rightarrow> bool" where
  "batching bs es \<longleftrightarrow> sorted (map call_key (concat (rev bs) @ es))
     \<and> (\<forall>b\<in>set bs. \<exists>e\<in>set b. b = (if joinable e then filter (alike e) (concat (rev bs)) else [e]))
     \<and> (\<forall>b\<in>set (tl bs). \<forall>e\<in>set b. \<forall>l\<in>set (hd bs). joinable e \<longrightarrow> call_key e < call_key l)"

lemma batching_same:
  assumes "batching (b # bs) (e # es)" "joinable e" "alike l e" "l \<in> set b"
  shows "batching ((b @ [e]) # bs) es"
proof -
  let ?C = "concat (rev bs) @ b"
  have l: "joinable l" "call_key e = call_key l" using assms(2,3) joinable_alike [of l e] alike_key [of l e] by auto
  have C: "concat (rev (b # bs)) = ?C" by simp
  note inv = assms(1) [unfolded batching_def C list.sel]
  from inv have srt: "sorted (map call_key (?C @ e # es))" by blast
  from inv have before: "call_key x < call_key k" if "b' \<in> set bs" "x \<in> set b'" "joinable x" "k \<in> set b" for b' x k
    using that by blast
  from inv have bs: "\<exists>w\<in>set b'. b' = (if joinable w then filter (alike w) ?C else [w])" if "b' \<in> set bs" for b'
    using that by simp
  from inv have b: "\<exists>w\<in>set b. b = (if joinable w then filter (alike w) ?C else [w])" by simp
  from b obtain w where w: "w \<in> set b" "b = (if joinable w then filter (alike w) ?C else [w])" by blast
  have jw: "joinable w" using w(2) assms(4) l(1) by (auto split: if_splits)
  then have "\<forall>x\<in>set b. alike w x" using w(2) by (metis mem_Collect_eq set_filter)
  then have "alike w l" using assms(4) by blast
  then have "alike w e" using assms(3) by (simp add: alike_def)
  then have 1: "\<exists>w\<in>set (b @ [e]). b @ [e] = (if joinable w then filter (alike w) (?C @ [e]) else [w])"
    using w jw by (intro bexI [of _ w]) auto
  have 2: "\<exists>w\<in>set b'. b' = (if joinable w then filter (alike w) (?C @ [e]) else [w])" if "b' \<in> set bs" for b'
  proof -
    from bs [OF that] obtain v where v: "v \<in> set b'" "b' = (if joinable v then filter (alike v) ?C else [v])" by blast
    have "joinable v \<Longrightarrow> \<not> alike v e" using before [OF that v(1) _ assms(4)] alike_key [of v e] l(2) by auto
    then show ?thesis using v by (intro bexI [of _ v]) auto
  qed
  have 3: "call_key x < call_key k" if "b' \<in> set bs" "x \<in> set b'" "joinable x" "k \<in> set (b @ [e])" for b' x k
    using before [OF that(1-3)] before [OF that(1-3) assms(4)] that(4) l(2) by auto
  have C': "concat (rev ((b @ [e]) # bs)) = ?C @ [e]" by simp
  show ?thesis unfolding batching_def C' list.sel list.set(2) using srt 1 2 3 by (simp only: append_assoc append_Cons append_Nil) blast
qed

lemma batching_new:
  assumes "batching bs (e # es)" "bs \<noteq> [] \<Longrightarrow> l \<in> set (hd bs) \<and> \<not> (joinable e \<and> alike l e)"
  shows "batching ([e] # bs) es"
proof -
  let ?C = "concat (rev bs)"
  from assms(1) have srt: "sorted (map call_key (?C @ e # es))"
    and bs: "\<And>b. b \<in> set bs \<Longrightarrow> \<exists>w\<in>set b. b = (if joinable w then filter (alike w) ?C else [w])"
    and before: "\<And>x b. b \<in> set (tl bs) \<Longrightarrow> x \<in> set b \<Longrightarrow> l \<in> set (hd bs) \<Longrightarrow> joinable x \<Longrightarrow> call_key x < call_key l"
    by (auto simp: batching_def)
  have le: "call_key x \<le> call_key e" if "x \<in> set ?C" for x using srt that by (auto simp: sorted_append)
  have lt: "call_key x < call_key e" if x: "b \<in> set bs" "x \<in> set b" "joinable x" for x b
  proof (cases "b \<in> set (tl bs)")
    case True
    then have "bs \<noteq> []" by auto
    then have "l \<in> set (hd bs)" "hd bs \<in> set bs" using assms(2) by auto
    then show ?thesis using before [OF True x(2) _ x(3)] le [of l] by fastforce
  next
    case False
    with x(1) have h: "b = hd bs" "bs \<noteq> []" by (cases bs; auto)+
    have "call_key x \<noteq> call_key e"
    proof
      assume "call_key x = call_key e"
      then have xe: "alike x e" "joinable e" using alike_key [OF x(3), of e] joinable_alike [of x e] x(3) by auto
      from bs [OF x(1)] obtain w where w: "w \<in> set b" "b = (if joinable w then filter (alike w) ?C else [w])" by blast
      have "joinable w" using w(2) x(2,3) by (auto split: if_splits)
      then have "\<forall>y\<in>set b. alike w y" using w(2) by (metis mem_Collect_eq set_filter)
      then have "alike w x" "alike w l" using x(2) assms(2) h by blast+
      then show False using xe assms(2) h by (simp add: alike_def)
    qed
    moreover have "call_key x \<le> call_key e" using le [of x] x by auto
    ultimately show ?thesis by (simp add: order.not_eq_order_implies_strict)
  qed
  have no: "\<not> alike w e \<and> \<not> alike e w" if "b \<in> set bs" "w \<in> set b" "joinable w \<or> joinable e" for b w
    using lt [OF that(1,2)] that(3) alike_key [of w e] joinable_alike [of w e] by (auto simp: alike_def)
  have "\<exists>w\<in>set [e]. [e] = (if joinable w then filter (alike w) (?C @ [e]) else [w])"
    using no by (auto simp: alike_def filter_empty_conv)
  moreover have "\<exists>w\<in>set b. b = (if joinable w then filter (alike w) (?C @ [e]) else [w])" if "b \<in> set bs" for b
  proof -
    from bs [OF that] obtain v where v: "v \<in> set b" "b = (if joinable v then filter (alike v) ?C else [v])" by blast
    then show ?thesis using no [OF that v(1)] by (intro bexI [of _ v]) auto
  qed
  moreover have "concat (rev ([e] # bs)) = ?C @ [e]" by simp
  ultimately show ?thesis unfolding batching_def list.sel list.set(2) using srt lt
    by (simp only: append_assoc append_Cons append_Nil) auto
qed

lemma coalesce_events_batches:
  assumes "coalesce_events acc es = Inr r" "batching bs es" "list_all2 joined bs acc"
  shows "\<exists>batches. list_all2 joined batches r \<and> concat batches = concat (rev bs) @ es
    \<and> (\<forall>b\<in>set batches. \<exists>e\<in>set b. b = (if joinable e then filter (alike e) (concat (rev bs) @ es) else [e]))"
  using assms
proof (induction acc es arbitrary: bs r rule: coalesce_events.induct)
  case (1 acc)
  then show ?case unfolding append_Nil2
    by (intro exI [of _ "rev bs"]) (auto simp: batching_def split del: if_split)
next
  case (2 event rest)
  then have "batching [[event]] rest" using batching_new [of "[]" event rest] by simp
  moreover have "bs = []" "concat (rev [[event]]) @ rest = concat (rev []) @ event # rest" using "2.prems"(3) by simp_all
  ultimately show ?case using "2.IH" [of r "[[event]]"] "2.prems"(1) by (simp only: coalesce_events.simps list.rel_inject joined_single list.rel_intros)
next
  case (3 previous before event rest)
  then obtain b bs' where bs: "bs = b # bs'" "joined b previous" "list_all2 joined bs' before" by (auto simp: list_all2_Cons2)
  have ne: "b \<noteq> []" using "3.prems"(2) by (auto simp: batching_def bs)
  have h: "hd b \<in> set b" using ne by simp
  show ?case
  proof (cases "mergeable (de_function event) \<and> de_offset_cycles previous = de_offset_cycles event \<and> de_function previous = de_function event")
    case True
    with "3.prems"(1) obtain m where m: "merge_events previous event = Inr m" "coalesce_events (m # before) rest = Inr r"
      by (auto simp: res_simps)
    have "alike (hd b) event" "joinable event" using True joined_fields [OF bs(2)] by (auto simp: alike_def mergeable_joinable)
    then have "batching ((b @ [event]) # bs') rest" using batching_same "3.prems"(2) h unfolding bs(1) by blast
    moreover have "joined (b @ [event]) m" using joined_snoc [OF bs(2) ne m(1)] True by simp
    moreover have "concat (rev ((b @ [event]) # bs')) @ rest = concat (rev bs) @ event # rest" by (simp add: bs(1))
    ultimately show ?thesis using "3.IH"(1) [OF True m(2), of "(b @ [event]) # bs'"] bs(3) by (simp only: list.rel_inject)
  next
    case False
    with "3.prems"(1) have r: "coalesce_events (event # previous # before) rest = Inr r" unfolding coalesce_events.simps by (simp only: if_False)
    have "\<not> (joinable event \<and> alike (hd b) event)" using False joined_fields [OF bs(2)] by (auto simp: alike_def mergeable_joinable)
    then have "batching ([event] # bs) rest" using batching_new [OF "3.prems"(2), of "hd b"] h by (simp add: bs(1))
    moreover have "concat (rev ([event] # bs)) @ rest = concat (rev bs) @ event # rest" by simp
    ultimately show ?thesis using "3.IH"(2) [OF False r, of "[event] # bs"] bs by (simp only: list.rel_inject joined_single)
  qed
qed

lemma coalesce_batched:
  assumes "coalesce_direct_events es = Inr r"
  shows "\<exists>batches. batched es batches \<and> list_all2 joined batches r"
proof -
  let ?S = "sort_key call_key es"
  have S: "coalesce_events [] ?S = Inr r" using assms by (simp add: coalesce_direct_events_def call_key_def [abs_def])
  have "batching [] ?S" by (simp add: batching_def)
  from coalesce_events_batches [OF S this, unfolded rev.simps concat.simps append_Nil] obtain batches where b: "list_all2 joined batches r" "concat batches = ?S"
    "\<forall>b\<in>set batches. \<exists>e\<in>set b. b = (if joinable e then filter (alike e) ?S else [e])" by auto
  have "filter (alike e) ?S = filter (alike e) es" if "joinable e" for e
  proof -
    have "alike e = (\<lambda>x. call_key x = call_key e)" using alike_key [OF that] by blast
    then show ?thesis by (simp add: sort_key_stable)
  qed
  then have "\<exists>e\<in>set es. batch = (if joinable e then filter (alike e) es else [e])" if "batch \<in> set batches" for batch
  proof -
    from b(3) that obtain e where e: "e \<in> set batch" "batch = (if joinable e then filter (alike e) ?S else [e])" by blast
    have "set batch \<subseteq> set es" using that arg_cong [OF b(2), of set] by auto
    with e \<open>\<And>e. joinable e \<Longrightarrow> filter (alike e) ?S = filter (alike e) es\<close> show ?thesis by (intro bexI [of _ e]) auto
  qed
  moreover have "mset (concat batches) = mset es" unfolding b(2) by simp
  ultimately show ?thesis using b(1) unfolding batched_def by blast
qed

section \<open>A partition and a board\<close>

definition scheduled_part :: "f64_arith \<Rightarrow> direct_event list \<Rightarrow> direct_event list \<Rightarrow> bool" where
  "scheduled_part fa part calls \<longleftrightarrow> (\<exists>placed batches.
     list_all2 (advanced part) (map (raised fa) (filter (survives part) part)) placed
     \<and> batched placed batches \<and> list_all2 joined batches calls)"

definition phase :: "oasm_function \<Rightarrow> int" where
  "phase f = (if f = LoopBegin then 0 else if f = RwgInit then 1 else if f = LoopEnd then 4
     else if f \<in> {WaitMaster, TrigSlave} then 3 else 2)"

definition in_order :: "direct_event \<Rightarrow> direct_event \<Rightarrow> bool" where
  "in_order e e' \<longleftrightarrow> (de_offset_cycles e, phase (de_function e), order_key (de_order e))
     \<le> (de_offset_cycles e', phase (de_function e'), order_key (de_order e'))"

definition affordable :: "f64_arith \<Rightarrow> direct_event \<Rightarrow> bool" where
  "affordable fa e \<longleftrightarrow> (\<exists>c. oasm_call_cost fa e = Inr c \<and> c \<le> de_instruction_cost_cycles e)"

lemma schedule_key_phase: "schedule_key e \<le> schedule_key e' \<longleftrightarrow> in_order e e'"
proof -
  have "oasm_function_priority f = phase f" for f by (cases f) (simp_all add: phase_def oasm_function_priority_def)
  then show ?thesis by (simp add: schedule_key_def in_order_def)
qed

lemma affordable_raised: "affordable fa e \<Longrightarrow> raised fa e = e"
  by (auto simp: affordable_def raised_def max_absorb1)

lemma affordable_cost: "affordable fa e \<Longrightarrow> 0 \<le> de_instruction_cost_cycles e"
  using oasm_call_cost_nonneg unfolding affordable_def by force

lemma raise_cost_affordable: "res_traverse (raise_cost fa) es = Inr es' \<Longrightarrow> e \<in> set es' \<Longrightarrow> affordable fa e"
  unfolding affordable_def by (auto simp: res_simps list_all2_conv_all_nth in_set_conv_nth dest: raise_cost_props(3))

lemma joinable_cost: "joinable e \<Longrightarrow> joinable e' \<Longrightarrow> de_function e = de_function e' \<Longrightarrow> oasm_call_cost fa e = oasm_call_cost fa e'"
  by (auto simp: joinable_def oasm_call_cost_def)

lemma joined_affordable:
  assumes "joined batch c" "\<exists>e\<in>set es. batch = (if joinable e then filter (alike e) es else [e])" "\<forall>e\<in>set es. affordable fa e"
  shows "affordable fa c"
proof -
  from assms(2) obtain e where e: "e \<in> set es" "batch = (if joinable e then filter (alike e) es else [e])" by blast
  show ?thesis
  proof (cases "joinable e")
    case True
    then have b: "e \<in> set batch" "\<forall>x\<in>set batch. alike e x" using e by (simp_all add: alike_def)
    then have "hd batch \<in> set batch" by (intro list.set_sel(1)) auto
    have f: "de_function c = de_function e" using joined_fields(1) [OF assms(1)] b(2) \<open>hd batch \<in> set batch\<close> by (simp add: alike_def)
    then have c: "oasm_call_cost fa c = oasm_call_cost fa e" using True by (intro joinable_cost) (simp_all add: joinable_def)
    have "de_instruction_cost_cycles e \<le> de_instruction_cost_cycles c" using assms(1) b(1) by (simp add: joined_def)
    then show ?thesis using assms(3) e(1) c unfolding affordable_def by force
  next
    case False
    then show ?thesis using e assms(1,3) by (simp add: joined_single)
  qed
qed

lemma list_all2_filter:
  "list_all2 P xs ys \<Longrightarrow> (\<And>x y. P x y \<Longrightarrow> x \<in> set xs \<Longrightarrow> Q y \<longleftrightarrow> R x) \<Longrightarrow> list_all2 P (filter R xs) (filter Q ys)"
  by (induction rule: list_all2_induct) auto

lemma advanced_fields:
  assumes "advanced part e e'"
  shows "de_function e' = de_function e" "de_args e' = de_args e" "de_instruction_cost_cycles e' = de_instruction_cost_cycles e"
    "\<not> de_preload e \<Longrightarrow> e' = e"
proof -
  obtain t where "e' = e\<lparr>de_offset_cycles := t\<rparr>" using assms unfolding advanced_def
    by (cases "has_play part e") (auto intro: that [of "de_offset_cycles e"])
  then show "de_function e' = de_function e" "de_args e' = de_args e" "de_instruction_cost_cycles e' = de_instruction_cost_cycles e"
    by simp_all
  show "\<not> de_preload e \<Longrightarrow> e' = e" using assms by (simp add: advanced_def has_play_def)
qed

lemma schedule_partition_exact:
  assumes "schedule_partition fa part = Inr r" "\<forall>e\<in>set part. 0 \<le> de_offset_cycles e" "\<forall>e\<in>set part. de_preload e \<longrightarrow> \<not> joinable e"
  shows "scheduled_part fa part r \<and> (\<forall>c\<in>set r. affordable fa c)"
proof -
  from assms(1) obtain es placed where
    es: "res_traverse (raise_cost fa) part = Inr es"
    and placed: "schedule_preloads (snd (eliminate_superseded_preloads es)) = Inr placed"
    and r: "coalesce_direct_events (remove_fused_handoff_plays (fst (eliminate_superseded_preloads es)) placed) = Inr r"
    by (auto simp: schedule_partition_def res_bind_Inr_iff Let_def case_prod_beta)
  have e: "es = map (raised fa) part" using es by (rule traverse_raised)
  let ?kept = "filter (\<lambda>e. \<not> superseded es e) es" and ?removed = "remove_fused_handoff_plays (fst (eliminate_superseded_preloads es)) placed"
  have ok: "\<forall>e\<in>set ?kept. 0 \<le> de_offset_cycles e" "\<forall>e\<in>set ?kept. affordable fa e"
    using assms(2) raise_cost_affordable [OF es] by (auto simp: e)
  have "list_all2 (advanced ?kept) ?kept placed"
    using schedule_preloads_advanced [OF placed [unfolded eliminate_survivors] ok(1)] ok(2) affordable_cost by blast
  moreover have "has_play ?kept = has_play part"
    using assms(3) by (fastforce simp: fun_eq_iff has_play_def e superseded_def joinable_def)
  ultimately have adv: "list_all2 (advanced part) ?kept placed" by (simp add: advanced_def [abs_def])
  have "list_all2 (advanced part) (filter (\<lambda>x. \<not> fused_play es x) ?kept) ?removed"
    unfolding remove_fused_handoff_plays_def
  proof (rule list_all2_filter [OF adv])
    fix x y assume xy: "advanced part x y" "x \<in> set ?kept"
    then have "de_function x = RwgPlay \<Longrightarrow> \<not> de_preload x" using assms(3) by (auto simp: e joinable_def)
    then show "(de_function y \<noteq> RwgPlay \<or> preload_key_of y \<notin> set (fst (eliminate_superseded_preloads es))) \<longleftrightarrow> \<not> fused_play es x"
      using advanced_fields(1,4) [OF xy(1)] unfolding fused_handoffs fused_play_def by (cases "de_function x = RwgPlay") simp_all
  qed
  moreover have "filter (\<lambda>x. \<not> fused_play es x) ?kept = map (raised fa) (filter (survives part) part)"
    using survives_raised [of fa part] by (simp add: e filter_map comp_def survives_def [abs_def] conj_commute)
  ultimately have p: "list_all2 (advanced part) (map (raised fa) (filter (survives part) part)) ?removed" by simp
  from coalesce_batched [OF r] obtain batches where b: "batched ?removed batches" "list_all2 joined batches r" by blast
  have "\<forall>e\<in>set ?removed. affordable fa e"
  proof
    fix y assume "y \<in> set ?removed"
    then have "y \<in> set placed" by (auto simp: remove_fused_handoff_plays_def)
    then obtain x where x: "x \<in> set ?kept" "advanced part x y" using adv by (metis in_set_conv_nth list_all2_conv_all_nth)
    from oasm_call_cost_cong [OF advanced_fields(1,2) [OF x(2)]] show "affordable fa y"
      using ok(2) x(1) advanced_fields(3) [OF x(2)] by (auto simp: affordable_def)
  qed
  then have "affordable fa c" if "c \<in> set r" for c
    using b that joined_affordable unfolding batched_def list_all2_conv_all_nth in_set_conv_nth by (metis nth_mem)
  then show ?thesis using p b unfolding scheduled_part_def by blast
qed

lemma partitions_exact:
  assumes "res_traverse (schedule_partition fa) parts = Inr ps" "\<forall>e\<in>set (concat parts). 0 \<le> de_offset_cycles e"
    "\<forall>e\<in>set (concat parts). de_preload e \<longrightarrow> \<not> joinable e"
  shows "list_all2 (scheduled_part fa) parts ps \<and> (\<forall>c\<in>set (concat ps). affordable fa c)"
  using assms
proof (induction parts arbitrary: ps)
  case (Cons part parts)
  then obtain p ps' where p: "schedule_partition fa part = Inr p" "res_traverse (schedule_partition fa) parts = Inr ps'" "ps = p # ps'"
    by (auto simp: res_bind_Inr_iff)
  have "scheduled_part fa part p \<and> (\<forall>c\<in>set p. affordable fa c)"
    by (rule schedule_partition_exact [OF p(1)]) (use Cons.prems(2,3) in auto)
  then show ?case using Cons.IH [OF p(2)] Cons.prems(2,3) p(3) by auto
qed simp

text \<open>
  C20. A schedule keeps, moves and joins exactly what it should, for events at non-negative times whose preloads are not themselves
  calls that are joined (they load waveforms).  Of every partition it drops the preloads that a preload of a later
  group at the same time and channel supersedes and the plays that preloads of different groups at their place fuse, and nothing
  else.  A remaining preload whose group is played at its time is moved so far ahead that it is done by then, or to the start of
  the epoch; all other events keep their time.  The calls that configure TTL outputs, initialise or play channels
  become one call per function and time, with the union of their masks, their greatest cost and their least order; every other
  event remains a call of its own.  Costs are raised to those on the board, and the calls of all partitions and the additional events are
  in the order of time, phase and event order.
\<close>

theorem schedule_board_exact:
  assumes "schedule_board_events fa parts extra = Inr evs" "\<forall>e\<in>set (concat parts). 0 \<le> de_offset_cycles e"
    "\<forall>e\<in>set (concat parts). de_preload e \<longrightarrow> \<not> joinable e"
  shows "sorted_wrt in_order evs \<and> (\<forall>e\<in>set evs. affordable fa e)
    \<and> (\<exists>calls. list_all2 (scheduled_part fa) parts calls \<and> mset evs = mset (concat calls @ map (raised fa) extra))"
proof -
  from assms(1) obtain ps es where ps: "res_traverse (schedule_partition fa) parts = Inr ps"
    and es: "res_traverse (raise_cost fa) (concat ps @ extra) = Inr es" and evs: "evs = sort_key schedule_key es"
    by (auto simp: schedule_board_events_def res_bind_Inr_iff)
  note p = partitions_exact [OF ps assms(2,3)]
  have "map (raised fa) (concat ps) = concat ps" using p by (intro map_idI affordable_raised) blast
  then have "mset evs = mset (concat ps @ map (raised fa) extra)" unfolding evs traverse_raised [OF es] map_append by simp
  moreover have "sorted (map schedule_key evs)" "\<forall>e\<in>set evs. affordable fa e"
    using schedule_sorted [OF assms(1)] unfolding affordable_def by blast+
  ultimately show ?thesis using p unfolding sorted_wrt_map schedule_key_phase by blast
qed

text \<open>
  Six events at one time: the second waveform of channel 0 supersedes the first and fuses its play; the waveform of channel 1
  is loaded before its play, and the plays of channels 1 and 2 are one call.
\<close>

definition rwg_event :: "int \<Rightarrow> oasm_function \<Rightarrow> oasm_argument list \<Rightarrow> int \<Rightarrow> u8 \<Rightarrow> int \<Rightarrow> bool \<Rightarrow> direct_event" where
  "rwg_event offset f args cost channel number preload =
     \<lparr>de_epoch = 0, de_offset_cycles = offset, de_board = ''rwg0'', de_function = f, de_args = args,
      de_instruction_cost_cycles = cost, de_order = \<lparr>eo_channel_kind = 1, eo_local_id = channel, eo_sequence = number\<rparr>,
      de_group_id = number, de_preload = preload, de_loop_scope = None\<rparr>"

definition load_at :: "int \<Rightarrow> u8 \<Rightarrow> int \<Rightarrow> direct_event" where
  "load_at offset channel number =
     rwg_event offset RwgLoadWaveform [ArgJson (JObject [(''freq_coeffs'', JArray []), (''amp_coeffs'', JArray [])])] 4 channel number True"

definition play_at :: "int \<Rightarrow> u8 \<Rightarrow> int \<Rightarrow> direct_event" where
  "play_at channels channel number = rwg_event 100 RwgPlay [ArgUnsigned channels, ArgUnsigned channels] 15 channel number False"

definition handoff_events :: "direct_event list" where
  "handoff_events = [load_at 100 0 1, load_at 100 0 2, play_at 1 0 2, load_at 100 1 3, play_at 2 1 3, play_at 4 2 4]"

lemma handoff_fields:
  "de_offset_cycles (load_at t ch g) = t" "de_offset_cycles (play_at m ch g) = 100"
  "de_function (load_at t ch g) = RwgLoadWaveform" "de_function (play_at m ch g) = RwgPlay"
  "de_group_id (load_at t ch g) = g" "de_group_id (play_at m ch g) = g" "de_preload (load_at t ch g)" "\<not> de_preload (play_at m ch g)"
  "de_instruction_cost_cycles (load_at t ch g) = 4" "de_instruction_cost_cycles (play_at m ch g) = 15"
  "order_key (de_order (load_at t ch g)) = (1, ch, g)" "order_key (de_order (play_at m ch g)) = (1, ch, g)"
  "(load_at t ch g)\<lparr>de_offset_cycles := t'\<rparr> = load_at t' ch g"
  by (simp_all add: load_at_def play_at_def rwg_event_def order_key_def)

lemma handoff_scheduled:
  "schedule_board_events no_arith [handoff_events] [] = Inr [load_at 92 0 2, load_at 96 1 3, play_at 6 1 3]"
proof -
  have "oasm_call_cost no_arith (load_at t ch g) = Inr 4" "oasm_call_cost no_arith (play_at m ch g) = Inr 15" for t ch g m
    by (simp_all add: oasm_call_cost_def rwg_load_waveform_cost_def rwg_coefficients_cost_def optional_json_number_def checked_def in_range_def int_limits
      load_at_def play_at_def rwg_event_def)
  then have r: "raise_cost no_arith (load_at t ch g) = Inr (load_at t ch g)" "raise_cost no_arith (play_at m ch g) = Inr (play_at m ch g)" for t ch g m
    by (simp_all add: raise_cost_def) (simp_all add: load_at_def play_at_def rwg_event_def)
  have "eliminate_superseded_preloads handoff_events = ([(100, 1, 0)], [load_at 100 0 2, play_at 1 0 2, load_at 100 1 3, play_at 2 1 3, play_at 4 2 4])"
    by (simp add: eliminate_superseded_preloads_def handoff_events_def preload_groups_def latest_group_def preload_key_of_def load_at_def play_at_def rwg_event_def)
  moreover have "schedule_preloads [load_at 100 0 2, play_at 1 0 2, load_at 100 1 3, play_at 2 1 3, play_at 4 2 4] =
     Inr [load_at 92 0 2, play_at 1 0 2, load_at 96 1 3, play_at 2 1 3, play_at 4 2 4]"
  proof -
    let ?es = "\<lambda>t t'. [load_at t 0 2, play_at 1 0 2, load_at t' 1 3, play_at 2 1 3, play_at 4 2 4]"
    note eval = preload_start_def is_target_play_def min_of_def saturating_sub_def saturating_add_def int_limits Let_def handoff_fields
    have "preload_pairs (?es 100 100) = [(100, (1, 0, 2), 2, [0]), (100, (1, 1, 3), 3, [2])]"
      by (simp add: preload_pairs_def group_key_def handoff_fields)
    moreover have "preload_start (?es 100 100) u64_max 100 3 4 = 96" "preload_start (?es 100 96) 96 100 2 4 = 92"
      by (simp_all add: eval)
    moreover have "preload_cost (?es 100 100) [2] = Inr 4" "preload_cost (?es 100 96) [0] = Inr 4"
      by (simp_all add: preload_cost_def checked_def in_range_def int_limits handoff_fields)
    moreover have "set_offsets 96 [2] (?es 100 100) = ?es 100 96" "set_offsets 92 [0] (?es 100 96) = ?es 92 96"
      by (simp_all add: set_offsets_def handoff_fields)
    ultimately show ?thesis by (simp add: schedule_preloads_def)
  qed
  moreover have "remove_fused_handoff_plays [(100, 1, 0)] [load_at 92 0 2, play_at 1 0 2, load_at 96 1 3, play_at 2 1 3, play_at 4 2 4]
    = [load_at 92 0 2, load_at 96 1 3, play_at 2 1 3, play_at 4 2 4]"
    by (simp add: remove_fused_handoff_plays_def preload_key_of_def load_at_def play_at_def rwg_event_def)
  moreover have "coalesce_direct_events [load_at 92 0 2, load_at 96 1 3, play_at 2 1 3, play_at 4 2 4] = Inr [load_at 92 0 2, load_at 96 1 3, play_at 6 1 3]"
    by (simp add: coalesce_direct_events_def coalesce_priority_def mergeable_def merge_events_def merge_argument_def order_min_def order_key_def load_at_def play_at_def rwg_event_def)
  moreover have "res_traverse (raise_cost no_arith) handoff_events = Inr handoff_events" by (simp add: handoff_events_def r)
  ultimately have "schedule_partition no_arith handoff_events = Inr [load_at 92 0 2, load_at 96 1 3, play_at 6 1 3]"
    by (simp add: schedule_partition_def)
  then show ?thesis
    by (simp add: schedule_board_events_def r) (simp add: schedule_key_def oasm_function_priority_def order_key_def load_at_def play_at_def rwg_event_def)
qed

theorem schedule_board_exact_witness:
  "schedule_board_events no_arith [handoff_events] [] = Inr [load_at 92 0 2, load_at 96 1 3, play_at 6 1 3]
    \<and> sorted_wrt in_order [load_at 92 0 2, load_at 96 1 3, play_at 6 1 3]
    \<and> (\<exists>calls. scheduled_part no_arith handoff_events calls \<and> mset calls = mset [load_at 92 0 2, load_at 96 1 3, play_at 6 1 3])"
proof -
  have "\<forall>e\<in>set (concat [handoff_events]). 0 \<le> de_offset_cycles e" "\<forall>e\<in>set (concat [handoff_events]). de_preload e \<longrightarrow> \<not> joinable e"
    by (simp_all add: handoff_events_def handoff_fields joinable_def)
  from schedule_board_exact [OF handoff_scheduled this] handoff_scheduled show ?thesis
    by (auto simp: list_all2_Cons1)
qed

end
