(* ===== verification/Rtmq_Isa.thy ===== *)
theory Rtmq_Isa
  imports Prelude
begin

text \<open>
  \<open>catseq-rtmq/src/isa.rs\<close>: the primitive RTMQ v2 instructions, their encoding into 32-bit
  hardware words and the diagnostic decoder.  \<open>i8\<close> and \<open>i32\<close> operands are kept as words and read
  with \<open>sint\<close> where the source compares them.  The textual \<open>Display\<close> form is not modelled.
\<close>

section \<open>Definitions\<close>

datatype csr_address = CsrAddress u8
datatype tcs_address = TcsAddress u8

datatype flow_control = Continue | Halt | Pause

fun opcode_offset :: "flow_control \<Rightarrow> u32" where
  "opcode_offset Continue = 0"
| "opcode_offset Halt = 1"
| "opcode_offset Pause = 2"

definition from_opcode_offset :: "u32 \<Rightarrow> flow_control option" where
  "from_opcode_offset offset =
     (if offset = 0 then Some Continue else if offset = 1 then Some Halt
      else if offset = 2 then Some Pause else None)"

datatype atomic_operand =
    Nibble u8 u8
  | Immediate u8
  | Csr csr_address
  | Tcs tcs_address

datatype encode_error =
    NibbleDoesNotFit
  | HighImmediateDoesNotFit
  | LowImmediateDoesNotFit
  | TcsImmediateDoesNotFit
  | MaskOperandKind

fun operand_encode :: "atomic_operand \<Rightarrow> encode_error + u8 \<times> u8" where
  "operand_encode (Nibble nibble position) =
     (if nibble < 16 \<and> position < 16 then Inr (push_bit 4 nibble OR position, 0)
      else Inl NibbleDoesNotFit)"
| "operand_encode (Immediate value) = Inr (value, 1)"
| "operand_encode (Csr (CsrAddress address)) = Inr (address, 2)"
| "operand_encode (Tcs (TcsAddress address)) = Inr (address, 3)"

definition operand_decode :: "u8 \<Rightarrow> u8 \<Rightarrow> atomic_operand option" where
  "operand_decode value kind =
     (if kind = 0 then Some (Nibble (drop_bit 4 value) (value AND 0x0F))
      else if kind = 1 then Some (Immediate value)
      else if kind = 2 then Some (Csr (CsrAddress value))
      else if kind = 3 then Some (Tcs (TcsAddress value))
      else None)"

datatype instruction =
    Nop flow_control
  | CsrHighImmediate csr_address u16
  | CsrLowImmediate csr_address u32 flow_control
  | TcsLowImmediate tcs_address u32
  | AtomicMask csr_address atomic_operand atomic_operand flow_control

fun instr_encode :: "instruction \<Rightarrow> encode_error + u32" where
  "instr_encode (Nop flow) = Inr (push_bit 20 (13 + opcode_offset flow))"
| "instr_encode (CsrHighImmediate (CsrAddress destination) high_12_bits) =
     (if high_12_bits > 0x0FFF then Inl HighImmediateDoesNotFit
      else Inr (push_bit 24 (ucast destination) OR push_bit 20 8 OR ucast high_12_bits))"
| "instr_encode (CsrLowImmediate (CsrAddress destination) low_20_bits flow) =
     (if low_20_bits > 0x000FFFFF then Inl LowImmediateDoesNotFit
      else Inr (push_bit 24 (ucast destination) OR push_bit 20 (9 + opcode_offset flow)
        OR low_20_bits))"
| "instr_encode (TcsLowImmediate (TcsAddress destination) value) =
     (if \<not> (- (2 ^ 19) \<le> sint value \<and> sint value \<le> 2 ^ 19 - 1) then Inl TcsImmediateDoesNotFit
      else Inr (push_bit 24 (ucast destination) OR push_bit 20 2 OR (value AND 0x000FFFFF)))"
| "instr_encode (AtomicMask (CsrAddress destination) mask_op source flow) =
     res_bind (operand_encode mask_op) (\<lambda>(mask_value, mask_kind).
       if mask_kind \<noteq> 0 \<and> mask_kind \<noteq> 3 then Inl MaskOperandKind
       else res_bind (operand_encode source) (\<lambda>(source_value, source_kind).
         Inr (push_bit 24 (ucast destination) OR push_bit 20 (13 + opcode_offset flow)
           OR push_bit 18 (ucast (drop_bit 1 source_kind))
           OR push_bit 17 (ucast (mask_kind AND 1))
           OR push_bit 16 (ucast (source_kind AND 1))
           OR push_bit 8 (ucast mask_value)
           OR ucast source_value)))"

datatype decoded_instruction = Known instruction | Unknown u32

definition decode_atomic_mask :: "u32 \<Rightarrow> csr_address \<Rightarrow> u32 \<Rightarrow> instruction option" where
  "decode_atomic_mask word destination flow_offset =
     (let mask_value = ucast (drop_bit 8 word AND 0xFF);
          mask_kind = (if word AND push_bit 17 1 = 0 then 0 else 3);
          source_value = ucast (word AND 0xFF);
          source_kind = push_bit 1 (ucast (drop_bit 18 word AND 0x03))
                          OR ucast (drop_bit 16 word AND 0x01)
      in do {
        mask_op \<leftarrow> operand_decode mask_value mask_kind;
        source \<leftarrow> operand_decode source_value source_kind;
        flow \<leftarrow> from_opcode_offset flow_offset;
        Some (AtomicMask destination mask_op source flow) })"

definition instr_decode :: "u32 \<Rightarrow> decoded_instruction" where
  "instr_decode word =
     (let destination = ucast (drop_bit 24 word) :: u8;
          major = drop_bit 20 word AND 0x0F;
          low_20_bits = word AND 0x000FFFFF;
          instruction =
            (if 13 \<le> major \<and> major \<le> 15 \<and> destination = 0 \<and> low_20_bits = 0
             then map_option Nop (from_opcode_offset (major - 13))
             else if major = 8 \<and> low_20_bits \<le> 0x0FFF
             then Some (CsrHighImmediate (CsrAddress destination) (ucast low_20_bits))
             else if 9 \<le> major \<and> major \<le> 11
             then map_option (CsrLowImmediate (CsrAddress destination) low_20_bits)
                    (from_opcode_offset (major - 9))
             else if major = 2
             then Some (TcsLowImmediate (TcsAddress destination)
                          (signed_drop_bit 12 (push_bit 12 low_20_bits)))
             else if 13 \<le> major \<and> major \<le> 15
             then decode_atomic_mask word (CsrAddress destination) (major - 13)
             else None)
      in case instruction of None \<Rightarrow> Unknown word | Some i \<Rightarrow> Known i)"

section \<open>Fields of a word\<close>

definition pack :: "u8 \<Rightarrow> u32 \<Rightarrow> u32 \<Rightarrow> u32" where
  "pack destination major low = push_bit 24 (ucast destination) OR push_bit 20 major OR low"

lemma pack_fields:
  assumes "major < 16" "low < 2 ^ 20"
  shows "ucast (drop_bit 24 (pack destination major low)) = destination"
    and "take_bit 4 (drop_bit 20 (pack destination major low)) = major"
    and "take_bit 20 (pack destination major low) = low"
proof -
  have m: "take_bit 4 major = major" and l: "take_bit 20 low = low"
    using assms take_bit_self [of major 4] take_bit_self [of low 20] by simp_all
  have "ucast (drop_bit 24 (pack destination (take_bit 4 major) (take_bit 20 low))) = destination"
    unfolding pack_def by (rule bit_word_eqI) (auto simp: bit_simps)
  then show "ucast (drop_bit 24 (pack destination major low)) = destination" by (simp add: m l)
  have "take_bit 4 (drop_bit 20 (pack destination (take_bit 4 major) (take_bit 20 low)))
      = take_bit 4 major"
    unfolding pack_def by (rule bit_word_eqI) (auto simp: bit_simps)
  then show "take_bit 4 (drop_bit 20 (pack destination major low)) = major" by (simp add: m l)
  have "take_bit 20 (pack destination (take_bit 4 major) (take_bit 20 low)) = take_bit 20 low"
    unfolding pack_def by (rule bit_word_eqI) (auto simp: bit_simps)
  then show "take_bit 20 (pack destination major low) = low" by (simp add: m l)
qed

lemma pack_unpack:
  "pack (ucast (drop_bit 24 w)) (take_bit 4 (drop_bit 20 w)) (take_bit 20 w) = w"
  unfolding pack_def by (rule bit_word_eqI) (auto simp: bit_simps)

section \<open>Round trips of operands and words\<close>

lemma flow_offset_roundtrip [simp]: "from_opcode_offset (opcode_offset f) = Some f"
  by (cases f) (simp_all add: from_opcode_offset_def)

lemma from_opcode_offset_Some: "from_opcode_offset k = Some f \<longleftrightarrow> k = opcode_offset f"
  by (cases f) (auto simp: from_opcode_offset_def)

lemma operand_roundtrip: "operand_encode op = Inr (v, k) \<Longrightarrow> operand_decode v k = Some op"
proof (induction op rule: operand_encode.induct)
  case (1 n p)
  then have n: "n < 2 ^ 4" "p < 2 ^ 4" and v: "v = push_bit 4 n OR p" "k = 0" by (auto split: if_splits)
  from n have "take_bit 4 n = n" "take_bit 4 p = p" by (auto intro: take_bit_self)
  moreover have "drop_bit 4 (push_bit 4 (take_bit 4 n) OR take_bit 4 p) = take_bit 4 n"
    "take_bit 4 (push_bit 4 (take_bit 4 n) OR take_bit 4 p) = take_bit 4 p"
    by (rule bit_word_eqI, auto simp: bit_simps)+
  ultimately show ?case by (simp add: v operand_decode_def and_masks)
qed (auto simp: operand_decode_def)

lemma operand_encode_decode: "operand_decode v k = Some op \<Longrightarrow> operand_encode op = Inr (v, k)"
proof -
  have *: "push_bit 4 (drop_bit 4 v) OR take_bit 4 v = v"
    by (rule bit_word_eqI) (auto simp: bit_simps)
  have "unat v < 2 ^ LENGTH(8)" by (rule unsigned_less)
  then have d: "drop_bit 4 v < 16"
    by (simp add: drop_bit_eq_div word_less_nat_alt unat_div less_mult_imp_div_less)
  have t: "take_bit 4 v < 16"
    by (simp add: take_bit_eq_mod word_less_nat_alt unat_mod)
  assume "operand_decode v k = Some op"
  then show ?thesis using * d t by (auto simp: operand_decode_def and_masks split: if_splits)
qed

lemma operand_encode_kind: "operand_encode op = Inr (v, k) \<Longrightarrow> k \<in> {0, 1, 2, 3}"
  by (cases op rule: operand_encode.cases) (auto split: if_splits)

lemma bit_of_bool_word: "bit (of_bool a :: u32) n \<longleftrightarrow> a \<and> n = 0"
  by (cases a) (auto simp: bit_1_iff)

lemma bit_push_bool: "bit (push_bit k (of_bool a) :: u32) n \<longleftrightarrow> a \<and> n = k \<and> k < 32"
  by (cases "n = k") (auto simp: bit_push_bit_iff bit_of_bool_word)

lemma bit_push_byte: "bit (push_bit 8 (ucast mv :: u32)) n \<longleftrightarrow> 8 \<le> n \<and> bit (mv::u8) (n - 8)"
  using bit_bound(1) [of mv "n - 8"] by (auto simp: bit_push_bit_iff bit_unsigned_iff)

lemma bit_ucast_byte: "bit (ucast mv :: u32) n \<longleftrightarrow> bit (mv::u8) n"
  using bit_bound(1) [of mv n] by (auto simp: bit_unsigned_iff)

lemma sint_20_bits:
  fixes w :: u32
  assumes "- (2 ^ 19) \<le> sint w" "sint w \<le> 2 ^ 19 - 1" "19 \<le> k" "k < 32"
  shows "bit w k \<longleftrightarrow> bit w 19"
proof -
  have "signed_take_bit 19 (sint w) = sint w"
    using assms by (intro signed_take_bit_int_eq_self) auto
  then have "bit (sint w) k \<longleftrightarrow> bit (sint w) 19"
    using assms(3) by (metis bit_signed_take_bit_iff possible_bit_int min_absorb1)
  moreover have "bit (sint w) k \<longleftrightarrow> bit w k" "bit (sint w) 19 \<longleftrightarrow> bit w 19"
    using assms(4) by (auto simp: bit_sint_iff)
  ultimately show ?thesis by simp
qed
lemma tcs_sign_extend:
  fixes w :: u32
  assumes "- (2 ^ 19) \<le> sint w" "sint w \<le> 2 ^ 19 - 1"
  shows "signed_drop_bit 12 (push_bit 12 (take_bit 20 w)) = w"
proof (rule bit_word_eqI)
  fix n assume n: "n < LENGTH(32)"
  show "bit (signed_drop_bit 12 (push_bit 12 (take_bit 20 w))) n \<longleftrightarrow> bit w n"
    using n sint_20_bits [OF assms, of n] sint_20_bits [OF assms, of 31]
    by (cases "n < 20") (simp_all add: bit_signed_drop_bit_iff bit_push_bit_iff bit_take_bit_iff)
qed
definition amk_low :: "bool \<Rightarrow> bool \<Rightarrow> bool \<Rightarrow> u8 \<Rightarrow> u8 \<Rightarrow> u32" where
  "amk_low a b c mask_value source_value =
     push_bit 18 (of_bool a) OR push_bit 17 (of_bool b) OR push_bit 16 (of_bool c)
     OR push_bit 8 (ucast mask_value) OR ucast source_value"

lemma bit_amk_low:
  "bit (amk_low a b c mv sv) n \<longleftrightarrow>
     n = 18 \<and> a \<or> n = 17 \<and> b \<or> n = 16 \<and> c \<or> 8 \<le> n \<and> bit mv (n - 8) \<or> bit sv n"
  by (auto simp: amk_low_def bit_or_iff bit_push_bool bit_push_byte bit_ucast_byte)

lemma amk_low_less: "amk_low a b c mv sv < 2 ^ 20"
proof -
  have "take_bit 20 (amk_low a b c mv sv) = amk_low a b c mv sv"
    by (rule bit_word_eqI) (fastforce simp: bit_take_bit_iff bit_amk_low dest: bit_bound)
  moreover have "unat (take_bit 20 (amk_low a b c mv sv)) < 2 ^ 20"
    by (simp only: unsigned_take_bit_eq take_bit_nat_less_exp)
  ultimately show ?thesis by (simp add: word_less_nat_alt)
qed

lemma amk_low_fields:
  fixes w :: u32
  assumes "take_bit 20 w = amk_low a b c mv sv"
  shows "ucast (take_bit 8 (drop_bit 8 w)) = mv" "ucast (take_bit 8 w) = sv"
    "bit w 17 \<longleftrightarrow> b" "bit w 18 \<longleftrightarrow> a" "bit w 16 \<longleftrightarrow> c" "\<not> bit w 19"
proof -
  have bits: "bit w n \<longleftrightarrow> bit (amk_low a b c mv sv) n" if "n < 20" for n
    using that assms by (metis bit_take_bit_iff)
  note simps = bit_simps bits bit_amk_low
  show "ucast (take_bit 8 (drop_bit 8 w)) = mv"
    by (rule bit_word_eqI) (auto simp: simps)
  show "ucast (take_bit 8 w) = sv"
    by (rule bit_word_eqI) (auto simp: simps)
  show "bit w 17 \<longleftrightarrow> b" "bit w 18 \<longleftrightarrow> a" "bit w 16 \<longleftrightarrow> c" "\<not> bit w 19"
    by (simp_all add: bits bit_amk_low)
qed

lemma majors_less: "13 + opcode_offset f < 16" "9 + opcode_offset f < 16" "(8::u32) < 16" "(2::u32) < 16"
  by (cases f; simp)+


definition source_bits :: "bool \<Rightarrow> bool \<Rightarrow> bool \<Rightarrow> u8" where
  "source_bits x a c = push_bit 2 (of_bool x) OR push_bit 1 (of_bool a) OR of_bool c"

lemma source_bits_simps [simp]:
  "source_bits False False False = 0" "source_bits False False True = 1"
  "source_bits False True False = 2" "source_bits False True True = 3"
  by (simp_all add: source_bits_def)

lemma decoded_source_kind:
  "push_bit 1 (ucast (drop_bit 18 w AND 3)) OR ucast (drop_bit 16 w AND 1)
     = source_bits (bit w 19) (bit w 18) (bit (w::u32) 16)"
proof -
  have "drop_bit (Suc 18) w = drop_bit 18 w div 2" by (simp only: drop_bit_Suc drop_bit_half)
  then have d: "drop_bit 18 w div 2 = drop_bit 19 w" by simp
  have "take_bit 2 (drop_bit 18 w) = of_bool (bit w 18) + 2 * of_bool (bit w 19)"
    by (simp add: numeral_2_eq_2 take_bit_Suc d mod_2_eq_odd bit_iff_odd_drop_bit)
  then have "push_bit 1 (ucast (take_bit 2 (drop_bit 18 w))) =
      push_bit 2 (of_bool (bit w 19)) OR push_bit 1 (of_bool (bit w 18) :: u8)"
    by (cases "bit w 18"; cases "bit w 19") simp_all
  moreover have "(ucast (drop_bit 16 w AND 1) :: u8) = of_bool (bit w 16)"
    by (simp add: and_one_eq mod_2_eq_odd bit_iff_odd_drop_bit)
  ultimately show ?thesis by (simp add: source_bits_def and_masks)
qed

lemma encode_atomic_mask_pack:
  assumes "instr_encode (AtomicMask (CsrAddress d) m s f) = Inr w"
  obtains mv mk sv sk where "operand_encode m = Inr (mv, mk)" "mk = 0 \<or> mk = 3"
    "operand_encode s = Inr (sv, sk)" "sk = source_bits False (bit sk 1) (bit sk 0)"
    "w = pack d (13 + opcode_offset f) (amk_low (bit sk 1) (mk = 3) (bit sk 0) mv sv)"
proof -
  from assms obtain mv mk sv sk where e: "operand_encode m = Inr (mv, mk)" "mk = 0 \<or> mk = 3"
    "operand_encode s = Inr (sv, sk)"
    and w: "w = push_bit 24 (ucast d) OR push_bit 20 (13 + opcode_offset f)
           OR push_bit 18 (ucast (drop_bit 1 sk)) OR push_bit 17 (ucast (mk AND 1))
           OR push_bit 16 (ucast (sk AND 1)) OR push_bit 8 (ucast mv) OR ucast sv"
    by (auto simp: res_simps split: if_splits prod.splits)
  have k: "sk \<in> {0, 1, 2, 3}" using operand_encode_kind e(3) by blast
  then have "sk = source_bits False (bit sk 1) (bit sk 0)" by auto
  moreover from k e(2) have "w = pack d (13 + opcode_offset f) (amk_low (bit sk 1) (mk = 3) (bit sk 0) mv sv)"
    unfolding w pack_def amk_low_def by auto
  ultimately show ?thesis using that e by blast
qed

lemma amk_low_zero_iff: "amk_low a b c mv sv = 0 \<longleftrightarrow> \<not> a \<and> \<not> b \<and> \<not> c \<and> mv = 0 \<and> sv = 0"
proof
  assume z: "amk_low a b c mv sv = 0"
  then have "take_bit 20 (0::u32) = amk_low a b c mv sv" by simp
  from amk_low_fields [OF this] show "\<not> a \<and> \<not> b \<and> \<not> c \<and> mv = 0 \<and> sv = 0" by simp
qed (simp add: amk_low_def)

lemma decode_atomic_mask_pack:
  fixes w :: u32
  assumes "take_bit 20 w = amk_low a b c mv sv"
  shows "decode_atomic_mask w dst off = do {
     m \<leftarrow> operand_decode mv (if b then 3 else 0);
     s \<leftarrow> operand_decode sv (source_bits False a c);
     f \<leftarrow> from_opcode_offset off;
     Some (AtomicMask dst m s f) }"
proof -
  note f = amk_low_fields [OF assms]
  have "w AND push_bit 17 1 = 0 \<longleftrightarrow> \<not> b" using f(3) by (metis bit_iff_and_push_bit_not_eq_0)
  then show ?thesis
    unfolding decode_atomic_mask_def Let_def decoded_source_kind
    using f by (simp add: and_masks)
qed

definition canonical_instruction :: "instruction \<Rightarrow> instruction" where
  "canonical_instruction i =
     (case i of AtomicMask d m s f \<Rightarrow>
        if d = CsrAddress 0 \<and> m = Nibble 0 0 \<and> s = Nibble 0 0 then Nop f else i
      | _ \<Rightarrow> i)"

lemma canonical_instruction_cases:
  "canonical_instruction i = i
   \<or> (\<exists>f. i = AtomicMask (CsrAddress 0) (Nibble 0 0) (Nibble 0 0) f \<and> canonical_instruction i = Nop f)"
  by (cases i) (simp_all add: canonical_instruction_def)

lemma decoded_unknown:
  "(case x of None \<Rightarrow> Unknown w | Some i \<Rightarrow> Known i) = Unknown u \<Longrightarrow> u = w"
  by (cases x) simp_all

lemma low_bounds:
  "high \<le> 0x0FFF \<Longrightarrow> (ucast (high :: u16) :: u32) \<le> 0xFFF"
  "(low::u32) \<le> 0xFFFFF \<longleftrightarrow> low < 2 ^ 20"
  "take_bit 20 v < (2::u32) ^ 20"
proof -
  show "(ucast (high :: u16) :: u32) \<le> 0xFFF" if "high \<le> 0x0FFF"
  proof -
    have "unat high < 2 ^ LENGTH(16)" by (rule unsigned_less)
    then have "take_bit 32 (unat high) = unat high" by (intro take_bit_nat_eq_self) simp
    with that show ?thesis by (simp add: word_le_nat_alt unsigned_ucast_eq)
  qed
  show "(low::u32) \<le> 0xFFFFF \<longleftrightarrow> low < 2 ^ 20"
    by (auto simp: word_le_nat_alt word_less_nat_alt)
  have "unat (take_bit 20 v) < 2 ^ 20"
    by (simp only: unsigned_take_bit_eq take_bit_nat_less_exp)
  then show "take_bit 20 v < (2::u32) ^ 20" by (simp add: word_less_nat_alt)
qed

lemma ucast_u16_roundtrip: "ucast (ucast h :: u32) = (h::u16)"
  by (rule bit_word_eqI) (simp add: bit_unsigned_iff)

lemma ucast_low16: "(l::u32) \<le> 0xFFF \<Longrightarrow> ucast (ucast l :: u16) = l" "(l::u32) \<le> 0xFFF \<Longrightarrow> (ucast l :: u16) \<le> 0xFFF"
proof -
  assume l: "l \<le> 0xFFF"
  then have u: "unat l \<le> 4095" by (simp add: word_le_nat_alt)
  then have "take_bit 16 (unat l) = unat l" by (intro take_bit_nat_eq_self) simp
  then have c: "unat (ucast l :: u16) = unat l" by (simp add: unsigned_ucast_eq)
  with u show "(ucast l :: u16) \<le> 0xFFF" by (simp add: word_le_nat_alt)
  have "take_bit 16 l = l" using u by (intro take_bit_self) (simp add: word_less_nat_alt)
  moreover have "ucast (ucast l :: u16) = take_bit 16 l"
    by (rule bit_word_eqI) (auto simp: bit_simps)
  ultimately show "ucast (ucast l :: u16) = l" by simp
qed

lemma sign_extension_range:
  fixes l :: u32
  assumes "l < 2 ^ 20"
  defines "v \<equiv> signed_drop_bit 12 (push_bit 12 l)"
  shows "take_bit 20 v = l" and "- (2 ^ 19) \<le> sint v" and "sint v \<le> 2 ^ 19 - 1"
proof -
  have "take_bit 20 l = l" by (rule take_bit_self [OF assms(1)])
  moreover have "take_bit 20 (signed_drop_bit 12 (push_bit 12 (take_bit 20 l))) = take_bit 20 l"
  proof (rule bit_word_eqI)
    fix n assume "n < LENGTH(32)"
    then show "bit (take_bit 20 (signed_drop_bit 12 (push_bit 12 (take_bit 20 l)))) n
        \<longleftrightarrow> bit (take_bit 20 l) n"
      by (cases "n = 19")
        (auto simp: bit_signed_drop_bit_iff bit_push_bit_iff bit_take_bit_iff)
  qed
  ultimately show "take_bit 20 v = l" by (simp add: v_def)
  have "signed_take_bit 19 (sint v) = sint v"
  proof (rule bit_eqI)
    fix n
    show "bit (signed_take_bit 19 (sint v)) n \<longleftrightarrow> bit (sint v) n"
      by (cases "n = 19") (auto simp: v_def bit_signed_take_bit_iff bit_sint_iff
        bit_signed_drop_bit_iff bit_push_bit_iff min_def)
  qed
  then show "- (2 ^ 19) \<le> sint v" "sint v \<le> 2 ^ 19 - 1"
    by (metis signed_take_bit_int_greater_eq_minus_exp, metis signed_take_bit_int_less_exp zle_diff1_eq)
qed

lemma operand_zero_iff:
  assumes "operand_encode op = Inr (v, k)"
  shows "v = 0 \<and> k = 0 \<longleftrightarrow> op = Nibble 0 0"
  using operand_roundtrip [OF assms] assms by (auto simp: operand_decode_def)

lemma decode_pack:
  assumes "major < 16" "low < 2 ^ 20"
  shows "instr_decode (pack d major low) =
     (case (if 13 \<le> major \<and> major \<le> 15 \<and> d = 0 \<and> low = 0
             then map_option Nop (from_opcode_offset (major - 13))
             else if major = 8 \<and> low \<le> 0x0FFF
             then Some (CsrHighImmediate (CsrAddress d) (ucast low))
             else if 9 \<le> major \<and> major \<le> 11
             then map_option (CsrLowImmediate (CsrAddress d) low) (from_opcode_offset (major - 9))
             else if major = 2
             then Some (TcsLowImmediate (TcsAddress d) (signed_drop_bit 12 (push_bit 12 low)))
             else if 13 \<le> major \<and> major \<le> 15
             then decode_atomic_mask (pack d major low) (CsrAddress d) (major - 13)
             else None) of None \<Rightarrow> Unknown (pack d major low) | Some i \<Rightarrow> Known i)"
  unfolding instr_decode_def Let_def and_masks pack_fields [OF assms] by (rule refl)

lemma decode_encode:
  assumes "instr_encode i = Inr w"
  shows "instr_decode w = Known (canonical_instruction i)"
  using assms
proof (induction i rule: instr_encode.induct)
  case (1 f)
  then have w: "w = pack 0 (13 + opcode_offset f) 0" by (simp add: pack_def)
  show ?case unfolding w
    by (subst decode_pack) (cases f; simp add: canonical_instruction_def from_opcode_offset_def)+
next
  case (2 d h)
  then have w: "w = pack d 8 (ucast h)" and h: "h \<le> 0x0FFF" by (auto simp: pack_def split: if_splits)
  from low_bounds(1) [OF h] have l: "(ucast h :: u32) \<le> 0xFFF" "(ucast h :: u32) < 2 ^ 20"
    by (auto intro: le_less_trans)
  show ?case unfolding w using l
    by (subst decode_pack) (simp_all add: canonical_instruction_def ucast_u16_roundtrip)
next
  case (3 d l f)
  then have w: "w = pack d (9 + opcode_offset f) l" and l: "l < 2 ^ 20"
    by (auto simp: pack_def low_bounds(2) not_less split: if_splits)
  show ?case unfolding w
    by (subst decode_pack)
      (use l in \<open>cases f; simp add: canonical_instruction_def from_opcode_offset_def\<close>)+
next
  case (4 d v)
  then have w: "w = pack d 2 (take_bit 20 v)" and v: "- (2 ^ 19) \<le> sint v" "sint v \<le> 2 ^ 19 - 1"
    by (auto simp: pack_def and_masks split: if_splits)
  show ?case unfolding w
    unfolding decode_pack [OF majors_less(4) low_bounds(3)]
    by (simp add: canonical_instruction_def tcs_sign_extend [OF v])
next
  case (5 d m s f)
  from encode_atomic_mask_pack [OF 5] obtain mv mk sv sk where
    o: "operand_encode m = Inr (mv, mk)" "mk = 0 \<or> mk = 3" "operand_encode s = Inr (sv, sk)"
    and sk: "sk = source_bits False (bit sk 1) (bit sk 0)"
    and w: "w = pack d (13 + opcode_offset f) (amk_low (bit sk 1) (mk = 3) (bit sk 0) mv sv)" .
  let ?low = "amk_low (bit sk 1) (mk = 3) (bit sk 0) mv sv"
  have maj: "13 + opcode_offset f < 16" "13 \<le> 13 + opcode_offset f" "13 + opcode_offset f \<le> 15"
    "13 + opcode_offset f \<noteq> 8" "\<not> 13 + opcode_offset f \<le> 11" "13 + opcode_offset f \<noteq> 2"
    by (cases f; simp)+
  have t: "take_bit 20 (pack d (13 + opcode_offset f) ?low) = ?low"
    using pack_fields(3) [OF maj(1) amk_low_less] .
  have od: "operand_decode mv (if mk = 3 then 3 else 0) = Some m"
    "operand_decode sv (source_bits False (bit sk 1) (bit sk 0)) = Some s"
    using operand_roundtrip [OF o(1)] operand_roundtrip [OF o(3)] o(2) sk by auto
  have amk: "decode_atomic_mask (pack d (13 + opcode_offset f) ?low) (CsrAddress d) (opcode_offset f)
      = Some (AtomicMask (CsrAddress d) m s f)"
    unfolding decode_atomic_mask_pack [OF t] od by simp
  have z: "?low = 0 \<longleftrightarrow> m = Nibble 0 0 \<and> s = Nibble 0 0"
    unfolding amk_low_zero_iff
    using operand_zero_iff [OF o(1)] operand_zero_iff [OF o(3)] o(2) sk by force
  show ?case unfolding w decode_pack [OF maj(1) amk_low_less]
    using maj amk z by (auto simp: canonical_instruction_def)
qed

lemma low20_amk:
  fixes l :: u32
  assumes "l < 2 ^ 20" "\<not> bit l 19"
  shows "l = amk_low (bit l 18) (bit l 17) (bit l 16) (ucast (take_bit 8 (drop_bit 8 l))) (ucast (take_bit 8 l))"
proof (rule bit_word_eqI)
  fix n :: nat
  have "bit l n \<Longrightarrow> n < 20" for n
    using take_bit_self [OF assms(1)] by (metis bit_take_bit_iff)
  then have h: "bit l n \<Longrightarrow> n < 19" using assms(2) less_antisym by fastforce
  show "bit l n \<longleftrightarrow> bit (amk_low (bit l 18) (bit l 17) (bit l 16) (ucast (take_bit 8 (drop_bit 8 l)))
      (ucast (take_bit 8 l))) n"
  proof (cases "n < 16")
    case True
    then show ?thesis by (auto simp: bit_amk_low bit_unsigned_iff bit_take_bit_iff bit_drop_bit_eq)
  next
    case False
    then have "bit l n \<longleftrightarrow> n = 18 \<and> bit l 18 \<or> n = 17 \<and> bit l 17 \<or> n = 16 \<and> bit l 16"
      using h by (cases "n = 16"; cases "n = 17"; cases "n = 18") auto
    with False show ?thesis by (auto simp: bit_amk_low)
  qed
qed

lemma decode_atomic_mask_bit19:
  assumes "decode_atomic_mask w d k = Some i"
  shows "\<not> bit w 19"
proof
  assume "bit w 19"
  then have "source_bits (bit w 19) (bit w 18) (bit w 16) \<notin> {0, 1, 2, 3}"
    by (cases "bit w 18"; cases "bit w 16") (simp_all add: source_bits_def)
  then have "operand_decode v (source_bits (bit w 19) (bit w 18) (bit w 16)) = None" for v
    by (simp add: operand_decode_def)
  with assms show False
    unfolding decode_atomic_mask_def Let_def decoded_source_kind by (auto simp: bind_eq_Some_conv)
qed

lemma encode_decode_atomic_mask:
  assumes l: "low < 2 ^ 20" and m: "major < 16"
    and dec: "decode_atomic_mask (pack d major low) (CsrAddress d) (major - 13) = Some i"
  shows "instr_encode i = Inr (pack d major low)"
proof -
  have p: "take_bit 20 (pack d major low) = low" by (rule pack_fields(3) [OF m l])
  have "\<not> bit low 19"
    using decode_atomic_mask_bit19 [OF dec] p by (metis bit_take_bit_iff)
  define a b c mv sv where "a = bit low 18" and "b = bit low 17" and "c = bit low 16"
    and "mv = (ucast (take_bit 8 (drop_bit 8 low)) :: u8)" and "sv = (ucast (take_bit 8 low) :: u8)"
  have low: "low = amk_low a b c mv sv"
    unfolding a_def b_def c_def mv_def sv_def by (rule low20_amk [OF l \<open>\<not> bit low 19\<close>])
  from dec obtain mo so f where i: "i = AtomicMask (CsrAddress d) mo so f"
    and mo: "operand_decode mv (if b then 3 else 0) = Some mo"
    and so: "operand_decode sv (source_bits False a c) = Some so"
    and f: "major = 13 + opcode_offset f"
    unfolding decode_atomic_mask_pack [OF p [unfolded low], folded low]
    by (auto simp: bind_eq_Some_conv from_opcode_offset_Some diff_eq_eq)
  show ?thesis
    unfolding i f low
    using operand_encode_decode [OF mo] operand_encode_decode [OF so]
    by (cases a; cases b; cases c) (simp_all add: pack_def amk_low_def)
qed

lemma encode_decode:
  assumes "instr_decode w = Known i"
  shows "instr_encode i = Inr w"
proof -
  define d where "d = (ucast (drop_bit 24 w) :: u8)"
  define major where "major = take_bit 4 (drop_bit 20 w)"
  define low where "low = take_bit 20 w"
  have w: "w = pack d major low" by (simp add: d_def major_def low_def pack_unpack)
  have l: "low < 2 ^ 20" unfolding low_def by (rule low_bounds(3))
  have "unat (take_bit 4 (drop_bit 20 w)) < 2 ^ 4"
    by (simp only: unsigned_take_bit_eq take_bit_nat_less_exp)
  then have m: "major < 16" by (simp add: major_def word_less_nat_alt)
  note dec = assms [unfolded w decode_pack [OF m l]]
  consider (nop) "13 \<le> major" "major \<le> 15" "d = 0" "low = 0"
    | (hi) "major = 8" "low \<le> 0xFFF"
    | (lo) "9 \<le> major" "major \<le> 11"
    | (tcs) "major = 2"
    | (amk) "13 \<le> major" "major \<le> 15" "\<not> (d = 0 \<and> low = 0)"
    using dec by (auto split: if_splits)
  then show ?thesis
  proof cases
    case nop
    then obtain f where "i = Nop f" "major - 13 = opcode_offset f"
      using dec by (auto simp: from_opcode_offset_Some split: option.splits)
    then show ?thesis using nop by (simp add: w pack_def diff_eq_eq add.commute)
  next
    case hi
    then have "i = CsrHighImmediate (CsrAddress d) (ucast low)" using dec by simp
    then show ?thesis using hi by (simp add: w pack_def ucast_low16 not_less)
  next
    case lo
    then obtain f where "i = CsrLowImmediate (CsrAddress d) low f" "major - 9 = opcode_offset f"
    proof -
      have "\<not> (13 \<le> major \<and> major \<le> 15 \<and> d = 0 \<and> low = 0)" "major \<noteq> 8"
        using lo by (auto simp: word_le_nat_alt)
      then show ?thesis using that dec lo
        by (auto simp: from_opcode_offset_Some split: option.splits)
    qed
    then show ?thesis using l lo by (simp add: w pack_def diff_eq_eq add.commute low_bounds(2) not_less)
  next
    case tcs
    then have "i = TcsLowImmediate (TcsAddress d) (signed_drop_bit 12 (push_bit 12 low))"
      using dec by simp
    then show ?thesis using tcs sign_extension_range [OF l]
      by (simp add: w pack_def and_masks)
  next
    case amk
    then have "major \<noteq> 8" "\<not> major \<le> 11" "major \<noteq> 2" by (auto simp: word_le_nat_alt)
    with amk have "decode_atomic_mask (pack d major low) (CsrAddress d) (major - 13) = Some i"
      using dec by (auto split: option.splits)
    then show ?thesis using encode_decode_atomic_mask [OF l m] by (simp add: w)
  qed
qed

section \<open>Properties\<close>

text \<open>
  C26. Every instruction that encodes decodes to itself, with one exception that the source's decoder
  resolves in favour of \<open>NOP\<close>: the all-zero masked write to CSR 0 has the same word as the no-op.
  Encoding fails exactly on an operand out of its field, and the decoder never returns a value that
  the encoder rejects: re-encoding whatever it recognises gives the word back.
\<close>

theorem isa_encode_decode_roundtrip:
  "(\<forall>i w. instr_encode i = Inr w \<longrightarrow> instr_decode w = Known (canonical_instruction i))
   \<and> (\<forall>w i. instr_decode w = Known i \<longrightarrow> instr_encode i = Inr w)
   \<and> (\<forall>w u. instr_decode w = Unknown u \<longrightarrow> u = w)"
proof (intro conjI allI impI)
  show "u = w" if "instr_decode w = Unknown u" for w u
    using that unfolding instr_decode_def Let_def
    by (elim decoded_unknown)
qed (fact decode_encode, fact encode_decode)

theorem isa_encode_decode_roundtrip_witness:
  "instr_encode (CsrLowImmediate (CsrAddress 1) 0x12345 Pause) = Inr 0x01B12345
   \<and> instr_decode 0x01B12345 = Known (CsrLowImmediate (CsrAddress 1) 0x12345 Pause)"
proof -
  have e: "instr_encode (CsrLowImmediate (CsrAddress 1) 0x12345 Pause) = Inr 0x01B12345" by simp
  moreover from isa_encode_decode_roundtrip [THEN conjunct1, rule_format, OF e]
  have "instr_decode 0x01B12345 = Known (CsrLowImmediate (CsrAddress 1) 0x12345 Pause)"
    by (simp only: canonical_instruction_def instruction.case)
  ultimately show ?thesis by blast
qed

text \<open>
  Two different instructions that encode to the same hardware word are the two spellings of the
  no-op: the encoder loses no operand.
\<close>

theorem isa_encode_injective:
  assumes "instr_encode i = Inr w" "instr_encode j = Inr w" "i \<noteq> j"
  shows "\<exists>f. {i, j} = {Nop f, AtomicMask (CsrAddress 0) (Nibble 0 0) (Nibble 0 0) f}"
proof -
  have "canonical_instruction i = canonical_instruction j"
    using decode_encode assms(1,2) by (metis decoded_instruction.inject(1))
  then show ?thesis
    using assms(3) canonical_instruction_cases [of i] canonical_instruction_cases [of j]
    by (elim disjE exE) auto
qed

theorem isa_encode_injective_witness:
  "\<exists>f. {Nop Halt, AtomicMask (CsrAddress 0) (Nibble 0 0) (Nibble 0 0) Halt}
      = {Nop f, AtomicMask (CsrAddress 0) (Nibble 0 0) (Nibble 0 0) f}"
proof (rule isa_encode_injective)
  show "instr_encode (Nop Halt) = Inr 14680064" by simp
  show "instr_encode (AtomicMask (CsrAddress 0) (Nibble 0 0) (Nibble 0 0) Halt) = Inr 14680064" by simp
qed simp

end
