(* ===== verification/Download_Loader.thy ===== *)
theory Download_Loader
  imports Rtmq_Isa
begin

text \<open>
  \<open>catseq-rtmq/src/download.rs\<close>: the Direct loader that copies a compiled ICH program into the
  instruction cache of a board and launches it.  The \<open>expect\<close> of \<open>push\<close> is the error value
  \<open>EncodePanic\<close>; the theorems show that no input reaches it.
\<close>

section \<open>Definitions\<close>

definition ICA_ADDRESS_SPACE_WORDS :: nat where
  "ICA_ADDRESS_SPACE_WORDS = 2 ^ 20"

definition PTR :: csr_address where "PTR = CsrAddress 0"
definition RSM :: csr_address where "RSM = CsrAddress 2"
definition EXC :: csr_address where "EXC = CsrAddress 3"
definition EHN :: csr_address where "EHN = CsrAddress 4"
definition STK :: csr_address where "STK = CsrAddress 5"
definition ICA :: csr_address where "ICA = CsrAddress 7"
definition ICD :: csr_address where "ICD = CsrAddress 8"

lemmas csr_defs = PTR_def RSM_def EXC_def EHN_def STK_def ICA_def ICD_def

record download_loader_config =
  instruction_capacity_words :: nat
  exception_handler_word :: u32

record download_loader =
  loader_words :: "u32 list"
  loader_prologue :: "nat \<times> nat"
  ich_download :: "nat \<times> nat"
  launch :: "nat \<times> nat"

datatype download_loader_error =
    ProgramTooLarge nat nat
  | EncodePanic encode_error

definition nibble :: "u8 \<Rightarrow> atomic_operand" where
  "nibble n = Nibble n 0"

definition push_instr :: "u32 list \<Rightarrow> instruction \<Rightarrow> download_loader_error + u32 list" where
  "push_instr words i =
     (case instr_encode i of Inl e \<Rightarrow> Inl (EncodePanic e) | Inr w \<Rightarrow> Inr (words @ [w]))"

definition prologue_instructions :: "instruction list" where
  "prologue_instructions =
     [CsrLowImmediate EXC 1 Pause,
      CsrHighImmediate EXC 0,
      CsrHighImmediate RSM 0,
      CsrLowImmediate RSM 1 Continue,
      TcsLowImmediate (TcsAddress 0) 0,
      TcsLowImmediate (TcsAddress 1) (- 1)]"

definition ich_word_instructions :: "nat \<Rightarrow> u32 \<Rightarrow> instruction list" where
  "ich_word_instructions index word =
     [CsrLowImmediate ICA (of_nat index) Continue,
      CsrHighImmediate ICD (ucast (drop_bit 20 word)),
      CsrLowImmediate ICD (word AND 0x000FFFFF) Continue]"

definition launch_instructions :: "u32 \<Rightarrow> instruction list" where
  "launch_instructions handler =
     [AtomicMask EXC (nibble 0) (Csr EXC) Continue,
      AtomicMask PTR (nibble 2) (Immediate 0) Pause,
      CsrHighImmediate EHN (ucast (drop_bit 20 handler)),
      CsrLowImmediate EHN (handler AND 0x000FFFFF) Continue,
      AtomicMask STK (nibble 2) (Immediate 0) Continue,
      AtomicMask EXC (nibble 1) (nibble 0) Pause]"

fun push_ich_words :: "u32 list \<Rightarrow> nat \<Rightarrow> u32 list \<Rightarrow> download_loader_error + u32 list" where
  "push_ich_words words index [] = Inr words"
| "push_ich_words words index (w # ws) =
     res_bind (res_foldl push_instr words (ich_word_instructions index w))
       (\<lambda>words'. push_ich_words words' (Suc index) ws)"

definition materialize_download_loader ::
  "u32 list \<Rightarrow> download_loader_config \<Rightarrow> download_loader_error + download_loader" where
  "materialize_download_loader ich_words config =
     (if length ich_words > instruction_capacity_words config
      then Inl (ProgramTooLarge (length ich_words) (instruction_capacity_words config))
      else if length ich_words > ICA_ADDRESS_SPACE_WORDS
      then Inl (ProgramTooLarge (length ich_words)
                  (min (instruction_capacity_words config) ICA_ADDRESS_SPACE_WORDS))
      else res_bind (res_foldl push_instr [] prologue_instructions) (\<lambda>words0.
        res_bind (push_instr words0 (CsrHighImmediate ICA 0)) (\<lambda>words1.
        res_bind (push_ich_words words1 0 ich_words) (\<lambda>words2.
        res_bind (res_foldl push_instr words2
                    (launch_instructions (exception_handler_word config))) (\<lambda>words3.
        Inr \<lparr>loader_words = words3,
              loader_prologue = (0, length words0),
              ich_download = (length words0, length words2),
              launch = (length words2, length words3)\<rparr>)))))"

section \<open>What the loader is meant to be\<close>

text \<open>
  The instruction listing of the loader, and the effect of its download section: a data word is
  assembled from the high and the low immediate of \<open>ICD\<close> and stored at the address last written
  to \<open>ICA\<close>.
\<close>

definition loader_listing :: "u32 list \<Rightarrow> u32 \<Rightarrow> instruction list" where
  "loader_listing ich_words handler =
     prologue_instructions @ CsrHighImmediate ICA 0
       # concat (map (\<lambda>(i, w). ich_word_instructions i w) (enumerate 0 ich_words))
       @ launch_instructions handler"

definition join_halves :: "u16 \<Rightarrow> u32 \<Rightarrow> u32" where
  "join_halves high low = push_bit 20 (ucast high) OR low"

fun downloaded :: "decoded_instruction list \<Rightarrow> (u32 \<times> u32) list" where
  "downloaded (Known (CsrLowImmediate ra address Continue)
     # Known (CsrHighImmediate rh high) # Known (CsrLowImmediate rl low Continue) # is) =
     (if ra = ICA \<and> rh = ICD \<and> rl = ICD then (address, join_halves high low) # downloaded is
      else downloaded is)"
| "downloaded (i # is) = downloaded is"
| "downloaded [] = []"

section \<open>Lemmas\<close>

lemma halves_fit:
  fixes w :: u32
  shows "(ucast (drop_bit 20 w) :: u16) \<le> 0x0FFF" and "take_bit 20 w \<le> 0xFFFFF"
    and "join_halves (ucast (drop_bit 20 w)) (take_bit 20 w) = w"
proof -
  have "unat w < 2 ^ LENGTH(32)" by (rule unsigned_less)
  then have u: "unat (drop_bit 20 w) \<le> 4095"
    by (simp add: drop_bit_eq_div unat_div less_mult_imp_div_less flip: less_Suc_eq_le)
  then have "take_bit 16 (unat (drop_bit 20 w)) = unat (drop_bit 20 w)"
    by (intro take_bit_nat_eq_self) simp
  with u show "(ucast (drop_bit 20 w) :: u16) \<le> 0x0FFF"
    by (simp add: word_le_nat_alt unsigned_ucast_eq)
  show "take_bit 20 w \<le> 0xFFFFF"
    using low_bounds(2,3) by blast
  show "join_halves (ucast (drop_bit 20 w)) (take_bit 20 w) = w"
    unfolding join_halves_def by (rule bit_word_eqI) (auto simp: bit_simps)
qed

lemma push_instr_Inr: "instr_encode i = Inr w \<Longrightarrow> push_instr words i = Inr (words @ [w])"
  by (simp add: push_instr_def)

lemma push_instr_fold:
  assumes "\<forall>i\<in>set is. \<exists>w. instr_encode i = Inr w"
  shows "\<exists>ws. res_foldl push_instr words is = Inr (words @ ws)
           \<and> list_all2 (\<lambda>i w. instr_encode i = Inr w) is ws"
  using assms
proof (induction "is" arbitrary: words)
  case (Cons i is')
  then obtain w where w: "instr_encode i = Inr w" by auto
  from Cons obtain ws where "res_foldl push_instr (words @ [w]) is' = Inr ((words @ [w]) @ ws)"
    "list_all2 (\<lambda>i w. instr_encode i = Inr w) is' ws" by (meson list.set_intros(2))
  then show ?case using w by (intro exI [of _ "w # ws"]) (simp add: push_instr_Inr)
qed simp

lemma prologue_encodes: "\<forall>i\<in>set prologue_instructions. \<exists>w. instr_encode i = Inr w"
  by (simp add: prologue_instructions_def csr_defs)

lemma ich_word_encodes:
  assumes "index < 2 ^ 20"
  shows "\<forall>i\<in>set (ich_word_instructions index w). \<exists>w. instr_encode i = Inr w"
proof -
  have "(of_nat index :: u32) \<le> 0xFFFFF"
    using assms by (simp add: word_le_nat_alt)
  then show ?thesis
    using halves_fit(1,2) [of w] by (simp add: ich_word_instructions_def csr_defs and_masks not_less)
qed

lemma launch_encodes: "\<forall>i\<in>set (launch_instructions handler). \<exists>w. instr_encode i = Inr w"
  using halves_fit(1,2) [of handler]
  by (simp add: launch_instructions_def csr_defs nibble_def and_masks not_less)

lemma push_ich_words_total:
  assumes "index + length ws \<le> 2 ^ 20"
  shows "\<exists>out. push_ich_words words index ws = Inr (words @ out)
     \<and> list_all2 (\<lambda>i w. instr_encode i = Inr w)
         (concat (map (\<lambda>(i, w). ich_word_instructions i w) (enumerate index ws))) out"
  using assms
proof (induction ws arbitrary: words index)
  case (Cons w ws)
  then have "index < 2 ^ 20" by simp
  from push_instr_fold [OF ich_word_encodes [OF this, of w], of words] obtain out1 where
    1: "res_foldl push_instr words (ich_word_instructions index w) = Inr (words @ out1)"
    "list_all2 (\<lambda>i w. instr_encode i = Inr w) (ich_word_instructions index w) out1" by blast
  from Cons.IH [of "Suc index" "words @ out1"] Cons.prems obtain out2 where
    2: "push_ich_words (words @ out1) (Suc index) ws = Inr ((words @ out1) @ out2)"
    "list_all2 (\<lambda>i w. instr_encode i = Inr w)
       (concat (map (\<lambda>(i, w). ich_word_instructions i w) (enumerate (Suc index) ws))) out2"
    by auto
  then show ?case using 1
    by (intro exI [of _ "out1 @ out2"]) (simp add: list_all2_appendI)
qed simp

lemma encoded_push: "list_all2 (\<lambda>i w. instr_encode i = Inr w) is ws \<Longrightarrow> length ws = length is"
  by (simp add: list_all2_lengthD)

lemma ich_listing_length:
  "length (concat (map (\<lambda>(i, w). ich_word_instructions i w) (enumerate k ws))) = 3 * length ws"
  by (induction ws arbitrary: k) (simp_all add: ich_word_instructions_def)

lemma materialize_cases:
  assumes "length ich_words \<le> instruction_capacity_words config"
    and "length ich_words \<le> 2 ^ 20"
  shows "\<exists>loader. materialize_download_loader ich_words config = Inr loader
     \<and> list_all2 (\<lambda>i w. instr_encode i = Inr w)
         (loader_listing ich_words (exception_handler_word config)) (loader_words loader)
     \<and> loader_prologue loader = (0, 6)
     \<and> ich_download loader = (6, 7 + 3 * length ich_words)
     \<and> launch loader = (7 + 3 * length ich_words, 13 + 3 * length ich_words)"
proof -
  let ?enc = "list_all2 (\<lambda>i w. instr_encode i = Inr w)"
  from push_instr_fold [OF prologue_encodes, of "[]"] obtain p where
    p: "res_foldl push_instr [] prologue_instructions = Inr p" "?enc prologue_instructions p" by auto
  obtain c where c: "instr_encode (CsrHighImmediate ICA 0) = Inr c" by (simp add: ICA_def)
  from push_ich_words_total [of 0 ich_words "p @ [c]"] assms(2) obtain d where
    d: "push_ich_words (p @ [c]) 0 ich_words = Inr ((p @ [c]) @ d)"
    "?enc (concat (map (\<lambda>(i, w). ich_word_instructions i w) (enumerate 0 ich_words))) d" by auto
  from push_instr_fold [OF launch_encodes, of "(p @ [c]) @ d" "exception_handler_word config"]
  obtain l where
    l: "res_foldl push_instr ((p @ [c]) @ d) (launch_instructions (exception_handler_word config))
          = Inr (((p @ [c]) @ d) @ l)" "?enc (launch_instructions (exception_handler_word config)) l"
    by auto
  have "length p = 6" "length l = 6"
    using encoded_push [OF p(2)] encoded_push [OF l(2)]
    by (simp_all add: prologue_instructions_def launch_instructions_def)
  moreover have "length d = 3 * length ich_words"
    using encoded_push [OF d(2)] by (simp only: ich_listing_length)
  moreover have "?enc (loader_listing ich_words (exception_handler_word config)) (p @ c # d @ l)"
    unfolding loader_listing_def using p(2) c d(2) l(2) by (intro list_all2_appendI list.rel_intros) auto
  ultimately show ?thesis
    using assms p(1) c d(1) l(1)
    by (simp add: materialize_download_loader_def push_instr_def ICA_ADDRESS_SPACE_WORDS_def)
qed

lemma materialize_no_panic: "materialize_download_loader ich_words config \<noteq> Inl (EncodePanic e)"
  using materialize_cases [of ich_words config]
  by (auto simp: materialize_download_loader_def ICA_ADDRESS_SPACE_WORDS_def not_less)

lemma materialize_Inr:
  assumes "materialize_download_loader ich_words config = Inr loader"
  shows "list_all2 (\<lambda>i w. instr_encode i = Inr w)
         (loader_listing ich_words (exception_handler_word config)) (loader_words loader)"
    and "launch loader = (7 + 3 * length ich_words, 13 + 3 * length ich_words)"
    and "length (loader_words loader) = 13 + 3 * length ich_words"
proof -
  have "length ich_words \<le> instruction_capacity_words config" "length ich_words \<le> 2 ^ 20"
    using assms by (auto simp: materialize_download_loader_def ICA_ADDRESS_SPACE_WORDS_def split: if_splits)
  from materialize_cases [OF this] assms
  show enc: "list_all2 (\<lambda>i w. instr_encode i = Inr w)
         (loader_listing ich_words (exception_handler_word config)) (loader_words loader)"
    and "launch loader = (7 + 3 * length ich_words, 13 + 3 * length ich_words)" by auto
  from encoded_push [OF enc] show "length (loader_words loader) = 13 + 3 * length ich_words"
    using ich_listing_length [of 0 ich_words]
    by (simp add: loader_listing_def prologue_instructions_def launch_instructions_def)
qed

lemma encoded_decode:
  assumes "list_all2 (\<lambda>i w. instr_encode i = Inr w) is ws" "map canonical_instruction is = is"
  shows "map instr_decode ws = map Known is"
proof -
  from assms(1) have "map instr_decode ws = map Known (map canonical_instruction is)"
    by (induction rule: list_all2_induct) (simp_all add: decode_encode)
  with assms(2) show ?thesis by simp
qed

lemma ich_listing_canonical:
  "map canonical_instruction (concat (map (\<lambda>(i, w). ich_word_instructions i w) (enumerate k ws)))
     = concat (map (\<lambda>(i, w). ich_word_instructions i w) (enumerate k ws))"
  by (induction ws arbitrary: k)
    (simp_all add: ich_word_instructions_def canonical_instruction_def)

lemma loader_listing_canonical:
  "map canonical_instruction (loader_listing ws handler) = loader_listing ws handler"
  unfolding loader_listing_def map_append list.map ich_listing_canonical
  by (simp add: prologue_instructions_def launch_instructions_def canonical_instruction_def
      nibble_def csr_defs)

lemma downloaded_ich_listing:
  "downloaded (map Known (concat (map (\<lambda>(i, w). ich_word_instructions i w) (enumerate k ws))))
     = map (\<lambda>(i, w). (of_nat i, w)) (enumerate k ws)"
proof (induction ws arbitrary: k)
  case (Cons w ws)
  then show ?case
    by (simp add: ich_word_instructions_def and_masks halves_fit(3))
qed simp

lemma loader_listing_slices:
  assumes "n = length ws"
  shows "take (3 * n + 1) (drop 6 (loader_listing ws handler))
      = CsrHighImmediate ICA 0
        # concat (map (\<lambda>(i, w). ich_word_instructions i w) (enumerate 0 ws))"
    and "drop (7 + 3 * n) (loader_listing ws handler) = launch_instructions handler"
proof -
  let ?ich = "concat (map (\<lambda>(i, w). ich_word_instructions i w) (enumerate 0 ws))"
  have n: "length ?ich = 3 * n" using ich_listing_length [of 0 ws] assms by simp
  have 6: "drop 6 (loader_listing ws handler) = CsrHighImmediate ICA 0 # ?ich @ launch_instructions handler"
    by (simp add: loader_listing_def prologue_instructions_def)
  with n show "take (3 * n + 1) (drop 6 (loader_listing ws handler)) = CsrHighImmediate ICA 0 # ?ich"
    by simp
  have "drop (7 + 3 * n) (loader_listing ws handler)
      = drop (3 * n + 1) (drop 6 (loader_listing ws handler))"
    by (simp add: add.commute)
  with n show "drop (7 + 3 * n) (loader_listing ws handler) = launch_instructions handler"
    unfolding 6 by simp
qed

section \<open>Properties\<close>

text \<open>
  C32. The loader is materialized exactly when the program fits both the configured capacity and the
  20-bit address space of \<open>ICA\<close>; otherwise the error reports the number of words.  The \<open>expect\<close> in
  \<open>push\<close> cannot fire for any program, capacity and handler word.
\<close>

theorem materialize_never_panics:
  "(case materialize_download_loader ich_words config of
      Inl (ProgramTooLarge words capacity) \<Rightarrow>
        words = length ich_words
        \<and> capacity < length ich_words
        \<and> capacity = (if instruction_capacity_words config < length ich_words
                       then instruction_capacity_words config else 2 ^ 20)
    | Inl (EncodePanic e) \<Rightarrow> False
    | Inr loader \<Rightarrow> length ich_words \<le> instruction_capacity_words config \<and> length ich_words \<le> 2 ^ 20)"
  using materialize_cases [of ich_words config]
  by (auto simp: materialize_download_loader_def ICA_ADDRESS_SPACE_WORDS_def not_le not_less)

text \<open>
  C27. A materialized loader has the three adjoining sections its ranges name, every word decodes to
  the instruction it was built from, the download section writes precisely the ICH words at the
  addresses \<open>0, 1, 2, \<dots>\<close> and the launch section sets the exception handler register to the
  configured word before it resumes the core.
\<close>

theorem loader_downloads_program:
  assumes "length ich_words \<le> instruction_capacity_words config" "length ich_words \<le> 2 ^ 20"
  shows "\<exists>loader high low. materialize_download_loader ich_words config = Inr loader
     \<and> loader_prologue loader = (0, 6)
     \<and> ich_download loader = (6, 7 + 3 * length ich_words)
     \<and> launch loader = (7 + 3 * length ich_words, length (loader_words loader))
     \<and> downloaded (map instr_decode (take (3 * length ich_words + 1) (drop 6 (loader_words loader))))
         = map (\<lambda>(i, w). (of_nat i, w)) (enumerate 0 ich_words)
     \<and> map instr_decode (drop (7 + 3 * length ich_words) (loader_words loader))
         = [Known (AtomicMask EXC (Nibble 0 0) (Csr EXC) Continue),
            Known (AtomicMask PTR (Nibble 2 0) (Immediate 0) Pause),
            Known (CsrHighImmediate EHN high), Known (CsrLowImmediate EHN low Continue),
            Known (AtomicMask STK (Nibble 2 0) (Immediate 0) Continue),
            Known (AtomicMask EXC (Nibble 1 0) (Nibble 0 0) Pause)]
     \<and> join_halves high low = exception_handler_word config"
proof -
  let ?handler = "exception_handler_word config"
  from materialize_cases [OF assms] obtain loader where
    m: "materialize_download_loader ich_words config = Inr loader"
    "list_all2 (\<lambda>i w. instr_encode i = Inr w) (loader_listing ich_words ?handler) (loader_words loader)"
    "loader_prologue loader = (0, 6)" "ich_download loader = (6, 7 + 3 * length ich_words)"
    "launch loader = (7 + 3 * length ich_words, 13 + 3 * length ich_words)" by blast
  have dec: "map instr_decode (loader_words loader) = map Known (loader_listing ich_words ?handler)"
    by (rule encoded_decode [OF m(2) loader_listing_canonical])
  have len: "length (loader_words loader) = 13 + 3 * length ich_words"
    using encoded_push [OF m(2)] ich_listing_length [of 0 ich_words]
    by (simp add: loader_listing_def prologue_instructions_def launch_instructions_def)
  have "map instr_decode (take (3 * length ich_words + 1) (drop 6 (loader_words loader)))
      = map Known (take (3 * length ich_words + 1) (drop 6 (loader_listing ich_words ?handler)))"
    by (metis dec drop_map take_map)
  then have 1: "downloaded (map instr_decode
        (take (3 * length ich_words + 1) (drop 6 (loader_words loader))))
      = map (\<lambda>(i, w). (of_nat i, w)) (enumerate 0 ich_words)"
    unfolding loader_listing_slices(1) [OF refl] by (simp add: downloaded_ich_listing)
  have "map instr_decode (drop (7 + 3 * length ich_words) (loader_words loader))
      = map Known (launch_instructions ?handler)"
    by (metis dec drop_map loader_listing_slices(2))
  then show ?thesis using m 1 len halves_fit(3) [of ?handler]
    by (auto simp: launch_instructions_def nibble_def and_masks)
qed

theorem loader_downloads_program_witness:
  "\<exists>loader. materialize_download_loader [0xDEADBEEF, 7]
        \<lparr>instruction_capacity_words = 4, exception_handler_word = 0x12345678\<rparr> = Inr loader
     \<and> downloaded (map instr_decode (take 7 (drop 6 (loader_words loader))))
         = [(0, 0xDEADBEEF), (1, 7)]"
  using loader_downloads_program [of "[0xDEADBEEF, 7]"
      "\<lparr>instruction_capacity_words = 4, exception_handler_word = 0x12345678\<rparr>"]
  by auto

end
