(* ===== verification/Rtlink_Frame.thy ===== *)
theory Rtlink_Frame
  imports Prelude
begin

text \<open>
  \<open>catseq-runtime/src/protocol/rtlink.rs\<close>: the 14-byte RTLink frame (a 44-bit header in six bytes and
  two payload words) and the framing of a word stream.  Byte slices are lists of bytes; an error
  carries the case of its message.
\<close>

section \<open>Definitions\<close>

definition FRAME_BYTES :: nat where "FRAME_BYTES = 14"
definition CHANNEL_MAX :: u8 where "CHANNEL_MAX = 31"
definition TAG_MAX :: u32 where "TAG_MAX = 0xFFFFF"

record rtlink_frame =
  frame_flag :: u8
  frame_channel :: u8
  frame_node :: u16
  frame_tag :: u32
  frame_payload :: "u32 \<times> u32"

datatype rtlink_frame_error =
    FlagExceedsThreeBits
  | ChannelExceedsFiveBits
  | TagExceedsTwentyBits
  | WrongFrameLength nat
  | NonzeroPadding
  | HeaderPanic

definition frame_new ::
  "u8 \<Rightarrow> u8 \<Rightarrow> u16 \<Rightarrow> u32 \<Rightarrow> u32 \<times> u32 \<Rightarrow> rtlink_frame_error + rtlink_frame" where
  "frame_new flag channel node tag payload =
     (if flag > 7 then Inl FlagExceedsThreeBits
      else if channel > CHANNEL_MAX then Inl ChannelExceedsFiveBits
      else if tag > TAG_MAX then Inl TagExceedsTwentyBits
      else Inr \<lparr>frame_flag = flag, frame_channel = channel, frame_node = node,
                 frame_tag = tag, frame_payload = payload\<rparr>)"

definition decode_header :: "u8 list \<Rightarrow> u64 option" where
  "decode_header bytes =
     map_option (\<lambda>header. from_be_bytes ([0, 0] @ header)) (slice_get bytes 0 6)"

definition frame_route :: "u8 list \<Rightarrow> (u8 \<times> u16) option" where
  "frame_route bytes =
     map_option (\<lambda>header. (ucast (drop_bit 36 header AND 0x1F), ucast (drop_bit 20 header AND 0xFFFF)))
       (decode_header bytes)"

definition frame_encode :: "rtlink_frame \<Rightarrow> u8 list" where
  "frame_encode self =
     (let header = push_bit 41 (ucast (frame_flag self)) OR push_bit 36 (ucast (frame_channel self))
                   OR push_bit 20 (ucast (frame_node self)) OR ucast (frame_tag self) :: u64
      in drop 2 (be_bytes 8 header)
         @ be_bytes 4 (fst (frame_payload self)) @ be_bytes 4 (snd (frame_payload self)))"

definition frame_decode :: "u8 list \<Rightarrow> rtlink_frame_error + rtlink_frame" where
  "frame_decode bytes =
     (if length bytes \<noteq> FRAME_BYTES then Inl (WrongFrameLength (length bytes))
      else if bytes ! 0 AND 0xF0 \<noteq> 0 then Inl NonzeroPadding
      else (case decode_header bytes of
          None \<Rightarrow> Inl HeaderPanic
        | Some header \<Rightarrow>
            frame_new (ucast (drop_bit 41 header AND 0x7)) (ucast (drop_bit 36 header AND 0x1F))
              (ucast (drop_bit 20 header AND 0xFFFF)) (ucast (header AND ucast TAG_MAX))
              (from_be_bytes (take 4 (drop 6 bytes)), from_be_bytes (take 4 (drop 10 bytes)))))"

fun chunks2 :: "'a list \<Rightarrow> 'a list list" where
  "chunks2 (a # b # xs) = [a, b] # chunks2 xs"
| "chunks2 [a] = [[a]]"
| "chunks2 [] = []"

definition encode_word_stream ::
  "u8 \<Rightarrow> u8 \<Rightarrow> u16 \<Rightarrow> u32 \<Rightarrow> u32 list \<Rightarrow> rtlink_frame_error + rtlink_frame list" where
  "encode_word_stream flag channel node tag words =
     res_traverse (\<lambda>pair. frame_new flag channel node tag
        (pair ! 0, case nth_opt pair 1 of None \<Rightarrow> 0 | Some w \<Rightarrow> w)) (chunks2 words)"

section \<open>Invariant and fields\<close>

definition frame_inv :: "rtlink_frame \<Rightarrow> bool" where
  "frame_inv f \<longleftrightarrow> frame_flag f \<le> 7 \<and> frame_channel f \<le> CHANNEL_MAX \<and> frame_tag f \<le> TAG_MAX"

definition frame_payload_words :: "rtlink_frame \<Rightarrow> u32 list" where
  "frame_payload_words f = [fst (frame_payload f), snd (frame_payload f)]"

lemma frame_new_Inr_iff:
  "frame_new flag channel node tag payload = Inr f \<longleftrightarrow>
     flag \<le> 7 \<and> channel \<le> CHANNEL_MAX \<and> tag \<le> TAG_MAX
     \<and> f = \<lparr>frame_flag = flag, frame_channel = channel, frame_node = node,
            frame_tag = tag, frame_payload = payload\<rparr>"
  by (auto simp: frame_new_def not_less)

lemma frame_new_inv: "frame_new flag channel node tag payload = Inr f \<Longrightarrow> frame_inv f"
  by (simp add: frame_new_Inr_iff frame_inv_def)

definition header_bits :: "u8 \<Rightarrow> u8 \<Rightarrow> u16 \<Rightarrow> u32 \<Rightarrow> u64" where
  "header_bits flag channel node tag =
     push_bit 41 (ucast flag) OR push_bit 36 (ucast channel) OR push_bit 20 (ucast node) OR ucast tag"

lemma field_limits:
  "flag \<le> 7 \<longleftrightarrow> take_bit 3 (flag::u8) = flag"
  "channel \<le> CHANNEL_MAX \<longleftrightarrow> take_bit 5 channel = channel"
  "tag \<le> TAG_MAX \<longleftrightarrow> take_bit 20 tag = tag"
proof -
  have small: "x \<le> k \<longleftrightarrow> take_bit n x = x" if "k + 1 = 2 ^ n" "unat k + 1 = 2 ^ n"
    for x k :: "'a::len word" and n
  proof
    assume "x \<le> k"
    with that(2) have "unat x < 2 ^ n" by (simp add: word_le_nat_alt)
    then show "take_bit n x = x" by (metis take_bit_nat_eq_self unsigned_take_bit_eq word_unat_eq_iff)
  next
    assume "take_bit n x = x"
    then have "unat x < 2 ^ n" by (metis take_bit_nat_less_exp unsigned_take_bit_eq)
    with that(2) show "x \<le> k" by (simp add: word_le_nat_alt)
  qed
  show "flag \<le> 7 \<longleftrightarrow> take_bit 3 (flag::u8) = flag" by (rule small) simp_all
  show "channel \<le> CHANNEL_MAX \<longleftrightarrow> take_bit 5 channel = channel"
    unfolding CHANNEL_MAX_def by (rule small) simp_all
  show "tag \<le> TAG_MAX \<longleftrightarrow> take_bit 20 tag = tag"
    unfolding TAG_MAX_def by (rule small) simp_all
qed

lemma and_tag_max: "(h::u64) AND ucast TAG_MAX = take_bit 20 h"
  by (simp add: TAG_MAX_def and_masks)

lemma header_fields:
  fixes h :: u64
  assumes "flag \<le> 7" "channel \<le> CHANNEL_MAX" "tag \<le> TAG_MAX"
    and h: "take_bit 48 h = header_bits flag channel node tag"
  shows "ucast (take_bit 3 (drop_bit 41 h)) = flag"
    and "ucast (take_bit 5 (drop_bit 36 h)) = channel"
    and "ucast (take_bit 16 (drop_bit 20 h)) = node"
    and "ucast (take_bit 20 h) = tag"
proof -
  note t = assms(1-3) [unfolded field_limits]
  have "take_bit 48 h = header_bits (take_bit 3 flag) (take_bit 5 channel) node (take_bit 20 tag)"
    using h t by simp
  then have bits: "bit h n \<longleftrightarrow>
      bit (header_bits (take_bit 3 flag) (take_bit 5 channel) node (take_bit 20 tag)) n" if "n < 48" for n
    using that by (metis bit_take_bit_iff)
  note simps = bit_simps bits header_bits_def
  have "ucast (take_bit 3 (drop_bit 41 h)) = take_bit 3 flag"
    by (rule bit_word_eqI) (auto simp: simps)
  then show "ucast (take_bit 3 (drop_bit 41 h)) = flag" by (simp only: t)
  have "ucast (take_bit 5 (drop_bit 36 h)) = take_bit 5 channel"
    by (rule bit_word_eqI) (auto simp: simps)
  then show "ucast (take_bit 5 (drop_bit 36 h)) = channel" by (simp only: t)
  show "ucast (take_bit 16 (drop_bit 20 h)) = node"
    by (rule bit_word_eqI) (auto simp: simps)
  have "ucast (take_bit 20 h) = take_bit 20 tag"
    by (rule bit_word_eqI) (auto simp: simps)
  then show "ucast (take_bit 20 h) = tag" by (simp only: t)
qed

lemma header_bits_44:
  assumes "flag \<le> 7" "channel \<le> CHANNEL_MAX" "tag \<le> TAG_MAX"
  shows "take_bit 44 (header_bits flag channel node tag) = header_bits flag channel node tag"
proof -
  have "take_bit 44 (header_bits (take_bit 3 flag) (take_bit 5 channel) node (take_bit 20 tag))
      = header_bits (take_bit 3 flag) (take_bit 5 channel) node (take_bit 20 tag)"
  proof (rule bit_word_eqI)
    fix n
    have "bit (header_bits (take_bit 3 flag) (take_bit 5 channel) node (take_bit 20 tag)) n \<Longrightarrow> n < 44"
      using bit_bound(2) [of node "n - 20"]
      by (auto simp: header_bits_def bit_or_iff bit_push_bit_iff bit_unsigned_iff bit_take_bit_iff)
    then show "bit (take_bit 44 (header_bits (take_bit 3 flag) (take_bit 5 channel) node (take_bit 20 tag))) n
        \<longleftrightarrow> bit (header_bits (take_bit 3 flag) (take_bit 5 channel) node (take_bit 20 tag)) n"
      by (auto simp: bit_take_bit_iff)
  qed
  then show ?thesis by (simp only: assms [unfolded field_limits])
qed

lemma header_bits_split:
  fixes h :: u64
  assumes "take_bit 44 h = h"
  shows "header_bits (ucast (take_bit 3 (drop_bit 41 h))) (ucast (take_bit 5 (drop_bit 36 h)))
     (ucast (take_bit 16 (drop_bit 20 h))) (ucast (take_bit 20 h)) = h"
proof -
  have "header_bits (ucast (take_bit 3 (drop_bit 41 h))) (ucast (take_bit 5 (drop_bit 36 h)))
     (ucast (take_bit 16 (drop_bit 20 h))) (ucast (take_bit 20 h)) = take_bit 44 h"
  proof (rule bit_word_eqI)
    fix n assume "n < LENGTH(64)"
    then show "bit (header_bits (ucast (take_bit 3 (drop_bit 41 h))) (ucast (take_bit 5 (drop_bit 36 h)))
        (ucast (take_bit 16 (drop_bit 20 h))) (ucast (take_bit 20 h))) n \<longleftrightarrow> bit (take_bit 44 h) n"
      by (cases "41 \<le> n") (auto simp: bit_simps header_bits_def)
  qed
  with assms show ?thesis by simp
qed


lemma take_bit_mono: "m \<le> n \<Longrightarrow> take_bit m x = x \<Longrightarrow> take_bit n x = (x::'a::len word)"
  by (metis min.absorb2 take_bit_take_bit)

lemma frame_encode_bytes:
  "frame_encode f = be_bytes 6 (header_bits (frame_flag f) (frame_channel f) (frame_node f) (frame_tag f))
     @ be_bytes 4 (fst (frame_payload f)) @ be_bytes 4 (snd (frame_payload f))"
proof -
  have "be_bytes 8 (h::u64) = be_bytes 2 (drop_bit 48 h) @ be_bytes 6 h" for h
    using be_bytes_add [of 2 6 h] by simp
  then have "drop 2 (be_bytes 8 (h::u64)) = be_bytes 6 h" for h by simp
  then show ?thesis by (simp add: frame_encode_def header_bits_def)
qed

lemma length_frame_encode [simp]: "length (frame_encode f) = 14"
  by (simp add: frame_encode_bytes)

lemma decode_header_bytes: "6 \<le> length bytes \<Longrightarrow> decode_header bytes = Some (from_be_bytes (take 6 bytes))"
  by (simp add: decode_header_def slice_get_def from_be_bytes_zeros)

lemma decode_header_encode:
  assumes "frame_inv f"
  shows "decode_header (frame_encode f)
    = Some (header_bits (frame_flag f) (frame_channel f) (frame_node f) (frame_tag f))"
proof -
  let ?h = "header_bits (frame_flag f) (frame_channel f) (frame_node f) (frame_tag f)"
  have "take_bit 44 ?h = ?h" using assms by (simp add: frame_inv_def header_bits_44)
  then have "take_bit 48 ?h = ?h" by (rule take_bit_mono [rotated]) simp
  then show ?thesis
    by (simp add: decode_header_bytes) (simp add: frame_encode_bytes from_be_bytes_be_bytes)
qed

lemma frame_route_encode:
  assumes "frame_inv f"
  shows "frame_route (frame_encode f) = Some (frame_channel f, frame_node f)"
proof -
  have "take_bit 48 (header_bits (frame_flag f) (frame_channel f) (frame_node f) (frame_tag f))
      = header_bits (frame_flag f) (frame_channel f) (frame_node f) (frame_tag f)"
    using assms by (intro take_bit_mono [OF _ header_bits_44]) (simp_all add: frame_inv_def)
  note fields = header_fields [OF assms [unfolded frame_inv_def, THEN conjunct1]
      assms [unfolded frame_inv_def, THEN conjunct2, THEN conjunct1]
      assms [unfolded frame_inv_def, THEN conjunct2, THEN conjunct2] this]
  show ?thesis
    unfolding frame_route_def decode_header_encode [OF assms] and_masks option.map fields ..
qed

text \<open>The four leading padding bits are the high nibble of the first byte.\<close>

lemma padding_bits:
  fixes bs :: "u8 list"
  assumes "length bs = 6"
  shows "bs ! 0 AND 0xF0 = 0 \<longleftrightarrow> take_bit 44 (from_be_bytes bs :: u64) = from_be_bytes bs"
proof -
  let ?h = "from_be_bytes bs :: u64"
  have "bs = be_bytes (1 + 5) ?h"
    using be_bytes_from_be_bytes [of bs, where ?'a = 64] assms by simp
  also have "\<dots> ! 0 = ucast (drop_bit 40 ?h)"
    unfolding be_bytes_add by simp
  finally have b0: "bs ! 0 = ucast (drop_bit 40 ?h)" .
  have h48: "take_bit 48 ?h = ?h" by (rule from_be_bytes_take) (simp add: assms)
  have m: "x AND 0xF0 = push_bit 4 (drop_bit 4 x)" for x :: u8
  proof -
    have e: "(0xF0::u8) = push_bit 4 (mask 4)" by (simp add: mask_eq_exp_minus_1)
    show ?thesis
      unfolding e by (rule bit_word_eqI)
        (auto simp: bit_and_iff bit_push_bit_iff bit_mask_iff bit_drop_bit_eq)
  qed
  have "bs ! 0 AND 0xF0 = 0 \<longleftrightarrow> (\<forall>n. 44 \<le> n \<and> n < 48 \<longrightarrow> \<not> bit ?h n)"
  proof
    assume "bs ! 0 AND 0xF0 = 0"
    then have z: "push_bit 4 (drop_bit 4 (ucast (drop_bit 40 ?h) :: u8)) = 0" by (simp only: m b0)
    show "\<forall>n. 44 \<le> n \<and> n < 48 \<longrightarrow> \<not> bit ?h n"
    proof (intro allI impI)
      fix n :: nat assume "44 \<le> n \<and> n < 48"
      then show "\<not> bit ?h n"
        using arg_cong [OF z, of "\<lambda>w. bit w (n - 40)"] by (auto simp: bit_simps)
    qed
  next
    assume "\<forall>n. 44 \<le> n \<and> n < 48 \<longrightarrow> \<not> bit ?h n"
    then show "bs ! 0 AND 0xF0 = 0"
      unfolding m b0 by (intro bit_word_eqI) (auto simp: bit_simps)
  qed
  also have "\<dots> \<longleftrightarrow> take_bit 44 ?h = ?h"
  proof
    assume "\<forall>n. 44 \<le> n \<and> n < 48 \<longrightarrow> \<not> bit ?h n"
    then have "take_bit 44 (take_bit 48 ?h) = take_bit 48 ?h"
      by (intro bit_word_eqI) (auto simp: bit_take_bit_iff not_less)
    with h48 show "take_bit 44 ?h = ?h" by simp
  qed (metis bit_take_bit_iff not_less)
  finally show ?thesis .
qed

lemma decode_encode_frame:
  assumes "frame_inv f"
  shows "frame_decode (frame_encode f) = Inr f"
proof -
  let ?h = "header_bits (frame_flag f) (frame_channel f) (frame_node f) (frame_tag f)"
  have i: "frame_flag f \<le> 7" "frame_channel f \<le> CHANNEL_MAX" "frame_tag f \<le> TAG_MAX"
    using assms by (simp_all add: frame_inv_def)
  have h44: "take_bit 44 ?h = ?h" by (rule header_bits_44 [OF i])
  then have h48: "take_bit 48 ?h = ?h" by (rule take_bit_mono [rotated]) simp
  have t6: "take 6 (frame_encode f) = be_bytes 6 ?h" by (simp add: frame_encode_bytes)
  have b6: "from_be_bytes (take 6 (frame_encode f)) = ?h"
    unfolding t6 from_be_bytes_be_bytes using h48 by simp
  have "take 6 (frame_encode f) ! 0 AND 0xF0 = 0"
    using padding_bits [of "take 6 (frame_encode f)"] b6 h44 by simp
  then have pad: "frame_encode f ! 0 AND 0xF0 = 0" by simp
  have p0: "from_be_bytes (take 4 (drop 6 (frame_encode f))) = fst (frame_payload f)"
    and p1: "from_be_bytes (take 4 (drop 10 (frame_encode f))) = snd (frame_payload f)"
    by (simp_all add: frame_encode_bytes from_be_bytes_be_bytes take_bit_word_eq_self)
  have "frame_new (frame_flag f) (frame_channel f) (frame_node f) (frame_tag f)
      (fst (frame_payload f), snd (frame_payload f)) = Inr f"
    using i by (simp add: frame_new_Inr_iff)
  then show ?thesis
    unfolding frame_decode_def decode_header_encode [OF assms] option.case and_masks and_tag_max
      header_fields [OF i h48] p0 p1 pad
    by (simp add: FRAME_BYTES_def)
qed

lemma encode_decode_frame:
  assumes "length bytes = 14" "bytes ! 0 AND 0xF0 = 0"
  obtains f where "frame_decode bytes = Inr f" "frame_encode f = bytes" "frame_inv f"
proof -
  define h where "h = (from_be_bytes (take 6 bytes) :: u64)"
  have h44: "take_bit 44 h = h"
    using padding_bits [of "take 6 bytes"] assms by (simp add: h_def)
  have lim: "ucast (take_bit 3 (drop_bit 41 h)) \<le> (7::u8)"
    "ucast (take_bit 5 (drop_bit 36 h)) \<le> CHANNEL_MAX" "ucast (take_bit 20 h) \<le> TAG_MAX"
    unfolding field_limits by (rule bit_word_eqI, auto simp: bit_simps)+
  define f where "f = \<lparr>frame_flag = ucast (take_bit 3 (drop_bit 41 h)),
    frame_channel = ucast (take_bit 5 (drop_bit 36 h)),
    frame_node = ucast (take_bit 16 (drop_bit 20 h)), frame_tag = ucast (take_bit 20 h),
    frame_payload = (from_be_bytes (take 4 (drop 6 bytes)), from_be_bytes (take 4 (drop 10 bytes)))\<rparr>"
  have dh: "decode_header bytes = Some h"
    unfolding h_def by (rule decode_header_bytes) (simp add: assms)
  have d: "frame_decode bytes = Inr f"
    unfolding frame_decode_def dh option.case and_masks and_tag_max
    using assms lim by (simp add: FRAME_BYTES_def frame_new_Inr_iff f_def)
  have "be_bytes (length (take 6 bytes)) h = take 6 bytes"
    unfolding h_def by (rule be_bytes_from_be_bytes) (simp add: assms)
  moreover have "be_bytes (length (take 4 (drop 6 bytes))) (from_be_bytes (take 4 (drop 6 bytes)) :: u32)
      = take 4 (drop 6 bytes)" by (rule be_bytes_from_be_bytes) (simp add: assms)
  moreover have "be_bytes (length (take 4 (drop 10 bytes))) (from_be_bytes (take 4 (drop 10 bytes)) :: u32)
      = take 4 (drop 10 bytes)" by (rule be_bytes_from_be_bytes) (simp add: assms)
  moreover have "bytes = take 6 bytes @ take 4 (drop 6 bytes) @ take 4 (drop 10 bytes)"
    using assms(1) append_take_drop_id [of 6 bytes] append_take_drop_id [of 4 "drop 6 bytes"] by simp
  ultimately have e: "frame_encode f = bytes"
    by (simp add: frame_encode_bytes f_def header_bits_split [OF h44] assms(1))
  show ?thesis by (rule that [OF d e]) (simp add: frame_inv_def f_def lim)
qed

lemma chunks2_stream:
  "res_traverse (\<lambda>pair. frame_new flag channel node tag
      (pair ! 0, case nth_opt pair 1 of None \<Rightarrow> 0 | Some w \<Rightarrow> w)) (chunks2 words) = Inr frames \<Longrightarrow>
   concat (map frame_payload_words frames) = words @ (if odd (length words) then [0] else [])
   \<and> (\<forall>f\<in>set frames. frame_flag f = flag \<and> frame_channel f = channel \<and> frame_node f = node
        \<and> frame_tag f = tag \<and> frame_inv f)"
proof (induction words arbitrary: frames rule: chunks2.induct)
  case (1 a b xs)
  then obtain f fs where f: "frame_new flag channel node tag (a, b) = Inr f" "frames = f # fs"
    and fs: "res_traverse (\<lambda>pair. frame_new flag channel node tag
      (pair ! 0, case nth_opt pair 1 of None \<Rightarrow> 0 | Some w \<Rightarrow> w)) (chunks2 xs) = Inr fs"
    by (auto simp: res_bind_Inr_iff nth_opt_def)
  with 1(1) [OF fs] frame_new_inv [OF f(1)] show ?case
    by (auto simp: frame_new_Inr_iff frame_payload_words_def)
next
  case (2 a)
  then obtain f where "frame_new flag channel node tag (a, 0) = Inr f" "frames = [f]"
    by (auto simp: res_bind_Inr_iff nth_opt_def)
  then show ?case by (auto simp: frame_new_Inr_iff frame_payload_words_def frame_inv_def)
qed simp

lemma word_stream_total:
  assumes "flag \<le> 7" "channel \<le> CHANNEL_MAX" "tag \<le> TAG_MAX"
  shows "\<exists>fs. encode_word_stream flag channel node tag words = Inr fs"
proof -
  have "\<exists>f. frame_new flag channel node tag p = Inr f" for p
    using assms by (simp add: frame_new_Inr_iff)
  then show ?thesis unfolding encode_word_stream_def by (intro res_traverse_defined) blast
qed

lemma chunks2_nth:
  "length (chunks2 xs) = (length xs + 1) div 2
   \<and> (\<forall>i < length (chunks2 xs). chunks2 xs ! i \<noteq> [] \<and> chunks2 xs ! i = take 2 (drop (2 * i) xs))"
proof (induction xs rule: chunks2.induct)
  case (1 a b xs)
  then have l: "length (chunks2 (a # b # xs)) = (length (a # b # xs) + 1) div 2" by simp
  have "chunks2 (a # b # xs) ! i \<noteq> [] \<and> chunks2 (a # b # xs) ! i = take 2 (drop (2 * i) (a # b # xs))"
    if "i < length (chunks2 (a # b # xs))" for i
    using that 1 by (cases i) (auto simp: nth_Cons')
  with l show ?case by blast
qed auto

lemma word_stream_nth:
  assumes "encode_word_stream flag channel node tag words = Inr frames"
  shows "length frames = (length words + 1) div 2"
    and "i < length frames \<Longrightarrow> frame_payload (frames ! i)
        = (words ! (2 * i), if 2 * i + 1 < length words then words ! (2 * i + 1) else 0)"
proof -
  have all: "list_all2 (\<lambda>pair f. frame_new flag channel node tag
        (pair ! 0, case nth_opt pair 1 of None \<Rightarrow> 0 | Some w \<Rightarrow> w) = Inr f) (chunks2 words) frames"
    using assms by (simp add: encode_word_stream_def res_traverse_Inr_iff)
  then show "length frames = (length words + 1) div 2"
    using chunks2_nth [of words] by (simp add: list_all2_lengthD [symmetric])
  assume i: "i < length frames"
  let ?pair = "take 2 (drop (2 * i) words)"
  have "i < length (chunks2 words)" using i all by (simp add: list_all2_lengthD)
  with chunks2_nth [of words] have p: "chunks2 words ! i = ?pair" "?pair \<noteq> []" by auto
  have "frame_new flag channel node tag
      (?pair ! 0, case nth_opt ?pair 1 of None \<Rightarrow> 0 | Some w \<Rightarrow> w) = Inr (frames ! i)"
    using list_all2_nthD2 [OF all i] unfolding p(1) .
  moreover have "?pair ! 0 = words ! (2 * i)" "nth_opt ?pair 1
      = (if 2 * i + 1 < length words then Some (words ! (2 * i + 1)) else None)"
    using p(2) by (auto simp: nth_opt_def)
  ultimately show "frame_payload (frames ! i)
      = (words ! (2 * i), if 2 * i + 1 < length words then words ! (2 * i + 1) else 0)"
    by (auto simp: frame_new_Inr_iff)
qed

section \<open>Properties\<close>

text \<open>
  C30. The frame codec is exact in both directions: a frame the constructor accepts survives
  \<open>encode\<close>/\<open>decode\<close>, a decoded byte string is the encoding of the frame it decodes to, and \<open>decode\<close>
  rejects precisely the strings that are not 14 bytes or have a non-zero padding nibble.
\<close>

theorem rtlink_frame_codec:
  "(\<forall>flag channel node tag payload f. frame_new flag channel node tag payload = Inr f \<longrightarrow>
       frame_decode (frame_encode f) = Inr f \<and> frame_route (frame_encode f) = Some (channel, node))
   \<and> (\<forall>bytes f. frame_decode bytes = Inr f \<longrightarrow> frame_encode f = bytes
       \<and> frame_route bytes = Some (frame_channel f, frame_node f))
   \<and> (\<forall>bytes e. frame_decode bytes = Inl e \<longleftrightarrow>
       length bytes \<noteq> 14 \<and> e = WrongFrameLength (length bytes)
       \<or> length bytes = 14 \<and> bytes ! 0 AND 0xF0 \<noteq> 0 \<and> e = NonzeroPadding)"
proof (intro conjI allI impI)
  fix flag channel node tag payload f
  assume new: "frame_new flag channel node tag payload = Inr f"
  then show "frame_decode (frame_encode f) = Inr f" by (simp add: frame_new_inv decode_encode_frame)
  from new have "channel = frame_channel f" "node = frame_node f" by (auto simp: frame_new_Inr_iff)
  then show "frame_route (frame_encode f) = Some (channel, node)"
    using frame_route_encode [OF frame_new_inv [OF new]] by simp
next
  fix bytes f
  assume d: "frame_decode bytes = Inr f"
  then have "length bytes = 14" "bytes ! 0 AND 0xF0 = 0"
    by (auto simp: frame_decode_def FRAME_BYTES_def split: if_splits)
  from encode_decode_frame [OF this] d have e: "frame_encode f = bytes" "frame_inv f" by auto
  show "frame_encode f = bytes" by fact
  show "frame_route bytes = Some (frame_channel f, frame_node f)"
    using frame_route_encode [OF e(2)] e(1) by simp
next
  fix bytes e
  show "frame_decode bytes = Inl e \<longleftrightarrow>
       length bytes \<noteq> 14 \<and> e = WrongFrameLength (length bytes)
       \<or> length bytes = 14 \<and> bytes ! 0 AND 0xF0 \<noteq> 0 \<and> e = NonzeroPadding"
  proof (cases "length bytes = 14 \<and> bytes ! 0 AND 0xF0 = 0")
    case True
    then show ?thesis using encode_decode_frame [of bytes] by (metis sum.simps(4))
  next
    case False
    then show ?thesis by (auto simp: frame_decode_def FRAME_BYTES_def)
  qed
qed

theorem rtlink_frame_codec_witness:
  "\<exists>f. frame_new 1 2 3 4 (5, 6) = Inr f \<and> frame_decode (frame_encode f) = Inr f"
proof -
  have "frame_new 1 2 3 4 (5, 6) = Inr \<lparr>frame_flag = 1, frame_channel = 2, frame_node = 3,
      frame_tag = 4, frame_payload = (5, 6)\<rparr>"
    by (simp add: frame_new_def CHANNEL_MAX_def TAG_MAX_def)
  with rtlink_frame_codec show ?thesis by blast
qed

text \<open>
  A word stream is framed without loss: the payloads of the frames, in order, are the words of
  the stream followed by one zero word when their number is odd, every frame has the header asked
  for, and framing fails only when a header field is out of range (and there is a word to send).
\<close>

theorem word_stream_payload:
  "case encode_word_stream flag channel node tag words of
     Inr frames \<Rightarrow>
       concat (map frame_payload_words frames) = words @ (if odd (length words) then [0] else [])
       \<and> (\<forall>f\<in>set frames. frame_flag f = flag \<and> frame_channel f = channel \<and> frame_node f = node
            \<and> frame_tag f = tag \<and> frame_inv f)
   | Inl e \<Rightarrow> words \<noteq> [] \<and> (flag > 7 \<or> channel > CHANNEL_MAX \<or> tag > TAG_MAX)"
proof (cases "encode_word_stream flag channel node tag words")
  case (Inl e)
  then have "words \<noteq> []" by (auto simp: encode_word_stream_def)
  moreover have "flag > 7 \<or> channel > CHANNEL_MAX \<or> tag > TAG_MAX"
  proof (rule ccontr)
    assume "\<not> ?thesis"
    then have "\<exists>fs. encode_word_stream flag channel node tag words = Inr fs"
      by (intro word_stream_total) (simp_all add: not_less)
    with Inl show False by simp
  qed
  ultimately show ?thesis using Inl by simp
next
  case (Inr frames)
  then show ?thesis using chunks2_stream by (simp add: encode_word_stream_def)
qed

theorem word_stream_payload_witness:
  "\<exists>frames. encode_word_stream 1 2 3 4 [7, 8, 9] = Inr frames
     \<and> concat (map frame_payload_words frames) = [7, 8, 9, 0]"
  using word_stream_payload [where flag = 1 and channel = 2 and node = 3 and tag = 4
      and words = "[7, 8, 9]"]
  by (simp add: encode_word_stream_def frame_new_def CHANNEL_MAX_def TAG_MAX_def nth_opt_def)

end
