(* ===== verification/Runtime_Model.thy ===== *)
theory Runtime_Model
  imports Prelude
begin

text \<open>
  \<open>catseq-runtime/src/model.rs\<close>: the assembled program, the physical board map and the validation of
  the handoff between them.  An error is its code (the message text is not modelled); \<open>usize\<close>
  lengths and capacities are natural numbers.
\<close>

section \<open>Definitions\<close>

definition RUNTIME_SCHEMA_VERSION :: u32 where "RUNTIME_SCHEMA_VERSION = 1"
definition RTLINK_CHANNEL_MAX :: u8 where "RTLINK_CHANNEL_MAX = 31"
definition MAC_ADDRESS_MAX :: u64 where "MAC_ADDRESS_MAX = 2 ^ 48 - 1"

datatype runtime_contract_error_code =
    UnsupportedSchemaVersion
  | UnknownBoardAddress
  | EmptyProgram
  | DuplicateBoardAddress
  | DuplicatePhysicalNode
  | InvalidChannel
  | ExceptionHandlerOutOfRange
  | EmptyInterface
  | ZeroTimeout
  | TopologyMismatch
  | CapacityOverflow
  | MacOverflow
  | EndpointPanic

datatype oasm_address =
    Main | Rwg0 | Rwg1 | Rwg2 | Rwg3 | Rwg4 | Rwg5 | Rsp6 | Rsp7 | Rwg8 | Rwg9 | Rsp10 | Rsp11

definition ALL_addresses :: "oasm_address list" where
  "ALL_addresses =
     [Main, Rwg0, Rwg1, Rwg2, Rwg3, Rwg4, Rwg5, Rsp6, Rsp7, Rwg8, Rwg9, Rsp10, Rsp11]"

fun as_str :: "oasm_address \<Rightarrow> string" where
  "as_str Main = ''main''"
| "as_str Rwg0 = ''rwg0''"
| "as_str Rwg1 = ''rwg1''"
| "as_str Rwg2 = ''rwg2''"
| "as_str Rwg3 = ''rwg3''"
| "as_str Rwg4 = ''rwg4''"
| "as_str Rwg5 = ''rwg5''"
| "as_str Rsp6 = ''rsp6''"
| "as_str Rsp7 = ''rsp7''"
| "as_str Rwg8 = ''rwg8''"
| "as_str Rwg9 = ''rwg9''"
| "as_str Rsp10 = ''rsp10''"
| "as_str Rsp11 = ''rsp11''"

definition address_from_str :: "string \<Rightarrow> runtime_contract_error_code + oasm_address" where
  "address_from_str value =
     ok_or UnknownBoardAddress (find (\<lambda>address. as_str address = value) ALL_addresses)"

text \<open>The derived \<open>Ord\<close> of the enum orders the constructors as declared.\<close>

fun address_rank :: "oasm_address \<Rightarrow> nat" where
  "address_rank Main = 0" | "address_rank Rwg0 = 1" | "address_rank Rwg1 = 2"
| "address_rank Rwg2 = 3" | "address_rank Rwg3 = 4" | "address_rank Rwg4 = 5"
| "address_rank Rwg5 = 6" | "address_rank Rsp6 = 7" | "address_rank Rsp7 = 8"
| "address_rank Rwg8 = 9" | "address_rank Rwg9 = 10" | "address_rank Rsp10 = 11"
| "address_rank Rsp11 = 12"

lemma address_rank_inj: "address_rank a = address_rank b \<Longrightarrow> a = b"
  by (cases a; cases b) simp_all

instantiation oasm_address :: linorder
begin
definition less_eq_oasm_address :: "oasm_address \<Rightarrow> oasm_address \<Rightarrow> bool" where
  "less_eq_oasm_address a b \<longleftrightarrow> address_rank a \<le> address_rank b"
definition less_oasm_address :: "oasm_address \<Rightarrow> oasm_address \<Rightarrow> bool" where
  "less_oasm_address a b \<longleftrightarrow> address_rank a < address_rank b"
instance
  by standard (auto simp: less_eq_oasm_address_def less_oasm_address_def intro: address_rank_inj)
end

record assembled_oasm_board =
  board_address :: oasm_address
  board_ich_words :: "u32 list"
  board_exception_handler_word :: u32

definition board_new ::
  "oasm_address \<Rightarrow> u32 list \<Rightarrow> u32 \<Rightarrow> runtime_contract_error_code + assembled_oasm_board" where
  "board_new address ich_words handler =
     (if unat handler \<ge> length ich_words then Inl ExceptionHandlerOutOfRange
      else Inr \<lparr>board_address = address, board_ich_words = ich_words,
                 board_exception_handler_word = handler\<rparr>)"

definition validate_schema_version :: "u32 \<Rightarrow> runtime_contract_error_code + unit" where
  "validate_schema_version v =
     (if v \<noteq> RUNTIME_SCHEMA_VERSION then Inl UnsupportedSchemaVersion else Inr ())"

definition validate_channel :: "u8 \<Rightarrow> runtime_contract_error_code + unit" where
  "validate_channel channel = (if channel > RTLINK_CHANNEL_MAX then Inl InvalidChannel else Inr ())"

record assembled_oasm_program =
  program_schema_version :: u32
  program_reply_node :: u16
  program_reply_channel :: u8
  program_boards :: "assembled_oasm_board list"

text \<open>One pass of \<open>BTreeSet::insert\<close> over the boards; the set holds the addresses seen so far.\<close>

fun program_addresses_distinct ::
  "oasm_address set \<Rightarrow> assembled_oasm_board list \<Rightarrow> runtime_contract_error_code + unit" where
  "program_addresses_distinct seen [] = Inr ()"
| "program_addresses_distinct seen (b # bs) =
     (if board_address b \<in> seen then Inl DuplicateBoardAddress
      else program_addresses_distinct (insert (board_address b) seen) bs)"

definition program_new ::
  "u32 \<Rightarrow> u16 \<Rightarrow> u8 \<Rightarrow> assembled_oasm_board list
     \<Rightarrow> runtime_contract_error_code + assembled_oasm_program" where
  "program_new schema_version reply_node reply_channel boards =
     res_bind (validate_schema_version schema_version) (\<lambda>_.
     res_bind (validate_channel reply_channel) (\<lambda>_.
     if boards = [] then Inl EmptyProgram
     else res_bind (program_addresses_distinct {} boards) (\<lambda>_.
       Inr \<lparr>program_schema_version = schema_version, program_reply_node = reply_node,
             program_reply_channel = reply_channel, program_boards = boards\<rparr>)))"

record board_endpoint =
  endpoint_address :: oasm_address
  endpoint_node :: u16
  endpoint_channel :: u8
  endpoint_capacity :: nat

definition endpoint_new ::
  "oasm_address \<Rightarrow> u16 \<Rightarrow> u8 \<Rightarrow> nat \<Rightarrow> runtime_contract_error_code + board_endpoint" where
  "endpoint_new address node channel capacity =
     res_bind (validate_channel channel) (\<lambda>_.
       Inr \<lparr>endpoint_address = address, endpoint_node = node, endpoint_channel = channel,
             endpoint_capacity = capacity\<rparr>)"

datatype mac_address = Mac u8 u8 u8 u8 u8 u8

record runtime_config =
  config_schema_version :: u32
  config_interface :: string
  config_destination_mac :: "mac_address option"
  config_timeout_ms :: u64
  config_boards :: "board_endpoint list"

fun config_distinct ::
  "oasm_address set \<Rightarrow> u16 set \<Rightarrow> board_endpoint list \<Rightarrow> runtime_contract_error_code + unit" where
  "config_distinct addresses nodes [] = Inr ()"
| "config_distinct addresses nodes (e # es) =
     (if endpoint_address e \<in> addresses then Inl DuplicateBoardAddress
      else if endpoint_node e \<in> nodes then Inl DuplicatePhysicalNode
      else config_distinct (insert (endpoint_address e) addresses) (insert (endpoint_node e) nodes) es)"

definition config_new ::
  "u32 \<Rightarrow> string \<Rightarrow> mac_address option \<Rightarrow> u64 \<Rightarrow> board_endpoint list
     \<Rightarrow> runtime_contract_error_code + runtime_config" where
  "config_new schema_version iface destination_mac timeout_ms boards =
     res_bind (validate_schema_version schema_version) (\<lambda>_.
     if iface = [] then Inl EmptyInterface
     else if timeout_ms = 0 then Inl ZeroTimeout
     else res_bind (config_distinct {} {} boards) (\<lambda>_.
       Inr \<lparr>config_schema_version = schema_version, config_interface = iface,
             config_destination_mac = destination_mac, config_timeout_ms = timeout_ms,
             config_boards = boards\<rparr>))"

definition find_endpoint :: "runtime_config \<Rightarrow> oasm_address \<Rightarrow> board_endpoint option" where
  "find_endpoint config address =
     find (\<lambda>endpoint. endpoint_address endpoint = address) (config_boards config)"

definition validate_runtime_handoff ::
  "assembled_oasm_program \<Rightarrow> runtime_config \<Rightarrow> runtime_contract_error_code + unit" where
  "validate_runtime_handoff program config =
     (if board_address ` set (program_boards program) \<noteq> endpoint_address ` set (config_boards config)
      then Inl TopologyMismatch
      else res_all (\<lambda>board.
             case find_endpoint config (board_address board) of
               None \<Rightarrow> Inl EndpointPanic
             | Some endpoint \<Rightarrow>
                 if length (board_ich_words board) > endpoint_capacity endpoint
                 then Inl CapacityOverflow else Inr ())
           (program_boards program))"

fun derive_destination_mac :: "mac_address \<Rightarrow> runtime_contract_error_code + mac_address" where
  "derive_destination_mac (Mac a b c d e f) =
     (let source = from_be_bytes [0, 0, a, b, c, d, e, f] :: u64;
          destination = (if unat source + 2 < 2 ^ 64 then Some (source + 2) else None)
      in case destination of
           None \<Rightarrow> Inl MacOverflow
         | Some value \<Rightarrow>
             if value \<le> MAC_ADDRESS_MAX then
               (let bytes = be_bytes 8 value
                in Inr (Mac (bytes ! 2) (bytes ! 3) (bytes ! 4) (bytes ! 5) (bytes ! 6) (bytes ! 7)))
             else Inl MacOverflow)"

section \<open>Contracts\<close>

definition board_inv :: "assembled_oasm_board \<Rightarrow> bool" where
  "board_inv b \<longleftrightarrow> unat (board_exception_handler_word b) < length (board_ich_words b)"

definition program_inv :: "assembled_oasm_program \<Rightarrow> bool" where
  "program_inv p \<longleftrightarrow>
     program_schema_version p = RUNTIME_SCHEMA_VERSION
     \<and> program_reply_channel p \<le> RTLINK_CHANNEL_MAX
     \<and> program_boards p \<noteq> []
     \<and> distinct (map board_address (program_boards p))"

definition config_inv :: "runtime_config \<Rightarrow> bool" where
  "config_inv c \<longleftrightarrow>
     config_schema_version c = RUNTIME_SCHEMA_VERSION
     \<and> config_interface c \<noteq> [] \<and> config_timeout_ms c \<noteq> 0
     \<and> distinct (map endpoint_address (config_boards c))
     \<and> distinct (map endpoint_node (config_boards c))"

fun mac_num :: "mac_address \<Rightarrow> nat" where
  "mac_num (Mac a b c d e f) = unat (from_be_bytes [a, b, c, d, e, f] :: u64)"

lemma address_from_str_as_str: "address_from_str (as_str a) = Inr a"
  by (cases a) (simp_all add: address_from_str_def ALL_addresses_def)

lemma address_from_str_Inr_iff: "address_from_str s = Inr a \<longleftrightarrow> s = as_str a"
proof
  assume "address_from_str s = Inr a"
  then show "s = as_str a"
    unfolding address_from_str_def ok_or_Inr_iff by (auto simp: find_Some_iff)
qed (simp add: address_from_str_as_str)

lemma program_addresses_distinct_iff:
  "program_addresses_distinct seen bs = Inr () \<longleftrightarrow>
     distinct (map board_address bs) \<and> board_address ` set bs \<inter> seen = {}"
  by (induction bs arbitrary: seen) auto

lemma config_distinct_iff:
  "config_distinct as ns es = Inr () \<longleftrightarrow>
     distinct (map endpoint_address es) \<and> distinct (map endpoint_node es)
     \<and> endpoint_address ` set es \<inter> as = {} \<and> endpoint_node ` set es \<inter> ns = {}"
  by (induction es arbitrary: as ns) auto

lemma validate_channel_iff [simp]: "validate_channel c = Inr u \<longleftrightarrow> c \<le> RTLINK_CHANNEL_MAX"
  by (auto simp: validate_channel_def)

lemma validate_schema_version_iff [simp]:
  "validate_schema_version v = Inr u \<longleftrightarrow> v = RUNTIME_SCHEMA_VERSION"
  by (auto simp: validate_schema_version_def)

lemma program_new_Inr_iff:
  "program_new v n c bs = Inr p \<longleftrightarrow>
     p = \<lparr>program_schema_version = v, program_reply_node = n, program_reply_channel = c,
          program_boards = bs\<rparr> \<and> program_inv p"
  by (auto simp: program_new_def res_simps program_inv_def program_addresses_distinct_iff
      split: if_splits)

lemma config_new_Inr_iff:
  "config_new v i m t bs = Inr c \<longleftrightarrow>
     c = \<lparr>config_schema_version = v, config_interface = i, config_destination_mac = m,
          config_timeout_ms = t, config_boards = bs\<rparr> \<and> config_inv c"
  by (auto simp: config_new_def res_simps config_inv_def config_distinct_iff split: if_splits)

lemma find_endpoint_Some:
  "find_endpoint config a = Some e \<Longrightarrow> e \<in> set (config_boards config) \<and> endpoint_address e = a"
  by (auto simp: find_endpoint_def find_Some_iff)

lemma find_endpoint_defined:
  "a \<in> endpoint_address ` set (config_boards config) \<Longrightarrow> \<exists>e. find_endpoint config a = Some e"
  by (cases "find_endpoint config a") (auto simp: find_endpoint_def find_None_iff)

lemma find_endpoint_eq:
  assumes "config_inv config" "e \<in> set (config_boards config)"
  shows "find_endpoint config (endpoint_address e) = Some e"
proof -
  obtain e' where e': "find_endpoint config (endpoint_address e) = Some e'"
    using find_endpoint_defined assms(2) by blast
  have "inj_on endpoint_address (set (config_boards config))"
    using assms(1) by (simp add: config_inv_def distinct_map)
  with find_endpoint_Some [OF e'] assms(2) have "e' = e" by (auto dest: inj_onD)
  with e' show ?thesis by simp
qed

text \<open>Every board has an endpoint of its address with room for its image.\<close>

definition handoff_ok :: "assembled_oasm_program \<Rightarrow> runtime_config \<Rightarrow> bool" where
  "handoff_ok p c \<longleftrightarrow>
     (\<forall>e\<in>set (config_boards c). \<exists>b\<in>set (program_boards p). board_address b = endpoint_address e)
     \<and> (\<forall>b\<in>set (program_boards p). \<exists>e. find_endpoint c (board_address b) = Some e
          \<and> length (board_ich_words b) \<le> endpoint_capacity e)"

lemma validate_handoff_iff: "validate_runtime_handoff p c = Inr () \<longleftrightarrow> handoff_ok p c"
proof (cases "board_address ` set (program_boards p) = endpoint_address ` set (config_boards c)")
  case True
  then have "\<forall>b\<in>set (program_boards p). \<exists>e. find_endpoint c (board_address b) = Some e"
    using find_endpoint_defined by blast
  moreover from True have "\<forall>e\<in>set (config_boards c). \<exists>b\<in>set (program_boards p).
      board_address b = endpoint_address e" by (metis image_iff)
  ultimately show ?thesis using True
    by (fastforce simp: validate_runtime_handoff_def handoff_ok_def not_less split: if_splits)
next
  case False
  then have "\<not> handoff_ok p c"
    unfolding handoff_ok_def using find_endpoint_Some by (force simp: image_iff set_eq_iff)
  with False show ?thesis by (simp add: validate_runtime_handoff_def)
qed

lemma validate_handoff_Inl:
  "validate_runtime_handoff p c = Inl e \<Longrightarrow> e = TopologyMismatch \<or> e = CapacityOverflow"
proof -
  have step: "res_all f xs = Inl e \<Longrightarrow> \<exists>x\<in>set xs. f x = Inl e" for f :: "'a \<Rightarrow> 'e + unit" and xs e
    by (induction xs) (auto simp: res_simps)
  assume v: "validate_runtime_handoff p c = Inl e"
  show ?thesis
  proof (cases "board_address ` set (program_boards p) = endpoint_address ` set (config_boards c)")
    case True
    then have d: "\<forall>b\<in>set (program_boards p). \<exists>e. find_endpoint c (board_address b) = Some e"
      using find_endpoint_defined by blast
    from v True have "res_all (\<lambda>b. case find_endpoint c (board_address b) of
               None \<Rightarrow> Inl EndpointPanic
             | Some endpoint \<Rightarrow>
                 if length (board_ich_words b) > endpoint_capacity endpoint
                 then Inl CapacityOverflow else Inr ()) (program_boards p) = Inl e" by (simp add: validate_runtime_handoff_def)
    from step [OF this] obtain b where b: "b \<in> set (program_boards p)"
      "(case find_endpoint c (board_address b) of
               None \<Rightarrow> Inl EndpointPanic
             | Some endpoint \<Rightarrow>
                 if length (board_ich_words b) > endpoint_capacity endpoint
                 then Inl CapacityOverflow else Inr ()) = Inl e"
      by blast
    with d show ?thesis by (auto split: option.splits if_splits)
  qed (use v in \<open>simp add: validate_runtime_handoff_def\<close>)
qed

lemma six_bytes: "length xs = 6 \<Longrightarrow> [xs ! 0, xs ! 1, xs ! 2, xs ! 3, xs ! 4, xs ! 5] = xs"
  by (auto simp: length_Suc_conv numeral_eq_Suc)

lemma mac_bytes:
  fixes v :: u64
  assumes "v \<le> MAC_ADDRESS_MAX"
  shows "unat (from_be_bytes [be_bytes 8 v ! 2, be_bytes 8 v ! 3, be_bytes 8 v ! 4, be_bytes 8 v ! 5,
      be_bytes 8 v ! 6, be_bytes 8 v ! 7] :: u64) = unat v"
proof -
  have "unat v < 2 ^ 48" using assms by (simp add: MAC_ADDRESS_MAX_def word_le_nat_alt)
  then have "take_bit 48 v = v"
    by (simp only: take_bit_self_iff)
  moreover have "be_bytes (2 + 6) v = be_bytes 2 (drop_bit 48 v) @ be_bytes 6 v"
    by (simp only: be_bytes_add) simp
  then have "be_bytes 8 v = be_bytes 2 (drop_bit 48 v) @ be_bytes 6 v" by simp
  then have "[be_bytes 8 v ! 2, be_bytes 8 v ! 3, be_bytes 8 v ! 4, be_bytes 8 v ! 5,
      be_bytes 8 v ! 6, be_bytes 8 v ! 7] = be_bytes 6 v"
    using six_bytes [of "be_bytes 6 v"] by (simp add: nth_append)
  ultimately show ?thesis by (simp add: from_be_bytes_be_bytes)
qed

lemma mac_num_less: "mac_num m < 2 ^ 48"
proof (cases m)
  case (Mac a b c d e f)
  have "take_bit 48 (from_be_bytes [a, b, c, d, e, f] :: u64) = from_be_bytes [a, b, c, d, e, f]"
    by (rule from_be_bytes_take) simp
  then have "unat (from_be_bytes [a, b, c, d, e, f] :: u64) < 2 ^ 48"
    by (simp only: take_bit_self_iff)
  with Mac show ?thesis by simp
qed

lemma mac_num_inj: "mac_num m = mac_num n \<Longrightarrow> m = n"
proof (cases m; cases n)
  fix a b c d e f a' b' c' d' e' f'
  assume eq: "mac_num m = mac_num n" and m: "m = Mac a b c d e f" "n = Mac a' b' c' d' e' f'"
  have "[a, b, c, d, e, f] = [a', b', c', d', e', f']"
  proof -
    have "be_bytes 6 (from_be_bytes [a, b, c, d, e, f] :: u64) = [a, b, c, d, e, f]" for a b c d e f
    proof -
      have 6: "length [a, b, c, d, e, f] = 6" by simp
      then have "8 * length [a, b, c, d, e, f] \<le> LENGTH(64)" by simp
      from be_bytes_from_be_bytes [OF this] show ?thesis by (simp only: 6)
    qed
    moreover from eq have "from_be_bytes [a, b, c, d, e, f]
        = (from_be_bytes [a', b', c', d', e', f'] :: u64)"
      unfolding m mac_num.simps by (simp only: word_unat_eq_iff)
    ultimately show ?thesis by metis
  qed
  with m show "m = n" by simp
qed

section \<open>Properties\<close>

text \<open>
  The textual spelling of a board address and the enum are in bijection: \<open>from_str\<close> accepts a
  string exactly when it is the \<open>as_str\<close> of the address it returns.
\<close>

theorem oasm_address_spelling:
  "address_from_str s = Inr a \<longleftrightarrow> s = as_str a"
  by (rule address_from_str_Inr_iff)

text \<open>
  The constructors accept exactly the values that satisfy the runtime contract: a program with
  the supported schema, a five-bit reply channel and at least one board, no two of them at one
  address; a configuration with an interface, a timeout and endpoints with distinct addresses and
  distinct physical nodes.
\<close>

theorem runtime_constructors_enforce_contract:
  "(program_new v n c bs = Inr p \<longleftrightarrow>
      p = \<lparr>program_schema_version = v, program_reply_node = n, program_reply_channel = c,
           program_boards = bs\<rparr> \<and> program_inv p)
   \<and> (config_new v i m t es = Inr cfg \<longleftrightarrow>
      cfg = \<lparr>config_schema_version = v, config_interface = i, config_destination_mac = m,
           config_timeout_ms = t, config_boards = es\<rparr> \<and> config_inv cfg)"
  by (simp only: program_new_Inr_iff config_new_Inr_iff)

text \<open>
  The handoff check is exact and total: it succeeds if and only if the physical map has an
  endpoint for every and only the assembled boards, each with room for its image; its \<open>expect\<close> on
  the endpoint lookup is unreachable.
\<close>

theorem runtime_handoff_exact:
  "case validate_runtime_handoff p c of
     Inr _ \<Rightarrow> handoff_ok p c
   | Inl e \<Rightarrow> \<not> handoff_ok p c \<and> (e = TopologyMismatch \<or> e = CapacityOverflow)"
  using validate_handoff_iff [of p c] validate_handoff_Inl [of p c]
  by (auto split: sum.splits)

text \<open>
  The derived destination address is the source address plus two as a 48-bit number, and the
  derivation fails exactly when that does not fit.
\<close>

theorem destination_mac_plus_two:
  "case derive_destination_mac source of
     Inr destination \<Rightarrow> mac_num destination = mac_num source + 2
   | Inl e \<Rightarrow> e = MacOverflow \<and> 2 ^ 48 \<le> mac_num source + 2"
proof (cases source)
  case (Mac a b c d e f)
  define s where "s = (from_be_bytes [a, b, c, d, e, f] :: u64)"
  have b: "unat s < 2 ^ 48" using mac_num_less [of source] Mac by (simp add: s_def)
  then have p: "unat (s + 2) = unat s + 2" by (simp add: unat_word_ariths)
  have z: "from_be_bytes [0, 0, a, b, c, d, e, f] = s" by (simp add: from_be_bytes_zeros s_def)
  show ?thesis
  proof (cases "s + 2 \<le> MAC_ADDRESS_MAX")
    case True
    then show ?thesis
      using Mac b p mac_bytes [OF True] z by (simp add: s_def [symmetric] Let_def)
  next
    case False
    then have "2 ^ 48 \<le> unat s + 2" using p by (simp add: MAC_ADDRESS_MAX_def word_le_nat_alt)
    then show ?thesis using Mac b z False by (simp add: s_def [symmetric] Let_def)
  qed
qed

end
