(* ===== verification/Transport.thy ===== *)
theory Transport
  imports Runtime_Model
begin

text \<open>
  \<open>catseq-runtime/src/transport\<close>: the transport seam of the runtime.  \<open>transport_ops\<close> is the trait
  \<open>Transport\<close> over a state of type \<open>'s\<close>; \<open>in_memory\<close> is the deterministic transport of
  \<open>transport/mod.rs\<close>, and \<open>ethernet_bytes\<close>/\<open>received_packet\<close> are the byte layout of the raw socket of
  \<open>transport/raw_socket.rs\<close>.  Error values keep what control flow depends on; message texts are
  not modelled.  The locales state what the execution state machine needs of a transport.
\<close>

section \<open>Definitions\<close>

definition ETHER_TYPE :: u16 where "ETHER_TYPE = 0xFACE"
definition OASM_PADDING_BYTES :: nat where "OASM_PADDING_BYTES = 32"
definition ETHERNET_HEADER_BYTES :: nat where "ETHERNET_HEADER_BYTES = 14"

record transport_envelope =
  env_ether_type :: u16
  env_source_mac :: mac_address
  env_destination_mac :: mac_address
  env_loopback_marker :: "u8 list"

record wire_packet =
  pkt_ether_type :: u16
  pkt_source_mac :: mac_address
  pkt_destination_mac :: mac_address
  pkt_loopback_marker :: "u8 list"
  pkt_payload :: "u8 list"

datatype send_rejection = NotAccepted | AcceptanceUnknown
datatype receive_error = ReceiveError
datatype transport_error = TransportError

type_synonym instant = nat

record 's transport_ops =
  tr_open :: "'s \<Rightarrow> (transport_error + transport_envelope) \<times> 's"
  tr_send :: "wire_packet \<Rightarrow> 's \<Rightarrow> (send_rejection + unit) \<times> 's"
  tr_receive :: "instant \<Rightarrow> 's \<Rightarrow> (receive_error + wire_packet option) \<times> 's"
  tr_close :: "'s \<Rightarrow> 's"

record in_memory_transport =
  mem_envelope :: transport_envelope
  mem_opened :: nat
  mem_closed :: nat
  mem_sent :: "wire_packet list"
  mem_receive_queue :: "(receive_error + wire_packet option) list"
  mem_send_faults :: "(send_rejection + unit) list"
  mem_open_error :: "transport_error option"

definition mem_new :: "transport_envelope \<Rightarrow> in_memory_transport" where
  "mem_new envelope = \<lparr>mem_envelope = envelope, mem_opened = 0, mem_closed = 0, mem_sent = [],
     mem_receive_queue = [], mem_send_faults = [], mem_open_error = None\<rparr>"

definition mem_with_received :: "transport_envelope \<Rightarrow> wire_packet list \<Rightarrow> in_memory_transport" where
  "mem_with_received envelope received =
     (mem_new envelope)\<lparr>mem_receive_queue := map (\<lambda>packet. Inr (Some packet)) received\<rparr>"

definition mem_open ::
  "in_memory_transport \<Rightarrow> (transport_error + transport_envelope) \<times> in_memory_transport" where
  "mem_open self =
     (let self = self\<lparr>mem_opened := mem_opened self + 1\<rparr>
      in (case mem_open_error self of None \<Rightarrow> Inr (mem_envelope self) | Some e \<Rightarrow> Inl e, self))"

definition mem_send ::
  "wire_packet \<Rightarrow> in_memory_transport \<Rightarrow> (send_rejection + unit) \<times> in_memory_transport" where
  "mem_send packet self =
     (case mem_send_faults self of
        result # faults \<Rightarrow>
          (let self = self\<lparr>mem_send_faults := faults\<rparr>
           in case result of
                Inr _ \<Rightarrow> (result, self\<lparr>mem_sent := mem_sent self @ [packet]\<rparr>)
              | Inl _ \<Rightarrow> (result, self))
      | [] \<Rightarrow> (Inr (), self\<lparr>mem_sent := mem_sent self @ [packet]\<rparr>))"

definition mem_receive ::
  "instant \<Rightarrow> in_memory_transport \<Rightarrow> (receive_error + wire_packet option) \<times> in_memory_transport" where
  "mem_receive deadline self =
     (case mem_receive_queue self of
        [] \<Rightarrow> (Inr None, self)
      | r # rs \<Rightarrow> (r, self\<lparr>mem_receive_queue := rs\<rparr>))"

definition mem_close :: "in_memory_transport \<Rightarrow> in_memory_transport" where
  "mem_close self = self\<lparr>mem_closed := mem_closed self + 1\<rparr>"

definition in_memory :: "in_memory_transport transport_ops" where
  "in_memory = \<lparr>tr_open = mem_open, tr_send = mem_send, tr_receive = mem_receive, tr_close = mem_close\<rparr>"

fun mac_bytes_of :: "mac_address \<Rightarrow> u8 list" where
  "mac_bytes_of (Mac a b c d e f) = [a, b, c, d, e, f]"

definition mac_from_bytes :: "u8 list \<Rightarrow> mac_address" where
  "mac_from_bytes bs = Mac (bs ! 0) (bs ! 1) (bs ! 2) (bs ! 3) (bs ! 4) (bs ! 5)"

definition ethernet_bytes :: "wire_packet \<Rightarrow> u8 list" where
  "ethernet_bytes packet =
     mac_bytes_of (pkt_destination_mac packet) @ mac_bytes_of (pkt_source_mac packet)
     @ be_bytes 2 (pkt_ether_type packet) @ pkt_loopback_marker packet
     @ replicate (OASM_PADDING_BYTES - 8) 0 @ pkt_payload packet"

text \<open>The packet that \<open>receive\<close> builds from its 2048-byte buffer once \<open>recv\<close> has returned \<open>count\<close>.\<close>

definition received_packet :: "u8 list \<Rightarrow> nat \<Rightarrow> wire_packet" where
  "received_packet bytes count =
     (if count < ETHERNET_HEADER_BYTES + OASM_PADDING_BYTES then
        \<lparr>pkt_ether_type = (if count \<ge> ETHERNET_HEADER_BYTES then from_be_bytes [bytes ! 12, bytes ! 13]
                            else 0),
         pkt_source_mac = mac_from_bytes (take 6 (drop 6 bytes)),
         pkt_destination_mac = mac_from_bytes (take 6 bytes),
         pkt_loopback_marker = replicate 8 0,
         pkt_payload = []\<rparr>
      else
        \<lparr>pkt_ether_type = from_be_bytes [bytes ! 12, bytes ! 13],
         pkt_source_mac = mac_from_bytes (take 6 (drop 6 bytes)),
         pkt_destination_mac = mac_from_bytes (take 6 bytes),
         pkt_loopback_marker = take 8 (drop 14 bytes),
         pkt_payload = take (count - 46) (drop 46 bytes)\<rparr>)"

section \<open>What the runtime needs of a transport\<close>

text \<open>
  \<open>logged_transport\<close>: \<open>log\<close> is the sequence of packets the medium has taken.  A successful send adds
  the packet, a rejected one adds nothing, and only a send of unknown acceptance may do either.
\<close>

locale logged_transport =
  fixes ops :: "'s transport_ops"
    and log :: "'s \<Rightarrow> wire_packet list"
  assumes open_log: "tr_open ops s = (r, s') \<Longrightarrow> log s' = log s"
    and send_ok: "tr_send ops p s = (Inr u, s') \<Longrightarrow> log s' = log s @ [p]"
    and send_not_accepted: "tr_send ops p s = (Inl NotAccepted, s') \<Longrightarrow> log s' = log s"
    and send_unknown: "tr_send ops p s = (Inl AcceptanceUnknown, s') \<Longrightarrow>
                         log s' = log s \<or> log s' = log s @ [p]"
    and receive_log: "tr_receive ops d s = (q, s') \<Longrightarrow> log s' = log s"
    and close_log: "log (tr_close ops s) = log s"

text \<open>
  \<open>bounded_transport\<close>: in addition only finitely many packets arrive before the deadline, as the
  \<open>deadline\<close> argument of \<open>receive\<close> promises; \<open>pending\<close> bounds their number.
\<close>

locale bounded_transport = logged_transport ops log
  for ops :: "'s transport_ops" and log +
  fixes pending :: "'s \<Rightarrow> nat"
  assumes receive_pending: "tr_receive ops d s = (Inr (Some p), s') \<Longrightarrow> pending s' < pending s"

interpretation mem: bounded_transport in_memory mem_sent "\<lambda>s. length (mem_receive_queue s)"
proof unfold_locales
  fix p s u s' d q and r :: "transport_error + transport_envelope"
  show "mem_sent s' = mem_sent s" if "tr_open in_memory s = (r, s')"
    using that by (auto simp: in_memory_def mem_open_def Let_def)
  show "mem_sent s' = mem_sent s @ [p]" if "tr_send in_memory p s = (Inr u, s')"
    using that by (auto simp: in_memory_def mem_send_def Let_def split: list.splits sum.splits)
  show "mem_sent s' = mem_sent s" if "tr_send in_memory p s = (Inl NotAccepted, s')"
    using that by (auto simp: in_memory_def mem_send_def Let_def split: list.splits sum.splits)
  show "mem_sent s' = mem_sent s \<or> mem_sent s' = mem_sent s @ [p]"
    if "tr_send in_memory p s = (Inl AcceptanceUnknown, s')"
    using that by (auto simp: in_memory_def mem_send_def Let_def split: list.splits sum.splits)
  show "mem_sent s' = mem_sent s" if "tr_receive in_memory d s = (q, s')"
    using that by (auto simp: in_memory_def mem_receive_def split: list.splits)
  show "mem_sent (tr_close in_memory s) = mem_sent s"
    by (simp add: in_memory_def mem_close_def)
  show "length (mem_receive_queue s') < length (mem_receive_queue s)"
    if "tr_receive in_memory d s = (Inr (Some p), s')"
    using that by (auto simp: in_memory_def mem_receive_def split: list.splits)
qed

section \<open>Layout of the outer packet\<close>

lemma mac_from_bytes_of [simp]: "mac_from_bytes (mac_bytes_of m) = m"
  by (cases m) (simp add: mac_from_bytes_def)

lemma length_mac_bytes_of [simp]: "length (mac_bytes_of m) = 6"
  by (cases m) simp

text \<open>
  What is received is what was sent: the layout of \<open>send\<close> is parsed back by \<open>receive\<close> from its
  buffer whenever the packet fits the 2048 bytes, whatever follows the received bytes in the buffer.
\<close>

theorem ethernet_layout_roundtrip:
  assumes "length (pkt_loopback_marker packet) = 8"
    and "buffer = ethernet_bytes packet @ rest"
    and "length buffer = 2048"
  shows "received_packet buffer (length (ethernet_bytes packet)) = packet"
proof -
  let ?dst = "mac_bytes_of (pkt_destination_mac packet)"
  let ?src = "mac_bytes_of (pkt_source_mac packet)"
  let ?tail = "pkt_loopback_marker packet @ replicate 24 0 @ pkt_payload packet @ rest"
  have buf: "buffer = ?dst @ ?src @ be_bytes 2 (pkt_ether_type packet) @ ?tail"
    by (simp add: assms(2) ethernet_bytes_def OASM_PADDING_BYTES_def)
  obtain x y where xy: "be_bytes 2 (pkt_ether_type packet) = [x, y]"
    by (simp add: numeral_2_eq_2)
  have "from_be_bytes (be_bytes 2 (pkt_ether_type packet)) = pkt_ether_type packet"
    by (simp add: from_be_bytes_be_bytes take_bit_word_eq_self)
  then have ety: "from_be_bytes [x, y] = pkt_ether_type packet" by (simp add: xy)
  have "buffer ! 12 = x" "buffer ! 13 = y"
    unfolding buf xy by (simp_all add: nth_append)
  moreover have "take 6 buffer = ?dst" "take 6 (drop 6 buffer) = ?src"
    "take 8 (drop 14 buffer) = pkt_loopback_marker packet"
    unfolding buf using assms(1) by simp_all
  moreover have "length (ethernet_bytes packet) = 46 + length (pkt_payload packet)"
    by (simp add: ethernet_bytes_def OASM_PADDING_BYTES_def assms(1))
  moreover have "take (length (pkt_payload packet)) (drop 46 buffer) = pkt_payload packet"
    unfolding buf using assms(1) by simp
  ultimately show ?thesis
    by (simp add: received_packet_def ETHERNET_HEADER_BYTES_def OASM_PADDING_BYTES_def ety)
qed

theorem ethernet_layout_roundtrip_witness:
  "received_packet (ethernet_bytes
     \<lparr>pkt_ether_type = ETHER_TYPE, pkt_source_mac = Mac 1 1 1 1 1 1, pkt_destination_mac = Mac 2 2 2 2 2 2,
      pkt_loopback_marker = replicate 8 9, pkt_payload = [0xAA, 0xBB]\<rparr> @ replicate 2000 0) 48
   = \<lparr>pkt_ether_type = ETHER_TYPE, pkt_source_mac = Mac 1 1 1 1 1 1, pkt_destination_mac = Mac 2 2 2 2 2 2,
      pkt_loopback_marker = replicate 8 9, pkt_payload = [0xAA, 0xBB]\<rparr>"
  using ethernet_layout_roundtrip [where rest = "replicate 2000 0" and packet =
    "\<lparr>pkt_ether_type = ETHER_TYPE, pkt_source_mac = Mac 1 1 1 1 1 1, pkt_destination_mac = Mac 2 2 2 2 2 2,
      pkt_loopback_marker = replicate 8 9, pkt_payload = [0xAA, 0xBB]\<rparr>"]
  by (simp add: ethernet_bytes_def OASM_PADDING_BYTES_def)

end
