(* ===== verification/Runtime_Execution.thy ===== *)
theory Runtime_Execution
  imports Download_Loader Rtlink_Frame Transport
begin

text \<open>
  \<open>catseq-runtime/src/execution.rs\<close>: the physical execution state machine (prepare, dispatch with
  bounded retries, monitor until every board is terminal).  \<open>BTreeMap\<close>s over board addresses are
  maps; the transport is an argument.  The monotonic clock is the argument \<open>clock\<close>, the value of
  \<open>Instant::now().checked_add(timeout)\<close>.  The monitoring loop has no bound of its own, so it is a
  partial function whose value \<open>None\<close> means that it never returns.  Failure messages and the always
  empty \<open>details\<close> map are not modelled; \<open>expect\<close>, map indexing and \<open>debug_assert\<close> failures are
  \<open>Panicked\<close>.
\<close>

section \<open>Definitions\<close>

definition DOWNLOAD_FLAG :: u8 where "DOWNLOAD_FLAG = 4"
definition DOWNLOAD_TAG :: u32 where "DOWNLOAD_TAG = 0"
definition OPERATION_TAG :: u32 where "OPERATION_TAG = 0xFFFF"
definition MAX_NOT_ACCEPTED_RETRIES :: nat where "MAX_NOT_ACCEPTED_RETRIES = 100"

datatype board_execution_state =
    NotDispatched | LoaderSubmitted | LaunchSubmitted | Succeeded | DeviceFailed

fun state_rank :: "board_execution_state \<Rightarrow> nat" where
  "state_rank NotDispatched = 0"
| "state_rank LoaderSubmitted = 1"
| "state_rank LaunchSubmitted = 2"
| "state_rank Succeeded = 3"
| "state_rank DeviceFailed = 4"

lemma state_rank_inj: "state_rank a = state_rank b \<Longrightarrow> a = b"
  by (cases a; cases b) simp_all

instantiation board_execution_state :: linorder
begin
definition less_eq_board_execution_state ::
  "board_execution_state \<Rightarrow> board_execution_state \<Rightarrow> bool" where
  "less_eq_board_execution_state a b \<longleftrightarrow> state_rank a \<le> state_rank b"
definition less_board_execution_state ::
  "board_execution_state \<Rightarrow> board_execution_state \<Rightarrow> bool" where
  "less_board_execution_state a b \<longleftrightarrow> state_rank a < state_rank b"
instance
  by standard (auto simp: less_eq_board_execution_state_def less_board_execution_state_def
      intro: state_rank_inj)
end

definition is_terminal :: "board_execution_state \<Rightarrow> bool" where
  "is_terminal s \<longleftrightarrow> s = Succeeded \<or> s = DeviceFailed"

datatype execution_certainty = NotStarted | FullyObserved | Indeterminate

datatype runtime_failure_code =
    ProgramInvalid | TopologyInvalid | TransportOpenFailed | TransportSendFailed
  | TransportReceiveFailed | CompletionTimeout | DeviceException | ProtocolViolation

record device_exception_report =
  exception_flags :: u32
  instruction_address :: "u32 option"

type_synonym evidence = "oasm_address \<rightharpoonup> board_execution_state"
type_synonym exceptions = "oasm_address \<rightharpoonup> device_exception_report"

text \<open>\<open>BTreeMap::values\<close>, in the order of the keys.\<close>

definition map_values :: "(oasm_address \<rightharpoonup> 'v) \<Rightarrow> 'v list" where
  "map_values m = List.map_filter m ALL_addresses"

definition derive_certainty :: "evidence \<Rightarrow> execution_certainty" where
  "derive_certainty evidence =
     (if list_ex (\<lambda>state. state = LaunchSubmitted \<or> state = Succeeded \<or> state = DeviceFailed)
           (map_values evidence)
      then (if list_ex (\<lambda>state. state = LaunchSubmitted) (map_values evidence)
            then Indeterminate else FullyObserved)
      else NotStarted)"

record runtime_failure =
  failure_schema_version :: u32
  failure_code :: runtime_failure_code
  failure_certainty :: execution_certainty
  failure_evidence :: evidence
  failure_exceptions :: exceptions

definition failure_new :: "runtime_failure_code \<Rightarrow> evidence \<Rightarrow> exceptions \<Rightarrow> runtime_failure" where
  "failure_new code board_evidence device_exceptions =
     \<lparr>failure_schema_version = 1, failure_code = code,
      failure_certainty = derive_certainty board_evidence,
      failure_evidence = board_evidence, failure_exceptions = device_exceptions\<rparr>"

definition failure_validate :: "runtime_failure \<Rightarrow> bool" where
  "failure_validate self \<longleftrightarrow>
     failure_schema_version self = 1
     \<and> derive_certainty (failure_evidence self) = failure_certainty self
     \<and> \<not> list_ex (\<lambda>board. failure_exceptions self board \<noteq> None
           \<and> failure_evidence self board \<noteq> Some DeviceFailed) ALL_addresses"

record runtime_success =
  success_schema_version :: u32
  success_evidence :: evidence
  success_results :: "oasm_address \<rightharpoonup> u32 list"

definition success_validate :: "runtime_success \<Rightarrow> bool" where
  "success_validate self \<longleftrightarrow>
     success_schema_version self = 1
     \<and> \<not> (map_values (success_evidence self) = []
          \<or> list_ex (\<lambda>state. state \<noteq> Succeeded) (map_values (success_evidence self)))"

datatype run_error = Failed runtime_failure | Panicked

record prepared_frame =
  pf_frame :: rtlink_frame
  pf_launch_bearing :: bool

record prepared_board =
  pb_address :: oasm_address
  pb_frames :: "prepared_frame list"

definition prepare_board ::
  "runtime_config \<Rightarrow> evidence \<Rightarrow> exceptions \<Rightarrow> assembled_oasm_board \<Rightarrow> run_error + prepared_board" where
  "prepare_board config evidence exceptions board =
     (case find_endpoint config (board_address board) of
        None \<Rightarrow> Inl Panicked
      | Some endpoint \<Rightarrow>
          (case materialize_download_loader (board_ich_words board)
                  \<lparr>instruction_capacity_words = endpoint_capacity endpoint,
                   exception_handler_word = board_exception_handler_word board\<rparr> of
             Inl (EncodePanic _) \<Rightarrow> Inl Panicked
           | Inl (ProgramTooLarge _ _) \<Rightarrow>
               Inl (Failed (failure_new TopologyInvalid evidence exceptions))
           | Inr loader \<Rightarrow>
               (case encode_word_stream DOWNLOAD_FLAG (endpoint_channel endpoint)
                       (endpoint_node endpoint) DOWNLOAD_TAG (loader_words loader) of
                  Inl _ \<Rightarrow> Inl (Failed (failure_new ProgramInvalid evidence exceptions))
                | Inr frames \<Rightarrow>
                    Inr \<lparr>pb_address = board_address board,
                          pb_frames = map (\<lambda>(frame_index, frame).
                             \<lparr>pf_frame = frame,
                              pf_launch_bearing = frame_index * 2 + 2 > fst (launch loader)\<rparr>)
                            (enumerate 0 frames)\<rparr>)))"

definition prepare ::
  "assembled_oasm_program \<Rightarrow> runtime_config \<Rightarrow> evidence \<Rightarrow> exceptions
     \<Rightarrow> run_error + prepared_board list" where
  "prepare program config evidence exceptions =
     (case validate_runtime_handoff program config of
        Inl EndpointPanic \<Rightarrow> Inl Panicked
      | Inl _ \<Rightarrow> Inl (Failed (failure_new TopologyInvalid evidence exceptions))
      | Inr _ \<Rightarrow> res_traverse (prepare_board config evidence exceptions) (program_boards program))"

definition advance_submitted :: "evidence \<Rightarrow> oasm_address \<Rightarrow> bool \<Rightarrow> run_error + evidence" where
  "advance_submitted evidence board launch_bearing =
     (let next = (if launch_bearing then LaunchSubmitted else LoaderSubmitted)
      in case evidence board of
           None \<Rightarrow> Inl Panicked
         | Some state \<Rightarrow> Inr (if state < next then evidence(board \<mapsto> next) else evidence))"

definition outbound_packet :: "transport_envelope \<Rightarrow> rtlink_frame \<Rightarrow> wire_packet" where
  "outbound_packet envelope frame =
     \<lparr>pkt_ether_type = env_ether_type envelope, pkt_source_mac = env_source_mac envelope,
      pkt_destination_mac = env_destination_mac envelope,
      pkt_loopback_marker = env_loopback_marker envelope, pkt_payload = frame_encode frame\<rparr>"

text \<open>
  The retry loop of one frame.  \<open>rejected\<close> counts up to the limit; the recursion is on the retries
  that are left.
\<close>

function send_frame ::
  "'s transport_ops \<Rightarrow> wire_packet \<Rightarrow> oasm_address \<Rightarrow> bool \<Rightarrow> nat \<Rightarrow> nat \<Rightarrow> exceptions
     \<Rightarrow> evidence \<Rightarrow> 's \<Rightarrow> (run_error + evidence) \<times> 's" where
  "send_frame ops packet board launch_bearing max_retries rejected exceptions evidence s =
     (case tr_send ops packet s of
        (Inr _, s') \<Rightarrow> (advance_submitted evidence board launch_bearing, s')
      | (Inl NotAccepted, s') \<Rightarrow>
          if rejected < max_retries
          then send_frame ops packet board launch_bearing max_retries (rejected + 1) exceptions evidence s'
          else (Inl (Failed (failure_new TransportSendFailed evidence exceptions)), s')
      | (Inl AcceptanceUnknown, s') \<Rightarrow>
          (res_bind (advance_submitted evidence board launch_bearing)
             (\<lambda>evidence'. Inl (Failed (failure_new TransportSendFailed evidence' exceptions))), s'))"
  by pat_completeness auto
termination
  by (relation "measure (\<lambda>(ops, packet, board, l, max_retries, rejected, ex, ev, s). max_retries - rejected)")
    auto

declare send_frame.simps [simp del]

fun dispatch_frames ::
  "'s transport_ops \<Rightarrow> transport_envelope \<Rightarrow> nat \<Rightarrow> oasm_address \<Rightarrow> exceptions \<Rightarrow> prepared_frame list
     \<Rightarrow> evidence \<Rightarrow> 's \<Rightarrow> (run_error + evidence) \<times> 's" where
  "dispatch_frames ops envelope max_retries board exceptions [] evidence s = (Inr evidence, s)"
| "dispatch_frames ops envelope max_retries board exceptions (f # fs) evidence s =
     (case send_frame ops (outbound_packet envelope (pf_frame f)) board (pf_launch_bearing f)
             max_retries 0 exceptions evidence s of
        (Inl e, s') \<Rightarrow> (Inl e, s')
      | (Inr evidence', s') \<Rightarrow>
          dispatch_frames ops envelope max_retries board exceptions fs evidence' s')"

fun dispatch ::
  "'s transport_ops \<Rightarrow> transport_envelope \<Rightarrow> nat \<Rightarrow> exceptions \<Rightarrow> prepared_board list
     \<Rightarrow> evidence \<Rightarrow> 's \<Rightarrow> (run_error + evidence) \<times> 's" where
  "dispatch ops envelope max_retries exceptions [] evidence s = (Inr evidence, s)"
| "dispatch ops envelope max_retries exceptions (b # bs) evidence s =
     (case dispatch_frames ops envelope max_retries (pb_address b) exceptions (pb_frames b) evidence s of
        (Inl e, s') \<Rightarrow> (Inl e, s')
      | (Inr evidence', s') \<Rightarrow> dispatch ops envelope max_retries exceptions bs evidence' s')"

definition envelope_is_attributable :: "transport_envelope \<Rightarrow> wire_packet \<Rightarrow> bool" where
  "envelope_is_attributable envelope packet \<longleftrightarrow>
     pkt_ether_type packet = env_ether_type envelope
     \<and> pkt_source_mac packet = env_destination_mac envelope
     \<and> pkt_destination_mac packet = env_source_mac envelope
     \<and> pkt_loopback_marker packet \<noteq> env_loopback_marker envelope"

definition board_for_node :: "runtime_config \<Rightarrow> u16 \<Rightarrow> oasm_address option" where
  "board_for_node config node =
     map_option endpoint_address (find (\<lambda>endpoint. endpoint_node endpoint = node) (config_boards config))"

record monitor_state =
  mon_evidence :: evidence
  mon_exceptions :: exceptions
  mon_exception_addresses :: "oasm_address \<rightharpoonup> u32"
  mon_results :: "oasm_address \<rightharpoonup> u32 list"

datatype apply_error =
    AddressAfterTerminal oasm_address
  | FailureAfterSuccess oasm_address
  | SuccessAfterAddress oasm_address
  | SuccessAfterFailure oasm_address
  | DuplicateSuccess oasm_address
  | DataAfterTerminal oasm_address
  | IndexPanic

definition extend_results :: "oasm_address \<Rightarrow> u32 list \<Rightarrow> monitor_state \<Rightarrow> monitor_state" where
  "extend_results board ws st =
     st\<lparr>mon_results := (mon_results st)
         (board \<mapsto> (case mon_results st board of None \<Rightarrow> [] | Some xs \<Rightarrow> xs) @ ws)\<rparr>"

definition apply_download_frame ::
  "u32 \<Rightarrow> u32 \<Rightarrow> oasm_address \<Rightarrow> monitor_state \<Rightarrow> apply_error + monitor_state" where
  "apply_download_frame info word board st =
     (if info = 1 then
        (case mon_evidence st board of
           None \<Rightarrow> Inl IndexPanic
         | Some state \<Rightarrow>
             if is_terminal state then Inl (AddressAfterTerminal board)
             else Inr (st\<lparr>mon_exception_addresses := (mon_exception_addresses st)(board \<mapsto> word)\<rparr>))
      else if info = 0 then
        (case mon_evidence st board of
           None \<Rightarrow> Inl IndexPanic
         | Some state \<Rightarrow>
             if state = Succeeded then Inl (FailureAfterSuccess board)
             else Inr (st\<lparr>mon_evidence := (mon_evidence st)(board \<mapsto> DeviceFailed),
                          mon_exceptions := (mon_exceptions st)(board \<mapsto>
                            \<lparr>exception_flags = word,
                             instruction_address = mon_exception_addresses st board\<rparr>),
                          mon_exception_addresses := (mon_exception_addresses st)(board := None)\<rparr>))
      else Inr (extend_results board [word] st))"

definition apply_operation_frame ::
  "u32 \<times> u32 \<Rightarrow> oasm_address \<Rightarrow> monitor_state \<Rightarrow> apply_error + monitor_state" where
  "apply_operation_frame payload board st =
     (let argument_count = drop_bit 16 (fst payload)
      in if snd payload = 0 \<and> argument_count = 0 then
           (if mon_exception_addresses st board \<noteq> None then Inl (SuccessAfterAddress board)
            else case mon_evidence st board of
                   None \<Rightarrow> Inl IndexPanic
                 | Some state \<Rightarrow>
                     if state = DeviceFailed then Inl (SuccessAfterFailure board)
                     else if state = Succeeded then Inl (DuplicateSuccess board)
                     else Inr (st\<lparr>mon_evidence := (mon_evidence st)(board \<mapsto> Succeeded)\<rparr>))
         else if snd payload \<noteq> 0 then Inr (extend_results board [fst payload, snd payload] st)
         else Inr st)"

definition apply_frame ::
  "runtime_config \<Rightarrow> rtlink_frame \<Rightarrow> monitor_state \<Rightarrow> apply_error + monitor_state" where
  "apply_frame config frame st =
     (let payload = frame_payload frame
      in if frame_flag frame = DOWNLOAD_FLAG then
           (case board_for_node config (ucast (fst payload)) of
              None \<Rightarrow> Inr st
            | Some board \<Rightarrow> apply_download_frame (drop_bit 20 (fst payload)) (snd payload) board st)
         else if frame_tag frame = OPERATION_TAG then
           (case board_for_node config (ucast (fst payload)) of
              None \<Rightarrow> Inr st
            | Some board \<Rightarrow> apply_operation_frame payload board st)
         else
           (case board_for_node config (ucast (frame_tag frame)) of
              None \<Rightarrow> Inr st
            | Some board \<Rightarrow>
                (case mon_evidence st board of
                   None \<Rightarrow> Inl IndexPanic
                 | Some state \<Rightarrow>
                     if is_terminal state then Inl (DataAfterTerminal board)
                     else Inr (extend_results board [fst payload, snd payload] st))))"

definition monitor_failure :: "runtime_failure_code \<Rightarrow> monitor_state \<Rightarrow> run_error" where
  "monitor_failure code st = Failed (failure_new code (mon_evidence st) (mon_exceptions st))"

text \<open>The end of the monitoring loop, reached when every board is terminal.\<close>

definition monitor_outcome :: "monitor_state \<Rightarrow> run_error + runtime_success" where
  "monitor_outcome st =
     (if list_all (\<lambda>board. mon_exceptions st board = None) ALL_addresses then
        (let success = \<lparr>success_schema_version = 1, success_evidence = mon_evidence st,
                         success_results = mon_results st\<rparr>
         in if success_validate success then Inr success else Inl Panicked)
      else
        (let failure = failure_new DeviceException (mon_evidence st) (mon_exceptions st)
         in if failure_validate failure then Inl (Failed failure) else Inl Panicked))"

text \<open>One received packet: skipped, applied, or a violation of the protocol.\<close>

definition monitor_packet ::
  "assembled_oasm_program \<Rightarrow> runtime_config \<Rightarrow> transport_envelope \<Rightarrow> wire_packet \<Rightarrow> monitor_state
     \<Rightarrow> run_error + monitor_state" where
  "monitor_packet program config envelope packet st =
     (if \<not> envelope_is_attributable envelope packet then Inr st
      else case frame_route (pkt_payload packet) of
             None \<Rightarrow> Inr st
           | Some (channel, node) \<Rightarrow>
               if channel \<noteq> program_reply_channel program \<or> node \<noteq> program_reply_node program then Inr st
               else (case frame_decode (pkt_payload packet) of
                       Inl _ \<Rightarrow> Inl (monitor_failure ProtocolViolation st)
                     | Inr frame \<Rightarrow>
                         (case apply_frame config frame st of
                            Inl IndexPanic \<Rightarrow> Inl Panicked
                          | Inl _ \<Rightarrow> Inl (monitor_failure ProtocolViolation st)
                          | Inr st' \<Rightarrow> Inr st')))"

partial_function (option) monitor ::
  "assembled_oasm_program \<Rightarrow> runtime_config \<Rightarrow> instant \<Rightarrow> transport_envelope \<Rightarrow> 's transport_ops
     \<Rightarrow> monitor_state \<Rightarrow> 's \<Rightarrow> ((run_error + runtime_success) \<times> 's) option" where
  "monitor program config deadline envelope ops st s =
     (if list_all is_terminal (map_values (mon_evidence st)) then Some (monitor_outcome st, s)
      else case tr_receive ops deadline s of
             (Inl _, s') \<Rightarrow> Some (Inl (monitor_failure TransportReceiveFailed st), s')
           | (Inr None, s') \<Rightarrow> Some (Inl (monitor_failure CompletionTimeout st), s')
           | (Inr (Some packet), s') \<Rightarrow>
               (case monitor_packet program config envelope packet st of
                  Inl e \<Rightarrow> Some (Inl e, s')
                | Inr st' \<Rightarrow> monitor program config deadline envelope ops st' s'))"

definition initial_evidence :: "assembled_oasm_program \<Rightarrow> evidence" where
  "initial_evidence program =
     map_of (map (\<lambda>board. (board_address board, NotDispatched)) (program_boards program))"

definition execute_with_transport ::
  "(u64 \<Rightarrow> instant option) \<Rightarrow> assembled_oasm_program \<Rightarrow> runtime_config \<Rightarrow> 's transport_ops \<Rightarrow> nat
     \<Rightarrow> 's \<Rightarrow> ((run_error + runtime_success) \<times> 's) option" where
  "execute_with_transport clock program config ops max_retries s =
     (let evidence = initial_evidence program; exceptions = Map.empty
      in case prepare program config evidence exceptions of
           Inl e \<Rightarrow> Some (Inl e, s)
         | Inr prepared \<Rightarrow>
             (case clock (config_timeout_ms config) of
                None \<Rightarrow> Some (Inl (Failed (failure_new TopologyInvalid evidence exceptions)), s)
              | Some deadline \<Rightarrow>
                  (case tr_open ops s of
                     (Inl _, s1) \<Rightarrow>
                       Some (Inl (Failed (failure_new TransportOpenFailed evidence exceptions)), s1)
                   | (Inr envelope, s1) \<Rightarrow>
                       (case dispatch ops envelope max_retries exceptions prepared evidence s1 of
                          (Inl e, s2) \<Rightarrow> Some (Inl e, tr_close ops s2)
                        | (Inr evidence', s2) \<Rightarrow>
                            map_option (\<lambda>(outcome, s3). (outcome, tr_close ops s3))
                              (monitor program config deadline envelope ops
                                 \<lparr>mon_evidence = evidence', mon_exceptions = exceptions,
                                  mon_exception_addresses = Map.empty, mon_results = Map.empty\<rparr> s2)))))"

end
