(* ===== verification/Execution_Soundness.thy ===== *)
theory Execution_Soundness
  imports Runtime_Execution
begin

text \<open>
  Correctness of the execution state machine of \<open>Runtime_Execution\<close>.  The order on evidence, the
  invariant of the monitored state, the step relation of the monitor and what a failed dispatch has
  sent are established first; the lemmas about whole runs are proved once in the locales of
  \<open>Transport\<close> and reach the properties through the interpretation of \<open>in_memory\<close>.
\<close>

section \<open>Evidence\<close>

lemma ALL_addresses_UNIV [simp]: "set ALL_addresses = UNIV"
proof -
  have "a \<in> set ALL_addresses" for a by (cases a) (simp_all add: ALL_addresses_def)
  then show ?thesis by auto
qed

lemma map_values_ran: "set (map_values m) = ran m"
  by (auto simp: map_values_def map_filter_def ran_def image_iff)
     (metis option.sel)

lemma derive_certainty_ran:
  "derive_certainty ev =
     (if LaunchSubmitted \<in> ran ev then Indeterminate
      else if Succeeded \<in> ran ev \<or> DeviceFailed \<in> ran ev then FullyObserved else NotStarted)"
  by (auto simp: derive_certainty_def list_ex_iff map_values_ran)

lemma failure_validate_new:
  "failure_validate (failure_new code ev ex) \<longleftrightarrow>
     (\<forall>b. ex b \<noteq> None \<longrightarrow> ev b = Some DeviceFailed)"
  by (simp add: failure_validate_def failure_new_def list_ex_iff del: not_None_eq) metis

lemma success_validate_iff:
  "success_validate x \<longleftrightarrow> success_schema_version x = 1 \<and> success_evidence x \<noteq> Map.empty
     \<and> ran (success_evidence x) \<subseteq> {Succeeded}"
proof -
  have "map_values m = [] \<longleftrightarrow> m = Map.empty" for m :: evidence
    using map_values_ran [of m] by (cases "\<exists>b x. m b = Some x") (auto simp: ran_def fun_eq_iff)
  then show ?thesis by (auto simp: success_validate_def list_ex_iff map_values_ran)
qed

text \<open>Evidence only ever grows: same boards, and no board moves down.\<close>

definition evidence_le :: "evidence \<Rightarrow> evidence \<Rightarrow> bool" where
  "evidence_le ev ev' \<longleftrightarrow>
     dom ev' = dom ev \<and> (\<forall>b x y. ev b = Some x \<and> ev' b = Some y \<longrightarrow> x \<le> y)"

lemma evidence_le_refl [simp]: "evidence_le ev ev"
  by (auto simp: evidence_le_def)

lemma evidence_le_trans: "evidence_le a b \<Longrightarrow> evidence_le b c \<Longrightarrow> evidence_le a c"
  unfolding evidence_le_def by (metis domI domD order_trans)

lemma evidence_leD: "evidence_le ev ev' \<Longrightarrow> ev b = Some x \<Longrightarrow> \<exists>y. ev' b = Some y \<and> x \<le> y"
  unfolding evidence_le_def by (metis domD domI)

lemma evidence_le_update: "ev b = Some x \<Longrightarrow> x \<le> y \<Longrightarrow> evidence_le ev (ev(b \<mapsto> y))"
  by (auto simp: evidence_le_def)

lemma state_le_simps [simp]:
  "x \<le> DeviceFailed" "NotDispatched \<le> x"
  "x \<le> Succeeded \<longleftrightarrow> x \<noteq> DeviceFailed"
  by (cases x; simp add: less_eq_board_execution_state_def)+

lemma advance_submitted_Some:
  "ev b = Some x \<Longrightarrow> advance_submitted ev b l =
     Inr (ev(b \<mapsto> max x (if l then LaunchSubmitted else LoaderSubmitted)))"
  by (auto simp: advance_submitted_def Let_def max_def fun_upd_idem)

lemma advance_submitted_le:
  "advance_submitted ev b l = Inr ev' \<Longrightarrow> evidence_le ev ev'"
  by (cases "ev b") (auto simp: advance_submitted_Some, auto simp: advance_submitted_def
      intro!: evidence_le_update)

section \<open>Monitoring\<close>

definition monitor_inv :: "monitor_state \<Rightarrow> bool" where
  "monitor_inv st \<longleftrightarrow> (\<forall>b. mon_exceptions st b \<noteq> None \<longleftrightarrow> mon_evidence st b = Some DeviceFailed)"

lemma extend_results_simps [simp]:
  "mon_evidence (extend_results b ws st) = mon_evidence st"
  "mon_exceptions (extend_results b ws st) = mon_exceptions st"
  "mon_exception_addresses (extend_results b ws st) = mon_exception_addresses st"
  by (simp_all add: extend_results_def)

lemma apply_download_frame_step:
  assumes "apply_download_frame info word board st = Inr st'"
  shows "evidence_le (mon_evidence st) (mon_evidence st')" "monitor_inv st \<Longrightarrow> monitor_inv st'"
  using assms
  by (auto simp: apply_download_frame_def monitor_inv_def split: if_splits option.splits
      intro!: evidence_le_update)

lemma apply_operation_frame_step:
  assumes "apply_operation_frame payload board st = Inr st'"
  shows "evidence_le (mon_evidence st) (mon_evidence st')" "monitor_inv st \<Longrightarrow> monitor_inv st'"
  using assms
  by (auto simp: apply_operation_frame_def Let_def monitor_inv_def split: if_splits option.splits
      intro!: evidence_le_update) (metis option.inject option.discI)+

lemma apply_frame_step:
  assumes "apply_frame config frame st = Inr st'"
  shows "evidence_le (mon_evidence st) (mon_evidence st')" "monitor_inv st \<Longrightarrow> monitor_inv st'"
  using assms apply_download_frame_step apply_operation_frame_step
  by (auto simp: apply_frame_def Let_def monitor_inv_def split: if_splits option.splits)


lemma apply_frame_no_panic:
  assumes "ran (board_for_node config) \<subseteq> dom (mon_evidence st)"
  shows "apply_frame config frame st \<noteq> Inl IndexPanic"
proof -
  have known: "\<exists>state. mon_evidence st b = Some state" if "board_for_node config n = Some b" for n b
    using assms that by (auto simp: ran_def)
  have dl: "apply_download_frame i w b st \<noteq> Inl IndexPanic" if "mon_evidence st b = Some state" for i w b state
    using that by (simp add: apply_download_frame_def)
  have op: "apply_operation_frame p b st \<noteq> Inl IndexPanic" if "mon_evidence st b = Some state" for p b state
    using that by (simp add: apply_operation_frame_def Let_def)
  show ?thesis
    unfolding apply_frame_def Let_def
    by (auto dest!: known simp: dl op split: option.split)
qed

lemma monitor_packet_Inr:
  assumes "monitor_packet program config envelope packet st = Inr st'"
  shows "evidence_le (mon_evidence st) (mon_evidence st')" "monitor_inv st \<Longrightarrow> monitor_inv st'"
  using assms apply_frame_step
  by (auto simp: monitor_packet_def split: if_splits option.splits sum.splits prod.splits apply_error.splits)

lemma monitor_packet_Inl:
  assumes "monitor_packet program config envelope packet st = Inl e"
  shows "e = monitor_failure ProtocolViolation st \<or> e = Panicked \<and> (\<exists>frame. apply_frame config frame st = Inl IndexPanic)"
  using assms
  by (auto simp: monitor_packet_def split: if_splits option.splits sum.splits prod.splits apply_error.splits)

text \<open>One accepted packet is a step of the monitored state.\<close>

inductive monitor_step ::
  "assembled_oasm_program \<Rightarrow> runtime_config \<Rightarrow> transport_envelope \<Rightarrow> monitor_state \<Rightarrow> monitor_state \<Rightarrow> bool"
  for program config envelope where
  packet: "\<not> list_all is_terminal (map_values (mon_evidence st)) \<Longrightarrow>
     monitor_packet program config envelope pkt st = Inr st' \<Longrightarrow>
     monitor_step program config envelope st st'"

inductive_cases monitor_stepE: "monitor_step program config envelope st st'"

abbreviation monitor_reach ::
  "assembled_oasm_program \<Rightarrow> runtime_config \<Rightarrow> transport_envelope \<Rightarrow> monitor_state \<Rightarrow> monitor_state \<Rightarrow> bool" where
  "monitor_reach program config envelope \<equiv> (monitor_step program config envelope)\<^sup>*\<^sup>*"

lemma monitor_reach_inv:
  assumes "monitor_reach program config envelope st st'" "monitor_inv st"
  shows "monitor_inv st' \<and> evidence_le (mon_evidence st) (mon_evidence st')"
  using assms
proof (induction rule: rtranclp_induct)
  case (step y z)
  then show ?case
    using monitor_packet_Inr evidence_le_trans by (meson monitor_stepE)
qed simp

lemma terminal_final:
  assumes "mon_evidence st b = Some x" "is_terminal x"
  shows "apply_download_frame i w c st = Inr st' \<Longrightarrow> mon_evidence st' b = Some x"
    and "apply_operation_frame p c st = Inr st' \<Longrightarrow> mon_evidence st' b = Some x"
  using assms
  by (auto simp: apply_download_frame_def apply_operation_frame_def Let_def is_terminal_def
      split: if_splits option.splits)

lemma apply_frame_terminal:
  assumes "apply_frame config frame st = Inr st'" "mon_evidence st b = Some x" "is_terminal x"
  shows "mon_evidence st' b = Some x"
  using assms terminal_final [OF assms(2,3)]
  by (auto simp: apply_frame_def Let_def split: if_splits option.splits)

text \<open>How the monitor can end in the state \<open>st\<close>.\<close>

definition monitor_end :: "runtime_config \<Rightarrow> monitor_state \<Rightarrow> run_error + runtime_success \<Rightarrow> bool" where
  "monitor_end config st r \<longleftrightarrow>
     list_all is_terminal (map_values (mon_evidence st)) \<and> r = monitor_outcome st
     \<or> (\<exists>code \<in> {TransportReceiveFailed, CompletionTimeout, ProtocolViolation}.
          r = Inl (monitor_failure code st))
     \<or> r = Inl Panicked \<and> (\<exists>frame. apply_frame config frame st = Inl IndexPanic)"

lemma monitor_result:
  assumes "monitor program config deadline envelope ops st s = Some y"
  shows "\<exists>st'. monitor_reach program config envelope st st' \<and> monitor_end config st' (fst y)"
proof (rule monitor.raw_induct [OF _ assms])
  fix mon :: "assembled_oasm_program \<Rightarrow> runtime_config \<Rightarrow> instant \<Rightarrow> transport_envelope \<Rightarrow> 'a transport_ops
     \<Rightarrow> monitor_state \<Rightarrow> 'a \<Rightarrow> ((run_error + runtime_success) \<times> 'a) option"
  fix program config deadline envelope ops st s y
  assume IH: "\<And>program config deadline envelope ops st s y.
      mon program config deadline envelope ops st s = Some y \<Longrightarrow>
      \<exists>st'. monitor_reach program config envelope st st' \<and> monitor_end config st' (fst y)"
    and body: "(if list_all is_terminal (map_values (mon_evidence st)) then Some (monitor_outcome st, s)
      else case tr_receive ops deadline s of
             (Inl _, s') \<Rightarrow> Some (Inl (monitor_failure TransportReceiveFailed st), s')
           | (Inr None, s') \<Rightarrow> Some (Inl (monitor_failure CompletionTimeout st), s')
           | (Inr (Some packet), s') \<Rightarrow>
               (case monitor_packet program config envelope packet st of
                  Inl e \<Rightarrow> Some (Inl e, s')
                | Inr st' \<Rightarrow> mon program config deadline envelope ops st' s')) = Some y"
  show "\<exists>st'. monitor_reach program config envelope st st' \<and> monitor_end config st' (fst y)"
  proof (cases "\<exists>packet st' s'. \<not> list_all is_terminal (map_values (mon_evidence st))
      \<and> tr_receive ops deadline s = (Inr (Some packet), s')
      \<and> monitor_packet program config envelope packet st = Inr st'")
    case True
    then obtain packet st' s' where p: "\<not> list_all is_terminal (map_values (mon_evidence st))"
      "tr_receive ops deadline s = (Inr (Some packet), s')"
      "monitor_packet program config envelope packet st = Inr st'" by blast
    from p body have "mon program config deadline envelope ops st' s' = Some y" by simp
    from IH [OF this] obtain st'' where "monitor_reach program config envelope st' st''"
      "monitor_end config st'' (fst y)" by blast
    moreover have "monitor_step program config envelope st st'" using p by (intro packet)
    ultimately show ?thesis by (meson converse_rtranclp_into_rtranclp)
  next
    case False
    then have "monitor_end config st (fst y)"
      using body monitor_packet_Inl [of program config envelope _ st]
      by (fastforce simp: monitor_end_def split: if_splits prod.splits sum.splits option.splits)
    then show ?thesis by blast
  qed
qed

section \<open>Dispatch\<close>

text \<open>
  The frames in the order in which they are sent: board, packet and whether the frame carries a word
  of the launch section; and the evidence after a prefix of them.
\<close>

type_synonym planned_frame = "oasm_address \<times> wire_packet \<times> bool"

definition planned :: "transport_envelope \<Rightarrow> prepared_board list \<Rightarrow> planned_frame list" where
  "planned envelope bs = concat (map (\<lambda>b. map (\<lambda>f.
     (pb_address b, outbound_packet envelope (pf_frame f), pf_launch_bearing f)) (pb_frames b)) bs)"

fun submitted :: "evidence \<Rightarrow> planned_frame list \<Rightarrow> evidence" where
  "submitted ev [] = ev"
| "submitted ev ((b, p, l) # xs) =
     submitted (case advance_submitted ev b l of Inl _ \<Rightarrow> ev | Inr ev' \<Rightarrow> ev') xs"

fun dispatch_flat ::
  "'s transport_ops \<Rightarrow> nat \<Rightarrow> exceptions \<Rightarrow> planned_frame list \<Rightarrow> evidence \<Rightarrow> 's
     \<Rightarrow> (run_error + evidence) \<times> 's" where
  "dispatch_flat ops max_retries exceptions [] evidence s = (Inr evidence, s)"
| "dispatch_flat ops max_retries exceptions ((b, p, l) # xs) evidence s =
     (case send_frame ops p b l max_retries 0 exceptions evidence s of
        (Inl e, s') \<Rightarrow> (Inl e, s')
      | (Inr evidence', s') \<Rightarrow> dispatch_flat ops max_retries exceptions xs evidence' s')"

text \<open>
  How dispatch can fail: at the frame after \<open>pre\<close>, either rejected for good (it was not taken) or of
  unknown acceptance (it may have been taken, and the evidence counts it).
\<close>

definition dispatch_cut ::
  "planned_frame list \<Rightarrow> evidence \<Rightarrow> exceptions \<Rightarrow> run_error \<Rightarrow> planned_frame list \<Rightarrow> bool" where
  "dispatch_cut xs ev ex e taken \<longleftrightarrow> (\<exists>pre x post. xs = pre @ x # post
     \<and> (e = Failed (failure_new TransportSendFailed (submitted ev pre) ex) \<and> taken = pre
        \<or> e = Failed (failure_new TransportSendFailed (submitted ev (pre @ [x])) ex)
            \<and> taken \<in> {pre, pre @ [x]}))"

lemma dispatch_cut_Cons:
  assumes "\<And>zs. submitted ev (y # zs) = submitted ev1 zs" "dispatch_cut ys ev1 ex e taken"
  shows "dispatch_cut (y # ys) ev ex e (y # taken)"
proof -
  from assms(2) obtain pre x post where ys: "ys = pre @ x # post"
    and "e = Failed (failure_new TransportSendFailed (submitted ev1 pre) ex) \<and> taken = pre
        \<or> e = Failed (failure_new TransportSendFailed (submitted ev1 (pre @ [x])) ex)
            \<and> taken \<in> {pre, pre @ [x]}"
    unfolding dispatch_cut_def by blast
  then have "e = Failed (failure_new TransportSendFailed (submitted ev (y # pre)) ex) \<and> y # taken = y # pre
        \<or> e = Failed (failure_new TransportSendFailed (submitted ev ((y # pre) @ [x])) ex)
            \<and> y # taken \<in> {y # pre, (y # pre) @ [x]}"
    by (auto simp: assms(1))
  then show ?thesis unfolding dispatch_cut_def ys by (intro exI [of _ "y # pre"] exI) simp
qed

lemma dispatch_flat_append:
  "dispatch_flat ops max_retries ex (xs @ ys) ev s =
     (case dispatch_flat ops max_retries ex xs ev s of
        (Inl e, s') \<Rightarrow> (Inl e, s')
      | (Inr ev', s') \<Rightarrow> dispatch_flat ops max_retries ex ys ev' s')"
  by (induction ops max_retries ex xs ev s rule: dispatch_flat.induct) (auto split: prod.splits sum.splits)

lemma dispatch_frames_flat:
  "dispatch_frames ops envelope max_retries board ex fs ev s =
     dispatch_flat ops max_retries ex
       (map (\<lambda>f. (board, outbound_packet envelope (pf_frame f), pf_launch_bearing f)) fs) ev s"
  by (induction fs arbitrary: ev s) (auto split: prod.splits sum.splits)

lemma dispatch_is_flat:
  "dispatch ops envelope max_retries ex bs ev s = dispatch_flat ops max_retries ex (planned envelope bs) ev s"
  by (induction bs arbitrary: ev s)
    (auto simp: planned_def dispatch_frames_flat dispatch_flat_append split: prod.splits sum.splits)

lemma submitted_append: "submitted ev (xs @ ys) = submitted (submitted ev xs) ys"
  by (induction ev xs rule: submitted.induct) auto

lemma submitted_le: "evidence_le ev (submitted ev xs)"
proof (induction ev xs rule: submitted.induct)
  case (2 ev b p l xs)
  let ?next = "case advance_submitted ev b l of Inl _ \<Rightarrow> ev | Inr ev' \<Rightarrow> ev'"
  have "evidence_le ev ?next" by (auto split: sum.split intro: advance_submitted_le)
  moreover have "evidence_le ?next (submitted ?next xs)" by (rule 2)
  ultimately have "evidence_le ev (submitted ?next xs)" by (rule evidence_le_trans)
  then show ?case by simp
qed simp

lemma submitted_launch:
  assumes "(b, p, True) \<in> set xs" "b \<in> dom ev"
  shows "\<exists>x. submitted ev xs b = Some x \<and> LaunchSubmitted \<le> x"
proof -
  from assms(1) obtain ys zs where xs: "xs = ys @ (b, p, True) # zs" by (meson split_list)
  let ?ev = "submitted ev ys"
  from assms(2) submitted_le [of ev ys] obtain y where y: "?ev b = Some y"
    using evidence_leD [of ev "submitted ev ys" b] by auto
  have "submitted ev xs = submitted (?ev(b \<mapsto> max y LaunchSubmitted)) zs"
    by (simp add: xs submitted_append advance_submitted_Some [where x = y] y)
  with submitted_le [of "?ev(b \<mapsto> max y LaunchSubmitted)" zs]
  have le: "evidence_le (?ev(b \<mapsto> max y LaunchSubmitted)) (submitted ev xs)" by simp
  from evidence_leD [OF this, of b] show ?thesis by auto
qed

lemma submitted_not_terminal:
  assumes "\<forall>b x. ev b = Some x \<longrightarrow> x \<le> LaunchSubmitted" "submitted ev xs b = Some x"
  shows "x \<le> LaunchSubmitted"
  using assms
proof (induction ev xs rule: submitted.induct)
  case (2 ev b' p l xs)
  have "\<forall>b x. (case advance_submitted ev b' l of Inl _ \<Rightarrow> ev | Inr ev' \<Rightarrow> ev') b = Some x \<longrightarrow> x \<le> LaunchSubmitted"
    using 2(2) by (cases "ev b'") (auto simp: advance_submitted_def advance_submitted_Some
        less_eq_board_execution_state_def)
  with 2 show ?case by simp
qed simp

context logged_transport
begin

lemma monitor_log:
  assumes "monitor program config deadline envelope ops st s = Some y"
  shows "log (snd y) = log s"
proof -
  have "ops' = ops \<longrightarrow> log (snd y) = log s"
    if "monitor program config deadline envelope ops' st s = Some y" for ops'
  proof (rule monitor.raw_induct [OF _ that, where P = "\<lambda>_ _ _ _ ops' _ s y. ops' = ops \<longrightarrow> log (snd y) = log s"])
    fix mon :: "assembled_oasm_program \<Rightarrow> runtime_config \<Rightarrow> instant \<Rightarrow> transport_envelope \<Rightarrow> 's transport_ops
       \<Rightarrow> monitor_state \<Rightarrow> 's \<Rightarrow> ((run_error + runtime_success) \<times> 's) option"
    fix program config deadline envelope ops' st s y
    assume IH: "\<And>program config deadline envelope ops' st s y.
        mon program config deadline envelope ops' st s = Some y \<Longrightarrow> ops' = ops \<longrightarrow> log (snd y) = log s"
      and body: "(if list_all is_terminal (map_values (mon_evidence st)) then Some (monitor_outcome st, s)
        else case tr_receive ops' deadline s of
             (Inl _, s') \<Rightarrow> Some (Inl (monitor_failure TransportReceiveFailed st), s')
           | (Inr None, s') \<Rightarrow> Some (Inl (monitor_failure CompletionTimeout st), s')
           | (Inr (Some packet), s') \<Rightarrow>
               (case monitor_packet program config envelope packet st of
                  Inl e \<Rightarrow> Some (Inl e, s')
                | Inr st' \<Rightarrow> mon program config deadline envelope ops' st' s')) = Some y"
    obtain t s1 where t: "tr_receive ops deadline s = (t, s1)" by fastforce
    then have "log s1 = log s" by (rule receive_log)
    with body t show "ops' = ops \<longrightarrow> log (snd y) = log s"
      by (auto split: if_splits sum.splits option.splits dest!: IH)
  qed
  with assms show ?thesis by simp
qed

lemma send_frame_log:
  assumes "send_frame ops p b l max_retries rejected ex ev s = (r, s')" and "ev b = Some x"
  shows "(\<exists>ev'. r = Inr ev' \<and> advance_submitted ev b l = Inr ev' \<and> log s' = log s @ [p])
       \<or> (r = Inl (Failed (failure_new TransportSendFailed ev ex)) \<and> log s' = log s)
       \<or> (\<exists>ev'. advance_submitted ev b l = Inr ev' \<and> r = Inl (Failed (failure_new TransportSendFailed ev' ex))
            \<and> (log s' = log s \<or> log s' = log s @ [p]))"
  using assms
proof (induction "max_retries - rejected" arbitrary: rejected s)
  case 0
  then show ?case
    by (subst (asm) send_frame.simps)
      (auto simp: advance_submitted_Some split: prod.splits sum.splits send_rejection.splits
        dest: send_ok send_not_accepted send_unknown)
next
  case (Suc k)
  then have k: "k = max_retries - (rejected + 1)" and less: "rejected < max_retries" by simp_all
  obtain t s1 where t: "tr_send ops p s = (t, s1)" by fastforce
  note step = Suc.prems(1) [unfolded send_frame.simps [of ops p b l max_retries rejected] t]
  consider (ok) "t = Inr ()" | (rej) "t = Inl NotAccepted" | (unk) "t = Inl AcceptanceUnknown"
    by (cases t) (auto, metis send_rejection.exhaust)
  then show ?case
  proof cases
    case ok
    then show ?thesis using step t Suc.prems(2) by (auto simp: advance_submitted_Some dest: send_ok)
  next
    case rej
    with step less have "send_frame ops p b l max_retries (rejected + 1) ex ev s1 = (r, s')" by simp
    from Suc.hyps(1) [OF k this Suc.prems(2)] send_not_accepted [of p s s1] t rej show ?thesis by simp
  next
    case unk
    then show ?thesis using step t Suc.prems(2) send_unknown [of p s s1]
      by (auto simp: advance_submitted_Some)
  qed
qed

lemma dispatch_flat_log:
  assumes "dispatch_flat ops max_retries ex xs ev s = (r, s')" and "fst ` set xs \<subseteq> dom ev"
  shows "r = Inr (submitted ev xs) \<and> log s' = log s @ map (fst \<circ> snd) xs
     \<or> (\<exists>e taken. r = Inl e \<and> dispatch_cut xs ev ex e taken \<and> log s' = log s @ map (fst \<circ> snd) taken)"
  using assms
proof (induction xs arbitrary: ev s)
  case (Cons y ys)
  obtain b p l where y: "y = (b, p, l)" by (cases y)
  from Cons.prems(2) y obtain st where st: "ev b = Some st" by auto
  obtain t s1 where t: "send_frame ops p b l max_retries 0 ex ev s = (t, s1)" by fastforce
  define ev1 where "ev1 = ev(b \<mapsto> max st (if l then LaunchSubmitted else LoaderSubmitted))"
  have adv: "advance_submitted ev b l = Inr ev1" unfolding ev1_def using st by (rule advance_submitted_Some)
  have sub: "submitted ev (y # zs) = submitted ev1 zs" for zs by (simp add: y adv)
  from send_frame_log [OF t st] consider
      (ok) "t = Inr ev1" "log s1 = log s @ [p]"
    | (rej) "t = Inl (Failed (failure_new TransportSendFailed ev ex))" "log s1 = log s"
    | (unk) "t = Inl (Failed (failure_new TransportSendFailed ev1 ex))"
        "log s1 = log s \<or> log s1 = log s @ [p]"
    by (auto simp: adv)
  then show ?case
  proof cases
    case ok
    with Cons.prems(1) t y have "dispatch_flat ops max_retries ex ys ev1 s1 = (r, s')" by simp
    moreover have "fst ` set ys \<subseteq> dom ev1" using Cons.prems(2) by (auto simp: ev1_def)
    ultimately consider
        (all) "r = Inr (submitted ev1 ys)" "log s' = log s1 @ map (fst \<circ> snd) ys"
      | (part) e taken where "r = Inl e" "dispatch_cut ys ev1 ex e taken"
          "log s' = log s1 @ map (fst \<circ> snd) taken"
      using Cons.IH [of ev1 s1] by blast
    then show ?thesis
    proof cases
      case all
      then show ?thesis using ok(2) by (simp add: sub y adv)
    next
      case part
      then show ?thesis using ok(2) dispatch_cut_Cons [OF sub part(2)]
        by (intro disjI2 exI [of _ e] exI [of _ "y # taken"]) (simp add: y)
    qed
  next
    case rej
    then have "r = Inl (Failed (failure_new TransportSendFailed (submitted ev []) ex))" "log s' = log s"
      using Cons.prems(1) t y by simp_all
    moreover have
      "dispatch_cut (y # ys) ev ex (Failed (failure_new TransportSendFailed (submitted ev []) ex)) []"
      unfolding dispatch_cut_def by (intro exI [of _ "[]"] exI [of _ y] exI [of _ ys]) simp
    ultimately show ?thesis by auto
  next
    case unk
    then have "r = Inl (Failed (failure_new TransportSendFailed (submitted ev [y]) ex))" "s' = s1"
      using Cons.prems(1) t y adv by simp_all
    moreover from unk(2) have "\<exists>taken. taken \<in> {[], [y]} \<and> log s1 = log s @ map (fst \<circ> snd) taken"
    proof
      assume "log s1 = log s" then show ?thesis by (intro exI [of _ "[]"]) simp
    next
      assume "log s1 = log s @ [p]" then show ?thesis by (intro exI [of _ "[y]"]) (simp add: y)
    qed
    then obtain taken where "taken \<in> {[], [y]}" "log s1 = log s @ map (fst \<circ> snd) taken" by blast
    moreover from this(1) have
      "dispatch_cut (y # ys) ev ex (Failed (failure_new TransportSendFailed (submitted ev [y]) ex)) taken"
      unfolding dispatch_cut_def by (intro exI [of _ "[]"] exI [of _ y] exI [of _ ys]) simp
    ultimately show ?thesis by blast
  qed
qed simp

end

section \<open>Preparation\<close>

text \<open>What the constructors of the two inputs guarantee.\<close>

definition runtime_inputs :: "assembled_oasm_program \<Rightarrow> runtime_config \<Rightarrow> bool" where
  "runtime_inputs program config \<longleftrightarrow> program_inv program \<and> config_inv config
     \<and> (\<forall>e\<in>set (config_boards config). endpoint_channel e \<le> RTLINK_CHANNEL_MAX)"

lemma dom_initial_evidence: "dom (initial_evidence program) = board_address ` set (program_boards program)"
  by (auto simp: initial_evidence_def dom_map_of_conv_image_fst image_image)

lemma initial_evidence_NotDispatched: "initial_evidence program b = Some x \<Longrightarrow> x = NotDispatched"
  by (auto simp: initial_evidence_def dest: map_of_SomeD)

lemma initial_certainty: "derive_certainty (initial_evidence program) = NotStarted"
  by (auto simp: derive_certainty_ran ran_def dest: initial_evidence_NotDispatched)

lemma prepare_board_Inr:
  assumes "prepare_board config ev ex board = Inr pb"
  obtains endpoint loader frames where
    "find_endpoint config (board_address board) = Some endpoint"
    "materialize_download_loader (board_ich_words board)
       \<lparr>instruction_capacity_words = endpoint_capacity endpoint,
        exception_handler_word = board_exception_handler_word board\<rparr> = Inr loader"
    "encode_word_stream DOWNLOAD_FLAG (endpoint_channel endpoint) (endpoint_node endpoint) DOWNLOAD_TAG
       (loader_words loader) = Inr frames"
    "pb = \<lparr>pb_address = board_address board, pb_frames = map (\<lambda>(i, frame).
         \<lparr>pf_frame = frame, pf_launch_bearing = i * 2 + 2 > fst (launch loader)\<rparr>) (enumerate 0 frames)\<rparr>"
  using assms that unfolding prepare_board_def
  by (auto split: option.splits sum.splits download_loader_error.splits)

lemma prepare_board_total:
  assumes "find_endpoint config (board_address board) = Some endpoint"
    and "endpoint_channel endpoint \<le> RTLINK_CHANNEL_MAX"
  shows "(\<exists>pb. prepare_board config ev ex board = Inr pb)
     \<or> prepare_board config ev ex board = Inl (Failed (failure_new TopologyInvalid ev ex))"
proof -
  have "encode_word_stream DOWNLOAD_FLAG (endpoint_channel endpoint) n DOWNLOAD_TAG ws \<noteq> Inl e" for n ws e
    using word_stream_total [of DOWNLOAD_FLAG "endpoint_channel endpoint" DOWNLOAD_TAG n ws] assms(2)
    by (auto simp: DOWNLOAD_FLAG_def DOWNLOAD_TAG_def CHANNEL_MAX_def RTLINK_CHANNEL_MAX_def)
  then show ?thesis
    using assms(1) materialize_no_panic
    by (auto simp: prepare_board_def split: sum.splits download_loader_error.splits)
qed

lemma prepare_total:
  assumes "runtime_inputs program config"
  shows "(\<exists>bs. prepare program config ev ex = Inr bs)
     \<or> prepare program config ev ex = Inl (Failed (failure_new TopologyInvalid ev ex))"
proof (cases "validate_runtime_handoff program config")
  case (Inl e)
  then show ?thesis using validate_handoff_Inl [OF Inl] by (auto simp: prepare_def)
next
  case (Inr u)
  then have ok: "handoff_ok program config" using validate_handoff_iff by simp
  have "(\<exists>pb. prepare_board config ev ex b = Inr pb)
      \<or> prepare_board config ev ex b = Inl (Failed (failure_new TopologyInvalid ev ex))"
    if "b \<in> set (program_boards program)" for b
  proof -
    from ok that obtain e where e: "find_endpoint config (board_address b) = Some e"
      unfolding handoff_ok_def by blast
    moreover have "endpoint_channel e \<le> RTLINK_CHANNEL_MAX"
      using find_endpoint_Some [OF e] assms by (auto simp: runtime_inputs_def)
    ultimately show ?thesis by (rule prepare_board_total)
  qed
  then have "(\<exists>bs. res_traverse (prepare_board config ev ex) xs = Inr bs)
      \<or> res_traverse (prepare_board config ev ex) xs = Inl (Failed (failure_new TopologyInvalid ev ex))"
    if "set xs \<subseteq> set (program_boards program)" for xs
    using that by (induction xs) fastforce+
  with Inr show ?thesis by (simp add: prepare_def)
qed

lemma prepare_Inr:
  assumes "prepare program config ev ex = Inr bs"
  shows "handoff_ok program config"
    and "list_all2 (\<lambda>board pb. prepare_board config ev ex board = Inr pb) (program_boards program) bs"
  using assms validate_handoff_iff [of program config]
  by (auto simp: prepare_def res_traverse_Inr_iff split: sum.splits runtime_contract_error_code.splits)

lemma board_for_node_known:
  assumes "handoff_ok program config"
  shows "ran (board_for_node config) \<subseteq> dom (initial_evidence program)"
  unfolding dom_initial_evidence
proof
  fix b assume "b \<in> ran (board_for_node config)"
  then obtain e where "e \<in> set (config_boards config)" "b = endpoint_address e"
    by (auto simp: ran_def board_for_node_def find_Some_iff intro: nth_mem)
  with assms show "b \<in> board_address ` set (program_boards program)"
    by (auto simp: handoff_ok_def image_iff) metis
qed


lemma prepared_addresses:
  assumes "prepare program config ev ex = Inr bs"
  shows "map pb_address bs = map board_address (program_boards program)"
  using prepare_Inr(2) [OF assms]
proof (induction rule: list_all2_induct)
  case (Cons b bs' p ps)
  then show ?case by (auto elim: prepare_board_Inr)
qed simp

lemma prepared_board_launch:
  assumes "prepare_board config ev ex board = Inr b"
  shows "\<exists>f\<in>set (pb_frames b). pf_launch_bearing f"
proof -
  from assms obtain endpoint loader frames where
    "find_endpoint config (board_address board) = Some endpoint"
    and m: "materialize_download_loader (board_ich_words board)
       \<lparr>instruction_capacity_words = endpoint_capacity endpoint,
        exception_handler_word = board_exception_handler_word board\<rparr> = Inr loader"
    and e: "encode_word_stream DOWNLOAD_FLAG (endpoint_channel endpoint) (endpoint_node endpoint)
        DOWNLOAD_TAG (loader_words loader) = Inr frames"
    and b: "b = \<lparr>pb_address = board_address board, pb_frames = map (\<lambda>(i, frame).
         \<lparr>pf_frame = frame, pf_launch_bearing = i * 2 + 2 > fst (launch loader)\<rparr>) (enumerate 0 frames)\<rparr>"
    by (rule prepare_board_Inr)
  define i where "i = length frames - 1"
  have len: "length frames = (14 + 3 * length (board_ich_words board)) div 2"
    using word_stream_nth(1) [OF e] materialize_Inr(3) [OF m] by simp
  then have "i < length frames" "i * 2 + 2 > fst (launch loader)"
    using materialize_Inr(2) [OF m] by (auto simp: i_def)
  then have "pf_launch_bearing (pb_frames b ! i)" and "pb_frames b ! i \<in> set (pb_frames b)"
    by (simp add: b nth_enumerate_eq, intro nth_mem, simp add: b)
  then show ?thesis by blast
qed

lemma prepared_launch:
  assumes "prepare program config ev ex = Inr bs" "b \<in> set bs"
  shows "\<exists>f\<in>set (pb_frames b). pf_launch_bearing f"
proof -
  from prepare_Inr(2) [OF assms(1)] assms(2) obtain board where
    "prepare_board config ev ex board = Inr b" by (auto simp: list_all2_conv_all_nth in_set_conv_nth)
  then show ?thesis by (rule prepared_board_launch)
qed

lemma planned_addresses: "fst ` set (planned envelope bs) \<subseteq> pb_address ` set bs"
  by (auto simp: planned_def)

lemma prepared_in_evidence:
  assumes "prepare program config ev ex = Inr bs"
  shows "fst ` set (planned envelope bs) \<subseteq> dom (initial_evidence program)"
proof -
  have "pb_address ` set bs = board_address ` set (program_boards program)"
    using arg_cong [OF prepared_addresses [OF assms], of set] by simp
  then show ?thesis using planned_addresses [of envelope bs] by (simp add: dom_initial_evidence)
qed

lemma all_launched:
  assumes "prepare program config ev ex = Inr bs"
  shows "submitted (initial_evidence program) (planned envelope bs) b
    = (if b \<in> board_address ` set (program_boards program) then Some LaunchSubmitted else None)"
proof -
  let ?ev = "initial_evidence program" and ?plan = "planned envelope bs"
  have d: "dom (submitted ?ev ?plan) = board_address ` set (program_boards program)"
    using submitted_le [of ?ev ?plan] by (simp add: evidence_le_def dom_initial_evidence)
  have "submitted ?ev ?plan b = Some LaunchSubmitted" if b: "b \<in> board_address ` set (program_boards program)"
  proof -
    from b arg_cong [OF prepared_addresses [OF assms], of set] have "b \<in> pb_address ` set bs" by simp
    then obtain pb where pb: "pb \<in> set bs" "pb_address pb = b" by blast
    from prepared_launch [OF assms this(1)] obtain f where "f \<in> set (pb_frames pb)" "pf_launch_bearing f" ..
    with pb have "(b, outbound_packet envelope (pf_frame f), True) \<in> set ?plan"
      by (force simp: planned_def)
    from submitted_launch [OF this, of ?ev] b obtain x where
      x: "submitted ?ev ?plan b = Some x" "LaunchSubmitted \<le> x" by (auto simp: dom_initial_evidence)
    moreover have "x \<le> LaunchSubmitted"
      by (rule submitted_not_terminal [OF _ x(1)])
        (auto dest: initial_evidence_NotDispatched)
    ultimately show ?thesis by simp
  qed
  then show ?thesis using d by (auto simp: domIff)
qed

definition launched_state :: "assembled_oasm_program \<Rightarrow> monitor_state" where
  "launched_state program =
     \<lparr>mon_evidence = (\<lambda>b. if b \<in> board_address ` set (program_boards program)
                      then Some LaunchSubmitted else None),
      mon_exceptions = Map.empty, mon_exception_addresses = Map.empty, mon_results = Map.empty\<rparr>"

lemma launched_state_inv: "monitor_inv (launched_state program)"
  by (simp add: monitor_inv_def launched_state_def)

context logged_transport
begin

lemma execute_cases:
  assumes "execute_with_transport clock program config ops max_retries s = Some (r, s')"
  shows "(\<exists>e. prepare program config (initial_evidence program) Map.empty = Inl e \<and> r = Inl e \<and> s' = s)
   \<or> (\<exists>code. r = Inl (Failed (failure_new code (initial_evidence program) Map.empty)) \<and> log s' = log s)
   \<or> (\<exists>bs envelope e taken.
        prepare program config (initial_evidence program) Map.empty = Inr bs
        \<and> dispatch_cut (planned envelope bs) (initial_evidence program) Map.empty e taken \<and> r = Inl e
        \<and> log s' = log s @ map (fst \<circ> snd) taken)
   \<or> (\<exists>bs envelope st'.
        prepare program config (initial_evidence program) Map.empty = Inr bs
        \<and> monitor_reach program config envelope (launched_state program) st'
        \<and> monitor_end config st' r
        \<and> log s' = log s @ map (fst \<circ> snd) (planned envelope bs))"
proof (cases "prepare program config (initial_evidence program) Map.empty")
  case (Inl e)
  then show ?thesis using assms by (simp add: execute_with_transport_def)
next
  case (Inr bs)
  show ?thesis
  proof (cases "clock (config_timeout_ms config)")
    case None
    then show ?thesis using assms Inr by (auto simp: execute_with_transport_def)
  next
    case (Some deadline)
    obtain t s1 where open': "tr_open ops s = (t, s1)" by fastforce
    then have log1: "log s1 = log s" by (rule open_log)
    show ?thesis
    proof (cases t)
      case (Inl e)
      then show ?thesis using assms \<open>prepare _ _ _ _ = _\<close> Some open' log1
        by (auto simp: execute_with_transport_def)
    next
      case (Inr envelope)
      let ?plan = "planned envelope bs"
      obtain d s2 where disp: "dispatch ops envelope max_retries Map.empty bs (initial_evidence program) s1
          = (d, s2)" by fastforce
      then have flat: "dispatch_flat ops max_retries Map.empty ?plan (initial_evidence program) s1 = (d, s2)"
        by (simp add: dispatch_is_flat)
      note exec = assms [unfolded execute_with_transport_def Let_def \<open>prepare _ _ _ _ = _\<close> sum.case
          Some option.case open' Inr prod.case disp]
      from dispatch_flat_log [OF flat prepared_in_evidence [OF \<open>prepare _ _ _ _ = _\<close>]]
      show ?thesis
      proof (elim disjE exE conjE)
        assume d: "d = Inr (submitted (initial_evidence program) ?plan)"
          and log2: "log s2 = log s1 @ map (fst \<circ> snd) ?plan"
        have "submitted (initial_evidence program) ?plan = mon_evidence (launched_state program)"
          using all_launched [OF \<open>prepare _ _ _ _ = _\<close>] by (simp add: launched_state_def fun_eq_iff)
        then have st: "\<lparr>mon_evidence = submitted (initial_evidence program) ?plan, mon_exceptions = Map.empty,
            mon_exception_addresses = Map.empty, mon_results = Map.empty\<rparr> = launched_state program"
          by (simp add: launched_state_def)
        from exec obtain s3 where mon: "monitor program config deadline envelope ops (launched_state program) s2
            = Some (r, s3)" "s' = tr_close ops s3"
          by (auto simp: d st)
        from monitor_result [OF mon(1)] monitor_log [OF mon(1)] close_log [of s3] log1 log2 mon(2)
        show ?thesis using \<open>prepare _ _ _ _ = _\<close> by auto
      next
        fix e taken
        assume "d = Inl e" "dispatch_cut ?plan (initial_evidence program) Map.empty e taken"
          "log s2 = log s1 @ map (fst \<circ> snd) taken"
        moreover from this(1) exec have "r = Inl e" "s' = tr_close ops s2" by simp_all
        ultimately show ?thesis using log1 close_log [of s2] \<open>prepare _ _ _ _ = _\<close> by auto
      qed
    qed
  qed
qed

lemma execute_success:
  assumes "execute_with_transport clock program config ops max_retries s = Some (Inr success, s')"
  shows "success_validate success"
    and "success_evidence success
      = (\<lambda>b. if b \<in> board_address ` set (program_boards program) then Some Succeeded else None)"
    and "\<exists>bs envelope. prepare program config (initial_evidence program) Map.empty = Inr bs
      \<and> log s' = log s @ map (fst \<circ> snd) (planned envelope bs)"
proof -
  from execute_cases [OF assms] obtain bs envelope st' where
    p: "prepare program config (initial_evidence program) Map.empty = Inr bs"
    and reach: "monitor_reach program config envelope (launched_state program) st'"
    and e: "monitor_end config st' (Inr success)"
    and l: "log s' = log s @ map (fst \<circ> snd) (planned envelope bs)"
    by (auto simp: dispatch_cut_def)
  from e have o: "monitor_outcome st' = Inr success" by (auto simp: monitor_end_def)
  then have s: "success_validate success" "success_evidence success = mon_evidence st'"
    by (auto simp: monitor_outcome_def Let_def split: if_splits)
  show "success_validate success" by (rule s(1))
  have "evidence_le (mon_evidence (launched_state program)) (mon_evidence st')"
    using monitor_reach_inv [OF reach launched_state_inv] by blast
  then have "dom (mon_evidence st') = board_address ` set (program_boards program)"
    by (auto simp: evidence_le_def launched_state_def dom_def)
  moreover have "ran (mon_evidence st') \<subseteq> {Succeeded}" using s by (simp add: success_validate_iff)
  ultimately show "success_evidence success
      = (\<lambda>b. if b \<in> board_address ` set (program_boards program) then Some Succeeded else None)"
    unfolding s(2) by (intro ext) (auto simp: ran_def dom_def set_eq_iff)
  show "\<exists>bs envelope. prepare program config (initial_evidence program) Map.empty = Inr bs
      \<and> log s' = log s @ map (fst \<circ> snd) (planned envelope bs)" using p l by blast
qed

end

lemma launched_evidence:
  assumes "monitor_reach program config envelope (launched_state program) st"
  shows "dom (mon_evidence st) = board_address ` set (program_boards program)"
    and "mon_evidence st b = Some x \<Longrightarrow> LaunchSubmitted \<le> x"
    and "monitor_inv st"
proof -
  note m = monitor_reach_inv [OF assms launched_state_inv]
  then show d: "dom (mon_evidence st) = board_address ` set (program_boards program)"
    by (auto simp: evidence_le_def launched_state_def dom_def)
  show "monitor_inv st" using m by blast
  assume b: "mon_evidence st b = Some x"
  then have "b \<in> board_address ` set (program_boards program)" using d by blast
  then have "mon_evidence (launched_state program) b = Some LaunchSubmitted" by (simp add: launched_state_def)
  with m b show "LaunchSubmitted \<le> x" unfolding evidence_le_def by blast
qed

lemma LaunchSubmitted_le: "LaunchSubmitted \<le> x \<longleftrightarrow> x \<in> {LaunchSubmitted, Succeeded, DeviceFailed}"
  by (cases x) (simp_all add: less_eq_board_execution_state_def)

lemma monitor_outcome_cases:
  assumes "monitor_inv st" "list_all is_terminal (map_values (mon_evidence st))" "mon_evidence st \<noteq> Map.empty"
  shows "(\<exists>success. monitor_outcome st = Inr success)
     \<or> monitor_outcome st = Inl (monitor_failure DeviceException st)"
proof (cases "list_all (\<lambda>board. mon_exceptions st board = None) ALL_addresses")
  case True
  then have "DeviceFailed \<notin> ran (mon_evidence st)"
    using assms(1) by (auto simp: monitor_inv_def list_all_iff ran_def)
  with assms(2) have "ran (mon_evidence st) \<subseteq> {Succeeded}"
    by (auto simp: list_all_iff map_values_ran is_terminal_def)
  with True assms(3) show ?thesis by (simp add: monitor_outcome_def success_validate_iff)
next
  case False
  moreover have "failure_validate (failure_new DeviceException (mon_evidence st) (mon_exceptions st))"
    using assms(1) unfolding failure_validate_new monitor_inv_def by blast
  ultimately show ?thesis by (simp add: monitor_outcome_def monitor_failure_def Let_def)
qed

text \<open>Every way in which a run can fail, as the evidence it reports.\<close>

context logged_transport
begin

lemma execute_error:
  assumes "execute_with_transport clock program config ops max_retries s = Some (Inl e, s')"
    and inputs: "runtime_inputs program config"
  obtains (early) code where "e = Failed (failure_new code (initial_evidence program) Map.empty)"
      "log s' = log s"
  | (cut) bs envelope taken where
      "prepare program config (initial_evidence program) Map.empty = Inr bs"
      "dispatch_cut (planned envelope bs) (initial_evidence program) Map.empty e taken"
      "log s' = log s @ map (fst \<circ> snd) taken"
  | (monitored) bs envelope st code where
      "prepare program config (initial_evidence program) Map.empty = Inr bs"
      "monitor_reach program config envelope (launched_state program) st"
      "e = monitor_failure code st"
      "log s' = log s @ map (fst \<circ> snd) (planned envelope bs)"
proof -
  let ?ev = "initial_evidence program"
  have prep: "prepare program config ?ev Map.empty = Inl e' \<Longrightarrow>
      e' = Failed (failure_new TopologyInvalid ?ev Map.empty)" for e'
    using prepare_total [OF inputs, of ?ev Map.empty] by auto
  have mon: "\<exists>code. e = monitor_failure code st"
    if "prepare program config ?ev Map.empty = Inr bs"
      "monitor_reach program config envelope (launched_state program) st" "monitor_end config st (Inl e)"
    for bs envelope st
  proof -
    have "board_address ` set (program_boards program) \<noteq> {}"
      using inputs by (simp add: runtime_inputs_def program_inv_def)
    then have ne: "mon_evidence st \<noteq> Map.empty" using launched_evidence(1) [OF that(2)] by auto
    have "ran (board_for_node config) \<subseteq> dom (mon_evidence st)"
      using board_for_node_known [OF prepare_Inr(1) [OF that(1)]] launched_evidence(1) [OF that(2)]
      by (simp add: dom_initial_evidence)
    then have "\<nexists>frame. apply_frame config frame st = Inl IndexPanic"
      using apply_frame_no_panic by blast
    with that(3) monitor_outcome_cases [OF launched_evidence(3) [OF that(2)] _ ne]
    show ?thesis unfolding monitor_end_def by (metis Inl_Inr_False Inl_inject)
  qed
  from execute_cases [OF assms(1)] show ?thesis
    by (elim disjE exE conjE) (use prep mon early cut monitored in \<open>blast+\<close>)
qed

lemma submitted_certainty:
  assumes "derive_certainty (submitted (initial_evidence program) xs) = NotStarted"
    and "fst ` set xs \<subseteq> dom (initial_evidence program)" "(b, p, l) \<in> set xs"
  shows "\<not> l"
proof
  assume l: l
  with assms(2,3) submitted_launch [of b p xs "initial_evidence program"] obtain x where
    "submitted (initial_evidence program) xs b = Some x" "LaunchSubmitted \<le> x" by force
  then have "\<exists>x\<in>{LaunchSubmitted, Succeeded, DeviceFailed}. x \<in> ran (submitted (initial_evidence program) xs)"
    unfolding LaunchSubmitted_le by (auto intro: ranI)
  with assms(1) show False by (auto simp: derive_certainty_ran split: if_splits)
qed

lemma execute_not_started:
  assumes "execute_with_transport clock program config ops max_retries s = Some (Inl (Failed f), s')"
    and inputs: "runtime_inputs program config"
    and "failure_certainty f = NotStarted"
  shows "\<exists>taken. log s' = log s @ map (fst \<circ> snd) taken
     \<and> (taken = [] \<or> (\<exists>bs envelope post.
          prepare program config (initial_evidence program) Map.empty = Inr bs
          \<and> planned envelope bs = taken @ post))
     \<and> (\<forall>(b, p, launch_bearing) \<in> set taken. \<not> launch_bearing)"
  using assms(1,2)
proof (cases rule: execute_error)
  case (early code)
  then show ?thesis by (intro exI [of _ "[]"]) simp
next
  case (cut bs envelope taken)
  from cut(2) obtain pre x post where plan: "planned envelope bs = pre @ x # post"
    and e: "Failed f = Failed (failure_new TransportSendFailed (submitted (initial_evidence program) pre) Map.empty)
          \<and> taken = pre
        \<or> Failed f = Failed (failure_new TransportSendFailed (submitted (initial_evidence program) (pre @ [x])) Map.empty)
          \<and> taken \<in> {pre, pre @ [x]}"
    unfolding dispatch_cut_def by blast
  then obtain xs where f: "f = failure_new TransportSendFailed (submitted (initial_evidence program) xs) Map.empty"
    and xs: "xs = pre \<and> taken = pre \<or> xs = pre @ [x] \<and> taken \<in> {pre, pre @ [x]}" by blast
  have dom: "fst ` set xs \<subseteq> dom (initial_evidence program)"
  proof -
    have "set xs \<subseteq> set (planned envelope bs)" using xs plan by auto
    then show ?thesis using prepared_in_evidence [OF cut(1), of envelope] by blast
  qed
  have "derive_certainty (submitted (initial_evidence program) xs) = NotStarted"
    using assms(3) f by (simp add: failure_new_def)
  from submitted_certainty [OF this dom] have "\<forall>(b, p, l) \<in> set xs. \<not> l" by blast
  moreover have "set taken \<subseteq> set xs" "\<exists>post. planned envelope bs = taken @ post" using xs plan by auto
  ultimately show ?thesis using cut(1,3) by blast
next
  case (monitored bs envelope st code)
  have "board_address ` set (program_boards program) \<noteq> {}"
    using inputs by (simp add: runtime_inputs_def program_inv_def)
  then have "dom (mon_evidence st) \<noteq> {}" unfolding launched_evidence(1) [OF monitored(2)] .
  then obtain b where "b \<in> dom (mon_evidence st)" by (meson all_not_in_conv)
  then obtain x where x: "mon_evidence st b = Some x" by (meson domD)
  from launched_evidence(2) [OF monitored(2) x] have "x \<in> {LaunchSubmitted, Succeeded, DeviceFailed}"
    unfolding LaunchSubmitted_le .
  with x have "derive_certainty (mon_evidence st) \<noteq> NotStarted"
    by (auto simp: derive_certainty_ran intro: ranI)
  with assms(3) monitored(3) show ?thesis by (simp add: monitor_failure_def failure_new_def)
qed

lemma execute_failure:
  assumes "execute_with_transport clock program config ops max_retries s = Some (Inl e, s')"
    and inputs: "runtime_inputs program config"
  shows "\<exists>f. e = Failed f \<and> failure_validate f
     \<and> dom (failure_evidence f) = board_address ` set (program_boards program)
     \<and> (failure_certainty f = FullyObserved \<longrightarrow>
          (\<forall>b\<in>board_address ` set (program_boards program).
             failure_evidence f b \<in> {Some Succeeded, Some DeviceFailed}))"
  using assms
proof (cases rule: execute_error)
  case (early code)
  then show ?thesis
    by (simp add: failure_validate_new) (simp add: failure_new_def dom_initial_evidence initial_certainty)
next
  case (cut bs envelope taken)
  then obtain xs where f: "e = Failed (failure_new TransportSendFailed (submitted (initial_evidence program) xs) Map.empty)"
    unfolding dispatch_cut_def by blast
  let ?ev = "submitted (initial_evidence program) xs"
  have "x \<le> LaunchSubmitted" if "?ev b = Some x" for b x
    by (rule submitted_not_terminal [OF _ that]) (auto dest: initial_evidence_NotDispatched)
  then have "Succeeded \<notin> ran ?ev" "DeviceFailed \<notin> ran ?ev"
    by (fastforce simp: ran_def less_eq_board_execution_state_def)+
  then have "derive_certainty ?ev \<noteq> FullyObserved" by (simp add: derive_certainty_ran)
  moreover have "dom ?ev = board_address ` set (program_boards program)"
    using submitted_le [of "initial_evidence program" xs] by (simp add: evidence_le_def dom_initial_evidence)
  ultimately show ?thesis unfolding f by (simp add: failure_validate_new) (simp add: failure_new_def)
next
  case (monitored bs envelope st code)
  have v: "failure_validate (failure_new code (mon_evidence st) (mon_exceptions st))"
    using launched_evidence(3) [OF monitored(2)] unfolding failure_validate_new monitor_inv_def by blast
  have "mon_evidence st b \<in> {Some Succeeded, Some DeviceFailed}"
    if "b \<in> board_address ` set (program_boards program)" "derive_certainty (mon_evidence st) = FullyObserved" for b
  proof -
    from that(1) obtain x where x: "mon_evidence st b = Some x"
      using launched_evidence(1) [OF monitored(2)] by blast
    moreover from that(2) have "LaunchSubmitted \<notin> ran (mon_evidence st)"
      by (auto simp: derive_certainty_ran split: if_splits)
    ultimately show ?thesis using launched_evidence(2) [OF monitored(2) x]
      unfolding LaunchSubmitted_le by (auto intro: ranI)
  qed
  then show ?thesis using v launched_evidence(1) [OF monitored(2)]
    unfolding monitored(3) monitor_failure_def
    by (intro exI [of _ "failure_new code (mon_evidence st) (mon_exceptions st)"] conjI)
      (simp_all add: failure_new_def)
qed

end

context bounded_transport
begin

lemma monitor_total: "\<exists>r. monitor program config deadline envelope ops st s = Some r"
proof (induction "pending s" arbitrary: st s rule: less_induct)
  case less
  obtain t s1 where t: "tr_receive ops deadline s = (t, s1)" by fastforce
  show ?case
  proof (cases "\<exists>p st'. t = Inr (Some p) \<and> monitor_packet program config envelope p st = Inr st'")
    case True
    then obtain p st' where p: "t = Inr (Some p)" "monitor_packet program config envelope p st = Inr st'" by blast
    then have "pending s1 < pending s" using receive_pending t by simp
    from less [OF this, of st'] show ?thesis using t p by (subst monitor.simps) simp
  next
    case False
    then show ?thesis using t by (subst monitor.simps) (auto split: sum.split option.split)
  qed
qed

lemma execute_total:
  "\<exists>r s'. execute_with_transport clock program config ops max_retries s = Some (r, s')"
  unfolding execute_with_transport_def Let_def
  using monitor_total by (auto split: sum.split option.split prod.split)

end


lemma send_frame_faults:
  assumes "mem_send_faults s = replicate k (Inl NotAccepted) @ Inr () # faults" "rejected \<le> max_retries"
  shows "send_frame in_memory packet board launch_bearing max_retries rejected ex ev s =
    (if k + rejected \<le> max_retries
     then (advance_submitted ev board launch_bearing,
           s\<lparr>mem_send_faults := faults, mem_sent := mem_sent s @ [packet]\<rparr>)
     else (Inl (Failed (failure_new TransportSendFailed ev ex)),
           s\<lparr>mem_send_faults :=
               replicate (k - (max_retries - rejected) - 1) (Inl NotAccepted) @ Inr () # faults\<rparr>))"
  using assms
proof (induction k arbitrary: rejected s)
  case 0
  then show ?case
    by (subst send_frame.simps) (simp add: in_memory_def mem_send_def Let_def)
next
  case (Suc k)
  let ?s = "s\<lparr>mem_send_faults := replicate k (Inl NotAccepted) @ Inr () # faults\<rparr>"
  have send: "tr_send in_memory packet s = (Inl NotAccepted, ?s)"
    using Suc.prems(1) by (simp add: in_memory_def mem_send_def Let_def)
  show ?case
  proof (cases "rejected < max_retries")
    case True
    then show ?thesis using Suc.IH [of ?s "rejected + 1"] send
      by (subst send_frame.simps) (simp add: Suc_diff_Suc)
  next
    case False
    then show ?thesis using Suc.prems(2) send by (subst send_frame.simps) simp
  qed
qed

section \<open>Successful runs\<close>

text \<open>The report of a successful completion from the board at a physical node.\<close>

definition success_reply :: "assembled_oasm_program \<Rightarrow> transport_envelope \<Rightarrow> u8 list \<Rightarrow> u16 \<Rightarrow> wire_packet" where
  "success_reply program envelope marker node =
     \<lparr>pkt_ether_type = env_ether_type envelope, pkt_source_mac = env_destination_mac envelope,
      pkt_destination_mac = env_source_mac envelope, pkt_loopback_marker = marker,
      pkt_payload = frame_encode \<lparr>frame_flag = 0, frame_channel = program_reply_channel program,
        frame_node = program_reply_node program, frame_tag = OPERATION_TAG,
        frame_payload = (ucast node, 0)\<rparr>\<rparr>"

lemma ucast_u16_bits: "ucast (ucast n :: u32) = (n::u16)" "drop_bit 16 (ucast (n::u16) :: u32) = 0"
  by (rule bit_word_eqI, simp add: bit_simps)+

lemma success_reply_step:
  assumes "program_reply_channel program \<le> RTLINK_CHANNEL_MAX" "marker \<noteq> env_loopback_marker envelope"
    and "board_for_node config node = Some b"
    and "mon_exception_addresses st b = None" "mon_evidence st b = Some LaunchSubmitted"
  shows "monitor_packet program config envelope (success_reply program envelope marker node) st
     = Inr (st\<lparr>mon_evidence := (mon_evidence st)(b \<mapsto> Succeeded)\<rparr>)"
proof -
  let ?f = "\<lparr>frame_flag = 0, frame_channel = program_reply_channel program,
        frame_node = program_reply_node program, frame_tag = OPERATION_TAG, frame_payload = (ucast node, 0)\<rparr>"
  have inv: "frame_inv ?f"
    using assms(1) by (simp add: frame_inv_def RTLINK_CHANNEL_MAX_def CHANNEL_MAX_def TAG_MAX_def OPERATION_TAG_def)
  have "apply_frame config ?f st = Inr (st\<lparr>mon_evidence := (mon_evidence st)(b \<mapsto> Succeeded)\<rparr>)"
    using assms(3-5)
    by (simp add: apply_frame_def apply_operation_frame_def DOWNLOAD_FLAG_def ucast_u16_bits)
  then show ?thesis
    using assms(2) frame_route_encode [OF inv] decode_encode_frame [OF inv]
    by (simp add: monitor_packet_def success_reply_def envelope_is_attributable_def)
qed

lemma dispatch_no_faults:
  assumes "mem_send_faults s = []" "fst ` set xs \<subseteq> dom ev"
  shows "dispatch_flat in_memory max_retries ex xs ev s
    = (Inr (submitted ev xs), s\<lparr>mem_sent := mem_sent s @ map (fst \<circ> snd) xs\<rparr>)"
  using assms
proof (induction xs arbitrary: ev s)
  case (Cons x xs)
  obtain b p l where x: "x = (b, p, l)" by (cases x)
  with Cons.prems obtain st where st: "ev b = Some st" by auto
  define ev1 where "ev1 = ev(b \<mapsto> max st (if l then LaunchSubmitted else LoaderSubmitted))"
  have adv: "advance_submitted ev b l = Inr ev1" unfolding ev1_def using st by (rule advance_submitted_Some)
  let ?s = "s\<lparr>mem_sent := mem_sent s @ [p]\<rparr>"
  have "send_frame in_memory p b l max_retries 0 ex ev s = (Inr ev1, ?s)"
    using Cons.prems(1) by (subst send_frame.simps) (simp add: in_memory_def mem_send_def adv)
  moreover have "dispatch_flat in_memory max_retries ex xs ev1 ?s
      = (Inr (submitted ev1 xs), ?s\<lparr>mem_sent := mem_sent ?s @ map (fst \<circ> snd) xs\<rparr>)"
    using Cons.prems by (intro Cons.IH) (auto simp: ev1_def)
  ultimately show ?case by (simp add: x adv)
qed simp

definition awaiting :: "oasm_address set \<Rightarrow> oasm_address set \<Rightarrow> evidence" where
  "awaiting boards waiting =
     (\<lambda>b. if b \<in> boards then Some (if b \<in> waiting then LaunchSubmitted else Succeeded) else None)"

lemma awaiting_done: "b \<in> boards \<Longrightarrow> (awaiting boards (insert b waiting))(b \<mapsto> Succeeded) = awaiting boards (waiting - {b})"
  by (auto simp: awaiting_def fun_eq_iff)

lemma ran_awaiting: "ran (awaiting boards {}) \<subseteq> {Succeeded}"
  by (auto simp: awaiting_def ran_def split: if_splits)

lemma awaiting_empty: "boards \<noteq> {} \<Longrightarrow> awaiting boards waiting \<noteq> Map.empty"
  by (auto simp: awaiting_def fun_eq_iff split: if_splits)

lemma monitor_replies:
  assumes "program_reply_channel program \<le> RTLINK_CHANNEL_MAX" "marker \<noteq> env_loopback_marker envelope"
    and "boards \<noteq> {}" "\<forall>(n, b)\<in>set pairs. board_for_node config n = Some b" "distinct (map snd pairs)"
    and "snd ` set pairs \<subseteq> boards"
    and "mon_exception_addresses st = Map.empty" "mon_exceptions st = Map.empty"
    and "mon_evidence st = awaiting boards (snd ` set pairs)"
    and "mem_receive_queue s
      = map (\<lambda>p. Inr (Some (success_reply program envelope marker (fst p)))) pairs"
  shows "\<exists>success s'. monitor program config deadline envelope in_memory st s = Some (Inr success, s')"
  using assms(4-)
proof (induction pairs arbitrary: st s)
  case Nil
  then have ev: "mon_evidence st = awaiting boards {}" by simp
  have "list_all is_terminal (map_values (mon_evidence st))"
    unfolding ev using ran_awaiting by (fastforce simp: list_all_iff map_values_ran is_terminal_def)
  moreover have "\<exists>success. monitor_outcome st = Inr success"
    using Nil.prems(5) ev ran_awaiting awaiting_empty [OF assms(3)]
    by (simp add: monitor_outcome_def success_validate_iff list_all_iff Let_def)
  ultimately show ?case by (subst monitor.simps) auto
next
  case (Cons x ps)
  obtain n b where x: "x = (n, b)" by (cases x)
  then have b: "board_for_node config n = Some b" "b \<in> boards" "b \<notin> snd ` set ps"
    using Cons.prems(1-3) by auto
  have ev: "mon_evidence st b = Some LaunchSubmitted"
    using Cons.prems(6) b by (simp add: awaiting_def x)
  let ?st = "st\<lparr>mon_evidence := (mon_evidence st)(b \<mapsto> Succeeded)\<rparr>"
  let ?s = "s\<lparr>mem_receive_queue := map (\<lambda>p. Inr (Some (success_reply program envelope marker (fst p)))) ps\<rparr>"
  have "\<not> list_all is_terminal (map_values (mon_evidence st))"
  proof -
    have "LaunchSubmitted \<in> ran (mon_evidence st)" using ev by (auto simp: ran_def)
    then show ?thesis by (auto simp: list_all_iff map_values_ran is_terminal_def)
  qed
  moreover have "tr_receive in_memory deadline s = (Inr (Some (success_reply program envelope marker n)), ?s)"
    using Cons.prems(7) by (simp add: in_memory_def mem_receive_def x)
  moreover have "monitor_packet program config envelope (success_reply program envelope marker n) st = Inr ?st"
    using assms(1,2) b(1) ev Cons.prems(4) by (intro success_reply_step) auto
  moreover have "\<exists>success s'. monitor program config deadline envelope in_memory ?st ?s = Some (Inr success, s')"
  proof (rule Cons.IH)
    show "mon_evidence ?st = awaiting boards (snd ` set ps)"
      using Cons.prems(6) awaiting_done [OF b(2), of "snd ` set ps"] b(3) by (simp add: x)
  qed (use Cons.prems in auto)
  ultimately show ?case by (subst monitor.simps) simp
qed

lemma board_for_node_endpoint:
  assumes "config_inv config" "e \<in> set (config_boards config)"
  shows "board_for_node config (endpoint_node e) = Some (endpoint_address e)"
proof -
  obtain e' where e': "find (\<lambda>x. endpoint_node x = endpoint_node e) (config_boards config) = Some e'"
    using assms(2) by (cases "find (\<lambda>x. endpoint_node x = endpoint_node e) (config_boards config)")
      (auto simp: find_None_iff)
  then have "e' \<in> set (config_boards config)" "endpoint_node e' = endpoint_node e"
    by (auto simp: find_Some_iff)
  moreover have "inj_on endpoint_node (set (config_boards config))"
    using assms(1) by (simp add: config_inv_def distinct_map)
  ultimately have "e' = e" using assms(2) by (auto dest: inj_onD)
  with e' show ?thesis by (simp add: board_for_node_def)
qed

lemma prepare_succeeds:
  assumes "runtime_inputs program config" "handoff_ok program config"
    and "\<forall>b\<in>set (program_boards program). length (board_ich_words b) \<le> 2 ^ 20"
  shows "\<exists>bs. prepare program config ev ex = Inr bs"
proof -
  have "\<exists>pb. prepare_board config ev ex b = Inr pb" if b: "b \<in> set (program_boards program)" for b
  proof -
    from assms(2) b obtain e where e: "find_endpoint config (board_address b) = Some e"
      "length (board_ich_words b) \<le> endpoint_capacity e" unfolding handoff_ok_def by blast
    have c: "endpoint_channel e \<le> RTLINK_CHANNEL_MAX"
      using find_endpoint_Some [OF e(1)] assms(1) by (auto simp: runtime_inputs_def)
    obtain loader where "materialize_download_loader (board_ich_words b)
        \<lparr>instruction_capacity_words = endpoint_capacity e,
         exception_handler_word = board_exception_handler_word b\<rparr> = Inr loader"
      using materialize_cases [of "board_ich_words b" "\<lparr>instruction_capacity_words = endpoint_capacity e,
         exception_handler_word = board_exception_handler_word b\<rparr>"] e(2) assms(3) b by auto
    moreover have "\<exists>fs. encode_word_stream DOWNLOAD_FLAG (endpoint_channel e) (endpoint_node e) DOWNLOAD_TAG
        (loader_words loader) = Inr fs"
      using c by (intro word_stream_total)
        (simp_all add: DOWNLOAD_FLAG_def DOWNLOAD_TAG_def CHANNEL_MAX_def RTLINK_CHANNEL_MAX_def)
    ultimately show ?thesis using e(1) by (auto simp: prepare_board_def)
  qed
  then have "\<exists>bs. res_traverse (prepare_board config ev ex) (program_boards program) = Inr bs"
    by (intro res_traverse_defined) blast
  moreover have "validate_runtime_handoff program config = Inr ()" using assms(2) validate_handoff_iff by blast
  ultimately show ?thesis by (simp add: prepare_def)
qed

lemma execute_succeeds:
  assumes "runtime_inputs program config" "handoff_ok program config"
    and "\<forall>b\<in>set (program_boards program). length (board_ich_words b) \<le> 2 ^ 20"
    and "clock (config_timeout_ms config) = Some deadline"
    and "mem_open_error s = None" "mem_send_faults s = []"
    and "marker \<noteq> env_loopback_marker (mem_envelope s)"
    and "mem_receive_queue s = map (\<lambda>e. Inr (Some
          (success_reply program (mem_envelope s) marker (endpoint_node e)))) (config_boards config)"
  shows "\<exists>success s'. execute_with_transport clock program config in_memory max_retries s = Some (Inr success, s')"
proof -
  from prepare_succeeds [OF assms(1-3)] obtain bs where
    p: "prepare program config (initial_evidence program) Map.empty = Inr bs" by blast
  define s1 where "s1 = s\<lparr>mem_opened := mem_opened s + 1\<rparr>"
  let ?plan = "planned (mem_envelope s) bs" and ?pairs = "map (\<lambda>e. (endpoint_node e, endpoint_address e)) (config_boards config)"
  define s2 where "s2 = s1\<lparr>mem_sent := mem_sent s1 @ map (fst \<circ> snd) ?plan\<rparr>"
  have o: "tr_open in_memory s = (Inr (mem_envelope s), s1)"
    using assms(5) by (simp add: in_memory_def mem_open_def s1_def)
  have d: "dispatch in_memory (mem_envelope s) max_retries Map.empty bs (initial_evidence program) s1
      = (Inr (submitted (initial_evidence program) ?plan), s2)"
    unfolding dispatch_is_flat s2_def using assms(6) prepared_in_evidence [OF p]
    by (intro dispatch_no_faults) (simp_all add: s1_def)
  have ev: "submitted (initial_evidence program) ?plan = mon_evidence (launched_state program)"
    using all_launched [OF p] by (simp add: launched_state_def fun_eq_iff)
  have cinv: "config_inv config" using assms(1) by (simp add: runtime_inputs_def)
  have same: "endpoint_address ` set (config_boards config) = board_address ` set (program_boards program)"
    using assms(2) validate_handoff_iff [of program config]
    by (auto simp: validate_runtime_handoff_def split: if_splits)
  have "\<exists>success s'. monitor program config deadline (mem_envelope s) in_memory (launched_state program) s2
      = Some (Inr success, s')"
  proof (rule monitor_replies)
    show "program_reply_channel program \<le> RTLINK_CHANNEL_MAX" "board_address ` set (program_boards program) \<noteq> {}"
      using assms(1) by (auto simp: runtime_inputs_def program_inv_def)
    show "\<forall>(n, b)\<in>set ?pairs. board_for_node config n = Some b"
      using board_for_node_endpoint [OF cinv] by auto
    show "distinct (map snd ?pairs)" using cinv by (simp add: config_inv_def o_def)
    have im: "snd ` set ?pairs = board_address ` set (program_boards program)"
      using same by (simp add: image_image)
    show "snd ` set ?pairs \<subseteq> board_address ` set (program_boards program)" unfolding im ..
    show "mon_evidence (launched_state program) = awaiting (board_address ` set (program_boards program)) (snd ` set ?pairs)"
      unfolding im by (auto simp: launched_state_def awaiting_def)
    show "marker \<noteq> env_loopback_marker (mem_envelope s)" by (rule assms(7))
    show "mem_receive_queue s2 = map (\<lambda>p. Inr (Some (success_reply program (mem_envelope s) marker (fst p)))) ?pairs"
      using assms(8) by (simp add: s2_def s1_def o_def)
  qed (simp_all add: launched_state_def)
  then show ?thesis
    using p assms(4) o d ev by (fastforce simp: execute_with_transport_def launched_state_def)
qed


text \<open>A one-board program and its configuration, for concrete runs.\<close>

definition demo_board :: assembled_oasm_board where
  "demo_board = \<lparr>board_address = Main, board_ich_words = [0xDEADBEEF], board_exception_handler_word = 0\<rparr>"

definition demo_program :: assembled_oasm_program where
  "demo_program = \<lparr>program_schema_version = 1, program_reply_node = 9, program_reply_channel = 2,
     program_boards = [demo_board]\<rparr>"

definition demo_config :: runtime_config where
  "demo_config = \<lparr>config_schema_version = 1, config_interface = ''eth0'', config_destination_mac = None,
     config_timeout_ms = 100, config_boards =
      [\<lparr>endpoint_address = Main, endpoint_node = 3, endpoint_channel = 1, endpoint_capacity = 4\<rparr>]\<rparr>"

definition demo_envelope :: transport_envelope where
  "demo_envelope = \<lparr>env_ether_type = ETHER_TYPE, env_source_mac = Mac 0 0 0 0 0 1,
     env_destination_mac = Mac 0 0 0 0 0 3, env_loopback_marker = [1, 2, 3, 4, 5, 6, 7, 8]\<rparr>"

definition demo_transport :: in_memory_transport where
  "demo_transport = mem_with_received demo_envelope
     [success_reply demo_program demo_envelope [0, 0, 0, 0, 0, 0, 0, 0] 3]"

lemma demo_inputs: "runtime_inputs demo_program demo_config" "handoff_ok demo_program demo_config"
  by (simp_all add: runtime_inputs_def program_inv_def config_inv_def demo_program_def demo_config_def
      demo_board_def RUNTIME_SCHEMA_VERSION_def RTLINK_CHANNEL_MAX_def handoff_ok_def find_endpoint_def)

lemma demo_success:
  "\<exists>success s'. execute_with_transport clock demo_program demo_config in_memory 3 demo_transport
     = Some (Inr success, s')" if "clock 100 = Some deadline" for clock deadline
  by (rule execute_succeeds [OF demo_inputs, where marker = "[0, 0, 0, 0, 0, 0, 0, 0]"])
    (use that in \<open>simp_all add: demo_program_def demo_config_def demo_board_def demo_transport_def
      demo_envelope_def mem_with_received_def mem_new_def\<close>)

lemma invalid_topology:
  assumes "\<not> handoff_ok program config"
  shows "execute_with_transport clock program config ops max_retries s
      = Some (Inl (Failed (failure_new TopologyInvalid (initial_evidence program) Map.empty)), s)
    \<and> failure_certainty (failure_new TopologyInvalid (initial_evidence program) Map.empty) = NotStarted"
proof -
  obtain e where v: "validate_runtime_handoff program config = Inl e"
    using assms validate_handoff_iff by (cases "validate_runtime_handoff program config") auto
  then have "prepare program config (initial_evidence program) Map.empty
      = Inl (Failed (failure_new TopologyInvalid (initial_evidence program) Map.empty))"
    using validate_handoff_Inl [OF v] by (auto simp: prepare_def)
  then show ?thesis by (simp add: execute_with_transport_def failure_new_def initial_certainty)
qed

lemma demo_no_boards:
  "runtime_inputs demo_program (demo_config\<lparr>config_boards := []\<rparr>)"
  "\<not> handoff_ok demo_program (demo_config\<lparr>config_boards := []\<rparr>)"
  by (simp_all add: runtime_inputs_def program_inv_def config_inv_def demo_program_def demo_config_def
      demo_board_def RUNTIME_SCHEMA_VERSION_def RTLINK_CHANNEL_MAX_def handoff_ok_def find_endpoint_def)

text \<open>
  A transport that takes every packet, also one whose acceptance it cannot confirm, and a run over it
  whose first send is of unknown acceptance.
\<close>

definition doubtful_send ::
  "wire_packet \<Rightarrow> in_memory_transport \<Rightarrow> (send_rejection + unit) \<times> in_memory_transport" where
  "doubtful_send packet self =
     (case mem_send packet self of
        (Inl AcceptanceUnknown, self') \<Rightarrow>
          (Inl AcceptanceUnknown, self'\<lparr>mem_sent := mem_sent self' @ [packet]\<rparr>)
      | r \<Rightarrow> r)"

definition doubtful :: "in_memory_transport transport_ops" where
  "doubtful = in_memory\<lparr>tr_send := doubtful_send\<rparr>"

definition doubtful_transport :: in_memory_transport where
  "doubtful_transport = demo_transport\<lparr>mem_send_faults := [Inl AcceptanceUnknown]\<rparr>"

lemma doubtful_logged: "logged_transport doubtful mem_sent"
proof unfold_locales
  fix p s u s' d q and r :: "transport_error + transport_envelope"
  show "mem_sent s' = mem_sent s" if "tr_open doubtful s = (r, s')"
    using that mem.open_log by (simp add: doubtful_def)
  show "mem_sent s' = mem_sent s" if "tr_receive doubtful d s = (q, s')"
    using that mem.receive_log by (simp add: doubtful_def)
  show "mem_sent (tr_close doubtful s) = mem_sent s"
    using mem.close_log by (simp add: doubtful_def)
qed (auto simp: doubtful_def doubtful_send_def mem_send_def Let_def
      split: prod.splits sum.splits send_rejection.splits list.splits)

lemma demo_prepared:
  obtains pb f fs where "prepare demo_program demo_config (initial_evidence demo_program) Map.empty = Inr [pb]"
    "pb_address pb = Main" "pb_frames pb = f # fs" "\<not> pf_launch_bearing f"
proof -
  obtain bs where bs: "prepare demo_program demo_config (initial_evidence demo_program) Map.empty = Inr bs"
    using prepare_succeeds [OF demo_inputs] by (auto simp: demo_program_def demo_board_def)
  then obtain pb where pb: "bs = [pb]"
    and p: "prepare_board demo_config (initial_evidence demo_program) Map.empty demo_board = Inr pb"
    by (auto dest!: prepare_Inr(2) simp: demo_program_def list_all2_Cons1)
  then obtain f fs where fs: "pb_frames pb = f # fs"
    using prepared_board_launch by (metis list.set(1) empty_iff neq_Nil_conv)
  from p show ?thesis
  proof (rule prepare_board_Inr)
    fix endpoint loader frames
    assume m: "materialize_download_loader (board_ich_words demo_board)
       \<lparr>instruction_capacity_words = endpoint_capacity endpoint,
        exception_handler_word = board_exception_handler_word demo_board\<rparr> = Inr loader"
      and e: "pb = \<lparr>pb_address = board_address demo_board, pb_frames = map (\<lambda>(i, frame).
         \<lparr>pf_frame = frame, pf_launch_bearing = i * 2 + 2 > fst (launch loader)\<rparr>) (enumerate 0 frames)\<rparr>"
    have "pb_address pb = Main" by (simp add: e demo_board_def)
    moreover have "\<not> pf_launch_bearing f"
      using fs materialize_Inr(2) [OF m] by (cases frames) (auto simp: e)
    ultimately show ?thesis using that bs pb fs by blast
  qed
qed

lemma doubtful_run:
  "\<exists>f s' p. execute_with_transport (\<lambda>_. Some 0) demo_program demo_config doubtful 3 doubtful_transport
       = Some (Inl (Failed f), s')
     \<and> failure_certainty f = NotStarted \<and> failure_evidence f = [Main \<mapsto> LoaderSubmitted] \<and> mem_sent s' = [p]"
proof -
  from demo_prepared obtain pb f fs where
    p: "prepare demo_program demo_config (initial_evidence demo_program) Map.empty = Inr [pb]"
    and b: "pb_address pb = Main" "pb_frames pb = f # fs" "\<not> pf_launch_bearing f" by blast
  have i: "initial_evidence demo_program = [Main \<mapsto> NotDispatched]"
    by (simp add: initial_evidence_def demo_program_def demo_board_def)
  have adv: "advance_submitted [Main \<mapsto> NotDispatched] Main False = Inr [Main \<mapsto> LoaderSubmitted]"
    by (simp add: advance_submitted_def less_board_execution_state_def less_eq_board_execution_state_def)
  show ?thesis
    unfolding execute_with_transport_def Let_def p
    by (simp add: b adv i doubtful_def doubtful_send_def doubtful_transport_def demo_transport_def
        mem_with_received_def mem_new_def in_memory_def mem_open_def mem_send_def mem_close_def
        send_frame.simps failure_new_def derive_certainty_ran Let_def)
qed

section \<open>Properties\<close>

text \<open>
  C1. A run that reports success has sent every frame of every board, in order and each exactly
  once, and has seen a success report of every board of the program: the evidence it returns is
  \<open>Succeeded\<close> for exactly the boards of the program and passes \<open>RuntimeSuccess::validate\<close>.
\<close>

theorem execute_success_sound:
  assumes "execute_with_transport clock program config in_memory max_retries s = Some (Inr success, s')"
  shows "success_validate success
     \<and> success_evidence success
        = (\<lambda>b. if b \<in> board_address ` set (program_boards program) then Some Succeeded else None)
     \<and> (\<exists>bs envelope. prepare program config (initial_evidence program) Map.empty = Inr bs
          \<and> mem_sent s' = mem_sent s @ concat (map (\<lambda>b. map (\<lambda>f.
               outbound_packet envelope (pf_frame f)) (pb_frames b)) bs))"
  using mem.execute_success [OF assms] by (auto simp: planned_def map_concat o_def)

theorem execute_success_sound_witness:
  "\<exists>success s'. execute_with_transport (\<lambda>_. Some 0) demo_program demo_config in_memory 3 demo_transport
       = Some (Inr success, s')
     \<and> success_evidence success = [Main \<mapsto> Succeeded]"
proof -
  obtain success s' where run: "execute_with_transport (\<lambda>_. Some 0) demo_program demo_config in_memory 3
      demo_transport = Some (Inr success, s')"
    using demo_success [of "\<lambda>_. Some 0" 0] by blast
  moreover from execute_success_sound [OF run] have "success_evidence success = [Main \<mapsto> Succeeded]"
    by (auto simp: demo_program_def demo_board_def fun_eq_iff)
  ultimately show ?thesis by blast
qed

text \<open>
  C3. A run never panics: for inputs accepted by the constructors no \<open>expect\<close>, no map index and no
  \<open>debug_assert\<close> of the state machine fails; every failure it returns passes
  \<open>RuntimeFailure::validate\<close>, reports evidence for exactly the boards of the program, and claims
  \<open>FullyObserved\<close> only when every board has reported a terminal state.
\<close>

theorem execute_failure_sound:
  assumes "execute_with_transport clock program config in_memory max_retries s = Some (Inl e, s')"
    and "runtime_inputs program config"
  shows "\<exists>f. e = Failed f \<and> failure_validate f
     \<and> dom (failure_evidence f) = board_address ` set (program_boards program)
     \<and> (failure_certainty f = FullyObserved \<longrightarrow>
          (\<forall>b\<in>board_address ` set (program_boards program).
             failure_evidence f b \<in> {Some Succeeded, Some DeviceFailed}))"
  using assms by (rule mem.execute_failure)

theorem execute_failure_sound_witness:
  "\<exists>f. execute_with_transport (\<lambda>_. Some 0) demo_program (demo_config\<lparr>config_boards := []\<rparr>) in_memory 3
        demo_transport = Some (Inl (Failed f), demo_transport)
     \<and> failure_validate f \<and> dom (failure_evidence f) = {Main}"
proof -
  note run = invalid_topology [OF demo_no_boards(2), of "\<lambda>_. Some 0" in_memory 3 demo_transport, THEN conjunct1]
  from execute_failure_sound [OF run demo_no_boards(1)] run show ?thesis
    by (auto simp: demo_program_def demo_board_def)
qed

text \<open>
  C2. A failure that claims \<open>NotStarted\<close> is right to do so over every transport, also one that has taken
  a packet while reporting that its acceptance is unknown: whatever the medium has taken is a prefix
  of the download without a single launch-bearing frame.
\<close>

theorem execute_not_started_sound:
  assumes "logged_transport ops medium"
    and "execute_with_transport clock program config ops max_retries s = Some (Inl (Failed f), s')"
    and "runtime_inputs program config"
    and "failure_certainty f = NotStarted"
  shows "\<exists>taken. medium s' = medium s @ map (fst \<circ> snd) taken
     \<and> (taken = [] \<or> (\<exists>bs envelope post.
          prepare program config (initial_evidence program) Map.empty = Inr bs
          \<and> planned envelope bs = taken @ post))
     \<and> (\<forall>(b, p, launch_bearing) \<in> set taken. \<not> launch_bearing)"
  using assms by (rule logged_transport.execute_not_started)

theorem execute_not_started_sound_witness:
  "\<exists>f s' p taken post bs envelope.
     execute_with_transport (\<lambda>_. Some 0) demo_program demo_config doubtful 3 doubtful_transport
       = Some (Inl (Failed f), s')
     \<and> failure_certainty f = NotStarted \<and> failure_evidence f = [Main \<mapsto> LoaderSubmitted]
     \<and> mem_sent s' = [p] \<and> map (fst \<circ> snd) taken = [p]
     \<and> prepare demo_program demo_config (initial_evidence demo_program) Map.empty = Inr bs
     \<and> planned envelope bs = taken @ post
     \<and> (\<forall>(b, p, launch_bearing) \<in> set taken. \<not> launch_bearing)"
proof -
  obtain f s' p where run: "execute_with_transport (\<lambda>_. Some 0) demo_program demo_config doubtful 3
      doubtful_transport = Some (Inl (Failed f), s')"
    and f: "failure_certainty f = NotStarted" "failure_evidence f = [Main \<mapsto> LoaderSubmitted]"
    and sent: "mem_sent s' = [p]"
    using doubtful_run by blast
  have "mem_sent doubtful_transport = []"
    by (simp add: doubtful_transport_def demo_transport_def mem_with_received_def mem_new_def)
  with execute_not_started_sound [OF doubtful_logged run demo_inputs(1) f(1)] sent obtain taken where
    t: "map (fst \<circ> snd) taken = [p]" "taken \<noteq> []" "\<forall>(b, p, launch_bearing) \<in> set taken. \<not> launch_bearing"
    and "\<exists>bs envelope post. prepare demo_program demo_config (initial_evidence demo_program) Map.empty = Inr bs
          \<and> planned envelope bs = taken @ post"
    by (metis append_Nil list.map_disc_iff list.distinct(1))
  then obtain bs envelope post where
    p: "prepare demo_program demo_config (initial_evidence demo_program) Map.empty = Inr bs"
       "planned envelope bs = taken @ post" by blast
  show ?thesis by (intro exI conjI) (rule run f sent t p)+
qed

text \<open>
  C4. The run returns: with finitely many packets queued at the transport the monitoring loop ends,
  whatever the packets are.
\<close>

theorem execute_terminates:
  "\<exists>r s'. execute_with_transport clock program config in_memory max_retries s = Some (r, s')"
  by (rule mem.execute_total)

text \<open>
  C5. A run succeeds when nothing goes wrong: for a fitting topology, a transport that opens and takes
  every packet, and one success report from each board, the run returns success.
\<close>

theorem execute_completes:
  assumes "runtime_inputs program config" "handoff_ok program config"
    and "\<forall>b\<in>set (program_boards program). length (board_ich_words b) \<le> 2 ^ 20"
    and "clock (config_timeout_ms config) = Some deadline"
    and "mem_open_error s = None" "mem_send_faults s = []"
    and "marker \<noteq> env_loopback_marker (mem_envelope s)"
    and "mem_receive_queue s = map (\<lambda>e. Inr (Some
          (success_reply program (mem_envelope s) marker (endpoint_node e)))) (config_boards config)"
  shows "\<exists>success s'. execute_with_transport clock program config in_memory max_retries s = Some (Inr success, s')"
  using assms by (rule execute_succeeds)

theorem execute_completes_witness:
  "\<exists>success s'. execute_with_transport (\<lambda>_. Some 0) demo_program demo_config in_memory 3 demo_transport
     = Some (Inr success, s')"
  by (rule execute_completes [OF demo_inputs, where marker = "[0, 0, 0, 0, 0, 0, 0, 0]"])
    (simp_all add: demo_program_def demo_config_def demo_board_def demo_transport_def
      demo_envelope_def mem_with_received_def mem_new_def)

text \<open>
  A frame is marked launch-bearing exactly when one of its two words belongs to the launch
  section of the loader.
\<close>

theorem launch_bearing_exact:
  assumes "prepare_board config ev ex board = Inr pb" "i < length (pb_frames pb)"
  shows "\<exists>loader. materialize_download_loader (board_ich_words board)
       \<lparr>instruction_capacity_words = endpoint_capacity (the (find_endpoint config (board_address board))),
        exception_handler_word = board_exception_handler_word board\<rparr> = Inr loader
     \<and> (pf_launch_bearing (pb_frames pb ! i) \<longleftrightarrow>
          (\<exists>j\<in>{2 * i, 2 * i + 1}. j < length (loader_words loader) \<and> fst (launch loader) \<le> j))
     \<and> frame_payload (pf_frame (pb_frames pb ! i)) = (loader_words loader ! (2 * i),
          if 2 * i + 1 < length (loader_words loader) then loader_words loader ! (2 * i + 1) else 0)"
  using assms(1)
proof (rule prepare_board_Inr)
  fix endpoint loader frames
  assume e: "find_endpoint config (board_address board) = Some endpoint"
    and m: "materialize_download_loader (board_ich_words board)
       \<lparr>instruction_capacity_words = endpoint_capacity endpoint,
        exception_handler_word = board_exception_handler_word board\<rparr> = Inr loader"
    and w: "encode_word_stream DOWNLOAD_FLAG (endpoint_channel endpoint) (endpoint_node endpoint)
        DOWNLOAD_TAG (loader_words loader) = Inr frames"
    and pb: "pb = \<lparr>pb_address = board_address board, pb_frames = map (\<lambda>(i, frame).
         \<lparr>pf_frame = frame, pf_launch_bearing = i * 2 + 2 > fst (launch loader)\<rparr>) (enumerate 0 frames)\<rparr>"
  have i: "i < length frames" using assms(2) by (simp add: pb)
  then have "2 * i < length (loader_words loader)" using word_stream_nth(1) [OF w] by linarith
  then have "(\<exists>j\<in>{2 * i, 2 * i + 1}. j < length (loader_words loader) \<and> fst (launch loader) \<le> j)
      \<longleftrightarrow> i * 2 + 2 > fst (launch loader)"
    using materialize_Inr(2,3) [OF m] by auto
  then show ?thesis
    using e m i word_stream_nth(2) [OF w i] by (simp add: pb nth_enumerate_eq)
qed

theorem launch_bearing_exact_witness:
  "\<exists>pb. prepare_board demo_config Map.empty Map.empty demo_board = Inr pb \<and> \<not> pf_launch_bearing (pb_frames pb ! 0)"
proof -
  have "find_endpoint demo_config (board_address demo_board)
      = Some \<lparr>endpoint_address = Main, endpoint_node = 3, endpoint_channel = 1, endpoint_capacity = 4\<rparr>"
    by (simp add: demo_config_def demo_board_def find_endpoint_def)
  moreover obtain bs where "prepare demo_program demo_config Map.empty Map.empty = Inr bs"
    using prepare_succeeds [OF demo_inputs] by (auto simp: demo_program_def demo_board_def)
  then obtain pb where pb: "prepare_board demo_config Map.empty Map.empty demo_board = Inr pb"
    by (auto dest!: prepare_Inr(2) simp: demo_program_def list_all2_Cons1)
  then have "0 < length (pb_frames pb)"
    using prepared_board_launch by (metis length_greater_0_conv list.set(1) empty_iff)
  from launch_bearing_exact [OF pb this] obtain loader where
    l: "materialize_download_loader (board_ich_words demo_board)
       \<lparr>instruction_capacity_words = endpoint_capacity (the (find_endpoint demo_config (board_address demo_board))),
        exception_handler_word = board_exception_handler_word demo_board\<rparr> = Inr loader"
    "pf_launch_bearing (pb_frames pb ! 0) \<longleftrightarrow>
       (\<exists>j\<in>{2 * 0, 2 * 0 + 1}. j < length (loader_words loader) \<and> fst (launch loader) \<le> j)" by blast
  with materialize_Inr(2) [OF l(1)] pb show ?thesis by auto
qed

text \<open>
  C31. Nothing is sent for a topology that does not fit: when the handoff check fails the transport
  is not even opened, the result is a topology failure and execution is reported as not started.
\<close>

theorem invalid_topology_untouched:
  assumes "\<not> handoff_ok program config"
  shows "execute_with_transport clock program config ops max_retries s
      = Some (Inl (Failed (failure_new TopologyInvalid (initial_evidence program) Map.empty)), s)
    \<and> failure_certainty (failure_new TopologyInvalid (initial_evidence program) Map.empty) = NotStarted"
  using assms by (rule invalid_topology)

theorem invalid_topology_untouched_witness:
  "execute_with_transport (\<lambda>_. Some 0) demo_program (demo_config\<lparr>config_boards := []\<rparr>) in_memory 3 demo_transport
      = Some (Inl (Failed (failure_new TopologyInvalid [Main \<mapsto> NotDispatched] Map.empty)), demo_transport)"
  using invalid_topology_untouched [OF demo_no_boards(2), of "\<lambda>_. Some 0" in_memory 3 demo_transport]
  by (simp add: initial_evidence_def demo_program_def demo_board_def)

text \<open>
  C28. Evidence is monotone and terminal states are final: applying any frame keeps the set of boards,
  never moves a board down the order, never leaves a terminal state and keeps the reports of device
  exceptions in step with the failed boards.
\<close>

theorem apply_frame_monotone:
  assumes "apply_frame config frame st = Inr st'" "monitor_inv st"
  shows "dom (mon_evidence st') = dom (mon_evidence st)
     \<and> (\<forall>b x y. mon_evidence st b = Some x \<and> mon_evidence st' b = Some y \<longrightarrow>
          x \<le> y \<and> (is_terminal x \<longrightarrow> y = x))
     \<and> monitor_inv st'"
proof (intro conjI allI impI)
  note step = apply_frame_step [OF assms(1)]
  show "dom (mon_evidence st') = dom (mon_evidence st)" using step(1) by (simp add: evidence_le_def)
  show "monitor_inv st'" by (rule step(2) [OF assms(2)])
  fix b x y
  assume xy: "mon_evidence st b = Some x \<and> mon_evidence st' b = Some y"
  then show "x \<le> y" using step(1) unfolding evidence_le_def by blast
  show "y = x" if "is_terminal x" using xy apply_frame_terminal [OF assms(1) _ that] by fastforce
qed

theorem apply_frame_monotone_witness:
  "\<exists>st'. apply_frame demo_config \<lparr>frame_flag = 4, frame_channel = 2, frame_node = 9, frame_tag = 0,
        frame_payload = (3, 7)\<rparr> (launched_state demo_program) = Inr st'
     \<and> mon_evidence st' Main = Some DeviceFailed \<and> monitor_inv st'"
proof -
  let ?frame = "\<lparr>frame_flag = 4, frame_channel = 2, frame_node = 9, frame_tag = 0, frame_payload = (3, 7)\<rparr>"
  obtain st' where st': "apply_frame demo_config ?frame (launched_state demo_program) = Inr st'"
    "mon_evidence st' Main = Some DeviceFailed"
    by (simp add: apply_frame_def apply_download_frame_def DOWNLOAD_FLAG_def board_for_node_def
        demo_config_def launched_state_def demo_program_def demo_board_def)
  with apply_frame_monotone [OF st'(1) launched_state_inv] show ?thesis by blast
qed

text \<open>
  Retries are bounded: a frame that is refused \<open>k\<close> times and then accepted is sent exactly once
  if \<open>k\<close> is within the limit; otherwise the run gives up after one attempt more than the limit, with
  the evidence unchanged and nothing sent.
\<close>

theorem send_retries_bounded:
  assumes "mem_send_faults s = replicate k (Inl NotAccepted) @ Inr () # faults"
  shows "send_frame in_memory packet board launch_bearing max_retries 0 ex ev s =
    (if k \<le> max_retries
     then (advance_submitted ev board launch_bearing,
           s\<lparr>mem_send_faults := faults, mem_sent := mem_sent s @ [packet]\<rparr>)
     else (Inl (Failed (failure_new TransportSendFailed ev ex)),
           s\<lparr>mem_send_faults := replicate (k - max_retries - 1) (Inl NotAccepted) @ Inr () # faults\<rparr>))"
  using send_frame_faults [OF assms, where rejected = 0] by simp

theorem send_retries_bounded_witness:
  "fst (send_frame in_memory (success_reply demo_program demo_envelope [] 3) Main True 100 0 Map.empty [Main \<mapsto> LoaderSubmitted]
      (demo_transport\<lparr>mem_send_faults := replicate 101 (Inl NotAccepted) @ [Inr ()]\<rparr>))
    = Inl (Failed (failure_new TransportSendFailed [Main \<mapsto> LoaderSubmitted] Map.empty))"
  by (subst send_retries_bounded [where k = 101 and faults = "[]"]) simp_all

end
