(* ===== verification/Fragment_Linker.thy ===== *)
theory Fragment_Linker
  imports Definition_Registry
begin

text \<open>
  \<open>catseq-rtmq/src/lib.rs\<close>: linking a relocatable board fragment at an absolute time.  Cycle counts
  are 64-bit words; the checked addition is written out.
\<close>

section \<open>Definitions\<close>

datatype board_id = BoardId "16 word"

record relative_event =
  offset_cycles :: u64
  re_operation_id :: u32

datatype time_relocation_target = EventOffset nat | RelocateDuration

record time_relocation =
  rel_target :: time_relocation_target
  rel_runtime_value :: runtime_value_id

record relative_board_fragment =
  frag_board :: board_id
  frag_duration_cycles :: u64
  frag_events :: "relative_event list"
  frag_time_relocations :: "time_relocation list"

type_synonym runtime_values = "runtime_value_id \<rightharpoonup> u64"

record linked_event =
  timestamp_cycles :: u64
  le_operation_id :: u32

record linked_board_fragment =
  linked_board :: board_id
  linked_duration_cycles :: u64
  linked_events :: "linked_event list"

datatype link_error =
    MissingRuntimeValue board_id runtime_value_id
  | InvalidEventIndex board_id nat
  | TimestampOverflow board_id u64 u64

definition u64_checked_add :: "u64 \<Rightarrow> u64 \<Rightarrow> u64 option" where
  "u64_checked_add a b = (if unat a + unat b < 2 ^ 64 then Some (a + b) else None)"

text \<open>The body of the relocation loop, on the offsets and the duration.\<close>

definition apply_relocation ::
  "board_id \<Rightarrow> runtime_values \<Rightarrow> u64 list \<times> u64 \<Rightarrow> time_relocation \<Rightarrow> link_error + u64 list \<times> u64" where
  "apply_relocation board runtime_values st relocation =
     (case st of (offsets, duration) \<Rightarrow>
        res_bind (ok_or (MissingRuntimeValue board (rel_runtime_value relocation))
            (runtime_values (rel_runtime_value relocation))) (\<lambda>value.
          case rel_target relocation of
            EventOffset event_index \<Rightarrow>
              if event_index < length offsets then Inr (offsets[event_index := value], duration)
              else Inl (InvalidEventIndex board event_index)
          | RelocateDuration \<Rightarrow> Inr (offsets, value)))"

definition link_event :: "board_id \<Rightarrow> u64 \<Rightarrow> relative_event \<times> u64 \<Rightarrow> link_error + linked_event" where
  "link_event board base_cycles eo =
     (case eo of (event, offset) \<Rightarrow>
        ok_or (TimestampOverflow board base_cycles offset)
          (map_option (\<lambda>timestamp. \<lparr>timestamp_cycles = timestamp, le_operation_id = re_operation_id event\<rparr>)
            (u64_checked_add base_cycles offset)))"

definition link_at ::
  "relative_board_fragment \<Rightarrow> u64 \<Rightarrow> runtime_values \<Rightarrow> link_error + linked_board_fragment" where
  "link_at self base_cycles runtime_values =
     res_bind (res_foldl (apply_relocation (frag_board self) runtime_values)
         (map offset_cycles (frag_events self), frag_duration_cycles self) (frag_time_relocations self))
       (\<lambda>(offsets, duration).
         res_bind (res_traverse (link_event (frag_board self) base_cycles) (zip (frag_events self) offsets)) (\<lambda>events.
           Inr \<lparr>linked_board = frag_board self, linked_duration_cycles = duration, linked_events = events\<rparr>))"

section \<open>Specification\<close>

text \<open>The value of the last relocation of a target, or what the template says.\<close>

definition bound_time :: "runtime_values \<Rightarrow> time_relocation list \<Rightarrow> time_relocation_target \<Rightarrow> u64 \<Rightarrow> u64" where
  "bound_time vals rels target dflt =
     (case find (\<lambda>r. rel_target r = target) (rev rels) of
        None \<Rightarrow> dflt
      | Some r \<Rightarrow> the (vals (rel_runtime_value r)))"

definition event_time :: "relative_board_fragment \<Rightarrow> runtime_values \<Rightarrow> nat \<Rightarrow> u64" where
  "event_time frag vals i =
     bound_time vals (frag_time_relocations frag) (EventOffset i) (offset_cycles (frag_events frag ! i))"

definition relocation_ok :: "relative_board_fragment \<Rightarrow> runtime_values \<Rightarrow> time_relocation \<Rightarrow> bool" where
  "relocation_ok frag vals r \<longleftrightarrow> vals (rel_runtime_value r) \<noteq> None
     \<and> (\<forall>i. rel_target r = EventOffset i \<longrightarrow> i < length (frag_events frag))"

definition linked_at :: "relative_board_fragment \<Rightarrow> u64 \<Rightarrow> runtime_values \<Rightarrow> linked_board_fragment" where
  "linked_at frag base vals =
     \<lparr>linked_board = frag_board frag,
      linked_duration_cycles = bound_time vals (frag_time_relocations frag) RelocateDuration (frag_duration_cycles frag),
      linked_events = map (\<lambda>i. \<lparr>timestamp_cycles = base + event_time frag vals i,
         le_operation_id = re_operation_id (frag_events frag ! i)\<rparr>) [0..<length (frag_events frag)]\<rparr>"

lemma find_append: "find P (xs @ ys) = (case find P xs of None \<Rightarrow> find P ys | Some x \<Rightarrow> Some x)"
  by (induction xs) auto

lemma bound_time_snoc:
  "bound_time vals (rels @ [r]) target d
     = (if rel_target r = target then the (vals (rel_runtime_value r)) else bound_time vals rels target d)"
  by (simp add: bound_time_def)

lemma relocations_result:
  assumes "\<forall>r\<in>set rels. vals (rel_runtime_value r) \<noteq> None \<and> (\<forall>i. rel_target r = EventOffset i \<longrightarrow> i < length os)"
  shows "res_foldl (apply_relocation board vals) (os, d) rels
    = Inr (map (\<lambda>i. bound_time vals rels (EventOffset i) (os ! i)) [0..<length os],
           bound_time vals rels RelocateDuration d)"
  using assms
proof (induction rels rule: rev_induct)
  case Nil
  then show ?case by (simp add: bound_time_def map_nth)
next
  case (snoc r rels)
  obtain v where v: "vals (rel_runtime_value r) = Some v" using snoc.prems by fastforce
  show ?case
  proof (cases "rel_target r")
    case (EventOffset i)
    then have "i < length os" using snoc.prems by simp
    then show ?thesis using snoc v EventOffset
      by (auto simp: res_foldl_append apply_relocation_def bound_time_snoc intro!: nth_equalityI simp: nth_list_update)
  next
    case RelocateDuration
    then show ?thesis using snoc v by (simp add: res_foldl_append apply_relocation_def bound_time_snoc)
  qed
qed

lemma apply_relocation_Inr:
  assumes "apply_relocation board vals (os, d) r = Inr (os', d')"
  shows "vals (rel_runtime_value r) \<noteq> None" "\<forall>i. rel_target r = EventOffset i \<longrightarrow> i < length os"
    "length os' = length os"
proof -
  from assms obtain v where v: "vals (rel_runtime_value r) = Some v"
    by (auto simp: apply_relocation_def res_bind_Inr_iff)
  then show "vals (rel_runtime_value r) \<noteq> None" by simp
  show "\<forall>i. rel_target r = EventOffset i \<longrightarrow> i < length os" "length os' = length os"
    using assms v by (cases "rel_target r"; auto simp: apply_relocation_def split: if_splits)+
qed

lemma relocations_only:
  assumes "res_foldl (apply_relocation board vals) (os, d) rels = Inr st"
  shows "\<forall>r\<in>set rels. vals (rel_runtime_value r) \<noteq> None \<and> (\<forall>i. rel_target r = EventOffset i \<longrightarrow> i < length os)"
  using assms
proof (induction rels arbitrary: os d)
  case (Cons r rels)
  then obtain os' d' where "apply_relocation board vals (os, d) r = Inr (os', d')"
    "res_foldl (apply_relocation board vals) (os', d') rels = Inr st" by (auto simp: res_bind_Inr_iff)
  then show ?case
    using Cons.IH [of os' d'] apply_relocation_Inr [of board vals os d r os' d'] by auto
qed simp

lemma link_events_iff:
  "(\<exists>es. res_traverse (link_event board base) xs = Inr es) \<longleftrightarrow> (\<forall>x\<in>set xs. unat base + unat (snd x) < 2 ^ 64)"
proof (induction xs)
  case (Cons x xs)
  show ?case using Cons.IH
    by (cases x) (auto simp: res_bind_Inr_iff link_event_def u64_checked_add_def)
qed simp

section \<open>Properties\<close>

definition linkable :: "relative_board_fragment \<Rightarrow> u64 \<Rightarrow> runtime_values \<Rightarrow> bool" where
  "linkable frag base vals \<longleftrightarrow> (\<forall>r\<in>set (frag_time_relocations frag). relocation_ok frag vals r)
     \<and> (\<forall>i<length (frag_events frag). unat base + unat (event_time frag vals i) < 2 ^ 64)"

lemma relocated:
  assumes "\<forall>r\<in>set (frag_time_relocations frag). relocation_ok frag vals r"
  shows "res_foldl (apply_relocation (frag_board frag) vals)
      (map offset_cycles (frag_events frag), frag_duration_cycles frag) (frag_time_relocations frag)
    = Inr (map (event_time frag vals) [0..<length (frag_events frag)],
        bound_time vals (frag_time_relocations frag) RelocateDuration (frag_duration_cycles frag))"
  using relocations_result [of "frag_time_relocations frag" vals "map offset_cycles (frag_events frag)"] assms
  by (simp add: relocation_ok_def event_time_def)

lemma zip_times:
  "zip (frag_events frag) (map (event_time frag vals) [0..<length (frag_events frag)])
     = map (\<lambda>i. (frag_events frag ! i, event_time frag vals i)) [0..<length (frag_events frag)]"
  by (rule nth_equalityI) simp_all

lemma link_at_linkable:
  assumes "linkable frag base vals"
  shows "link_at frag base vals = Inr (linked_at frag base vals)"
proof -
  let ?n = "length (frag_events frag)"
  have "res_traverse (link_event (frag_board frag) base)
      (map (\<lambda>i. (frag_events frag ! i, event_time frag vals i)) [0..<?n])
    = Inr (map (\<lambda>(e, t). \<lparr>timestamp_cycles = base + t, le_operation_id = re_operation_id e\<rparr>)
        (map (\<lambda>i. (frag_events frag ! i, event_time frag vals i)) [0..<?n]))"
    using assms
    by (intro res_traverse_Inr_total) (auto simp: linkable_def link_event_def u64_checked_add_def)
  then show ?thesis
    using relocated [of frag vals] assms
    by (simp add: link_at_def linked_at_def linkable_def zip_times comp_def)
qed

lemma link_at_only:
  assumes "link_at frag base vals = Inr l"
  shows "linkable frag base vals"
proof -
  from assms obtain os d es where f: "res_foldl (apply_relocation (frag_board frag) vals)
      (map offset_cycles (frag_events frag), frag_duration_cycles frag) (frag_time_relocations frag) = Inr (os, d)"
    and t: "res_traverse (link_event (frag_board frag) base) (zip (frag_events frag) os) = Inr es"
    by (auto simp: link_at_def res_bind_Inr_iff)
  have ok: "\<forall>r\<in>set (frag_time_relocations frag). relocation_ok frag vals r"
    using relocations_only [OF f] by (simp add: relocation_ok_def)
  with f have os: "os = map (event_time frag vals) [0..<length (frag_events frag)]" by (simp add: relocated)
  have "\<forall>x\<in>set (zip (frag_events frag) os). unat base + unat (snd x) < 2 ^ 64"
    using t link_events_iff [of "frag_board frag" base "zip (frag_events frag) os"] by blast
  then show ?thesis using ok unfolding os zip_times by (simp add: linkable_def)
qed

text \<open>
  C39. Linking succeeds exactly when every relocation has a runtime value and an existing event and no
  timestamp overflows 64 bits; it then gives each event the base plus the value of the last relocation
  of that event, or its offset in the template if there is none, and the duration likewise.
\<close>

theorem link_at_exact:
  "if linkable frag base vals then link_at frag base vals = Inr (linked_at frag base vals)
   else (\<exists>e. link_at frag base vals = Inl e)"
proof (cases "linkable frag base vals")
  case False
  then show ?thesis using link_at_only [of frag base vals] by (cases "link_at frag base vals") auto
qed (simp add: link_at_linkable)

text \<open>
  A linked fragment is only shifted: linked at two bases with the same runtime values, it has the
  same operations in the same order and the same distances from the base, with no wrap-around.
\<close>

theorem link_at_shift:
  assumes "link_at frag base vals = Inr l" "link_at frag base' vals = Inr l'"
  shows "linked_duration_cycles l' = linked_duration_cycles l
    \<and> map le_operation_id (linked_events l') = map le_operation_id (linked_events l)
    \<and> map (\<lambda>e. int (unat (timestamp_cycles e)) - int (unat base')) (linked_events l')
      = map (\<lambda>e. int (unat (timestamp_cycles e)) - int (unat base)) (linked_events l)"
proof -
  have l: "l = linked_at frag base vals" "l' = linked_at frag base' vals"
    using assms link_at_only [OF assms(1)] link_at_only [OF assms(2)] by (simp_all add: link_at_linkable)
  have "uint (b + event_time frag vals i) = uint b + uint (event_time frag vals i)"
    if "linkable frag b vals" "i < length (frag_events frag)" for b i
  proof -
    have "unat (b + event_time frag vals i) = unat b + unat (event_time frag vals i)"
      using that unat_word_ariths(1) [of b "event_time frag vals i"] by (simp add: linkable_def)
    from arg_cong [OF this, of int] show ?thesis by simp
  qed
  then show ?thesis
    using link_at_only [OF assms(1)] link_at_only [OF assms(2)] by (simp add: l linked_at_def)
qed

lemma relocation_error:
  assumes "res_foldl (apply_relocation board vals) (os, d) rels = Inl e"
  shows "\<exists>r\<in>set rels. (e = MissingRuntimeValue board (rel_runtime_value r) \<and> vals (rel_runtime_value r) = None)
    \<or> (\<exists>i. rel_target r = EventOffset i \<and> e = InvalidEventIndex board i \<and> length os \<le> i)"
  using assms
proof (induction rels arbitrary: os d)
  case (Cons r rels)
  show ?case
  proof (cases "apply_relocation board vals (os, d) r")
    case (Inl e')
    then show ?thesis using Cons.prems
      by (cases "vals (rel_runtime_value r)")
        (auto simp: apply_relocation_def split: time_relocation_target.splits if_splits)
  next
    case (Inr st)
    obtain os' d' where st: "st = (os', d')" by (cases st)
    have "length os' = length os" using Inr st by (auto dest: apply_relocation_Inr(3))
    then show ?thesis using Cons.IH [of os' d'] Cons.prems Inr st by auto
  qed
qed simp

lemma link_events_error:
  assumes "res_traverse (link_event board base) xs = Inl e"
  shows "\<exists>x\<in>set xs. e = TimestampOverflow board base (snd x) \<and> \<not> unat base + unat (snd x) < 2 ^ 64"
  using assms
proof (induction xs)
  case (Cons x xs)
  show ?case
  proof (cases "link_event board base x")
    case (Inl e')
    then show ?thesis using Cons.prems by (cases x) (auto simp: link_event_def u64_checked_add_def split: if_splits)
  next
    case (Inr y)
    then show ?thesis using Cons by (auto simp: res_bind_Inl_iff)
  qed
qed simp

text \<open>
  Errors name their cause: a missing value is one that a relocation of this fragment needs and the
  bindings lack, an invalid index is one that a relocation names and the fragment lacks, and an overflow
  is reported only when all relocations were applied and the named sum does exceed 64 bits.
\<close>

theorem link_at_errors:
  assumes "link_at frag base vals = Inl e"
  shows "(\<exists>r\<in>set (frag_time_relocations frag).
      (e = MissingRuntimeValue (frag_board frag) (rel_runtime_value r) \<and> vals (rel_runtime_value r) = None)
      \<or> (\<exists>i. rel_target r = EventOffset i \<and> e = InvalidEventIndex (frag_board frag) i \<and> length (frag_events frag) \<le> i))
    \<or> (\<exists>i<length (frag_events frag). e = TimestampOverflow (frag_board frag) base (event_time frag vals i)
        \<and> 2 ^ 64 \<le> unat base + unat (event_time frag vals i))"
proof (cases "res_foldl (apply_relocation (frag_board frag) vals)
      (map offset_cycles (frag_events frag), frag_duration_cycles frag) (frag_time_relocations frag)")
  case (Inl e')
  then show ?thesis using relocation_error [OF Inl] assms by (auto simp: link_at_def)
next
  case (Inr st)
  obtain os d where st: "st = (os, d)" by (cases st)
  have "\<forall>r\<in>set (frag_time_relocations frag). relocation_ok frag vals r"
    using relocations_only [OF Inr] by (simp add: relocation_ok_def)
  with Inr st have os: "os = map (event_time frag vals) [0..<length (frag_events frag)]" by (simp add: relocated)
  have "res_traverse (link_event (frag_board frag) base) (zip (frag_events frag) os) = Inl e"
    using assms Inr st by (auto simp: link_at_def res_bind_Inl_iff)
  from link_events_error [OF this] show ?thesis unfolding os zip_times by (force simp: not_less)
qed

definition sample_fragment :: relative_board_fragment where
  "sample_fragment = \<lparr>frag_board = BoardId 2, frag_duration_cycles = 50,
     frag_events = [\<lparr>offset_cycles = 4, re_operation_id = 1\<rparr>, \<lparr>offset_cycles = 9, re_operation_id = 2\<rparr>],
     frag_time_relocations = [\<lparr>rel_target = EventOffset 1, rel_runtime_value = 7\<rparr>]\<rparr>"

lemmas link_eval = sample_fragment_def link_at_def apply_relocation_def link_event_def u64_checked_add_def

theorem link_at_shift_witness:
  "\<exists>l l'. link_at sample_fragment 100 [7 \<mapsto> 30] = Inr l \<and> link_at sample_fragment 200 [7 \<mapsto> 30] = Inr l'
    \<and> map le_operation_id (linked_events l') = map le_operation_id (linked_events l)
    \<and> map (\<lambda>e. int (unat (timestamp_cycles e)) - int (unat (200 :: u64))) (linked_events l')
      = map (\<lambda>e. int (unat (timestamp_cycles e)) - int (unat (100 :: u64))) (linked_events l)"
proof -
  have "\<exists>l. link_at sample_fragment 100 [7 \<mapsto> 30] = Inr l" "\<exists>l. link_at sample_fragment 200 [7 \<mapsto> 30] = Inr l"
    by (simp_all add: link_eval)
  then show ?thesis using link_at_shift [of sample_fragment 100 "[7 \<mapsto> 30]" _ 200] by blast
qed

theorem link_at_errors_witness:
  "\<exists>e. link_at sample_fragment 100 Map.empty = Inl e \<and> e = MissingRuntimeValue (BoardId 2) 7"
proof -
  have "link_at sample_fragment 100 Map.empty = Inl (MissingRuntimeValue (BoardId 2) 7)"
    by (simp add: link_eval)
  with link_at_errors [OF this] show ?thesis by blast
qed

end
