(* ===== verification/Spec2Isabelle.thy ===== *)
theory Spec2Isabelle
  imports Hir_Reading Session_Soundness Plan_Soundness Partition_Soundness Execution_Soundness Native_Arenas Segment_Soundness Fragment_Linker
begin

text \<open>
  \<^bold>\<open>CatSeq in Isabelle/HOL\<close>

  CatSeq compiles pulse sequences, written in a restricted Python, to programs for RTMQ boards and runs
  them over RTLink frames on raw Ethernet.  The Rust workspace under \<open>src/rust\<close> has a core library of
  arenas (\<open>catseq-core\<close>), a backend (\<open>catseq-rtmq\<close>), a runtime (\<open>catseq-runtime\<close>), a frontend, a
  compiler driver and Python bindings.  This development models the core data structures, the source front
  end from syntax trees to the segmented store, the whole back end from native arenas to call plans, the
  instruction codec, the fragment linker and the whole of the runtime, each from its source file, and
  proves what makes it correct.

  \<^bold>\<open>Conventions.\<close>  Structs are records, enums are datatypes, \<open>Result\<close> is a sum with the error on the
  left, and a panic is the value \<open>None\<close> or an explicit error.  Fixed-width integers are words
  (\<open>u8\<close>, \<open>u32\<close>, \<open>u64\<close>; a cast \<open>as u32\<close> is \<open>of_nat\<close>, an index is \<open>unat\<close>), signed and 128-bit quantities of the
  decimals are integers with their ranges written out.  Hash maps are partial maps.  State is passed
  explicitly.  Loops are structural recursion or functions with a termination proof; nothing uses fuel
  except the unfolding of a store into trees, whose depth is bounded by the index of the node
  (\<open>Dag_Store.unfold_enough\<close>), and only three loops are partial functions: the traversal of event lowering,
  the resolution of dotted names and the worklist of arena lowering, for which
  \<open>Plan_Soundness.call_plan_returns\<close>, \<open>Topology_Soundness.resolve_path_returns\<close> and
  \<open>Arena_Soundness.lower_sequence_hir_ok\<close> show that they return.  Messages of errors are not modelled, their
  kinds are.

  \<^bold>\<open>Theories\<close>, in the order of the code they model:

  \<^item> \<open>Prelude\<close>: results, checked slices, integer ranges, big-endian bytes, the simp collections
    \<open>res_simps\<close> and \<open>slice_simps\<close>.
  \<^item> \<open>Exact_Decimal\<close> (\<open>catseq-core/src/exact_decimal.rs\<close>): normalised fractions, parsing of decimal
    literals, conversion to cycles.  Arithmetic is exact, parsing denotes the literal, rounded conversion
    is rounding half to even.
  \<^item> \<open>Dag_Store\<close>: the tree that a node of an index-based store stands for, its stability under growth and
    renumbering, and the worklist that marks reachable nodes.
  \<^item> \<open>Value_Expr\<close> (\<open>value_expr.rs\<close>): the arena of value expressions with validation and builder;
    validation is exact and the builder implements construction of trees.
  \<^item> \<open>Morphism_Arena\<close>, \<open>Morphism_Soundness\<close> (\<open>morphism_arena.rs\<close>): the canonical morphism DAG, its
    validation and the builder with interning, flattening and the pruning \<open>finish\<close>.  The relation \<open>built\<close>
    is what the operations can produce; every operation has its meaning on trees whose labels carry the
    looked-up names, arguments and calls, serial composition is associative, and \<open>finish\<close> keeps the trees.
    The locale \<open>interner\<close> is the contract of the three interning tables.
  \<^item> \<open>Native_Arenas\<close> (\<open>native_arenas.rs\<close>): the checked pair of both arenas, and that what the builders
    produce is accepted.
  \<^item> \<open>Segment_Store\<close>, \<open>Segment_Soundness\<close> (\<open>arena.rs\<close>): the shared segmented store.  \<open>store_step\<close> has one
    rule per operation; references stay valid, frozen segments never change, templates depend on
    templates only, the two critical sections of \<open>compose\<close> may be interleaved with other operations, and
    the statistics of a frozen program count exactly what is reachable.
  \<^item> \<open>Definition_Registry\<close> (\<open>definitions.rs\<close>): the table of template definitions (locale \<open>append_table\<close>) and
    the specialization cache (locale \<open>memo\<close>), which answers what the compiler would and runs it once per
    key that succeeds.
  \<^item> \<open>Fragment_Linker\<close> (\<open>catseq-rtmq/src/lib.rs\<close>): relocation of a board fragment, equal to a reference
    linker, with overflow and the causes of its errors.
  \<^item> \<open>Syntax_Tree\<close>, \<open>Sequence_Hir\<close> (\<open>catseq-frontend/src/hir.rs\<close>): nodes of the Python parser, the expressions of a
    sequence function and their construction.  \<open>Hir_Soundness\<close>: operands are earlier expressions (locale
    \<open>sound_lowering\<close>, the contract between the cases of an expression and the lowering of its operands).
    \<open>Hir_Reading\<close>: the expressions hold the tree that the body \<open>returns\<close>, with local variables replaced (locale
    \<open>reading_lowering\<close>).
  \<^item> \<open>Source_Module\<close> (\<open>lib.rs\<close>, \<open>names.rs\<close>), \<open>Scan_Topology\<close> (\<open>validate.rs\<close>), \<open>Topology_Soundness\<close>: imports, sequence
    functions, dotted names, scan slots and the check that scan values do not change the topology; every query
    returns, scan slots are those of the specification \<open>scan_use\<close>, equal keys share a runtime value and the check is
    exact.  \<open>Source_Example\<close> is a file on which the
    properties are instantiated.
  \<^item> \<open>Arena_Lowering\<close>, \<open>Arena_Soundness\<close> (\<open>arena_lowering.rs\<close>): the morphisms of a sequence as nodes of a segment; the
    relation \<open>represents\<close> says what a node stands for.
  \<^item> \<open>Source_Session\<close>, \<open>Session_Soundness\<close> (\<open>session.rs\<close>): the session with its caches of modules and artifacts,
    which are transparent: answers are \<open>source_meaning\<close>, which knows neither caches nor store.
  \<^item> \<open>Call_Plan_Model\<close> (\<open>catseq-rtmq/src/oasm_call_plan/model.rs\<close>, \<open>validate.rs\<close>): the inputs, the plan and the
    events between the passes, the errors, and the validation of inputs.
  \<^item> \<open>Value_Eval\<close>, \<open>Json_Arguments\<close> (\<open>value_eval.rs\<close>): evaluation of value expressions, which computes the value
    of the expression tree with exact durations and respects the declared types, and the arguments of calls, in which references to
    expressions are resolved completely.
  \<^item> \<open>Dag_Pass\<close>, \<open>Resolved_Arena\<close>: a pass over an arena as a fold over its trees (locale \<open>dag_pass\<close>), and what
    a finished arena offers to such a pass.
  \<^item> \<open>Epoch_Soundness\<close> (\<open>epochs.rs\<close>), \<open>Timing_Analysis\<close>, \<open>Timing_Soundness\<close> (\<open>timing.rs\<close>): both analyses compute
    the counts of synchronisations and the timing of the expanded tree; the epoch pass fails exactly when the tree has
    no count, the timing pass only if some tree has no timing in 64 bits, for programs whose loops run at least once.
  \<^item> \<open>Abi_Cost\<close> (\<open>abi_cost.rs\<close>), \<open>Board_Scheduler\<close>, \<open>Scheduler_Soundness\<close>, \<open>Partition_Soundness\<close> (\<open>scheduler.rs\<close>):
    costs of calls and the schedule of a board in one epoch: in order, with calls as early as possible, and with exactly the
    preloads and plays dropped, the preloads moved and the calls joined that the specification says.
  \<^item> \<open>Atomic_Lowering\<close>, \<open>Atomic_Soundness\<close> (\<open>atomic_lowering.rs\<close>): the events of one operation on a channel; RWG
    channels follow the automaton \<open>rwg_moves\<close>, whose edges are written out.
  \<^item> \<open>Event_Lowering\<close>, \<open>Traversal_Soundness\<close>, \<open>Lowering_Soundness\<close> (\<open>event_lowering.rs\<close>): the traversal of the
    program with an explicit stack.  It equals the recursive reading \<open>lowered\<close>; the locale
    \<open>lowering_invariant\<close> carries invariants of single tasks to the whole; epochs are numbered without gaps,
    loads and plays are paired, and the exclusivity check of blackboxes is exact.
  \<^item> \<open>Plan_Builder\<close>, \<open>Loop_Soundness\<close>, \<open>Plan_Soundness\<close> (\<open>loop_lowering.rs\<close>, \<open>plan_builder.rs\<close>,
    \<open>oasm_call_plan.rs\<close>): loop timing only delays, by exactly the excess of the bodies, boards are aligned at synchronisations, and the back end as a whole returns a plan or an error.
  \<^item> \<open>Rtmq_Isa\<close> (\<open>catseq-rtmq/src/isa.rs\<close>): encoder and decoder of the RTMQ instructions; they are inverse
    up to the alias of the no-op.
  \<^item> \<open>Download_Loader\<close> (\<open>download.rs\<close>): the program that downloads a sequence; decoded again, it writes
    exactly the words of the sequence.
  \<^item> \<open>Rtlink_Frame\<close> (\<open>catseq-runtime/src/protocol/rtlink.rs\<close>): the 14-byte frames and word streams.
  \<^item> \<open>Runtime_Model\<close> (\<open>model.rs\<close>): board addresses, program and configuration, the handoff check.
  \<^item> \<open>Transport\<close> (\<open>transport/mod.rs\<close>, \<open>transport/raw_socket.rs\<close>): the transport trait as a record of
    operations, the in-memory transport, the packet layout, and the locales \<open>logged_transport\<close> and
    \<open>bounded_transport\<close> that the execution relies on.
  \<^item> \<open>Runtime_Execution\<close>, \<open>Execution_Soundness\<close> (\<open>execution.rs\<close>): prepare, dispatch with retries and
    monitor over any transport; what success, \<open>NotStarted\<close> and \<open>FullyObserved\<close> imply, and that a run
    returns and completes.

  \<^bold>\<open>How the parts meet.\<close>  A session parses a \<open>Source_Module\<close>, lowers a function to a \<open>Sequence_Hir\<close>, checks it
  and writes its morphisms into \<open>Segment_Store\<close>, where it publishes them as a template.  The builders of \<open>Value_Expr\<close> and \<open>Morphism_Arena\<close> feed \<open>Native_Arenas\<close>, which the
  back end takes: \<open>analyze_timing\<close> and \<open>analyze_epochs\<close> fill tables by node, \<open>lower_events\<close> turns them into
  events, \<open>apply_loop_timing\<close> moves these and \<open>compile_board\<close> schedules them board by board; a
  template of \<open>Segment_Store\<close> is registered in \<open>Definition_Registry\<close>, whose runtime values are bound by
  \<open>Fragment_Linker\<close>; \<open>Download_Loader\<close> encodes with \<open>Rtmq_Isa\<close> and is framed by \<open>Rtlink_Frame\<close> inside
  \<open>Runtime_Execution\<close>, which talks to a \<open>Transport\<close>.

  \<^bold>\<open>Bounds.\<close>  Casts to 32 bits lose information beyond \<open>2^32\<close> entries; theorems about ids assume that
  the tables are smaller (\<open>mb_small\<close>, \<open>store_small\<close>, \<open>ve_room\<close>, \<open>request_fits\<close>), which is what keeps an id valid in the code.
  The back end is given channel numbers below 64, since masks are shifts by them, and programs that cross
  fewer than \<open>2^32 - 1\<close> synchronisations.  A builder is given only ids that it returned (\<open>op_ok\<close>), since \<open>loop_region\<close> and \<open>opaque\<close> check nothing.

  \<^bold>\<open>Not modelled.\<close>  Operations on IEEE doubles, which are parameters (\<open>f64_ops\<close>, \<open>f64_arith\<close>); the system
  calls of the raw socket; locks and reference counts (an operation under a lock is one step); the
  Python parser, which is a parameter from source text to a syntax tree; the typed front end
  (\<open>source_hir.rs\<close>, \<open>typed\<close>, \<open>morphism_lowering\<close>) and its incremental queries; the compiler driver, its JSON
  protocol and the Python bindings.
\<close>

end
